(* ===== verification/Prelude.thy ===== *)
theory Prelude
  imports Main "HOL-Library.Word"
begin

unbundle bit_operations_syntax

text \<open>
  Shared vocabulary of the development: the machine integers and byte strings of the Rust
  sources, big- and little-endian encodings, slices and in-place copies of byte buffers,
  saturating arithmetic, and two interfaces every component theory uses: fixed-layout codecs
  (a builder with its parser) and state machines with an invariant.

  Conventions. A Rust integer of width w is a \<open>w word\<close>; \<open>+\<close> wraps, as it does in the release
  profile the crate ships with. \<open>usize\<close> quantities that are lengths are \<open>nat\<close>. A \<open>Vec<u8>\<close>, a
  slice and a fixed array are all \<open>bytes\<close>; the length of a fixed array is a well-formedness
  condition where a property needs it. \<open>Instant\<close> and \<open>Duration\<close> are \<open>nat\<close> nanoseconds, the
  current time is an argument, and \<open>duration_since\<close> saturates at zero like \<open>nat\<close> subtraction.
  A panic is \<open>Panic\<close> of the result type \<open>rust\<close>.
\<close>

section \<open>Machine integers and byte strings\<close>

type_synonym u8 = "8 word"
type_synonym u16 = "16 word"
type_synonym u32 = "32 word"
type_synonym u64 = "64 word"
type_synonym u128 = "128 word"
type_synonym bytes = "u8 list"
type_synonym instant = nat
type_synonym duration = nat

text \<open>The result of a fallible call: a value, an \<open>Err\<close>, or a panic (\<open>expect\<close>, \<open>assert!\<close>).\<close>

datatype ('a, 'e) rust = Ok 'a | Err 'e | Panic

named_theorems wire_simps \<open>lengths and reads of wire buffers\<close>

definition sat_sub :: "'a::len word \<Rightarrow> 'a word \<Rightarrow> 'a word" where
  "sat_sub a b = (if a < b then 0 else a - b)"

definition sat_add :: "'a::len word \<Rightarrow> 'a word \<Rightarrow> 'a word" where
  "sat_add a b = (if unat a + unat b < 2 ^ LENGTH('a) then a + b else - 1)"

definition zeros :: "nat \<Rightarrow> bytes" where
  "zeros n = replicate n 0"

definition ascii :: "string \<Rightarrow> bytes" where
  "ascii s = map of_char s"

definition secs :: "nat \<Rightarrow> duration" where
  "secs n = n * 1000000000"

definition millis :: "nat \<Rightarrow> duration" where
  "millis n = n * 1000000"

definition micros :: "nat \<Rightarrow> duration" where
  "micros n = n * 1000"

lemma unat_sat_sub: "unat (sat_sub a b) = unat a - unat b"
  by (cases "a < b") (auto simp: sat_sub_def word_less_nat_alt unat_sub word_le_nat_alt not_less)

lemma unat_bound: "unat (x :: 'a::len word) < 2 ^ LENGTH('a)"
  by (rule unsigned_less)

lemma unat_max_word: "unat (- 1 :: 'a::len word) = 2 ^ LENGTH('a) - 1"
  by (simp add: unsigned_minus_1_eq_mask mask_eq_exp_minus_1)

lemma unat_sat_add: "unat (sat_add (a :: 'a::len word) b) = min (unat a + unat b) (2 ^ LENGTH('a) - 1)"
  by (auto simp: sat_add_def unat_word_ariths unat_max_word)

lemma unat_plus_one: "x \<noteq> - 1 \<Longrightarrow> unat (x + 1) = Suc (unat (x :: 'a::len word))"
  by (metis add.commute add_eq_0_iff unatSuc)

lemma unat_ucast_mod: "unat (ucast (x :: 'a::len word) :: 'b::len word) = unat x mod 2 ^ LENGTH('b)"
  by (simp add: unsigned_ucast_eq take_bit_eq_mod)

lemma word_not_max: "x < y \<Longrightarrow> x \<noteq> (- 1 :: 'a::len word)"
  by (metis word_not_simps(3))

lemma length_zeros [simp, wire_simps]: "length (zeros n) = n"
  by (simp add: zeros_def)

lemma zeros_0 [simp]: "zeros 0 = []"
  by (simp add: zeros_def)

lemma nth_zeros [simp]: "i < n \<Longrightarrow> zeros n ! i = 0"
  by (simp add: zeros_def)

lemma take_zeros [simp]: "take k (zeros n) = zeros (min k n)"
  by (simp add: zeros_def)

lemma drop_zeros [simp]: "drop k (zeros n) = zeros (n - k)"
  by (simp add: zeros_def)

lemma length_ascii [simp, wire_simps]: "length (ascii s) = length s"
  by (simp add: ascii_def)

section \<open>Endianness\<close>

text \<open>\<open>x.to_be_bytes()\<close> and \<open>from_be_bytes\<close> for n-byte integers, over \<open>nat\<close>.\<close>

fun be_nat :: "nat \<Rightarrow> nat \<Rightarrow> bytes" where
  "be_nat 0 k = []"
| "be_nat (Suc n) k = be_nat n (k div 256) @ [of_nat (k mod 256)]"

definition nat_be :: "bytes \<Rightarrow> nat" where
  "nat_be bs = foldl (\<lambda>a b. a * 256 + unat b) 0 bs"

definition be_u16 :: "u16 \<Rightarrow> bytes" where "be_u16 x = be_nat 2 (unat x)"
definition be_u32 :: "u32 \<Rightarrow> bytes" where "be_u32 x = be_nat 4 (unat x)"
definition be_u64 :: "u64 \<Rightarrow> bytes" where "be_u64 x = be_nat 8 (unat x)"
definition le_u64 :: "u64 \<Rightarrow> bytes" where "le_u64 x = rev (be_u64 x)"

definition u16_be :: "bytes \<Rightarrow> u16" where "u16_be bs = of_nat (nat_be bs)"
definition u32_be :: "bytes \<Rightarrow> u32" where "u32_be bs = of_nat (nat_be bs)"
definition u64_be :: "bytes \<Rightarrow> u64" where "u64_be bs = of_nat (nat_be bs)"
definition u64_le :: "bytes \<Rightarrow> u64" where "u64_le bs = u64_be (rev bs)"

lemma length_be_nat [simp]: "length (be_nat n k) = n"
  by (induction n arbitrary: k) auto

lemma nat_be_snoc [simp]: "nat_be (bs @ [b]) = nat_be bs * 256 + unat b"
  by (simp add: nat_be_def)

lemma nat_be_Nil [simp]: "nat_be [] = 0"
  by (simp add: nat_be_def)

lemma unat_byte_of_nat [simp]: "unat (of_nat (k mod 256) :: u8) = k mod 256"
  by (simp add: unat_of_nat)

lemma nat_be_be_nat: "k < 256 ^ n \<Longrightarrow> nat_be (be_nat n k) = k"
proof (induction n arbitrary: k)
  case (Suc n)
  have "k div 256 < 256 ^ n"
    using Suc.prems by (simp add: less_mult_imp_div_less mult.commute)
  with Suc.IH show ?case by simp
qed simp

lemma nat_be_less: "nat_be bs < 256 ^ length bs"
proof (induction bs rule: rev_induct)
  case (snoc b bs)
  have "unat b < 256" using unat_bound [of b] by simp
  then have "nat_be bs * 256 + unat b < (nat_be bs + 1) * 256" by simp
  also have "\<dots> \<le> 256 ^ length bs * 256"
    using snoc.IH by (intro mult_right_mono) auto
  finally show ?case by simp
qed simp

lemma be_nat_nat_be: "length bs = n \<Longrightarrow> be_nat n (nat_be bs) = bs"
proof (induction n arbitrary: bs)
  case (Suc n)
  then obtain cs b where bs: "bs = cs @ [b]" "length cs = n"
    by (metis length_Suc_conv_rev)
  have b: "unat b < 256" using unat_bound [of b] by simp
  then have "(nat_be cs * 256 + unat b) div 256 = nat_be cs"
    "(nat_be cs * 256 + unat b) mod 256 = unat b" by auto
  then show ?case using bs Suc.IH [of cs] by simp
qed simp

lemma be_nat_add: "be_nat (m + n) k = be_nat m (k div 256 ^ n) @ be_nat n k"
  by (induction n arbitrary: k) (auto simp: div_mult2_eq)

lemma be_nat_zero: "be_nat n (k * 256 ^ n) = zeros n"
proof (induction n arbitrary: k)
  case (Suc n)
  have "k * 256 ^ Suc n = (k * 256 ^ n) * 256" by simp
  then show ?case using Suc by (simp add: zeros_def replicate_append_same)
qed (simp add: zeros_def)

lemma length_be [simp, wire_simps]:
  "length (be_u16 a) = 2" "length (be_u32 b) = 4" "length (be_u64 c) = 8" "length (le_u64 c) = 8"
  by (simp_all add: be_u16_def be_u32_def be_u64_def le_u64_def)

lemma be_roundtrip [simp, wire_simps]:
  "u16_be (be_u16 a) = a" "u32_be (be_u32 b) = b" "u64_be (be_u64 c) = c"
  using unat_bound [of a] unat_bound [of b] unat_bound [of c]
  by (simp_all add: u16_be_def be_u16_def u32_be_def be_u32_def u64_be_def be_u64_def nat_be_be_nat)

lemma le_roundtrip [simp, wire_simps]: "u64_le (le_u64 c) = c"
  by (simp add: u64_le_def le_u64_def)

lemma be_inject [simp]:
  "be_u16 a = be_u16 a' \<longleftrightarrow> a = a'" "be_u32 b = be_u32 b' \<longleftrightarrow> b = b'" "be_u64 c = be_u64 c' \<longleftrightarrow> c = c'"
  by (metis be_roundtrip)+

lemma be_reread:
  "length a = 2 \<Longrightarrow> be_u16 (u16_be a) = a" "length b = 4 \<Longrightarrow> be_u32 (u32_be b) = b" "length c = 8 \<Longrightarrow> be_u64 (u64_be c) = c"
  using nat_be_less [of a] nat_be_less [of b] nat_be_less [of c]
  by (simp_all add: u16_be_def be_u16_def u32_be_def be_u32_def u64_be_def be_u64_def be_nat_nat_be unat_of_nat)

lemma unat_u16_be_of_nat: "n < 65536 \<Longrightarrow> unat (of_nat n :: u16) = n"
  by (simp add: unat_of_nat)

section \<open>Slices and in-place copies\<close>

text \<open>\<open>&xs[a..b]\<close>, for \<open>a \<le> b \<le> xs.len()\<close> (Rust panics otherwise; every use below is guarded).\<close>

definition slice :: "nat \<Rightarrow> nat \<Rightarrow> 'a list \<Rightarrow> 'a list" where
  "slice a b xs = take (b - a) (drop a xs)"

text \<open>\<open>dst[off..off + src.len()].copy_from_slice(src)\<close>, for a region inside \<open>dst\<close>.\<close>

definition copy_at :: "nat \<Rightarrow> 'a list \<Rightarrow> 'a list \<Rightarrow> 'a list" where
  "copy_at off src dst = take off dst @ src @ drop (off + length src) dst"

lemma length_slice [simp, wire_simps]: "length (slice a b xs) = min (b - a) (length xs - a)"
  by (simp add: slice_def)

lemma length_copy_at [simp, wire_simps]:
  "off + length src \<le> length dst \<Longrightarrow> length (copy_at off src dst) = length dst"
  by (simp add: copy_at_def)

lemma slice_alt: "slice a b xs = drop a (take b xs)"
  by (cases "a \<le> b") (simp_all add: slice_def take_drop)

lemma slice_copy_same [wire_simps]:
  "b = off + length src \<Longrightarrow> b \<le> length dst \<Longrightarrow> slice off b (copy_at off src dst) = src"
  by (simp add: slice_def copy_at_def)

lemma slice_copy_before [wire_simps]:
  "b \<le> off \<Longrightarrow> off \<le> length dst \<Longrightarrow> slice a b (copy_at off src dst) = slice a b dst"
  by (simp add: slice_alt copy_at_def min_def)

lemma slice_copy_after [wire_simps]:
  "off + length src \<le> a \<Longrightarrow> off + length src \<le> length dst \<Longrightarrow>
   slice a b (copy_at off src dst) = slice a b dst"
  by (simp add: slice_def copy_at_def)

lemma slice_append1 [wire_simps]: "b \<le> length xs \<Longrightarrow> slice a b (xs @ ys) = slice a b xs"
  by (simp add: slice_def)

lemma slice_append2 [wire_simps]:
  "length xs \<le> a \<Longrightarrow> slice a b (xs @ ys) = slice (a - length xs) (b - length xs) ys"
  by (simp add: slice_def)

lemma slices_join: "a \<le> b \<Longrightarrow> slice a b xs @ drop b xs = drop a xs"
  by (metis append_take_drop_id drop_drop le_add_diff_inverse2 slice_def)

lemma slice_full: "length xs = n \<Longrightarrow> slice 0 n xs = xs"
  by (simp add: slice_def)

lemma slice_0: "slice 0 n xs = take n xs"
  by (simp add: slice_def)

lemma nth_slice: "i < b - a \<Longrightarrow> a + i < length xs \<Longrightarrow> slice a b xs ! i = xs ! (a + i)"
  by (simp add: slice_def)

lemma nth_copy_before [wire_simps]: "i < off \<Longrightarrow> off \<le> length dst \<Longrightarrow> copy_at off src dst ! i = dst ! i"
  by (simp add: copy_at_def nth_append)

lemma nth_copy_in:
  "off \<le> i \<Longrightarrow> i < off + length src \<Longrightarrow> off \<le> length dst \<Longrightarrow> copy_at off src dst ! i = src ! (i - off)"
  by (auto simp: copy_at_def nth_append)

lemma nth_copy_after [wire_simps]:
  "off + length src \<le> i \<Longrightarrow> off + length src \<le> length dst \<Longrightarrow> copy_at off src dst ! i = dst ! i"
  by (auto simp: copy_at_def nth_append)

lemma slice_list_update [wire_simps]: "i < a \<or> b \<le> i \<Longrightarrow> slice a b (xs[i := v]) = slice a b xs"
  by (rule nth_equalityI) (auto simp: nth_slice nth_list_update slice_def)

lemma take_copy_at [wire_simps]:
  "n \<le> off \<Longrightarrow> off \<le> length dst \<Longrightarrow> take n (copy_at off src dst) = take n dst"
  by (simp add: copy_at_def min_def)

section \<open>Strings\<close>

text \<open>The order of \<open>str\<close>: lexicographic on bytes.\<close>

fun str_less :: "bytes \<Rightarrow> bytes \<Rightarrow> bool" where
  "str_less _ [] = False"
| "str_less [] (_ # _) = True"
| "str_less (a # as) (b # bs) = (a < b \<or> (a = b \<and> str_less as bs))"

lemma str_less_total: "a \<noteq> b \<Longrightarrow> str_less a b \<noteq> str_less b a"
  by (induction a b rule: str_less.induct) (auto simp: neq_Nil_conv)

lemma str_less_irrefl [simp]: "\<not> str_less a a"
  by (induction a) auto

section \<open>Magics, optional reads and signers\<close>

text \<open>\<open>data.starts_with(magic)\<close>, \<open>data.get(i)\<close> and \<open>data.get(a..b)\<close>.\<close>

definition starts_with :: "bytes \<Rightarrow> bytes \<Rightarrow> bool" where
  "starts_with magic data \<longleftrightarrow> take (length magic) data = magic"

definition get_at :: "'a list \<Rightarrow> nat \<Rightarrow> 'a option" where
  "get_at xs i = (if i < length xs then Some (xs ! i) else None)"

definition get_range :: "'a list \<Rightarrow> nat \<Rightarrow> nat \<Rightarrow> 'a list option" where
  "get_range xs a b = (if a \<le> b \<and> b \<le> length xs then Some (slice a b xs) else None)"

text \<open>A signing callback: the type \<open>impl Fn(&[u8]) -> [u8; 64]\<close>.\<close>

definition signer :: "(bytes \<Rightarrow> bytes) \<Rightarrow> bool" where
  "signer sign \<longleftrightarrow> (\<forall>m. length (sign m) = 64)"

lemma starts_with_copy:
  "length m = 16 \<Longrightarrow> length m' = 16 \<Longrightarrow> 16 \<le> length d \<Longrightarrow> starts_with m (copy_at 0 m' d) \<longleftrightarrow> m = m'"
  by (auto simp: starts_with_def copy_at_def)

lemma starts_with_later:
  "length m = 16 \<Longrightarrow> 16 \<le> off \<Longrightarrow> off \<le> length d \<Longrightarrow> starts_with m (copy_at off s d) \<longleftrightarrow> starts_with m d"
  by (simp add: starts_with_def copy_at_def)

lemma signerD: "signer sign \<Longrightarrow> length (sign m) = 64"
  by (simp add: signer_def)

section \<open>Interfaces\<close>

text \<open>
  A fixed-layout codec: a builder \<open>enc\<close>, its parser \<open>dec\<close> and the values the builder is meant
  for. What every parser of the wire formats promises is that it inverts its builder; that the
  wire form determines the value follows once, here.
\<close>

locale wire_codec =
  fixes enc :: "'a \<Rightarrow> bytes" and dec :: "bytes \<Rightarrow> 'b option" and view :: "'a \<Rightarrow> 'b"
    and valid :: "'a \<Rightarrow> bool"
  assumes dec_enc: "valid x \<Longrightarrow> dec (enc x) = Some (view x)"
begin

lemma enc_determines: "valid x \<Longrightarrow> valid y \<Longrightarrow> enc x = enc y \<Longrightarrow> view x = view y"
  using dec_enc [of x] dec_enc [of y] by simp

lemma enc_not_rejected: "valid x \<Longrightarrow> dec (enc x) \<noteq> None"
  by (simp add: dec_enc)

lemma dec_map_enc: "list_all valid xs \<Longrightarrow> those (map (dec \<circ> enc) xs) = Some (map view xs)"
  by (induction xs) (auto simp: dec_enc)

end

text \<open>
  A state machine with an invariant: what one operation keeps, every run of operations keeps.
\<close>

locale state_machine =
  fixes step :: "'s \<Rightarrow> 'e \<Rightarrow> 's" and inv :: "'s \<Rightarrow> bool"
  assumes step_inv: "inv s \<Longrightarrow> inv (step s e)"
begin

lemma run_inv: "inv s \<Longrightarrow> inv (foldl step s es)"
  by (induction es arbitrary: s) (auto simp: step_inv)

lemma run_prefix_inv: "inv s \<Longrightarrow> inv (foldl step s (take n es))"
  by (rule run_inv)

end

text \<open>Socket addresses: an address family with its octets, and a port.\<close>

datatype ip_addr = V4 u8 u8 u8 u8 | V6 bytes

record sock_addr =
  sa_ip :: ip_addr
  sa_port :: u16

definition demo_addr :: sock_addr where "demo_addr = \<lparr>sa_ip = V4 10 0 0 1, sa_port = 7000\<rparr>"

end
