(* ===== verification/Crates.thy ===== *)
theory Crates
  imports Prelude
begin

unbundle bit_operations_syntax

text \<open>
  The third-party crates the sources call: chacha20poly1305, hkdf, hmac, sha2,
  reed-solomon-erasure, x25519-dalek, ml-kem, ed25519-dalek and ml-dsa. Their code is not part of the repository, so each
  call is a field of the record \<open>crates\<close> that the definitions take as an argument, and what the
  code relies on is a named predicate over it: decryption inverts encryption, the tag is 16 bytes,
  a successful decryption authenticates its input, the erasure code recovers a lost shard, output
  lengths are as documented, and a key exchange gives both ends one secret. The last section
  gives one concrete record that satisfies all of these laws together.
\<close>

section \<open>The calls\<close>

record crates =
  xchacha_encrypt :: "bytes \<Rightarrow> bytes \<Rightarrow> bytes \<Rightarrow> bytes \<Rightarrow> bytes"          \<comment> \<open>key, nonce, aad, plaintext\<close>
  xchacha_decrypt :: "bytes \<Rightarrow> bytes \<Rightarrow> bytes \<Rightarrow> bytes \<Rightarrow> bytes option"   \<comment> \<open>key, nonce, aad, sealed\<close>
  chacha_encrypt :: "bytes \<Rightarrow> bytes \<Rightarrow> bytes \<Rightarrow> bytes \<Rightarrow> bytes"
  chacha_decrypt :: "bytes \<Rightarrow> bytes \<Rightarrow> bytes \<Rightarrow> bytes \<Rightarrow> bytes option"
  hkdf_sha256 :: "bytes \<Rightarrow> bytes \<Rightarrow> bytes \<Rightarrow> nat \<Rightarrow> bytes"                \<comment> \<open>salt, ikm, info, length\<close>
  hmac_sha256 :: "bytes \<Rightarrow> bytes \<Rightarrow> bytes"                               \<comment> \<open>key, data\<close>
  sha256 :: "bytes \<Rightarrow> bytes"
  rs_encode_sep :: "bytes \<Rightarrow> bytes \<Rightarrow> bytes option"       \<comment> \<open>data shards 0, 1 to parity; \<open>None\<close> is \<open>Err\<close>\<close>
  rs_reconstruct :: "bytes option list \<Rightarrow> bytes option list option"       \<comment> \<open>\<open>None\<close> is \<open>Err\<close>\<close>
  x25519_public :: "bytes \<Rightarrow> bytes"                                    \<comment> \<open>of a secret\<close>
  x25519_dh :: "bytes \<Rightarrow> bytes \<Rightarrow> bytes"                               \<comment> \<open>secret, peer public key\<close>
  mlkem_public :: "bytes \<Rightarrow> bytes"                                     \<comment> \<open>encapsulation key of a decapsulation key\<close>
  mlkem_encapsulate :: "bytes \<Rightarrow> bytes \<Rightarrow> (bytes \<times> bytes) option"     \<comment> \<open>randomness, encapsulation key; \<open>None\<close> is \<open>Err\<close>\<close>
  mlkem_decapsulate :: "bytes \<Rightarrow> bytes \<Rightarrow> bytes"                       \<comment> \<open>decapsulation key, ciphertext\<close>
  mlkem768_public :: "bytes \<Rightarrow> bytes"
  mlkem768_encapsulate :: "bytes \<Rightarrow> bytes \<Rightarrow> (bytes \<times> bytes) option"
  mlkem768_decapsulate :: "bytes \<Rightarrow> bytes \<Rightarrow> bytes"
  ed25519_public :: "bytes \<Rightarrow> bytes"                                   \<comment> \<open>of a seed\<close>
  ed25519_sign :: "bytes \<Rightarrow> bytes \<Rightarrow> bytes"                            \<comment> \<open>seed, message\<close>
  ed25519_verify :: "bytes \<Rightarrow> bytes \<Rightarrow> bytes \<Rightarrow> bool"    \<comment> \<open>key, message, signature; a bad key is \<open>False\<close>\<close>
  mldsa_public :: "bytes \<Rightarrow> bytes"
  mldsa_sign :: "bytes \<Rightarrow> bytes \<Rightarrow> bytes"
  mldsa_verify :: "bytes \<Rightarrow> bytes \<Rightarrow> bytes \<Rightarrow> bool"

section \<open>The laws\<close>

definition aead_law ::
  "(bytes \<Rightarrow> bytes \<Rightarrow> bytes \<Rightarrow> bytes \<Rightarrow> bytes) \<Rightarrow> (bytes \<Rightarrow> bytes \<Rightarrow> bytes \<Rightarrow> bytes \<Rightarrow> bytes option) \<Rightarrow> bool" where
  "aead_law enc dec \<longleftrightarrow>
     (\<forall>k n aad m. length (enc k n aad m) = length m + 16) \<and>
     (\<forall>k n aad m. dec k n aad (enc k n aad m) = Some m) \<and>
     (\<forall>k n aad c m. dec k n aad c = Some m \<longrightarrow> c = enc k n aad m)"

definition xchacha_law :: "crates \<Rightarrow> bool" where
  "xchacha_law C \<longleftrightarrow> aead_law (xchacha_encrypt C) (xchacha_decrypt C)"

definition chacha_law :: "crates \<Rightarrow> bool" where
  "chacha_law C \<longleftrightarrow> aead_law (chacha_encrypt C) (chacha_decrypt C)"

definition hash_law :: "crates \<Rightarrow> bool" where
  "hash_law C \<longleftrightarrow>
     (\<forall>s i info n. length (hkdf_sha256 C s i info n) = n) \<and>
     (\<forall>k d. length (hmac_sha256 C k d) = 32) \<and> (\<forall>d. length (sha256 C d) = 32)"

text \<open>
  RS(2,1): two non-empty data shards of one length have a parity of that length, and a missing data
  shard is recomputed from the other one and the parity.
\<close>

definition rs_law :: "crates \<Rightarrow> bool" where
  "rs_law C \<longleftrightarrow>
     (\<forall>a b. a \<noteq> [] \<longrightarrow> length a = length b \<longrightarrow>
        (\<exists>p. rs_encode_sep C a b = Some p \<and> length p = length a \<and>
             rs_reconstruct C [None, Some b, Some p] = Some [Some a, Some b, Some p] \<and>
             rs_reconstruct C [Some a, None, Some p] = Some [Some a, Some b, Some p]))"

text \<open>Both ends of a key exchange compute one secret; keys and ciphertexts have their documented sizes.\<close>

definition kex_law :: "crates \<Rightarrow> bool" where
  "kex_law C \<longleftrightarrow>
     (\<forall>a. length (x25519_public C a) = 32) \<and>
     (\<forall>a b. x25519_dh C a (x25519_public C b) = x25519_dh C b (x25519_public C a)) \<and>
     (\<forall>dk. length (mlkem_public C dk) = 800) \<and>
     (\<forall>r dk. \<exists>ct ss. mlkem_encapsulate C r (mlkem_public C dk) = Some (ct, ss) \<and> length ct = 768 \<and>
        mlkem_decapsulate C dk ct = ss)"

text \<open>The same for ML-KEM-768, and signatures that verify under the signer's public key.\<close>

definition kex768_law :: "crates \<Rightarrow> bool" where
  "kex768_law C \<longleftrightarrow>
     (\<forall>dk. length (mlkem768_public C dk) = 1184) \<and>
     (\<forall>r dk. \<exists>ct ss. mlkem768_encapsulate C r (mlkem768_public C dk) = Some (ct, ss) \<and> length ct = 1088 \<and>
        mlkem768_decapsulate C dk ct = ss)"

definition sig_law :: "crates \<Rightarrow> bool" where
  "sig_law C \<longleftrightarrow>
     (\<forall>sk. length (ed25519_public C sk) = 32) \<and> (\<forall>sk m. length (ed25519_sign C sk m) = 64) \<and>
     (\<forall>sk m. ed25519_verify C (ed25519_public C sk) m (ed25519_sign C sk m)) \<and>
     (\<forall>sk. length (mldsa_public C sk) = 1952) \<and> (\<forall>sk m. length (mldsa_sign C sk m) = 3309) \<and>
     (\<forall>sk m. mldsa_verify C (mldsa_public C sk) m (mldsa_sign C sk m))"

lemma xchacha_lawD:
  assumes "xchacha_law C"
  shows "length (xchacha_encrypt C k n aad m) = length m + 16"
    and "xchacha_decrypt C k n aad (xchacha_encrypt C k n aad m) = Some m"
    and "xchacha_decrypt C k n aad c = Some m \<Longrightarrow> c = xchacha_encrypt C k n aad m"
  using assms by (auto simp: xchacha_law_def aead_law_def)

lemma chacha_lawD:
  assumes "chacha_law C"
  shows "length (chacha_encrypt C k n aad m) = length m + 16"
    and "chacha_decrypt C k n aad (chacha_encrypt C k n aad m) = Some m"
  using assms by (auto simp: chacha_law_def aead_law_def)

lemma hash_lawD:
  assumes "hash_law C"
  shows "length (hkdf_sha256 C s i info n) = n" and "length (hmac_sha256 C k d) = 32"
    and "length (sha256 C d) = 32"
  using assms by (auto simp: hash_law_def)

lemma rs_lawE:
  assumes "rs_law C" and "a \<noteq> []" and "length a = length b"
  obtains p where "rs_encode_sep C a b = Some p" and "length p = length a"
    and "rs_reconstruct C [None, Some b, Some p] = Some [Some a, Some b, Some p]"
    and "rs_reconstruct C [Some a, None, Some p] = Some [Some a, Some b, Some p]"
  using assms by (auto simp: rs_law_def)

lemma kex_lawD:
  assumes "kex_law C"
  shows "length (x25519_public C a) = 32" and "length (mlkem_public C dk) = 800"
    and "x25519_dh C a (x25519_public C b) = x25519_dh C b (x25519_public C a)"
  using assms by (auto simp: kex_law_def)

lemma kex_lawE:
  assumes "kex_law C"
  obtains ct ss where "mlkem_encapsulate C r (mlkem_public C dk) = Some (ct, ss)" and "length ct = 768"
    and "mlkem_decapsulate C dk ct = ss"
  using assms unfolding kex_law_def by blast

lemma kex768_lawE:
  assumes "kex768_law C"
  obtains ct ss where "mlkem768_encapsulate C r (mlkem768_public C dk) = Some (ct, ss)" and "length ct = 1088"
    and "mlkem768_decapsulate C dk ct = ss"
  using assms unfolding kex768_law_def by blast

lemma sig_lawD:
  assumes "sig_law C"
  shows "length (ed25519_public C sk) = 32" and "length (ed25519_sign C sk m) = 64"
    and "ed25519_verify C (ed25519_public C sk) m (ed25519_sign C sk m)"
    and "length (mldsa_public C sk) = 1952" and "length (mldsa_sign C sk m) = 3309"
    and "mldsa_verify C (mldsa_public C sk) m (mldsa_sign C sk m)"
  using assms by (auto simp: sig_law_def)

section \<open>A concrete record that satisfies the laws\<close>

text \<open>
  An XOR keystream with a 16-byte checksum over key, nonce and associated data, digests that fold
  their input into fixed-length strings, and the single-parity XOR code. It is no cryptography; it
  shows that the laws hold together, and it evaluates.
\<close>

definition sum_bytes :: "bytes \<Rightarrow> u8" where
  "sum_bytes bs = foldl (\<lambda>a b. a * 3 + b + 1) 7 bs"

definition xor_bytes :: "bytes \<Rightarrow> bytes \<Rightarrow> bytes" where
  "xor_bytes a b = map2 (XOR) a b"

definition demo_encrypt :: "bytes \<Rightarrow> bytes \<Rightarrow> bytes \<Rightarrow> bytes \<Rightarrow> bytes" where
  "demo_encrypt k n aad m =
     map (\<lambda>b. b XOR sum_bytes (k @ n)) m @ replicate 16 (sum_bytes (k @ n @ aad))"

definition demo_decrypt :: "bytes \<Rightarrow> bytes \<Rightarrow> bytes \<Rightarrow> bytes \<Rightarrow> bytes option" where
  "demo_decrypt k n aad c =
     (if 16 \<le> length c \<and> drop (length c - 16) c = replicate 16 (sum_bytes (k @ n @ aad))
      then Some (map (\<lambda>b. b XOR sum_bytes (k @ n)) (take (length c - 16) c)) else None)"

definition demo_rs_reconstruct :: "bytes option list \<Rightarrow> bytes option list option" where
  "demo_rs_reconstruct s =
     (case s of
        [None, Some b, Some p] \<Rightarrow>
          if length b = length p \<and> b \<noteq> [] then Some [Some (xor_bytes b p), Some b, Some p] else None
      | [Some a, None, Some p] \<Rightarrow>
          if length a = length p \<and> a \<noteq> [] then Some [Some a, Some (xor_bytes a p), Some p] else None
      | [Some a, Some b, _] \<Rightarrow>
          if length a = length b \<and> a \<noteq> [] then Some [Some a, Some b, Some (xor_bytes a b)] else None
      | _ \<Rightarrow> None)"

definition fit :: "nat \<Rightarrow> bytes \<Rightarrow> bytes" where
  "fit n b = take n (b @ zeros n)"

definition demo_secret :: "bytes \<Rightarrow> bytes \<Rightarrow> bytes" where
  "demo_secret ek ct = map (\<lambda>b. b + sum_bytes ek) (take 32 ct)"

definition demo_crates :: crates where
  "demo_crates =
     \<lparr>xchacha_encrypt = demo_encrypt, xchacha_decrypt = demo_decrypt,
      chacha_encrypt = demo_encrypt, chacha_decrypt = demo_decrypt,
      hkdf_sha256 = (\<lambda>s i info n. map (\<lambda>j. sum_bytes (s @ i @ info) + of_nat j) [0..<n]),
      hmac_sha256 = (\<lambda>k d. map (\<lambda>j. sum_bytes (k @ d) + of_nat j) [0..<32]),
      sha256 = (\<lambda>d. map (\<lambda>j. sum_bytes d + of_nat j) [0..<32]),
      rs_encode_sep = (\<lambda>a b. if length a = length b \<and> a \<noteq> [] then Some (xor_bytes a b) else None),
      rs_reconstruct = demo_rs_reconstruct,
      x25519_public = fit 32,
      x25519_dh = (\<lambda>a p. xor_bytes (fit 32 a) p),
      mlkem_public = fit 800,
      mlkem_encapsulate = (\<lambda>r ek. if length ek = 800 then Some (fit 768 r, demo_secret ek (fit 768 r)) else None),
      mlkem_decapsulate = (\<lambda>dk ct. demo_secret (fit 800 dk) ct),
      mlkem768_public = fit 1184,
      mlkem768_encapsulate = (\<lambda>r ek. if length ek = 1184 then Some (fit 1088 r, demo_secret ek (fit 1088 r)) else None),
      mlkem768_decapsulate = (\<lambda>dk ct. demo_secret (fit 1184 dk) ct),
      ed25519_public = fit 32, ed25519_sign = (\<lambda>sk m. replicate 64 (sum_bytes (fit 32 sk @ m))),
      ed25519_verify = (\<lambda>pk m s. s = replicate 64 (sum_bytes (pk @ m))),
      mldsa_public = fit 1952, mldsa_sign = (\<lambda>sk m. replicate 3309 (sum_bytes (fit 1952 sk @ m))),
      mldsa_verify = (\<lambda>pk m s. s = replicate 3309 (sum_bytes (pk @ m)))\<rparr>"

lemma map_xor_twice [simp]: "map (\<lambda>b. b XOR k) (map (\<lambda>b. b XOR k) (m :: u8 list)) = m"
  by (induction m) (auto simp: xor.assoc)

lemma demo_aead_law: "aead_law demo_encrypt demo_decrypt"
proof -
  have "c = demo_encrypt k n aad m" if d: "demo_decrypt k n aad c = Some m" for k n aad c m
  proof -
    let ?l = "length c - 16"
    from d have t: "drop ?l c = replicate 16 (sum_bytes (k @ n @ aad))"
      and m: "m = map (\<lambda>b. b XOR sum_bytes (k @ n)) (take ?l c)"
      by (auto simp: demo_decrypt_def split: if_splits)
    have "map (\<lambda>b. b XOR sum_bytes (k @ n)) m = take ?l c" by (simp only: m map_xor_twice)
    then have "demo_encrypt k n aad m = take ?l c @ drop ?l c" by (simp only: demo_encrypt_def t)
    then show ?thesis by simp
  qed
  then show ?thesis
    by (simp add: aead_law_def demo_encrypt_def demo_decrypt_def del: map_map)
qed

lemma xor_bytes_cancel [simp]:
  "length a = length b \<Longrightarrow> xor_bytes b (xor_bytes a b) = a"
  "length a = length b \<Longrightarrow> xor_bytes a (xor_bytes a b) = b"
  by (induction a b rule: list_induct2) (auto simp: xor_bytes_def xor.left_commute)

lemma length_xor_bytes [simp]: "length (xor_bytes a b) = min (length a) (length b)"
  by (simp add: xor_bytes_def)

lemma length_fit [simp]: "length (fit n b) = n"
  by (simp add: fit_def)

lemma xor_bytes_commute: "xor_bytes a b = xor_bytes b a"
  by (induction a arbitrary: b) (auto simp: xor_bytes_def zip_Cons1 xor.commute split: list.splits)

lemma demo_laws:
  "xchacha_law demo_crates" "chacha_law demo_crates" "hash_law demo_crates" "rs_law demo_crates"
  "kex_law demo_crates" "kex768_law demo_crates" "sig_law demo_crates"
  by (auto simp: kex768_law_def sig_law_def xchacha_law_def chacha_law_def demo_crates_def demo_aead_law hash_law_def
      rs_law_def demo_rs_reconstruct_def kex_law_def xor_bytes_commute Let_def)

end
