(* ===== verification/L4_RS.thy ===== *)
theory L4_RS
  imports Crates
begin

text \<open>
  L4, the RS(2,1) erasure coder of src/src/ghost/layers/l4_rs.rs: a message is split into two data
  shards and one parity shard, any two of which give it back. The field arithmetic is the crate's;
  the split, the padding, the fast path and the panics are modelled here.
\<close>

text \<open>\<open>encode\<close> pads its argument in place: the padded data is the first component.\<close>

definition rs_encode :: "crates \<Rightarrow> bytes \<Rightarrow> (bytes \<times> bytes list, unit) rust" where
  "rs_encode C data =
     (if data = [] then Ok (data, [[], [], []])
      else
        (let data = (if length data mod 2 \<noteq> 0 then data @ [0] else data);
             mid = length data div 2;
             d0 = slice 0 mid data; d1 = drop mid data
         in case rs_encode_sep C d0 d1 of
              Some p \<Rightarrow> Ok (data, [d0, d1, p])
            | None \<Rightarrow> Panic))"

definition encode_parity_slice :: "crates \<Rightarrow> bytes \<Rightarrow> bytes \<Rightarrow> (bytes, unit) rust" where
  "encode_parity_slice C d0 d1 = (case rs_encode_sep C d0 d1 of Some p \<Rightarrow> Ok p | None \<Rightarrow> Panic)"

definition reconstruct :: "crates \<Rightarrow> bytes option list \<Rightarrow> (bytes option list, unit) rust" where
  "reconstruct C shards =
     (if length shards \<noteq> 3 then Err ()
      else case (shards ! 0, shards ! 1) of
        (Some d0, Some d1) \<Rightarrow>
          (if shards ! 2 = None then
             (case encode_parity_slice C d0 d1 of
                Ok p \<Rightarrow> Ok (shards[2 := Some p]) | Err e \<Rightarrow> Err e | Panic \<Rightarrow> Panic)
           else Ok shards)
      | _ \<Rightarrow> (case rs_reconstruct C shards of Some s \<Rightarrow> Ok s | None \<Rightarrow> Err ()))"

section \<open>Lemmas\<close>

text \<open>The data a message is padded to.\<close>

definition padded_even :: "bytes \<Rightarrow> bytes" where
  "padded_even d = (if length d mod 2 \<noteq> 0 then d @ [0] else d)"

lemma length_padded_even: "length (padded_even d) mod 2 = 0"
  by (simp add: padded_even_def) presburger

lemma padded_even_even: "length d mod 2 = 0 \<Longrightarrow> padded_even d = d"
  by (simp add: padded_even_def)

lemma rs_encode_ok:
  assumes "rs_law C" and "data \<noteq> []"
  obtains d0 d1 p where "rs_encode C data = Ok (padded_even data, [d0, d1, p])"
    and "d0 @ d1 = padded_even data" and "length d0 = length d1" and "d0 \<noteq> []"
    and "rs_encode_sep C d0 d1 = Some p" and "length p = length d0"
proof -
  let ?d = "padded_even data"
  let ?m = "length ?d div 2"
  have ev: "length ?d = 2 * ?m" using length_padded_even [of data] by presburger
  have ne: "0 < ?m" using assms(2) ev by (cases data) (auto simp: padded_even_def split: if_splits)
  have l: "length (slice 0 ?m ?d) = length (drop ?m ?d)" "slice 0 ?m ?d \<noteq> []"
    using ev ne by (auto simp: slice_def)
  obtain p where p: "rs_encode_sep C (slice 0 ?m ?d) (drop ?m ?d) = Some p"
    "length p = length (slice 0 ?m ?d)"
    using rs_lawE [OF assms(1) l(2) l(1)] by metis
  show thesis
    by (rule that [of "slice 0 ?m ?d" "drop ?m ?d" p])
      (use assms p l in \<open>auto simp: rs_encode_def padded_even_def Let_def slice_def\<close>)
qed

lemma reconstruct_two:
  assumes "rs_law C" and "d0 \<noteq> []" and "length d0 = length d1" and "rs_encode_sep C d0 d1 = Some p"
  shows "reconstruct C [Some d0, Some d1, x] = Ok [Some d0, Some d1, Some (case x of None \<Rightarrow> p | Some q \<Rightarrow> q)]"
    and "reconstruct C [None, Some d1, Some p] = Ok [Some d0, Some d1, Some p]"
    and "reconstruct C [Some d0, None, Some p] = Ok [Some d0, Some d1, Some p]"
proof -
  from assms have r: "rs_reconstruct C [None, Some d1, Some p] = Some [Some d0, Some d1, Some p]"
    "rs_reconstruct C [Some d0, None, Some p] = Some [Some d0, Some d1, Some p]"
    by (auto elim: rs_lawE)
  show "reconstruct C [Some d0, Some d1, x] = Ok [Some d0, Some d1, Some (case x of None \<Rightarrow> p | Some q \<Rightarrow> q)]"
    using assms(4) by (cases x) (simp_all add: reconstruct_def encode_parity_slice_def)
  show "reconstruct C [None, Some d1, Some p] = Ok [Some d0, Some d1, Some p]"
    "reconstruct C [Some d0, None, Some p] = Ok [Some d0, Some d1, Some p]"
    by (simp_all add: reconstruct_def r)
qed

text \<open>The same for a slot vector that holds at least two of the three shards.\<close>

lemma reconstruct_available:
  assumes "rs_law C" and "d0 \<noteq> []" and "length d0 = length d1" and "rs_encode_sep C d0 d1 = Some p"
    and "length s = 3" and "\<And>i. i < 3 \<Longrightarrow> s ! i = None \<or> s ! i = Some ([d0, d1, p] ! i)"
    and "2 \<le> card {i. i < 3 \<and> s ! i \<noteq> None}"
  obtains s' where "reconstruct C s = Ok s'" and "s' ! 0 = Some d0" and "s' ! 1 = Some d1"
proof -
  define R where "R = {i. i < 3 \<and> s ! i \<noteq> None}"
  obtain a b c where s: "s = [a, b, c]"
    using assms(5) by (auto simp: numeral_3_eq_3 length_Suc_conv)
  have abc: "a = None \<or> a = Some d0" "b = None \<or> b = Some d1" "c = None \<or> c = Some p"
    using assms(6) [of 0] assms(6) [of 1] assms(6) [of 2] by (auto simp: s)
  have "\<not> R \<subseteq> {k}" for k using assms(7) card_mono [of "{k}" R] by (auto simp: R_def)
  from this [of 0] this [of 1] this [of 2] have "\<not> (b = None \<and> c = None)" "\<not> (a = None \<and> c = None)"
    "\<not> (a = None \<and> b = None)"
    by (auto simp: R_def s less_Suc_eq numeral_3_eq_3)
  then show thesis
    using abc reconstruct_two [OF assms(1-4)] that by (auto simp: s)
qed

text \<open>Only the both-data-shards path can panic.\<close>

lemma reconstruct_no_panic: "s ! 0 = None \<or> s ! 1 = None \<Longrightarrow> reconstruct C s \<noteq> Panic"
  by (auto simp: reconstruct_def split: option.splits)

section \<open>Properties\<close>

text \<open>
  Erasure tolerance: encoding a non-empty message never panics, gives three shards of half the
  padded length, and dropping any one of the three still reconstructs both data shards, whose
  concatenation is the message with its even-length padding.
\<close>

theorem any_two_shards_reconstruct:
  assumes "rs_law C" and "data \<noteq> []" and "i < 3"
  shows "\<exists>d0 d1 p s. rs_encode C data = Ok (padded_even data, [d0, d1, p]) \<and>
    length d0 = length (padded_even data) div 2 \<and> length d1 = length d0 \<and> length p = length d0 \<and>
    reconstruct C ([Some d0, Some d1, Some p][i := None]) = Ok s \<and>
    s ! 0 = Some d0 \<and> s ! 1 = Some d1 \<and> d0 @ d1 = padded_even data"
proof -
  obtain d0 d1 p where e: "rs_encode C data = Ok (padded_even data, [d0, d1, p])"
    "d0 @ d1 = padded_even data" "length d0 = length d1" "d0 \<noteq> []"
    "rs_encode_sep C d0 d1 = Some p" "length p = length d0"
    by (rule rs_encode_ok [OF assms(1,2)])
  have len: "length d0 = length (padded_even data) div 2" using e(2,3) by (metis length_append mult_2 nonzero_mult_div_cancel_left zero_neq_numeral)
  consider "i = 0" | "i = 1" | "i = 2" using assms(3) by linarith
  then obtain s where "reconstruct C ([Some d0, Some d1, Some p][i := None]) = Ok s"
    "s ! 0 = Some d0" "s ! 1 = Some d1"
    using reconstruct_two [OF assms(1) e(4,3,5)] by cases auto
  with e len show ?thesis by metis
qed

theorem any_two_shards_reconstruct_witness:
  "\<exists>d0 d1 p s. rs_encode demo_crates [1, 2, 3] = Ok ([1, 2, 3, 0], [d0, d1, p]) \<and>
    reconstruct demo_crates [None, Some d1, Some p] = Ok s \<and> s ! 0 = Some d0 \<and> d0 @ d1 = [1, 2, 3, 0]"
  using any_two_shards_reconstruct [OF demo_laws(4), of "[1, 2, 3]" 0] by (simp add: padded_even_def) metis

end
