(* ===== verification/Coalesce.thy ===== *)
theory Coalesce
  imports L4_RS
begin

unbundle bit_operations_syntax

text \<open>
  The ingress coalescing queue of src/src/ghost/net/coalesce.rs: stream chunks are gathered into
  coding groups of at most 984 bytes, each flushed as three 492-byte shards (two data, one parity).
  The loop of \<open>push\<close> is a \<open>partial_function\<close>: \<open>None\<close> means that it never returns.
\<close>

section \<open>Shards\<close>

definition COALESCE_TARGET_BYTES :: nat where "COALESCE_TARGET_BYTES = 984"
definition SHARD_PAYLOAD_BYTES :: nat where "SHARD_PAYLOAD_BYTES = 492"
definition DEFAULT_COALESCE_TIMEOUT :: duration where "DEFAULT_COALESCE_TIMEOUT = micros 200"
definition FLAG_IMMEDIATE :: u8 where "FLAG_IMMEDIATE = 0x01"
definition FLAG_PADDED :: u8 where "FLAG_PADDED = 0x02"
definition HEADER_LEN :: nat where "HEADER_LEN = 12"

lemmas coalesce_consts = COALESCE_TARGET_BYTES_def SHARD_PAYLOAD_BYTES_def HEADER_LEN_def

record coalesced_shard =
  cs_group_id :: u64
  cs_shard_idx :: u8
  cs_flags :: u8
  cs_payload_len :: u16
  cs_data :: bytes

definition serialize_into :: "coalesced_shard \<Rightarrow> bytes \<Rightarrow> (bytes \<times> nat, string) rust" where
  "serialize_into s buf =
     (let total = HEADER_LEN + SHARD_PAYLOAD_BYTES
      in if length buf < total then Err ''buffer too short for coalesced shard''
         else
           (let buf = copy_at 0 (be_u64 (cs_group_id s)) buf;
                buf = buf[8 := cs_shard_idx s];
                buf = buf[9 := cs_flags s];
                buf = copy_at 10 (be_u16 (cs_payload_len s)) buf;
                buf = copy_at 12 (cs_data s) buf
            in Ok (buf, total)))"

definition deserialize :: "bytes \<Rightarrow> coalesced_shard option" where
  "deserialize buf =
     (let total = HEADER_LEN + SHARD_PAYLOAD_BYTES
      in if length buf < total then None
         else Some \<lparr>cs_group_id = u64_be (slice 0 8 buf), cs_shard_idx = buf ! 8,
                    cs_flags = buf ! 9, cs_payload_len = u16_be (slice 10 12 buf),
                    cs_data = slice 12 total buf\<rparr>)"

section \<open>The queue\<close>

record coalescing_queue =
  cq_buffer :: bytes
  cq_max_batch_size :: nat
  cq_timeout :: duration
  cq_last_flush :: instant
  cq_next_group_id :: u64

type_synonym triplet = "coalesced_shard \<times> coalesced_shard \<times> coalesced_shard"

definition queue_new :: "nat \<Rightarrow> duration \<Rightarrow> instant \<Rightarrow> coalescing_queue" where
  "queue_new max_batch_size timeout now =
     \<lparr>cq_buffer = [], cq_max_batch_size = min max_batch_size COALESCE_TARGET_BYTES,
      cq_timeout = timeout, cq_last_flush = now, cq_next_group_id = 1\<rparr>"

definition queue_default :: "instant \<Rightarrow> coalescing_queue" where
  "queue_default now = queue_new COALESCE_TARGET_BYTES DEFAULT_COALESCE_TIMEOUT now"

text \<open>The two zero-padded data shards of a buffer.\<close>

definition data_halves :: "bytes \<Rightarrow> bytes \<times> bytes" where
  "data_halves buffer =
     (let half = SHARD_PAYLOAD_BYTES;
          first_len = min (length buffer) half;
          d0 = copy_at 0 (take first_len buffer) (zeros SHARD_PAYLOAD_BYTES);
          d1 = (if length buffer > half
                then (let second_len = min (length buffer - half) half
                      in copy_at 0 (slice half (half + second_len) buffer) (zeros SHARD_PAYLOAD_BYTES))
                else zeros SHARD_PAYLOAD_BYTES)
      in (d0, d1))"

definition flush_internal ::
  "crates \<Rightarrow> instant \<Rightarrow> u8 \<Rightarrow> coalescing_queue \<Rightarrow> (coalescing_queue \<times> triplet, unit) rust" where
  "flush_internal C now flags q =
     (let payload_len = (of_nat (length (cq_buffer q)) :: u16);
          (d0, d1) = data_halves (cq_buffer q);
          flags = (if unat payload_len < cq_max_batch_size q then flags OR FLAG_PADDED else flags)
      in case encode_parity_slice C d0 d1 of
           Ok p0 \<Rightarrow>
             (let group_id = cq_next_group_id q;
                  next = group_id + 1;
                  next = (if next = 0 then 1 else next);
                  shard = (\<lambda>i d. \<lparr>cs_group_id = group_id, cs_shard_idx = i, cs_flags = flags,
                                  cs_payload_len = payload_len, cs_data = d\<rparr>)
              in Ok (q\<lparr>cq_buffer := [], cq_last_flush := now, cq_next_group_id := next\<rparr>,
                     (shard 0 d0, shard 1 d1, shard 2 p0)))
         | _ \<Rightarrow> Panic)"

text \<open>One turn of the loop in \<open>push\<close>: take what fits, flush when the batch is full.\<close>

definition push_turn ::
  "crates \<Rightarrow> instant \<Rightarrow> bool \<Rightarrow> coalescing_queue \<Rightarrow> bytes \<Rightarrow>
   (coalescing_queue \<times> bytes \<times> triplet list, unit) rust" where
  "push_turn C now force_immediate q rest =
     (let space = cq_max_batch_size q - length (cq_buffer q);
          to_take = min (length rest) space;
          q = q\<lparr>cq_buffer := cq_buffer q @ take to_take rest\<rparr>;
          rest = drop to_take rest
      in if length (cq_buffer q) \<ge> cq_max_batch_size q
         then (case flush_internal C now (if force_immediate then FLAG_IMMEDIATE else 0) q of
                 Ok (q', t) \<Rightarrow> Ok (q', rest, [t]) | _ \<Rightarrow> Panic)
         else Ok (q, rest, []))"

partial_function (option) push_loop ::
  "crates \<Rightarrow> instant \<Rightarrow> bool \<Rightarrow> coalescing_queue \<Rightarrow> bytes \<Rightarrow> triplet list \<Rightarrow>
   (coalescing_queue \<times> triplet list, unit) rust option" where
  "push_loop C now force_immediate q rest results =
     (if rest = [] then Some (Ok (q, results))
      else case push_turn C now force_immediate q rest of
             Ok r \<Rightarrow> push_loop C now force_immediate (fst r) (fst (snd r)) (results @ snd (snd r))
           | Err e \<Rightarrow> Some Panic
           | Panic \<Rightarrow> Some Panic)"

definition push ::
  "crates \<Rightarrow> instant \<Rightarrow> coalescing_queue \<Rightarrow> bytes \<Rightarrow> bool \<Rightarrow>
   (coalescing_queue \<times> triplet list, unit) rust option" where
  "push C now q data force_immediate =
     (case push_loop C now force_immediate q data [] of
        None \<Rightarrow> None
      | Some (Ok (q, results)) \<Rightarrow>
          (if force_immediate \<and> cq_buffer q \<noteq> []
           then (case flush_internal C now FLAG_IMMEDIATE q of
                   Ok (q', t) \<Rightarrow> Some (Ok (q', results @ [t])) | _ \<Rightarrow> Some Panic)
           else Some (Ok (q, results)))
      | Some _ \<Rightarrow> Some Panic)"

definition tick ::
  "crates \<Rightarrow> instant \<Rightarrow> coalescing_queue \<Rightarrow> (coalescing_queue \<times> triplet option, unit) rust" where
  "tick C now q =
     (if cq_buffer q = [] then Ok (q\<lparr>cq_last_flush := now\<rparr>, None)
      else if now - cq_last_flush q \<ge> cq_timeout q
      then (case flush_internal C now 0 q of Ok (q', t) \<Rightarrow> Ok (q', Some t) | _ \<Rightarrow> Panic)
      else Ok (q, None))"

definition flush ::
  "crates \<Rightarrow> instant \<Rightarrow> u8 \<Rightarrow> coalescing_queue \<Rightarrow> (coalescing_queue \<times> triplet option, unit) rust" where
  "flush C now flags q =
     (if cq_buffer q = [] then Ok (q, None)
      else case flush_internal C now flags q of Ok (q', t) \<Rightarrow> Ok (q', Some t) | _ \<Rightarrow> Panic)"

section \<open>Invariant and flushing\<close>

definition queue_ok :: "coalescing_queue \<Rightarrow> bool" where
  "queue_ok q \<longleftrightarrow> 0 < cq_max_batch_size q \<and> cq_max_batch_size q \<le> COALESCE_TARGET_BYTES \<and>
     length (cq_buffer q) < cq_max_batch_size q \<and> cq_next_group_id q \<noteq> 0"

text \<open>A flushed group carries exactly \<open>payload\<close>: what the receiver has to recover.\<close>

definition group_of :: "crates \<Rightarrow> u64 \<Rightarrow> bytes \<Rightarrow> triplet \<Rightarrow> bool" where
  "group_of C gid payload t \<longleftrightarrow>
     (case t of (s0, s1, s2) \<Rightarrow>
        length payload \<le> 984 \<and>
        (\<forall>s \<in> {s0, s1, s2}. cs_group_id s = gid \<and> unat (cs_payload_len s) = length payload \<and>
           length (cs_data s) = 492) \<and>
        cs_shard_idx s0 = 0 \<and> cs_shard_idx s1 = 1 \<and> cs_shard_idx s2 = 2 \<and>
        cs_data s0 @ cs_data s1 = payload @ zeros (984 - length payload) \<and>
        rs_encode_sep C (cs_data s0) (cs_data s1) = Some (cs_data s2))"

definition next_id :: "u64 \<Rightarrow> u64" where
  "next_id g = (if g + 1 = 0 then 1 else g + 1)"

lemma next_id_nonzero: "next_id g \<noteq> 0"
  by (simp add: next_id_def)

lemma copy_zeros: "length src \<le> n \<Longrightarrow> copy_at 0 src (zeros n) = src @ zeros (n - length src)"
  by (simp add: copy_at_def)

lemma zeros_append: "zeros m @ zeros n = zeros (m + n)"
  by (simp add: zeros_def replicate_add)

lemma data_halves_spec:
  assumes "length b \<le> 984" and "data_halves b = (d0, d1)"
  shows "length d0 = 492" and "length d1 = 492" and "d0 @ d1 = b @ zeros (984 - length b)"
proof -
  have d0: "d0 = copy_at 0 (take (min (length b) 492) b) (zeros 492)"
    and d1: "d1 = (if 492 < length b
      then copy_at 0 (slice 492 (492 + min (length b - 492) 492) b) (zeros 492) else zeros 492)"
    using assms(2) by (auto simp: data_halves_def Let_def coalesce_consts)
  show "length d0 = 492" "length d1 = 492" by (auto simp: d0 d1 wire_simps)
  show "d0 @ d1 = b @ zeros (984 - length b)"
  proof (cases "492 < length b")
    case True
    then have "take 492 b @ slice 492 (length b) b = b" by (simp add: slice_def)
    then show ?thesis using True assms(1) by (simp add: d0 d1 copy_zeros min_def slice_def)
  next
    case False
    then show ?thesis by (simp add: d0 d1 copy_zeros zeros_append)
  qed
qed

lemma flush_internal_ok:
  assumes "rs_law C" and "length (cq_buffer q) \<le> 984"
  obtains t where "flush_internal C now flags q =
      Ok (q\<lparr>cq_buffer := [], cq_last_flush := now, cq_next_group_id := next_id (cq_next_group_id q)\<rparr>, t)"
    and "group_of C (cq_next_group_id q) (cq_buffer q) t"
proof -
  let ?b = "cq_buffer q"
  obtain d0 d1 where h: "data_halves ?b = (d0, d1)" by force
  note l = data_halves_spec [OF assms(2) h]
  then have "d0 \<noteq> []" by auto
  then obtain p where p: "rs_encode_sep C d0 d1 = Some p" "length p = 492"
    using l by (metis rs_lawE [OF assms(1)])
  have len: "unat (of_nat (length ?b) :: u16) = length ?b"
    using assms(2) by (intro unat_u16_be_of_nat) simp
  define sh where "sh = (\<lambda>i d. \<lparr>cs_group_id = cq_next_group_id q, cs_shard_idx = i,
      cs_flags = (if length ?b < cq_max_batch_size q then flags OR FLAG_PADDED else flags),
      cs_payload_len = of_nat (length ?b), cs_data = d\<rparr>)"
  show thesis
  proof (rule that)
    show "flush_internal C now flags q =
        Ok (q\<lparr>cq_buffer := [], cq_last_flush := now, cq_next_group_id := next_id (cq_next_group_id q)\<rparr>,
          (sh 0 d0, sh 1 d1, sh 2 p))"
      unfolding flush_internal_def h Let_def prod.case encode_parity_slice_def p(1) option.case
        rust.case len next_id_def sh_def ..
    show "group_of C (cq_next_group_id q) ?b (sh 0 d0, sh 1 d1, sh 2 p)"
      using p l len assms(2) by (simp add: group_of_def sh_def)
  qed
qed

section \<open>The push loop\<close>

fun carries :: "crates \<Rightarrow> u64 \<Rightarrow> triplet list \<Rightarrow> bytes list \<Rightarrow> bool" where
  "carries C g [] [] = True"
| "carries C g (t # ts) (p # ps) = (group_of C g p t \<and> carries C (next_id g) ts ps)"
| "carries C g _ _ = False"

lemma carries_length: "carries C g ts ps \<Longrightarrow> length ps = length ts"
  by (induction C g ts ps rule: carries.induct) auto

lemma carries_append:
  "carries C g ts ps \<Longrightarrow> carries C ((next_id ^^ length ts) g) ts' ps' \<Longrightarrow> carries C g (ts @ ts') (ps @ ps')"
proof (induction C g ts ps rule: carries.induct)
  case (2 C g t ts p ps)
  then show ?case by (simp add: funpow_swap1)
qed auto

text \<open>One turn makes progress, keeps the invariant, and emits at most one group with its bytes.\<close>

lemma push_turn_ok:
  assumes "rs_law C" and "queue_ok q" and "rest \<noteq> []"
  obtains q' rest' ts ps where "push_turn C now f q rest = Ok (q', rest', ts)"
    and "queue_ok q'" and "length rest' < length rest" and "carries C (cq_next_group_id q) ts ps"
    and "cq_buffer q @ rest = concat ps @ cq_buffer q' @ rest'"
    and "cq_next_group_id q' = (next_id ^^ length ts) (cq_next_group_id q)"
    and "cq_max_batch_size q' = cq_max_batch_size q"
proof -
  define k where "k = min (length rest) (cq_max_batch_size q - length (cq_buffer q))"
  define q1 where "q1 = q\<lparr>cq_buffer := cq_buffer q @ take k rest\<rparr>"
  have k: "0 < k" "k \<le> length rest" using assms(2,3) by (auto simp: k_def queue_ok_def)
  have len: "length (cq_buffer q1) \<le> cq_max_batch_size q" "length (cq_buffer q1) \<le> 984"
    using assms(2) by (auto simp: q1_def k_def queue_ok_def coalesce_consts)
  have turn: "push_turn C now f q rest =
      (if cq_max_batch_size q \<le> length (cq_buffer q1)
       then (case flush_internal C now (if f then FLAG_IMMEDIATE else 0) q1 of
               Ok (q', t) \<Rightarrow> Ok (q', drop k rest, [t]) | _ \<Rightarrow> Panic)
       else Ok (q1, drop k rest, []))"
    unfolding push_turn_def Let_def k_def q1_def by (simp split: rust.splits)
  show thesis
  proof (cases "cq_max_batch_size q \<le> length (cq_buffer q1)")
    case True
    obtain t where fl: "flush_internal C now (if f then FLAG_IMMEDIATE else 0) q1 =
        Ok (q1\<lparr>cq_buffer := [], cq_last_flush := now,
          cq_next_group_id := next_id (cq_next_group_id q1)\<rparr>, t)"
      and g: "group_of C (cq_next_group_id q1) (cq_buffer q1) t"
      by (rule flush_internal_ok [OF assms(1) len(2)])
    show thesis
      by (rule that [of "q1\<lparr>cq_buffer := [], cq_last_flush := now,
          cq_next_group_id := next_id (cq_next_group_id q1)\<rparr>" "drop k rest" "[t]" "[cq_buffer q1]"])
        (use True turn fl g k assms(2) in \<open>auto simp: queue_ok_def q1_def next_id_nonzero\<close>)
  next
    case False
    then show thesis
      by (intro that [of q1 "drop k rest" "[]" "[]"])
        (use turn k assms(2) in \<open>auto simp: queue_ok_def q1_def\<close>)
  qed
qed

lemma push_loop_ok:
  assumes "rs_law C" and "queue_ok q"
  shows "\<exists>q' ts ps. push_loop C now f q rest res = Some (Ok (q', res @ ts)) \<and> queue_ok q' \<and>
    carries C (cq_next_group_id q) ts ps \<and> cq_buffer q @ rest = concat ps @ cq_buffer q' \<and>
    cq_next_group_id q' = (next_id ^^ length ts) (cq_next_group_id q) \<and>
    cq_max_batch_size q' = cq_max_batch_size q"
  using assms(2)
proof (induction "length rest" arbitrary: q rest res rule: less_induct)
  case less
  show ?case
  proof (cases "rest = []")
    case True
    then show ?thesis using less.prems
      by (intro exI [of _ q] exI [of _ "[]"]) (simp add: push_loop.simps)
  next
    case False
    obtain q1 rest1 ts1 ps1 where t: "push_turn C now f q rest = Ok (q1, rest1, ts1)"
      and o: "queue_ok q1" "length rest1 < length rest" "carries C (cq_next_group_id q) ts1 ps1"
        "cq_buffer q @ rest = concat ps1 @ cq_buffer q1 @ rest1"
        "cq_next_group_id q1 = (next_id ^^ length ts1) (cq_next_group_id q)"
        "cq_max_batch_size q1 = cq_max_batch_size q"
      by (rule push_turn_ok [OF assms(1) less.prems False])
    obtain q' ts ps where r: "push_loop C now f q1 rest1 (res @ ts1) = Some (Ok (q', (res @ ts1) @ ts))"
        "queue_ok q'" "carries C (cq_next_group_id q1) ts ps"
        "cq_buffer q1 @ rest1 = concat ps @ cq_buffer q'"
        "cq_next_group_id q' = (next_id ^^ length ts) (cq_next_group_id q1)"
        "cq_max_batch_size q' = cq_max_batch_size q1"
      using less.hyps [OF o(2,1)] by blast
    have "push_loop C now f q rest res = Some (Ok (q', res @ ts1 @ ts))"
      using r(1) by (simp add: push_loop.simps [of C now f q rest res] False t)
    moreover have "carries C (cq_next_group_id q) (ts1 @ ts) (ps1 @ ps)"
      using carries_append o(3,5) r(3) by simp
    moreover have "cq_next_group_id q' = (next_id ^^ length (ts1 @ ts)) (cq_next_group_id q)"
      by (simp add: r(5) o(5) funpow_add add.commute [of "length ts1"])
    moreover have "cq_buffer q @ rest = concat (ps1 @ ps) @ cq_buffer q'"
      by (simp add: o(4) r(4))
    ultimately show ?thesis using r(2,6) o(6) by metis
  qed
qed

lemma push_loop_diverges:
  assumes "push_loop C now f q rest res = Some r"
  shows "rs_law C \<longrightarrow> cq_max_batch_size q = 0 \<longrightarrow> cq_buffer q = [] \<longrightarrow> rest = []"
proof (rule push_loop.raw_induct [where P = "\<lambda>C now f q rest res r. rs_law C \<longrightarrow>
    cq_max_batch_size q = 0 \<longrightarrow> cq_buffer q = [] \<longrightarrow> rest = []", OF _ assms])
  fix g C now f q and rest :: bytes and res r
  assume IH: "\<And>C now f q rest res r. g C now f q rest res = Some r \<Longrightarrow>
      rs_law C \<longrightarrow> cq_max_batch_size q = 0 \<longrightarrow> cq_buffer q = [] \<longrightarrow> rest = []"
    and eq: "(if rest = [] then Some (Ok (q, res))
      else case push_turn C now f q rest of
             Ok r \<Rightarrow> g C now f (fst r) (fst (snd r)) (res @ snd (snd r))
           | Err e \<Rightarrow> Some Panic | Panic \<Rightarrow> Some Panic) = Some r"
  show "rs_law C \<longrightarrow> cq_max_batch_size q = 0 \<longrightarrow> cq_buffer q = [] \<longrightarrow> rest = []"
  proof (intro impI, rule ccontr)
    assume a: "rs_law C" "cq_max_batch_size q = 0" "cq_buffer q = []" "rest \<noteq> []"
    obtain t where fl: "flush_internal C now (if f then FLAG_IMMEDIATE else 0) (q\<lparr>cq_buffer := []\<rparr>) =
        Ok (q\<lparr>cq_buffer := [], cq_last_flush := now,
          cq_next_group_id := next_id (cq_next_group_id q)\<rparr>, t)"
      by (rule flush_internal_ok [of C "q\<lparr>cq_buffer := []\<rparr>"]) (use a in auto)
    have "push_turn C now f q rest = Ok (q\<lparr>cq_buffer := [], cq_last_flush := now,
          cq_next_group_id := next_id (cq_next_group_id q)\<rparr>, rest, [t])"
      unfolding push_turn_def Let_def using fl a by simp
    with eq a IH show False by fastforce
  qed
qed

lemma flush_ok:
  assumes "rs_law C" and "queue_ok q" and "cq_buffer q \<noteq> []"
  obtains q' t where "flush_internal C now fl q = Ok (q', t)" "queue_ok q'" "cq_buffer q' = []"
    "cq_next_group_id q' = next_id (cq_next_group_id q)"
    "group_of C (cq_next_group_id q) (cq_buffer q) t"
proof -
  have "length (cq_buffer q) \<le> 984" using assms(2) by (simp add: queue_ok_def coalesce_consts)
  then obtain t where fl: "flush_internal C now fl q =
      Ok (q\<lparr>cq_buffer := [], cq_last_flush := now, cq_next_group_id := next_id (cq_next_group_id q)\<rparr>, t)"
    and g: "group_of C (cq_next_group_id q) (cq_buffer q) t"
    by (rule flush_internal_ok [OF assms(1)])
  show thesis
    by (rule that [OF fl _ _ _ g]) (use assms(2) in \<open>simp_all add: queue_ok_def next_id_nonzero\<close>)
qed

section \<open>Properties\<close>

text \<open>
  C20. No byte is lost, reordered or duplicated on ingress: for a queue in its invariant, \<open>push\<close>
  returns (it neither loops nor panics), keeps the invariant, and the payloads of the groups it
  emits, numbered consecutively, followed by what stays buffered, are exactly the old buffer
  followed by the data; with \<open>force_immediate\<close> nothing stays buffered.
\<close>

theorem push_preserves_the_stream:
  assumes "rs_law C" and "queue_ok q"
  shows "\<exists>q' ts ps. push C now q data f = Some (Ok (q', ts)) \<and> queue_ok q' \<and>
    carries C (cq_next_group_id q) ts ps \<and> concat ps @ cq_buffer q' = cq_buffer q @ data \<and>
    (f \<longrightarrow> cq_buffer q' = [])"
proof -
  obtain q1 ts ps where l: "push_loop C now f q data [] = Some (Ok (q1, ts))" "queue_ok q1"
    "carries C (cq_next_group_id q) ts ps" "cq_buffer q @ data = concat ps @ cq_buffer q1"
    "cq_next_group_id q1 = (next_id ^^ length ts) (cq_next_group_id q)"
    using push_loop_ok [OF assms, of now f data "[]"] by auto
  show ?thesis
  proof (cases "f \<and> cq_buffer q1 \<noteq> []")
    case True
    then obtain q' t where fl: "flush_internal C now FLAG_IMMEDIATE q1 = Ok (q', t)" "queue_ok q'"
      "cq_buffer q' = []" "group_of C (cq_next_group_id q1) (cq_buffer q1) t"
      using flush_ok [OF assms(1) l(2)] by metis
    have "carries C (cq_next_group_id q) (ts @ [t]) (ps @ [cq_buffer q1])"
      using carries_append [OF l(3), of "[t]" "[cq_buffer q1]"] fl(4) l(5) by simp
    then show ?thesis using True l fl
      by (intro exI [of _ q'] exI [of _ "ts @ [t]"] exI [of _ "ps @ [cq_buffer q1]"])
        (simp add: push_def)
  next
    case False
    then show ?thesis using l by (intro exI [of _ q1] exI [of _ ts] exI [of _ ps]) (auto simp: push_def)
  qed
qed

theorem push_preserves_the_stream_witness:
  "\<exists>q' ts ps. push demo_crates 5 (queue_default 0) [1, 2, 3] True = Some (Ok (q', ts)) \<and>
     concat ps @ cq_buffer q' = [1, 2, 3] \<and> cq_buffer q' = []"
  using push_preserves_the_stream [OF demo_laws(4), of "queue_default 0" 5 "[1, 2, 3]" True]
  by (auto simp: queue_default_def queue_new_def queue_ok_def coalesce_consts)

text \<open>
  A queue built with a batch size of 0 never returns from \<open>push\<close> on non-empty data: the
  loop takes no byte and flushes an empty group on every turn.
\<close>

theorem push_with_zero_batch_never_returns:
  assumes "rs_law C" and "data \<noteq> []"
  shows "push C now (queue_new 0 timeout t0) data f = None"
proof -
  have "push_loop C now f (queue_new 0 timeout t0) data [] = None"
    using push_loop_diverges [of C now f "queue_new 0 timeout t0" data "[]"] assms
    by (cases "push_loop C now f (queue_new 0 timeout t0) data []") (auto simp: queue_new_def)
  then show ?thesis by (simp add: push_def)
qed

theorem push_with_zero_batch_witness:
  "push demo_crates 5 (queue_new 0 1 0) [9] False = None"
  by (rule push_with_zero_batch_never_returns [OF demo_laws(4)]) simp

text \<open>A shard that fits its fixed array.\<close>

definition shard_wf :: "coalesced_shard \<Rightarrow> bool" where
  "shard_wf s \<longleftrightarrow> length (cs_data s) = SHARD_PAYLOAD_BYTES"

definition shard_wire :: "coalesced_shard \<Rightarrow> bytes" where
  "shard_wire s = (case serialize_into s (zeros 504) of Ok (b, n) \<Rightarrow> take n b | _ \<Rightarrow> [])"

lemma serialize_deserialize:
  assumes "shard_wf s" and "504 \<le> length buf"
  shows "\<exists>b. serialize_into s buf = Ok (b, 504) \<and> length b = length buf \<and> deserialize b = Some s
    \<and> deserialize (take 504 b) = Some s \<and> drop 504 b = drop 504 buf"
proof -
  define b where "b = copy_at 12 (cs_data s) (copy_at 10 (be_u16 (cs_payload_len s))
      ((copy_at 0 (be_u64 (cs_group_id s)) buf)[8 := cs_shard_idx s, 9 := cs_flags s]))"
  have l: "length (cs_data s) = 492" using assms(1) by (simp add: shard_wf_def coalesce_consts)
  have b: "serialize_into s buf = Ok (b, 504)" "length b = length buf"
    using assms(2) l by (simp_all add: serialize_into_def Let_def coalesce_consts b_def)
  have f: "slice 0 8 b = be_u64 (cs_group_id s)" "b ! 8 = cs_shard_idx s" "b ! 9 = cs_flags s"
    "slice 10 12 b = be_u16 (cs_payload_len s)" "slice 12 504 b = cs_data s"
    using assms(2) l by (simp_all add: b_def wire_simps)
  have "slice i j (take 504 b) = slice i j b" if "j \<le> 504" for i j
    using that by (simp add: slice_alt min_def)
  moreover have "drop 504 b = drop 504 buf"
    using assms(2) l by (simp add: b_def copy_at_def)
  ultimately show ?thesis using b f assms(2)
    by (simp add: deserialize_def coalesce_consts Let_def)
qed

interpretation shard_codec: wire_codec shard_wire deserialize id shard_wf
  by unfold_locales
    (use serialize_deserialize [where buf = "zeros 504"] in \<open>fastforce simp: shard_wire_def\<close>)

text \<open>
  The shard wire format round-trips through any sufficiently long buffer, touches only its
  first 504 bytes, and a shorter buffer is refused on both sides.
\<close>

theorem shard_wire_roundtrip:
  assumes "length (cs_data s) = 492"
  shows "if length buf < 504 then
      serialize_into s buf = Err ''buffer too short for coalesced shard'' \<and> deserialize buf = None
    else \<exists>b. serialize_into s buf = Ok (b, 504) \<and> deserialize b = Some s \<and>
      length b = length buf \<and> drop 504 b = drop 504 buf"
  using serialize_deserialize [of s buf] assms
  by (auto simp: shard_wf_def coalesce_consts serialize_into_def deserialize_def)

theorem shard_wire_roundtrip_witness:
  "\<exists>b. serialize_into \<lparr>cs_group_id = 7, cs_shard_idx = 1, cs_flags = 2, cs_payload_len = 9,
      cs_data = zeros 492\<rparr> (zeros 600) = Ok (b, 504) \<and> length b = 600"
  using shard_wire_roundtrip [of "\<lparr>cs_group_id = 7, cs_shard_idx = 1, cs_flags = 2,
      cs_payload_len = 9, cs_data = zeros 492\<rparr>" "zeros 600"] by auto

end
