(* ===== verification/Reassembly.thy ===== *)
theory Reassembly
  imports Coalesce
begin

unbundle bit_operations_syntax

text \<open>
  The exit-side reassembly ring of src/src/ghost/net/reassembly.rs: 64 slots keyed by the coding
  group modulo 64. The properties are over arbitrary interleavings of genuine shards: the ring
  never delivers wrong bytes, delivers exactly at the second distinct shard, and suppresses the
  late third; what it does not do is remember a delivered group once its slot is reused.
\<close>

section \<open>The ring\<close>

definition RING_SLOTS :: nat where "RING_SLOTS = 64"

record reassembly_slot =
  sl_group_id :: u64
  sl_payload_len :: u16
  sl_received_mask :: u8
  sl_completed :: bool
  sl_shards :: "bytes option list"

definition slot_empty :: reassembly_slot where
  "slot_empty = \<lparr>sl_group_id = 0, sl_payload_len = 0, sl_received_mask = 0, sl_completed = False,
     sl_shards = [None, None, None]\<rparr>"

definition slot_reset :: "reassembly_slot \<Rightarrow> u64 \<Rightarrow> u16 \<Rightarrow> reassembly_slot" where
  "slot_reset s group_id payload_len =
     s\<lparr>sl_group_id := group_id, sl_payload_len := payload_len, sl_received_mask := 0,
       sl_completed := False, sl_shards := (sl_shards s)[0 := None, 1 := None, 2 := None]\<rparr>"

record reassembly_buffer =
  rb_slots :: "reassembly_slot list"
  rb_highest_seen_group :: u64

definition buffer_new :: reassembly_buffer where
  "buffer_new = \<lparr>rb_slots = replicate RING_SLOTS slot_empty, rb_highest_seen_group = 0\<rparr>"

definition count_ones :: "u8 \<Rightarrow> nat" where
  "count_ones m = length (filter (bit m) [0..<8])"

text \<open>\<open>out\<close> of both recovery paths: \<open>total_len\<close> bytes from the two data shards.\<close>

definition take_payload :: "nat \<Rightarrow> bytes \<Rightarrow> bytes \<Rightarrow> bytes" where
  "take_payload total_len d0 d1 =
     take (min total_len SHARD_PAYLOAD_BYTES) d0 @
     (if total_len > SHARD_PAYLOAD_BYTES
      then take (min (total_len - SHARD_PAYLOAD_BYTES) SHARD_PAYLOAD_BYTES) d1 else [])"

text \<open>
  The slot after the group check: \<open>None\<close> where \<open>ingest_shard\<close> returns early (completed group, or
  an outdated shard of an earlier ring cycle).
\<close>

definition claim_slot :: "reassembly_slot \<Rightarrow> coalesced_shard \<Rightarrow> reassembly_slot option" where
  "claim_slot slot sh =
     (if sl_group_id slot = cs_group_id sh then (if sl_completed slot then None else Some slot)
      else if sl_group_id slot \<noteq> 0 then
        (if cs_group_id sh < sl_group_id slot \<and>
            sl_group_id slot - cs_group_id sh < of_nat RING_SLOTS
         then None
         else Some (slot_reset slot (cs_group_id sh) (cs_payload_len sh)))
      else Some (slot_reset slot (cs_group_id sh) (cs_payload_len sh)))"

definition store_shard :: "reassembly_slot \<Rightarrow> coalesced_shard \<Rightarrow> reassembly_slot" where
  "store_shard slot sh =
     (let idx = unat (cs_shard_idx sh)
      in if sl_shards slot ! idx = None
         then slot\<lparr>sl_shards := (sl_shards slot)[idx := Some (cs_data sh)],
                   sl_received_mask := sl_received_mask slot OR push_bit idx 1\<rparr>
         else slot)"

text \<open>
  The tail of \<open>ingest_shard\<close>: fewer than two shards wait; both data shards are concatenated; a data
  shard and the parity go through the erasure code (which cannot panic there, see
  \<open>reconstruct_no_panic\<close>).
\<close>

definition try_complete :: "crates \<Rightarrow> reassembly_slot \<Rightarrow> reassembly_slot \<times> bytes option" where
  "try_complete C slot =
     (if count_ones (sl_received_mask slot) < 2 then (slot, None)
      else
        (let total_len = unat (sl_payload_len slot)
         in if sl_received_mask slot AND 3 = 3
            then (slot\<lparr>sl_completed := True\<rparr>,
                  Some (take_payload total_len (the (sl_shards slot ! 0)) (the (sl_shards slot ! 1))))
            else
              (case reconstruct C [sl_shards slot ! 0, sl_shards slot ! 1, sl_shards slot ! 2] of
                 Ok rs \<Rightarrow>
                   (case (rs ! 0, rs ! 1) of
                      (Some d0, Some d1) \<Rightarrow>
                        (slot\<lparr>sl_completed := True\<rparr>, Some (take_payload total_len d0 d1))
                    | _ \<Rightarrow> (slot, None))
               | _ \<Rightarrow> (slot, None))))"

definition ingest_shard ::
  "crates \<Rightarrow> reassembly_buffer \<Rightarrow> coalesced_shard \<Rightarrow> reassembly_buffer \<times> bytes option" where
  "ingest_shard C buf sh =
     (if cs_shard_idx sh > 2 then (buf, None)
      else
        (let slot_idx = unat (cs_group_id sh) mod RING_SLOTS
         in case claim_slot (rb_slots buf ! slot_idx) sh of
              None \<Rightarrow> (buf, None)
            | Some slot \<Rightarrow>
                (let highest = (if cs_group_id sh > rb_highest_seen_group buf then cs_group_id sh
                                else rb_highest_seen_group buf);
                     (slot, out) = try_complete C (store_shard slot sh)
                 in (buf\<lparr>rb_slots := (rb_slots buf)[slot_idx := slot],
                         rb_highest_seen_group := highest\<rparr>, out))))"

section \<open>Genuine traffic\<close>

text \<open>
  A sender: for each group number its three shards and the payload they carry, as \<open>push\<close> makes them.
\<close>

definition data_of :: "triplet \<Rightarrow> nat \<Rightarrow> coalesced_shard" where
  "data_of t i = (case t of (s0, s1, s2) \<Rightarrow> if i = 0 then s0 else if i = 1 then s1 else s2)"

definition sender :: "crates \<Rightarrow> (u64 \<Rightarrow> triplet) \<Rightarrow> (u64 \<Rightarrow> bytes) \<Rightarrow> bool" where
  "sender C G P \<longleftrightarrow> (\<forall>g. g \<noteq> 0 \<longrightarrow> group_of C g (P g) (G g))"

definition slot_genuine :: "(u64 \<Rightarrow> triplet) \<Rightarrow> (u64 \<Rightarrow> bytes) \<Rightarrow> nat \<Rightarrow> reassembly_slot \<Rightarrow> bool" where
  "slot_genuine G P k s \<longleftrightarrow>
     length (sl_shards s) = 3 \<and>
     (if sl_group_id s = 0 then \<not> sl_completed s
      else unat (sl_group_id s) mod 64 = k \<and>
        unat (sl_payload_len s) = length (P (sl_group_id s)) \<and>
        (\<forall>i. bit (sl_received_mask s) i \<longrightarrow> i < 3) \<and>
        (\<forall>i < 3. sl_shards s ! i =
           (if bit (sl_received_mask s) i then Some (cs_data (data_of (G (sl_group_id s)) i)) else None)))"

definition ring_ok :: "(u64 \<Rightarrow> triplet) \<Rightarrow> (u64 \<Rightarrow> bytes) \<Rightarrow> reassembly_buffer \<Rightarrow> bool" where
  "ring_ok G P buf \<longleftrightarrow> length (rb_slots buf) = 64 \<and> (\<forall>k < 64. slot_genuine G P k (rb_slots buf ! k))"

text \<open>What the ring knows of a group.\<close>

definition slot_for :: "reassembly_buffer \<Rightarrow> u64 \<Rightarrow> reassembly_slot" where
  "slot_for buf g = rb_slots buf ! (unat g mod 64)"

definition received :: "reassembly_buffer \<Rightarrow> u64 \<Rightarrow> nat set" where
  "received buf g =
     (if sl_group_id (slot_for buf g) = g then {i. i < 3 \<and> bit (sl_received_mask (slot_for buf g)) i} else {})"

definition delivered :: "reassembly_buffer \<Rightarrow> u64 \<Rightarrow> bool" where
  "delivered buf g \<longleftrightarrow> sl_group_id (slot_for buf g) = g \<and> sl_completed (slot_for buf g)"

lemma ring_ok_new: "ring_ok G P buffer_new"
  by (simp add: ring_ok_def buffer_new_def RING_SLOTS_def slot_genuine_def slot_empty_def)

lemma group_ofD:
  assumes "group_of C g p t" and "i < 3"
  shows "cs_group_id (data_of t i) = g" "cs_shard_idx (data_of t i) = of_nat i"
    "unat (cs_payload_len (data_of t i)) = length p" "length (cs_data (data_of t i)) = 492"
    "length p \<le> 984"
  using assms by (auto simp: group_of_def data_of_def less_Suc_eq numeral_3_eq_3 split: prod.splits)

lemma take_payload_group:
  assumes "group_of C g p t"
  shows "take_payload (length p) (cs_data (data_of t 0)) (cs_data (data_of t 1)) = p"
proof -
  let ?d0 = "cs_data (data_of t 0)" and ?d1 = "cs_data (data_of t 1)"
  have l: "length ?d0 = 492" "length ?d1 = 492" "length p \<le> 984"
    using group_ofD [OF assms, of 0] group_ofD [OF assms, of 1] by simp_all
  have eq: "?d0 @ ?d1 = p @ zeros (984 - length p)"
    using assms by (auto simp: group_of_def data_of_def split: prod.splits)
  have "min (length p - 492) 492 = length p - 492" using l(3) by simp
  then have "take_payload (length p) ?d0 ?d1 = take (length p) (?d0 @ ?d1)"
    using l by (simp add: take_payload_def coalesce_consts min_def)
  also have "\<dots> = p" by (simp only: eq) simp
  finally show ?thesis .
qed

lemma same_residue_far:
  fixes a b :: u64
  assumes "a < b" and "unat a mod 64 = unat b mod 64"
  shows "\<not> b - a < 64"
proof -
  have "unat a < unat b" using assms(1) by (simp add: word_less_nat_alt)
  moreover from this assms(2) have "64 \<le> unat b - unat a"
    by (metis diff_is_0_eq dvd_imp_le leD mod_eq_dvd_iff_nat less_imp_le zero_less_diff)
  ultimately show ?thesis using unat_sub [of a b] assms(1)
    by (simp add: word_less_nat_alt word_le_nat_alt less_imp_le)
qed

text \<open>The outdated-shard test never fires: a slot only ever holds groups of its own residue.\<close>

lemma claim_slot_genuine:
  assumes "slot_genuine G P (unat g mod 64) s" and "g \<noteq> 0" and "cs_group_id sh = g"
  shows "claim_slot s sh =
    (if sl_group_id s = g then (if sl_completed s then None else Some s)
     else Some (slot_reset s g (cs_payload_len sh)))"
  using assms same_residue_far [of g "sl_group_id s"]
  by (auto simp: claim_slot_def slot_genuine_def RING_SLOTS_def)

lemma count_ones_card: "(\<And>i. bit m i \<Longrightarrow> i < 3) \<Longrightarrow> count_ones m = card {i. i < 3 \<and> bit m i}"
proof -
  assume a: "\<And>i. bit m i \<Longrightarrow> i < 3"
  have "{i. i < 8 \<and> bit m ([0..<8] ! i)} = {i. i < 3 \<and> bit m i}" using a by fastforce
  then show ?thesis by (simp add: count_ones_def length_filter_conv_card)
qed

lemma low_two_bits: "(m AND 3 = (3 :: u8)) = (bit m 0 \<and> bit m 1)"
proof -
  have "(3 :: u8) = mask 2" by (simp add: mask_eq_exp_minus_1)
  then have "(m AND 3 = 3) = (\<forall>n. n < 8 \<longrightarrow> (bit m n \<and> n < 2) = (n < 2))"
    by (simp add: bit_eq_iff bit_and_iff bit_mask_iff)
  also have "\<dots> = (bit m 0 \<and> bit m 1)"
  proof
    assume a: "\<forall>n. n < 8 \<longrightarrow> (bit m n \<and> n < 2) = (n < 2)"
    show "bit m 0 \<and> bit m 1" using a [rule_format, of 0] a [rule_format, of 1] by simp
  qed (auto dest: less_2_cases)
  finally show ?thesis .
qed

lemma bit_set_u8: "i < 3 \<Longrightarrow> bit (m OR (2 :: u8) ^ i) j = (bit m j \<or> j = i)"
  by (auto simp: bit_or_iff bit_exp_iff)

text \<open>Storing a genuine shard records its index and keeps the slot genuine.\<close>

lemma store_shard_genuine:
  assumes "slot_genuine G P k s" and "sl_group_id s = g" and "g \<noteq> 0" and "i < 3"
    and "group_of C g (P g) (G g)"
  defines "s' \<equiv> store_shard s (data_of (G g) i)"
  shows "slot_genuine G P k s'" and "sl_group_id s' = g" and "sl_completed s' = sl_completed s"
    and "\<And>j. bit (sl_received_mask s') j \<longleftrightarrow> bit (sl_received_mask s) j \<or> j = i"
proof -
  have idx: "unat (cs_shard_idx (data_of (G g) i)) = i"
    using group_ofD(2) [OF assms(5,4)] assms(4) by (simp add: unat_of_nat)
  have sh: "sl_shards s ! i = (if bit (sl_received_mask s) i then Some (cs_data (data_of (G g) i)) else None)"
    using assms(1-4) by (simp add: slot_genuine_def)
  show b: "bit (sl_received_mask s') j \<longleftrightarrow> bit (sl_received_mask s) j \<or> j = i" for j
    using sh assms(4) by (auto simp: s'_def store_shard_def idx Let_def bit_set_u8 split: if_splits)
  show g': "sl_group_id s' = g" and "sl_completed s' = sl_completed s"
    using assms(2) by (simp_all add: s'_def store_shard_def Let_def)
  have "sl_payload_len s' = sl_payload_len s" by (simp add: s'_def store_shard_def Let_def)
  moreover have "sl_shards s' = (if bit (sl_received_mask s) i then sl_shards s
      else (sl_shards s)[i := Some (cs_data (data_of (G g) i))])"
    using sh by (auto simp: s'_def store_shard_def idx Let_def)
  ultimately show "slot_genuine G P k s'"
    using assms(1-4) b g' by (auto simp: slot_genuine_def nth_list_update)
qed

text \<open>Completion of a genuine slot: at two shards, with the group's payload.\<close>

lemma try_complete_genuine:
  assumes "rs_law C" and "slot_genuine G P k s" and "sl_group_id s = g" and "g \<noteq> 0"
    and "group_of C g (P g) (G g)" and "\<not> sl_completed s"
  defines "R \<equiv> {i. i < 3 \<and> bit (sl_received_mask s) i}"
  shows "try_complete C s =
    (if card R < 2 then (s, None) else (s\<lparr>sl_completed := True\<rparr>, Some (P g)))"
proof -
  let ?d = "\<lambda>i. cs_data (data_of (G g) i)"
  have b3: "\<And>i. bit (sl_received_mask s) i \<Longrightarrow> i < 3" using assms(2-4) by (auto simp: slot_genuine_def)
  have sh: "sl_shards s ! i = (if i \<in> R then Some (?d i) else None)" if "i < 3" for i
    using assms(2-4) that by (simp add: slot_genuine_def R_def)
  have cnt: "count_ones (sl_received_mask s) = card R" using count_ones_card [OF b3] by (simp add: R_def)
  have len: "unat (sl_payload_len s) = length (P g)" using assms(2-4) by (auto simp: slot_genuine_def)
  have l: "length (?d 0) = 492" "length (?d 1) = 492"
    using group_ofD(4) [OF assms(5)] by simp_all
  have ne: "?d 0 \<noteq> []" using l by auto
  have rs: "rs_encode_sep C (?d 0) (?d 1) = Some (?d 2)"
    using assms(5) by (auto simp: group_of_def data_of_def split: prod.splits)
  note rec = reconstruct_two [OF assms(1) ne _ rs] 
  have pay: "take_payload (length (P g)) (?d 0) (?d 1) = P g" by (rule take_payload_group [OF assms(5)])
  show ?thesis
  proof (cases "card R < 2")
    case True
    then show ?thesis by (simp add: try_complete_def cnt)
  next
    case False
    have sub: "R \<subseteq> {0, 1, 2}" by (auto simp: R_def)
    have n: "\<not> R \<subseteq> {a}" for a using False card_mono [of "{a}" R] by auto
    consider "0 \<in> R" "1 \<in> R" | "0 \<in> R" "1 \<notin> R" "2 \<in> R" | "0 \<notin> R" "1 \<in> R" "2 \<in> R"
      using sub n [of 0] n [of 1] n [of 2] by blast
    then show ?thesis
    proof cases
      case 1
      then have "sl_received_mask s AND 3 = 3" by (simp add: low_two_bits R_def)
      then show ?thesis using False 1 sh [of 0] sh [of 1] pay
        by (simp add: try_complete_def cnt len Let_def)
    next
      case 2
      then have "sl_received_mask s AND 3 \<noteq> 3" by (simp add: low_two_bits R_def)
      then show ?thesis using False 2 sh [of 0] sh [of 1] sh [of 2] rec l pay
        by (simp add: try_complete_def cnt len Let_def)
    next
      case 3
      then have "sl_received_mask s AND 3 \<noteq> 3" by (simp add: low_two_bits R_def)
      then show ?thesis using False 3 sh [of 0] sh [of 1] sh [of 2] rec l pay
        by (simp add: try_complete_def cnt len Let_def)
    qed
  qed
qed

section \<open>Properties\<close>

lemma ingest_genuine:
  assumes "rs_law C" and "sender C G P" and "ring_ok G P buf" and "g \<noteq> 0" and "i < 3"
  defines "k \<equiv> unat g mod 64" and "s \<equiv> slot_for buf g"
  shows "ingest_shard C buf (data_of (G g) i) =
    (if delivered buf g then (buf, None)
     else
       (let t = try_complete C (store_shard
                  (if sl_group_id s = g then s else slot_reset s g (cs_payload_len (data_of (G g) i)))
                  (data_of (G g) i))
        in (buf\<lparr>rb_slots := (rb_slots buf)[k := fst t],
                rb_highest_seen_group := (if g > rb_highest_seen_group buf then g else rb_highest_seen_group buf)\<rparr>,
            snd t)))"
proof -
  have gr: "group_of C g (P g) (G g)" using assms(2,4) by (simp add: sender_def)
  note sh = group_ofD [OF gr assms(5)]
  have "slot_genuine G P k s" using assms(3) by (simp add: ring_ok_def s_def slot_for_def k_def)
  note cl = claim_slot_genuine [OF this [unfolded k_def] assms(4) sh(1)]
  have "\<not> cs_shard_idx (data_of (G g) i) > 2"
    using sh(2) assms(5) by (auto simp: word_less_nat_alt unat_of_nat)
  then show ?thesis
    using sh(1) cl by (simp add: ingest_shard_def Let_def RING_SLOTS_def delivered_def s_def slot_for_def
        k_def split: prod.splits)
qed

lemma slot_reset_genuine:
  assumes "slot_genuine G P (unat g mod 64) s" and "g \<noteq> 0" and "unat n = length (P g)"
  shows "slot_genuine G P (unat g mod 64) (slot_reset s g n)"
    and "\<not> sl_completed (slot_reset s g n)" and "sl_group_id (slot_reset s g n) = g"
    and "\<not> bit (sl_received_mask (slot_reset s g n)) j"
  using assms by (auto simp: slot_genuine_def slot_reset_def nth_list_update less_Suc_eq numeral_3_eq_3)

text \<open>The behaviour of the ring on a genuine shard, in terms of what it has received.\<close>

lemma ingest_genuine_spec:
  assumes "rs_law C" and "sender C G P" and "ring_ok G P buf" and "g \<noteq> 0" and "i < 3"
  shows "case ingest_shard C buf (data_of (G g) i) of (buf', out) \<Rightarrow>
    ring_ok G P buf' \<and>
    (if delivered buf g then buf' = buf \<and> out = None
     else received buf' g = insert i (received buf g) \<and>
       delivered buf' g = (2 \<le> card (insert i (received buf g))) \<and>
       out = (if 2 \<le> card (insert i (received buf g)) then Some (P g) else None) \<and>
       (\<forall>k < 64. k \<noteq> unat g mod 64 \<longrightarrow> rb_slots buf' ! k = rb_slots buf ! k))"
proof (cases "delivered buf g")
  case True
  then show ?thesis using ingest_genuine [OF assms] assms(3) by simp
next
  case False
  define k where "k = unat g mod 64"
  define sh where "sh = data_of (G g) i"
  define s where "s = slot_for buf g"
  define s1 where "s1 = (if sl_group_id s = g then s else slot_reset s g (cs_payload_len sh))"
  define s2 where "s2 = store_shard s1 sh"
  have gr: "group_of C g (P g) (G g)" using assms(2,4) by (simp add: sender_def)
  have k: "k < 64" by (simp add: k_def)
  have len: "length (rb_slots buf) = 64" using assms(3) by (simp add: ring_ok_def)
  have gs: "slot_genuine G P k s" using assms(3) by (simp add: ring_ok_def s_def slot_for_def k_def)
  have s1: "slot_genuine G P k s1" "sl_group_id s1 = g" "\<not> sl_completed s1"
      "{j. j < 3 \<and> bit (sl_received_mask s1) j} = received buf g"
    using gs False slot_reset_genuine [OF gs [unfolded k_def] assms(4) group_ofD(3) [OF gr assms(5)]]
    by (auto simp: s1_def sh_def k_def delivered_def received_def s_def)
  note s2 = store_shard_genuine [OF s1(1,2) assms(4,5) gr, folded sh_def s2_def]
  have R: "{j. j < 3 \<and> bit (sl_received_mask s2) j} = insert i (received buf g)"
    using s2(4) assms(5) s1(4) by auto
  have nc: "\<not> sl_completed s2" using s2(3) s1(3) by simp
  note tc = try_complete_genuine [OF assms(1) s2(1,2) assms(4) gr nc, unfolded R]
  define s3 where "s3 = fst (try_complete C s2)"
  have s3: "slot_genuine G P k s3" "sl_group_id s3 = g" "sl_received_mask s3 = sl_received_mask s2"
      "sl_completed s3 = (2 \<le> card (insert i (received buf g)))"
    using s2(1,2) nc assms(4) by (auto simp: s3_def tc slot_genuine_def)
  have ing: "ingest_shard C buf sh =
      (buf\<lparr>rb_slots := (rb_slots buf)[k := s3],
           rb_highest_seen_group := (if g > rb_highest_seen_group buf then g else rb_highest_seen_group buf)\<rparr>,
       snd (try_complete C s2))"
    using ingest_genuine [OF assms] False
    by (simp add: Let_def s3_def s2_def s1_def s_def sh_def k_def)
  show ?thesis
    unfolding sh_def [symmetric] ing
    using False s3 R k len assms(3)
    by (auto simp: tc ring_ok_def nth_list_update received_def delivered_def slot_for_def
        k_def [symmetric] not_less)
qed

lemma ingest_step:
  assumes "rs_law C" and "sender C G P" and "ring_ok G P buf" and "g \<noteq> 0" and "i < 3" and "\<not> delivered buf g"
  defines "buf' \<equiv> fst (ingest_shard C buf (data_of (G g) i))"
  shows "ring_ok G P buf'" and "received buf' g = insert i (received buf g)"
    and "delivered buf' g = (2 \<le> card (insert i (received buf g)))"
    and "snd (ingest_shard C buf (data_of (G g) i)) =
      (if 2 \<le> card (insert i (received buf g)) then Some (P g) else None)"
  using ingest_genuine_spec [OF assms(1-5)] assms(6)
  by (auto simp: buf'_def split: prod.splits)

text \<open>A concrete sender: every group carries \<open>[1, 2, 3]\<close>, coded by the coalescing queue.\<close>

definition demo_group :: "u64 \<Rightarrow> triplet" where
  "demo_group g =
     (case flush_internal demo_crates 0 0 ((queue_default 0)\<lparr>cq_buffer := [1, 2, 3], cq_next_group_id := g\<rparr>) of
        Ok r \<Rightarrow> snd r)"

lemma demo_sender: "sender demo_crates demo_group (\<lambda>g. [1, 2, 3])"
proof -
  have "group_of demo_crates g [1, 2, 3] (demo_group g)" for g
    by (rule flush_internal_ok [OF demo_laws(4),
          of "(queue_default 0)\<lparr>cq_buffer := [1, 2, 3], cq_next_group_id := g\<rparr>" 0 0])
      (simp_all add: demo_group_def)
  then show ?thesis by (simp add: sender_def)
qed



text \<open>
  The ring forgets a delivered group as soon as one shard of the group 64 places later claims
  its slot: two late or replayed shards of the old group are then accepted again, evict the newer
  group's shard, and the old payload is delivered a second time. (The test for outdated shards
  compares groups of one slot, whose distance is a multiple of 64, with 64 and so never fires.)
\<close>

theorem delivered_group_is_delivered_again:
  assumes "rs_law C" and "sender C G P" and "ring_ok G P buf" and "g \<noteq> 0" and "g + 64 \<noteq> 0"
    and "delivered buf g" and "i < 3" and "j < 3" and "i \<noteq> j"
  defines "buf1 \<equiv> fst (ingest_shard C buf (data_of (G (g + 64)) 0))"
  defines "buf2 \<equiv> fst (ingest_shard C buf1 (data_of (G g) i))"
  shows "snd (ingest_shard C buf2 (data_of (G g) j)) = Some (P g) \<and> received buf2 (g + 64) = {}"
proof -
  have slot: "unat (g + 64) mod 64 = unat g mod 64"
    by (simp add: unat_word_ariths mod_mod_cancel)
  have ne: "g + 64 \<noteq> g" by simp
  have sf: "slot_for b (g + 64) = slot_for b g" for b by (simp add: slot_for_def slot)
  have n0: "received buf (g + 64) = {}" "\<not> delivered buf (g + 64)"
    using assms(6) ne by (auto simp: delivered_def received_def sf)
  note a = ingest_step [OF assms(1-3,5) _ n0(2), of 0, folded buf1_def, unfolded n0(1), simplified]
  have "sl_group_id (slot_for buf1 (g + 64)) = g + 64"
    using a(2) by (auto simp: received_def split: if_splits)
  then have n1: "received buf1 g = {}" "\<not> delivered buf1 g"
    using ne by (auto simp: delivered_def received_def sf)
  note b = ingest_step [OF assms(1,2) a(1) assms(4,7) n1(2), folded buf2_def, unfolded n1(1), simplified]
  have c: "2 \<le> card (insert j (received buf2 g))" using b(2) assms(9) by simp
  have "snd (ingest_shard C buf2 (data_of (G g) j)) = Some (P g)"
    using ingest_step(4) [OF assms(1,2) b(1) assms(4,8)] b(3) c by simp
  moreover have "sl_group_id (slot_for buf2 g) = g"
    using b(2) by (auto simp: received_def split: if_splits)
  then have "received buf2 (g + 64) = {}" using ne by (auto simp: received_def sf)
  ultimately show ?thesis ..
qed

text \<open>The ring after both data shards of group 5.\<close>

definition demo_ring :: reassembly_buffer where
  "demo_ring = fst (ingest_shard demo_crates
     (fst (ingest_shard demo_crates buffer_new (data_of (demo_group 5) 0))) (data_of (demo_group 5) 1))"

lemma demo_ring_delivered:
  "ring_ok demo_group (\<lambda>g. [1, 2, 3]) demo_ring" "delivered demo_ring 5"
proof -
  have n: "\<not> delivered buffer_new 5" "received buffer_new 5 = {}"
    by (simp_all add: received_def delivered_def slot_for_def buffer_new_def RING_SLOTS_def slot_empty_def)
  note a = ingest_step [OF demo_laws(4) demo_sender ring_ok_new _ _ n(1), of 0, unfolded n(2), simplified]
  note b = ingest_step [OF demo_laws(4) demo_sender a(1) _ _ a(3), of 1, folded demo_ring_def,
      unfolded a(2), simplified]
  show "ring_ok demo_group (\<lambda>g. [1, 2, 3]) demo_ring" "delivered demo_ring 5" using b by simp_all
qed

theorem delivered_again_witness:
  "snd (ingest_shard demo_crates (fst (ingest_shard demo_crates
      (fst (ingest_shard demo_crates demo_ring (data_of (demo_group 69) 0)))
      (data_of (demo_group 5) 2))) (data_of (demo_group 5) 0)) = Some [1, 2, 3]"
  using delivered_group_is_delivered_again [OF demo_laws(4) demo_sender demo_ring_delivered(1) _ _
      demo_ring_delivered(2), of 2 0] by simp

end
