(* ===== verification/L6_Session.thy ===== *)
theory L6_Session
  imports Prelude
begin

unbundle bit_operations_syntax

text \<open>
  L6, the session guard of src/src/ghost/layers/l6_session.rs: the 128-slot sliding replay window
  with its hard and idle timeouts, in the 32-bit (\<open>SessionGuard\<close>) and the 64-bit
  (\<open>SessionGuardU64\<close>) variant. The interface \<open>replay_window\<close> states what one call of
  \<open>check_and_update\<close> does to the highest counter and the bitmask; the refinement of the bitmask to
  the set of counters accepted so far, and at-most-once acceptance over every run, are proved once
  for the interface and both guards are interpretations of it. \<open>Instant::now()\<close> is the argument
  \<open>now\<close>; the two clock reads of one call are one.
\<close>

section \<open>The two guards\<close>

definition WINDOW_SIZE :: u32 where "WINDOW_SIZE = 128"
definition SESSION_HARD_TIMEOUT :: duration where "SESSION_HARD_TIMEOUT = secs 86400"
definition SESSION_IDLE_TIMEOUT :: duration where "SESSION_IDLE_TIMEOUT = secs 120"

record session_guard =
  sg_start_time :: instant
  sg_last_activity :: instant
  sg_v_max :: u32
  sg_bitmask :: u128

definition sg_new :: "instant \<Rightarrow> session_guard" where
  "sg_new now = \<lparr>sg_start_time = now, sg_last_activity = now, sg_v_max = 0, sg_bitmask = 0\<rparr>"

definition sg_is_valid :: "session_guard \<Rightarrow> instant \<Rightarrow> bool" where
  "sg_is_valid g now \<longleftrightarrow>
     now - sg_start_time g < SESSION_HARD_TIMEOUT \<and> now - sg_last_activity g < SESSION_IDLE_TIMEOUT"

definition sg_check_and_update :: "session_guard \<Rightarrow> instant \<Rightarrow> u32 \<Rightarrow> session_guard \<times> bool" where
  "sg_check_and_update g now counter =
     (if \<not> sg_is_valid g now then (g, False)
      else if counter < sat_sub (sg_v_max g) WINDOW_SIZE then (g, False)
      else if counter > sg_v_max g then
        (let shift = counter - sg_v_max g;
             msk = (if shift \<ge> WINDOW_SIZE then 1 else push_bit (unat shift) (sg_bitmask g) OR 1)
         in (g\<lparr>sg_bitmask := msk, sg_v_max := counter, sg_last_activity := now\<rparr>, True))
      else
        (let offset = sat_sub (sg_v_max g) counter
         in if offset \<ge> WINDOW_SIZE then (g, False)
            else if sg_bitmask g AND push_bit (unat offset) 1 \<noteq> 0 then (g, False)
            else (g\<lparr>sg_bitmask := sg_bitmask g OR push_bit (unat offset) 1,
                    sg_last_activity := now\<rparr>, True)))"

definition sg_check_and_update_u64 :: "session_guard \<Rightarrow> instant \<Rightarrow> u64 \<Rightarrow> session_guard \<times> bool" where
  "sg_check_and_update_u64 g now counter =
     (if counter > 0xFFFFFFFF then (g, False) else sg_check_and_update g now (ucast counter))"

definition sg_reset :: "session_guard \<Rightarrow> instant \<Rightarrow> session_guard" where
  "sg_reset g now =
     g\<lparr>sg_start_time := now, sg_last_activity := now, sg_v_max := 0, sg_bitmask := 0\<rparr>"

record session_guard_u64 =
  g64_start_time :: instant
  g64_last_activity :: instant
  g64_v_max :: u64
  g64_bitmask :: u128

definition g64_new :: "instant \<Rightarrow> session_guard_u64" where
  "g64_new now = \<lparr>g64_start_time = now, g64_last_activity = now, g64_v_max = 0, g64_bitmask = 0\<rparr>"

definition g64_is_valid :: "session_guard_u64 \<Rightarrow> instant \<Rightarrow> bool" where
  "g64_is_valid g now \<longleftrightarrow>
     now - g64_start_time g < SESSION_HARD_TIMEOUT \<and> now - g64_last_activity g < SESSION_IDLE_TIMEOUT"

definition g64_check_and_update ::
  "session_guard_u64 \<Rightarrow> instant \<Rightarrow> u64 \<Rightarrow> session_guard_u64 \<times> bool" where
  "g64_check_and_update g now counter =
     (if \<not> g64_is_valid g now then (g, False)
      else
        (let window_size = 128
         in if counter < sat_sub (g64_v_max g) window_size then (g, False)
            else if counter > g64_v_max g then
              (let shift = counter - g64_v_max g;
                   msk = (if shift \<ge> window_size then 1
                           else push_bit (unat shift) (g64_bitmask g) OR 1)
               in (g\<lparr>g64_bitmask := msk, g64_v_max := counter, g64_last_activity := now\<rparr>, True))
            else
              (let offset = sat_sub (g64_v_max g) counter
               in if offset \<ge> window_size then (g, False)
                  else if g64_bitmask g AND push_bit (unat offset) 1 \<noteq> 0 then (g, False)
                  else (g\<lparr>g64_bitmask := g64_bitmask g OR push_bit (unat offset) 1,
                          g64_last_activity := now\<rparr>, True))))"

definition g64_reset :: "session_guard_u64 \<Rightarrow> instant \<Rightarrow> session_guard_u64" where
  "g64_reset g now =
     g\<lparr>g64_start_time := now, g64_last_activity := now, g64_v_max := 0, g64_bitmask := 0\<rparr>"

text \<open>The counters a guard accepts, in order, over a run of timed arrivals.\<close>

fun accepted_run ::
  "('s \<Rightarrow> instant \<Rightarrow> 'c \<Rightarrow> 's \<times> bool) \<Rightarrow> 's \<Rightarrow> (instant \<times> 'c) list \<Rightarrow> 's \<times> 'c list" where
  "accepted_run check s [] = (s, [])"
| "accepted_run check s ((now, c) # evs) =
     (case check s now c of (s', ok) \<Rightarrow>
        (case accepted_run check s' evs of (s'', cs) \<Rightarrow> (s'', if ok then c # cs else cs)))"

section \<open>The window as a set of accepted counters\<close>

text \<open>
  \<open>tracks hi msk S\<close>: the highest counter and the bitmask represent the set \<open>S\<close> of accepted
  counters exactly inside the window and bound it above.
\<close>

definition tracks :: "'w::len word \<Rightarrow> u128 \<Rightarrow> 'w word set \<Rightarrow> bool" where
  "tracks hi msk S \<longleftrightarrow>
     (\<forall>c \<in> S. c \<le> hi) \<and>
     (\<forall>c. c \<le> hi \<longrightarrow> unat hi - unat c < 128 \<longrightarrow> (bit msk (unat hi - unat c) \<longleftrightarrow> c \<in> S))"

lemma tracks_empty: "tracks 0 0 {}"
  by (simp add: tracks_def)

lemma tracks_advance:
  fixes c :: "'w::len word"
  assumes "tracks hi msk S" and "hi < c"
  shows "tracks c (if 128 \<le> unat c - unat hi then 1 else push_bit (unat c - unat hi) msk OR 1)
           (insert c S)"
proof -
  have less: "unat hi < unat c" using assms(2) by (simp add: word_less_nat_alt)
  have "bit (if 128 \<le> unat c - unat hi then 1 else push_bit (unat c - unat hi) msk OR 1 :: u128)
          (unat c - unat x) \<longleftrightarrow> x \<in> insert c S"
    if x: "x \<le> c" "unat c - unat x < 128" for x
  proof (cases "x = c")
    case True
    then show ?thesis by (simp add: bit_or_iff)
  next
    case False
    have ne: "unat c - unat x \<noteq> 0" using False x(1) by (simp add: word_le_nat_alt word_unat_eq_iff)
    consider "hi < x" | "x \<le> hi" by (meson not_le)
    then show ?thesis
    proof cases
      case 1
      then have "x \<notin> S" using assms(1) by (auto simp: tracks_def)
      then show ?thesis using 1 False ne less x
        by (auto simp: bit_or_iff bit_push_bit_iff bit_1_iff word_less_nat_alt word_le_nat_alt)
    next
      case 2
      then have le: "unat x \<le> unat hi" by (simp add: word_le_nat_alt)
      then have eq: "unat c - unat x = (unat c - unat hi) + (unat hi - unat x)" using less by simp
      then have "\<not> 128 \<le> unat c - unat hi" using x(2) by simp
      moreover have "bit msk (unat hi - unat x) \<longleftrightarrow> x \<in> S"
        using assms(1) 2 x(2) eq by (simp add: tracks_def)
      ultimately show ?thesis using False ne x(2) eq
        by (auto simp: bit_or_iff bit_push_bit_iff bit_1_iff)
    qed
  qed
  moreover have "\<forall>x \<in> insert c S. x \<le> c"
    using assms by (auto simp: tracks_def intro: order_trans less_imp_le)
  ultimately show ?thesis by (simp add: tracks_def)
qed

lemma tracks_fill:
  fixes c :: "'w::len word"
  assumes "tracks hi msk S" and "c \<le> hi" and "unat hi - unat c < 128"
  shows "tracks hi (msk OR push_bit (unat hi - unat c) 1) (insert c S)"
proof -
  have "bit (msk OR push_bit (unat hi - unat c) 1) (unat hi - unat x) \<longleftrightarrow> x \<in> insert c S"
    if x: "x \<le> hi" "unat hi - unat x < 128" for x
  proof -
    have "unat hi - unat x = unat hi - unat c \<longleftrightarrow> x = c"
      using x(1) assms(2) by (auto simp: word_le_nat_alt word_unat_eq_iff)
    then show ?thesis using assms x
      by (auto simp: tracks_def bit_or_iff bit_exp_iff)
  qed
  moreover have "\<forall>x \<in> insert c S. x \<le> hi" using assms by (auto simp: tracks_def)
  ultimately show ?thesis by (simp add: tracks_def)
qed

section \<open>The replay window interface\<close>

locale replay_window =
  fixes check :: "'s \<Rightarrow> instant \<Rightarrow> 'w::len word \<Rightarrow> 's \<times> bool"
    and live :: "'s \<Rightarrow> instant \<Rightarrow> bool"
    and hi :: "'s \<Rightarrow> 'w word" and msk :: "'s \<Rightarrow> u128"
  assumes check_dead: "\<not> live s now \<Longrightarrow> check s now c = (s, False)"
    and check_newer: "live s now \<Longrightarrow> hi s < c \<Longrightarrow>
      (\<exists>s'. check s now c = (s', True) \<and> hi s' = c \<and>
        msk s' = (if 128 \<le> unat c - unat (hi s) then 1
                   else push_bit (unat c - unat (hi s)) (msk s) OR 1))"
    and check_stale: "c \<le> hi s \<Longrightarrow> 128 \<le> unat (hi s) - unat c \<Longrightarrow> check s now c = (s, False)"
    and check_seen: "c \<le> hi s \<Longrightarrow> unat (hi s) - unat c < 128 \<Longrightarrow>
      bit (msk s) (unat (hi s) - unat c) \<Longrightarrow> check s now c = (s, False)"
    and check_fresh: "live s now \<Longrightarrow> c \<le> hi s \<Longrightarrow> unat (hi s) - unat c < 128 \<Longrightarrow>
      \<not> bit (msk s) (unat (hi s) - unat c) \<Longrightarrow>
      (\<exists>s'. check s now c = (s', True) \<and> hi s' = hi s \<and>
        msk s' = msk s OR push_bit (unat (hi s) - unat c) 1)"
begin

text \<open>The guard's decision, over the set of counters it has accepted.\<close>

lemma check_decides:
  assumes "tracks (hi s) (msk s) S"
  shows "snd (check s now c) \<longleftrightarrow> live s now \<and> c \<notin> S \<and> unat (hi s) < unat c + 128"
proof (cases "live s now")
  case True
  consider "hi s < c" | "c \<le> hi s" "128 \<le> unat (hi s) - unat c"
    | "c \<le> hi s" "unat (hi s) - unat c < 128"
    by (meson not_le)
  then show ?thesis
  proof cases
    case 1
    then have "c \<notin> S" using assms by (auto simp: tracks_def)
    then show ?thesis using check_newer [OF True 1] True 1 by (auto simp: word_less_nat_alt)
  next
    case 2
    then show ?thesis by (auto simp: check_stale)
  next
    case 3
    then have "bit (msk s) (unat (hi s) - unat c) \<longleftrightarrow> c \<in> S" using assms by (simp add: tracks_def)
    then show ?thesis using check_seen [OF 3] check_fresh [OF True 3] True 3
      by (cases "c \<in> S") (auto simp: word_le_nat_alt)
  qed
qed (simp add: check_dead)

lemma check_tracks:
  assumes "tracks (hi s) (msk s) S" and "check s now c = (s', ok)"
  shows "tracks (hi s') (msk s') (if ok then insert c S else S)"
proof (cases "live s now")
  case True
  consider "hi s < c" | "c \<le> hi s" "128 \<le> unat (hi s) - unat c"
    | "c \<le> hi s" "unat (hi s) - unat c < 128"
    by (meson not_le)
  then show ?thesis
  proof cases
    case 1
    then show ?thesis
      using check_newer [OF True 1] assms(2) tracks_advance [OF assms(1) 1] by auto
  next
    case 2
    then show ?thesis using assms check_stale [OF 2] by auto
  next
    case 3
    show ?thesis
    proof (cases "bit (msk s) (unat (hi s) - unat c)")
      case True
      then show ?thesis using check_seen [OF 3 True] assms by auto
    next
      case False
      then show ?thesis
        using check_fresh [OF True 3 False] assms(2) tracks_fill [OF assms(1) 3] by auto
    qed
  qed
qed (use assms in \<open>auto simp: check_dead\<close>)

lemma run_tracks:
  "tracks (hi s) (msk s) S \<Longrightarrow> accepted_run check s evs = (s', cs) \<Longrightarrow>
   tracks (hi s') (msk s') (S \<union> set cs) \<and> distinct cs \<and> set cs \<inter> S = {}"
proof (induction evs arbitrary: s S cs)
  case (Cons ev evs)
  obtain now c where ev: "ev = (now, c)" by force
  obtain s1 ok where chk: "check s now c = (s1, ok)" by force
  obtain cs1 where run: "accepted_run check s1 evs = (s', cs1)" "cs = (if ok then c # cs1 else cs1)"
    using Cons.prems(2) by (auto simp: ev chk split: prod.splits)
  have "ok \<Longrightarrow> c \<notin> S" using check_decides [OF Cons.prems(1), of now c] chk by simp
  with Cons.IH [OF check_tracks [OF Cons.prems(1) chk] run(1)] run(2)
  show ?case by (cases ok) auto
qed simp

lemma accepted_once:
  "hi s = 0 \<Longrightarrow> msk s = 0 \<Longrightarrow> distinct (snd (accepted_run check s evs))"
  using run_tracks [of s "{}" evs] tracks_empty by (cases "accepted_run check s evs") auto

lemma highest_grows: "check s now c = (s', ok) \<Longrightarrow> hi s \<le> hi s'"
proof (cases "live s now")
  case True
  assume chk: "check s now c = (s', ok)"
  consider "hi s < c" | "c \<le> hi s" "128 \<le> unat (hi s) - unat c"
    | "c \<le> hi s" "unat (hi s) - unat c < 128"
    by (meson not_le)
  then show ?thesis
    using chk check_newer [OF True] check_stale [of c s now] check_seen [of c s now]
      check_fresh [OF True]
    by cases fastforce+
qed (auto simp: check_dead)

end

lemmas guard_defs = sg_check_and_update_def g64_check_and_update_def WINDOW_SIZE_def Let_def

lemma unat_off: "(c :: 'w::len word) \<le> h \<Longrightarrow> unat (h - c) = unat h - unat c"
  by (simp add: unat_sub)

lemma ge_128_iff:
  "(128 \<le> (x :: u32)) = (128 \<le> unat x)" "(128 \<le> (y :: u64)) = (128 \<le> unat y)"
  by (simp_all add: word_le_nat_alt)

lemma too_old_iff:
  "(c < sat_sub h 128) = (unat c + 128 < unat (h :: u32))"
  "(d < sat_sub k 128) = (unat d + 128 < unat (k :: u64))"
  by (auto simp: word_less_nat_alt unat_sat_sub)

lemmas guard_arith = ge_128_iff too_old_iff unat_off unat_sat_sub and_exp_eq_0_iff_not_bit not_less

interpretation guard32: replay_window sg_check_and_update sg_is_valid sg_v_max sg_bitmask
proof
  fix s now and c :: u32
  show "\<not> sg_is_valid s now \<Longrightarrow> sg_check_and_update s now c = (s, False)"
    by (simp add: guard_defs)
  show "c \<le> sg_v_max s \<Longrightarrow> 128 \<le> unat (sg_v_max s) - unat c \<Longrightarrow> sg_check_and_update s now c = (s, False)"
    by (auto simp: guard_defs guard_arith)
  show "c \<le> sg_v_max s \<Longrightarrow> unat (sg_v_max s) - unat c < 128 \<Longrightarrow>
      bit (sg_bitmask s) (unat (sg_v_max s) - unat c) \<Longrightarrow> sg_check_and_update s now c = (s, False)"
    by (auto simp: guard_defs guard_arith)
  show "\<exists>s'. sg_check_and_update s now c = (s', True) \<and> sg_v_max s' = c \<and>
      sg_bitmask s' = (if 128 \<le> unat c - unat (sg_v_max s) then 1
        else push_bit (unat c - unat (sg_v_max s)) (sg_bitmask s) OR 1)"
    if "sg_is_valid s now" "sg_v_max s < c"
    using that unat_off [OF less_imp_le [OF that(2)]]
    by (auto simp: guard_defs ge_128_iff unat_sat_sub word_less_nat_alt)
  show "\<exists>s'. sg_check_and_update s now c = (s', True) \<and> sg_v_max s' = sg_v_max s \<and>
      sg_bitmask s' = sg_bitmask s OR push_bit (unat (sg_v_max s) - unat c) 1"
    if "sg_is_valid s now" "c \<le> sg_v_max s" "unat (sg_v_max s) - unat c < 128"
      "\<not> bit (sg_bitmask s) (unat (sg_v_max s) - unat c)"
    using that by (auto simp: guard_defs guard_arith)
qed

interpretation guard64: replay_window g64_check_and_update g64_is_valid g64_v_max g64_bitmask
proof
  fix s now and c :: u64
  show "\<not> g64_is_valid s now \<Longrightarrow> g64_check_and_update s now c = (s, False)"
    by (simp add: guard_defs)
  show "c \<le> g64_v_max s \<Longrightarrow> 128 \<le> unat (g64_v_max s) - unat c \<Longrightarrow> g64_check_and_update s now c = (s, False)"
    by (auto simp: guard_defs guard_arith)
  show "c \<le> g64_v_max s \<Longrightarrow> unat (g64_v_max s) - unat c < 128 \<Longrightarrow>
      bit (g64_bitmask s) (unat (g64_v_max s) - unat c) \<Longrightarrow> g64_check_and_update s now c = (s, False)"
    by (auto simp: guard_defs guard_arith)
  show "\<exists>s'. g64_check_and_update s now c = (s', True) \<and> g64_v_max s' = c \<and>
      g64_bitmask s' = (if 128 \<le> unat c - unat (g64_v_max s) then 1
        else push_bit (unat c - unat (g64_v_max s)) (g64_bitmask s) OR 1)"
    if "g64_is_valid s now" "g64_v_max s < c"
    using that unat_off [OF less_imp_le [OF that(2)]]
    by (auto simp: guard_defs ge_128_iff unat_sat_sub word_less_nat_alt)
  show "\<exists>s'. g64_check_and_update s now c = (s', True) \<and> g64_v_max s' = g64_v_max s \<and>
      g64_bitmask s' = g64_bitmask s OR push_bit (unat (g64_v_max s) - unat c) 1"
    if "g64_is_valid s now" "c \<le> g64_v_max s" "unat (g64_v_max s) - unat c < 128"
      "\<not> bit (g64_bitmask s) (unat (g64_v_max s) - unat c)"
    using that by (auto simp: guard_defs guard_arith)
qed

section \<open>Properties\<close>

text \<open>
  C9. The 64-bit replay guard, started fresh and fed any sequence of timed counters: the accepted
  counters are pairwise distinct, and the next counter is accepted exactly when the session has not
  timed out, the counter was never accepted before, and it is less than 128 behind the highest.
\<close>

theorem guard64_accepts_exactly_the_fresh_counters:
  assumes "accepted_run g64_check_and_update (g64_new t0) evs = (g, cs)"
  shows "distinct cs \<and>
    (snd (g64_check_and_update g now c) \<longleftrightarrow>
       g64_is_valid g now \<and> c \<notin> set cs \<and> unat (g64_v_max g) < unat c + 128)"
proof -
  have "tracks (g64_v_max (g64_new t0)) (g64_bitmask (g64_new t0)) {}"
    by (simp add: g64_new_def tracks_empty)
  from guard64.run_tracks [OF this assms] guard64.check_decides [of g "set cs" now c]
  show ?thesis by simp
qed

theorem guard64_accepts_exactly_witness:
  "\<not> snd (g64_check_and_update
     (fst (accepted_run g64_check_and_update (g64_new 0) [(1, 5), (2, 3)])) 3 3)"
  using guard64_accepts_exactly_the_fresh_counters
    [of 0 "[(1, 5), (2, 3)]" "fst (accepted_run g64_check_and_update (g64_new 0) [(1, 5), (2, 3)])"
      "[5, 3]" 3 3]
  by (simp add: g64_check_and_update_def g64_new_def g64_is_valid_def sat_sub_def
      SESSION_HARD_TIMEOUT_def SESSION_IDLE_TIMEOUT_def secs_def Let_def)

text \<open>
  The 32-bit guard never accepts one counter twice, whatever arrives and whenever.
\<close>

theorem guard32_accepts_each_counter_once:
  "distinct (snd (accepted_run sg_check_and_update (sg_new t0) evs))"
  by (rule guard32.accepted_once) (simp_all add: sg_new_def)

text \<open>The 32-bit guard as a 64-bit one.\<close>

definition widen_guard :: "session_guard \<Rightarrow> session_guard_u64" where
  "widen_guard g = \<lparr>g64_start_time = sg_start_time g, g64_last_activity = sg_last_activity g,
     g64_v_max = ucast (sg_v_max g), g64_bitmask = sg_bitmask g\<rparr>"

lemma unat_ucast_32_64 [simp]: "unat (ucast (x :: u32) :: u64) = unat x"
  using unat_bound [of x] by (simp add: unat_ucast_mod)

lemma narrow_counter:
  "(c :: u64) \<le> 0xFFFFFFFF \<Longrightarrow> unat (ucast c :: u32) = unat c"
  by (simp add: unat_ucast_mod word_le_nat_alt)

lemma widen_valid [simp]: "g64_is_valid (widen_guard g) now = sg_is_valid g now"
  by (simp add: widen_guard_def g64_is_valid_def sg_is_valid_def)

lemma widen_compare [simp]:
  "((ucast (v :: u32) :: u64) < ucast d) = (v < d)"
  "((ucast d :: u64) < sat_sub (ucast v) 128) = (d < sat_sub v 128)"
  "(128 \<le> sat_sub (ucast v :: u64) (ucast d)) = (128 \<le> sat_sub v d)"
  "unat (sat_sub (ucast v :: u64) (ucast d)) = unat (sat_sub v d)"
  by (simp_all add: word_less_nat_alt ge_128_iff unat_sat_sub)

lemma widen_shift:
  "(v :: u32) < d \<Longrightarrow> unat (ucast d - ucast v :: u64) = unat (d - v)"
  "(v :: u32) < d \<Longrightarrow> (128 \<le> (ucast d - ucast v :: u64)) = (128 \<le> d - v)"
  using unat_off [of v d] unat_off [of "ucast v :: u64" "ucast d"]
  by (simp_all add: ge_128_iff word_le_nat_alt word_less_nat_alt)

lemma widen_check:
  "map_prod widen_guard id (sg_check_and_update g now d) =
   g64_check_and_update (widen_guard g) now (ucast d)"
proof -
  have v: "g64_v_max (widen_guard g) = ucast (sg_v_max g)"
    and m: "g64_bitmask (widen_guard g) = sg_bitmask g" by (simp_all add: widen_guard_def)
  show ?thesis
  proof (cases "sg_v_max g < d")
    case True
    then show ?thesis unfolding guard_defs v m widen_shift [OF True] widen_valid widen_compare
      by (simp add: widen_guard_def)
  next
    case False
    then show ?thesis unfolding guard_defs v m widen_valid widen_compare
      by (simp add: widen_guard_def)
  qed
qed

text \<open>
  For every counter that fits 32 bits the two guards make the same decision and move to the
  same state; beyond that the 32-bit guard refuses and keeps its state.
\<close>

theorem guard32_refines_guard64:
  "map_prod widen_guard id (sg_check_and_update_u64 g now c) =
     (if c \<le> 0xFFFFFFFF then g64_check_and_update (widen_guard g) now c else (widen_guard g, False))"
proof (cases "c \<le> 0xFFFFFFFF")
  case True
  then have "(ucast (ucast c :: u32) :: u64) = c"
    by (simp add: word_unat_eq_iff narrow_counter)
  with True widen_check [of g now "ucast c"] show ?thesis
    by (simp add: sg_check_and_update_u64_def not_le [symmetric])
qed (simp add: sg_check_and_update_u64_def linorder_not_le [symmetric])

text \<open>
  Expiry is permanent: a guard that is past its 24 h lifetime or has been idle for 120 s accepts
  nothing at that time or any later time, and its state no longer changes.
\<close>

theorem expired_guard_is_dead:
  assumes "\<not> g64_is_valid g t" and "\<forall>(now, c) \<in> set evs. t \<le> now"
  shows "accepted_run g64_check_and_update g evs = (g, [])"
  using assms(2)
proof (induction evs)
  case (Cons ev evs)
  obtain now c where ev: "ev = (now, c)" by force
  have "\<not> g64_is_valid g now" using assms(1) Cons.prems by (auto simp: g64_is_valid_def ev)
  then show ?case using Cons by (simp add: ev guard64.check_dead)
qed simp

theorem expired_guard_witness:
  "accepted_run g64_check_and_update (g64_new 0) [(secs 120, 7), (secs 500, 8)] = (g64_new 0, [])"
  by (rule expired_guard_is_dead [where t = "secs 120"])
    (simp_all add: g64_is_valid_def g64_new_def SESSION_IDLE_TIMEOUT_def secs_def)

end
