(* ===== verification/Kdf.thy ===== *)
theory Kdf
  imports Crates
begin

text \<open>
  The ratchet key schedule of src/src/ghost/layers/l1_kem.rs: root-key mixing for a hybrid DH step
  and for a quantum-entropy mix, the seeding of the two directional chains, the symmetric chain
  step, the confirmation tag, the epoch key and the session hash. HKDF and HMAC are the crates'
  (argument \<open>C\<close>); labels, salts and output splits are modelled here.
\<close>

definition RATCHET_ROOT_INFO :: bytes where "RATCHET_ROOT_INFO = ascii ''GHOST_NET_RATCHET_ROOT_v2''"
definition RATCHET_INIT_INFO :: bytes where "RATCHET_INIT_INFO = ascii ''GHOST_NET_RATCHET_INIT_v2''"
definition RATCHET_EPOCH_INFO :: bytes where "RATCHET_EPOCH_INFO = ascii ''GHOST_NET_EPOCH_KEY_v2''"
definition RATCHET_QUANTUM_MIX_INFO :: bytes where
  "RATCHET_QUANTUM_MIX_INFO = ascii ''GHOST_NET_RATCHET_QEL_ENTROPY_v1''"
definition CHAIN_STEP_NEXT :: u8 where "CHAIN_STEP_NEXT = 0x01"
definition CHAIN_STEP_KEY :: u8 where "CHAIN_STEP_KEY = 0x02"

definition kdf_rk_hybrid :: "crates \<Rightarrow> bytes \<Rightarrow> bytes \<Rightarrow> bytes \<Rightarrow> bytes \<times> bytes \<times> bytes" where
  "kdf_rk_hybrid C root_key x25519_shared kem_shared =
     (let ikm = x25519_shared @ kem_shared;
          out = hkdf_sha256 C root_key ikm RATCHET_ROOT_INFO 96
      in (slice 0 32 out, slice 32 64 out, slice 64 96 out))"

definition kdf_rk_quantum_mix :: "crates \<Rightarrow> bytes \<Rightarrow> bytes \<Rightarrow> bytes \<times> bytes \<times> bytes" where
  "kdf_rk_quantum_mix C root_key quantum_key =
     (let out = hkdf_sha256 C root_key quantum_key RATCHET_QUANTUM_MIX_INFO 96
      in (slice 0 32 out, slice 32 64 out, slice 64 96 out))"

definition seed_ratchet_chains :: "crates \<Rightarrow> bytes \<Rightarrow> bytes \<times> bytes" where
  "seed_ratchet_chains C master_key =
     (let out = hkdf_sha256 C master_key [] RATCHET_INIT_INFO 64
      in (slice 0 32 out, drop 32 out))"

definition kdf_ck :: "crates \<Rightarrow> bytes \<Rightarrow> bytes \<times> bytes" where
  "kdf_ck C chain_key =
     (let next = hmac_sha256 C chain_key [CHAIN_STEP_NEXT];
          step_key = hmac_sha256 C chain_key [CHAIN_STEP_KEY]
      in (next, step_key))"

definition ratchet_confirm :: "crates \<Rightarrow> bytes \<Rightarrow> bytes" where
  "ratchet_confirm C epoch_key = hmac_sha256 C epoch_key (ascii ''GHOST_RATCHET_CONFIRM_v2'')"

definition derive_epoch_key :: "crates \<Rightarrow> bytes \<Rightarrow> u64 \<Rightarrow> bytes" where
  "derive_epoch_key C chain_key epoch = hkdf_sha256 C chain_key (be_u64 epoch) RATCHET_EPOCH_INFO 32"

definition compute_session_hash :: "crates \<Rightarrow> bytes \<Rightarrow> bytes" where
  "compute_session_hash C key = take 4 (sha256 C key)"

text \<open>All outputs have the 32 bytes the callers' arrays need.\<close>

lemma kdf_lengths:
  assumes "hash_law C"
  shows "length (fst (kdf_ck C k)) = 32" "length (snd (kdf_ck C k)) = 32"
    "length (derive_epoch_key C k e) = 32" "length (ratchet_confirm C k) = 32"
    "length (compute_session_hash C k) = 4"
    "kdf_rk_hybrid C rk d s = (r, a, b) \<Longrightarrow> length r = 32 \<and> length a = 32 \<and> length b = 32"
    "kdf_rk_quantum_mix C rk d = (r, a, b) \<Longrightarrow> length r = 32 \<and> length a = 32 \<and> length b = 32"
    "seed_ratchet_chains C k = (a, b) \<Longrightarrow> length a = 32 \<and> length b = 32"
  using hash_lawD [OF assms]
  by (auto simp: kdf_ck_def Let_def derive_epoch_key_def ratchet_confirm_def compute_session_hash_def
      kdf_rk_hybrid_def kdf_rk_quantum_mix_def seed_ratchet_chains_def)

section \<open>The symmetric chain\<close>

text \<open>The chain key after n steps, and the key of message n: the reference the ratchet is measured by.\<close>

definition chain_at :: "crates \<Rightarrow> bytes \<Rightarrow> nat \<Rightarrow> bytes" where
  "chain_at C seed n = ((\<lambda>c. fst (kdf_ck C c)) ^^ n) seed"

definition key_at :: "crates \<Rightarrow> bytes \<Rightarrow> nat \<Rightarrow> bytes" where
  "key_at C seed n = snd (kdf_ck C (chain_at C seed n))"

lemma chain_at_0 [simp]: "chain_at C seed 0 = seed"
  by (simp add: chain_at_def)

lemma kdf_ck_chain_at: "kdf_ck C (chain_at C seed n) = (chain_at C seed (Suc n), key_at C seed n)"
  by (simp add: chain_at_def key_at_def prod_eq_iff)

end
