(* ===== verification/L2_Aead.thy ===== *)
theory L2_Aead
  imports Crates
begin

text \<open>
  L2, the AEAD layer of src/src/ghost/layers/l2_aead.rs: nonce construction for the v1 scheme
  (session hash, direction, counter) and the v2 scheme (random wire nonce, epoch, direction), the
  sealing and opening calls around the crate, and the re-key threshold. The crate's cipher is the
  argument \<open>C\<close>.
\<close>

datatype nonce_direction = InitiatorToResponder | ResponderToInitiator

fun direction_byte :: "nonce_direction \<Rightarrow> u8" where
  "direction_byte InitiatorToResponder = 0"
| "direction_byte ResponderToInitiator = 1"

fun peer_direction :: "nonce_direction \<Rightarrow> nonce_direction" where
  "peer_direction InitiatorToResponder = ResponderToInitiator"
| "peer_direction ResponderToInitiator = InitiatorToResponder"

definition nonce_from_counter_u64 :: "u64 \<Rightarrow> bytes \<Rightarrow> nonce_direction \<Rightarrow> bytes" where
  "nonce_from_counter_u64 counter session_hash direction =
     (let nonce = zeros 12;
          nonce = copy_at 0 (slice 0 2 session_hash) nonce;
          nonce = nonce[2 := direction_byte direction];
          nonce = nonce[3 := 0]
      in copy_at 4 (be_u64 counter) nonce)"

definition nonce_from_counter :: "u32 \<Rightarrow> bytes \<Rightarrow> nonce_direction \<Rightarrow> bytes" where
  "nonce_from_counter counter session_hash direction =
     (let nonce = zeros 12;
          nonce = copy_at 0 (slice 0 2 session_hash) nonce;
          nonce = nonce[2 := direction_byte direction];
          nonce = nonce[3 := 0]
      in copy_at 4 (be_u32 counter) nonce)"

definition encrypt_in_place :: "crates \<Rightarrow> bytes \<Rightarrow> u32 \<Rightarrow> bytes \<Rightarrow> bytes" where
  "encrypt_in_place C key counter data =
     chacha_encrypt C key (nonce_from_counter counter (zeros 4) InitiatorToResponder) [] data"

definition encrypt_in_place_with_context ::
  "crates \<Rightarrow> bytes \<Rightarrow> u32 \<Rightarrow> bytes \<Rightarrow> nonce_direction \<Rightarrow> bytes \<Rightarrow> bytes" where
  "encrypt_in_place_with_context C key counter session_hash direction data =
     chacha_encrypt C key (nonce_from_counter counter session_hash direction) [] data"

definition decrypt_in_place :: "crates \<Rightarrow> bytes \<Rightarrow> u32 \<Rightarrow> bytes \<Rightarrow> bytes option" where
  "decrypt_in_place C key counter data =
     chacha_decrypt C key (nonce_from_counter counter (zeros 4) InitiatorToResponder) [] data"

definition decrypt_in_place_with_context ::
  "crates \<Rightarrow> bytes \<Rightarrow> u32 \<Rightarrow> bytes \<Rightarrow> nonce_direction \<Rightarrow> bytes \<Rightarrow> bytes option" where
  "decrypt_in_place_with_context C key counter session_hash direction data =
     chacha_decrypt C key (nonce_from_counter counter session_hash direction) [] data"

definition xnonce :: "bytes \<Rightarrow> u64 \<Rightarrow> nonce_direction \<Rightarrow> bytes" where
  "xnonce wire epoch direction =
     (let nonce = zeros 24;
          nonce = copy_at 0 wire nonce;
          nonce = copy_at 12 (be_u64 epoch) nonce
      in nonce[20 := direction_byte direction])"

definition xchacha_seal_in_place_with_aad ::
  "crates \<Rightarrow> bytes \<Rightarrow> bytes \<Rightarrow> u64 \<Rightarrow> nonce_direction \<Rightarrow> bytes \<Rightarrow> bytes \<Rightarrow> bytes" where
  "xchacha_seal_in_place_with_aad C key wire epoch direction data aad =
     xchacha_encrypt C key (xnonce wire epoch direction) aad data"

definition xchacha_seal_in_place ::
  "crates \<Rightarrow> bytes \<Rightarrow> bytes \<Rightarrow> u64 \<Rightarrow> nonce_direction \<Rightarrow> bytes \<Rightarrow> bytes" where
  "xchacha_seal_in_place C key wire epoch direction data =
     xchacha_seal_in_place_with_aad C key wire epoch direction data []"

definition xchacha_open_with_aad ::
  "crates \<Rightarrow> bytes \<Rightarrow> bytes \<Rightarrow> u64 \<Rightarrow> nonce_direction \<Rightarrow> bytes \<Rightarrow> bytes \<Rightarrow> bytes option" where
  "xchacha_open_with_aad C key wire epoch direction data aad =
     xchacha_decrypt C key (xnonce wire epoch direction) aad data"

definition xchacha_open ::
  "crates \<Rightarrow> bytes \<Rightarrow> bytes \<Rightarrow> u64 \<Rightarrow> nonce_direction \<Rightarrow> bytes \<Rightarrow> bytes option" where
  "xchacha_open C key wire epoch direction data =
     xchacha_open_with_aad C key wire epoch direction data []"

definition MAX_SAFE_COUNTER :: u32 where "MAX_SAFE_COUNTER = - 1 - 1000"

definition needs_rekey :: "u32 \<Rightarrow> bool" where
  "needs_rekey counter \<longleftrightarrow> counter \<ge> MAX_SAFE_COUNTER"

section \<open>Properties\<close>

lemma peer_direction_twice [simp]: "peer_direction (peer_direction d) = d"
  by (cases d) auto

lemma peer_direction_neq [simp]: "peer_direction d \<noteq> d" "d \<noteq> peer_direction d"
  by (cases d; simp)+

lemma direction_byte_inject [simp]: "direction_byte d = direction_byte e \<longleftrightarrow> d = e"
  by (cases d; cases e) auto

lemma nonce_fields:
  assumes "2 \<le> length sh"
  shows "slice 0 2 (nonce_from_counter_u64 c sh d) = slice 0 2 sh"
    and "nonce_from_counter_u64 c sh d ! 2 = direction_byte d"
    and "slice 4 12 (nonce_from_counter_u64 c sh d) = be_u64 c"
    and "slice 0 2 (nonce_from_counter c' sh d) = slice 0 2 sh"
    and "nonce_from_counter c' sh d ! 2 = direction_byte d"
    and "slice 4 8 (nonce_from_counter c' sh d) = be_u32 c'"
    and "slice 8 12 (nonce_from_counter c' sh d) = zeros 4"
  using assms
  by (simp_all add: nonce_from_counter_u64_def nonce_from_counter_def Let_def wire_simps)
     (simp add: slice_def)

lemma xnonce_fields:
  assumes "length w = 12"
  shows "slice 0 12 (xnonce w e d) = w" and "slice 12 20 (xnonce w e d) = be_u64 e"
    and "xnonce w e d ! 20 = direction_byte d" and "length (xnonce w e d) = 24"
  using assms by (simp_all add: xnonce_def Let_def wire_simps)

text \<open>
  Nonce uniqueness: the 24-byte XChaCha nonce determines wire nonce, epoch and direction, and
  the 12-byte nonce determines the session-hash prefix, the direction and the full counter.
\<close>

theorem nonces_are_injective:
  assumes "length w = 12" "length w' = 12" "length sh = 4" "length sh' = 4"
  shows "(xnonce w e d = xnonce w' e' d' \<longleftrightarrow> w = w' \<and> e = e' \<and> d = d') \<and>
    (nonce_from_counter_u64 c sh d = nonce_from_counter_u64 c' sh' d' \<longleftrightarrow>
       slice 0 2 sh = slice 0 2 sh' \<and> c = c' \<and> d = d') \<and>
    (nonce_from_counter k sh d = nonce_from_counter k' sh' d' \<longleftrightarrow>
       slice 0 2 sh = slice 0 2 sh' \<and> k = k' \<and> d = d')"
proof (intro conjI)
  show "xnonce w e d = xnonce w' e' d' \<longleftrightarrow> w = w' \<and> e = e' \<and> d = d'"
    using xnonce_fields [OF assms(1), of e d] xnonce_fields [OF assms(2), of e' d'] by auto
  have l: "2 \<le> length sh" "2 \<le> length sh'" using assms by simp_all
  show "nonce_from_counter_u64 c sh d = nonce_from_counter_u64 c' sh' d' \<longleftrightarrow>
      slice 0 2 sh = slice 0 2 sh' \<and> c = c' \<and> d = d'"
    using nonce_fields(1-3) [OF l(1), of c d] nonce_fields(1-3) [OF l(2), of c' d']
    by (auto simp: nonce_from_counter_u64_def)
  show "nonce_from_counter k sh d = nonce_from_counter k' sh' d' \<longleftrightarrow>
      slice 0 2 sh = slice 0 2 sh' \<and> k = k' \<and> d = d'"
    using nonce_fields(4-6) [OF l(1), of k d] nonce_fields(4-6) [OF l(2), of k' d']
    by (auto simp: nonce_from_counter_def)
qed

theorem nonces_are_injective_witness:
  "xnonce (zeros 12) 1 InitiatorToResponder \<noteq> xnonce (zeros 12) 2 InitiatorToResponder"
  using nonces_are_injective [of "zeros 12" "zeros 12" "zeros 4" "zeros 4" 1
      InitiatorToResponder 2 InitiatorToResponder 0 0 0 0] by simp

lemma be_u32_shifted: "be_u64 (ucast c * 4294967296) = be_u32 c @ zeros 4"
proof -
  have "unat (ucast c * 4294967296 :: u64) = unat c * 256 ^ 4"
    using unat_bound [of c] by (simp add: unat_word_ariths unat_ucast_mod)
  then have "be_u64 (ucast c * 4294967296) = be_nat (4 + 4) (unat c * 256 ^ 4)"
    by (simp add: be_u64_def)
  also have "\<dots> = be_u32 c @ zeros 4"
    unfolding be_nat_add be_nat_zero be_u32_def by simp
  finally show ?thesis .
qed

lemma nonce_v1_as_v2:
  assumes "length sh = 4"
  shows "nonce_from_counter c sh d = nonce_from_counter_u64 (ucast c * 4294967296) sh d"
  using assms
  by (simp add: nonce_from_counter_def nonce_from_counter_u64_def Let_def be_u32_shifted
      copy_at_def slice_def zeros_def list_update_append drop_update_swap)

text \<open>
  The v1 sealing calls round-trip under one context, with or without an explicit session hash.
\<close>

theorem v1_seal_roundtrip:
  assumes "chacha_law C"
  shows "decrypt_in_place_with_context C k c sh d (encrypt_in_place_with_context C k c sh d m) = Some m
    \<and> decrypt_in_place C k c (encrypt_in_place C k c m) = Some m"
  using chacha_lawD(2) [OF assms]
  by (simp add: decrypt_in_place_with_context_def encrypt_in_place_with_context_def
      decrypt_in_place_def encrypt_in_place_def)

theorem v1_seal_roundtrip_witness:
  "decrypt_in_place demo_crates [1] 9 (encrypt_in_place demo_crates [1] 9 [4, 5]) = Some [4, 5]"
  using v1_seal_roundtrip [OF demo_laws(2), of "[1]" 9 "[]" InitiatorToResponder "[4, 5]"] by simp

text \<open>
  Layout of the v1 nonce: the 32-bit counter stands in bytes 4 to 8 and bytes 8 to 12 are zero,
  so it is the 64-bit scheme's nonce of the counter multiplied by 2 to the 32, and the two schemes
  give one counter the same nonce only when it is 0.
\<close>

theorem v1_nonce_is_the_shifted_v2_nonce:
  assumes "length sh = 4"
  shows "nonce_from_counter c sh d = nonce_from_counter_u64 x sh d \<longleftrightarrow> x = ucast c * 4294967296"
  unfolding nonce_v1_as_v2 [OF assms]
  using nonce_fields(3) [of sh] assms by (metis be_roundtrip(3) order_refl numeral_le_iff semiring_norm(68,71))

theorem v1_nonce_witness:
  "nonce_from_counter 1 (zeros 4) InitiatorToResponder \<noteq>
   nonce_from_counter_u64 1 (zeros 4) InitiatorToResponder"
  using v1_nonce_is_the_shifted_v2_nonce [of "zeros 4" 1 InitiatorToResponder 1] by simp

end
