(* ===== verification/Ratchet.thy ===== *)
theory Ratchet
  imports Kdf L2_Aead
begin

text \<open>
  The session ratchet of src/src/ghost/session/ratchet.rs: per-message chains with a bounded cache
  of skipped keys (plan, then commit), the epoch state with its prepared and retired epochs, the
  hybrid step's two sides, and the causal counter. Zeroisation of dropped keys is not modelled: a
  value that is no longer in the state is gone.
\<close>

section \<open>Ordered maps\<close>

text \<open>
  \<open>BTreeMap<u64, [u8; 32]>\<close> as an association list in key order: \<open>get\<close>, \<open>entry().or_insert()\<close>,
  \<open>remove\<close>.
\<close>

type_synonym key_map = "(u64 \<times> bytes) list"

fun or_insert :: "u64 \<Rightarrow> bytes \<Rightarrow> key_map \<Rightarrow> key_map" where
  "or_insert k v [] = [(k, v)]"
| "or_insert k v ((k', v') # m) =
     (if k < k' then (k, v) # (k', v') # m
      else if k = k' then (k', v') # m else (k', v') # or_insert k v m)"

definition remove_key :: "u64 \<Rightarrow> key_map \<Rightarrow> key_map" where
  "remove_key k m = filter (\<lambda>(k', v). k' \<noteq> k) m"

definition ordered :: "key_map \<Rightarrow> bool" where
  "ordered m \<longleftrightarrow> sorted_wrt (<) (map fst m)"

lemma keys_or_insert: "fst ` set (or_insert k v m) = insert k (fst ` set m)"
  by (induction k v m rule: or_insert.induct) (simp_all add: insert_commute)

lemma ordered_or_insert: "ordered m \<Longrightarrow> ordered (or_insert k v m)"
proof (induction m)
  case (Cons p m)
  obtain k' v' where p: "p = (k', v')" by force
  have lt: "\<And>x. x \<in> fst ` set m \<Longrightarrow> k' < x" "ordered m" using Cons.prems by (auto simp: p ordered_def)
  show ?case using Cons.IH [OF lt(2)] lt Cons.prems keys_or_insert [of k v m]
    by (auto simp: p ordered_def intro: less_trans)
qed (simp add: ordered_def)

lemma map_of_or_insert:
  "ordered m \<Longrightarrow> map_of (or_insert k v m) = (if map_of m k = None then (map_of m)(k \<mapsto> v) else map_of m)"
proof (induction m)
  case (Cons p m)
  obtain k' v' where p: "p = (k', v')" by force
  have lt: "\<And>x. x \<in> fst ` set m \<Longrightarrow> k' < x" and o: "ordered m" using Cons.prems by (auto simp: p ordered_def)
  have "k < k' \<Longrightarrow> map_of m k = None" using lt by (force simp: map_of_eq_None_iff)
  then show ?case using Cons.IH [OF o] by (auto simp: p fun_eq_iff)
qed auto

lemma map_of_remove_key [simp]: "map_of (remove_key k m) = (map_of m)(k := None)"
  by (induction m) (auto simp: remove_key_def fun_eq_iff)

lemma length_remove_key: "length (remove_key k m) \<le> length m"
  by (simp add: remove_key_def)

lemma ordered_remove_key: "ordered m \<Longrightarrow> ordered (remove_key k m)"
  by (simp add: ordered_def remove_key_def sorted_wrt_map sorted_wrt_filter)

lemma ordered_drop: "ordered m \<Longrightarrow> ordered (drop n m)"
  by (simp add: ordered_def drop_map [symmetric] sorted_wrt_drop)

lemma ordered_distinct: "ordered m \<Longrightarrow> distinct (map fst m)"
  using strict_sorted_iff by (auto simp: ordered_def)

lemma ordered_map_of_drop:
  assumes "ordered m" and "map_of (drop n m) k = Some v"
  shows "map_of m k = Some v"
  using map_of_SomeD [OF assms(2)] set_drop_subset [of n m] map_of_is_SomeI [OF ordered_distinct [OF assms(1)]]
  by blast

section \<open>Message chains\<close>

definition RATCHET_INTERVAL :: u64 where "RATCHET_INTERVAL = 1000000"
definition RATCHET_RETAINED_EPOCHS :: nat where "RATCHET_RETAINED_EPOCHS = 2"
definition MAX_SKIP :: u64 where "MAX_SKIP = 1024"

datatype open_plan =
  Forward (plan_key: bytes) (new_chain: bytes) (new_pos: u64) (plan_cache: "(u64 \<times> bytes) list")
| Cached (cached_counter: u64) (plan_key: bytes)
| Refused

record msg_chain =
  mc_chain :: bytes
  mc_pos :: u64
  mc_skipped :: key_map

definition msg_chain_seed :: "bytes \<Rightarrow> msg_chain" where
  "msg_chain_seed seed = \<lparr>mc_chain = seed, mc_pos = 0, mc_skipped = []\<rparr>"

definition advance :: "crates \<Rightarrow> msg_chain \<Rightarrow> msg_chain \<times> bytes" where
  "advance C mc =
     (let (next, key) = kdf_ck C (mc_chain mc)
      in (mc\<lparr>mc_chain := next, mc_pos := mc_pos mc + 1\<rparr>, key))"

text \<open>The loop \<open>for i in 0..=gap\<close> of \<open>plan\<close>: the last turn yields the key, the others the cache.\<close>

fun plan_walk :: "crates \<Rightarrow> nat \<Rightarrow> bytes \<Rightarrow> u64 \<Rightarrow> (u64 \<times> bytes) list \<Rightarrow> bytes \<times> bytes \<times> (u64 \<times> bytes) list" where
  "plan_walk C 0 chain c cache = (let (next, step) = kdf_ck C chain in (next, step, cache))"
| "plan_walk C (Suc g) chain c cache =
     (let (next, step) = kdf_ck C chain in plan_walk C g next (c + 1) (cache @ [(c, step)]))"

definition plan :: "crates \<Rightarrow> msg_chain \<Rightarrow> u64 \<Rightarrow> open_plan" where
  "plan C mc counter =
     (if counter < mc_pos mc then
        (case map_of (mc_skipped mc) counter of
           Some key \<Rightarrow> Cached counter key
         | None \<Rightarrow> Refused)
      else
        (let gap = counter - mc_pos mc
         in if gap > MAX_SKIP then Refused
            else
              (let (chain, key, cache) = plan_walk C (unat gap) (mc_chain mc) (mc_pos mc) []
               in Forward key chain (sat_add counter 1) cache)))"

text \<open>\<open>while skipped.len() > MAX_SKIP\<close> drops the first, that is oldest, entry.\<close>

definition evict :: "key_map \<Rightarrow> key_map" where
  "evict m = drop (length m - unat MAX_SKIP) m"

definition commit :: "msg_chain \<Rightarrow> open_plan \<Rightarrow> msg_chain" where
  "commit mc p =
     (case p of
        Forward key chain pos cache \<Rightarrow>
          (let mc = (if pos > mc_pos mc
                     then mc\<lparr>mc_chain := chain, mc_pos := pos,
                             mc_skipped := foldl (\<lambda>m (c, k). or_insert c k m) (mc_skipped mc) cache\<rparr>
                     else mc)
           in mc\<lparr>mc_skipped := evict (mc_skipped mc)\<rparr>)
      | Cached counter key \<Rightarrow> mc\<lparr>mc_skipped := remove_key counter (mc_skipped mc)\<rparr>
      | Refused \<Rightarrow> mc)"

section \<open>The ratchet\<close>

record chain_state =
  ch_chain :: bytes
  ch_msg_chain :: msg_chain

definition chain_seed :: "crates \<Rightarrow> bytes \<Rightarrow> u64 \<Rightarrow> chain_state" where
  "chain_seed C chain_key epoch =
     (let (chain, _) = kdf_ck C chain_key;
          epoch_seed = derive_epoch_key C chain epoch
      in \<lparr>ch_chain = chain, ch_msg_chain = msg_chain_seed epoch_seed\<rparr>)"

record ratchet_epoch =
  re_epoch :: u64
  re_to_resp :: msg_chain
  re_to_init :: msg_chain

record prepared_epoch =
  pe_epoch :: u64
  pe_root_key :: bytes
  pe_to_resp :: chain_state
  pe_to_init :: chain_state

record session_ratchet =
  sr_root_key :: bytes
  sr_to_resp :: chain_state
  sr_to_init :: chain_state
  sr_epoch :: u64
  sr_steps :: u64
  sr_frames_in_epoch :: u64
  sr_retired :: "ratchet_epoch list"
  sr_pending :: "prepared_epoch option"

record step_secrets =
  dh :: bytes
  kem :: bytes

definition ratchet_new :: "crates \<Rightarrow> bytes \<Rightarrow> session_ratchet" where
  "ratchet_new C master_key =
     (let (to_resp, to_init) = seed_ratchet_chains C master_key
      in \<lparr>sr_root_key = master_key, sr_to_resp = chain_seed C to_resp 0, sr_to_init = chain_seed C to_init 0,
          sr_epoch = 0, sr_steps = 0, sr_frames_in_epoch = 0, sr_retired = [], sr_pending = None\<rparr>)"

fun sel_chain :: "nonce_direction \<Rightarrow> chain_state \<Rightarrow> chain_state \<Rightarrow> chain_state" where
  "sel_chain InitiatorToResponder to_resp to_init = to_resp"
| "sel_chain ResponderToInitiator to_resp to_init = to_init"

fun sel_msg :: "nonce_direction \<Rightarrow> msg_chain \<Rightarrow> msg_chain \<Rightarrow> msg_chain" where
  "sel_msg InitiatorToResponder to_resp to_init = to_resp"
| "sel_msg ResponderToInitiator to_resp to_init = to_init"

definition on_msg :: "(msg_chain \<Rightarrow> msg_chain) \<Rightarrow> chain_state \<Rightarrow> chain_state" where
  "on_msg f ch = ch\<lparr>ch_msg_chain := f (ch_msg_chain ch)\<rparr>"

text \<open>The current epoch's message chain of a direction, and its update.\<close>

definition cur_msg :: "session_ratchet \<Rightarrow> nonce_direction \<Rightarrow> msg_chain" where
  "cur_msg r d = ch_msg_chain (sel_chain d (sr_to_resp r) (sr_to_init r))"

fun upd_cur :: "nonce_direction \<Rightarrow> (msg_chain \<Rightarrow> msg_chain) \<Rightarrow> session_ratchet \<Rightarrow> session_ratchet" where
  "upd_cur InitiatorToResponder f r = r\<lparr>sr_to_resp := on_msg f (sr_to_resp r)\<rparr>"
| "upd_cur ResponderToInitiator f r = r\<lparr>sr_to_init := on_msg f (sr_to_init r)\<rparr>"

fun upd_pending :: "nonce_direction \<Rightarrow> (msg_chain \<Rightarrow> msg_chain) \<Rightarrow> prepared_epoch \<Rightarrow> prepared_epoch" where
  "upd_pending InitiatorToResponder f p = p\<lparr>pe_to_resp := on_msg f (pe_to_resp p)\<rparr>"
| "upd_pending ResponderToInitiator f p = p\<lparr>pe_to_init := on_msg f (pe_to_init p)\<rparr>"

fun upd_retired :: "nonce_direction \<Rightarrow> (msg_chain \<Rightarrow> msg_chain) \<Rightarrow> ratchet_epoch \<Rightarrow> ratchet_epoch" where
  "upd_retired InitiatorToResponder f e = e\<lparr>re_to_resp := f (re_to_resp e)\<rparr>"
| "upd_retired ResponderToInitiator f e = e\<lparr>re_to_init := f (re_to_init e)\<rparr>"

definition advance_seal :: "crates \<Rightarrow> session_ratchet \<Rightarrow> nonce_direction \<Rightarrow> session_ratchet \<times> u64 \<times> bytes" where
  "advance_seal C r direction =
     (let chain = cur_msg r direction;
          counter = mc_pos chain;
          (chain', key) = advance C chain
      in (upd_cur direction (\<lambda>_. chain') r, counter, key))"

definition seal_key :: "crates \<Rightarrow> session_ratchet \<Rightarrow> nonce_direction \<Rightarrow> bytes" where
  "seal_key C r direction =
     (let chain = cur_msg r direction
      in case plan C chain (mc_pos chain) of
           Forward key _ _ _ \<Rightarrow> key
         | Cached _ key \<Rightarrow> key
         | Refused \<Rightarrow> zeros 32)"

text \<open>The chain a named epoch and direction is opened on: prepared, then current, then retired.\<close>

definition open_chain :: "session_ratchet \<Rightarrow> u64 \<Rightarrow> nonce_direction \<Rightarrow> msg_chain option" where
  "open_chain r epoch d =
     (case sr_pending r of
        Some p \<Rightarrow>
          if pe_epoch p = epoch then Some (ch_msg_chain (sel_chain d (pe_to_resp p) (pe_to_init p)))
          else if epoch = sr_epoch r then Some (cur_msg r d)
          else map_option (\<lambda>e. sel_msg d (re_to_resp e) (re_to_init e)) (find (\<lambda>e. re_epoch e = epoch) (sr_retired r))
      | None \<Rightarrow>
          if epoch = sr_epoch r then Some (cur_msg r d)
          else map_option (\<lambda>e. sel_msg d (re_to_resp e) (re_to_init e)) (find (\<lambda>e. re_epoch e = epoch) (sr_retired r)))"

definition plan_open :: "crates \<Rightarrow> session_ratchet \<Rightarrow> u64 \<Rightarrow> nonce_direction \<Rightarrow> u64 \<Rightarrow> open_plan" where
  "plan_open C r epoch direction counter =
     (case open_chain r epoch direction of
        Some chain \<Rightarrow> plan C chain counter
      | None \<Rightarrow> Refused)"

fun upd_first :: "(ratchet_epoch \<Rightarrow> bool) \<Rightarrow> (ratchet_epoch \<Rightarrow> ratchet_epoch) \<Rightarrow> ratchet_epoch list \<Rightarrow> ratchet_epoch list" where
  "upd_first P f [] = []"
| "upd_first P f (e # es) = (if P e then f e # es else e # upd_first P f es)"

definition commit_open :: "session_ratchet \<Rightarrow> u64 \<Rightarrow> nonce_direction \<Rightarrow> open_plan \<Rightarrow> session_ratchet" where
  "commit_open r epoch direction p =
     (let f = (\<lambda>mc. commit mc p);
          others = (if epoch = sr_epoch r then upd_cur direction f r
                    else r\<lparr>sr_retired := upd_first (\<lambda>e. re_epoch e = epoch) (upd_retired direction f) (sr_retired r)\<rparr>)
      in case sr_pending r of
           Some pe \<Rightarrow>
             if pe_epoch pe = epoch then r\<lparr>sr_pending := Some (upd_pending direction f pe)\<rparr> else others
         | None \<Rightarrow> others)"

definition open_key :: "crates \<Rightarrow> session_ratchet \<Rightarrow> u64 \<Rightarrow> nonce_direction \<Rightarrow> u64 \<Rightarrow> bytes option" where
  "open_key C r epoch direction counter =
     (case plan_open C r epoch direction counter of
        Forward key _ _ _ \<Rightarrow> Some key
      | Cached _ key \<Rightarrow> Some key
      | Refused \<Rightarrow> None)"

definition gap_exceeds_max_skip :: "session_ratchet \<Rightarrow> u64 \<Rightarrow> nonce_direction \<Rightarrow> u64 \<Rightarrow> bool" where
  "gap_exceeds_max_skip r epoch direction counter =
     (case (case sr_pending r of
              Some p \<Rightarrow>
                if pe_epoch p = epoch then Some (mc_pos (ch_msg_chain (sel_chain direction (pe_to_resp p) (pe_to_init p))))
                else if epoch = sr_epoch r then Some (mc_pos (cur_msg r direction)) else None
            | None \<Rightarrow> if epoch = sr_epoch r then Some (mc_pos (cur_msg r direction)) else None) of
        None \<Rightarrow> False
      | Some pos \<Rightarrow> counter > pos \<and> counter - pos > MAX_SKIP)"

text \<open>The body shared by \<open>prepare_step\<close> and \<open>prepare_quantum_mix\<close>, after the root-key KDF.\<close>

definition prepare_epoch ::
  "crates \<Rightarrow> session_ratchet \<Rightarrow> bytes \<times> bytes \<times> bytes \<Rightarrow> nonce_direction \<Rightarrow> (session_ratchet \<times> u64 \<times> bytes, unit) rust" where
  "prepare_epoch C r rk peer_dir =
     (let (root_key, chain_to_resp, chain_to_init) = rk;
          epoch = sr_epoch r + 1;
          to_resp = chain_seed C chain_to_resp epoch;
          to_init = chain_seed C chain_to_init epoch
      in case plan C (ch_msg_chain (sel_chain peer_dir to_resp to_init)) 0 of
           Forward key _ _ _ \<Rightarrow>
             Ok (r\<lparr>sr_pending := Some \<lparr>pe_epoch = epoch, pe_root_key = root_key, pe_to_resp = to_resp,
                                       pe_to_init = to_init\<rparr>\<rparr>, epoch, key)
         | _ \<Rightarrow> Panic)"

definition prepare_step ::
  "crates \<Rightarrow> session_ratchet \<Rightarrow> step_secrets \<Rightarrow> nonce_direction \<Rightarrow> (session_ratchet \<times> u64 \<times> bytes, unit) rust" where
  "prepare_step C r secrets peer_dir =
     prepare_epoch C r (kdf_rk_hybrid C (sr_root_key r) (dh secrets) (kem secrets)) peer_dir"

definition retire :: "session_ratchet \<Rightarrow> ratchet_epoch list" where
  "retire r =
     take RATCHET_RETAINED_EPOCHS
       (\<lparr>re_epoch = sr_epoch r, re_to_resp = ch_msg_chain (sr_to_resp r), re_to_init = ch_msg_chain (sr_to_init r)\<rparr>
        # sr_retired r)"

definition activate :: "session_ratchet \<Rightarrow> u64 \<Rightarrow> session_ratchet \<times> bool" where
  "activate r epoch =
     (case sr_pending r of
        Some p \<Rightarrow>
          if pe_epoch p \<noteq> epoch then (r, False)
          else (r\<lparr>sr_pending := None, sr_retired := retire r, sr_root_key := pe_root_key p,
                  sr_to_resp := pe_to_resp p, sr_to_init := pe_to_init p, sr_epoch := pe_epoch p,
                  sr_steps := sr_steps r + 1, sr_frames_in_epoch := 0\<rparr>, True)
      | None \<Rightarrow> (r, False))"

definition prepared_epoch_of :: "session_ratchet \<Rightarrow> u64 option" where
  "prepared_epoch_of r = map_option pe_epoch (sr_pending r)"

definition count_seal :: "session_ratchet \<Rightarrow> session_ratchet \<times> bool" where
  "count_seal r =
     (let n = sr_frames_in_epoch r + 1
      in (r\<lparr>sr_frames_in_epoch := n\<rparr>, n \<ge> RATCHET_INTERVAL))"

definition epoch_capacity_left :: "session_ratchet \<Rightarrow> u64" where
  "epoch_capacity_left r = sat_sub RATCHET_INTERVAL (sr_frames_in_epoch r)"

fun sel_key :: "nonce_direction \<Rightarrow> bytes \<Rightarrow> bytes \<Rightarrow> bytes" where
  "sel_key InitiatorToResponder to_resp to_init = to_resp"
| "sel_key ResponderToInitiator to_resp to_init = to_init"

text \<open>The body shared by the two previews.\<close>

definition preview_key :: "crates \<Rightarrow> session_ratchet \<Rightarrow> bytes \<times> bytes \<times> bytes \<Rightarrow> nonce_direction \<Rightarrow> u64 \<times> bytes" where
  "preview_key C r rk direction =
     (let (_, chain_to_resp, chain_to_init) = rk;
          epoch = sr_epoch r + 1;
          chain = sel_key direction chain_to_resp chain_to_init;
          (next_chain, _) = kdf_ck C chain;
          epoch_seed = derive_epoch_key C next_chain epoch;
          (_, msg_key_0) = kdf_ck C epoch_seed
      in (epoch, msg_key_0))"

definition preview_step_key :: "crates \<Rightarrow> session_ratchet \<Rightarrow> step_secrets \<Rightarrow> nonce_direction \<Rightarrow> u64 \<times> bytes" where
  "preview_step_key C r secrets direction =
     preview_key C r (kdf_rk_hybrid C (sr_root_key r) (dh secrets) (kem secrets)) direction"

text \<open>The body shared by \<open>step\<close> and \<open>mix_quantum_entropy\<close>, which differ in the step counter.\<close>

definition new_epoch :: "crates \<Rightarrow> session_ratchet \<Rightarrow> bytes \<times> bytes \<times> bytes \<Rightarrow> session_ratchet" where
  "new_epoch C r rk =
     (let (new_root, chain_to_resp, chain_to_init) = rk;
          next = sr_epoch r + 1
      in r\<lparr>sr_pending := None, sr_retired := retire r, sr_root_key := new_root, sr_epoch := next,
           sr_frames_in_epoch := 0, sr_to_resp := chain_seed C chain_to_resp next,
           sr_to_init := chain_seed C chain_to_init next\<rparr>)"

definition step :: "crates \<Rightarrow> session_ratchet \<Rightarrow> step_secrets \<Rightarrow> session_ratchet \<times> u64" where
  "step C r secrets =
     (let r' = new_epoch C r (kdf_rk_hybrid C (sr_root_key r) (dh secrets) (kem secrets));
          r' = r'\<lparr>sr_steps := sr_steps r + 1\<rparr>
      in (r', sr_epoch r'))"

definition mix_quantum_entropy :: "crates \<Rightarrow> session_ratchet \<Rightarrow> bytes \<Rightarrow> session_ratchet \<times> u64" where
  "mix_quantum_entropy C r quantum_key =
     (let r' = new_epoch C r (kdf_rk_quantum_mix C (sr_root_key r) quantum_key)
      in (r', sr_epoch r'))"

definition prepare_quantum_mix ::
  "crates \<Rightarrow> session_ratchet \<Rightarrow> bytes \<Rightarrow> nonce_direction \<Rightarrow> (session_ratchet \<times> u64 \<times> bytes, unit) rust" where
  "prepare_quantum_mix C r quantum_key peer_dir =
     prepare_epoch C r (kdf_rk_quantum_mix C (sr_root_key r) quantum_key) peer_dir"

definition preview_quantum_mix_key :: "crates \<Rightarrow> session_ratchet \<Rightarrow> bytes \<Rightarrow> nonce_direction \<Rightarrow> u64 \<times> bytes" where
  "preview_quantum_mix_key C r quantum_key direction =
     preview_key C r (kdf_rk_quantum_mix C (sr_root_key r) quantum_key) direction"

definition openable_epochs :: "session_ratchet \<Rightarrow> u64 list" where
  "openable_epochs r =
     (let v = [sr_epoch r];
          v = (case sr_pending r of Some p \<Rightarrow> v @ [pe_epoch p] | None \<Rightarrow> v)
      in v @ map re_epoch (sr_retired r))"

section \<open>The two sides of a hybrid step\<close>

text \<open>
  One side's ephemeral material: the X25519 secret (taken once) and the ML-KEM decapsulation key;
  the public halves are functions of them. \<open>respond\<close> also draws the encapsulation randomness.
\<close>

record ratchet_step =
  rst_x_secret :: "bytes option"
  rst_x_public :: bytes
  rst_kem_ek :: bytes
  rst_kem_dk :: bytes

definition step_generate :: "crates \<Rightarrow> bytes \<Rightarrow> bytes \<Rightarrow> ratchet_step" where
  "step_generate C x_secret kem_dk =
     \<lparr>rst_x_secret = Some x_secret, rst_x_public = x25519_public C x_secret,
      rst_kem_ek = mlkem_public C kem_dk, rst_kem_dk = kem_dk\<rparr>"

definition step_respond ::
  "crates \<Rightarrow> bytes \<Rightarrow> ratchet_step \<Rightarrow> bytes \<Rightarrow> bytes \<Rightarrow> (step_secrets \<times> bytes) option" where
  "step_respond C rnd st peer_x_pub peer_kem_pub =
     (case rst_x_secret st of
        None \<Rightarrow> None
      | Some secret \<Rightarrow>
          (let d = x25519_dh C secret peer_x_pub
           in case mlkem_encapsulate C rnd peer_kem_pub of
                None \<Rightarrow> None
              | Some (ct, k) \<Rightarrow> Some (\<lparr>dh = d, kem = k\<rparr>, ct)))"

definition step_finish :: "crates \<Rightarrow> ratchet_step \<Rightarrow> bytes \<Rightarrow> bytes \<Rightarrow> step_secrets option" where
  "step_finish C st peer_x_pub kem_ct =
     (case rst_x_secret st of
        None \<Rightarrow> None
      | Some secret \<Rightarrow>
          Some \<lparr>dh = x25519_dh C secret peer_x_pub, kem = mlkem_decapsulate C (rst_kem_dk st) kem_ct\<rparr>)"

section \<open>The causal counter\<close>

record causal_counter =
  cc_local_seq :: u64
  cc_observed_remote_seq :: u64
  cc_causal_epoch :: u64

definition causal_new :: causal_counter where
  "causal_new = \<lparr>cc_local_seq = 0, cc_observed_remote_seq = 0, cc_causal_epoch = 0\<rparr>"

definition advance_local :: "causal_counter \<Rightarrow> causal_counter \<times> u64 \<times> u64 \<times> u64" where
  "advance_local c =
     (let c = c\<lparr>cc_local_seq := sat_add (cc_local_seq c) 1\<rparr>
      in (c, cc_causal_epoch c, cc_local_seq c, cc_observed_remote_seq c))"

definition advance_epoch :: "causal_counter \<Rightarrow> causal_counter \<times> u64" where
  "advance_epoch c =
     (let c = c\<lparr>cc_causal_epoch := sat_add (cc_causal_epoch c) 1, cc_local_seq := 0, cc_observed_remote_seq := 0\<rparr>
      in (c, cc_causal_epoch c))"

definition verify_and_observe :: "causal_counter \<Rightarrow> u64 \<Rightarrow> u64 \<Rightarrow> causal_counter \<times> (unit, string) rust" where
  "verify_and_observe c msg_causal_epoch msg_seq =
     (if msg_causal_epoch < cc_causal_epoch c then (c, Err ''Causally obsolete epoch: rejected'')
      else if msg_causal_epoch = cc_causal_epoch c then
        (if msg_seq \<le> cc_observed_remote_seq c then (c, Err ''Causally obsolete sequence: replay detected'')
         else (c\<lparr>cc_observed_remote_seq := msg_seq\<rparr>, Ok ()))
      else (c\<lparr>cc_causal_epoch := msg_causal_epoch, cc_observed_remote_seq := msg_seq\<rparr>, Ok ()))"

section \<open>Message chains against the reference chain\<close>

text \<open>
  A chain of the epoch seeded with \<open>seed\<close>: its chain key is the reference chain at its position
  (up to the saturated last position), the cache is ordered, bounded, and holds the reference keys
  of past counters.
\<close>

definition chain_ok :: "crates \<Rightarrow> bytes \<Rightarrow> msg_chain \<Rightarrow> bool" where
  "chain_ok C seed mc \<longleftrightarrow>
     (mc_pos mc = - 1 \<or> mc_chain mc = chain_at C seed (unat (mc_pos mc))) \<and>
     ordered (mc_skipped mc) \<and> length (mc_skipped mc) \<le> 1024 \<and>
     (\<forall>c k. map_of (mc_skipped mc) c = Some k \<longrightarrow> c < mc_pos mc \<and> k = key_at C seed (unat c))"

definition cache_of :: "crates \<Rightarrow> bytes \<Rightarrow> u64 \<Rightarrow> nat \<Rightarrow> (u64 \<times> bytes) list" where
  "cache_of C seed p g = map (\<lambda>i. (p + of_nat i, key_at C seed (unat p + i))) [0..<g]"

lemma chain_ok_seed: "chain_ok C seed (msg_chain_seed seed)"
  by (simp add: chain_ok_def msg_chain_seed_def ordered_def)

lemma plan_walk_spec:
  "plan_walk C g (chain_at C seed n) c cache =
     (chain_at C seed (n + g + 1), key_at C seed (n + g),
      cache @ map (\<lambda>i. (c + of_nat i, key_at C seed (n + i))) [0..<g])"
proof (induction g arbitrary: n c cache)
  case (Suc g)
  have "map (\<lambda>i. (c + of_nat i, key_at C seed (n + i))) [0..<Suc g] =
      (c, key_at C seed n) # map (\<lambda>i. (c + 1 + of_nat i, key_at C seed (Suc n + i))) [0..<g]"
    by (simp only: upt_conv_Cons [OF zero_less_Suc] map_Suc_upt [symmetric] list.map map_map)
      (simp add: o_def add.assoc)
  then show ?case using Suc.IH [of "Suc n"] by (simp add: kdf_ck_chain_at)
qed (simp add: kdf_ck_chain_at)

lemma plan_forward:
  assumes "chain_ok C seed mc" and "mc_pos mc \<noteq> - 1" and "mc_pos mc \<le> c" and "c - mc_pos mc \<le> 1024"
  shows "plan C mc c = Forward (key_at C seed (unat c)) (chain_at C seed (unat c + 1)) (sat_add c 1)
    (cache_of C seed (mc_pos mc) (unat (c - mc_pos mc)))"
proof -
  have "unat (mc_pos mc) + unat (c - mc_pos mc) = unat c"
    using assms(3) by (simp add: unat_sub word_le_nat_alt)
  moreover have "mc_chain mc = chain_at C seed (unat (mc_pos mc))" using assms(1,2) by (simp add: chain_ok_def)
  ultimately show ?thesis using assms(3,4)
    by (simp add: plan_def Let_def MAX_SKIP_def plan_walk_spec cache_of_def not_less split: prod.splits)
qed

lemma plan_cases:
  assumes "chain_ok C seed mc"
  obtains (refused) "plan C mc c = Refused"
    | (cached) k where "plan C mc c = Cached c k" "c < mc_pos mc" "map_of (mc_skipped mc) c = Some k"
    | (last) k ch where "plan C mc c = Forward k ch (- 1) []" "mc_pos mc = - 1" "c = - 1"
    | (forward) "mc_pos mc \<noteq> - 1" "mc_pos mc \<le> c" "c - mc_pos mc \<le> 1024"
proof (cases "c < mc_pos mc")
  case True
  then show thesis using refused cached by (cases "map_of (mc_skipped mc) c") (auto simp: plan_def)
next
  case False
  note ge = this
  show thesis
  proof (cases "mc_pos mc = - 1")
    case True
    then have c: "c = - 1" using ge by (simp add: word_order.extremum_uniqueI)
    obtain n st where "kdf_ck C (mc_chain mc) = (n, st)" by force
    then show thesis using True c last [of st n]
      by (simp add: plan_def Let_def sat_add_def unat_max_word)
  next
    case False
    then show thesis using ge refused forward
      by (cases "c - mc_pos mc > MAX_SKIP") (auto simp: plan_def Let_def MAX_SKIP_def not_less)
  qed
qed

lemma fold_or_insert:
  assumes "ordered m"
  shows "ordered (foldl (\<lambda>m (c, k). or_insert c k m) m cache)"
    and "map_of (foldl (\<lambda>m (c, k). or_insert c k m) m cache) c = Some k \<Longrightarrow> map_of m c = Some k \<or> (c, k) \<in> set cache"
    and "fst ` set (foldl (\<lambda>m (c, k). or_insert c k m) m cache) = fst ` set m \<union> fst ` set cache"
  using assms
proof (induction cache arbitrary: m)
  case (Cons p cache)
  obtain c' k' where p: "p = (c', k')" by force
  {
    case 1
    then show ?case using Cons.IH(1) ordered_or_insert by (simp add: p)
  next
    case 2
    then show ?case using Cons.IH(2) [of "or_insert c' k' m"]
      by (auto simp: p map_of_or_insert ordered_or_insert split: if_splits)
  next
    case 3
    then show ?case using Cons.IH(3) [of "or_insert c' k' m"]
      by (simp add: p ordered_or_insert keys_or_insert)
  }
qed auto

lemma cache_of_mem:
  assumes "(c, k) \<in> set (cache_of C seed p (unat (e - p)))" and "p \<le> e"
  shows "p \<le> c" and "c < e" and "k = key_at C seed (unat c)"
proof -
  obtain i where i: "i < unat (e - p)" "c = p + of_nat i" "k = key_at C seed (unat p + i)"
    using assms(1) by (auto simp: cache_of_def)
  have e: "unat (e - p) = unat e - unat p" using assms(2) by (simp add: unat_sub word_le_nat_alt)
  have "unat p + i < unat e" using i(1) e by simp
  then have u: "unat c = unat p + i" using unat_bound [of e]
    by (simp add: i(2) unat_word_ariths unat_of_nat)
  then show "p \<le> c" "c < e" "k = key_at C seed (unat c)"
    using i e by (auto simp: word_le_nat_alt word_less_nat_alt)
qed

lemma sat_add_one: "c \<noteq> - 1 \<Longrightarrow> sat_add c 1 = (c :: u64) + 1"
  using unat_plus_one [of c] unat_bound [of "c + 1"] by (simp add: sat_add_def)

lemma sat_add_one_max: "sat_add (- 1) 1 = (- 1 :: u64)"
  by (simp add: sat_add_def unat_max_word)

lemma sat_add_one_gt: "p \<le> c \<Longrightarrow> p \<noteq> - 1 \<Longrightarrow> p < sat_add (c :: u64) 1"
  by (cases "c = - 1") (auto simp: sat_add_one sat_add_one_max word_order.not_eq_extremum
      word_less_nat_alt [of p "c + 1"] word_le_nat_alt unat_plus_one)

text \<open>The state after committing a forward plan.\<close>

lemma commit_forward:
  assumes "chain_ok C seed mc" and "mc_pos mc \<noteq> - 1" and "mc_pos mc \<le> c" and "c - mc_pos mc \<le> 1024"
  defines "mc' \<equiv> commit mc (plan C mc c)"
  shows "mc_pos mc' = sat_add c 1"
    and "mc_skipped mc' = evict (foldl (\<lambda>m (c, k). or_insert c k m) (mc_skipped mc)
           (cache_of C seed (mc_pos mc) (unat (c - mc_pos mc))))"
    and "mc_chain mc' = chain_at C seed (unat c + 1)"
  using sat_add_one_gt [OF assms(3,2)]
  by (simp_all add: mc'_def plan_forward [OF assms(1-4)] commit_def)

lemma evict_bounds: "length (evict m) \<le> 1024" "ordered m \<Longrightarrow> ordered (evict m)"
    "ordered m \<Longrightarrow> map_of (evict m) c = Some k \<Longrightarrow> map_of m c = Some k"
    "length m \<le> 1024 \<Longrightarrow> evict m = m"
  using ordered_map_of_drop [of m] by (simp_all add: evict_def MAX_SKIP_def ordered_drop)

definition open_step :: "crates \<Rightarrow> msg_chain \<Rightarrow> u64 \<Rightarrow> msg_chain" where
  "open_step C mc c = commit mc (plan C mc c)"

lemma open_step_ok:
  assumes ok: "chain_ok C seed mc"
  shows "chain_ok C seed (open_step C mc c)"
  using ok
proof (cases rule: plan_cases [where c = c])
  case refused
  then show ?thesis using ok by (simp add: open_step_def commit_def)
next
  case (cached k)
  then show ?thesis using ok
    by (auto simp: open_step_def commit_def chain_ok_def ordered_remove_key
        intro: order.trans [OF length_remove_key] split: if_splits)
next
  case (last k ch)
  have "evict (mc_skipped mc) = mc_skipped mc" using ok by (simp add: chain_ok_def evict_bounds(4))
  then show ?thesis using ok last(1,2) by (simp add: open_step_def commit_def)
next
  case forward
  note cm = commit_forward [OF ok forward]
  have o: "ordered (mc_skipped mc)" using ok by (simp add: chain_ok_def)
  let ?m = "foldl (\<lambda>m (c, k). or_insert c k m) (mc_skipped mc)
      (cache_of C seed (mc_pos mc) (unat (c - mc_pos mc)))"
  have "x < sat_add c 1 \<and> k = key_at C seed (unat x)" if "map_of (evict ?m) x = Some k" for x k
  proof -
    have lt: "c \<noteq> - 1 \<Longrightarrow> c < sat_add c 1" "mc_pos mc < sat_add c 1" "c \<le> sat_add c 1"
      using sat_add_one_gt [OF forward(2,1)] sat_add_one_gt [of c c]
      by (cases "c = - 1"; simp add: sat_add_one_max)+
    from evict_bounds(3) [OF fold_or_insert(1) [OF o] that]
    have "map_of (mc_skipped mc) x = Some k \<or> (x, k) \<in> set (cache_of C seed (mc_pos mc) (unat (c - mc_pos mc)))"
      by (rule fold_or_insert(2) [OF o])
    then show ?thesis
    proof
      assume "map_of (mc_skipped mc) x = Some k"
      then have "x < mc_pos mc" "k = key_at C seed (unat x)" using ok by (auto simp: chain_ok_def)
      then show ?thesis using lt(2) by (blast intro: less_trans)
    next
      assume "(x, k) \<in> set (cache_of C seed (mc_pos mc) (unat (c - mc_pos mc)))"
      from cache_of_mem [OF this forward(2)] show ?thesis using lt(3) by (blast intro: less_le_trans)
    qed
  qed
  moreover have "sat_add c 1 = - 1 \<or> chain_at C seed (unat c + 1) = chain_at C seed (unat (sat_add c 1))"
    by (cases "c = - 1") (simp_all add: sat_add_one sat_add_one_max unat_plus_one)
  ultimately show ?thesis
    using cm evict_bounds(1) evict_bounds(2) [OF fold_or_insert(1) [OF o]]
    by (simp add: chain_ok_def open_step_def)
qed

interpretation receiver: state_machine "open_step C" "chain_ok C seed" for C seed
  by unfold_locales (rule open_step_ok)

text \<open>The key an attempt to open a counter is given.\<close>

definition key_for :: "crates \<Rightarrow> msg_chain \<Rightarrow> u64 \<Rightarrow> bytes option" where
  "key_for C mc c = (case plan C mc c of Refused \<Rightarrow> None | p \<Rightarrow> Some (plan_key p))"

lemma key_for_right:
  assumes "chain_ok C seed mc" and "c \<noteq> - 1" and "key_for C mc c = Some k"
  shows "k = key_at C seed (unat c)"
  using assms(1)
proof (cases rule: plan_cases [where c = c])
  case forward
  then show ?thesis using plan_forward [OF assms(1) forward] assms(3) by (simp add: key_for_def)
next
  case (cached k')
  then show ?thesis using assms(1,3) by (simp add: key_for_def chain_ok_def)
qed (use assms in \<open>simp_all add: key_for_def\<close>)

text \<open>A counter that is spent: passed, and not in the cache.\<close>

definition spent :: "u64 \<Rightarrow> msg_chain \<Rightarrow> bool" where
  "spent c mc \<longleftrightarrow> c < mc_pos mc \<and> map_of (mc_skipped mc) c = None"

lemma spent_refused: "spent c mc \<Longrightarrow> key_for C mc c = None"
  by (simp add: spent_def key_for_def plan_def)

lemma map_of_fold_cache:
  assumes "ordered m" and "map_of m x = None" and "x \<notin> fst ` set cache"
  shows "map_of (foldl (\<lambda>m (c, k). or_insert c k m) m cache) x = None"
  using fold_or_insert(3) [OF assms(1), of cache] assms(2,3) by (simp add: map_of_eq_None_iff)

lemma spent_step:
  assumes ok: "chain_ok C seed mc" and "spent x mc"
  shows "spent x (open_step C mc c)"
  using ok
proof (cases rule: plan_cases [where c = c])
  case forward
  have o: "ordered (mc_skipped mc)" using ok by (simp add: chain_ok_def)
  have "x \<notin> fst ` set (cache_of C seed (mc_pos mc) (unat (c - mc_pos mc)))"
    using cache_of_mem(1) [OF _ forward(2)] assms(2) by (force simp: spent_def)
  then have n: "map_of (foldl (\<lambda>m (c, k). or_insert c k m) (mc_skipped mc)
      (cache_of C seed (mc_pos mc) (unat (c - mc_pos mc)))) x = None"
    using map_of_fold_cache [OF o] assms(2) by (simp add: spent_def)
  then have "map_of (mc_skipped (open_step C mc c)) x = None"
    using evict_bounds(3) [OF fold_or_insert(1) [OF o]] commit_forward(2) [OF ok forward]
    by (metis (lifting) not_None_eq open_step_def)
  moreover have "x < mc_pos (open_step C mc c)"
    using assms(2) sat_add_one_gt [OF forward(2,1)] commit_forward(1) [OF ok forward]
    by (auto simp: spent_def open_step_def intro: less_trans)
  ultimately show ?thesis by (simp add: spent_def)
next
  case (last k ch)
  have "evict (mc_skipped mc) = mc_skipped mc" using ok by (simp add: chain_ok_def evict_bounds(4))
  then show ?thesis using last(1,2) assms(2) by (simp add: open_step_def commit_def)
qed (use assms(2) in \<open>simp_all add: spent_def open_step_def commit_def\<close>)

lemma open_spends:
  assumes ok: "chain_ok C seed mc" and "c \<noteq> - 1" and "key_for C mc c \<noteq> None"
  shows "spent c (open_step C mc c)"
  using ok
proof (cases rule: plan_cases [where c = c])
  case refused
  then show ?thesis using assms(3) by (simp add: key_for_def)
next
  case (cached k)
  then show ?thesis by (simp add: spent_def open_step_def commit_def)
next
  case (last k ch)
  then show ?thesis using assms(2) by simp
next
  case forward
  have o: "ordered (mc_skipped mc)" using ok by (simp add: chain_ok_def)
  have "c \<notin> fst ` set (cache_of C seed (mc_pos mc) (unat (c - mc_pos mc)))"
    using cache_of_mem(2) [OF _ forward(2)] by force
  moreover have "map_of (mc_skipped mc) c = None"
    using ok leD [OF forward(2)] by (cases "map_of (mc_skipped mc) c") (simp_all add: chain_ok_def)
  ultimately have "map_of (foldl (\<lambda>m (c, k). or_insert c k m) (mc_skipped mc)
      (cache_of C seed (mc_pos mc) (unat (c - mc_pos mc)))) c = None"
    using map_of_fold_cache [OF o] by simp
  then have "map_of (mc_skipped (open_step C mc c)) c = None"
    using evict_bounds(3) [OF fold_or_insert(1) [OF o]] commit_forward(2) [OF ok forward]
    by (metis (lifting) not_None_eq open_step_def)
  then show ?thesis
    using sat_add_one_gt [of c c] commit_forward(1) [OF ok forward] assms(2)
    by (simp add: spent_def open_step_def)
qed

lemma spent_run: "chain_ok C seed mc \<Longrightarrow> spent x mc \<Longrightarrow> spent x (foldl (open_step C) mc cs)"
  by (induction cs arbitrary: mc) (auto intro: open_step_ok spent_step)

text \<open>
  C8. Message keys are single-use and exact under any, also hostile, sequence of counters: in every
  state a receiving chain reaches, the key given out for a counter is the sender's key of exactly
  that message, the cache holds at most 1024 keys, and once a counter has opened it is refused in
  every later state. (The counter \<open>u64::MAX\<close> is the saturated end of the chain.)
\<close>

theorem message_keys_open_once:
  assumes "c \<noteq> - 1" and "mc = foldl (open_step C) (msg_chain_seed seed) cs" and "key_for C mc c = Some k"
  shows "k = key_at C seed (unat c) \<and> length (mc_skipped mc) \<le> 1024 \<and>
    key_for C (foldl (open_step C) (open_step C mc c) cs') c = None"
proof -
  have ok: "chain_ok C seed mc" unfolding assms(2) by (rule receiver.run_inv [OF chain_ok_seed])
  then have "spent c (foldl (open_step C) (open_step C mc c) cs')"
    using open_spends [OF ok assms(1)] assms(3) by (intro spent_run open_step_ok) auto
  then show ?thesis using key_for_right [OF ok assms(1,3)] ok spent_refused by (simp add: chain_ok_def)
qed

text \<open>Sealing walks the reference chain.\<close>

lemma advance_ok:
  assumes "chain_ok C seed mc" and "mc_pos mc \<noteq> - 1"
  shows "chain_ok C seed (fst (advance C mc))" and "snd (advance C mc) = key_at C seed (unat (mc_pos mc))"
    and "mc_pos (fst (advance C mc)) = mc_pos mc + 1"
proof -
  have lt: "mc_pos mc < mc_pos mc + 1" using assms(2) by (simp add: word_less_nat_alt unat_plus_one)
  show "snd (advance C mc) = key_at C seed (unat (mc_pos mc))" "mc_pos (fst (advance C mc)) = mc_pos mc + 1"
    using assms by (simp_all add: chain_ok_def advance_def kdf_ck_chain_at)
  show "chain_ok C seed (fst (advance C mc))"
    using assms lt by (auto simp: chain_ok_def advance_def kdf_ck_chain_at unat_plus_one intro: less_trans)
qed

theorem message_keys_open_once_witness:
  "key_for demo_crates (foldl (open_step demo_crates) (open_step demo_crates (msg_chain_seed [1]) 2) [0, 7]) 2 = None"
proof -
  have "key_for demo_crates (msg_chain_seed [1]) 2 = Some (key_at demo_crates [1] 2)"
    using plan_forward [OF chain_ok_seed, of "[1]" 2 demo_crates]
    by (simp add: key_for_def msg_chain_seed_def)
  then show ?thesis
    using message_keys_open_once [of 2 "msg_chain_seed [1]" demo_crates "[1]" "[]" _ "[0, 7]"] by simp
qed

section \<open>Reordering inside the skip window\<close>

text \<open>
  The state of a chain that started empty at position \<open>p\<close> and has opened exactly the counters of
  \<open>seen\<close>, all below \<open>p + 1024\<close>: the cache holds exactly the passed counters that are still owed.
\<close>

definition window_ok :: "crates \<Rightarrow> bytes \<Rightarrow> u64 \<Rightarrow> u64 set \<Rightarrow> msg_chain \<Rightarrow> bool" where
  "window_ok C seed p seen mc \<longleftrightarrow>
     chain_ok C seed mc \<and> p \<le> mc_pos mc \<and> unat (mc_pos mc) \<le> unat p + 1024 \<and>
     fst ` set (mc_skipped mc) = {x. p \<le> x \<and> x < mc_pos mc \<and> x \<notin> seen} \<and>
     (\<forall>x \<in> seen. p \<le> x \<and> x < mc_pos mc)"

lemma cache_of_keys: "p \<le> e \<Longrightarrow> fst ` set (cache_of C seed p (unat (e - p))) = {x. p \<le> x \<and> x < e}"
proof (intro equalityI subsetI)
  fix x
  assume "p \<le> e" and "x \<in> {x. p \<le> x \<and> x < e}"
  then have "unat x - unat p < unat (e - p)" "x = p + of_nat (unat x - unat p)"
    by (auto simp: unat_sub word_le_nat_alt word_less_nat_alt of_nat_diff)
  then show "x \<in> fst ` set (cache_of C seed p (unat (e - p)))"
    unfolding cache_of_def set_map image_image by (intro image_eqI [of _ _ "unat x - unat p"]) auto
qed (use cache_of_mem(1,2) in force)

lemma ordered_length: "ordered m \<Longrightarrow> length m = card (fst ` set m)"
  using distinct_card [OF ordered_distinct, of m] by simp

lemma card_word_interval: "card {x :: u64. p \<le> x \<and> x < e} \<le> unat e - unat p"
proof -
  have "inj_on unat {x :: u64. p \<le> x \<and> x < e}"
    by (rule inj_onI) (rule unsigned_word_eqI)
  then have "card {x :: u64. p \<le> x \<and> x < e} = card (unat ` {x :: u64. p \<le> x \<and> x < e})"
    by (simp add: card_image)
  also have "\<dots> \<le> card {unat p..<unat e}"
    by (rule card_mono) (auto simp: word_le_nat_alt word_less_nat_alt)
  finally show ?thesis by simp
qed

lemma window_step:
  assumes w: "window_ok C seed p seen mc" and c: "p \<le> c" "unat c < unat p + 1024" and p: "unat p + 1025 < 2 ^ 64"
  shows "key_for C mc c = (if c \<in> seen then None else Some (key_at C seed (unat c)))"
    and "window_ok C seed p (insert c seen) (open_step C mc c)"
proof -
  have ok: "chain_ok C seed mc" and pp: "p \<le> mc_pos mc" "unat (mc_pos mc) \<le> unat p + 1024"
    and keys: "fst ` set (mc_skipped mc) = {x. p \<le> x \<and> x < mc_pos mc \<and> x \<notin> seen}"
    and seen: "\<And>x. x \<in> seen \<Longrightarrow> p \<le> x \<and> x < mc_pos mc"
    using w by (auto simp: window_ok_def)
  have nm: "mc_pos mc \<noteq> - 1" "c \<noteq> - 1" using pp(2) c(2) p by (auto simp: unat_max_word)
  have o: "ordered (mc_skipped mc)" using ok by (simp add: chain_ok_def)
  have "key_for C mc c = (if c \<in> seen then None else Some (key_at C seed (unat c))) \<and>
    window_ok C seed p (insert c seen) (open_step C mc c)"
  proof (cases "c < mc_pos mc")
    case True
    have mem: "map_of (mc_skipped mc) c = None \<longleftrightarrow> c \<in> seen"
      using keys True c(1) by (simp add: map_of_eq_None_iff)
    show ?thesis
    proof (cases "map_of (mc_skipped mc) c")
      case None
      then have "plan C mc c = Refused" "c \<in> seen" using True mem by (simp_all add: plan_def)
      then show ?thesis using w by (simp add: key_for_def open_step_def commit_def insert_absorb)
    next
      case (Some k)
      then have pl: "plan C mc c = Cached c k" "c \<notin> seen" using True mem by (auto simp: plan_def)
      have "fst ` set (remove_key c (mc_skipped mc)) = fst ` set (mc_skipped mc) - {c}"
        by (auto simp: remove_key_def image_iff)
      then have "window_ok C seed p (insert c seen) (open_step C mc c)"
        using open_step_ok [OF ok, of c] pp keys seen True c(1)
        by (auto simp: window_ok_def open_step_def pl commit_def)
      then show ?thesis using key_for_right [OF ok nm(2)] pl by (simp add: key_for_def)
    qed
  next
    case False
    then have ge: "mc_pos mc \<le> c" by simp
    have "unat (c - mc_pos mc) = unat c - unat (mc_pos mc)" using ge by (simp add: unat_sub word_le_nat_alt)
    also have "\<dots> \<le> 1024" using c(2) pp(1) by (simp add: word_le_nat_alt)
    finally have gap: "c - mc_pos mc \<le> 1024" by (simp add: word_le_nat_alt)
    note cm = commit_forward [OF ok nm(1) ge gap, folded open_step_def]
    define m where "m = foldl (\<lambda>m (c, k). or_insert c k m) (mc_skipped mc)
      (cache_of C seed (mc_pos mc) (unat (c - mc_pos mc)))"
    have om: "ordered m" unfolding m_def by (rule fold_or_insert(1) [OF o])
    have km: "fst ` set m = {x. p \<le> x \<and> x < c \<and> x \<notin> insert c seen}"
      unfolding m_def fold_or_insert(3) [OF o] keys cache_of_keys [OF ge]
      using ge pp(1) False by (auto intro: less_le_trans order.trans dest: seen leD)
    have "length m \<le> 1024"
    proof -
      have "length m \<le> card {x. p \<le> x \<and> x < c}" unfolding ordered_length [OF om] km by (rule card_mono) auto
      also have "\<dots> \<le> unat c - unat p" by (rule card_word_interval)
      finally show ?thesis using c(2) by simp
    qed
    then have sk: "mc_skipped (open_step C mc c) = m" using cm(2) by (simp add: m_def evict_bounds(4))
    have pos: "mc_pos (open_step C mc c) = c + 1" using cm(1) nm(2) by (simp add: sat_add_one)
    have lt: "x < c + 1 \<longleftrightarrow> x \<le> c" for x
      using nm(2) by (simp add: word_less_nat_alt word_le_nat_alt unat_plus_one less_Suc_eq_le)
    have "x \<le> c" if "x \<in> seen" for x using seen [OF that] ge by (blast intro: less_imp_le less_le_trans)
    then have "window_ok C seed p (insert c seen) (open_step C mc c)"
      using open_step_ok [OF ok, of c] km seen ge c pos sk nm(2)
      by (auto simp: window_ok_def lt unat_plus_one word_le_nat_alt [of p "c + 1"] word_le_nat_alt [of p c]
          intro: order.trans less_imp_le)
    moreover have "c \<notin> seen" using seen False by blast
    ultimately show ?thesis using plan_forward [OF ok nm(1) ge gap] by (simp add: key_for_def)
  qed
  then show "key_for C mc c = (if c \<in> seen then None else Some (key_at C seed (unat c)))"
    and "window_ok C seed p (insert c seen) (open_step C mc c)" by simp_all
qed

text \<open>Opening a list of counters in the order they arrive: the keys given out.\<close>

fun open_run :: "crates \<Rightarrow> msg_chain \<Rightarrow> u64 list \<Rightarrow> bytes option list" where
  "open_run C mc [] = []"
| "open_run C mc (c # cs) = key_for C mc c # open_run C (open_step C mc c) cs"

fun each_once :: "crates \<Rightarrow> bytes \<Rightarrow> u64 set \<Rightarrow> u64 list \<Rightarrow> bytes option list" where
  "each_once C seed seen [] = []"
| "each_once C seed seen (c # cs) =
     (if c \<in> seen then None else Some (key_at C seed (unat c))) # each_once C seed (insert c seen) cs"

lemma window_run:
  assumes "window_ok C seed p seen mc" and "unat p + 1025 < 2 ^ 64"
    and "\<And>c. c \<in> set cs \<Longrightarrow> p \<le> c \<and> unat c < unat p + 1024"
  shows "open_run C mc cs = each_once C seed seen cs"
  using assms(1,3)
proof (induction cs arbitrary: seen mc)
  case (Cons c cs)
  have c: "p \<le> c" "unat c < unat p + 1024" using Cons.prems(2) [of c] by auto
  note s = window_step [OF Cons.prems(1) c assms(2)]
  show ?case using s(1) Cons.IH [OF s(2)] Cons.prems(2) by simp
qed simp

text \<open>
  Reordering and duplication inside the skip window: from a chain with an empty cache, any
  arrival order of any of the next 1024 counters, with any repetitions, opens each counter exactly
  once, at its first arrival, with the sender's key of that message; every repetition is refused
  and no first arrival ever is.
\<close>

theorem window_opens_each_counter_once:
  assumes "chain_ok C seed mc" and "mc_skipped mc = []" and "unat (mc_pos mc) + 1025 < 2 ^ 64"
    and "\<forall>c \<in> set cs. mc_pos mc \<le> c \<and> unat c < unat (mc_pos mc) + 1024"
  shows "open_run C mc cs = each_once C seed {} cs"
proof (rule window_run [OF _ assms(3)])
  show "window_ok C seed (mc_pos mc) {} mc" using assms(1,2) by (auto simp: window_ok_def)
qed (use assms(4) in blast)

theorem window_opens_each_counter_once_witness:
  "open_run demo_crates (msg_chain_seed [1]) [5, 0, 5, 2, 0] =
     [Some (key_at demo_crates [1] 5), Some (key_at demo_crates [1] 0), None,
      Some (key_at demo_crates [1] 2), None]"
  by (subst window_opens_each_counter_once [OF chain_ok_seed]) (simp_all add: msg_chain_seed_def)

section \<open>Epochs\<close>

text \<open>
  The epochs a ratchet holds: at most two retired ones, the immediate predecessors, and a prepared
  one, the immediate successor.
\<close>

definition epochs_ok :: "session_ratchet \<Rightarrow> bool" where
  "epochs_ok r \<longleftrightarrow>
     length (sr_retired r) \<le> 2 \<and>
     map re_epoch (sr_retired r) = take (length (sr_retired r)) [sr_epoch r - 1, sr_epoch r - 2] \<and>
     (case sr_pending r of None \<Rightarrow> True | Some p \<Rightarrow> pe_epoch p = sr_epoch r + 1)"

lemma epochs_ok_new: "epochs_ok (ratchet_new C k)"
  by (simp add: epochs_ok_def ratchet_new_def split: prod.splits)

text \<open>The operations a session performs on its ratchet.\<close>

datatype ratchet_op =
  SealOp nonce_direction
| OpenOp u64 nonce_direction u64
| CountOp
| PrepareStepOp step_secrets nonce_direction
| PrepareMixOp bytes nonce_direction
| ActivateOp u64
| StepOp step_secrets
| MixOp bytes

fun apply_op :: "crates \<Rightarrow> session_ratchet \<Rightarrow> ratchet_op \<Rightarrow> session_ratchet" where
  "apply_op C r (SealOp d) = fst (advance_seal C r d)"
| "apply_op C r (OpenOp e d c) = commit_open r e d (plan_open C r e d c)"
| "apply_op C r CountOp = fst (count_seal r)"
| "apply_op C r (PrepareStepOp s d) = (case prepare_step C r s d of Ok x \<Rightarrow> fst x | _ \<Rightarrow> r)"
| "apply_op C r (PrepareMixOp k d) = (case prepare_quantum_mix C r k d of Ok x \<Rightarrow> fst x | _ \<Rightarrow> r)"
| "apply_op C r (ActivateOp e) = fst (activate r e)"
| "apply_op C r (StepOp s) = fst (step C r s)"
| "apply_op C r (MixOp k) = fst (mix_quantum_entropy C r k)"

lemma upd_cur_fields [simp]:
  "sr_retired (upd_cur d f r) = sr_retired r" "sr_epoch (upd_cur d f r) = sr_epoch r"
  "sr_pending (upd_cur d f r) = sr_pending r"
  by (cases d; simp)+

lemma upd_pending_epoch [simp]: "pe_epoch (upd_pending d f p) = pe_epoch p"
  by (cases d) simp_all

lemma upd_first_epochs [simp]:
  "map re_epoch (upd_first P (upd_retired d f) es) = map re_epoch es" "length (upd_first P g es) = length es"
  by (induction es) (auto, cases d, auto)

lemma plan_seed: "plan C (msg_chain_seed seed) 0 = Forward (key_at C seed 0) (chain_at C seed 1) 1 []"
  using plan_forward [OF chain_ok_seed, of seed 0 C] by (simp add: msg_chain_seed_def sat_add_def cache_of_def)

text \<open>The seed of the message chain that a directional chain key gives in an epoch.\<close>

definition epoch_seed_of :: "crates \<Rightarrow> bytes \<Rightarrow> u64 \<Rightarrow> bytes" where
  "epoch_seed_of C chain_key epoch = derive_epoch_key C (fst (kdf_ck C chain_key)) epoch"

lemma chain_seed_msg: "ch_msg_chain (chain_seed C k e) = msg_chain_seed (epoch_seed_of C k e)"
  by (simp add: chain_seed_def epoch_seed_of_def split: prod.splits)

lemma sel_chain_seed:
  "ch_msg_chain (sel_chain d (chain_seed C a e) (chain_seed C b e)) = msg_chain_seed (epoch_seed_of C (sel_key d a b) e)"
  by (cases d) (simp_all add: chain_seed_msg)

lemma prepare_epoch_ok:
  "prepare_epoch C r (rk, a, b) d =
     Ok (r\<lparr>sr_pending := Some \<lparr>pe_epoch = sr_epoch r + 1, pe_root_key = rk, pe_to_resp = chain_seed C a (sr_epoch r + 1),
           pe_to_init = chain_seed C b (sr_epoch r + 1)\<rparr>\<rparr>, sr_epoch r + 1,
         key_at C (epoch_seed_of C (sel_key d a b) (sr_epoch r + 1)) 0)"
  by (simp add: prepare_epoch_def Let_def sel_chain_seed plan_seed)

lemma prepare_epoch_obtain:
  obtains p k where "prepare_epoch C r rk d = Ok (r\<lparr>sr_pending := Some p\<rparr>, sr_epoch r + 1, k)"
    and "pe_epoch p = sr_epoch r + 1"
  by (cases rk) (simp add: prepare_epoch_ok)

lemma retire_epochs:
  assumes "epochs_ok r"
  shows "length (retire r) \<le> 2"
    and "map re_epoch (retire r) = take (length (retire r)) [sr_epoch r, sr_epoch r - 1]"
proof -
  have "length (sr_retired r) \<le> 2"
    "map re_epoch (sr_retired r) = take (length (sr_retired r)) [sr_epoch r - 1, sr_epoch r - 2]"
    using assms by (simp_all add: epochs_ok_def)
  then show "length (retire r) \<le> 2"
    and "map re_epoch (retire r) = take (length (retire r)) [sr_epoch r, sr_epoch r - 1]"
    by (cases "sr_retired r"; auto simp: retire_def RATCHET_RETAINED_EPOCHS_def min_def take_Cons' split: if_splits)+
qed

lemma new_epoch_pending [simp]: "sr_pending (new_epoch C r rk) = None"
  by (cases rk) (simp add: new_epoch_def Let_def)

lemma new_epoch_ok:
  assumes "epochs_ok r"
  shows "epochs_ok (new_epoch C r rk)"
  using retire_epochs [OF assms] by (cases rk) (simp add: epochs_ok_def new_epoch_def Let_def)

lemma apply_op_ok:
  assumes ok: "epochs_ok r"
  shows "epochs_ok (apply_op C r e)"
proof (cases e)
  case (PrepareStepOp s d)
  obtain p k where "prepare_step C r s d = Ok (r\<lparr>sr_pending := Some p\<rparr>, sr_epoch r + 1, k)" "pe_epoch p = sr_epoch r + 1"
    unfolding prepare_step_def by (rule prepare_epoch_obtain)
  then show ?thesis using ok PrepareStepOp by (simp add: epochs_ok_def)
next
  case (PrepareMixOp s d)
  obtain p k where "prepare_quantum_mix C r s d = Ok (r\<lparr>sr_pending := Some p\<rparr>, sr_epoch r + 1, k)" "pe_epoch p = sr_epoch r + 1"
    unfolding prepare_quantum_mix_def by (rule prepare_epoch_obtain)
  then show ?thesis using ok PrepareMixOp by (simp add: epochs_ok_def)
next
  case (ActivateOp e)
  then show ?thesis using ok retire_epochs [OF ok]
    by (auto simp: activate_def epochs_ok_def split: option.splits)
next
  case (OpenOp e d c)
  then show ?thesis using ok by (auto simp: commit_open_def Let_def epochs_ok_def split: option.splits)
next
  case (StepOp s)
  then show ?thesis using new_epoch_ok [OF ok] by (auto simp: step_def Let_def epochs_ok_def split: option.splits)
next
  case (MixOp k)
  then show ?thesis using new_epoch_ok [OF ok] by (simp add: mix_quantum_entropy_def Let_def)
qed (use ok in \<open>auto simp: advance_seal_def count_seal_def Let_def epochs_ok_def split: prod.splits option.splits\<close>)

interpretation ratchet_machine: state_machine "apply_op C" epochs_ok for C
  by unfold_locales (rule apply_op_ok)

lemma open_key_epoch: "open_key C r e d c \<noteq> None \<Longrightarrow> e \<in> set (openable_epochs r)"
  by (auto simp: open_key_def plan_open_def open_chain_def openable_epochs_def find_Some_iff
      split: option.splits if_splits)

text \<open>
  C23. Bounded exposure: in every state a ratchet reaches by sealing, opening, preparing, activating
  and stepping in any order, at most two retired epochs are held, and the only epochs any frame can
  be opened in are the prepared successor, the current one and its two predecessors; the keys of
  every older epoch are gone.
\<close>

theorem only_recent_epochs_open:
  "length (sr_retired (foldl (apply_op C) (ratchet_new C k) ops)) \<le> 2 \<and>
   {e. \<exists>d c. open_key C (foldl (apply_op C) (ratchet_new C k) ops) e d c \<noteq> None} \<subseteq>
     (let e = sr_epoch (foldl (apply_op C) (ratchet_new C k) ops) in {e + 1, e, e - 1, e - 2})"
proof -
  define r where "r = foldl (apply_op C) (ratchet_new C k) ops"
  have ok: "epochs_ok r" unfolding r_def by (rule ratchet_machine.run_inv [OF epochs_ok_new])
  have "set (map re_epoch (sr_retired r)) \<subseteq> {sr_epoch r - 1, sr_epoch r - 2}"
    using ok set_take_subset [of _ "[sr_epoch r - 1, sr_epoch r - 2]"] unfolding epochs_ok_def by fastforce
  moreover have pend: "sr_pending r = Some p \<Longrightarrow> pe_epoch p = sr_epoch r + 1" for p
    using ok by (simp add: epochs_ok_def)
  ultimately have "set (openable_epochs r) \<subseteq> {sr_epoch r + 1, sr_epoch r, sr_epoch r - 1, sr_epoch r - 2}"
    using pend by (auto simp: openable_epochs_def Let_def split: option.splits)
  moreover have "{e. \<exists>d c. open_key C r e d c \<noteq> None} \<subseteq> set (openable_epochs r)"
    using open_key_epoch by blast
  moreover have "length (sr_retired r) \<le> 2" using ok by (simp add: epochs_ok_def)
  ultimately show ?thesis unfolding r_def [symmetric] Let_def by blast
qed

lemma preview_key_eq:
  "preview_key C r (rk, a, b) d = (sr_epoch r + 1, key_at C (epoch_seed_of C (sel_key d a b) (sr_epoch r + 1)) 0)"
  by (simp add: preview_key_def Let_def key_at_def epoch_seed_of_def split: prod.splits)

lemma seal_key_seed:
  "cur_msg r d = msg_chain_seed seed \<Longrightarrow> seal_key C r d = key_at C seed 0"
proof -
  have "mc_pos (msg_chain_seed seed) = 0" by (simp add: msg_chain_seed_def)
  then show "cur_msg r d = msg_chain_seed seed \<Longrightarrow> seal_key C r d = key_at C seed 0"
    by (simp add: seal_key_def plan_seed)
qed

text \<open>
  Prepare and activate is the step: preparing never panics, returns exactly what the preview
  shows, leaves the current epoch's chains, epoch number and retired epochs as they were, and
  activating the prepared epoch gives the very state the direct step gives, in which the next
  sealing key of that direction is the previewed key. The same holds for the quantum mix, except
  that the prepared path also counts a step where the direct one does not.
\<close>

theorem prepare_activate_is_the_step:
  "\<exists>r1 r2 k1 k2.
     prepare_step C r s d = Ok (r1, sr_epoch r + 1, k1) \<and> preview_step_key C r s d = (sr_epoch r + 1, k1) \<and>
     activate r1 (sr_epoch r + 1) = (fst (step C r s), True) \<and> snd (step C r s) = sr_epoch r + 1 \<and>
     seal_key C (fst (step C r s)) d = k1 \<and> r1\<lparr>sr_pending := sr_pending r\<rparr> = r \<and>
     prepare_quantum_mix C r q d = Ok (r2, sr_epoch r + 1, k2) \<and>
     preview_quantum_mix_key C r q d = (sr_epoch r + 1, k2) \<and>
     activate r2 (sr_epoch r + 1) =
       ((fst (mix_quantum_entropy C r q))\<lparr>sr_steps := sr_steps r + 1\<rparr>, True) \<and>
     sr_steps (fst (mix_quantum_entropy C r q)) = sr_steps r \<and>
     seal_key C (fst (mix_quantum_entropy C r q)) d = k2 \<and> r2\<lparr>sr_pending := sr_pending r\<rparr> = r"
proof -
  obtain rk a b where k: "kdf_rk_hybrid C (sr_root_key r) (dh s) (kem s) = (rk, a, b)" by (metis prod_cases3)
  obtain rk' a' b' where k': "kdf_rk_quantum_mix C (sr_root_key r) q = (rk', a', b')" by (metis prod_cases3)
  have c: "cur_msg (fst (step C r s)) d = msg_chain_seed (epoch_seed_of C (sel_key d a b) (sr_epoch r + 1))"
    by (cases d) (simp_all add: cur_msg_def step_def new_epoch_def Let_def k chain_seed_msg)
  have c': "cur_msg (fst (mix_quantum_entropy C r q)) d =
      msg_chain_seed (epoch_seed_of C (sel_key d a' b') (sr_epoch r + 1))"
    by (cases d) (simp_all add: cur_msg_def mix_quantum_entropy_def new_epoch_def Let_def k' chain_seed_msg)
  show ?thesis
    unfolding prepare_step_def prepare_quantum_mix_def preview_step_key_def preview_quantum_mix_key_def
      k k' prepare_epoch_ok preview_key_eq seal_key_seed [OF c] seal_key_seed [OF c']
    by (simp add: activate_def step_def mix_quantum_entropy_def new_epoch_def Let_def k k' retire_def)
qed

lemma hybrid_secrets:
  assumes "kex_law C"
  obtains s ct where "step_respond C rnd (step_generate C x' dk') (rst_x_public (step_generate C x dk))
      (rst_kem_ek (step_generate C x dk)) = Some (s, ct)" and "length ct = 768"
    and "step_finish C (step_generate C x dk) (rst_x_public (step_generate C x' dk')) ct = Some s"
proof -
  obtain ct ss where "mlkem_encapsulate C rnd (mlkem_public C dk) = Some (ct, ss)" "length ct = 768"
    "mlkem_decapsulate C dk ct = ss" by (rule kex_lawE [OF assms])
  then show thesis
    by (intro that [of "\<lparr>dh = x25519_dh C x (x25519_public C x'), kem = ss\<rparr>" ct])
      (simp_all add: step_respond_def step_finish_def step_generate_def kex_lawD(3) [OF assms, of x' x])
qed

text \<open>
  Both sides of a hybrid step derive one secret: the responder answers the initiator's public
  material, and what the initiator recovers from the answer is the responder's pair of secrets, so
  two ratchets in one state step to one state.
\<close>

theorem hybrid_step_agrees:
  assumes "kex_law C"
  shows "\<exists>s ct. step_respond C rnd (step_generate C x' dk') (rst_x_public (step_generate C x dk))
      (rst_kem_ek (step_generate C x dk)) = Some (s, ct) \<and> length ct = 768 \<and>
    step_finish C (step_generate C x dk) (rst_x_public (step_generate C x' dk')) ct = Some s"
  by (rule hybrid_secrets [OF assms, of rnd x' dk' x dk]) blast

theorem hybrid_step_agrees_witness:
  "\<exists>s ct. step_respond demo_crates [5] (step_generate demo_crates [1] [2]) (rst_x_public (step_generate demo_crates [3] [4]))
      (rst_kem_ek (step_generate demo_crates [3] [4])) = Some (s, ct) \<and>
    step_finish demo_crates (step_generate demo_crates [3] [4]) (rst_x_public (step_generate demo_crates [1] [2])) ct = Some s"
  using hybrid_step_agrees [OF demo_laws(5)] by blast

section \<open>Causal order\<close>

datatype causal_event = LocalEv | EpochEv | InboundEv u64 u64

fun causal_step :: "causal_counter \<Rightarrow> causal_event \<Rightarrow> causal_counter" where
  "causal_step c LocalEv = fst (advance_local c)"
| "causal_step c EpochEv = fst (advance_epoch c)"
| "causal_step c (InboundEv e s) = fst (verify_and_observe c e s)"

text \<open>A message that can no longer be accepted: its epoch, or its sequence in the epoch, is passed.\<close>

definition obsolete :: "u64 \<Rightarrow> u64 \<Rightarrow> causal_counter \<Rightarrow> bool" where
  "obsolete e s c \<longleftrightarrow> e < cc_causal_epoch c \<or> (e = cc_causal_epoch c \<and> s \<le> cc_observed_remote_seq c)"

lemma obsolete_rejected: "obsolete e s c \<longleftrightarrow> snd (verify_and_observe c e s) \<noteq> Ok ()"
  by (auto simp: obsolete_def verify_and_observe_def)

lemma obsolete_step: "e \<noteq> - 1 \<Longrightarrow> obsolete e s c \<Longrightarrow> obsolete e s (causal_step c ev)"
proof (cases ev)
  case EpochEv
  assume "e \<noteq> - 1" and "obsolete e s c"
  then have "e < sat_add (cc_causal_epoch c) 1"
    by (cases "cc_causal_epoch c = - 1")
      (auto simp: sat_add_one_max word_order.not_eq_extremum obsolete_def intro: less_trans sat_add_one_gt)
  then show ?thesis using EpochEv by (simp add: obsolete_def advance_epoch_def Let_def)
qed (auto simp: obsolete_def advance_local_def verify_and_observe_def Let_def not_less)

interpretation causal: state_machine causal_step "\<lambda>c. e = - 1 \<or> obsolete e s c" for e s
  by unfold_locales (use obsolete_step in blast)

text \<open>
  Causal replay protection: an accepted message is rejected ever after, whatever local events,
  epoch advances and other inbound messages come in between. The epoch \<open>u64::MAX\<close> is the exception
  the saturating increment leaves.
\<close>

theorem causal_messages_accepted_once:
  assumes "e \<noteq> - 1" and "verify_and_observe c e s = (c', Ok ())"
  shows "snd (verify_and_observe (foldl causal_step c' evs) e s) \<noteq> Ok ()"
proof -
  have "obsolete e s c'" using assms(2) by (auto simp: obsolete_def verify_and_observe_def split: if_splits)
  then show ?thesis using causal.run_inv [of e s c' evs] assms(1) by (simp add: obsolete_rejected)
qed

theorem causal_messages_accepted_once_witness:
  "snd (verify_and_observe (foldl causal_step (fst (verify_and_observe causal_new 3 9)) [EpochEv, LocalEv, InboundEv 4 1]) 3 9)
     \<noteq> Ok ()"
  by (rule causal_messages_accepted_once [of 3 causal_new 9]) (simp_all add: causal_new_def verify_and_observe_def)

text \<open>
  In epoch \<open>u64::MAX\<close>, which any inbound message can move the counter to, advancing the epoch
  saturates but still clears the observed sequence: the same message is accepted a second time.
\<close>

theorem causal_epoch_saturation_replays:
  "let (c1, r1) = verify_and_observe c (- 1) s; (c2, _) = advance_epoch c1; (c3, r3) = verify_and_observe c2 (- 1) s
   in cc_causal_epoch c \<noteq> - 1 \<and> s \<noteq> 0 \<longrightarrow> r1 = Ok () \<and> r3 = Ok ()"
  by (auto simp: verify_and_observe_def advance_epoch_def sat_add_one_max Let_def word_order.not_eq_extremum
      word_neq_0_conv not_le)

theorem causal_epoch_saturation_replays_witness:
  "snd (verify_and_observe (fst (advance_epoch (fst (verify_and_observe causal_new (- 1) 5)))) (- 1) 5) = Ok ()"
  using causal_epoch_saturation_replays [of causal_new 5] by (simp add: causal_new_def Let_def split: prod.splits)

end
