(* ===== verification/Gtf.thy ===== *)
theory Gtf
  imports L2_Aead
begin

unbundle bit_operations_syntax

text \<open>
  The GTF wire frames of src/src/ghost/net/mod.rs: v1 privacy and bulk frames, v2 frames with their
  64-bit counter, ratchet epoch, wire nonce, masked slack and authenticated jitter tail, and the
  parsers for both. Random jitter bytes of a v1 frame are an argument.
\<close>

section \<open>Layout\<close>

definition GTF_BASE_SIZE :: nat where "GTF_BASE_SIZE = 512"
definition GTF_BULK_SIZE :: nat where "GTF_BULK_SIZE = 1472"
definition JITTER_MAX :: nat where "JITTER_MAX = 64"
definition MIN_FRAME_SIZE :: nat where "MIN_FRAME_SIZE = 32"
definition OFFSET_SESSION_HASH :: nat where "OFFSET_SESSION_HASH = 0"
definition OFFSET_PACKET_COUNTER :: nat where "OFFSET_PACKET_COUNTER = 4"
definition OFFSET_SHARD_INDEX :: nat where "OFFSET_SHARD_INDEX = 8"
definition OFFSET_FLAGS :: nat where "OFFSET_FLAGS = 9"
definition OFFSET_PAYLOAD_START :: nat where "OFFSET_PAYLOAD_START = 10"
definition OFFSET_AUTH_TAG_START :: nat where "OFFSET_AUTH_TAG_START = 496"
definition MAX_PAYLOAD_LEN :: nat where "MAX_PAYLOAD_LEN = OFFSET_AUTH_TAG_START - OFFSET_PAYLOAD_START"
definition BULK_OFFSET_PAYLOAD_START :: nat where "BULK_OFFSET_PAYLOAD_START = 10"
definition BULK_OFFSET_AUTH_TAG_START :: nat where "BULK_OFFSET_AUTH_TAG_START = 1456"
definition MAX_BULK_PAYLOAD_LEN :: nat where
  "MAX_BULK_PAYLOAD_LEN = BULK_OFFSET_AUTH_TAG_START - BULK_OFFSET_PAYLOAD_START"
definition GTF_VERSION :: u8 where "GTF_VERSION = 2"
definition FLAG_V2 :: u8 where "FLAG_V2 = 0x80"
definition FLAG_BULK :: u8 where "FLAG_BULK = 0x01"
definition FLAG_TUNNEL :: u8 where "FLAG_TUNNEL = 0x02"
definition FLAG_DUMMY :: u8 where "FLAG_DUMMY = 0x04"
definition FLAG_SHARDSEC :: u8 where "FLAG_SHARDSEC = 0x08"
definition DUMMY_MAGIC :: bytes where "DUMMY_MAGIC = ascii ''DUMMY!''"
definition V2_OFFSET_PACKET_COUNTER :: nat where "V2_OFFSET_PACKET_COUNTER = 10"
definition V2_OFFSET_RATCHET_EPOCH :: nat where "V2_OFFSET_RATCHET_EPOCH = 18"
definition V2_OFFSET_NONCE :: nat where "V2_OFFSET_NONCE = 26"
definition V2_OFFSET_PAYLOAD_START :: nat where "V2_OFFSET_PAYLOAD_START = 38"
definition V2_OFFSET_AUTH_TAG_START :: nat where "V2_OFFSET_AUTH_TAG_START = 496"
definition V2_MAX_PAYLOAD_LEN :: nat where "V2_MAX_PAYLOAD_LEN = V2_OFFSET_AUTH_TAG_START - V2_OFFSET_PAYLOAD_START"
definition V2_BULK_OFFSET_AUTH_TAG_START :: nat where "V2_BULK_OFFSET_AUTH_TAG_START = 1456"
definition V2_MAX_BULK_PAYLOAD_LEN :: nat where
  "V2_MAX_BULK_PAYLOAD_LEN = V2_BULK_OFFSET_AUTH_TAG_START - V2_OFFSET_PAYLOAD_START"

lemmas gtf_consts = GTF_BASE_SIZE_def GTF_BULK_SIZE_def JITTER_MAX_def MIN_FRAME_SIZE_def
  OFFSET_SESSION_HASH_def OFFSET_PACKET_COUNTER_def OFFSET_SHARD_INDEX_def OFFSET_FLAGS_def
  OFFSET_PAYLOAD_START_def OFFSET_AUTH_TAG_START_def MAX_PAYLOAD_LEN_def BULK_OFFSET_PAYLOAD_START_def
  BULK_OFFSET_AUTH_TAG_START_def MAX_BULK_PAYLOAD_LEN_def V2_OFFSET_PACKET_COUNTER_def
  V2_OFFSET_RATCHET_EPOCH_def V2_OFFSET_NONCE_def V2_OFFSET_PAYLOAD_START_def V2_OFFSET_AUTH_TAG_START_def
  V2_MAX_PAYLOAD_LEN_def V2_BULK_OFFSET_AUTH_TAG_START_def V2_MAX_BULK_PAYLOAD_LEN_def

lemmas gtf_flags = FLAG_V2_def FLAG_BULK_def FLAG_TUNNEL_def FLAG_DUMMY_def FLAG_SHARDSEC_def

record gtf_v2_header =
  gh_session_hash :: bytes
  gh_counter :: u64
  gh_epoch :: u64
  gh_nonce :: bytes
  gh_shard_index :: u8
  gh_flags :: u8
  gh_bulk :: bool
  gh_tail :: bytes

definition is_dummy_payload :: "bytes \<Rightarrow> bool" where
  "is_dummy_payload plain \<longleftrightarrow> length plain \<ge> length DUMMY_MAGIC \<and> take (length DUMMY_MAGIC) plain = DUMMY_MAGIC"

text \<open>Two HMAC blocks of 32 bytes each.\<close>

definition tail_for :: "crates \<Rightarrow> bytes \<Rightarrow> bytes \<Rightarrow> u64 \<Rightarrow> nonce_direction \<Rightarrow> bytes" where
  "tail_for C key nonce epoch direction =
     concat (map (\<lambda>block. take 32 (hmac_sha256 C key
         (ascii ''GTF_P3_1_JITTER_TAIL'' @ nonce @ be_u64 epoch @ [direction_byte direction, of_nat block])))
       [0..<JITTER_MAX div 32])"

section \<open>Reading a frame\<close>

definition is_v2_frame :: "bytes \<Rightarrow> bool" where
  "is_v2_frame buf \<longleftrightarrow> length buf > OFFSET_FLAGS \<and> buf ! OFFSET_FLAGS AND FLAG_V2 \<noteq> 0"

definition is_bulk_frame :: "bytes \<Rightarrow> bool" where
  "is_bulk_frame buf \<longleftrightarrow> length buf > OFFSET_FLAGS \<and> buf ! OFFSET_FLAGS AND 0x01 \<noteq> 0"

definition frame_wire_version :: "bytes \<Rightarrow> u8" where
  "frame_wire_version buf = (if is_v2_frame buf then GTF_VERSION else 1)"

definition frame_size_of :: "bytes \<Rightarrow> nat" where
  "frame_size_of buf = (if is_bulk_frame buf then GTF_BULK_SIZE else GTF_BASE_SIZE)"

definition frame_tail :: "bytes \<Rightarrow> bytes" where
  "frame_tail buf =
     (if is_v2_frame buf \<and> \<not> is_bulk_frame buf \<and> length buf \<ge> GTF_BASE_SIZE + JITTER_MAX
      then slice GTF_BASE_SIZE (GTF_BASE_SIZE + JITTER_MAX) buf else [])"

definition parse_gtf_v2_header :: "bytes \<Rightarrow> gtf_v2_header option" where
  "parse_gtf_v2_header buf =
     (if \<not> is_v2_frame buf \<or> length buf < V2_OFFSET_PAYLOAD_START then None
      else
        (let flags = buf ! OFFSET_FLAGS;
             bulk = (flags AND FLAG_BULK \<noteq> 0);
             tail = (if \<not> bulk \<and> length buf \<ge> GTF_BASE_SIZE + JITTER_MAX
                     then slice GTF_BASE_SIZE (GTF_BASE_SIZE + JITTER_MAX) buf else zeros JITTER_MAX)
         in Some \<lparr>gh_session_hash = slice 0 4 buf,
                  gh_counter = u64_be (slice V2_OFFSET_PACKET_COUNTER (V2_OFFSET_PACKET_COUNTER + 8) buf),
                  gh_epoch = u64_be (slice V2_OFFSET_RATCHET_EPOCH (V2_OFFSET_RATCHET_EPOCH + 8) buf),
                  gh_nonce = slice V2_OFFSET_NONCE (V2_OFFSET_NONCE + 12) buf,
                  gh_shard_index = buf ! OFFSET_SHARD_INDEX, gh_flags = flags AND NOT FLAG_V2,
                  gh_bulk = bulk, gh_tail = tail\<rparr>))"

definition parse_packet_counter :: "bytes \<Rightarrow> u32" where
  "parse_packet_counter buf =
     (if length buf < OFFSET_PACKET_COUNTER + 4 then 0
      else u32_be (slice OFFSET_PACKET_COUNTER (OFFSET_PACKET_COUNTER + 4) buf))"

definition parse_packet_counter_u64 :: "bytes \<Rightarrow> u64" where
  "parse_packet_counter_u64 buf =
     (case parse_gtf_v2_header buf of Some h \<Rightarrow> gh_counter h | None \<Rightarrow> ucast (parse_packet_counter buf))"

definition parse_session_hash :: "bytes \<Rightarrow> bytes" where
  "parse_session_hash buf = (if length buf < 4 then zeros 4 else slice 0 4 buf)"

definition parse_flags :: "bytes \<Rightarrow> u8" where
  "parse_flags buf = (if length buf > OFFSET_FLAGS then buf ! OFFSET_FLAGS else 0)"

definition extract_payload :: "bytes \<Rightarrow> bytes" where
  "extract_payload buf =
     (let (start, tag_start) =
        (if is_v2_frame buf
         then (V2_OFFSET_PAYLOAD_START,
               if is_bulk_frame buf then V2_BULK_OFFSET_AUTH_TAG_START else V2_OFFSET_AUTH_TAG_START)
         else if is_bulk_frame buf then (BULK_OFFSET_PAYLOAD_START, BULK_OFFSET_AUTH_TAG_START)
         else (OFFSET_PAYLOAD_START, OFFSET_AUTH_TAG_START))
      in if length buf \<le> start then [] else slice start (min tag_start (length buf)) buf)"

definition extract_auth_tag :: "bytes \<Rightarrow> bytes" where
  "extract_auth_tag buf =
     (let tag_start =
        (if is_v2_frame buf
         then (if is_bulk_frame buf then V2_BULK_OFFSET_AUTH_TAG_START else V2_OFFSET_AUTH_TAG_START)
         else if is_bulk_frame buf then BULK_OFFSET_AUTH_TAG_START else OFFSET_AUTH_TAG_START);
          tag_end = min (tag_start + 16) (length buf)
      in if tag_end \<ge> tag_start + 16 then slice tag_start tag_end buf else [])"

section \<open>Building a v2 frame\<close>

text \<open>The keystream that masks unused payload bytes: 8-byte chunks of a counter-based generator.\<close>

definition slack_seed :: "gtf_v2_header \<Rightarrow> u64" where
  "slack_seed h =
     gh_counter h XOR word_rotl 17 (gh_epoch h) XOR u64_le (slice 0 8 (gh_nonce h))
     XOR u64_le (slice 0 4 (gh_session_hash h) @ slice 8 12 (gh_nonce h))
     XOR u64_le (slice 0 8 (gh_tail h))
     XOR push_bit 40 (ucast (gh_shard_index h)) XOR 0x9E3779B97F4A7C15"

definition slack_chunk :: "u64 \<Rightarrow> bytes" where
  "slack_chunk seed =
     (let z = seed;
          z = (z XOR drop_bit 30 z) * 0xBF58476D1CE4E5B9;
          z = (z XOR drop_bit 27 z) * 0x94D049BB133111EB;
          z = z XOR drop_bit 31 z
      in le_u64 z)"

function slack_bytes :: "nat \<Rightarrow> u64 \<Rightarrow> bytes" where
  "slack_bytes n seed =
     (if n = 0 then []
      else let seed = seed + 0x9E3779B97F4A7C15
           in take n (slack_chunk seed) @ slack_bytes (n - 8) seed)"
  by pat_completeness auto
termination by (relation "measure fst") auto

definition try_build_gtf_v2_frame :: "gtf_v2_header \<Rightarrow> bytes \<Rightarrow> bytes \<Rightarrow> (bytes, string) rust" where
  "try_build_gtf_v2_frame h payload auth_tag =
     (let (total_len, tag_start, cap) =
        (if gh_bulk h then (GTF_BULK_SIZE, V2_BULK_OFFSET_AUTH_TAG_START, V2_MAX_BULK_PAYLOAD_LEN)
         else (GTF_BASE_SIZE, V2_OFFSET_AUTH_TAG_START, V2_MAX_PAYLOAD_LEN))
      in if length payload > cap then Err ''payload exceeds GTF v2 capacity''
         else
           (let packet = zeros total_len;
                packet = copy_at 0 (gh_session_hash h) packet;
                packet = copy_at 4 (zeros 4) packet;
                packet = packet[OFFSET_SHARD_INDEX := gh_shard_index h];
                packet = packet[OFFSET_FLAGS :=
                           FLAG_V2 OR (gh_flags h AND (FLAG_BULK OR FLAG_TUNNEL OR FLAG_DUMMY OR FLAG_SHARDSEC))
                           OR (if gh_bulk h then FLAG_BULK else 0)];
                packet = copy_at V2_OFFSET_PACKET_COUNTER (be_u64 (gh_counter h)) packet;
                packet = copy_at V2_OFFSET_RATCHET_EPOCH (be_u64 (gh_epoch h)) packet;
                packet = copy_at V2_OFFSET_NONCE (gh_nonce h) packet;
                packet = copy_at V2_OFFSET_PAYLOAD_START payload packet;
                slack_start = V2_OFFSET_PAYLOAD_START + length payload;
                packet = (if \<not> gh_bulk h \<and> length payload < cap
                          then copy_at slack_start (slack_bytes (tag_start - slack_start) (slack_seed h)) packet
                          else packet);
                packet = copy_at tag_start auth_tag packet;
                packet = (if \<not> gh_bulk h then packet @ gh_tail h else packet)
            in Ok packet))"

definition build_gtf_v2_frame :: "gtf_v2_header \<Rightarrow> bytes \<Rightarrow> bytes \<Rightarrow> (bytes, unit) rust" where
  "build_gtf_v2_frame h payload auth_tag =
     (case try_build_gtf_v2_frame h payload auth_tag of Ok p \<Rightarrow> Ok p | _ \<Rightarrow> Panic)"

section \<open>Building a v1 frame\<close>

definition try_build_bulk_frame :: "bytes \<Rightarrow> u32 \<Rightarrow> u8 \<Rightarrow> bytes \<Rightarrow> bytes \<Rightarrow> (bytes, string) rust" where
  "try_build_bulk_frame session_hash counter shard_index payload auth_tag =
     (if length payload > MAX_BULK_PAYLOAD_LEN then Err ''payload exceeds bulk frame capacity''
      else
        (let packet = zeros GTF_BULK_SIZE;
             packet = copy_at OFFSET_SESSION_HASH session_hash packet;
             packet = copy_at OFFSET_PACKET_COUNTER (be_u32 counter) packet;
             packet = packet[OFFSET_SHARD_INDEX := shard_index];
             packet = packet[OFFSET_FLAGS := 0x01];
             packet = copy_at BULK_OFFSET_PAYLOAD_START payload packet;
             packet = copy_at BULK_OFFSET_AUTH_TAG_START auth_tag packet
         in Ok packet))"

definition build_bulk_frame :: "bytes \<Rightarrow> u32 \<Rightarrow> u8 \<Rightarrow> bytes \<Rightarrow> bytes \<Rightarrow> (bytes, unit) rust" where
  "build_bulk_frame session_hash counter shard_index payload auth_tag =
     (case try_build_bulk_frame session_hash counter shard_index payload auth_tag of Ok p \<Rightarrow> Ok p | _ \<Rightarrow> Panic)"

text \<open>\<open>jitter\<close>: the random bytes appended, fewer than 64.\<close>

definition build_privacy_frame :: "bytes \<Rightarrow> bytes \<Rightarrow> u32 \<Rightarrow> u8 \<Rightarrow> bytes \<Rightarrow> bytes \<Rightarrow> (bytes, unit) rust" where
  "build_privacy_frame jitter session_hash counter shard_index payload auth_tag =
     (if length payload > MAX_PAYLOAD_LEN then build_bulk_frame session_hash counter shard_index payload auth_tag
      else
        (let packet = zeros GTF_BASE_SIZE;
             packet = copy_at OFFSET_SESSION_HASH session_hash packet;
             packet = copy_at OFFSET_PACKET_COUNTER (be_u32 counter) packet;
             packet = packet[OFFSET_SHARD_INDEX := shard_index];
             packet = packet[OFFSET_FLAGS := 0];
             packet = copy_at OFFSET_PAYLOAD_START payload packet;
             packet = copy_at OFFSET_AUTH_TAG_START auth_tag packet
         in Ok (packet @ jitter)))"

definition build_gtf_frame :: "bytes \<Rightarrow> bytes \<Rightarrow> u32 \<Rightarrow> u8 \<Rightarrow> bytes \<Rightarrow> bytes \<Rightarrow> bool \<Rightarrow> (bytes, unit) rust" where
  "build_gtf_frame jitter session_hash counter shard_index payload auth_tag bulk =
     (if bulk \<or> length payload > MAX_PAYLOAD_LEN
      then build_bulk_frame session_hash counter shard_index payload auth_tag
      else build_privacy_frame jitter session_hash counter shard_index payload auth_tag)"

section \<open>Lemmas\<close>

lemma length_slack_chunk [simp]: "length (slack_chunk s) = 8"
  by (simp add: slack_chunk_def Let_def)

lemma length_slack_bytes [simp, wire_simps]: "length (slack_bytes n s) = n"
proof (induction n s rule: slack_bytes.induct)
  case (1 n seed)
  then show ?case by (subst slack_bytes.simps) (simp add: Let_def min_def del: slack_bytes.simps)
qed

declare slack_bytes.simps [simp del]

text \<open>The header part of every v2 frame, whatever follows it.\<close>

definition header_ok :: "gtf_v2_header \<Rightarrow> bool" where
  "header_ok h \<longleftrightarrow> length (gh_session_hash h) = 4 \<and> length (gh_nonce h) = 12 \<and> length (gh_tail h) = 64"

definition wire_flags :: "gtf_v2_header \<Rightarrow> u8" where
  "wire_flags h = (FLAG_V2 OR (gh_flags h AND (FLAG_BULK OR FLAG_TUNNEL OR FLAG_DUMMY OR FLAG_SHARDSEC))
                           OR (if gh_bulk h then FLAG_BULK else 0))"

lemma v2_frame_fields:
  assumes "header_ok h" and "length tag = 16" and "length payload \<le> (if gh_bulk h then 1418 else 458)"
  obtains p where "try_build_gtf_v2_frame h payload tag = Ok p"
    and "length p = (if gh_bulk h then 1472 else 576)" and "slice 0 4 p = gh_session_hash h"
    and "p ! 8 = gh_shard_index h" and "p ! 9 = wire_flags h" and "slice 10 18 p = be_u64 (gh_counter h)"
    and "slice 18 26 p = be_u64 (gh_epoch h)" and "slice 26 38 p = gh_nonce h"
    and "slice 38 (38 + length payload) p = payload"
    and "slice (if gh_bulk h then 1456 else 496) (if gh_bulk h then 1472 else 512) p = tag"
    and "\<not> gh_bulk h \<longrightarrow> slice 512 576 p = gh_tail h"
proof -
  let ?n = "if gh_bulk h then 1472 else 512 :: nat" and ?t = "if gh_bulk h then 1456 else 496 :: nat"
  define hd where "hd = copy_at 38 payload (copy_at 26 (gh_nonce h) (copy_at 18 (be_u64 (gh_epoch h))
      (copy_at 10 (be_u64 (gh_counter h)) ((copy_at 4 (zeros 4) (copy_at 0 (gh_session_hash h) (zeros ?n)))
        [8 := gh_shard_index h, 9 := wire_flags h]))))"
  have l: "length (gh_session_hash h) = 4" "length (gh_nonce h) = 12" "length (gh_tail h) = 64"
    using assms(1) by (simp_all add: header_ok_def)
  have hd: "length hd = ?n" "slice 0 4 hd = gh_session_hash h" "hd ! 8 = gh_shard_index h" "hd ! 9 = wire_flags h"
    "slice 10 18 hd = be_u64 (gh_counter h)" "slice 18 26 hd = be_u64 (gh_epoch h)" "slice 26 38 hd = gh_nonce h"
    "slice 38 (38 + length payload) hd = payload"
    using l assms(3) by (auto simp: hd_def wire_simps)
  define bd where "bd = (if \<not> gh_bulk h \<and> length payload < 458
      then copy_at (38 + length payload) (slack_bytes (458 - length payload) (slack_seed h)) hd else hd)"
  have bd: "length bd = ?n" "slice 0 4 bd = gh_session_hash h" "bd ! 8 = gh_shard_index h" "bd ! 9 = wire_flags h"
    "slice 10 18 bd = be_u64 (gh_counter h)" "slice 18 26 bd = be_u64 (gh_epoch h)" "slice 26 38 bd = gh_nonce h"
    "slice 38 (38 + length payload) bd = payload"
    using hd by (simp_all add: bd_def wire_simps)
  define p where "p = copy_at ?t tag bd @ (if gh_bulk h then [] else gh_tail h)"
  have ok: "try_build_gtf_v2_frame h payload tag = Ok p"
    using assms(3)
    by (cases "gh_bulk h") (auto simp: try_build_gtf_v2_frame_def gtf_consts Let_def p_def bd_def hd_def wire_flags_def)
  show thesis
    by (rule that [OF ok]) (use bd l assms(2,3) in \<open>auto simp: p_def wire_simps nth_append slice_full\<close>)
qed

lemma and_128_bit: "(x AND 0x80 = (0 :: u8)) = (\<not> bit x 7)"
  using and_exp_eq_0_iff_not_bit [of x 7] by simp

lemma and_1_bit: "(x AND 0x01 = (0 :: u8)) = (\<not> bit x 0)"
  using and_exp_eq_0_iff_not_bit [of x 0] by simp

lemma caller_mask: "FLAG_BULK OR FLAG_TUNNEL OR FLAG_DUMMY OR FLAG_SHARDSEC = 0x0F"
  by (simp add: gtf_flags)

lemma wire_flags_alt: "wire_flags h = 0x80 OR (gh_flags h AND 0x0F) OR (if gh_bulk h then 1 else 0)"
  by (simp add: wire_flags_def caller_mask) (simp add: gtf_flags)

lemma bit_0F: "bit (0x0F :: u8) n = (n < 4)"
proof -
  have eq: "(0x0F :: u8) = mask 4" by (simp add: mask_eq_exp_minus_1)
  show ?thesis by (simp only: eq bit_mask_iff) auto
qed

lemma bit_80: "bit (0x80 :: u8) n = (n = 7)"
proof -
  have eq: "(0x80 :: u8) = 2 ^ 7" by simp
  show ?thesis by (simp only: eq bit_exp_iff) auto
qed

lemma wire_flags_bit:
  "bit (wire_flags h) n = (n = 7 \<or> bit (gh_flags h) n \<and> n < 4 \<or> gh_bulk h \<and> n = 0)"
  by (cases "gh_bulk h") (simp_all only: wire_flags_alt bit_or_iff bit_and_iff bit_0F bit_80 if_True if_False bit_0_eq bot_fun_def bit_1_iff, auto)

lemma wire_flags_bits:
  "bit (wire_flags h) 7" "bit (wire_flags h) 0 = (gh_bulk h \<or> bit (gh_flags h) 0)"
  "wire_flags h AND NOT FLAG_V2 = (gh_flags h AND 0x0F) OR (if gh_bulk h then 1 else 0)"
proof -
  show "bit (wire_flags h) 7" "bit (wire_flags h) 0 = (gh_bulk h \<or> bit (gh_flags h) 0)"
    by (auto simp: wire_flags_bit)
  have "bit (wire_flags h AND NOT FLAG_V2) n = bit ((gh_flags h AND 0x0F) OR (if gh_bulk h then 1 else 0)) n"
    if "n < 8" for n
  proof -
    have "bit (wire_flags h AND NOT FLAG_V2) n = ((bit (gh_flags h) n \<and> n < 4 \<or> gh_bulk h \<and> n = 0) \<and> n \<noteq> 7)"
      using that by (simp only: bit_and_iff bit_not_iff wire_flags_bit FLAG_V2_def bit_80) auto
    moreover have "bit ((gh_flags h AND 0x0F) OR (if gh_bulk h then 1 else 0)) n =
        (bit (gh_flags h) n \<and> n < 4 \<or> gh_bulk h \<and> n = 0)"
      by (cases "gh_bulk h") (simp_all only: bit_or_iff bit_and_iff bit_0F if_True if_False, auto simp: bit_1_iff)
    ultimately show ?thesis by auto
  qed
  then show "wire_flags h AND NOT FLAG_V2 = (gh_flags h AND 0x0F) OR (if gh_bulk h then 1 else 0)"
    by (intro bit_word_eqI) simp
qed

text \<open>The header a receiver gets back.\<close>

definition received_header :: "gtf_v2_header \<Rightarrow> gtf_v2_header" where
  "received_header h = h\<lparr>gh_flags := (gh_flags h AND 0x0F) OR (if gh_bulk h then 1 else 0),
     gh_tail := (if gh_bulk h then zeros 64 else gh_tail h)\<rparr>"

lemma v2_frame_reads:
  assumes "header_ok h" and "length tag = 16" and "length payload \<le> (if gh_bulk h then 1418 else 458)"
    and "bit (gh_flags h) 0 \<Longrightarrow> gh_bulk h"
  obtains p where "try_build_gtf_v2_frame h payload tag = Ok p"
    and "length p = (if gh_bulk h then 1472 else 576)" and "parse_gtf_v2_header p = Some (received_header h)"
    and "length (extract_payload p) = (if gh_bulk h then 1418 else 458)"
    and "take (length payload) (extract_payload p) = payload" and "extract_auth_tag p = tag"
    and "parse_session_hash p = gh_session_hash h" and "p ! 8 = gh_shard_index h"
    and "frame_tail p = (if gh_bulk h then [] else gh_tail h)"
proof -
  obtain p where p: "try_build_gtf_v2_frame h payload tag = Ok p"
    "length p = (if gh_bulk h then 1472 else 576)" "slice 0 4 p = gh_session_hash h"
    "p ! 8 = gh_shard_index h" "p ! 9 = wire_flags h" "slice 10 18 p = be_u64 (gh_counter h)"
    "slice 18 26 p = be_u64 (gh_epoch h)" "slice 26 38 p = gh_nonce h"
    "slice 38 (38 + length payload) p = payload"
    "slice (if gh_bulk h then 1456 else 496) (if gh_bulk h then 1472 else 512) p = tag"
    "\<not> gh_bulk h \<longrightarrow> slice 512 576 p = gh_tail h"
    by (rule v2_frame_fields [OF assms(1-3)])
  have v2: "is_v2_frame p" "is_bulk_frame p = gh_bulk h" "wire_flags h AND FLAG_BULK \<noteq> 0 \<longleftrightarrow> gh_bulk h"
    using p(2,5) wire_flags_bits assms(4)
    by (auto simp: is_v2_frame_def is_bulk_frame_def gtf_consts gtf_flags and_128_bit and_1_bit)
  have pay: "take (length payload) (slice 38 e p) = payload" if "38 + length payload \<le> e" for e
    using p(9) that by (simp add: slice_def min_absorb1)
  show thesis
  proof (rule that [OF p(1,2)])
    show "parse_gtf_v2_header p = Some (received_header h)"
      using p v2 wire_flags_bits(3) [of h]
      by (cases "gh_bulk h") (simp_all add: parse_gtf_v2_header_def gtf_consts Let_def received_header_def)
    show "length (extract_payload p) = (if gh_bulk h then 1418 else 458)"
      using p(2) v2 by (simp add: extract_payload_def gtf_consts)
    show "take (length payload) (extract_payload p) = payload"
      using p(2) v2 pay assms(3) by (cases "gh_bulk h") (simp_all add: extract_payload_def gtf_consts)
    show "extract_auth_tag p = tag"
      using p(2,10) v2 by (cases "gh_bulk h") (simp_all add: extract_auth_tag_def gtf_consts)
    show "parse_session_hash p = gh_session_hash h" using p(2,3) by (simp add: parse_session_hash_def)
    show "p ! 8 = gh_shard_index h" by (rule p(4))
    show "frame_tail p = (if gh_bulk h then [] else gh_tail h)"
      using p(2,11) v2 by (simp add: frame_tail_def gtf_consts)
  qed
qed

section \<open>Properties\<close>

text \<open>
  C12. A v2 frame of a well-formed header has one of two fixed sizes whatever the payload, and the
  receiver reads back exactly what was built: the header (with the caller flags and, for a privacy
  frame, the jitter tail), the payload at the front of the payload region, the tag, the session
  hash and the 64-bit counter; an oversize payload is refused with an error.
\<close>

theorem v2_frame_roundtrip:
  assumes "header_ok h" and "length tag = 16" and "bit (gh_flags h) 0 \<longrightarrow> gh_bulk h"
  shows "if length payload > (if gh_bulk h then 1418 else 458)
    then try_build_gtf_v2_frame h payload tag = Err ''payload exceeds GTF v2 capacity'' \<and>
         build_gtf_v2_frame h payload tag = Panic
    else \<exists>p. build_gtf_v2_frame h payload tag = Ok p \<and> length p = (if gh_bulk h then 1472 else 576) \<and>
      parse_gtf_v2_header p = Some (h\<lparr>gh_flags := (gh_flags h AND 0x0F) OR (if gh_bulk h then 1 else 0),
        gh_tail := (if gh_bulk h then zeros 64 else gh_tail h)\<rparr>) \<and>
      parse_packet_counter_u64 p = gh_counter h \<and> parse_session_hash p = gh_session_hash h \<and>
      take (length payload) (extract_payload p) = payload \<and> extract_auth_tag p = tag \<and>
      frame_tail p = (if gh_bulk h then [] else gh_tail h)"
proof (cases "length payload > (if gh_bulk h then 1418 else 458)")
  case True
  then show ?thesis
    by (cases "gh_bulk h") (simp_all add: try_build_gtf_v2_frame_def build_gtf_v2_frame_def gtf_consts)
next
  case False
  then obtain p where p: "try_build_gtf_v2_frame h payload tag = Ok p"
    "length p = (if gh_bulk h then 1472 else 576)" "parse_gtf_v2_header p = Some (received_header h)"
    "take (length payload) (extract_payload p) = payload" "extract_auth_tag p = tag"
    "parse_session_hash p = gh_session_hash h" "frame_tail p = (if gh_bulk h then [] else gh_tail h)"
    using v2_frame_reads [OF assms(1,2), of payload thesis] assms(3) by (auto simp: not_less)
  then have "build_gtf_v2_frame h payload tag = Ok p" by (simp add: build_gtf_v2_frame_def)
  moreover have "parse_packet_counter_u64 p = gh_counter h"
    using p(3) by (simp add: parse_packet_counter_u64_def received_header_def)
  ultimately show ?thesis using False p(2-7)
    by (simp only: if_False received_header_def) blast
qed

theorem v2_frame_roundtrip_witness:
  "\<exists>p. build_gtf_v2_frame \<lparr>gh_session_hash = [1, 2, 3, 4], gh_counter = 5, gh_epoch = 6, gh_nonce = zeros 12,
      gh_shard_index = 1, gh_flags = 2, gh_bulk = False, gh_tail = zeros 64\<rparr> [9, 9] (zeros 16) = Ok p \<and>
     length p = 576 \<and> parse_packet_counter_u64 p = 5 \<and> take 2 (extract_payload p) = [9, 9]"
proof -
  have "\<not> bit (2 :: u8) 0" by simp
  then show ?thesis
    using v2_frame_roundtrip [of "\<lparr>gh_session_hash = [1, 2, 3, 4], gh_counter = 5, gh_epoch = 6, gh_nonce = zeros 12,
      gh_shard_index = 1, gh_flags = 2, gh_bulk = False, gh_tail = zeros 64\<rparr>" "zeros 16" "[9, 9]"]
    by (simp add: header_ok_def) (metis length_Cons list.size(3) numeral_2_eq_2 One_nat_def)
qed

text \<open>
  The bulk bit is also a caller bit. A privacy header (\<open>bulk\<close> false) that carries it in \<open>flags\<close>
  is built with the 512-byte layout and marked as bulk: the receiver looks for the tag at 1456 and
  finds none, so the frame can never be opened.
\<close>

theorem bulk_caller_bit_loses_the_frame:
  assumes "header_ok h" and "length tag = 16" and "bit (gh_flags h) 0" and "\<not> gh_bulk h" and "length payload \<le> 458"
  shows "\<exists>p. try_build_gtf_v2_frame h payload tag = Ok p \<and> length p = 576 \<and> is_bulk_frame p \<and> extract_auth_tag p = []"
proof -
  have le: "length payload \<le> (if gh_bulk h then 1418 else 458)" using assms(4,5) by simp
  obtain p where p: "try_build_gtf_v2_frame h payload tag = Ok p"
    "length p = (if gh_bulk h then 1472 else 576)" "p ! 9 = wire_flags h"
    by (rule v2_frame_fields [OF assms(1,2) le])
  then have "is_bulk_frame p" "is_v2_frame p"
    using wire_flags_bits assms(3,4) by (auto simp: is_v2_frame_def is_bulk_frame_def gtf_consts gtf_flags and_128_bit and_1_bit)
  then show ?thesis using p assms(4) by (simp add: extract_auth_tag_def gtf_consts)
qed

lemma v1_bulk_fields:
  assumes "length sh = 4" and "length tag = 16" and "length payload \<le> 1446"
  obtains p where "build_bulk_frame sh c i payload tag = Ok p" and "length p = 1472" and "p ! 9 = 1"
    and "p ! 8 = i" and "slice 0 4 p = sh" and "slice 4 8 p = be_u32 c"
    and "slice 10 (10 + length payload) p = payload" and "slice 1456 1472 p = tag"
proof -
  define p where "p = copy_at 1456 tag (copy_at 10 payload ((copy_at 4 (be_u32 c) (copy_at 0 sh (zeros 1472)))[8 := i, 9 := 1]))"
  have ok: "build_bulk_frame sh c i payload tag = Ok p"
    using assms(3) by (simp add: build_bulk_frame_def try_build_bulk_frame_def gtf_consts Let_def p_def)
  show thesis by (rule that [OF ok]) (use assms in \<open>auto simp: p_def wire_simps\<close>)
qed

lemma v1_privacy_fields:
  assumes "length sh = 4" and "length tag = 16" and "length payload \<le> 486"
  obtains p where "build_privacy_frame j sh c i payload tag = Ok p" and "length p = 512 + length j" and "p ! 9 = 0"
    and "p ! 8 = i" and "slice 0 4 p = sh" and "slice 4 8 p = be_u32 c"
    and "slice 10 (10 + length payload) p = payload" and "slice 496 512 p = tag"
proof -
  define p where "p = copy_at 496 tag (copy_at 10 payload ((copy_at 4 (be_u32 c) (copy_at 0 sh (zeros 512)))[8 := i, 9 := 0])) @ j"
  have ok: "build_privacy_frame j sh c i payload tag = Ok p"
    using assms(3) by (simp add: build_privacy_frame_def gtf_consts Let_def p_def)
  show thesis by (rule that [OF ok]) (use assms in \<open>auto simp: p_def wire_simps nth_append\<close>)
qed

text \<open>
  A v1 frame is never read as v2, and its session hash, counter, payload and tag are read back;
  a payload over 486 bytes is silently carried by a bulk frame, and one over 1446 bytes panics.
\<close>

theorem v1_frame_roundtrip:
  assumes "length sh = 4" and "length tag = 16" and "length j < 64"
  shows "if length payload > 1446 then build_gtf_frame j sh c i payload tag bulk = Panic
    else \<exists>p. build_gtf_frame j sh c i payload tag bulk = Ok p \<and> parse_gtf_v2_header p = None \<and>
      (if bulk \<or> length payload > 486 then length p = 1472 else 512 \<le> length p \<and> length p < 576) \<and>
      parse_packet_counter_u64 p = ucast c \<and> parse_session_hash p = sh \<and>
      take (length payload) (extract_payload p) = payload \<and> extract_auth_tag p = tag"
proof -
  have v1: "is_v2_frame p = False" "is_bulk_frame p = (p ! 9 = 1)" if "p ! 9 = 0 \<or> p ! 9 = 1" "512 \<le> length p" for p
    using that by (auto simp: is_v2_frame_def is_bulk_frame_def gtf_consts gtf_flags)
  have reads: "parse_gtf_v2_header p = None \<and> parse_packet_counter_u64 p = ucast c \<and> parse_session_hash p = sh \<and>
      take (length payload) (extract_payload p) = payload \<and> extract_auth_tag p = tag"
    if "p ! 9 = 0 \<or> p ! 9 = 1" "length p \<ge> (if p ! 9 = 1 then 1472 else 512)" "slice 0 4 p = sh" "slice 4 8 p = be_u32 c"
      "slice 10 (10 + length payload) p = payload" "length payload \<le> (if p ! 9 = 1 then 1446 else 486)"
      "slice (if p ! 9 = 1 then 1456 else 496) (if p ! 9 = 1 then 1472 else 512) p = tag" for p
  proof -
    have l: "512 \<le> length p" using that(2) by (simp split: if_splits)
    have pay: "take (length payload) (slice 10 e p) = payload" if "10 + length payload \<le> e" for e
      using \<open>slice 10 (10 + length payload) p = payload\<close> that by (simp add: slice_def min_absorb1)
    show ?thesis using that v1 [OF that(1) l] l pay
      by (cases "p ! 9 = 1") (simp_all add: parse_gtf_v2_header_def parse_packet_counter_u64_def parse_packet_counter_def
          parse_session_hash_def extract_payload_def extract_auth_tag_def gtf_consts)
  qed
  consider "length payload > 1446" | "length payload \<le> 1446" "bulk \<or> length payload > 486"
    | "length payload \<le> 486" "\<not> bulk" by linarith
  then show ?thesis
  proof cases
    case 1
    then show ?thesis by (simp add: build_gtf_frame_def build_bulk_frame_def try_build_bulk_frame_def gtf_consts)
  next
    case 2
    obtain p where p: "build_bulk_frame sh c i payload tag = Ok p" "length p = 1472" "p ! 9 = 1" "slice 0 4 p = sh"
      "slice 4 8 p = be_u32 c" "slice 10 (10 + length payload) p = payload" "slice 1456 1472 p = tag"
      by (rule v1_bulk_fields [OF assms(1,2) 2(1)])
    then show ?thesis using 2 reads [of p]
      by (intro if_not_P [THEN iffD2] exI [of _ p]) (auto simp: build_gtf_frame_def gtf_consts)
  next
    case 3
    obtain p where p: "build_privacy_frame j sh c i payload tag = Ok p" "length p = 512 + length j" "p ! 9 = 0" "slice 0 4 p = sh"
      "slice 4 8 p = be_u32 c" "slice 10 (10 + length payload) p = payload" "slice 496 512 p = tag"
      by (rule v1_privacy_fields [OF assms(1,2) 3(1)])
    then show ?thesis using 3 reads [of p] assms(3)
      by (intro if_not_P [THEN iffD2] exI [of _ p]) (auto simp: build_gtf_frame_def gtf_consts)
  qed
qed

theorem v1_frame_roundtrip_witness:
  "\<exists>p. build_gtf_frame [7] [1, 2, 3, 4] 5 0 [8] (zeros 16) False = Ok p \<and> parse_gtf_v2_header p = None \<and>
     parse_packet_counter_u64 p = 5"
  using v1_frame_roundtrip [of "[1, 2, 3, 4]" "zeros 16" "[7]" "[8]" 5 0 False] by auto

text \<open>The v2 frame as a codec of its header: frames with equal bytes have equal received headers.\<close>

definition frame_bytes :: "gtf_v2_header \<times> bytes \<times> bytes \<Rightarrow> bytes" where
  "frame_bytes f = (case f of (h, payload, tag) \<Rightarrow> (case try_build_gtf_v2_frame h payload tag of Ok p \<Rightarrow> p | _ \<Rightarrow> []))"

definition frame_valid :: "gtf_v2_header \<times> bytes \<times> bytes \<Rightarrow> bool" where
  "frame_valid f = (case f of (h, payload, tag) \<Rightarrow> header_ok h \<and> length tag = 16 \<and>
     length payload \<le> (if gh_bulk h then 1418 else 458) \<and> (bit (gh_flags h) 0 \<longrightarrow> gh_bulk h))"

interpretation v2_codec: wire_codec frame_bytes parse_gtf_v2_header "\<lambda>f. received_header (fst f)" frame_valid
proof
  fix f :: "gtf_v2_header \<times> bytes \<times> bytes"
  assume v: "frame_valid f"
  obtain h payload tag where f: "f = (h, payload, tag)" by (metis prod_cases3)
  from v have "header_ok h" "length tag = 16" "length payload \<le> (if gh_bulk h then 1418 else 458)"
    "bit (gh_flags h) 0 \<Longrightarrow> gh_bulk h" unfolding frame_valid_def f prod.case by blast+
  then obtain p where "try_build_gtf_v2_frame h payload tag = Ok p" "parse_gtf_v2_header p = Some (received_header h)"
    by (rule v2_frame_reads)
  then show "parse_gtf_v2_header (frame_bytes f) = Some (received_header (fst f))"
    by (simp add: f frame_bytes_def)
qed

end
