(* ===== verification/Handshake.thy ===== *)
theory Handshake
  imports Crates "HOL-Library.Monad_Syntax"
begin

unbundle bit_operations_syntax

text \<open>
  L1, the hybrid handshake of src/src/ghost/layers/l1_kem.rs: cipher suites and their negotiation,
  the master-key derivations, presence proofs, and the handshake and response PDUs in their legacy,
  suite, uniform and negotiated forms. Key generation and encapsulation are calls into the
  x25519-dalek and ml-kem crates; random prefixes are arguments and signing is a callback, as in
  the code.
\<close>

section \<open>Suites\<close>

datatype hybrid_cipher_suite = X25519MlKem512V2 | X25519MlKem768V3

fun wire_id :: "hybrid_cipher_suite \<Rightarrow> u8" where
  "wire_id X25519MlKem512V2 = 1"
| "wire_id X25519MlKem768V3 = 2"

definition from_wire_id :: "u8 \<Rightarrow> hybrid_cipher_suite option" where
  "from_wire_id i = (if i = 1 then Some X25519MlKem512V2 else if i = 2 then Some X25519MlKem768V3 else None)"

fun hkdf_label :: "hybrid_cipher_suite \<Rightarrow> bytes" where
  "hkdf_label X25519MlKem512V2 = ascii ''GHOST_NET_MASTER_KEY_v2/X25519-MLKEM512''"
| "hkdf_label X25519MlKem768V3 = ascii ''GHOST_NET_MASTER_KEY_v3/X25519-MLKEM768''"

definition negotiate_cipher_suite :: "hybrid_cipher_suite list \<Rightarrow> u8 list \<Rightarrow> hybrid_cipher_suite option" where
  "negotiate_cipher_suite local remote_wire_ids =
     find (\<lambda>suite. suite \<in> set local \<and> wire_id suite \<in> set remote_wire_ids) [X25519MlKem768V3, X25519MlKem512V2]"

section \<open>Key derivation\<close>

definition psk_salt :: "bytes option \<Rightarrow> bytes" where
  "psk_salt psk = (case psk of Some key \<Rightarrow> key | None \<Rightarrow> zeros 32)"

definition derive_hybrid_master_key_with_suite ::
  "crates \<Rightarrow> hybrid_cipher_suite \<Rightarrow> bytes \<Rightarrow> bytes \<Rightarrow> bytes option \<Rightarrow> bytes" where
  "derive_hybrid_master_key_with_suite C suite x25519_shared kyber_shared psk =
     hkdf_sha256 C (psk_salt psk) (x25519_shared @ kyber_shared) (hkdf_label suite) 32"

definition derive_hybrid_master_key_with_psk :: "crates \<Rightarrow> bytes \<Rightarrow> bytes \<Rightarrow> bytes option \<Rightarrow> bytes" where
  "derive_hybrid_master_key_with_psk C x25519_shared kyber_shared psk =
     derive_hybrid_master_key_with_suite C X25519MlKem512V2 x25519_shared kyber_shared psk"

definition derive_hybrid_master_key :: "crates \<Rightarrow> bytes \<Rightarrow> bytes \<Rightarrow> bytes" where
  "derive_hybrid_master_key C x25519_shared kyber_shared = derive_hybrid_master_key_with_psk C x25519_shared kyber_shared None"

record presence_proof =
  pp_beacon_entropy_hash :: bytes
  pp_epoch_window :: u64

definition PRESENCE_DOMAIN :: bytes where "PRESENCE_DOMAIN = ascii ''GGN_PRESENT_TENSE_PROOF_V1''"

definition presence_new :: "crates \<Rightarrow> bytes \<Rightarrow> u64 \<Rightarrow> presence_proof" where
  "presence_new C beacon_entropy epoch_window =
     \<lparr>pp_beacon_entropy_hash = sha256 C (PRESENCE_DOMAIN @ be_u64 epoch_window @ beacon_entropy),
      pp_epoch_window = epoch_window\<rparr>"

definition presence_verify :: "crates \<Rightarrow> presence_proof \<Rightarrow> bytes \<Rightarrow> u64 \<Rightarrow> u64 \<Rightarrow> (unit, string) rust" where
  "presence_verify C proof expected_entropy current_epoch_window max_window_skew =
     (let w = pp_epoch_window proof;
          diff = (if w < current_epoch_window then current_epoch_window - w else w - current_epoch_window)
      in if diff > max_window_skew
         then Err ''presence proof epoch window out of bounds (replay or future claim)''
         else if pp_beacon_entropy_hash (presence_new C expected_entropy w) \<noteq> pp_beacon_entropy_hash proof
         then Err ''presence proof entropy mismatch (remote peer not co-present in epoch)''
         else Ok ())"

text \<open>The loop folds the 32-byte hash into the 32-byte salt, byte for byte.\<close>

definition derive_hybrid_master_key_with_presence ::
  "crates \<Rightarrow> hybrid_cipher_suite \<Rightarrow> bytes \<Rightarrow> bytes \<Rightarrow> bytes option \<Rightarrow> presence_proof option \<Rightarrow> bytes" where
  "derive_hybrid_master_key_with_presence C suite x25519_shared kyber_shared psk presence =
     (let base_salt = psk_salt psk;
          base_salt = (case presence of Some p \<Rightarrow> map2 (XOR) base_salt (pp_beacon_entropy_hash p) | None \<Rightarrow> base_salt);
          ikm = x25519_shared @ kyber_shared;
          ikm = (case presence of Some p \<Rightarrow> ikm @ be_u64 (pp_epoch_window p) | None \<Rightarrow> ikm)
      in hkdf_sha256 C base_salt ikm (hkdf_label suite) 32)"

definition HYBRID_BIND_LABEL :: bytes where "HYBRID_BIND_LABEL = ascii ''GHOST_NET_HYBRID_BIND_v2''"

definition transcript_ikm :: "bytes \<Rightarrow> bytes \<Rightarrow> bytes \<Rightarrow> bytes \<Rightarrow> bytes \<Rightarrow> bytes \<Rightarrow> bytes \<Rightarrow> bytes" where
  "transcript_ikm x25519_shared kyber_shared initiator_x_pub responder_x_pub kyber_ct initiator_pq responder_pq =
     HYBRID_BIND_LABEL @ x25519_shared @ kyber_shared @ initiator_x_pub @ responder_x_pub @ kyber_ct @
     initiator_pq @ responder_pq"

definition derive_hybrid_master_key_with_transcript ::
  "crates \<Rightarrow> hybrid_cipher_suite \<Rightarrow> bytes \<Rightarrow> bytes \<Rightarrow> bytes option \<Rightarrow> bytes \<Rightarrow> bytes \<Rightarrow> bytes \<Rightarrow> bytes \<Rightarrow> bytes \<Rightarrow> bytes" where
  "derive_hybrid_master_key_with_transcript C suite x25519_shared kyber_shared psk initiator_x_pub responder_x_pub
     kyber_ct initiator_pq_commitment responder_pq_commitment =
     hkdf_sha256 C (psk_salt psk)
       (transcript_ikm x25519_shared kyber_shared initiator_x_pub responder_x_pub kyber_ct
          initiator_pq_commitment responder_pq_commitment) (hkdf_label suite) 32"

text \<open>Encapsulation and decapsulation; \<open>r\<close> is the encapsulation's randomness.\<close>

definition kyber_encapsulate :: "crates \<Rightarrow> bytes \<Rightarrow> bytes \<Rightarrow> (bytes \<times> bytes, string) rust" where
  "kyber_encapsulate C r peer_pk =
     (case mlkem_encapsulate C r peer_pk of Some v \<Rightarrow> Ok v | None \<Rightarrow> Err ''Invalid Kyber public key'')"

definition kyber768_encapsulate :: "crates \<Rightarrow> bytes \<Rightarrow> bytes \<Rightarrow> (bytes \<times> bytes, string) rust" where
  "kyber768_encapsulate C r peer_pk =
     (case mlkem768_encapsulate C r peer_pk of Some v \<Rightarrow> Ok v | None \<Rightarrow> Err ''Invalid ML-KEM-768 public key'')"

definition kyber768_decapsulate :: "crates \<Rightarrow> bytes \<Rightarrow> bytes \<Rightarrow> (bytes, string) rust" where
  "kyber768_decapsulate C secret_key ciphertext =
     (if length ciphertext \<noteq> 1088 then Err ''Invalid ML-KEM-768 ciphertext''
      else Ok (mlkem768_decapsulate C secret_key ciphertext))"

section \<open>Legacy PDUs\<close>

definition HANDSHAKE_BLOB_LEN :: nat where "HANDSHAKE_BLOB_LEN = 944"
definition RESPONSE_BLOB_LEN :: nat where "RESPONSE_BLOB_LEN = 912"
definition HANDSHAKE_MAGIC :: bytes where "HANDSHAKE_MAGIC = ascii ''GHOST_HANDSHAKE_''"
definition RESPONSE_MAGIC :: bytes where "RESPONSE_MAGIC = ascii ''GHOST_RESPONSE__''"
definition HANDSHAKE_V3_MAGIC :: bytes where "HANDSHAKE_V3_MAGIC = ascii ''GHOST_HS_V3_____''"
definition RESPONSE_V3_MAGIC :: bytes where "RESPONSE_V3_MAGIC = ascii ''GHOST_RSP_V3____''"

record handshake_blob =
  hb_x25519_pub :: bytes
  hb_kyber_pub :: bytes
  hb_identity_pk :: bytes
  hb_signature :: bytes

record response_blob =
  rp_x25519_pub :: bytes
  rp_kyber_ct :: bytes
  rp_identity_pk :: bytes
  rp_signature :: bytes

definition build_handshake_pdu :: "bytes \<Rightarrow> (bytes \<Rightarrow> bytes) \<Rightarrow> bytes \<Rightarrow> bytes \<Rightarrow> bytes" where
  "build_handshake_pdu identity_pk identity_sign x_pub kyber_pub =
     (let pdu = zeros HANDSHAKE_BLOB_LEN;
          pdu = copy_at 0 HANDSHAKE_MAGIC pdu;
          pdu = copy_at 16 x_pub pdu;
          pdu = copy_at 48 kyber_pub pdu;
          pdu = copy_at 848 identity_pk pdu;
          signed_material = copy_at 32 kyber_pub (copy_at 0 x_pub (zeros 832));
          sig = identity_sign signed_material
      in copy_at 880 sig pdu)"

definition read_handshake :: "bytes \<Rightarrow> handshake_blob" where
  "read_handshake data =
     \<lparr>hb_x25519_pub = slice 16 48 data, hb_kyber_pub = slice 48 848 data, hb_identity_pk = slice 848 880 data,
      hb_signature = slice 880 944 data\<rparr>"

definition parse_handshake_pdu :: "bytes \<Rightarrow> handshake_blob option" where
  "parse_handshake_pdu data =
     (if length data < HANDSHAKE_BLOB_LEN \<or> \<not> starts_with HANDSHAKE_MAGIC data then None
      else Some (read_handshake data))"

definition build_response_pdu :: "bytes \<Rightarrow> (bytes \<Rightarrow> bytes) \<Rightarrow> bytes \<Rightarrow> bytes \<Rightarrow> bytes" where
  "build_response_pdu responder_identity_pk responder_sign x_pub_bytes ct_bytes =
     (let pdu = zeros RESPONSE_BLOB_LEN;
          pdu = copy_at 0 RESPONSE_MAGIC pdu;
          pdu = copy_at 16 x_pub_bytes pdu;
          pdu = copy_at 48 ct_bytes pdu;
          pdu = copy_at 816 responder_identity_pk pdu;
          signed_material = copy_at 32 ct_bytes (copy_at 0 x_pub_bytes (zeros 800));
          sig = responder_sign signed_material
      in copy_at 848 sig pdu)"

definition read_response :: "bytes \<Rightarrow> response_blob" where
  "read_response data =
     \<lparr>rp_x25519_pub = slice 16 48 data, rp_kyber_ct = slice 48 816 data, rp_identity_pk = slice 816 848 data,
      rp_signature = slice 848 912 data\<rparr>"

definition parse_response_pdu :: "bytes \<Rightarrow> response_blob option" where
  "parse_response_pdu data =
     (if length data < RESPONSE_BLOB_LEN \<or> \<not> starts_with RESPONSE_MAGIC data then None
      else Some (read_response data))"

text \<open>The uniform form: a random prefix in place of the magic, and everything before the signature signed.\<close>

definition build_uniform_handshake_pdu :: "bytes \<Rightarrow> bytes \<Rightarrow> (bytes \<Rightarrow> bytes) \<Rightarrow> bytes \<Rightarrow> bytes \<Rightarrow> bytes" where
  "build_uniform_handshake_pdu prefix identity_pk identity_sign x_pub kyber_pub =
     (let pdu = copy_at 0 prefix (zeros HANDSHAKE_BLOB_LEN);
          pdu = copy_at 16 x_pub pdu;
          pdu = copy_at 48 kyber_pub pdu;
          pdu = copy_at 848 identity_pk pdu;
          sig = identity_sign (take 880 pdu)
      in copy_at 880 sig pdu)"

definition parse_uniform_handshake_pdu :: "bytes \<Rightarrow> handshake_blob option" where
  "parse_uniform_handshake_pdu data =
     (if length data < HANDSHAKE_BLOB_LEN then None else Some (read_handshake data))"

definition uniform_handshake_signed_material :: "bytes \<Rightarrow> bytes option" where
  "uniform_handshake_signed_material data = (if length data < HANDSHAKE_BLOB_LEN then None else Some (take 880 data))"

definition build_uniform_response_pdu :: "bytes \<Rightarrow> bytes \<Rightarrow> (bytes \<Rightarrow> bytes) \<Rightarrow> bytes \<Rightarrow> bytes \<Rightarrow> bytes" where
  "build_uniform_response_pdu prefix responder_identity_pk responder_sign x_pub_bytes ct_bytes =
     (let pdu = copy_at 0 prefix (zeros RESPONSE_BLOB_LEN);
          pdu = copy_at 16 x_pub_bytes pdu;
          pdu = copy_at 48 ct_bytes pdu;
          pdu = copy_at 816 responder_identity_pk pdu;
          sig = responder_sign (take 848 pdu)
      in copy_at 848 sig pdu)"

definition parse_uniform_response_pdu :: "bytes \<Rightarrow> response_blob option" where
  "parse_uniform_response_pdu data =
     (if length data < RESPONSE_BLOB_LEN then None else Some (read_response data))"

definition uniform_response_signed_material :: "bytes \<Rightarrow> bytes option" where
  "uniform_response_signed_material data = (if length data < RESPONSE_BLOB_LEN then None else Some (take 848 data))"

section \<open>Suite PDUs\<close>

record suite_handshake_blob =
  sh_suite :: hybrid_cipher_suite
  sh_x25519_pub :: bytes
  sh_kyber_pub :: bytes
  sh_identity_pk :: bytes
  sh_signature :: bytes

record suite_response_blob =
  sr_suite :: hybrid_cipher_suite
  sr_x25519_pub :: bytes
  sr_kyber_ct :: bytes
  sr_identity_pk :: bytes
  sr_signature :: bytes

fun suite_key_len :: "hybrid_cipher_suite \<Rightarrow> nat" where
  "suite_key_len X25519MlKem512V2 = 800"
| "suite_key_len X25519MlKem768V3 = 1184"

fun suite_ct_len :: "hybrid_cipher_suite \<Rightarrow> nat" where
  "suite_ct_len X25519MlKem512V2 = 768"
| "suite_ct_len X25519MlKem768V3 = 1088"

definition build_handshake_pdu_suite ::
  "hybrid_cipher_suite \<Rightarrow> bytes \<Rightarrow> (bytes \<Rightarrow> bytes) \<Rightarrow> bytes \<Rightarrow> bytes \<Rightarrow> bytes option" where
  "build_handshake_pdu_suite suite identity_pk identity_sign x_pub kyber_pub =
     (if length kyber_pub \<noteq> suite_key_len suite then None
      else
        (let material = [wire_id suite] @ x_pub @ kyber_pub @ identity_pk;
             sig = identity_sign material
         in Some (HANDSHAKE_V3_MAGIC @ [wire_id suite] @ x_pub @ kyber_pub @ identity_pk @ sig)))"

definition parse_handshake_pdu_suite :: "bytes \<Rightarrow> suite_handshake_blob option" where
  "parse_handshake_pdu_suite data =
     (if length data < 16 + 1 + 32 + 32 + 64 \<or> \<not> starts_with HANDSHAKE_V3_MAGIC data then None
      else do {
        suite \<leftarrow> from_wire_id (data ! 16);
        let pk_len = suite_key_len suite;
        let total_len = 16 + 1 + 32 + pk_len + 32 + 64;
        let pk_start = 49;
        if length data \<noteq> total_len then None
        else Some \<lparr>sh_suite = suite, sh_x25519_pub = slice 17 49 data,
                   sh_kyber_pub = slice pk_start (pk_start + pk_len) data,
                   sh_identity_pk = slice (pk_start + pk_len) (pk_start + pk_len + 32) data,
                   sh_signature = drop (pk_start + pk_len + 32) data\<rparr>
      })"

definition build_response_pdu_suite ::
  "hybrid_cipher_suite \<Rightarrow> bytes \<Rightarrow> (bytes \<Rightarrow> bytes) \<Rightarrow> bytes \<Rightarrow> bytes \<Rightarrow> bytes option" where
  "build_response_pdu_suite suite identity_pk identity_sign x_pub_bytes ct_bytes =
     (if length ct_bytes \<noteq> suite_ct_len suite then None
      else
        (let material = [wire_id suite] @ x_pub_bytes @ ct_bytes @ identity_pk;
             sig = identity_sign material
         in Some (RESPONSE_V3_MAGIC @ [wire_id suite] @ x_pub_bytes @ ct_bytes @ identity_pk @ sig)))"

definition parse_response_pdu_suite :: "bytes \<Rightarrow> suite_response_blob option" where
  "parse_response_pdu_suite data =
     (if length data < 16 + 1 + 32 + 32 + 64 \<or> \<not> starts_with RESPONSE_V3_MAGIC data then None
      else do {
        suite \<leftarrow> from_wire_id (data ! 16);
        let ct_len = suite_ct_len suite;
        let total_len = 16 + 1 + 32 + ct_len + 32 + 64;
        let ct_start = 49;
        if length data \<noteq> total_len then None
        else Some \<lparr>sr_suite = suite, sr_x25519_pub = slice 17 49 data,
                   sr_kyber_ct = slice ct_start (ct_start + ct_len) data,
                   sr_identity_pk = slice (ct_start + ct_len) (ct_start + ct_len + 32) data,
                   sr_signature = drop (ct_start + ct_len + 32) data\<rparr>
      })"

section \<open>Negotiated PDUs\<close>

definition HANDSHAKE_NEGOTIATION_MAGIC :: bytes where "HANDSHAKE_NEGOTIATION_MAGIC = ascii ''GHOST_HS_NEG_V7_''"
definition RESPONSE_NEGOTIATION_MAGIC :: bytes where "RESPONSE_NEGOTIATION_MAGIC = ascii ''GHOST_RSP_NEG_V7''"

record negotiated_handshake_blob =
  nh_supported :: "hybrid_cipher_suite list"
  nh_x25519_pub :: bytes
  nh_kyber_keys :: "(hybrid_cipher_suite \<times> bytes) list"
  nh_identity_pk :: bytes
  nh_pq_commitment :: bytes
  nh_signature :: bytes

record negotiated_response_blob =
  nr_suite :: hybrid_cipher_suite
  nr_x25519_pub :: bytes
  nr_kyber_ct :: bytes
  nr_identity_pk :: bytes
  nr_pq_commitment :: bytes
  nr_signature :: bytes

definition key_entry :: "hybrid_cipher_suite \<Rightarrow> bytes \<Rightarrow> bytes" where
  "key_entry suite key = [wire_id suite] @ be_u16 (of_nat (length key)) @ key"

text \<open>The loop over the advertised suites.\<close>

fun key_entries :: "(hybrid_cipher_suite \<times> bytes) list \<Rightarrow> hybrid_cipher_suite list \<Rightarrow> bytes option" where
  "key_entries kyber_keys [] = Some []"
| "key_entries kyber_keys (suite # suites) =
     (case map_of kyber_keys suite of
        None \<Rightarrow> None
      | Some key \<Rightarrow>
          if length key \<noteq> suite_key_len suite then None
          else map_option (\<lambda>rest. key_entry suite key @ rest) (key_entries kyber_keys suites))"

definition negotiation_material ::
  "hybrid_cipher_suite list \<Rightarrow> bytes \<Rightarrow> (hybrid_cipher_suite \<times> bytes) list \<Rightarrow> bytes \<Rightarrow> bytes \<Rightarrow> bytes option" where
  "negotiation_material supported x25519_pub kyber_keys identity_pk pq_commitment =
     (if supported = [] \<or> length supported > 2 \<or> length kyber_keys \<noteq> length supported then None
      else do {
        keys \<leftarrow> key_entries kyber_keys supported;
        Some (HANDSHAKE_NEGOTIATION_MAGIC @ [of_nat (length supported)] @ map wire_id supported @ x25519_pub @ keys @
              identity_pk @ pq_commitment @ [0x00])
      })"

definition build_negotiated_handshake_pdu ::
  "hybrid_cipher_suite list \<Rightarrow> bytes \<Rightarrow> bytes \<Rightarrow> (bytes \<Rightarrow> bytes) \<Rightarrow> bytes \<Rightarrow>
   (hybrid_cipher_suite \<times> bytes) list \<Rightarrow> bytes option" where
  "build_negotiated_handshake_pdu supported identity_pk pq_commitment identity_sign x_pub kyber_keys = do {
     material \<leftarrow> negotiation_material supported x_pub kyber_keys identity_pk pq_commitment;
     Some (material @ identity_sign material)
   }"

fun parse_suites :: "bytes \<Rightarrow> nat \<Rightarrow> nat \<Rightarrow> hybrid_cipher_suite list \<Rightarrow> (hybrid_cipher_suite list \<times> nat) option" where
  "parse_suites data 0 at supported = Some (supported, at)"
| "parse_suites data (Suc n) at supported = do {
     b \<leftarrow> get_at data at;
     suite \<leftarrow> from_wire_id b;
     if suite \<in> set supported then None else parse_suites data n (at + 1) (supported @ [suite])
   }"

fun parse_keys ::
  "bytes \<Rightarrow> nat \<Rightarrow> nat \<Rightarrow> (hybrid_cipher_suite \<times> bytes) list \<Rightarrow> ((hybrid_cipher_suite \<times> bytes) list \<times> nat) option" where
  "parse_keys data 0 at kyber_keys = Some (kyber_keys, at)"
| "parse_keys data (Suc n) at kyber_keys = do {
     b \<leftarrow> get_at data at;
     suite \<leftarrow> from_wire_id b;
     l \<leftarrow> get_range data (at + 1) (at + 3);
     let len2 = unat (u16_be l);
     if len2 \<noteq> suite_key_len suite \<or> suite \<in> fst ` set kyber_keys then None
     else do {
       key \<leftarrow> get_range data (at + 3) (at + 3 + len2);
       parse_keys data n (at + 3 + len2) (kyber_keys @ [(suite, key)])
     }
   }"

text \<open>The reserved byte: the offset of the signature, if the length fits.\<close>

definition signature_at :: "bytes \<Rightarrow> nat \<Rightarrow> bool \<Rightarrow> nat \<Rightarrow> nat option" where
  "signature_at data len allow_reserved at =
     (if at < len \<and> data ! at = 0x00
      then (if \<not> allow_reserved \<or> len \<noteq> at + 1 + 64 then None else Some (at + 1))
      else if len \<noteq> at + 64 then None else Some at)"

definition try_parse :: "bytes \<Rightarrow> nat \<Rightarrow> bool \<Rightarrow> negotiated_handshake_blob option" where
  "try_parse data len allow_reserved =
     (let r = (if allow_reserved then 1 else 0)
      in if len < 16 + 1 + 32 + 32 + 32 + 64 + r \<or> \<not> starts_with HANDSHAKE_NEGOTIATION_MAGIC data then None
         else
           (let count = unat (data ! 16)
            in if count = 0 \<or> count > 2 \<or> len \<le> 17 + 32 + 32 + 64 + r then None
               else do {
                 (supported, at) \<leftarrow> parse_suites data count 17 [];
                 x25519_pub \<leftarrow> get_range data at (at + 32);
                 (kyber_keys, at) \<leftarrow> parse_keys data count (at + 32) [];
                 identity_pk \<leftarrow> get_range data at (at + 32);
                 pq_commitment \<leftarrow> get_range data (at + 32) (at + 64);
                 at \<leftarrow> signature_at data len allow_reserved (at + 64);
                 signature \<leftarrow> get_range data at (at + 64);
                 if at + 64 \<noteq> len \<or> map fst kyber_keys \<noteq> supported then None
                 else Some \<lparr>nh_supported = supported, nh_x25519_pub = x25519_pub, nh_kyber_keys = kyber_keys,
                            nh_identity_pk = identity_pk, nh_pq_commitment = pq_commitment, nh_signature = signature\<rparr>
               }))"

definition parse_negotiated_handshake_pdu :: "bytes \<Rightarrow> negotiated_handshake_blob option" where
  "parse_negotiated_handshake_pdu data =
     (case try_parse data (length data) True of
        Some blob \<Rightarrow> Some blob
      | None \<Rightarrow>
          (case try_parse data (length data) False of
             Some blob \<Rightarrow> Some blob
           | None \<Rightarrow>
               if length data mod 2 = 0 \<and> (data \<noteq> [] \<and> last data = 0x00) \<and> length data > 1
               then try_parse data (length data - 1) False else None))"

definition response_material :: "hybrid_cipher_suite \<Rightarrow> bytes \<Rightarrow> bytes \<Rightarrow> bytes \<Rightarrow> bytes \<Rightarrow> bytes option" where
  "response_material suite x25519_pub kyber_ct identity_pk pq_commitment =
     (if length kyber_ct \<noteq> suite_ct_len suite then None
      else Some (RESPONSE_NEGOTIATION_MAGIC @ [wire_id suite] @ x25519_pub @ kyber_ct @ identity_pk @ pq_commitment))"

definition build_negotiated_response_pdu ::
  "hybrid_cipher_suite \<Rightarrow> bytes \<Rightarrow> bytes \<Rightarrow> (bytes \<Rightarrow> bytes) \<Rightarrow> bytes \<Rightarrow> bytes \<Rightarrow> bytes option" where
  "build_negotiated_response_pdu suite identity_pk pq_commitment identity_sign x_pub_bytes ct_bytes = do {
     out \<leftarrow> response_material suite x_pub_bytes ct_bytes identity_pk pq_commitment;
     Some (out @ identity_sign out)
   }"

definition negotiated_response_len :: "hybrid_cipher_suite \<Rightarrow> nat" where
  "negotiated_response_len suite = 16 + 1 + 32 + suite_ct_len suite + 32 + 32 + 64"

definition parse_negotiated_response_pdu :: "bytes \<Rightarrow> negotiated_response_blob option" where
  "parse_negotiated_response_pdu data =
     (if length data < 16 + 1 + 32 + 32 + 32 + 64 \<or> \<not> starts_with RESPONSE_NEGOTIATION_MAGIC data then None
      else do {
        suite \<leftarrow> from_wire_id (data ! 16);
        let ct_start = 49;
        let ct_len = suite_ct_len suite;
        let identity_start = ct_start + ct_len;
        let pq_start = identity_start + 32;
        let total_len = negotiated_response_len suite;
        if length data < total_len \<or> length data > total_len + 1 then None
        else Some \<lparr>nr_suite = suite, nr_x25519_pub = slice 17 49 data,
                   nr_kyber_ct = slice ct_start identity_start data,
                   nr_identity_pk = slice identity_start pq_start data,
                   nr_pq_commitment = slice pq_start (pq_start + 32) data,
                   nr_signature = slice (pq_start + 32) (pq_start + 32 + 64) data\<rparr>
      })"

section \<open>Suites: lemmas\<close>

lemma from_wire_id_iff: "from_wire_id b = Some s \<longleftrightarrow> b = wire_id s"
  by (cases s) (auto simp: from_wire_id_def)

lemma from_wire_id_wire_id [simp]: "from_wire_id (wire_id s) = Some s"
  by (simp add: from_wire_id_iff)

lemma suite_lens [simp]: "suite_key_len s < 65536" "0 < suite_key_len s"
  by (cases s; simp)+

lemma length_negotiation_magics [simp]:
  "length HANDSHAKE_NEGOTIATION_MAGIC = 16" "length RESPONSE_NEGOTIATION_MAGIC = 16"
  "length HANDSHAKE_V3_MAGIC = 16" "length RESPONSE_V3_MAGIC = 16" "length HANDSHAKE_MAGIC = 16"
  "length RESPONSE_MAGIC = 16"
  by (simp_all add: HANDSHAKE_NEGOTIATION_MAGIC_def RESPONSE_NEGOTIATION_MAGIC_def HANDSHAKE_V3_MAGIC_def
      RESPONSE_V3_MAGIC_def HANDSHAKE_MAGIC_def RESPONSE_MAGIC_def)

section \<open>The offer parser\<close>

text \<open>What the two loops read, as a prefix of the rest of the input.\<close>

definition entries :: "(hybrid_cipher_suite \<times> bytes) list \<Rightarrow> bytes" where
  "entries ks = concat (map (\<lambda>(s, k). key_entry s k) ks)"

definition keys_ok :: "(hybrid_cipher_suite \<times> bytes) list \<Rightarrow> bool" where
  "keys_ok ks \<longleftrightarrow> (\<forall>(s, k) \<in> set ks. length k = suite_key_len s)"

lemma entries_simps [simp]: "entries [] = []" "entries ((s, k) # ks) = key_entry s k @ entries ks"
  by (simp_all add: entries_def)

lemma keys_ok_simps [simp]:
  "keys_ok []" "keys_ok ((s, k) # ks) \<longleftrightarrow> length k = suite_key_len s \<and> keys_ok ks"
  by (auto simp: keys_ok_def)

lemma length_key_entry [simp]: "length (key_entry s k) = 3 + length k"
  by (simp add: key_entry_def)

lemma get_at_iff: "get_at xs i = Some v \<longleftrightarrow> take 1 (drop i xs) = [v]"
  by (auto simp: get_at_def take_Suc hd_drop_conv_nth)

lemma get_range_pos_iff:
  "0 < n \<Longrightarrow> get_range xs a (a + n) = Some v \<longleftrightarrow> take n (drop a xs) = v \<and> length v = n"
  by (auto simp: get_range_def slice_def min_def split: if_splits)

lemma get_range_iff: "get_range xs a (a + n) = Some v \<longleftrightarrow> take n (drop a xs) = v \<and> length v = n \<and> a + n \<le> length xs"
  by (auto simp: get_range_def slice_def)

lemma take_append_iff:
  "take (length u + length v) (drop a xs) = u @ v \<longleftrightarrow>
     take (length u) (drop a xs) = u \<and> take (length v) (drop (a + length u) xs) = v"
proof
  assume L: "take (length u + length v) (drop a xs) = u @ v"
  show "take (length u) (drop a xs) = u \<and> take (length v) (drop (a + length u) xs) = v"
    using arg_cong [OF L, of "take (length u)"] arg_cong [OF L, of "drop (length u)"]
    by (simp add: min_def drop_take add.commute split: if_splits)
next
  assume "take (length u) (drop a xs) = u \<and> take (length v) (drop (a + length u) xs) = v"
  then show "take (length u + length v) (drop a xs) = u @ v" by (simp add: take_add add.commute)
qed

lemma u16_be_iff:
  assumes "n < 65536"
  shows "length l = 2 \<and> unat (u16_be l) = n \<longleftrightarrow> l = be_u16 (of_nat n)"
proof
  assume L: "length l = 2 \<and> unat (u16_be l) = n"
  then have "nat_be l < 65536" using nat_be_less [of l] by simp
  then show "l = be_u16 (of_nat n)"
    using L be_nat_nat_be [of l 2] by (auto simp: u16_be_def be_u16_def unat_of_nat)
qed (use assms in \<open>simp add: unat_of_nat\<close>)

lemma ex_length_Suc:
  "(\<exists>xs. length xs = Suc n \<and> P xs) \<longleftrightarrow> (\<exists>x xs. length (x # xs) = Suc n \<and> P (x # xs))"
  by (auto simp: length_Suc_conv)

lemma parse_suites_iff:
  "parse_suites data n at acc = Some (ss', at') \<longleftrightarrow>
     (\<exists>ss. length ss = n \<and> ss' = acc @ ss \<and> at' = at + n \<and> distinct ss \<and> set ss \<inter> set acc = {} \<and>
        take n (drop at data) = map wire_id ss)"
proof (induction n arbitrary: at acc)
  case (Suc n)
  show ?case
  proof (cases "at < length data")
    case True
    then have d: "drop at data = data ! at # drop (Suc at) data" by (rule Cons_nth_drop_Suc [symmetric])
    have "parse_suites data (Suc n) at acc = Some (ss', at') \<longleftrightarrow>
        (\<exists>s. data ! at = wire_id s \<and> s \<notin> set acc \<and> parse_suites data n (at + 1) (acc @ [s]) = Some (ss', at'))"
      using True by (auto simp: get_at_def bind_eq_Some_conv from_wire_id_iff)
    also have "\<dots> \<longleftrightarrow> (\<exists>s ss. data ! at = wire_id s \<and> s \<notin> set acc \<and> ss' = acc @ s # ss \<and> length ss = n \<and>
        at' = at + Suc n \<and> distinct ss \<and> set ss \<inter> set (acc @ [s]) = {} \<and> take n (drop (Suc at) data) = map wire_id ss)"
      by (auto simp: Suc.IH)
    also have "\<dots> \<longleftrightarrow> (\<exists>s ss. length (s # ss) = Suc n \<and> ss' = acc @ s # ss \<and> at' = at + Suc n \<and> distinct (s # ss) \<and>
        set (s # ss) \<inter> set acc = {} \<and> take (Suc n) (drop at data) = map wire_id (s # ss))"
      unfolding d by (intro ex_cong1) auto
    also have "\<dots> \<longleftrightarrow> (\<exists>ss. length ss = Suc n \<and> ss' = acc @ ss \<and> at' = at + Suc n \<and> distinct ss \<and>
        set ss \<inter> set acc = {} \<and> take (Suc n) (drop at data) = map wire_id ss)"
      by (simp only: ex_length_Suc)
    finally show ?thesis .
  next
    case False
    then show ?thesis by (auto simp: get_at_def)
  qed
qed auto

lemma parse_keys_iff:
  "parse_keys data n at acc = Some (ks', at') \<longleftrightarrow>
     (\<exists>ks. length ks = n \<and> ks' = acc @ ks \<and> at' = at + length (entries ks) \<and> distinct (map fst ks) \<and>
        fst ` set ks \<inter> fst ` set acc = {} \<and> keys_ok ks \<and> take (length (entries ks)) (drop at data) = entries ks)"
proof (induction n arbitrary: at acc)
  case (Suc n)
  define here where "here s k \<longleftrightarrow> take (3 + length k) (drop at data) = key_entry s k \<and> length k = suite_key_len s" for s k
  have read: "(\<exists>b l. get_at data at = Some b \<and> from_wire_id b = Some s \<and> get_range data (at + 1) (at + 3) = Some l \<and>
      unat (u16_be l) = suite_key_len s \<and> get_range data (at + 3) (at + 3 + suite_key_len s) = Some k) \<longleftrightarrow> here s k" for s k
  proof -
    have "here s k \<longleftrightarrow> take 1 (drop at data) = [wire_id s] \<and> take 2 (drop (at + 1) data) = be_u16 (of_nat (length k)) \<and>
        take (length k) (drop (at + 3) data) = k \<and> length k = suite_key_len s"
      using take_append_iff [of "[wire_id s]" "be_u16 (of_nat (length k)) @ k" at data]
        take_append_iff [of "be_u16 (of_nat (length k))" k "at + 1" data]
      by (auto simp: here_def key_entry_def eval_nat_numeral)
    moreover have "(\<exists>l. get_range data (at + 1) (at + 3) = Some l \<and> unat (u16_be l) = suite_key_len s) \<longleftrightarrow>
        take 2 (drop (at + 1) data) = be_u16 (of_nat (suite_key_len s))"
    proof -
      have e: "at + 1 + 2 = at + 3" by simp
      have "get_range data (at + 1) (at + 3) = Some l \<longleftrightarrow> take 2 (drop (at + 1) data) = l \<and> length l = 2" for l
        using get_range_iff [of data "at + 1" 2 l] unfolding e by auto
      then show ?thesis using u16_be_iff [of "suite_key_len s"] suite_lens(1) [of s] by metis
    qed
    moreover have "get_range data (at + 3) (at + 3 + suite_key_len s) = Some k \<longleftrightarrow>
        take (length k) (drop (at + 3) data) = k \<and> length k = suite_key_len s"
      unfolding get_range_iff by (cases s) (auto simp: min_def split: if_splits)
    ultimately show ?thesis by (auto simp: get_at_iff from_wire_id_iff)
  qed
  have "parse_keys data (Suc n) at acc = Some (ks', at') \<longleftrightarrow>
      (\<exists>s k. here s k \<and> s \<notin> fst ` set acc \<and> parse_keys data n (at + 3 + length k) (acc @ [(s, k)]) = Some (ks', at'))"
    by (subst read [symmetric]) (auto simp: bind_eq_Some_conv Let_def get_range_iff)
  also have "\<dots> \<longleftrightarrow> (\<exists>s k ks. here s k \<and> s \<notin> fst ` set acc \<and> ks' = acc @ (s, k) # ks \<and> length ks = n \<and>
      at' = at + length (entries ((s, k) # ks)) \<and> distinct (map fst ks) \<and> fst ` set ks \<inter> fst ` set (acc @ [(s, k)]) = {} \<and>
      keys_ok ks \<and> take (length (entries ks)) (drop (at + 3 + length k) data) = entries ks)"
    by (auto simp: Suc.IH)
  also have "\<dots> \<longleftrightarrow> (\<exists>s k ks. length ((s, k) # ks) = Suc n \<and> ks' = acc @ (s, k) # ks \<and>
      at' = at + length (entries ((s, k) # ks)) \<and> distinct (map fst ((s, k) # ks)) \<and>
      fst ` set ((s, k) # ks) \<inter> fst ` set acc = {} \<and> keys_ok ((s, k) # ks) \<and>
      take (length (entries ((s, k) # ks))) (drop at data) = entries ((s, k) # ks))"
  proof (intro ex_cong1)
    fix s k ks
    have "take (length (entries ((s, k) # ks))) (drop at data) = entries ((s, k) # ks) \<longleftrightarrow>
        take (3 + length k) (drop at data) = key_entry s k \<and> take (length (entries ks)) (drop (at + 3 + length k) data) = entries ks"
      using take_append_iff [of "key_entry s k" "entries ks" at data] by (simp add: add.assoc)
    then show "(here s k \<and> s \<notin> fst ` set acc \<and> ks' = acc @ (s, k) # ks \<and> length ks = n \<and>
      at' = at + length (entries ((s, k) # ks)) \<and> distinct (map fst ks) \<and> fst ` set ks \<inter> fst ` set (acc @ [(s, k)]) = {} \<and>
      keys_ok ks \<and> take (length (entries ks)) (drop (at + 3 + length k) data) = entries ks) \<longleftrightarrow>
      (length ((s, k) # ks) = Suc n \<and> ks' = acc @ (s, k) # ks \<and>
      at' = at + length (entries ((s, k) # ks)) \<and> distinct (map fst ((s, k) # ks)) \<and>
      fst ` set ((s, k) # ks) \<inter> fst ` set acc = {} \<and> keys_ok ((s, k) # ks) \<and>
      take (length (entries ((s, k) # ks))) (drop at data) = entries ((s, k) # ks))"
      unfolding here_def by auto
  qed
  also have "\<dots> \<longleftrightarrow> (\<exists>ks. length ks = Suc n \<and> ks' = acc @ ks \<and> at' = at + length (entries ks) \<and> distinct (map fst ks) \<and>
        fst ` set ks \<inter> fst ` set acc = {} \<and> keys_ok ks \<and> take (length (entries ks)) (drop at data) = entries ks)"
    by (simp only: ex_length_Suc split_paired_Ex)
  finally show ?case .
qed auto

text \<open>The offer as its fields, up to the signature and without the reserved byte.\<close>

definition offer_body :: "negotiated_handshake_blob \<Rightarrow> bytes" where
  "offer_body b = HANDSHAKE_NEGOTIATION_MAGIC @ [of_nat (length (nh_supported b))] @ map wire_id (nh_supported b) @
     nh_x25519_pub b @ entries (nh_kyber_keys b) @ nh_identity_pk b @ nh_pq_commitment b"

definition offer_ok :: "negotiated_handshake_blob \<Rightarrow> bool" where
  "offer_ok b \<longleftrightarrow> nh_supported b \<noteq> [] \<and> length (nh_supported b) \<le> 2 \<and> distinct (nh_supported b) \<and>
     map fst (nh_kyber_keys b) = nh_supported b \<and> keys_ok (nh_kyber_keys b) \<and> length (nh_x25519_pub b) = 32 \<and>
     length (nh_identity_pk b) = 32 \<and> length (nh_pq_commitment b) = 32 \<and> length (nh_signature b) = 64"

lemma offer_pieces:
  assumes "length W = n" "length x = 32" "length i = 32" "length q = 32" "length m = 16"
  shows "take (16 + 1 + n + 32 + length E + 64 + length R) data = m @ [c] @ W @ x @ E @ i @ q @ R \<longleftrightarrow>
    take 16 data = m \<and> take 1 (drop 16 data) = [c] \<and> take n (drop 17 data) = W \<and> take 32 (drop (17 + n) data) = x \<and>
    take (length E) (drop (17 + n + 32) data) = E \<and> take 32 (drop (17 + n + 32 + length E) data) = i \<and>
    take 32 (drop (17 + n + 32 + length E + 32) data) = q \<and> take (length R) (drop (17 + n + 32 + length E + 64) data) = R"
  using take_append_iff [of m "[c] @ W @ x @ E @ i @ q @ R" 0 data] take_append_iff [of "[c]" "W @ x @ E @ i @ q @ R" 16 data]
    take_append_iff [of W "x @ E @ i @ q @ R" 17 data] take_append_iff [of x "E @ i @ q @ R" "17 + n" data]
    take_append_iff [of E "i @ q @ R" "17 + n + 32" data] take_append_iff [of i "q @ R" "17 + n + 32 + length E" data]
    take_append_iff [of q R "17 + n + 32 + length E + 32" data] assms
  by (simp add: ac_simps)

lemma signature_at_iff:
  assumes "len \<le> length data"
  shows "(\<exists>at'. signature_at data len r at = Some at' \<and> get_range data at' (at' + 64) = Some sig \<and> at' + 64 = len) \<longleftrightarrow>
    length sig = 64 \<and> (len = at + 64 \<and> take 64 (drop at data) = sig \<and> sig ! 0 \<noteq> 0 \<or>
      r \<and> len = at + 65 \<and> take 65 (drop at data) = [0] @ sig)"
proof -
  have t: "take 65 (drop at data) = [0] @ sig \<longleftrightarrow> take 1 (drop at data) = [0] \<and> take 64 (drop (at + 1) data) = sig"
    if "length sig = 64" using that take_append_iff [of "[0]" sig at data] by simp
  have h: "take 1 (drop at data) = [0] \<longleftrightarrow> data ! at = 0" if "at < length data"
    using that by (simp add: take_Suc hd_drop_conv_nth)
  have z: "sig ! 0 = data ! at" if "take 64 (drop at data) = sig" "length sig = 64"
    using that by (metis add.right_neutral nth_drop nth_take zero_less_numeral length_take min_less_iff_conj nat_le_linear drop_all less_numeral_extra(3) list.size(3) min_0L not_less)
  show ?thesis
  proof (cases "length sig = 64")
    case True
    show ?thesis using t [OF True] h z [OF _ True] assms
      by (auto simp: signature_at_def get_range_iff split: if_splits)
  next
    case False
    then show ?thesis by (auto simp: get_range_iff)
  qed
qed

lemma try_parse_unfold:
  assumes "n = unat (data ! 16)"
  shows "try_parse data len r = Some b \<longleftrightarrow>
    177 + (if r then 1 else 0) \<le> len \<and> starts_with HANDSHAKE_NEGOTIATION_MAGIC data \<and> n \<noteq> 0 \<and> n \<le> 2 \<and>
    (\<exists>at. parse_suites data n 17 [] = Some (nh_supported b, 17 + n) \<and>
      get_range data (17 + n) (17 + n + 32) = Some (nh_x25519_pub b) \<and>
      parse_keys data n (17 + n + 32) [] = Some (nh_kyber_keys b, at) \<and>
      get_range data at (at + 32) = Some (nh_identity_pk b) \<and>
      get_range data (at + 32) (at + 32 + 32) = Some (nh_pq_commitment b) \<and>
      (\<exists>at'. signature_at data len r (at + 64) = Some at' \<and> get_range data at' (at' + 64) = Some (nh_signature b) \<and>
        at' + 64 = len) \<and> map fst (nh_kyber_keys b) = nh_supported b)"
proof -
  have e: "at + 32 + 32 = at + (64 :: nat)" for at by simp
  show ?thesis
    unfolding try_parse_def Let_def assms [symmetric] e
    by (auto simp: bind_eq_Some_conv parse_suites_iff)
qed

lemma try_parse_fields:
  assumes "len \<le> length data" and "n = unat (data ! 16)"
  shows "try_parse data len r = Some b \<longleftrightarrow>
    177 + (if r then 1 else 0) \<le> len \<and> take 16 data = HANDSHAKE_NEGOTIATION_MAGIC \<and> n \<noteq> 0 \<and> offer_ok b \<and> n = length (nh_supported b) \<and>
    take n (drop 17 data) = map wire_id (nh_supported b) \<and> take 32 (drop (17 + n) data) = nh_x25519_pub b \<and>
    (let at = 17 + n + 32 + length (entries (nh_kyber_keys b))
     in take (length (entries (nh_kyber_keys b))) (drop (17 + n + 32) data) = entries (nh_kyber_keys b) \<and>
        take 32 (drop at data) = nh_identity_pk b \<and> take 32 (drop (at + 32) data) = nh_pq_commitment b \<and>
        (len = at + 64 + 64 \<and> take 64 (drop (at + 64) data) = nh_signature b \<and> nh_signature b ! 0 \<noteq> 0 \<or>
         r \<and> len = at + 64 + 65 \<and> take 65 (drop (at + 64) data) = [0] @ nh_signature b))"
proof -
  have g: "get_range data a (a + 32) = Some v \<longleftrightarrow> take 32 (drop a data) = v \<and> length v = 32" for a v
    by (simp add: get_range_pos_iff)
  have L: "map fst (nh_kyber_keys b) = nh_supported b \<Longrightarrow> length (nh_kyber_keys b) = length (nh_supported b)"
    by (metis length_map)
  show ?thesis
    unfolding try_parse_unfold [OF assms(2)] signature_at_iff [OF assms(1)] parse_suites_iff parse_keys_iff Let_def
      starts_with_def length_negotiation_magics g offer_ok_def
    by (auto simp: L)
qed

lemma offer_body_pieces:
  fixes b :: negotiated_handshake_blob
  assumes "len \<le> length data" and "offer_ok b"
  defines "n \<equiv> length (nh_supported b)" and "E \<equiv> entries (nh_kyber_keys b)"
  shows "take len data = offer_body b @ S \<longleftrightarrow>
    len = 17 + n + 32 + length E + 64 + length S \<and> take 16 data = HANDSHAKE_NEGOTIATION_MAGIC \<and> unat (data ! 16) = n \<and>
    take n (drop 17 data) = map wire_id (nh_supported b) \<and> take 32 (drop (17 + n) data) = nh_x25519_pub b \<and>
    take (length E) (drop (17 + n + 32) data) = E \<and> take 32 (drop (17 + n + 32 + length E) data) = nh_identity_pk b \<and>
    take 32 (drop (17 + n + 32 + length E + 32) data) = nh_pq_commitment b \<and>
    take (length S) (drop (17 + n + 32 + length E + 64) data) = S" (is "?L \<longleftrightarrow> ?R")
proof (cases "len = 17 + n + 32 + length E + 64 + length S")
  case True
  have "n \<le> 2" using assms(2) by (simp add: offer_ok_def n_def)
  then have n: "unat (of_nat n :: u8) = n" by (simp add: unat_of_nat)
  have "take 1 (drop 16 data) = [of_nat n] \<longleftrightarrow> data ! 16 = of_nat n"
    using True assms(1) by (simp add: take_Suc hd_drop_conv_nth)
  also have "\<dots> \<longleftrightarrow> unat (data ! 16) = n" using n by (simp add: word_unat_eq_iff)
  finally have c: "take 1 (drop 16 data) = [of_nat n] \<longleftrightarrow> unat (data ! 16) = n" .
  show ?thesis
    using offer_pieces [of "map wire_id (nh_supported b)" n "nh_x25519_pub b" "nh_identity_pk b" "nh_pq_commitment b"
        HANDSHAKE_NEGOTIATION_MAGIC E S data "of_nat n"] assms(2) True c
    by (simp add: offer_body_def offer_ok_def n_def E_def)
next
  case False
  have "length (offer_body b @ S) = 17 + n + 32 + length E + 64 + length S"
    using assms(2) by (simp add: offer_body_def offer_ok_def n_def E_def)
  then show ?thesis using False assms(1) by (metis length_take min.absorb2)
qed

lemma try_parse_iff:
  assumes "len \<le> length data"
  shows "try_parse data len r = Some b \<longleftrightarrow> offer_ok b \<and>
    (nh_signature b ! 0 \<noteq> 0 \<and> take len data = offer_body b @ nh_signature b \<or>
     r \<and> take len data = offer_body b @ [0] @ nh_signature b)"
proof (cases "offer_ok b")
  case True
  then have l: "length (nh_signature b) = 64" "0 < length (nh_supported b)" by (auto simp: offer_ok_def)
  show ?thesis
    unfolding try_parse_fields [OF assms refl] offer_body_pieces [OF assms True] Let_def
    using True l by (auto simp: Suc_le_eq)
next
  case False
  then show ?thesis by (simp add: try_parse_fields [OF assms refl])
qed

text \<open>The reserved byte makes every offer an even number of bytes long.\<close>

lemma even_entries: "keys_ok ks \<Longrightarrow> even (length (entries ks) + length ks)"
proof (induction ks)
  case (Cons p ks)
  then show ?case by (cases p; cases "fst p") auto
qed simp

lemma odd_offer_body:
  assumes "offer_ok b"
  shows "odd (length (offer_body b))"
proof -
  have "length (nh_kyber_keys b) = length (nh_supported b)" using assms by (metis length_map offer_ok_def)
  then show ?thesis using assms even_entries [of "nh_kyber_keys b"] by (simp add: offer_body_def offer_ok_def)
qed

lemma inj_wire_id: "inj wire_id"
  by (rule injI) (metis from_wire_id_wire_id option.inject)

lemma length_entries: "keys_ok ks \<Longrightarrow> length (entries ks) = (\<Sum>s \<leftarrow> map fst ks. 3 + suite_key_len s)"
  by (induction ks) auto

text \<open>Where the fields of an offer end is determined by the bytes.\<close>

lemma offer_body_unique:
  assumes "offer_ok b" and "offer_ok b'" and "offer_body b @ S = offer_body b' @ S'"
  shows "offer_body b = offer_body b' \<and> S = S'"
proof -
  define data where "data = offer_body b @ S"
  note p = offer_body_pieces [OF le_refl assms(1), of data S] offer_body_pieces [OF le_refl assms(2), of data S']
  have t: "take (length data) data = offer_body b @ S" "take (length data) data = offer_body b' @ S'"
    using assms(3) by (simp_all add: data_def)
  have n: "length (nh_supported b) = length (nh_supported b')"
    and "map wire_id (nh_supported b) = take (length (nh_supported b)) (drop 17 data)"
    and "map wire_id (nh_supported b') = take (length (nh_supported b')) (drop 17 data)"
    using p t by auto
  then have "map wire_id (nh_supported b) = map wire_id (nh_supported b')" by simp
  then have "nh_supported b = nh_supported b'" using inj_wire_id by (simp add: inj_map_eq_map)
  then have "length (entries (nh_kyber_keys b)) = length (entries (nh_kyber_keys b'))"
    using assms(1,2) by (simp add: length_entries offer_ok_def)
  then have "length (offer_body b) = length (offer_body b')"
    using assms(1,2) n by (simp add: offer_body_def offer_ok_def)
  then show ?thesis using assms(3) by simp
qed

lemma parse_negotiated_iff:
  "parse_negotiated_handshake_pdu data = Some b \<longleftrightarrow> offer_ok b \<and>
     (data = offer_body b @ [0] @ nh_signature b \<or>
      nh_signature b ! 0 \<noteq> 0 \<and> (data = offer_body b @ nh_signature b \<or> data = offer_body b @ nh_signature b @ [0]))"
    (is "?L \<longleftrightarrow> ?R")
proof -
  have A: "try_parse data (length data) True = Some b' \<longleftrightarrow> offer_ok b' \<and>
      (nh_signature b' ! 0 \<noteq> 0 \<and> data = offer_body b' @ nh_signature b' \<or> data = offer_body b' @ [0] @ nh_signature b')" for b'
    using try_parse_iff [of "length data" data True b'] by simp
  have B: "try_parse data (length data) False = Some b' \<Longrightarrow> try_parse data (length data) True = Some b'" for b'
    using try_parse_iff [of "length data" data True b'] try_parse_iff [of "length data" data False b'] by simp
  define P where "P \<longleftrightarrow> length data mod 2 = 0 \<and> (data \<noteq> [] \<and> last data = 0) \<and> 1 < length data"
  have C: "try_parse data (length data - 1) False = Some b' \<and> P \<longleftrightarrow> offer_ok b' \<and> nh_signature b' ! 0 \<noteq> 0 \<and>
      data = offer_body b' @ nh_signature b' @ [0]" for b'
  proof
    assume L: "try_parse data (length data - 1) False = Some b' \<and> P"
    then have "offer_ok b' \<and> nh_signature b' ! 0 \<noteq> 0 \<and> butlast data = offer_body b' @ nh_signature b'"
      using try_parse_iff [of "length data - 1" data False b'] by (simp add: butlast_conv_take)
    then show "offer_ok b' \<and> nh_signature b' ! 0 \<noteq> 0 \<and> data = offer_body b' @ nh_signature b' @ [0]"
      using L append_butlast_last_id [of data] by (auto simp: P_def)
  next
    assume R: "offer_ok b' \<and> nh_signature b' ! 0 \<noteq> 0 \<and> data = offer_body b' @ nh_signature b' @ [0]"
    then have "length (nh_signature b') = 64" by (simp add: offer_ok_def)
    then have "length data = length (offer_body b') + 65" using R by simp
    moreover have "odd (length (offer_body b'))" using R odd_offer_body by blast
    ultimately have l: "length data mod 2 = 0" "1 < length data" by presburger+
    have "last data = 0" "take (length data - 1) data = offer_body b' @ nh_signature b'" "data \<noteq> []" using R by simp_all
    then show "try_parse data (length data - 1) False = Some b' \<and> P"
      using R l try_parse_iff [of "length data - 1" data False b'] unfolding P_def by (metis diff_le_self)
  qed
  have D: "try_parse data (length data) True = None"
    if d: "data = offer_body b @ nh_signature b @ [0]" "nh_signature b ! 0 \<noteq> 0" "offer_ok b"
  proof (rule ccontr)
    assume "try_parse data (length data) True \<noteq> None"
    then obtain b' S where b': "offer_ok b'" "data = offer_body b' @ S" "S = nh_signature b' \<or> S = [0] @ nh_signature b'"
      using A by blast
    have "offer_body b @ (nh_signature b @ [0]) = offer_body b' @ S" using d(1) b'(2) by simp
    from offer_body_unique [OF d(3) b'(1) this] have S: "S = nh_signature b @ [0]" by simp
    have l: "length (nh_signature b) = 64" "length (nh_signature b') = 64" using d(3) b'(1) by (simp_all add: offer_ok_def)
    have "length S = 65" using S l(1) by simp
    then have "S = [0] @ nh_signature b'" using b'(3) l(2) by auto
    moreover have "S ! 0 = nh_signature b ! 0" using S l(1) by (simp add: nth_append)
    ultimately show False using d(2) by simp
  qed
  show ?thesis
  proof (cases "try_parse data (length data) True")
    case None
    then have "parse_negotiated_handshake_pdu data = Some b \<longleftrightarrow> try_parse data (length data - 1) False = Some b \<and> P"
      unfolding parse_negotiated_handshake_pdu_def P_def [symmetric] using B by (cases "try_parse data (length data) False") auto
    then show ?thesis using A [of b] C [of b] None by auto
  next
    case (Some b')
    then have "parse_negotiated_handshake_pdu data = Some b \<longleftrightarrow> try_parse data (length data) True = Some b"
      by (simp add: parse_negotiated_handshake_pdu_def)
    moreover have "\<not> (data = offer_body b @ nh_signature b @ [0] \<and> nh_signature b ! 0 \<noteq> 0 \<and> offer_ok b)" using D Some by auto
    ultimately show ?thesis using A [of b] by blast
  qed
qed

section \<open>Building\<close>

lemma key_entries_ok:
  assumes "keys_ok ks" and "distinct (map fst ks)" and "set suites \<subseteq> set ks"
  shows "key_entries ks (map fst suites) = Some (entries suites)"
  using assms(3)
proof (induction suites)
  case (Cons p suites)
  obtain s k where p: "p = (s, k)" by (cases p)
  have "map_of ks s = Some k" "length k = suite_key_len s"
    using Cons.prems assms(1,2) p by (auto simp: keys_ok_def)
  then show ?case using Cons p by simp
qed simp

lemma build_offer:
  assumes "offer_ok b" and "nh_signature b = sign (offer_body b @ [0])"
  shows "build_negotiated_handshake_pdu (nh_supported b) (nh_identity_pk b) (nh_pq_commitment b) sign (nh_x25519_pub b)
    (nh_kyber_keys b) = Some (offer_body b @ [0] @ nh_signature b)"
proof -
  have k: "map fst (nh_kyber_keys b) = nh_supported b" "keys_ok (nh_kyber_keys b)" "distinct (nh_supported b)"
    using assms(1) by (simp_all add: offer_ok_def)
  then have e: "key_entries (nh_kyber_keys b) (nh_supported b) = Some (entries (nh_kyber_keys b))"
    using key_entries_ok [of "nh_kyber_keys b" "nh_kyber_keys b"] by simp
  have "length (nh_kyber_keys b) = length (nh_supported b)" using k(1) by (metis length_map)
  then show ?thesis using assms e
    by (simp add: build_negotiated_handshake_pdu_def negotiation_material_def offer_ok_def offer_body_def)
qed

lemma response_reads:
  assumes "length x = 32" "length ct = suite_ct_len suite" "length i = 32" "length q = 32" "length sig = 64"
    and "pad = [] \<or> length pad = 1"
  shows "parse_negotiated_response_pdu
      ((RESPONSE_NEGOTIATION_MAGIC @ [wire_id suite] @ x @ ct @ i @ q) @ sig @ pad) =
    Some \<lparr>nr_suite = suite, nr_x25519_pub = x, nr_kyber_ct = ct, nr_identity_pk = i, nr_pq_commitment = q, nr_signature = sig\<rparr>"
  using assms
  by (cases suite) (auto simp: parse_negotiated_response_pdu_def starts_with_def nth_append slice_def
      negotiated_response_len_def from_wire_id_def)

section \<open>Properties\<close>

text \<open>
  The offer parser accepts exactly the well-formed offers, and nothing is read two ways: an
  input parses to a blob if and only if it is the encoding of that blob, with distinct suites in
  one order, one key of the right size for each, and every byte accounted for; three encodings are
  accepted, the present one with its reserved zero byte and, only for a signature that does not
  start with a zero byte, the older one without it, bare or with one byte of padding. What the
  builder makes is the first of these and has even length, so the shard coder does not pad it.
\<close>

theorem offer_parser_is_exact:
  assumes "offer_ok b" and "nh_signature b = sign (offer_body b @ [0])"
  shows "(parse_negotiated_handshake_pdu data = Some b' \<longleftrightarrow> offer_ok b' \<and>
      (data = offer_body b' @ [0] @ nh_signature b' \<or>
       nh_signature b' ! 0 \<noteq> 0 \<and> (data = offer_body b' @ nh_signature b' \<or> data = offer_body b' @ nh_signature b' @ [0]))) \<and>
    (\<exists>p. build_negotiated_handshake_pdu (nh_supported b) (nh_identity_pk b) (nh_pq_commitment b) sign (nh_x25519_pub b)
        (nh_kyber_keys b) = Some p \<and> even (length p) \<and> parse_negotiated_handshake_pdu p = Some b)"
proof (rule conjI [OF parse_negotiated_iff])
  let ?p = "offer_body b @ [0] @ nh_signature b"
  have "length (nh_signature b) = 64" using assms(1) by (simp add: offer_ok_def)
  then have "even (length ?p)" using odd_offer_body [OF assms(1)] by simp
  moreover have "parse_negotiated_handshake_pdu ?p = Some b" using assms(1) by (simp add: parse_negotiated_iff)
  ultimately show "\<exists>p. build_negotiated_handshake_pdu (nh_supported b) (nh_identity_pk b) (nh_pq_commitment b) sign (nh_x25519_pub b)
        (nh_kyber_keys b) = Some p \<and> even (length p) \<and> parse_negotiated_handshake_pdu p = Some b"
    using build_offer [of b sign, OF assms] by blast
qed

definition demo_offer :: negotiated_handshake_blob where
  "demo_offer = \<lparr>nh_supported = [X25519MlKem512V2], nh_x25519_pub = zeros 32, nh_kyber_keys = [(X25519MlKem512V2, zeros 800)],
     nh_identity_pk = zeros 32, nh_pq_commitment = zeros 32, nh_signature = zeros 64\<rparr>"

lemma demo_offer_ok: "offer_ok demo_offer"
  by (simp add: offer_ok_def demo_offer_def)

theorem offer_parser_is_exact_witness:
  "\<exists>p. build_negotiated_handshake_pdu [X25519MlKem512V2] (zeros 32) (zeros 32) (\<lambda>_. zeros 64) (zeros 32)
     [(X25519MlKem512V2, zeros 800)] = Some p \<and> parse_negotiated_handshake_pdu p = Some demo_offer"
  using offer_parser_is_exact [OF demo_offer_ok, of "\<lambda>_. zeros 64" "[]"] by (auto simp: demo_offer_def)

text \<open>
  An offer in the older encoding whose signature starts with a zero byte is refused, though the
  parser means to accept both encodings; behind one byte of padding it is read as the present
  encoding, with a shifted signature.
\<close>

theorem old_offer_with_zero_signature_byte:
  assumes "offer_ok b" and "nh_signature b ! 0 = 0"
  shows "parse_negotiated_handshake_pdu (offer_body b @ nh_signature b) = None \<and>
    parse_negotiated_handshake_pdu (offer_body b @ nh_signature b @ [0]) =
      Some (b\<lparr>nh_signature := drop 1 (nh_signature b) @ [0]\<rparr>)"
proof -
  have l: "length (nh_signature b) = 64" using assms(1) by (simp add: offer_ok_def)
  then have s: "nh_signature b = 0 # drop 1 (nh_signature b)" using assms(2) by (cases "nh_signature b") auto
  have none: "\<not> parse_negotiated_handshake_pdu (offer_body b @ nh_signature b) = Some b'" for b'
  proof
    assume "parse_negotiated_handshake_pdu (offer_body b @ nh_signature b) = Some b'"
    then obtain S where S: "offer_ok b'" "offer_body b @ nh_signature b = offer_body b' @ S"
      "S = [0] @ nh_signature b' \<or> nh_signature b' ! 0 \<noteq> 0 \<and> (S = nh_signature b' \<or> S = nh_signature b' @ [0])"
      by (auto simp: parse_negotiated_iff)
    from offer_body_unique [OF assms(1) S(1,2)] have "S = nh_signature b" by simp
    moreover have "length (nh_signature b') = 64" using S(1) by (simp add: offer_ok_def)
    ultimately show False using S(3) l assms(2) by auto
  qed
  have "offer_ok (b\<lparr>nh_signature := drop 1 (nh_signature b) @ [0]\<rparr>)" using assms(1) l by (simp add: offer_ok_def)
  moreover have "offer_body b @ nh_signature b @ [0] = offer_body (b\<lparr>nh_signature := drop 1 (nh_signature b) @ [0]\<rparr>) @
      [0] @ nh_signature (b\<lparr>nh_signature := drop 1 (nh_signature b) @ [0]\<rparr>)"
    using s by (simp add: offer_body_def)
  ultimately have "parse_negotiated_handshake_pdu (offer_body b @ nh_signature b @ [0]) =
      Some (b\<lparr>nh_signature := drop 1 (nh_signature b) @ [0]\<rparr>)"
    unfolding parse_negotiated_iff by blast
  then show ?thesis using none by (cases "parse_negotiated_handshake_pdu (offer_body b @ nh_signature b)") auto
qed

lemma uniform_offer_built:
  assumes "signer sign" and "length pre = 16" and "length x = 32" and "length k = 800" and "length i = 32"
  shows "build_uniform_handshake_pdu pre i sign x k = pre @ x @ k @ i @ sign (pre @ x @ k @ i)"
  using assms(2-) signerD [OF assms(1)] by (simp add: build_uniform_handshake_pdu_def Let_def HANDSHAKE_BLOB_LEN_def) (simp add: copy_at_def)

lemma uniform_response_built:
  assumes "signer sign" and "length pre = 16" and "length x = 32" and "length ct = 768" and "length i = 32"
  shows "build_uniform_response_pdu pre i sign x ct = pre @ x @ ct @ i @ sign (pre @ x @ ct @ i)"
  using assms(2-) signerD [OF assms(1)] by (simp add: build_uniform_response_pdu_def Let_def RESPONSE_BLOB_LEN_def) (simp add: copy_at_def)

text \<open>
  The legacy, uniform and suite PDUs round-trip: every field is read back whatever follows (the
  suite forms take no trailing byte), and the signature read is the sender's over the material the
  receiver verifies, which in the uniform form includes the random prefix.
\<close>

theorem handshake_pdus_roundtrip:
  assumes "signer sign" and "length x = 32" and "length i = 32" and "length k = 800" and "length ct = 768" and "length pre = 16"
    and "length sk = suite_key_len suite" and "length sct = suite_ct_len suite"
  shows "parse_handshake_pdu (build_handshake_pdu i sign x k @ pad) =
      Some \<lparr>hb_x25519_pub = x, hb_kyber_pub = k, hb_identity_pk = i, hb_signature = sign (x @ k)\<rparr> \<and>
    parse_response_pdu (build_response_pdu i sign x ct @ pad) =
      Some \<lparr>rp_x25519_pub = x, rp_kyber_ct = ct, rp_identity_pk = i, rp_signature = sign (x @ ct)\<rparr> \<and>
    (\<exists>m. uniform_handshake_signed_material (build_uniform_handshake_pdu pre i sign x k @ pad) = Some m \<and> take 16 m = pre \<and>
      parse_uniform_handshake_pdu (build_uniform_handshake_pdu pre i sign x k @ pad) =
        Some \<lparr>hb_x25519_pub = x, hb_kyber_pub = k, hb_identity_pk = i, hb_signature = sign m\<rparr>) \<and>
    (\<exists>m. uniform_response_signed_material (build_uniform_response_pdu pre i sign x ct @ pad) = Some m \<and> take 16 m = pre \<and>
      parse_uniform_response_pdu (build_uniform_response_pdu pre i sign x ct @ pad) =
        Some \<lparr>rp_x25519_pub = x, rp_kyber_ct = ct, rp_identity_pk = i, rp_signature = sign m\<rparr>) \<and>
    (\<exists>p. build_handshake_pdu_suite suite i sign x sk = Some p \<and> parse_handshake_pdu_suite (p @ pad) =
       (if pad = [] then Some \<lparr>sh_suite = suite, sh_x25519_pub = x, sh_kyber_pub = sk, sh_identity_pk = i,
          sh_signature = sign ([wire_id suite] @ x @ sk @ i)\<rparr> else None)) \<and>
    (\<exists>p. build_response_pdu_suite suite i sign x sct = Some p \<and> parse_response_pdu_suite (p @ pad) =
       (if pad = [] then Some \<lparr>sr_suite = suite, sr_x25519_pub = x, sr_kyber_ct = sct, sr_identity_pk = i,
          sr_signature = sign ([wire_id suite] @ x @ sct @ i)\<rparr> else None))"
proof -
  note sg = signerD [OF assms(1)]
  have c: "copy_at 32 k (copy_at 0 x (zeros 832)) = x @ k" "copy_at 32 ct (copy_at 0 x (zeros 800)) = x @ ct"
    using assms by (simp_all add: copy_at_def)
  have h: "build_handshake_pdu i sign x k = HANDSHAKE_MAGIC @ x @ k @ i @ sign (x @ k)"
    using assms sg by (simp add: build_handshake_pdu_def Let_def c HANDSHAKE_BLOB_LEN_def) (simp add: copy_at_def)
  have r: "build_response_pdu i sign x ct = RESPONSE_MAGIC @ x @ ct @ i @ sign (x @ ct)"
    using assms sg by (simp add: build_response_pdu_def Let_def c RESPONSE_BLOB_LEN_def) (simp add: copy_at_def)
  note uh = uniform_offer_built [OF assms(1,6,2,4,3)] and ur = uniform_response_built [OF assms(1,6,2,5,3)]
  have 1: "parse_handshake_pdu (build_handshake_pdu i sign x k @ pad) =
      Some \<lparr>hb_x25519_pub = x, hb_kyber_pub = k, hb_identity_pk = i, hb_signature = sign (x @ k)\<rparr>"
    using assms sg by (simp add: h parse_handshake_pdu_def read_handshake_def starts_with_def slice_def HANDSHAKE_BLOB_LEN_def)
  have 2: "parse_response_pdu (build_response_pdu i sign x ct @ pad) =
      Some \<lparr>rp_x25519_pub = x, rp_kyber_ct = ct, rp_identity_pk = i, rp_signature = sign (x @ ct)\<rparr>"
    using assms sg by (simp add: r parse_response_pdu_def read_response_def starts_with_def slice_def RESPONSE_BLOB_LEN_def)
  have 3: "uniform_handshake_signed_material (build_uniform_handshake_pdu pre i sign x k @ pad) = Some (pre @ x @ k @ i)"
    "parse_uniform_handshake_pdu (build_uniform_handshake_pdu pre i sign x k @ pad) =
        Some \<lparr>hb_x25519_pub = x, hb_kyber_pub = k, hb_identity_pk = i, hb_signature = sign (pre @ x @ k @ i)\<rparr>"
    using assms sg by (simp_all add: uh uniform_handshake_signed_material_def parse_uniform_handshake_pdu_def
        read_handshake_def slice_def HANDSHAKE_BLOB_LEN_def)
  have 4: "uniform_response_signed_material (build_uniform_response_pdu pre i sign x ct @ pad) = Some (pre @ x @ ct @ i)"
    "parse_uniform_response_pdu (build_uniform_response_pdu pre i sign x ct @ pad) =
        Some \<lparr>rp_x25519_pub = x, rp_kyber_ct = ct, rp_identity_pk = i, rp_signature = sign (pre @ x @ ct @ i)\<rparr>"
    using assms sg by (simp_all add: ur uniform_response_signed_material_def parse_uniform_response_pdu_def
        read_response_def slice_def RESPONSE_BLOB_LEN_def)
  have 5: "\<exists>p. build_handshake_pdu_suite suite i sign x sk = Some p \<and> parse_handshake_pdu_suite (p @ pad) =
       (if pad = [] then Some \<lparr>sh_suite = suite, sh_x25519_pub = x, sh_kyber_pub = sk, sh_identity_pk = i,
          sh_signature = sign ([wire_id suite] @ x @ sk @ i)\<rparr> else None)"
    using assms sg by (cases suite) (simp_all add: build_handshake_pdu_suite_def parse_handshake_pdu_suite_def starts_with_def
        from_wire_id_def nth_append slice_def)
  have 6: "\<exists>p. build_response_pdu_suite suite i sign x sct = Some p \<and> parse_response_pdu_suite (p @ pad) =
       (if pad = [] then Some \<lparr>sr_suite = suite, sr_x25519_pub = x, sr_kyber_ct = sct, sr_identity_pk = i,
          sr_signature = sign ([wire_id suite] @ x @ sct @ i)\<rparr> else None)"
    using assms sg by (cases suite) (simp_all add: build_response_pdu_suite_def parse_response_pdu_suite_def starts_with_def
        from_wire_id_def nth_append slice_def)
  show ?thesis using 1 2 3 4 5 6 assms(6) by simp
qed

theorem handshake_pdus_roundtrip_witness:
  "parse_handshake_pdu (build_handshake_pdu (zeros 32) (\<lambda>_. zeros 64) (zeros 32) (zeros 800) @ [7]) =
     Some \<lparr>hb_x25519_pub = zeros 32, hb_kyber_pub = zeros 800, hb_identity_pk = zeros 32, hb_signature = zeros 64\<rparr>"
  using handshake_pdus_roundtrip [of "\<lambda>_. zeros 64" "zeros 32" "zeros 32" "zeros 800" "zeros 768" "zeros 16" "zeros 800"
      X25519MlKem512V2 "zeros 768" "[7]"]
  by (simp add: signer_def)

interpretation suite_handshake_codec: wire_codec
  "\<lambda>(suite, i, sign, x, k). the (build_handshake_pdu_suite suite i sign x k)" parse_handshake_pdu_suite
  "\<lambda>(suite, i, sign, x, k). \<lparr>sh_suite = suite, sh_x25519_pub = x, sh_kyber_pub = k, sh_identity_pk = i,
     sh_signature = sign ([wire_id suite] @ x @ k @ i)\<rparr>"
  "\<lambda>(suite, i, sign, x, k). signer sign \<and> length i = 32 \<and> length x = 32 \<and> length k = suite_key_len suite"
proof unfold_locales
  fix v :: "hybrid_cipher_suite \<times> bytes \<times> (bytes \<Rightarrow> bytes) \<times> bytes \<times> bytes"
  obtain suite i sign x k where v: "v = (suite, i, sign, x, k)" by (metis surj_pair)
  assume "case v of (suite, i, sign, x, k) \<Rightarrow> signer sign \<and> length i = 32 \<and> length x = 32 \<and> length k = suite_key_len suite"
  then show "parse_handshake_pdu_suite (case v of (suite, i, sign, x, k) \<Rightarrow> the (build_handshake_pdu_suite suite i sign x k)) =
    Some (case v of (suite, i, sign, x, k) \<Rightarrow> \<lparr>sh_suite = suite, sh_x25519_pub = x, sh_kyber_pub = k, sh_identity_pk = i,
     sh_signature = sign ([wire_id suite] @ x @ k @ i)\<rparr>)"
    unfolding v by (cases suite) (auto simp: build_handshake_pdu_suite_def parse_handshake_pdu_suite_def starts_with_def
        from_wire_id_def nth_append slice_def signerD)
qed

text \<open>
  C25. Negotiation: the chosen suite is the strongest one both sides name, none is chosen exactly when
  they share none, and the two sides, each given the other's list, choose the same.
\<close>

theorem negotiation_is_symmetric:
  "negotiate_cipher_suite l (map wire_id r) = negotiate_cipher_suite r (map wire_id l) \<and>
   negotiate_cipher_suite l (map wire_id r) =
     (if X25519MlKem768V3 \<in> set l \<inter> set r then Some X25519MlKem768V3
      else if X25519MlKem512V2 \<in> set l \<inter> set r then Some X25519MlKem512V2 else None)"
proof -
  have w: "wire_id s \<in> set (map wire_id xs) \<longleftrightarrow> s \<in> set xs" for s xs
    using inj_wire_id by (auto simp: inj_image_mem_iff)
  show ?thesis unfolding negotiate_cipher_suite_def w by auto
qed

text \<open>
  The transcript binds: with secrets, keys and commitments of 32 bytes, the input of the key
  derivation determines every field of the exchange, the ciphertext of either suite included.
\<close>

theorem transcript_determines_the_exchange:
  assumes "transcript_ikm x k i r ct p q = transcript_ikm x' k' i' r' ct' p' q'"
    and "\<forall>v \<in> {x, k, i, r, p, q, x', k', i', r', p', q'}. length v = 32"
  shows "x = x' \<and> k = k' \<and> i = i' \<and> r = r' \<and> ct = ct' \<and> p = p' \<and> q = q'"
proof -
  have e: "x @ k @ i @ r @ ct @ p @ q = x' @ k' @ i' @ r' @ ct' @ p' @ q'"
    using assms(1) by (simp add: transcript_ikm_def)
  then have "length ct = length ct'" using assms(2) by (auto dest: arg_cong [of _ _ length])
  then show ?thesis using e assms(2) by simp
qed

theorem transcript_determines_the_exchange_witness:
  "transcript_ikm (zeros 32) (zeros 32) (zeros 32) (zeros 32) [1, 2] (zeros 32) (zeros 32) \<noteq>
   transcript_ikm (zeros 32) (zeros 32) (zeros 32) (zeros 32) [1, 3] (zeros 32) (zeros 32)"
  using transcript_determines_the_exchange [of "zeros 32" "zeros 32" "zeros 32" "zeros 32" "[1, 2]" "zeros 32" "zeros 32"
      "zeros 32" "zeros 32" "zeros 32" "zeros 32" "[1, 3]" "zeros 32" "zeros 32"] by auto

end
