(* ===== verification/Session.thy ===== *)
theory Session
  imports L6_Session Ratchet Gtf Handshake "HOL-Library.AList" "HOL-Library.Sublist"
begin

text \<open>
  A peer session, src/src/ghost/session/mod.rs: the record \<open>session\<close> with its replay guard, ratchet,
  in-flight step and in-flight quantum mix, and every operation on them. Time (\<open>now\<close>) and randomness
  (ephemeral secrets, encapsulation randomness, wire nonces) are arguments; a method that takes
  \<open>&self\<close> with interior mutability returns the new session. The shared \<open>ack_engine\<close> and the
  throughput counters are separate objects and not fields here.
\<close>

section \<open>State\<close>

definition MAX_STREAMS :: u16 where "MAX_STREAMS = 256"
definition REKEY_THRESHOLD :: u64 where "REKEY_THRESHOLD = 0xFFFFFFFFC0000000"

datatype stream_type = Control | Bulk | Stream | Interactive
datatype session_role = Initiator | Responder

fun seal_direction_of :: "session_role \<Rightarrow> nonce_direction" where
  "seal_direction_of Initiator = InitiatorToResponder"
| "seal_direction_of Responder = ResponderToInitiator"

record pending_quantum_mix =
  pq_epoch :: u64
  pq_confirm :: bytes
  pq_label :: bytes

record ratchet_answer =
  ra_x_public :: bytes
  ra_kem_ct :: bytes
  ra_confirm :: bytes
  ra_epoch :: u64

record sealing_material =
  sm_key :: bytes
  sm_epoch :: u64
  sm_counter :: u64
  sm_nonce :: bytes
  sm_direction :: nonce_direction
  sm_ratchet_due :: bool

record stream_state =
  st_stream_type :: stream_type
  st_recv_buf :: "bytes option list"
  st_next_seq :: u32
  st_created_at :: instant
  st_bytes_recv :: u64
  st_bytes_sent :: u64

record session =
  se_master_key :: bytes
  se_tx_counter :: u64
  se_guard :: session_guard_u64
  se_peer_fingerprint :: bytes
  se_established_at :: instant
  se_session_hash :: bytes
  se_role :: session_role
  se_streams :: "u16 \<rightharpoonup> stream_state"
  se_next_stream_id :: u16
  se_use_bulk :: bool
  se_cipher_suite :: hybrid_cipher_suite
  se_wire_v1 :: bool
  se_ratchet :: session_ratchet
  se_pending_step :: "ratchet_step option"
  se_ratchet_step_at :: "instant option"
  se_ratchet_steps :: u64
  se_ratchet_in_progress :: bool
  se_forced_ratchet_due :: bool
  se_peer_identity_pk :: "bytes option"
  se_pq_auth_state :: u8
  se_peer_pq_commitment :: "bytes option"
  se_peer_pq_pk :: "bytes option"
  se_pq_incoming_chunks :: "(u8 \<times> bytes) list"
  se_pq_auth_requested_at :: instant
  se_pending_quantum_mix :: "pending_quantum_mix option"
  se_quantum_mix_at :: "instant option"
  se_quantum_mix_attempt_at :: "instant option"
  se_quantum_mix_in_progress :: bool
  se_quantum_mixed :: bool

definition new_with_role :: "crates \<Rightarrow> instant \<Rightarrow> bytes \<Rightarrow> bytes \<Rightarrow> session_role \<Rightarrow> session" where
  "new_with_role C now master_key peer_fingerprint role =
     \<lparr>se_master_key = master_key, se_tx_counter = 2, se_guard = g64_new now,
      se_peer_fingerprint = peer_fingerprint, se_established_at = now,
      se_session_hash = compute_session_hash C master_key, se_role = role,
      se_streams = Map.empty, se_next_stream_id = 1, se_use_bulk = False,
      se_cipher_suite = X25519MlKem512V2, se_wire_v1 = False, se_ratchet = ratchet_new C master_key,
      se_pending_step = None, se_ratchet_step_at = None, se_ratchet_steps = 0,
      se_ratchet_in_progress = False, se_forced_ratchet_due = False, se_peer_identity_pk = None,
      se_pq_auth_state = 0, se_peer_pq_commitment = None, se_peer_pq_pk = None,
      se_pq_incoming_chunks = [], se_pq_auth_requested_at = now, se_pending_quantum_mix = None,
      se_quantum_mix_at = None, se_quantum_mix_attempt_at = None,
      se_quantum_mix_in_progress = False, se_quantum_mixed = False\<rparr>"

definition session_new :: "crates \<Rightarrow> instant \<Rightarrow> bytes \<Rightarrow> bytes \<Rightarrow> session" where
  "session_new C now master_key peer_fingerprint = new_with_role C now master_key peer_fingerprint Initiator"

section \<open>Identity, streams and counters\<close>

definition pin_peer_identity :: "session \<Rightarrow> bytes \<Rightarrow> session" where
  "pin_peer_identity s pk = s\<lparr>se_peer_identity_pk := Some pk\<rparr>"

definition is_pq_authenticated :: "session \<Rightarrow> bool" where
  "is_pq_authenticated s \<longleftrightarrow> se_peer_pq_commitment s = None \<or> se_pq_auth_state s = 1"

definition set_pq_authenticated :: "session \<Rightarrow> bool \<Rightarrow> session" where
  "set_pq_authenticated s valid = s\<lparr>se_pq_auth_state := (if valid then 1 else 2)\<rparr>"

definition pin_peer_pq_commitment :: "session \<Rightarrow> bytes \<Rightarrow> session" where
  "pin_peer_pq_commitment s commitment = s\<lparr>se_peer_pq_commitment := Some commitment\<rparr>"

definition set_peer_pq_pk :: "session \<Rightarrow> bytes \<Rightarrow> session" where
  "set_peer_pq_pk s pk = s\<lparr>se_peer_pq_pk := Some pk\<rparr>"

text \<open>The loop over \<open>0..total_chunks\<close>; a missing chunk returns \<open>None\<close> from the function.\<close>

fun assemble_chunks :: "(u8 \<times> bytes) list \<Rightarrow> nat list \<Rightarrow> bytes \<Rightarrow> bytes option" where
  "assemble_chunks chunks [] assembled = Some assembled"
| "assemble_chunks chunks (i # is) assembled =
     (case map_of chunks (of_nat i) of
        None \<Rightarrow> None
      | Some chunk \<Rightarrow> assemble_chunks chunks is (assembled @ chunk))"

definition store_pq_chunk :: "session \<Rightarrow> u8 \<Rightarrow> u8 \<Rightarrow> bytes \<Rightarrow> session \<times> bytes option" where
  "store_pq_chunk s chunk_idx total_chunks data =
     (let chunks = AList.update chunk_idx data (se_pq_incoming_chunks s);
          s = s\<lparr>se_pq_incoming_chunks := chunks\<rparr>
      in (s, if length chunks = unat total_chunks
             then assemble_chunks chunks [0..<unat total_chunks] [] else None))"

definition open_stream :: "session \<Rightarrow> instant \<Rightarrow> stream_type \<Rightarrow> session \<times> u16" where
  "open_stream s now stream_type =
     (let id = se_next_stream_id s;
          s = s\<lparr>se_next_stream_id := id + 1\<rparr>;
          id = (if id = 0 then 1 else id);
          id = id mod MAX_STREAMS
      in (s\<lparr>se_streams := (se_streams s)(id \<mapsto>
             \<lparr>st_stream_type = stream_type, st_recv_buf = [], st_next_seq = 0, st_created_at = now,
              st_bytes_recv = 0, st_bytes_sent = 0\<rparr>)\<rparr>, id))"

text \<open>Without a concurrent writer the compare-and-swap loop ends in its first turn.\<close>

definition try_next_tx_counter :: "session \<Rightarrow> session \<times> u64 option" where
  "try_next_tx_counter s =
     (if se_tx_counter s = - 1 then (s, None)
      else (s\<lparr>se_tx_counter := se_tx_counter s + 1\<rparr>, Some (se_tx_counter s + 1)))"

definition next_tx_counter :: "session \<Rightarrow> session \<times> u64" where
  "next_tx_counter s =
     (case try_next_tx_counter s of (s, r) \<Rightarrow> (s, case r of Some n \<Rightarrow> n | None \<Rightarrow> - 1))"

text \<open>Settings the handshake and the operator make.\<close>

definition set_cipher_suite :: "session \<Rightarrow> hybrid_cipher_suite \<Rightarrow> session" where
  "set_cipher_suite s suite = s\<lparr>se_cipher_suite := suite\<rparr>"

definition set_v1_wire :: "session \<Rightarrow> bool \<Rightarrow> session" where
  "set_v1_wire s v1 = s\<lparr>se_wire_v1 := v1\<rparr>"

definition enable_bulk :: "session \<Rightarrow> session" where
  "enable_bulk s = s\<lparr>se_use_bulk := True\<rparr>"

definition disable_bulk :: "session \<Rightarrow> session" where
  "disable_bulk s = s\<lparr>se_use_bulk := False\<rparr>"

definition zeroize_keys :: "session \<Rightarrow> session" where
  "zeroize_keys s = s\<lparr>se_master_key := map (\<lambda>_. 0) (se_master_key s)\<rparr>"

section \<open>Ratchet\<close>

definition session_advance_seal :: "crates \<Rightarrow> session \<Rightarrow> nonce_direction \<Rightarrow> session \<times> u64 \<times> bytes" where
  "session_advance_seal C s direction =
     (case advance_seal C (se_ratchet s) direction of (r, counter, key) \<Rightarrow> (s\<lparr>se_ratchet := r\<rparr>, counter, key))"

definition seal_direction :: "session \<Rightarrow> nonce_direction" where
  "seal_direction s = seal_direction_of (se_role s)"

definition session_commit_open :: "session \<Rightarrow> u64 \<Rightarrow> nonce_direction \<Rightarrow> open_plan \<Rightarrow> session" where
  "session_commit_open s epoch direction p = s\<lparr>se_ratchet := commit_open (se_ratchet s) epoch direction p\<rparr>"

definition trigger_forced_ratchet_step :: "session \<Rightarrow> instant \<Rightarrow> session \<times> bool" where
  "trigger_forced_ratchet_step s now =
     (if se_ratchet_in_progress s then (s, False)
      else
        (let limited = (case se_ratchet_step_at s of Some prev \<Rightarrow> now - prev < secs 15 | None \<Rightarrow> False)
         in if limited then (s, False)
            else (s\<lparr>se_ratchet_step_at := Some now, se_forced_ratchet_due := True\<rparr>, True)))"

definition ratchet_due :: "session \<Rightarrow> bool" where
  "ratchet_due s \<longleftrightarrow> epoch_capacity_left (se_ratchet s) = 0 \<or> se_forced_ratchet_due s"

definition activate_epoch :: "session \<Rightarrow> instant \<Rightarrow> u64 \<Rightarrow> session \<times> bool" where
  "activate_epoch s now epoch =
     (let (r, activated) = activate (se_ratchet s) epoch;
          s = s\<lparr>se_ratchet := r\<rparr>
      in if activated then
           (let s = s\<lparr>se_ratchet_steps := se_ratchet_steps s + 1\<rparr>;
                s = s\<lparr>se_guard := g64_reset (se_guard s) now\<rparr>;
                was_quantum_mix = (map_option pq_epoch (se_pending_quantum_mix s) = Some epoch);
                s = (if was_quantum_mix
                     then s\<lparr>se_pending_quantum_mix := None, se_quantum_mix_in_progress := False,
                            se_quantum_mix_at := None, se_quantum_mixed := True\<rparr>
                     else s)
            in (s, True))
         else (s, False))"

definition seal_material_at ::
  "crates \<Rightarrow> session \<Rightarrow> bytes \<Rightarrow> u64 \<Rightarrow> nonce_direction \<Rightarrow> u64 \<Rightarrow> sealing_material option" where
  "seal_material_at C s nonce epoch direction counter =
     (case open_key C (se_ratchet s) epoch direction counter of
        None \<Rightarrow> None
      | Some key \<Rightarrow> Some \<lparr>sm_key = key, sm_epoch = epoch, sm_counter = counter, sm_nonce = nonce,
                          sm_direction = direction, sm_ratchet_due = False\<rparr>)"

definition ratchet_step_stalled :: "session \<Rightarrow> instant \<Rightarrow> duration \<Rightarrow> bool" where
  "ratchet_step_stalled s now timeout =
     (if \<not> se_ratchet_in_progress s then False
      else case se_ratchet_step_at s of Some t \<Rightarrow> now - t > timeout | None \<Rightarrow> False)"

definition note_sealed_frame :: "session \<Rightarrow> session \<times> bool" where
  "note_sealed_frame s = (case count_seal (se_ratchet s) of (r, due) \<Rightarrow> (s\<lparr>se_ratchet := r\<rparr>, due))"

definition apply_ratchet_step :: "crates \<Rightarrow> session \<Rightarrow> instant \<Rightarrow> step_secrets \<Rightarrow> session \<times> u64" where
  "apply_ratchet_step C s now secrets =
     (let (r, epoch) = step C (se_ratchet s) secrets
      in (s\<lparr>se_ratchet := r, se_ratchet_steps := se_ratchet_steps s + 1, se_ratchet_in_progress := False,
            se_pending_step := None, se_ratchet_step_at := None, se_guard := g64_reset (se_guard s) now\<rparr>,
          epoch))"

definition begin_ratchet_step ::
  "crates \<Rightarrow> session \<Rightarrow> instant \<Rightarrow> bytes \<Rightarrow> bytes \<Rightarrow> session \<times> (bytes \<times> bytes) option" where
  "begin_ratchet_step C s now x_secret kem_dk =
     (if se_quantum_mix_in_progress s then (s, None)
      else if se_ratchet_in_progress s then (s, None)
      else
        (let s = s\<lparr>se_ratchet_in_progress := True, se_forced_ratchet_due := False\<rparr>;
             st = step_generate C x_secret kem_dk
         in (s\<lparr>se_pending_step := Some st, se_ratchet_step_at := Some now\<rparr>,
             Some (rst_x_public st, rst_kem_ek st))))"

definition finish_ratchet_step :: "crates \<Rightarrow> session \<Rightarrow> instant \<Rightarrow> ratchet_answer \<Rightarrow> session \<times> u64 option" where
  "finish_ratchet_step C s now answer =
     (case se_pending_step s of
        None \<Rightarrow> (s, None)
      | Some st \<Rightarrow>
          (let s = s\<lparr>se_pending_step := None\<rparr>
           in case step_finish C st (ra_x_public answer) (ra_kem_ct answer) of
                None \<Rightarrow> (s, None)
              | Some secrets \<Rightarrow>
                  (let direction = seal_direction s;
                       (previewed_epoch, key) = preview_step_key C (se_ratchet s) secrets direction
                   in if ra_epoch answer \<noteq> previewed_epoch then (s\<lparr>se_ratchet_in_progress := False\<rparr>, None)
                      else if ratchet_confirm C key \<noteq> ra_confirm answer
                      then (s\<lparr>se_ratchet_in_progress := False\<rparr>, None)
                      else (case apply_ratchet_step C s now secrets of (s, e) \<Rightarrow> (s, Some e)))))"

definition answer_ratchet_step ::
  "crates \<Rightarrow> session \<Rightarrow> bytes \<Rightarrow> bytes \<Rightarrow> bytes \<Rightarrow> bytes \<Rightarrow> bytes \<Rightarrow> (session \<times> ratchet_answer option, unit) rust" where
  "answer_ratchet_step C s x_secret kem_dk rnd peer_x peer_kem_pub =
     (let st = step_generate C x_secret kem_dk;
          our_x = rst_x_public st
      in case step_respond C rnd st peer_x peer_kem_pub of
           None \<Rightarrow> Ok (s, None)
         | Some (secrets, kem_ct) \<Rightarrow>
             (case prepare_step C (se_ratchet s) secrets (peer_direction (seal_direction s)) of
                Ok (r, epoch, key) \<Rightarrow>
                  Ok (s\<lparr>se_ratchet := r\<rparr>,
                      Some \<lparr>ra_x_public = our_x, ra_kem_ct = kem_ct,
                            ra_confirm = ratchet_confirm C key, ra_epoch = epoch\<rparr>)
              | _ \<Rightarrow> Panic))"

definition abandon_ratchet_step :: "session \<Rightarrow> session" where
  "abandon_ratchet_step s =
     s\<lparr>se_pending_step := None, se_ratchet_step_at := None, se_ratchet_in_progress := False\<rparr>"

definition admit_peer_step :: "session \<Rightarrow> bytes \<Rightarrow> session \<times> bool" where
  "admit_peer_step s our_fingerprint =
     (if \<not> se_ratchet_in_progress s then (s, True)
      else if str_less our_fingerprint (se_peer_fingerprint s) then (s, False)
      else (abandon_ratchet_step s, True))"

section \<open>Quantum mix\<close>

definition abandon_quantum_mix :: "session \<Rightarrow> session" where
  "abandon_quantum_mix s =
     s\<lparr>se_pending_quantum_mix := None, se_quantum_mix_at := None, se_quantum_mix_in_progress := False\<rparr>"

definition begin_quantum_mix ::
  "crates \<Rightarrow> session \<Rightarrow> instant \<Rightarrow> bytes \<Rightarrow> bytes \<Rightarrow> (session \<times> pending_quantum_mix option, unit) rust" where
  "begin_quantum_mix C s now quantum_key label =
     (if se_ratchet_in_progress s then Ok (s, None)
      else if se_quantum_mix_in_progress s then Ok (s, None)
      else
        (let s = s\<lparr>se_quantum_mix_in_progress := True\<rparr>
         in case prepare_quantum_mix C (se_ratchet s) quantum_key (seal_direction s) of
              Ok (r, epoch, key) \<Rightarrow>
                (let pending = \<lparr>pq_epoch = epoch, pq_confirm = ratchet_confirm C key, pq_label = label\<rparr>
                 in Ok (s\<lparr>se_ratchet := r, se_pending_quantum_mix := Some pending, se_quantum_mix_at := Some now\<rparr>,
                        Some pending))
            | _ \<Rightarrow> Panic))"

definition answer_quantum_mix ::
  "crates \<Rightarrow> session \<Rightarrow> instant \<Rightarrow> bytes \<Rightarrow> u64 \<Rightarrow> bytes \<Rightarrow> bytes \<Rightarrow> (session \<times> bytes option, unit) rust" where
  "answer_quantum_mix C s now quantum_key peer_epoch peer_confirm label =
     (if se_ratchet_in_progress s then Ok (s, None)
      else
        (let starter_direction = peer_direction (seal_direction s);
             (epoch, key) = preview_quantum_mix_key C (se_ratchet s) quantum_key starter_direction
         in if epoch \<noteq> peer_epoch then Ok (s, None)
            else
              (let confirm = ratchet_confirm C key
               in if confirm \<noteq> peer_confirm then Ok (s, None)
                  else
                    (case prepare_quantum_mix C (se_ratchet s) quantum_key starter_direction of
                       Ok (r, prepared_epoch, prepared_key) \<Rightarrow>
                         Ok (s\<lparr>se_ratchet := r,
                               se_pending_quantum_mix :=
                                 Some \<lparr>pq_epoch = prepared_epoch, pq_confirm = ratchet_confirm C prepared_key,
                                       pq_label = label\<rparr>,
                               se_quantum_mix_at := Some now\<rparr>, Some confirm)
                     | _ \<Rightarrow> Panic))))"

definition finish_quantum_mix :: "session \<Rightarrow> instant \<Rightarrow> u64 \<Rightarrow> bytes \<Rightarrow> session \<times> u64 option" where
  "finish_quantum_mix s now epoch confirm =
     (case se_pending_quantum_mix s of
        None \<Rightarrow> (s, None)
      | Some pending \<Rightarrow>
          if pq_epoch pending \<noteq> epoch then (abandon_quantum_mix s, None)
          else if pq_confirm pending \<noteq> confirm then (abandon_quantum_mix s, None)
          else
            (let (s, activated) = activate_epoch s now epoch
             in if \<not> activated then (abandon_quantum_mix s, None) else (s, Some epoch)))"

definition admit_peer_quantum_mix :: "session \<Rightarrow> bytes \<Rightarrow> session \<times> bool" where
  "admit_peer_quantum_mix s our_fingerprint =
     (if \<not> se_quantum_mix_in_progress s then (s, True)
      else if str_less our_fingerprint (se_peer_fingerprint s) then (s, False)
      else (abandon_quantum_mix s, True))"

definition quantum_mix_due :: "session \<Rightarrow> instant \<Rightarrow> duration \<Rightarrow> bool" where
  "quantum_mix_due s now interval =
     (if se_quantum_mixed s \<or> se_quantum_mix_in_progress s \<or> se_ratchet_in_progress s then False
      else case se_quantum_mix_attempt_at s of Some t \<Rightarrow> now - t \<ge> interval | None \<Rightarrow> True)"

definition note_quantum_mix_attempt :: "session \<Rightarrow> instant \<Rightarrow> session" where
  "note_quantum_mix_attempt s now = s\<lparr>se_quantum_mix_attempt_at := Some now\<rparr>"

definition quantum_mix_stalled :: "session \<Rightarrow> instant \<Rightarrow> duration \<Rightarrow> bool" where
  "quantum_mix_stalled s now timeout =
     (if \<not> se_quantum_mix_in_progress s then False
      else case se_quantum_mix_at s of Some t \<Rightarrow> now - t > timeout | None \<Rightarrow> False)"

section \<open>Frames and validity\<close>

definition check_inbound :: "session \<Rightarrow> instant \<Rightarrow> u64 \<Rightarrow> session \<times> bool" where
  "check_inbound s now counter =
     (case g64_check_and_update (se_guard s) now counter of (g, ok) \<Rightarrow> (s\<lparr>se_guard := g\<rparr>, ok))"

definition is_valid :: "session \<Rightarrow> instant \<Rightarrow> bool" where
  "is_valid s now =
     (if se_pq_auth_state s = 2 then False
      else if se_peer_pq_commitment s \<noteq> None \<and> se_pq_auth_state s = 0 \<and>
              now - se_pq_auth_requested_at s > secs 5 then False
      else g64_is_valid (se_guard s) now)"

definition frame_size :: "session \<Rightarrow> nat" where
  "frame_size s = (if se_use_bulk s then GTF_BULK_SIZE else GTF_BASE_SIZE)"

definition seal_material :: "crates \<Rightarrow> session \<Rightarrow> bytes \<Rightarrow> session \<times> sealing_material" where
  "seal_material C s nonce =
     (let epoch = sr_epoch (se_ratchet s);
          (r, counter, key) = advance_seal C (se_ratchet s) (seal_direction s);
          (r, due) = count_seal r;
          s = s\<lparr>se_ratchet := r, se_tx_counter := counter + 1\<rparr>;
          s = (if due then s\<lparr>se_forced_ratchet_due := True\<rparr> else s)
      in (s, \<lparr>sm_key = key, sm_epoch = epoch, sm_counter = counter, sm_nonce = nonce,
              sm_direction = seal_direction s, sm_ratchet_due = due\<rparr>))"

section \<open>Two ends of one session\<close>

text \<open>
  What the two ends share while they agree: opposite roles, one root key and epoch, and in each
  direction a message chain of one common seed (at possibly different positions).
\<close>

definition peers :: "crates \<Rightarrow> session \<Rightarrow> session \<Rightarrow> bool" where
  "peers C a b \<longleftrightarrow>
     seal_direction b = peer_direction (seal_direction a) \<and>
     sr_root_key (se_ratchet a) = sr_root_key (se_ratchet b) \<and>
     sr_epoch (se_ratchet a) = sr_epoch (se_ratchet b) \<and>
     (\<forall>d. \<exists>seed. chain_ok C seed (cur_msg (se_ratchet a) d) \<and> chain_ok C seed (cur_msg (se_ratchet b) d))"

lemma role_directions: "seal_direction_of Responder = peer_direction (seal_direction_of Initiator)"
  by simp

lemma peers_sym: "peers C a b \<Longrightarrow> peers C b a"
  unfolding peers_def by (metis peer_direction_twice)

lemma cur_msg_new:
  "\<exists>seed. cur_msg (ratchet_new C k) d = msg_chain_seed seed"
  by (cases d) (auto simp: cur_msg_def ratchet_new_def chain_seed_msg split: prod.splits)

lemma peers_new:
  "peers C (new_with_role C t k f Initiator) (new_with_role C t' k f' Responder)"
proof -
  have "\<exists>seed. chain_ok C seed (cur_msg (ratchet_new C k) d)" for d
    using cur_msg_new [of C k d] chain_ok_seed by metis
  then show ?thesis by (simp add: peers_def new_with_role_def seal_direction_def)
qed

lemma new_epoch_fields:
  "sr_root_key (new_epoch C r (rk, a, b)) = rk" "sr_epoch (new_epoch C r (rk, a, b)) = sr_epoch r + 1"
  "cur_msg (new_epoch C r (rk, a, b)) d = msg_chain_seed (epoch_seed_of C (sel_key d a b) (sr_epoch r + 1))"
  by (simp_all add: new_epoch_def Let_def cur_msg_def) (cases d; simp add: chain_seed_msg)

lemma step_new_epoch:
  "step C r s = ((new_epoch C r (kdf_rk_hybrid C (sr_root_key r) (dh s) (kem s)))\<lparr>sr_steps := sr_steps r + 1\<rparr>, sr_epoch r + 1)"
  by (cases "kdf_rk_hybrid C (sr_root_key r) (dh s) (kem s)") (simp add: step_def Let_def new_epoch_fields)

text \<open>What a prepared epoch is, and what activating it gives: the directly stepped epoch.\<close>

definition prepared :: "crates \<Rightarrow> session_ratchet \<Rightarrow> bytes \<times> bytes \<times> bytes \<Rightarrow> session_ratchet" where
  "prepared C r rk =
     (case rk of (k, a, b) \<Rightarrow> r\<lparr>sr_pending := Some \<lparr>pe_epoch = sr_epoch r + 1, pe_root_key = k,
        pe_to_resp = chain_seed C a (sr_epoch r + 1), pe_to_init = chain_seed C b (sr_epoch r + 1)\<rparr>\<rparr>)"

definition first_key :: "crates \<Rightarrow> session_ratchet \<Rightarrow> bytes \<times> bytes \<times> bytes \<Rightarrow> nonce_direction \<Rightarrow> bytes" where
  "first_key C r rk d =
     (case rk of (k, a, b) \<Rightarrow> key_at C (epoch_seed_of C (sel_key d a b) (sr_epoch r + 1)) 0)"

lemma prepare_epoch_prepared: "prepare_epoch C r rk d = Ok (prepared C r rk, sr_epoch r + 1, first_key C r rk d)"
  by (cases rk) (simp add: prepare_epoch_ok prepared_def first_key_def)

lemma preview_key_first: "preview_key C r rk d = (sr_epoch r + 1, first_key C r rk d)"
  by (cases rk) (simp add: preview_key_eq first_key_def)

lemma prepared_fields [simp]:
  "sr_epoch (prepared C r rk) = sr_epoch r" "sr_root_key (prepared C r rk) = sr_root_key r"
  "cur_msg (prepared C r rk) d = cur_msg r d" "sr_steps (prepared C r rk) = sr_steps r"
  by (cases rk; simp add: prepared_def cur_msg_def)+

lemma prepared_again: "prepared C (prepared C r rk) rk' = prepared C r rk'"
  by (cases rk; cases rk') (simp add: prepared_def)

lemma activate_prepared:
  "activate (prepared C r rk) (sr_epoch r + 1) = ((new_epoch C r rk)\<lparr>sr_steps := sr_steps r + 1\<rparr>, True)"
  by (cases rk) (simp add: activate_def prepared_def new_epoch_def Let_def retire_def)

lemma open_key_prepared: "open_key C (prepared C r rk) (sr_epoch r + 1) d 0 = Some (first_key C r rk d)"
  by (cases rk) (simp add: open_key_def plan_open_def open_chain_def prepared_def sel_chain_seed plan_seed first_key_def)

lemma cur_msg_steps [simp]: "cur_msg (r\<lparr>sr_steps := n\<rparr>) d = cur_msg r d"
  by (simp add: cur_msg_def)

lemma seal_key_new_epoch: "seal_key C ((new_epoch C r rk)\<lparr>sr_steps := n\<rparr>) d = first_key C r rk d"
  by (cases rk) (simp add: first_key_def seal_key_seed [OF trans [OF cur_msg_steps new_epoch_fields(3)]])

text \<open>Two agreeing ends that open a new epoch over one root-key derivation agree again.\<close>

lemma peers_new_epoch:
  assumes "peers C a b" and "se_ratchet a' = (new_epoch C (se_ratchet a) rk)\<lparr>sr_steps := m\<rparr>"
    and "se_ratchet b' = (new_epoch C (se_ratchet b) rk)\<lparr>sr_steps := n\<rparr>" and "se_role a' = se_role a" and "se_role b' = se_role b"
  shows "peers C a' b'"
  using assms chain_ok_seed
  by (cases rk) (auto simp: peers_def seal_direction_def new_epoch_fields)

lemma first_key_cong:
  "sr_epoch r = sr_epoch r' \<Longrightarrow> first_key C r rk d = first_key C r' rk d"
  by (simp add: first_key_def)

lemma activate_epoch_prepared:
  assumes "se_ratchet s = prepared C r rk"
  shows "\<exists>s'. activate_epoch s now (sr_epoch r + 1) = (s', True) \<and>
     se_ratchet s' = (new_epoch C r rk)\<lparr>sr_steps := sr_steps r + 1\<rparr> \<and> se_role s' = se_role s \<and>
     se_quantum_mixed s' =
       (se_quantum_mixed s \<or> map_option pq_epoch (se_pending_quantum_mix s) = Some (sr_epoch r + 1)) \<and>
     se_guard s' = g64_reset (se_guard s) now"
  by (auto simp: activate_epoch_def assms activate_prepared Let_def)

text \<open>The outcome of finishing a step, given the secrets the pending material yields.\<close>

lemma finish_ratchet_step_eq:
  assumes "se_pending_step s = Some st" and "step_finish C st (ra_x_public ans) (ra_kem_ct ans) = Some sec"
  defines "r \<equiv> se_ratchet s"
  defines "rk \<equiv> kdf_rk_hybrid C (sr_root_key r) (dh sec) (kem sec)"
  shows "finish_ratchet_step C s now ans =
    (if ra_epoch ans \<noteq> sr_epoch r + 1 \<or> ratchet_confirm C (first_key C r rk (seal_direction s)) \<noteq> ra_confirm ans
     then (s\<lparr>se_pending_step := None, se_ratchet_in_progress := False\<rparr>, None)
     else (fst (apply_ratchet_step C (s\<lparr>se_pending_step := None\<rparr>) now sec), Some (sr_epoch r + 1)))"
  using assms(1,2)
  by (simp add: finish_ratchet_step_def Let_def seal_direction_def preview_step_key_def preview_key_first
      apply_ratchet_step_def step_new_epoch r_def rk_def)

section \<open>Properties\<close>

text \<open>
  C5. The ratchet exchange over two ends that agree: the started step is answered, the answer is
  accepted, the starter moves to the next epoch while the answering end keeps sealing in the old one
  but already opens the new one with the starter's first key; when it activates, both ends agree
  again, one epoch later.
\<close>

theorem ratchet_exchange_keeps_agreement:
  assumes "kex_law C" and "peers C a b" and "\<not> se_ratchet_in_progress a" and "\<not> se_quantum_mix_in_progress a"
  shows "\<exists>a1 x k b1 ans a2 b2. begin_ratchet_step C a t xa dka = (a1, Some (x, k)) \<and>
    answer_ratchet_step C b xb dkb rnd x k = Ok (b1, Some ans) \<and>
    finish_ratchet_step C a1 t' ans = (a2, Some (sr_epoch (se_ratchet a) + 1)) \<and>
    sr_epoch (se_ratchet a2) = sr_epoch (se_ratchet a) + 1 \<and> sr_epoch (se_ratchet b1) = sr_epoch (se_ratchet a) \<and>
    (\<forall>d. cur_msg (se_ratchet b1) d = cur_msg (se_ratchet b) d) \<and>
    open_key C (se_ratchet b1) (sr_epoch (se_ratchet a) + 1) (seal_direction a) 0 =
      Some (seal_key C (se_ratchet a2) (seal_direction a)) \<and>
    activate_epoch b1 t'' (sr_epoch (se_ratchet a) + 1) = (b2, True) \<and>
    sr_epoch (se_ratchet b2) = sr_epoch (se_ratchet a) + 1 \<and> peers C a2 b2"
proof -
  define st where "st = step_generate C xa dka"
  define st' where "st' = step_generate C xb dkb"
  define ra rb where "ra = se_ratchet a" and "rb = se_ratchet b"
  obtain sec ct where resp: "step_respond C rnd st' (rst_x_public st) (rst_kem_ek st) = Some (sec, ct)"
    and fin: "step_finish C st (rst_x_public st') ct = Some sec"
    unfolding st_def st'_def by (rule hybrid_secrets [OF assms(1)])
  have eq: "sr_root_key rb = sr_root_key ra" "sr_epoch rb = sr_epoch ra" "seal_direction a = peer_direction (seal_direction b)"
    using assms(2) by (simp_all add: peers_def ra_def rb_def)
  define rk where "rk = kdf_rk_hybrid C (sr_root_key ra) (dh sec) (kem sec)"
  define a1 where "a1 = a\<lparr>se_ratchet_in_progress := True, se_forced_ratchet_due := False, se_pending_step := Some st,
      se_ratchet_step_at := Some t\<rparr>"
  define b1 where "b1 = b\<lparr>se_ratchet := prepared C rb rk\<rparr>"
  define ans where "ans = \<lparr>ra_x_public = rst_x_public st', ra_kem_ct = ct,
      ra_confirm = ratchet_confirm C (first_key C rb rk (seal_direction a)), ra_epoch = sr_epoch ra + 1\<rparr>"
  define a2 where "a2 = a1\<lparr>se_pending_step := None, se_ratchet := (new_epoch C ra rk)\<lparr>sr_steps := sr_steps ra + 1\<rparr>,
      se_ratchet_steps := se_ratchet_steps a + 1, se_ratchet_in_progress := False, se_ratchet_step_at := None,
      se_guard := g64_reset (se_guard a) t'\<rparr>"
  have beg: "begin_ratchet_step C a t xa dka = (a1, Some (rst_x_public st, rst_kem_ek st))"
    using assms(3,4) by (simp add: begin_ratchet_step_def Let_def a1_def st_def)
  have "prepare_step C rb sec (seal_direction a) = Ok (prepared C rb rk, sr_epoch ra + 1, first_key C rb rk (seal_direction a))"
    by (simp add: prepare_step_def rk_def eq(1) prepare_epoch_prepared eq(2))
  then have answer: "answer_ratchet_step C b xb dkb rnd (rst_x_public st) (rst_kem_ek st) = Ok (b1, Some ans)"
    using resp eq(3) by (simp add: answer_ratchet_step_def Let_def st'_def [symmetric] b1_def ans_def rb_def)
  have fk: "first_key C rb rk d = first_key C ra rk d" for d using first_key_cong eq(2) by metis
  have r1: "se_ratchet a1 = ra" "seal_direction a1 = seal_direction a" by (simp_all add: a1_def ra_def seal_direction_def)
  have app: "apply_ratchet_step C (a1\<lparr>se_pending_step := None\<rparr>) t' sec = (a2, sr_epoch ra + 1)"
    by (simp add: apply_ratchet_step_def Let_def r1(1) step_new_epoch rk_def [symmetric] a2_def)
      (simp add: a1_def)
  have finish: "finish_ratchet_step C a1 t' ans = (a2, Some (sr_epoch ra + 1))"
    using finish_ratchet_step_eq [of a1 st C ans sec t'] fin app fk r1
    by (simp add: ans_def rk_def) (simp add: a1_def)
  obtain b2 where act: "activate_epoch b1 t'' (sr_epoch ra + 1) = (b2, True)"
    "se_ratchet b2 = (new_epoch C rb rk)\<lparr>sr_steps := sr_steps rb + 1\<rparr>" "se_role b2 = se_role b1"
    using activate_epoch_prepared [of b1 C rb rk t''] eq(2) by (auto simp: b1_def)
  have a2r: "se_ratchet a2 = (new_epoch C ra rk)\<lparr>sr_steps := sr_steps ra + 1\<rparr>" "se_role a2 = se_role a"
    by (simp_all add: a2_def a1_def)
  have "peers C a2 b2"
    by (rule peers_new_epoch [OF assms(2), where rk = rk]) (use a2r act in \<open>simp_all add: ra_def rb_def b1_def\<close>)
  moreover have "open_key C (prepared C rb rk) (sr_epoch ra + 1) (seal_direction a) 0 = Some (seal_key C (se_ratchet a2) (seal_direction a))"
    using open_key_prepared [of C rb rk "seal_direction a"] by (simp add: eq(2) a2r seal_key_new_epoch fk)
  moreover have "sr_epoch (se_ratchet a2) = sr_epoch ra + 1" "sr_epoch (se_ratchet b2) = sr_epoch ra + 1"
    using a2r act(2) eq(2) by (cases rk; simp add: new_epoch_fields)+
  moreover have b1f: "se_ratchet b1 = prepared C rb rk" by (simp add: b1_def)
  ultimately show ?thesis
    using beg answer finish act(1) unfolding ra_def [symmetric] rb_def [symmetric]
    by (intro exI [of _ a1] exI [of _ "rst_x_public st"] exI [of _ "rst_kem_ek st"] exI [of _ b1] exI [of _ ans]
        exI [of _ a2] exI [of _ b2]) (simp add: b1f eq(2))
qed

text \<open>Two freshly established ends of one session.\<close>

definition demo_a :: session where "demo_a = new_with_role demo_crates 0 [9] [1] Initiator"
definition demo_b :: session where "demo_b = new_with_role demo_crates 0 [9] [2] Responder"

lemma demo_peers: "peers demo_crates demo_a demo_b" "\<not> se_ratchet_in_progress demo_a"
    "\<not> se_quantum_mix_in_progress demo_a" "\<not> se_ratchet_in_progress demo_b"
  unfolding demo_a_def demo_b_def using peers_new by (simp_all add: new_with_role_def)

theorem ratchet_exchange_witness:
  "\<exists>a1 x k b1 ans a2 b2. begin_ratchet_step demo_crates demo_a 1 [3] [4] = (a1, Some (x, k)) \<and>
     answer_ratchet_step demo_crates demo_b [5] [6] [7] x k = Ok (b1, Some ans) \<and>
     finish_ratchet_step demo_crates a1 2 ans = (a2, Some 1) \<and> activate_epoch b1 3 1 = (b2, True) \<and>
     peers demo_crates a2 b2"
proof -
  have "sr_epoch (se_ratchet demo_a) = 0"
    by (simp add: demo_a_def new_with_role_def ratchet_new_def split: prod.splits)
  then show ?thesis
    using ratchet_exchange_keeps_agreement [OF demo_laws(5) demo_peers(1-3), of 1 "[3]" "[4]" "[5]" "[6]" "[7]" 2 3]
    by (simp only: add_0) blast
qed

text \<open>
  An answer can only complete the step it confirms: finishing returns a new epoch only if the
  answer names the next epoch and carries the confirmation tag of the key this end will seal with
  there, and then the ratchet is the stepped one; in every other case, forged, stale or unsolicited,
  the ratchet and the replay guard are exactly as before.
\<close>

theorem finish_only_confirmed_steps:
  "case finish_ratchet_step C s now ans of
     (s', None) \<Rightarrow> se_ratchet s' = se_ratchet s \<and> se_guard s' = se_guard s
   | (s', Some e) \<Rightarrow> e = sr_epoch (se_ratchet s) + 1 \<and> ra_epoch ans = e \<and> sr_epoch (se_ratchet s') = e \<and>
       ra_confirm ans = ratchet_confirm C (seal_key C (se_ratchet s') (seal_direction s)) \<and>
       (\<exists>secrets. se_ratchet s' = fst (step C (se_ratchet s) secrets))"
proof (cases "se_pending_step s")
  case None
  then show ?thesis by (simp add: finish_ratchet_step_def)
next
  case (Some st)
  show ?thesis
  proof (cases "step_finish C st (ra_x_public ans) (ra_kem_ct ans)")
    case None
    then show ?thesis using Some by (simp add: finish_ratchet_step_def Let_def)
  next
    case (Some sec)
    note eq = finish_ratchet_step_eq [OF \<open>se_pending_step s = Some st\<close> Some, of now]
    let ?s' = "fst (apply_ratchet_step C (s\<lparr>se_pending_step := None\<rparr>) now sec)"
    have "se_ratchet ?s' = fst (step C (se_ratchet s) sec)"
      by (simp add: apply_ratchet_step_def Let_def split: prod.splits)
    moreover have "sr_epoch (fst (step C (se_ratchet s) sec)) = sr_epoch (se_ratchet s) + 1"
      by (cases "kdf_rk_hybrid C (sr_root_key (se_ratchet s)) (dh sec) (kem sec)")
        (simp add: step_new_epoch new_epoch_fields)
    moreover have "seal_key C (fst (step C (se_ratchet s) sec)) d =
        first_key C (se_ratchet s) (kdf_rk_hybrid C (sr_root_key (se_ratchet s)) (dh sec) (kem sec)) d" for d
      by (simp add: step_new_epoch seal_key_new_epoch)
    ultimately show ?thesis by (auto simp: eq)
  qed
qed

text \<open>
  C22. Crossed steps, and crossed quantum mixes: when both ends of a session have one in flight,
  exactly one of them yields, drops its own exchange and answers the other's.
\<close>

theorem crossed_exchanges_have_one_winner:
  assumes "fa \<noteq> fb" and "se_peer_fingerprint a = fb" and "se_peer_fingerprint b = fa"
  shows "(se_ratchet_in_progress a \<and> se_ratchet_in_progress b \<longrightarrow>
       snd (admit_peer_step a fa) \<noteq> snd (admit_peer_step b fb)) \<and>
    (se_quantum_mix_in_progress a \<and> se_quantum_mix_in_progress b \<longrightarrow>
       snd (admit_peer_quantum_mix a fa) \<noteq> snd (admit_peer_quantum_mix b fb)) \<and>
    se_ratchet_in_progress (fst (admit_peer_step a fa)) =
      (se_ratchet_in_progress a \<and> \<not> snd (admit_peer_step a fa)) \<and>
    se_quantum_mix_in_progress (fst (admit_peer_quantum_mix a fa)) =
      (se_quantum_mix_in_progress a \<and> \<not> snd (admit_peer_quantum_mix a fa))"
  using str_less_total [OF assms(1)] assms(2,3)
  by (auto simp: admit_peer_step_def admit_peer_quantum_mix_def abandon_ratchet_step_def abandon_quantum_mix_def)

theorem crossed_exchanges_witness:
  "snd (admit_peer_step (demo_a\<lparr>se_ratchet_in_progress := True, se_peer_fingerprint := [2]\<rparr>) [1]) \<noteq>
   snd (admit_peer_step (demo_b\<lparr>se_ratchet_in_progress := True, se_peer_fingerprint := [1]\<rparr>) [2])"
  using crossed_exchanges_have_one_winner [of "[1]" "[2]"
      "demo_a\<lparr>se_ratchet_in_progress := True, se_peer_fingerprint := [2]\<rparr>"
      "demo_b\<lparr>se_ratchet_in_progress := True, se_peer_fingerprint := [1]\<rparr>"] by simp

section \<open>Quantum mix\<close>

lemma prepare_mix_prepared:
  "prepare_quantum_mix C r q d =
     Ok (prepared C r (kdf_rk_quantum_mix C (sr_root_key r) q), sr_epoch r + 1,
         first_key C r (kdf_rk_quantum_mix C (sr_root_key r) q) d)"
  by (simp add: prepare_quantum_mix_def prepare_epoch_prepared)

lemma preview_mix_first:
  "preview_quantum_mix_key C r q d = (sr_epoch r + 1, first_key C r (kdf_rk_quantum_mix C (sr_root_key r) q) d)"
  by (simp add: preview_quantum_mix_key_def preview_key_first)

lemma begin_mix_eq:
  fixes C :: crates and q l :: bytes
  assumes "\<not> se_ratchet_in_progress a" and "\<not> se_quantum_mix_in_progress a"
  defines "r \<equiv> se_ratchet a"
  defines "rk \<equiv> kdf_rk_quantum_mix C (sr_root_key r) q"
  defines "p \<equiv> \<lparr>pq_epoch = sr_epoch r + 1, pq_confirm = ratchet_confirm C (first_key C r rk (seal_direction a)), pq_label = l\<rparr>"
  shows "begin_quantum_mix C a t q l =
    Ok (a\<lparr>se_quantum_mix_in_progress := True, se_ratchet := prepared C r rk, se_pending_quantum_mix := Some p,
          se_quantum_mix_at := Some t\<rparr>, Some p)"
  using assms(1,2) by (simp add: begin_quantum_mix_def Let_def prepare_mix_prepared r_def rk_def p_def seal_direction_def)

lemma answer_mix_eq:
  fixes C :: crates and q :: bytes
  assumes "\<not> se_ratchet_in_progress b"
  defines "r \<equiv> se_ratchet b"
  defines "rk \<equiv> kdf_rk_quantum_mix C (sr_root_key r) q"
  defines "c \<equiv> ratchet_confirm C (first_key C r rk (peer_direction (seal_direction b)))"
  shows "answer_quantum_mix C b t q e conf l =
    (if e = sr_epoch r + 1 \<and> conf = c
     then Ok (b\<lparr>se_ratchet := prepared C r rk,
                se_pending_quantum_mix := Some \<lparr>pq_epoch = sr_epoch r + 1, pq_confirm = c, pq_label = l\<rparr>,
                se_quantum_mix_at := Some t\<rparr>, Some c)
     else Ok (b, None))"
  using assms(1)
  by (auto simp: answer_quantum_mix_def Let_def preview_mix_first prepare_mix_prepared r_def rk_def c_def)

text \<open>
  The quantum mix: between two agreeing ends that hold the same key it is answered, confirmed
  and activated on both, which then agree one epoch later and both count as mixed; an end whose key
  gives another confirmation tag, or that is asked for another epoch, or has a step in flight,
  refuses and does not change at all.
\<close>

theorem quantum_mix_keeps_agreement:
  assumes "peers C a b" and "\<not> se_ratchet_in_progress a" and "\<not> se_quantum_mix_in_progress a"
    and "\<not> se_ratchet_in_progress b"
  shows "\<exists>a1 p b1 conf a2 b2. begin_quantum_mix C a t q l = Ok (a1, Some p) \<and>
    answer_quantum_mix C b t q (pq_epoch p) (pq_confirm p) l = Ok (b1, Some conf) \<and>
    finish_quantum_mix a1 t' (pq_epoch p) conf = (a2, Some (pq_epoch p)) \<and>
    activate_epoch b1 t' (pq_epoch p) = (b2, True) \<and> peers C a2 b2 \<and>
    sr_epoch (se_ratchet a2) = sr_epoch (se_ratchet a) + 1 \<and>
    se_quantum_mixed a2 \<and> se_quantum_mixed b2 \<and> \<not> se_quantum_mix_in_progress a2 \<and>
    (\<forall>q'. ratchet_confirm C (snd (preview_quantum_mix_key C (se_ratchet b) q' (seal_direction a))) \<noteq> pq_confirm p \<longrightarrow>
       answer_quantum_mix C b t q' (pq_epoch p) (pq_confirm p) l = Ok (b, None))"
proof -
  define ra rb where "ra = se_ratchet a" and "rb = se_ratchet b"
  have eq: "sr_root_key rb = sr_root_key ra" "sr_epoch rb = sr_epoch ra" "peer_direction (seal_direction b) = seal_direction a"
    using assms(1) by (simp_all add: peers_def ra_def rb_def)
  define rk where "rk = kdf_rk_quantum_mix C (sr_root_key ra) q"
  define conf where "conf = ratchet_confirm C (first_key C ra rk (seal_direction a))"
  define p where "p = \<lparr>pq_epoch = sr_epoch ra + 1, pq_confirm = conf, pq_label = l\<rparr>"
  define a1 where "a1 = a\<lparr>se_quantum_mix_in_progress := True, se_ratchet := prepared C ra rk,
      se_pending_quantum_mix := Some p, se_quantum_mix_at := Some t\<rparr>"
  define b1 where "b1 = b\<lparr>se_ratchet := prepared C rb rk, se_pending_quantum_mix := Some p, se_quantum_mix_at := Some t\<rparr>"
  have beg: "begin_quantum_mix C a t q l = Ok (a1, Some p)"
    using begin_mix_eq [OF assms(2,3), of C t q l] by (simp add: a1_def p_def conf_def rk_def ra_def)
  have fk: "first_key C rb k d = first_key C ra k d" for k d by (rule first_key_cong) (rule eq(2))
  have ans: "answer_quantum_mix C b t q (pq_epoch p) (pq_confirm p) l = Ok (b1, Some conf)"
    using answer_mix_eq [OF assms(4), of C t q "pq_epoch p" "pq_confirm p" l] eq
    by (simp add: b1_def p_def conf_def rk_def rb_def [symmetric] fk)
  obtain a2 where a2: "activate_epoch a1 t' (sr_epoch ra + 1) = (a2, True)"
    "se_ratchet a2 = (new_epoch C ra rk)\<lparr>sr_steps := sr_steps ra + 1\<rparr>" "se_role a2 = se_role a1" "se_quantum_mixed a2"
    using activate_epoch_prepared [of a1 C ra rk t'] by (auto simp: a1_def p_def)
  obtain b2 where b2: "activate_epoch b1 t' (sr_epoch ra + 1) = (b2, True)"
    "se_ratchet b2 = (new_epoch C rb rk)\<lparr>sr_steps := sr_steps rb + 1\<rparr>" "se_role b2 = se_role b1" "se_quantum_mixed b2"
    using activate_epoch_prepared [of b1 C rb rk t'] by (auto simp: b1_def p_def eq)
  have prog: "\<not> se_quantum_mix_in_progress a2"
    using a2(1) by (auto simp: activate_epoch_def a1_def p_def activate_prepared Let_def)
  have fin: "finish_quantum_mix a1 t' (pq_epoch p) conf = (a2, Some (pq_epoch p))"
    using a2(1) by (simp add: finish_quantum_mix_def a1_def p_def)
  have "peers C a2 b2"
    by (rule peers_new_epoch [OF assms(1), where rk = rk]) (use a2 b2 in \<open>simp_all add: ra_def rb_def a1_def b1_def\<close>)
  moreover have "sr_epoch (se_ratchet a2) = sr_epoch ra + 1" using a2(2) by (cases rk) (simp add: new_epoch_fields)
  moreover have "answer_quantum_mix C b t q' (pq_epoch p) (pq_confirm p) l = Ok (b, None)"
    if "ratchet_confirm C (snd (preview_quantum_mix_key C rb q' (seal_direction a))) \<noteq> pq_confirm p" for q'
    using answer_mix_eq [OF assms(4), of C t q' "pq_epoch p" "pq_confirm p" l] that eq(3)
    by (auto simp: preview_mix_first rb_def)
  ultimately show ?thesis using beg ans fin b2(1,4) a2(4) prog
    by (intro exI [of _ a1] exI [of _ p] exI [of _ b1] exI [of _ conf] exI [of _ a2] exI [of _ b2])
      (auto simp: p_def ra_def rb_def)
qed

theorem quantum_mix_witness:
  "\<exists>a1 p b1 conf. begin_quantum_mix demo_crates demo_a 1 [8] [97] = Ok (a1, Some p) \<and>
     answer_quantum_mix demo_crates demo_b 1 [8] (pq_epoch p) (pq_confirm p) [97] = Ok (b1, Some conf)"
  using quantum_mix_keeps_agreement [OF demo_peers, of 1 "[8]" "[97]" 2] by blast

text \<open>
  A step answered while a mix is in flight replaces the prepared epoch, and nothing checks for
  it: when that DH epoch is then activated, the session drops its mix and reports itself as quantum
  mixed although the root key is the hybrid step's and the quantum key was never mixed in.
\<close>

theorem step_during_mix_counts_as_mixed:
  assumes "kex_law C" and "\<not> se_ratchet_in_progress s" and "\<not> se_quantum_mix_in_progress s"
  shows "\<exists>s1 p s2 ans s3. \<exists>secrets :: step_secrets. begin_quantum_mix C s t q l = Ok (s1, Some p) \<and>
    answer_ratchet_step C s1 x dk rnd (x25519_public C x') (mlkem_public C dk') = Ok (s2, Some ans) \<and>
    activate_epoch s2 t' (pq_epoch p) = (s3, True) \<and> se_quantum_mixed s3 \<and>
    sr_root_key (se_ratchet s3) = fst (kdf_rk_hybrid C (sr_root_key (se_ratchet s)) (dh secrets) (kem secrets))"
proof -
  define r where "r = se_ratchet s"
  define st where "st = step_generate C x dk"
  obtain sec ct where resp: "step_respond C rnd st (x25519_public C x') (mlkem_public C dk') = Some (sec, ct)"
    by (rule hybrid_secrets [OF assms(1), of rnd x dk x' dk']) (simp add: st_def step_generate_def)
  define rk where "rk = kdf_rk_hybrid C (sr_root_key r) (dh sec) (kem sec)"
  obtain s1 p where b: "begin_quantum_mix C s t q l = Ok (s1, Some p)" "pq_epoch p = sr_epoch r + 1"
    "se_pending_quantum_mix s1 = Some p" "se_ratchet s1 = prepared C r (kdf_rk_quantum_mix C (sr_root_key r) q)"
    using begin_mix_eq [OF assms(2,3), of C t q l] by (simp add: r_def)
  have "prepare_step C (se_ratchet s1) sec d = Ok (prepared C r rk, sr_epoch r + 1, first_key C (se_ratchet s1) rk d)" for d
    by (simp add: prepare_step_def b(4) prepare_epoch_prepared prepared_again rk_def)
  then obtain ans where a: "answer_ratchet_step C s1 x dk rnd (x25519_public C x') (mlkem_public C dk') =
      Ok (s1\<lparr>se_ratchet := prepared C r rk\<rparr>, Some ans)"
    using resp by (simp add: answer_ratchet_step_def Let_def st_def)
  obtain s3 where c: "activate_epoch (s1\<lparr>se_ratchet := prepared C r rk\<rparr>) t' (sr_epoch r + 1) = (s3, True)"
    "se_ratchet s3 = (new_epoch C r rk)\<lparr>sr_steps := sr_steps r + 1\<rparr>" "se_quantum_mixed s3"
    using activate_epoch_prepared [of "s1\<lparr>se_ratchet := prepared C r rk\<rparr>" C r rk t'] b(2,3) by auto
  have "sr_root_key (se_ratchet s3) = fst rk" using c(2) by (cases rk) (simp add: new_epoch_fields)
  then have "sr_root_key (se_ratchet s3) = fst (kdf_rk_hybrid C (sr_root_key (se_ratchet s)) (dh sec) (kem sec))"
    by (simp add: rk_def r_def)
  then show ?thesis using a b(1) c(1) [folded b(2)] c(3) by blast
qed

theorem step_during_mix_witness:
  "\<exists>s1 p s2 ans s3. begin_quantum_mix demo_crates demo_a 1 [8] [97] = Ok (s1, Some p) \<and>
     answer_ratchet_step demo_crates s1 [1] [2] [3] (x25519_public demo_crates [4]) (mlkem_public demo_crates [5]) = Ok (s2, Some ans) \<and>
     activate_epoch s2 2 (pq_epoch p) = (s3, True) \<and> se_quantum_mixed s3"
  using step_during_mix_counts_as_mixed [OF demo_laws(5) demo_peers(2,3), of 1 "[8]" "[97]" "[1]" "[2]" "[3]" "[4]" "[5]" 2]
  by blast

section \<open>Sealing and opening\<close>

lemma open_chain_current: "epochs_ok r \<Longrightarrow> open_chain r (sr_epoch r) d = Some (cur_msg r d)"
  by (auto simp: open_chain_def epochs_ok_def split: option.splits)

lemma commit_open_current: "epochs_ok r \<Longrightarrow> commit_open r (sr_epoch r) d p = upd_cur d (\<lambda>mc. commit mc p) r"
  by (auto simp: commit_open_def Let_def epochs_ok_def split: option.splits)

lemma cur_msg_upd: "cur_msg (upd_cur d f r) d' = (if d = d' then f (cur_msg r d) else cur_msg r d')"
  by (cases d; cases d') (simp_all add: cur_msg_def on_msg_def)

lemma upd_cur_root [simp]: "sr_root_key (upd_cur d f r) = sr_root_key r"
  by (cases d) simp_all

lemma epochs_ok_upd_cur [simp]: "epochs_ok (upd_cur d f r) = epochs_ok r"
  by (auto simp: epochs_ok_def split: option.splits)

lemma open_key_current:
  assumes "epochs_ok r"
  shows "open_key C r (sr_epoch r) d c = key_for C (cur_msg r d) c"
  by (simp add: open_key_def plan_open_def open_chain_current [OF assms] key_for_def split: open_plan.splits)

text \<open>Sealing moves the sender's chain by one message and keeps everything else the ends share.\<close>

definition same_session :: "session \<Rightarrow> session \<Rightarrow> bool" where
  "same_session s s' \<longleftrightarrow>
     se_master_key s' = se_master_key s \<and> se_session_hash s' = se_session_hash s \<and> se_role s' = se_role s \<and>
     se_cipher_suite s' = se_cipher_suite s \<and> se_peer_identity_pk s' = se_peer_identity_pk s \<and>
     se_peer_pq_commitment s' = se_peer_pq_commitment s \<and> se_pq_auth_state s' = se_pq_auth_state s \<and>
     se_peer_pq_pk s' = se_peer_pq_pk s \<and> se_pq_incoming_chunks s' = se_pq_incoming_chunks s"

definition seal_pos :: "session \<Rightarrow> u64" where
  "seal_pos s = mc_pos (cur_msg (se_ratchet s) (seal_direction s))"

lemma seal_material_keeps:
  assumes "seal_material C a nonce = (a', m)"
  shows "same_session a a'" and "sm_nonce m = nonce"
    and "peers C a b \<Longrightarrow> seal_pos a \<noteq> - 1 \<Longrightarrow> peers C a' b \<and> seal_pos a' = seal_pos a + 1"
proof -
  define ra d where "ra = se_ratchet a" and "d = seal_direction a"
  define r' where "r' = (upd_cur d (\<lambda>_. fst (advance C (cur_msg ra d))) ra)\<lparr>sr_frames_in_epoch := sr_frames_in_epoch ra + 1\<rparr>"
  have fr: "sr_frames_in_epoch (upd_cur d f ra) = sr_frames_in_epoch ra" for f by (cases d) simp_all
  have a': "se_ratchet a' = r'" "se_role a' = se_role a" "same_session a a'" "sm_nonce m = nonce"
    using assms by (auto simp: seal_material_def ra_def d_def count_seal_def Let_def advance_seal_def fr [unfolded ra_def d_def]
        r'_def same_session_def split: prod.splits if_splits)
  show "same_session a a'" "sm_nonce m = nonce" using a' by simp_all
  have cm: "cur_msg r' d' = (if d = d' then fst (advance C (cur_msg ra d)) else cur_msg ra d')" for d'
    by (cases d; cases d') (simp_all add: r'_def cur_msg_def on_msg_def)
  assume p: "peers C a b" and n: "seal_pos a \<noteq> - 1"
  obtain seed where ok: "chain_ok C seed (cur_msg ra d)" "chain_ok C seed (cur_msg (se_ratchet b) d)"
    using p by (auto simp: peers_def ra_def)
  have n': "mc_pos (cur_msg ra d) \<noteq> - 1" using n by (simp add: seal_pos_def ra_def d_def)
  note adv = advance_ok [OF ok(1) n']
  have "peers C a' b"
    using p adv(1) ok(2) a' cm by (auto simp: peers_def seal_direction_def ra_def [symmetric] r'_def)
  moreover have "seal_pos a' = seal_pos a + 1"
    using a' cm adv(3) by (simp add: seal_pos_def seal_direction_def d_def ra_def)
  ultimately show "peers C a' b \<and> seal_pos a' = seal_pos a + 1" ..
qed

lemma sealed_opens:
  assumes "peers C a b" and "epochs_ok (se_ratchet b)"
    and "n = mc_pos (cur_msg (se_ratchet a) (seal_direction a))" and "n \<noteq> - 1"
    and "mc_pos (cur_msg (se_ratchet b) (seal_direction a)) \<le> n"
    and "n - mc_pos (cur_msg (se_ratchet b) (seal_direction a)) \<le> 1024"
  shows "\<exists>a' m. seal_material C a nonce = (a', m) \<and> sm_counter m = n \<and> sm_nonce m = nonce \<and>
    sm_direction m = seal_direction a \<and> sm_epoch m = sr_epoch (se_ratchet a) \<and>
    open_key C (se_ratchet b) (sm_epoch m) (sm_direction m) (sm_counter m) = Some (sm_key m) \<and>
    (let b' = session_commit_open b (sm_epoch m) (sm_direction m)
                (plan_open C (se_ratchet b) (sm_epoch m) (sm_direction m) (sm_counter m))
     in peers C a' b' \<and> open_key C (se_ratchet b') (sm_epoch m) (sm_direction m) (sm_counter m) = None)"
proof -
  define ra rb d where "ra = se_ratchet a" and "rb = se_ratchet b" and "d = seal_direction a"
  obtain seed where ok: "chain_ok C seed (cur_msg ra d)" "chain_ok C seed (cur_msg rb d)"
    using assms(1) by (auto simp: peers_def ra_def rb_def)
  have ep: "sr_epoch rb = sr_epoch ra" using assms(1) by (simp add: peers_def ra_def rb_def)
  note eo = assms(2) [folded rb_def]
  have n: "mc_pos (cur_msg ra d) = n" "mc_pos (cur_msg rb d) \<noteq> - 1"
    using assms(3-5) by (auto simp: ra_def rb_def d_def word_order.extremum_uniqueI)
  note adv = advance_ok [OF ok(1), unfolded n(1), OF assms(4)]
  define due where "due = (sr_frames_in_epoch ra + 1 \<ge> RATCHET_INTERVAL)"
  define r' where "r' = (upd_cur d (\<lambda>_. fst (advance C (cur_msg ra d))) ra)
      \<lparr>sr_frames_in_epoch := sr_frames_in_epoch ra + 1\<rparr>"
  define m where "m = \<lparr>sm_key = key_at C seed (unat n), sm_epoch = sr_epoch ra, sm_counter = n, sm_nonce = nonce,
      sm_direction = d, sm_ratchet_due = due\<rparr>"
  have fr: "sr_frames_in_epoch (upd_cur d f ra) = sr_frames_in_epoch ra" for f by (cases d) simp_all
  define a' where "a' = (if due then a\<lparr>se_ratchet := r', se_tx_counter := n + 1, se_forced_ratchet_due := True\<rparr>
      else a\<lparr>se_ratchet := r', se_tx_counter := n + 1\<rparr>)"
  have "advance_seal C ra d = (upd_cur d (\<lambda>_. fst (advance C (cur_msg ra d))) ra, n, key_at C seed (unat n))"
    using adv(2) n(1) by (auto simp: advance_seal_def Let_def split: prod.splits)
  then have seal: "seal_material C a nonce = (a', m)"
    by (simp add: seal_material_def ra_def [symmetric] d_def [symmetric] Let_def count_seal_def fr a'_def m_def due_def
        r'_def) (simp add: seal_direction_def d_def)
  have a': "se_ratchet a' = r'" "se_role a' = se_role a" by (simp_all add: a'_def)
  have key: "key_for C (cur_msg rb d) n = Some (key_at C seed (unat n))"
    using plan_forward [OF ok(2) n(2) assms(5,6) [folded rb_def d_def]] by (simp add: key_for_def)
  define b' where "b' = session_commit_open b (sr_epoch ra) d (plan_open C rb (sr_epoch ra) d n)"
  have rb': "se_ratchet b' = upd_cur d (\<lambda>mc. open_step C mc n) rb"
    using commit_open_current [OF eo] open_chain_current [OF eo]
    by (cases d) (simp_all add: b'_def session_commit_open_def plan_open_def ep [symmetric] rb_def [symmetric]
        open_step_def on_msg_def cur_msg_def)
  have "epochs_ok (se_ratchet b')" unfolding rb' using eo by simp
  then have "open_key C (se_ratchet b') (sr_epoch ra) d n = None"
    using open_key_current [of "se_ratchet b'" C d n] spent_refused [OF open_spends [OF ok(2) assms(4)]] key
    by (simp add: rb' cur_msg_upd ep)
  moreover have "peers C a' b'"
  proof -
    have cm: "cur_msg r' d' = (if d = d' then fst (advance C (cur_msg ra d)) else cur_msg ra d')" for d'
      by (cases d; cases d') (simp_all add: r'_def cur_msg_def on_msg_def)
    show ?thesis
      using assms(1) adv(1) open_step_ok [OF ok(2), of n] a' rb' cm cur_msg_upd [of d]
      by (auto simp: peers_def seal_direction_def b'_def session_commit_open_def ra_def [symmetric] rb_def [symmetric]
          r'_def)
  qed
  ultimately show ?thesis
    using seal key open_key_current [OF eo, of C d n] ep d_def
    by (intro exI [of _ a'] exI [of _ m]) (simp add: m_def b'_def rb_def ra_def)
qed

text \<open>
  C4. What one end seals the other end opens, once: sealing yields the next counter of its direction;
  the other end, at most 1024 messages behind, finds exactly the sealing key for that epoch,
  direction and counter; after it has committed the opening, the same counter is refused, and the
  two ends still agree.
\<close>

theorem sealed_messages_open_once:
  assumes "peers C a b" and "epochs_ok (se_ratchet b)"
    and "n = mc_pos (cur_msg (se_ratchet a) (seal_direction a))" and "n \<noteq> - 1"
    and "mc_pos (cur_msg (se_ratchet b) (seal_direction a)) \<le> n"
    and "n - mc_pos (cur_msg (se_ratchet b) (seal_direction a)) \<le> 1024"
  shows "\<exists>a' m. seal_material C a nonce = (a', m) \<and> sm_counter m = n \<and> sm_nonce m = nonce \<and>
    open_key C (se_ratchet b) (sm_epoch m) (sm_direction m) (sm_counter m) = Some (sm_key m) \<and>
    (let b' = session_commit_open b (sm_epoch m) (sm_direction m)
                (plan_open C (se_ratchet b) (sm_epoch m) (sm_direction m) (sm_counter m))
     in peers C a' b' \<and> open_key C (se_ratchet b') (sm_epoch m) (sm_direction m) (sm_counter m) = None)"
  using sealed_opens [OF assms, of nonce] by blast

theorem sealed_messages_open_once_witness:
  "\<exists>a' m. seal_material demo_crates demo_a (zeros 12) = (a', m) \<and> sm_counter m = 0 \<and>
     open_key demo_crates (se_ratchet demo_b) (sm_epoch m) (sm_direction m) 0 = Some (sm_key m)"
proof -
  have pos: "mc_pos (cur_msg (se_ratchet demo_a) d) = 0" "mc_pos (cur_msg (se_ratchet demo_b) d) = 0" for d
    using cur_msg_new [of demo_crates "[9]" d] by (auto simp: demo_a_def demo_b_def new_with_role_def msg_chain_seed_def)
  have "epochs_ok (se_ratchet demo_b)" by (simp add: demo_b_def new_with_role_def epochs_ok_new)
  then obtain a' m where "seal_material demo_crates demo_a (zeros 12) = (a', m)" "sm_counter m = 0"
    "open_key demo_crates (se_ratchet demo_b) (sm_epoch m) (sm_direction m) (sm_counter m) = Some (sm_key m)"
    using sealed_messages_open_once [OF demo_peers(1), of 0 "zeros 12"] pos by auto
  then show ?thesis by auto
qed

section \<open>Streams and identity chunks\<close>

text \<open>
  Stream numbers: the n-th stream opened on a session gets the number n modulo 256 and a fresh
  state under it. So the 256th stream gets the reserved number 0, and every later one takes over
  the number, and discards the state, of the stream opened 256 before it.
\<close>

theorem stream_numbers_wrap:
  fixes C :: crates and now t :: instant and ty :: stream_type and k f :: bytes
  assumes "n < 65535"
  defines "s \<equiv> ((\<lambda>s. fst (open_stream s now ty)) ^^ n) (session_new C t k f)"
  shows "snd (open_stream s now ty) = of_nat (Suc n mod 256) \<and>
    se_streams (fst (open_stream s now ty)) =
      (se_streams s)(of_nat (Suc n mod 256) \<mapsto> \<lparr>st_stream_type = ty, st_recv_buf = [], st_next_seq = 0,
         st_created_at = now, st_bytes_recv = 0, st_bytes_sent = 0\<rparr>)"
proof -
  have nxt: "se_next_stream_id (((\<lambda>s. fst (open_stream s now ty)) ^^ m) (session_new C t k f)) = of_nat (Suc m)" for m
    by (induction m) (simp_all add: session_new_def new_with_role_def open_stream_def Let_def)
  have nz: "(of_nat (Suc n) :: u16) \<noteq> 0"
  proof
    assume "(of_nat (Suc n) :: u16) = 0"
    then have "unat (of_nat (Suc n) :: u16) = 0" by simp
    then show False using assms(1) by (simp add: unat_of_nat del: of_nat_Suc)
  qed
  have "(of_nat (Suc n) :: u16) mod 256 = of_nat (Suc n mod 256)"
    using assms(1) by (simp add: word_unat_eq_iff unat_mod_distrib unat_of_nat del: of_nat_Suc)
  then show ?thesis using nz nxt [of n] by (simp add: s_def open_stream_def Let_def MAX_STREAMS_def del: of_nat_Suc)
qed

theorem stream_numbers_wrap_witness:
  "snd (open_stream (((\<lambda>s. fst (open_stream s 0 Bulk)) ^^ 255) (session_new demo_crates 0 [1] [2])) 0 Bulk) = 0"
  using stream_numbers_wrap [of 255 0 Bulk demo_crates 0 "[1]" "[2]"] by simp

lemma update_fresh: "k \<notin> fst ` set al \<Longrightarrow> AList.update k v al = al @ [(k, v)]"
  by (induction al) auto

lemma assemble_chunks_some:
  "assemble_chunks chunks is acc =
     (if \<forall>i \<in> set is. map_of chunks (of_nat i) \<noteq> None
      then Some (acc @ concat (map (\<lambda>i. the (map_of chunks (of_nat i))) is)) else None)"
  by (induction "is" arbitrary: acc) (auto split: option.splits)

text \<open>Storing distinct chunk indices below 256 one after the other.\<close>

definition store_all :: "session \<Rightarrow> nat \<Rightarrow> (nat \<Rightarrow> bytes) \<Rightarrow> nat list \<Rightarrow> session" where
  "store_all s n f is = foldl (\<lambda>s i. fst (store_pq_chunk s (of_nat i) (of_nat n) (f i))) s is"

lemma u8_of_nat_inj: "i < 256 \<Longrightarrow> j < 256 \<Longrightarrow> (of_nat i :: u8) = of_nat j \<longleftrightarrow> i = j"
  by (simp add: word_unat_eq_iff unat_of_nat)

lemma store_all_chunks:
  assumes "se_pq_incoming_chunks s = []" and "distinct is" and "set is \<subseteq> {..<256}"
  shows "se_pq_incoming_chunks (store_all s n f is) = map (\<lambda>i. (of_nat i, f i)) is"
  using assms(2,3)
proof (induction "is" rule: rev_induct)
  case (snoc i "is")
  then have "(of_nat i :: u8) \<notin> fst ` set (map (\<lambda>i. (of_nat i, f i)) is)"
    by (force simp: u8_of_nat_inj)
  moreover have "se_pq_incoming_chunks (store_all s n f is) = map (\<lambda>i. (of_nat i, f i)) is"
    using snoc by simp
  ultimately show ?case by (simp add: store_all_def store_pq_chunk_def Let_def update_fresh)
qed (simp add: store_all_def assms(1))

text \<open>One more chunk into a store that holds some of the others.\<close>

lemma store_chunk_result:
  assumes "se_pq_incoming_chunks s = map (\<lambda>i. (of_nat i, f i)) is" and "distinct (is @ [i])" and "set (is @ [i]) \<subseteq> {..<n}"
    and "n < 256"
  shows "store_pq_chunk s (of_nat i) (of_nat n) (f i) =
    (s\<lparr>se_pq_incoming_chunks := map (\<lambda>i. (of_nat i, f i)) (is @ [i])\<rparr>,
     if Suc (length is) = n then Some (concat (map f [0..<n])) else None)"
proof -
  have n: "unat (of_nat n :: u8) = n" using assms(4) by (simp add: unat_of_nat)
  have sub: "set (is @ [i]) \<subseteq> {..<256}" using assms(3,4) by auto
  then have "(of_nat i :: u8) \<notin> fst ` set (map (\<lambda>i. (of_nat i, f i)) is)"
    using assms(2) by (force simp: u8_of_nat_inj)
  from update_fresh [OF this]
  have u: "AList.update (of_nat i :: u8) (f i) (map (\<lambda>i. (of_nat i, f i)) is) = map (\<lambda>i. (of_nat i, f i)) (is @ [i])"
    by simp
  have "assemble_chunks (map (\<lambda>i. (of_nat i, f i)) (is @ [i])) [0..<n] [] = Some (concat (map f [0..<n]))"
    if l: "Suc (length is) = n"
  proof -
    have "card (set (is @ [i])) = n" using distinct_card [OF assms(2)] l by simp
    then have all: "set (is @ [i]) = {..<n}" using assms(3) by (metis card_lessThan card_subset_eq finite_lessThan)
    have "map_of (map (\<lambda>i. (of_nat i :: u8, f i)) (is @ [i])) (of_nat j) = Some (f j)" if "j < n" for j
    proof (rule map_of_is_SomeI)
      show "distinct (map fst (map (\<lambda>i. (of_nat i :: u8, f i)) (is @ [i])))"
        using assms(2) sub by (auto simp: distinct_map inj_on_def u8_of_nat_inj subset_iff)
      show "(of_nat j, f j) \<in> set (map (\<lambda>i. (of_nat i, f i)) (is @ [i]))" using that all by auto
    qed
    then show ?thesis
      unfolding assemble_chunks_some by (auto intro!: arg_cong [where f = concat] map_cong simp del: map_append)
  qed
  then show ?thesis unfolding store_pq_chunk_def Let_def assms(1) u n by simp
qed

text \<open>
  Identity chunks: stored in any order, the chunks of a binding assemble, exactly when the last
  one arrives, to their concatenation in index order.
\<close>

theorem identity_chunks_assemble:
  assumes "se_pq_incoming_chunks s = []" and "distinct (is @ [i])" and "set (is @ [i]) = {..<n}" and "n < 256"
  shows "snd (store_pq_chunk (store_all s n f is) (of_nat i) (of_nat n) (f i)) = Some (concat (map f [0..<n])) \<and>
    (\<forall>is' j. prefix (is' @ [j]) is \<longrightarrow> snd (store_pq_chunk (store_all s n f is') (of_nat j) (of_nat n) (f j)) = None)"
proof -
  have len: "length (is @ [i]) = n" using distinct_card [OF assms(2)] assms(3) by simp
  have st: "se_pq_incoming_chunks (store_all s n f xs) = map (\<lambda>i. (of_nat i, f i)) xs" if "prefix xs is" for xs
  proof -
    obtain zs where "is = xs @ zs" using \<open>prefix xs is\<close> by (auto simp: prefix_def)
    moreover from this have "set xs \<subseteq> {..<n}" using assms(3) by auto
    then have "set xs \<subseteq> {..<256}" using assms(4) by auto
    ultimately show ?thesis using store_all_chunks [OF assms(1), of xs n f] assms(2) by simp
  qed
  have "snd (store_pq_chunk (store_all s n f is) (of_nat i) (of_nat n) (f i)) = Some (concat (map f [0..<n]))"
    using store_chunk_result [OF st assms(2) equalityD1 [OF assms(3)] assms(4)] len by simp
  moreover have "snd (store_pq_chunk (store_all s n f is') (of_nat j) (of_nat n) (f j)) = None"
    if p: "prefix (is' @ [j]) is" for is' j
  proof -
    obtain zs where zs: "is = (is' @ [j]) @ zs" using p by (auto simp: prefix_def)
    have "set (is' @ [j]) \<subseteq> {..<n}" "distinct (is' @ [j])" "prefix is' is" using assms(2,3) zs by auto
    then show ?thesis using store_chunk_result [OF st, of is' j n] assms(4) len by (simp add: zs)
  qed
  ultimately show ?thesis by blast
qed

theorem identity_chunks_assemble_witness:
  "snd (store_pq_chunk (store_all (session_new demo_crates 0 [1] [2]) 3 (\<lambda>i. [of_nat i]) [2, 0]) 1 3 [1]) = Some [0, 1, 2]"
proof -
  have "set ([2, 0] @ [1]) = {..<3 :: nat}" by auto
  then show ?thesis
    using identity_chunks_assemble [of "session_new demo_crates 0 [1] [2]" "[2, 0]" 1 3 "\<lambda>i. [of_nat i]"]
    by (simp add: session_new_def new_with_role_def upt_rec)
qed

text \<open>
  One chunk index outside the announced range poisons the store: no later chunk of that binding
  ever completes it, however many arrive.
\<close>

theorem stray_chunk_blocks_assembly:
  assumes "distinct (map fst (se_pq_incoming_chunks s))" and "j \<in> fst ` set (se_pq_incoming_chunks s)" and "tot \<le> j"
  shows "snd (store_pq_chunk s i tot d) = None \<and>
    j \<in> fst ` set (se_pq_incoming_chunks (fst (store_pq_chunk s i tot d))) \<and>
    distinct (map fst (se_pq_incoming_chunks (fst (store_pq_chunk s i tot d))))"
proof -
  define c where "c = AList.update i d (se_pq_incoming_chunks s)"
  have c: "distinct (map fst c)" "j \<in> fst ` set c"
    using assms(1,2) by (simp_all add: c_def distinct_update dom_update)
  have "\<not> (length c = unat tot \<and> (\<forall>x \<in> {0..<unat tot}. map_of c (of_nat x) \<noteq> None))"
  proof
    assume a: "length c = unat tot \<and> (\<forall>x \<in> {0..<unat tot}. map_of c (of_nat x) \<noteq> None)"
    let ?X = "(of_nat :: nat \<Rightarrow> u8) ` {0..<unat tot}"
    have "x < 256" if "x < unat tot" for x using that unat_bound [of tot] by simp
    then have inj: "inj_on (of_nat :: nat \<Rightarrow> u8) {0..<unat tot}" by (auto simp: inj_on_def u8_of_nat_inj)
    have "?X \<subseteq> fst ` set c" using a by (force simp: map_of_eq_None_iff)
    moreover have "j \<notin> ?X"
      using assms(3) unat_bound [of tot] by (auto simp: word_le_nat_alt unat_of_nat)
    ultimately have "insert j ?X \<subseteq> fst ` set c" "card (insert j ?X) = Suc (unat tot)"
      using c(2) card_image [OF inj] by auto
    then have "Suc (unat tot) \<le> card (fst ` set c)" by (metis card_mono finite_imageI finite_set)
    also have "\<dots> \<le> length c" by (metis card_length length_map list.set_map)
    finally show False using a by simp
  qed
  then show ?thesis using c by (auto simp: store_pq_chunk_def Let_def c_def [symmetric] assemble_chunks_some)
qed

end
