(* ===== verification/Identity.thy ===== *)
theory Identity
  imports Crates
begin

text \<open>
  L0, the hybrid identity of src/src/ghost/layers/l0_identity.rs: the identity file and its
  upgrade, fingerprints, hybrid signatures, the commitment to the post-quantum key and the identity
  binding a peer proves possession with. Both key pairs are given by their seeds; Ed25519, ML-DSA,
  SHA-256 and HKDF are the crates'. The random seeds the code draws are arguments.
\<close>

section \<open>The model\<close>

definition IDENTITY_MAGIC :: bytes where "IDENTITY_MAGIC = ascii ''GGNIDENT''"
definition IDENTITY_VERSION_HYBRID :: u8 where "IDENTITY_VERSION_HYBRID = 2"
definition IDENTITY_V1_LEN :: nat where "IDENTITY_V1_LEN = 32"
definition IDENTITY_V2_LEN :: nat where "IDENTITY_V2_LEN = 8 + 1 + 32 + 32"
definition ML_DSA_65_SIG_LEN :: nat where "ML_DSA_65_SIG_LEN = 3309"
definition ML_DSA_65_PK_LEN :: nat where "ML_DSA_65_PK_LEN = 1952"
definition ED25519_SIG_LEN :: nat where "ED25519_SIG_LEN = 64"
definition HYBRID_SIG_LEN :: nat where "HYBRID_SIG_LEN = ED25519_SIG_LEN + ML_DSA_65_SIG_LEN"

lemmas identity_consts = IDENTITY_VERSION_HYBRID_def IDENTITY_V1_LEN_def IDENTITY_V2_LEN_def
  ML_DSA_65_SIG_LEN_def ML_DSA_65_PK_LEN_def ED25519_SIG_LEN_def HYBRID_SIG_LEN_def

record hybrid_signature =
  hs_ed25519 :: bytes
  hs_pq :: bytes

definition hybrid_encode :: "hybrid_signature \<Rightarrow> bytes" where
  "hybrid_encode s = hs_ed25519 s @ hs_pq s"

definition hybrid_decode :: "bytes \<Rightarrow> hybrid_signature option" where
  "hybrid_decode bs =
     (if length bs \<noteq> HYBRID_SIG_LEN then None
      else Some \<lparr>hs_ed25519 = take ED25519_SIG_LEN bs, hs_pq = drop ED25519_SIG_LEN bs\<rparr>)"

record ghost_identity =
  gi_long_term_signing :: bytes
  gi_pq_signing :: bytes

definition from_seeds :: "bytes \<Rightarrow> bytes \<Rightarrow> ghost_identity" where
  "from_seeds ed_seed pq_seed = \<lparr>gi_long_term_signing = ed_seed, gi_pq_signing = pq_seed\<rparr>"

text \<open>The identity file; \<open>pq_fresh\<close> is the entropy drawn for a file of the first version.\<close>

definition parse_identity_file :: "bytes \<Rightarrow> bytes \<Rightarrow> (bytes \<times> bytes \<times> bool, string) rust" where
  "parse_identity_file pq_fresh data =
     (if length data = IDENTITY_V1_LEN then Ok (data, pq_fresh, True)
      else if length data = IDENTITY_V2_LEN then
        (if take 8 data \<noteq> IDENTITY_MAGIC then Err ''wrong magic''
         else if data ! 8 \<noteq> IDENTITY_VERSION_HYBRID then Err ''unknown identity-file version''
         else Ok (slice 9 41 data, slice 41 73 data, False))
      else Err ''unexpected length'')"

text \<open>The bytes \<open>save\<close> writes.\<close>

definition save :: "ghost_identity \<Rightarrow> bytes" where
  "save i = IDENTITY_MAGIC @ [IDENTITY_VERSION_HYBRID] @ gi_long_term_signing i @ gi_pq_signing i"

text \<open>
  The file before the call is \<open>None\<close> (it does not exist), \<open>Some None\<close> (it cannot be read) or its
  bytes; the result is the identity and the bytes it writes back, if it writes.
\<close>

definition load_or_generate_opts ::
  "bool \<Rightarrow> bytes \<times> bytes \<Rightarrow> bytes \<Rightarrow> bytes option option \<Rightarrow> ghost_identity \<times> bytes option" where
  "load_or_generate_opts amnesia fresh pq_fresh file =
     (let generated = from_seeds (fst fresh) (snd fresh)
      in if amnesia then (generated, None)
         else
           (case file of
              Some (Some data) \<Rightarrow>
                (case parse_identity_file pq_fresh data of
                   Ok (ed_seed, pq_seed, upgraded) \<Rightarrow>
                     (let identity = from_seeds ed_seed pq_seed
                      in (identity, if upgraded then Some (save identity) else None))
                 | _ \<Rightarrow> (generated, Some (save generated)))
            | _ \<Rightarrow> (generated, Some (save generated))))"

definition public_key_bytes :: "crates \<Rightarrow> ghost_identity \<Rightarrow> bytes" where
  "public_key_bytes C i = ed25519_public C (gi_long_term_signing i)"

definition pq_public_key_bytes :: "crates \<Rightarrow> ghost_identity \<Rightarrow> bytes" where
  "pq_public_key_bytes C i = mldsa_public C (gi_pq_signing i)"

text \<open>\<open>hex::encode\<close>: two lower-case digits per byte, as ASCII codes.\<close>

definition hex_digit :: "nat \<Rightarrow> u8" where
  "hex_digit d = (if d < 10 then of_nat (48 + d) else of_nat (87 + d))"

definition hex_encode :: "bytes \<Rightarrow> bytes" where
  "hex_encode bs = concat (map (\<lambda>b. [hex_digit (unat b div 16), hex_digit (unat b mod 16)]) bs)"

definition fingerprint :: "crates \<Rightarrow> ghost_identity \<Rightarrow> bytes" where
  "fingerprint C i = hex_encode (take 8 (public_key_bytes C i))"

definition derive_burnable :: "crates \<Rightarrow> ghost_identity \<Rightarrow> bytes \<Rightarrow> u32 \<Rightarrow> bytes \<times> bytes" where
  "derive_burnable C i peer_fp epoch =
     (let info = peer_fp @ be_u32 epoch;
          derived_seed = hkdf_sha256 C (ascii ''GHOST_BURNABLE_ID_v1'') (gi_long_term_signing i) info 32
      in (derived_seed, hex_encode (take 8 (ed25519_public C derived_seed))))"

definition identity_sign :: "crates \<Rightarrow> ghost_identity \<Rightarrow> bytes \<Rightarrow> bytes" where
  "identity_sign C i data = ed25519_sign C (gi_long_term_signing i) data"

definition sign_hybrid :: "crates \<Rightarrow> ghost_identity \<Rightarrow> bytes \<Rightarrow> hybrid_signature" where
  "sign_hybrid C i data =
     \<lparr>hs_ed25519 = ed25519_sign C (gi_long_term_signing i) data, hs_pq = mldsa_sign C (gi_pq_signing i) data\<rparr>"

definition pq_commitment :: "crates \<Rightarrow> bytes \<Rightarrow> bytes" where
  "pq_commitment C pq_public_key = sha256 C (ascii ''ggn-pq-commitment-v1'' @ pq_public_key)"

definition identity_pq_commitment :: "crates \<Rightarrow> ghost_identity \<Rightarrow> bytes" where
  "identity_pq_commitment C i = pq_commitment C (pq_public_key_bytes C i)"

definition verify_peer_signature :: "crates \<Rightarrow> bytes \<Rightarrow> bytes \<Rightarrow> bytes \<Rightarrow> bool" where
  "verify_peer_signature C peer_pk data signature = ed25519_verify C peer_pk data signature"

definition verify_pq_signature :: "crates \<Rightarrow> bytes \<Rightarrow> bytes \<Rightarrow> bytes \<Rightarrow> bool" where
  "verify_pq_signature C pq_pk data signature =
     (if length signature \<noteq> ML_DSA_65_SIG_LEN \<or> length pq_pk \<noteq> ML_DSA_65_PK_LEN then False
      else mldsa_verify C pq_pk data signature)"

definition verify_peer_hybrid :: "crates \<Rightarrow> bytes \<Rightarrow> bytes \<Rightarrow> bytes \<Rightarrow> hybrid_signature \<Rightarrow> bool" where
  "verify_peer_hybrid C peer_pk peer_pq_pk data s \<longleftrightarrow>
     verify_peer_signature C peer_pk data (hs_ed25519 s) \<and> verify_pq_signature C peer_pq_pk data (hs_pq s)"

definition verify_hybrid :: "crates \<Rightarrow> ghost_identity \<Rightarrow> bytes \<Rightarrow> hybrid_signature \<Rightarrow> bool" where
  "verify_hybrid C i data s = verify_peer_hybrid C (public_key_bytes C i) (pq_public_key_bytes C i) data s"

definition BINDING_VERSION_HYBRID :: u8 where "BINDING_VERSION_HYBRID = 0x02"
definition BINDING_LEN_HYBRID :: nat where
  "BINDING_LEN_HYBRID = 1 + 32 + ML_DSA_65_PK_LEN + ED25519_SIG_LEN + ML_DSA_65_SIG_LEN"

definition identity_binding_material :: "bytes \<Rightarrow> bytes \<Rightarrow> bytes" where
  "identity_binding_material channel_binding pq_pk = channel_binding @ pq_pk"

definition create_identity_binding :: "crates \<Rightarrow> ghost_identity \<Rightarrow> bytes \<Rightarrow> bytes" where
  "create_identity_binding C i channel_binding =
     (let pq_pk = pq_public_key_bytes C i;
          msg = identity_binding_material channel_binding pq_pk;
          sig = sign_hybrid C i msg
      in [BINDING_VERSION_HYBRID] @ public_key_bytes C i @ pq_pk @ hs_ed25519 sig @ hs_pq sig)"

definition verify_hybrid_binding ::
  "crates \<Rightarrow> bytes \<Rightarrow> bytes option \<Rightarrow> bytes \<Rightarrow> bytes \<Rightarrow> (bytes, string) rust" where
  "verify_hybrid_binding C peer_ed_pk expected_pq_commitment channel_binding binding =
     (if length binding \<noteq> BINDING_LEN_HYBRID \<or> binding ! 0 \<noteq> BINDING_VERSION_HYBRID
      then Err ''invalid binding length or version''
      else if slice 1 33 binding \<noteq> peer_ed_pk then Err ''mismatched peer Ed25519 key''
      else
        (let pq_pk = slice 33 (33 + ML_DSA_65_PK_LEN) binding
         in if expected_pq_commitment \<noteq> None \<and> Some (pq_commitment C pq_pk) \<noteq> expected_pq_commitment
            then Err ''mismatched PQ commitment''
            else
              (let ed_sig = slice (33 + ML_DSA_65_PK_LEN) (33 + ML_DSA_65_PK_LEN + ED25519_SIG_LEN) binding;
                   pq_sig = drop (33 + ML_DSA_65_PK_LEN + ED25519_SIG_LEN) binding;
                   material = identity_binding_material channel_binding pq_pk
               in if \<not> verify_peer_signature C peer_ed_pk material ed_sig then Err ''Ed25519 signature invalid''
                  else if \<not> verify_pq_signature C pq_pk material pq_sig then Err ''ML-DSA-65 signature invalid''
                  else Ok pq_pk)))"

section \<open>The identity file\<close>

definition identity_ok :: "ghost_identity \<Rightarrow> bool" where
  "identity_ok i \<longleftrightarrow> length (gi_long_term_signing i) = 32 \<and> length (gi_pq_signing i) = 32"

lemma parse_saved:
  assumes "identity_ok i"
  shows "parse_identity_file pq (save i) = Ok (gi_long_term_signing i, gi_pq_signing i, False)"
  using assms
  by (simp add: parse_identity_file_def save_def identity_ok_def identity_consts IDENTITY_MAGIC_def ascii_def
      slice_def nth_append)

text \<open>
  The identity of a node is stable: whatever is on disk, the identity loaded is the one every
  later load finds in the file it leaves behind, which is then not written again; and a file of the
  first version keeps its signing key, hence its fingerprint.
\<close>

theorem loaded_identity_is_stable:
  assumes "length (fst fresh) = 32" and "length (snd fresh) = 32" and "length pq_fresh = 32"
    and "load_or_generate_opts False fresh pq_fresh file = (i, w)"
    and "file' = (case w of None \<Rightarrow> file | Some data \<Rightarrow> Some (Some data))"
  shows "load_or_generate_opts False fresh' pq_fresh' file' = (i, None) \<and>
    (\<forall>data. file = Some (Some data) \<and> length data = 32 \<longrightarrow> fingerprint C i = hex_encode (take 8 (ed25519_public C data)))"
proof -
  have again: "load_or_generate_opts False fresh' pq_fresh' (Some (Some (save j))) = (j, None)"
    if "identity_ok j" for j
    using parse_saved [OF that] by (simp add: load_or_generate_opts_def from_seeds_def)
  have gen: "identity_ok (from_seeds (fst fresh) (snd fresh))" using assms(1,2) by (simp add: identity_ok_def from_seeds_def)
  show ?thesis
  proof (cases "\<exists>data r. file = Some (Some data) \<and> parse_identity_file pq_fresh data = Ok r")
    case True
    then obtain data r where d: "file = Some (Some data)" "parse_identity_file pq_fresh data = Ok r" by blast
    show ?thesis
    proof (cases "length data = 32")
      case True
      then have p: "parse_identity_file pq data = Ok (data, pq, True)" for pq
        by (simp add: parse_identity_file_def identity_consts)
      have i: "i = from_seeds data pq_fresh" "w = Some (save i)"
        using assms(4) d(1) p by (auto simp: load_or_generate_opts_def Let_def)
      have "identity_ok i" using i True assms(3) by (simp add: identity_ok_def from_seeds_def)
      then show ?thesis using again i assms(5) d(1) by (simp add: fingerprint_def public_key_bytes_def from_seeds_def)
    next
      case False
      then have same: "parse_identity_file pq' data = Ok r" and up: "\<not> snd (snd r)" for pq'
        using d(2) by (auto simp: parse_identity_file_def identity_consts split: if_splits)
      then show ?thesis using assms(4,5) d False
        by (auto simp: load_or_generate_opts_def Let_def split: prod.splits)
    qed
  next
    case False
    have no: "case file of Some (Some data) \<Rightarrow> \<not> (\<exists>r. parse_identity_file pq_fresh data = Ok r) | _ \<Rightarrow> True"
      using False by (auto split: option.splits)
    have l: "length data \<noteq> 32" if "file = Some (Some data)" for data
      using no that by (auto simp: parse_identity_file_def identity_consts)
    have i: "i = from_seeds (fst fresh) (snd fresh)" "w = Some (save i)"
      using assms(4) no by (auto simp: load_or_generate_opts_def Let_def split: option.splits rust.splits)
    then show ?thesis using again [OF gen] assms(5) l by auto
  qed
qed

theorem loaded_identity_is_stable_witness:
  "\<exists>i w. load_or_generate_opts False (zeros 32, zeros 32) (replicate 32 7) (Some (Some (replicate 32 5))) = (i, Some w) \<and>
     load_or_generate_opts False (zeros 32, zeros 32) (replicate 32 9) (Some (Some w)) = (i, None)"
proof -
  define i where "i = from_seeds (replicate 32 5) (replicate 32 7)"
  have l: "load_or_generate_opts False (zeros 32, zeros 32) (replicate 32 7) (Some (Some (replicate 32 5))) = (i, Some (save i))"
    by (simp add: load_or_generate_opts_def parse_identity_file_def identity_consts i_def Let_def)
  from loaded_identity_is_stable [OF _ _ _ l refl, of "(zeros 32, zeros 32)" "replicate 32 9" demo_crates]
  show ?thesis using l by auto
qed

section \<open>The identity binding\<close>

lemma binding_fields:
  fixes i :: ghost_identity and cb :: bytes
  assumes "sig_law C"
  defines "b \<equiv> create_identity_binding C i cb"
  shows "length b = 5358" "b ! 0 = 2" "slice 1 33 b = public_key_bytes C i"
    "slice 33 1985 b = pq_public_key_bytes C i"
    "slice 1985 2049 b = ed25519_sign C (gi_long_term_signing i) (cb @ pq_public_key_bytes C i)"
    "drop 2049 b = mldsa_sign C (gi_pq_signing i) (cb @ pq_public_key_bytes C i)"
  using sig_lawD [OF assms(1)]
  by (simp_all add: b_def create_identity_binding_def Let_def BINDING_VERSION_HYBRID_def public_key_bytes_def
      pq_public_key_bytes_def sign_hybrid_def identity_binding_material_def slice_def)

lemma binding_accepted:
  assumes "sig_law C" and "com = None \<or> com = Some (identity_pq_commitment C i)"
  shows "verify_hybrid_binding C (public_key_bytes C i) com cb (create_identity_binding C i cb) = Ok (pq_public_key_bytes C i)"
  using assms(2) sig_lawD [OF assms(1)] binding_fields [OF assms(1), of i cb]
  by (auto simp: verify_hybrid_binding_def Let_def identity_consts BINDING_LEN_HYBRID_def BINDING_VERSION_HYBRID_def
      identity_pq_commitment_def verify_peer_signature_def verify_pq_signature_def identity_binding_material_def
      public_key_bytes_def pq_public_key_bytes_def)

text \<open>
  C18. The identity binding: the binding a node creates for a channel is accepted by a peer that
  pinned its Ed25519 key and either no commitment or the commitment to its ML-DSA key, and yields
  that key; whatever binding is accepted carries the pinned key, a post-quantum key with the pinned
  commitment, and signatures of both kinds over the channel binding and that key.
\<close>

theorem identity_binding_is_checked:
  assumes "sig_law C" and "com = None \<or> com = Some (identity_pq_commitment C i)"
  shows "verify_hybrid_binding C (public_key_bytes C i) com cb (create_identity_binding C i cb) = Ok (pq_public_key_bytes C i) \<and>
    (verify_hybrid_binding C pk com' cb b = Ok pq \<longleftrightarrow>
      (\<exists>s. b = [2] @ pk @ pq @ hs_ed25519 s @ hs_pq s \<and> length pk = 32 \<and> length pq = 1952 \<and> length (hs_ed25519 s) = 64 \<and>
        (com' = None \<or> com' = Some (pq_commitment C pq)) \<and> verify_peer_hybrid C pk pq (cb @ pq) s))"
proof (rule conjI)
  show "verify_hybrid_binding C (public_key_bytes C i) com cb (create_identity_binding C i cb) = Ok (pq_public_key_bytes C i)"
    by (rule binding_accepted [OF assms])
  show "verify_hybrid_binding C pk com' cb b = Ok pq \<longleftrightarrow>
      (\<exists>s. b = [2] @ pk @ pq @ hs_ed25519 s @ hs_pq s \<and> length pk = 32 \<and> length pq = 1952 \<and> length (hs_ed25519 s) = 64 \<and>
        (com' = None \<or> com' = Some (pq_commitment C pq)) \<and> verify_peer_hybrid C pk pq (cb @ pq) s)" (is "?L = ?R")
  proof
    assume L: ?L
    define s where "s = \<lparr>hs_ed25519 = slice 1985 2049 b, hs_pq = drop 2049 b\<rparr>"
    from L have f: "length b = 5358" "b ! 0 = 2" "slice 1 33 b = pk" "pq = slice 33 1985 b"
      "com' = None \<or> com' = Some (pq_commitment C pq)" "verify_peer_hybrid C pk pq (cb @ pq) s"
      by (auto simp: verify_hybrid_binding_def Let_def identity_consts BINDING_LEN_HYBRID_def BINDING_VERSION_HYBRID_def
          verify_peer_hybrid_def identity_binding_material_def s_def split: if_splits)
    have "b = take 1 b @ slice 1 33 b @ slice 33 1985 b @ slice 1985 2049 b @ drop 2049 b"
      using slices_join [of 1 33 b] slices_join [of 33 1985 b] slices_join [of 1985 2049 b] by simp
    also have "take 1 b = [2]" using f(1,2) by (cases b) auto
    finally have "b = [2] @ pk @ pq @ hs_ed25519 s @ hs_pq s" using f(3,4) by (simp add: s_def)
    moreover have "length pk = 32" "length pq = 1952" "length (hs_ed25519 s) = 64" using f(1,3,4) by (auto simp: s_def)
    ultimately show ?R using f(5,6) by blast
  next
    assume ?R
    then obtain s :: hybrid_signature where s: "b = [2] @ pk @ pq @ hs_ed25519 s @ hs_pq s" "length pk = 32" "length pq = 1952"
      "length (hs_ed25519 s) = 64" "com' = None \<or> com' = Some (pq_commitment C pq)"
      "verify_peer_signature C pk (cb @ pq) (hs_ed25519 s)" "verify_pq_signature C pq (cb @ pq) (hs_pq s)"
      unfolding verify_peer_hybrid_def by blast
    have "length (hs_pq s) = 3309" using s(7) by (auto simp: verify_pq_signature_def identity_consts split: if_splits)
    then show ?L using s
      by (auto simp: verify_hybrid_binding_def Let_def identity_consts BINDING_LEN_HYBRID_def BINDING_VERSION_HYBRID_def
          identity_binding_material_def slice_def)
  qed
qed

theorem identity_binding_is_checked_witness:
  "verify_hybrid_binding demo_crates (public_key_bytes demo_crates (from_seeds [1] [2]))
     (Some (identity_pq_commitment demo_crates (from_seeds [1] [2]))) [3]
     (create_identity_binding demo_crates (from_seeds [1] [2]) [3]) = Ok (pq_public_key_bytes demo_crates (from_seeds [1] [2]))"
  using identity_binding_is_checked [OF demo_laws(7) disjI2 [OF refl], of "from_seeds [1] [2]" "[3]"] by blast

end
