(* ===== verification/Transport.thy ===== *)
theory Transport
  imports Crates
begin

text \<open>
  The per-session transport helpers of src/src/ghost/net/mod.rs: the ACK engine with its retransmit
  slots and congestion window, the length-prefix framings, and the transit token bucket. The
  smoothed RTT, a floating-point statistic no other operation here reads, is left out.
\<close>

section \<open>ACK engine\<close>

record ack_entry =
  ae_seq :: u32
  ae_data :: bytes
  ae_auth_tag :: bytes
  ae_session_hash :: bytes
  ae_sent_at :: instant
  ae_retries :: u8

record ack_engine =
  ack_pending :: "ack_entry option list"
  ack_base_seq :: u32
  ack_window_size :: u32
  ack_congestion :: bool
  ack_cwnd :: u32

definition ack_new :: ack_engine where
  "ack_new = \<lparr>ack_pending = replicate 4096 None, ack_base_seq = 0, ack_window_size = 64,
     ack_congestion = False, ack_cwnd = 64\<rparr>"

definition register :: "ack_engine \<Rightarrow> instant \<Rightarrow> u32 \<Rightarrow> bytes \<Rightarrow> bytes \<Rightarrow> bytes \<Rightarrow> ack_engine" where
  "register a now seq data auth_tag session_hash =
     (let idx = unat seq mod length (ack_pending a)
      in a\<lparr>ack_pending := (ack_pending a)[idx :=
             Some \<lparr>ae_seq = seq, ae_data = data, ae_auth_tag = auth_tag, ae_session_hash = session_hash,
                   ae_sent_at = now, ae_retries = 0\<rparr>]\<rparr>)"

definition on_ack :: "ack_engine \<Rightarrow> u32 \<Rightarrow> ack_engine \<times> bool" where
  "on_ack a seq =
     (let idx = unat seq mod length (ack_pending a)
      in case ack_pending a ! idx of
           Some e \<Rightarrow>
             if ae_seq e = seq
             then (a\<lparr>ack_cwnd := min (sat_add (ack_cwnd a) 1) 512, ack_congestion := False,
                     ack_pending := (ack_pending a)[idx := None]\<rparr>, True)
             else (a, False)
         | None \<Rightarrow> (a, False))"

definition on_timeout :: "ack_engine \<Rightarrow> ack_engine" where
  "on_timeout a = a\<lparr>ack_congestion := True, ack_cwnd := max (ack_cwnd a div 2) 16\<rparr>"

text \<open>One slot of the collecting loops: the slot afterwards and the entry to resend.\<close>

definition expire_slot :: "instant \<Rightarrow> duration \<Rightarrow> ack_entry option \<Rightarrow> ack_entry option \<times> ack_entry option" where
  "expire_slot now timeout slot =
     (case slot of
        None \<Rightarrow> (None, None)
      | Some e \<Rightarrow>
          if now - ae_sent_at e > timeout \<and> ae_retries e < 5
          then (let e = e\<lparr>ae_retries := ae_retries e + 1, ae_sent_at := now\<rparr> in (Some e, Some e))
          else if ae_retries e \<ge> 5 then (None, None)
          else (Some e, None))"

definition collect_expired_full ::
  "ack_engine \<Rightarrow> instant \<Rightarrow> duration \<Rightarrow> ack_engine \<times> (u32 \<times> bytes \<times> bytes \<times> bytes) list" where
  "collect_expired_full a now timeout =
     (let rs = map (expire_slot now timeout) (ack_pending a)
      in (a\<lparr>ack_pending := map fst rs\<rparr>,
          map (\<lambda>e. (ae_seq e, ae_data e, ae_auth_tag e, ae_session_hash e)) (List.map_filter snd rs)))"

definition collect_expired :: "ack_engine \<Rightarrow> instant \<Rightarrow> duration \<Rightarrow> ack_engine \<times> (u32 \<times> bytes) list" where
  "collect_expired a now timeout =
     (let rs = map (expire_slot now timeout) (ack_pending a)
      in (a\<lparr>ack_pending := map fst rs\<rparr>, map (\<lambda>e. (ae_seq e, ae_data e)) (List.map_filter snd rs)))"

definition available :: "ack_engine \<Rightarrow> u32" where
  "available a = sat_sub (ack_cwnd a) (of_nat (length (filter (\<lambda>s. s \<noteq> None) (ack_pending a))))"

section \<open>Length framing\<close>

definition frame_shard :: "bytes \<Rightarrow> bytes" where
  "frame_shard d = be_u16 (of_nat (length d)) @ d"

definition unframe :: "bytes \<Rightarrow> bytes option" where
  "unframe b =
     (if length b < 2 then None
      else
        (let l = unat (u16_be [b ! 0, b ! 1])
         in if l = 0 \<or> 2 + l > length b then None else Some (slice 2 (2 + l) b)))"

definition chaff_tag :: "crates \<Rightarrow> bytes \<Rightarrow> u64 \<Rightarrow> bytes \<Rightarrow> bytes \<Rightarrow> bytes" where
  "chaff_tag C key epoch nonce l =
     take 16 (hmac_sha256 C key (ascii ''GGN_HEADER_CHAFF_V1'' @ be_u64 epoch @ nonce @ l))"

definition frame_shard_authenticated :: "crates \<Rightarrow> bytes \<Rightarrow> bytes \<Rightarrow> u64 \<Rightarrow> bytes \<Rightarrow> bytes" where
  "frame_shard_authenticated C d key epoch nonce =
     (let l = be_u16 (of_nat (length d))
      in l @ d @ chaff_tag C key epoch nonce l)"

definition unframe_authenticated :: "crates \<Rightarrow> bytes \<Rightarrow> bytes \<Rightarrow> u64 \<Rightarrow> bytes \<Rightarrow> (bytes, string) rust" where
  "unframe_authenticated C b key epoch nonce =
     (if length b < 2 + 16 then Err ''truncated_frame''
      else
        (let l = unat (u16_be [b ! 0, b ! 1])
         in if l = 0 \<or> 2 + l + 16 > length b then Err ''length_out_of_bounds''
            else
              (let payload = slice 2 (2 + l) b;
                   provided_tag = slice (2 + l) (2 + l + 16) b;
                   expected_tag = chaff_tag C key epoch nonce [b ! 0, b ! 1]
               in if provided_tag = expected_tag then Ok payload else Err ''auth_fail'')))"

section \<open>Flow controller\<close>

definition MIN_TRANSIT_BURST :: u64 where "MIN_TRANSIT_BURST = 1500"

record flow_controller =
  fc_transit_bucket :: u64
  fc_transit_rate :: u64
  fc_transit_burst :: u64
  fc_last_replenish :: u64

definition flow_new :: "u64 \<Rightarrow> u64 \<Rightarrow> flow_controller" where
  "flow_new now transit_rate_mbps =
     (let bytes_per_sec = transit_rate_mbps * 125000
      in \<lparr>fc_transit_bucket = bytes_per_sec, fc_transit_rate = bytes_per_sec,
          fc_transit_burst = max (bytes_per_sec div 10) MIN_TRANSIT_BURST, fc_last_replenish = now\<rparr>)"

text \<open>The products are of \<open>u128\<close>, which two \<open>u64\<close> factors cannot overflow.\<close>

definition replenish :: "flow_controller \<Rightarrow> u64 \<Rightarrow> flow_controller" where
  "replenish f now =
     (let elapsed = sat_sub now (fc_last_replenish f)
      in if elapsed > 1000000 then
           (let tokens = unat (fc_transit_rate f) * unat elapsed div 1000000000;
                new = min (unat (fc_transit_bucket f) + tokens) (unat (fc_transit_burst f))
            in f\<lparr>fc_transit_bucket := of_nat new, fc_last_replenish := now\<rparr>)
         else f)"

definition try_consume_transit :: "flow_controller \<Rightarrow> u64 \<Rightarrow> u64 \<Rightarrow> flow_controller \<times> bool" where
  "try_consume_transit f now n =
     (let f = replenish f now;
          current = fc_transit_bucket f
      in if current \<ge> n then (f\<lparr>fc_transit_bucket := current - n\<rparr>, True) else (f, False))"

definition set_transit_rate_bps :: "flow_controller \<Rightarrow> u64 \<Rightarrow> u64 \<Rightarrow> flow_controller" where
  "set_transit_rate_bps f now bytes_per_sec =
     f\<lparr>fc_transit_rate := bytes_per_sec, fc_transit_burst := max (bytes_per_sec div 10) MIN_TRANSIT_BURST,
       fc_transit_bucket := bytes_per_sec, fc_last_replenish := now\<rparr>"

definition set_transit_rate_mbps :: "flow_controller \<Rightarrow> u64 \<Rightarrow> u64 \<Rightarrow> flow_controller" where
  "set_transit_rate_mbps f now mbps = set_transit_rate_bps f now (mbps * 125000)"

section \<open>ACK engine: invariant\<close>

text \<open>4096 slots, each entry in the slot of its number with at most five retries, and a window of 16 to 512.\<close>

definition ack_ok :: "ack_engine \<Rightarrow> bool" where
  "ack_ok a \<longleftrightarrow> length (ack_pending a) = 4096 \<and> 16 \<le> ack_cwnd a \<and> ack_cwnd a \<le> 512 \<and>
     (\<forall>i e. i < 4096 \<longrightarrow> ack_pending a ! i = Some e \<longrightarrow> unat (ae_seq e) mod 4096 = i \<and> ae_retries e \<le> 5)"

datatype ack_op = Register instant u32 bytes bytes bytes | Ack u32 | Timeout | Collect instant duration

fun ack_step :: "ack_engine \<Rightarrow> ack_op \<Rightarrow> ack_engine" where
  "ack_step a (Register t s d g h) = register a t s d g h"
| "ack_step a (Ack s) = fst (on_ack a s)"
| "ack_step a Timeout = on_timeout a"
| "ack_step a (Collect now timeout) = fst (collect_expired_full a now timeout)"

lemma ack_ok_new: "ack_ok ack_new"
  by (simp add: ack_ok_def ack_new_def)

lemma expire_slot_spec:
  assumes "expire_slot now timeout s = (s', out)"
  shows "s' = Some e' \<Longrightarrow> \<exists>e. s = Some e \<and> ae_seq e' = ae_seq e \<and> (ae_retries e \<le> 5 \<longrightarrow> ae_retries e' \<le> 5)"
    and "out = Some e' \<Longrightarrow> s' = Some e' \<and> (\<exists>e. s = Some e \<and> e' = e\<lparr>ae_retries := ae_retries e + 1, ae_sent_at := now\<rparr> \<and>
      timeout < now - ae_sent_at e \<and> ae_retries e < 5)"
proof -
  have "r < 5 \<Longrightarrow> r + 1 \<le> (5 :: u8)" for r :: u8
    using unat_plus_one [of r] by (cases "r = - 1") (auto simp: word_less_nat_alt word_le_nat_alt)
  then show "s' = Some e' \<Longrightarrow> \<exists>e. s = Some e \<and> ae_seq e' = ae_seq e \<and> (ae_retries e \<le> 5 \<longrightarrow> ae_retries e' \<le> 5)"
    and "out = Some e' \<Longrightarrow> s' = Some e' \<and> (\<exists>e. s = Some e \<and> e' = e\<lparr>ae_retries := ae_retries e + 1, ae_sent_at := now\<rparr> \<and>
      timeout < now - ae_sent_at e \<and> ae_retries e < 5)"
    using assms by (auto simp: expire_slot_def Let_def split: option.splits if_splits)
qed

lemma ack_step_ok:
  assumes ok: "ack_ok a"
  shows "ack_ok (ack_step a op)"
proof (cases op)
  case (Register t s d g h)
  then show ?thesis using ok by (auto simp: ack_ok_def register_def Let_def nth_list_update split: if_splits)
next
  case (Ack s)
  have "16 \<le> min (sat_add (ack_cwnd a) 1) 512 \<and> min (sat_add (ack_cwnd a) 1) 512 \<le> 512"
    using ok unat_sat_add [of "ack_cwnd a" 1] by (auto simp: ack_ok_def min_def word_le_nat_alt)
  then show ?thesis using ok Ack
    by (auto simp: ack_ok_def on_ack_def Let_def nth_list_update split: option.splits if_splits)
next
  case Timeout
  then show ?thesis using ok
    by (auto simp: ack_ok_def on_timeout_def max_def word_le_nat_alt unat_div_distrib)
next
  case (Collect now timeout)
  have "unat (ae_seq e') mod 4096 = i \<and> ae_retries e' \<le> 5"
    if "i < 4096" and "fst (expire_slot now timeout (ack_pending a ! i)) = Some e'" for i e'
  proof -
    obtain s' out where ex: "expire_slot now timeout (ack_pending a ! i) = (s', out)" by force
    from expire_slot_spec(1) [OF ex, of e'] that(2) ex obtain e where
      "ack_pending a ! i = Some e" "ae_seq e' = ae_seq e" "ae_retries e \<le> 5 \<longrightarrow> ae_retries e' \<le> 5" by auto
    then show ?thesis using ok that(1) by (auto simp: ack_ok_def)
  qed
  then show ?thesis using ok Collect by (simp add: ack_ok_def collect_expired_full_def Let_def)
qed

interpretation ack_machine: state_machine ack_step ack_ok
  by unfold_locales (rule ack_step_ok)

text \<open>The entries one unacknowledged slot gives to resend over a sequence of collections.\<close>

fun slot_resends :: "ack_entry option \<Rightarrow> (instant \<times> duration) list \<Rightarrow> ack_entry list" where
  "slot_resends s [] = []"
| "slot_resends s ((now, timeout) # ts) =
     (case expire_slot now timeout s of
        (s', Some e) \<Rightarrow> e # slot_resends s' ts
      | (s', None) \<Rightarrow> slot_resends s' ts)"

lemma slot_resends_None [simp]: "slot_resends None ts = []"
  by (induction ts rule: induct_list012) (auto simp: expire_slot_def)

lemma slot_resends_bound:
  "ae_retries e \<le> 5 \<Longrightarrow> length (slot_resends (Some e) ts) + unat (ae_retries e) \<le> 5"
proof (induction ts arbitrary: e)
  case (Cons p ts)
  obtain now timeout where p: "p = (now, timeout)" by force
  show ?case
  proof (cases "now - ae_sent_at e > timeout \<and> ae_retries e < 5")
    case True
    let ?e = "e\<lparr>ae_retries := ae_retries e + 1, ae_sent_at := now\<rparr>"
    have r: "unat (ae_retries e + 1) = Suc (unat (ae_retries e))"
      using True by (intro unat_plus_one word_not_max) auto
    then have "ae_retries ?e \<le> 5" using True by (simp add: word_le_nat_alt word_less_nat_alt)
    from Cons.IH [OF this] show ?thesis using True r by (simp add: p expire_slot_def Let_def)
  next
    case False
    show ?thesis
    proof (cases "ae_retries e \<ge> 5")
      case True
      then have "expire_slot now timeout (Some e) = (None, None)" using False by (auto simp: expire_slot_def)
      then show ?thesis using Cons.prems by (simp add: p word_le_nat_alt)
    next
      case ne: False
      then show ?thesis using False Cons.IH [OF Cons.prems] by (auto simp: p expire_slot_def)
    qed
  qed
qed (simp add: word_le_nat_alt)

section \<open>Properties\<close>



text \<open>
  A number 4096 further on takes the slot of a packet that is still unacknowledged: it is no longer
  retransmitted, and its ACK is refused.
\<close>

theorem register_evicts_unacknowledged:
  assumes "length (ack_pending a) = 4096"
  shows "\<not> snd (on_ack (register (register a t s d g h) t' (s + 4096) d' g' h') s)"
proof -
  have "unat (s + 4096) mod 4096 = unat s mod 4096" by (simp add: unat_word_ariths mod_mod_cancel)
  moreover have "s + 4096 \<noteq> s" by simp
  ultimately show ?thesis using assms by (simp add: register_def on_ack_def Let_def)
qed

lemma u16_head: "unat (u16_be [frame_shard d ! 0, frame_shard d ! 1]) = length d mod 65536"
    "[frame_shard d ! 0, frame_shard d ! 1] = be_u16 (of_nat (length d))"
proof -
  obtain x y where h: "be_u16 (of_nat (length d)) = [x, y]" by (simp add: be_u16_def numeral_2_eq_2)
  then show eq: "[frame_shard d ! 0, frame_shard d ! 1] = be_u16 (of_nat (length d))" by (simp add: frame_shard_def)
  show "unat (u16_be [frame_shard d ! 0, frame_shard d ! 1]) = length d mod 65536"
    unfolding eq by (simp add: unat_of_nat)
qed

lemma frame_shard_prefix:
  shows "(frame_shard d @ xs) ! 0 = frame_shard d ! 0" and "(frame_shard d @ xs) ! 1 = frame_shard d ! 1"
    and "slice 2 (2 + length d) (frame_shard d @ xs) = d" and "length (frame_shard d) = 2 + length d"
  by (simp_all add: nth_append frame_shard_def slice_def)

lemma unframe_frame_shard:
  assumes "length d < 65536"
  shows "unframe (frame_shard d @ pad) = (if d = [] then None else Some d)"
  unfolding unframe_def Let_def frame_shard_prefix(1,2) u16_head(1)
  using assms frame_shard_prefix(3,4) [of d] by simp

text \<open>
  Length framing: a shard of 1 to 65535 bytes is recovered from its frame whatever padding
  follows, also through the authenticated variant, which refuses it under any key, epoch or nonce
  whose tag differs; an empty shard is not recovered.
\<close>

theorem shard_framing_roundtrip:
  assumes "hash_law C" and "length d < 65536"
  shows "unframe (frame_shard d @ pad) = (if d = [] then None else Some d) \<and>
    unframe_authenticated C (frame_shard_authenticated C d k e n @ pad) k' e' n' =
      (if d = [] then Err ''length_out_of_bounds''
       else if chaff_tag C k e n (be_u16 (of_nat (length d))) = chaff_tag C k' e' n' (be_u16 (of_nat (length d)))
       then Ok d else Err ''auth_fail'')"
proof -
  note l = frame_shard_prefix(4) [of d] and nth = frame_shard_prefix(1,2) and s = frame_shard_prefix(3)
  have t: "length (chaff_tag C k e n m) = 16" for m using hash_lawD [OF assms(1)] by (simp add: chaff_tag_def)
  have f: "frame_shard_authenticated C d k e n @ pad =
      frame_shard d @ chaff_tag C k e n (be_u16 (of_nat (length d))) @ pad"
    by (simp add: frame_shard_authenticated_def frame_shard_def Let_def)
  have tg: "slice (2 + length d) (2 + length d + 16) (frame_shard d @ chaff_tag C k e n m @ pad) = chaff_tag C k e n m" for m
    using t [of m] by (simp add: slice_def l)
  note unframe_frame_shard [OF assms(2), of pad]
  moreover have "unframe_authenticated C (frame_shard_authenticated C d k e n @ pad) k' e' n' =
      (if d = [] then Err ''length_out_of_bounds''
       else if chaff_tag C k e n (be_u16 (of_nat (length d))) = chaff_tag C k' e' n' (be_u16 (of_nat (length d)))
       then Ok d else Err ''auth_fail'')"
    unfolding f unframe_authenticated_def Let_def nth u16_head(1) unfolding u16_head(2) using assms(2) s tg by (simp add: l t)
  ultimately show ?thesis ..
qed

theorem shard_framing_roundtrip_witness:
  "unframe (frame_shard [4, 5] @ [0, 0]) = Some [4, 5]"
  using shard_framing_roundtrip [OF demo_laws(3), of "[4, 5]" "[0, 0]" "[]" 0 "[]" "[]" 0 "[]"] by simp

text \<open>The bytes a run of requests is granted.\<close>

fun granted :: "flow_controller \<Rightarrow> (u64 \<times> u64) list \<Rightarrow> nat" where
  "granted f [] = 0"
| "granted f ((now, n) # evs) =
     (case try_consume_transit f now n of (f', ok) \<Rightarrow> (if ok then unat n else 0) + granted f' evs)"

lemma div_split_add: "a div c + b div c \<le> (a + b) div (c :: nat)"
  using div_add1_eq [of a b c] by linarith

lemma replenish_bound:
  fixes f :: flow_controller
  assumes "unat now \<le> T"
  defines "f' \<equiv> replenish f now"
  shows "fc_transit_rate f' = fc_transit_rate f"
    and "unat (fc_transit_bucket f') + unat (fc_transit_rate f) * (T - unat (fc_last_replenish f')) div 1000000000
      \<le> unat (fc_transit_bucket f) + unat (fc_transit_rate f) * (T - unat (fc_last_replenish f)) div 1000000000"
proof -
  let ?r = "unat (fc_transit_rate f)" and ?l = "unat (fc_last_replenish f)" and ?b = "unat (fc_transit_bucket f)"
  show "fc_transit_rate f' = fc_transit_rate f" by (simp add: f'_def replenish_def Let_def)
  show "unat (fc_transit_bucket f') + ?r * (T - unat (fc_last_replenish f')) div 1000000000
      \<le> ?b + ?r * (T - ?l) div 1000000000"
  proof (cases "sat_sub now (fc_last_replenish f) > 1000000")
    case True
    have e: "unat (sat_sub now (fc_last_replenish f)) = unat now - ?l" by (rule unat_sat_sub)
    have "min (?b + ?r * (unat now - ?l) div 1000000000) (unat (fc_transit_burst f)) < 2 ^ 64"
      using unat_bound [of "fc_transit_burst f"] by (simp add: min_less_iff_disj)
    then have "unat (fc_transit_bucket f') \<le> ?b + ?r * (unat now - ?l) div 1000000000"
      using True by (simp add: f'_def replenish_def Let_def e unat_of_nat)
    moreover have "?r * (unat now - ?l) div 1000000000 + ?r * (T - unat now) div 1000000000 \<le> ?r * (T - ?l) div 1000000000"
    proof -
      have "unat now - ?l + (T - unat now) = T - ?l"
        using True assms(1) e by (simp add: word_less_nat_alt)
      then show ?thesis using div_split_add [of "?r * (unat now - ?l)" 1000000000 "?r * (T - unat now)"]
        by (simp add: distrib_left [symmetric])
    qed
    ultimately show ?thesis using True by (simp add: f'_def replenish_def Let_def)
  qed (simp add: f'_def replenish_def Let_def)
qed

text \<open>What a controller can still grant up to time T; a request only ever takes from it.\<close>

definition tokens_until :: "nat \<Rightarrow> flow_controller \<Rightarrow> nat" where
  "tokens_until T f = unat (fc_transit_bucket f) + unat (fc_transit_rate f) * (T - unat (fc_last_replenish f)) div 1000000000"

lemma consume_bound:
  assumes "unat now \<le> T" and "try_consume_transit f now n = (f', ok)"
  shows "(if ok then unat n else 0) + tokens_until T f' \<le> tokens_until T f"
proof (cases "fc_transit_bucket (replenish f now) \<ge> n")
  case True
  have "unat (fc_transit_bucket (replenish f now) - n) + unat n = unat (fc_transit_bucket (replenish f now))"
    using True by (simp add: unat_sub word_le_nat_alt)
  then show ?thesis using True assms(2) replenish_bound [OF assms(1), of f]
    by (auto simp: try_consume_transit_def Let_def tokens_until_def)
qed (use assms replenish_bound [OF assms(1), of f] in \<open>auto simp: try_consume_transit_def Let_def tokens_until_def\<close>)

lemma granted_bound:
  assumes "\<forall>(t, n) \<in> set evs. unat t \<le> T"
  shows "granted f evs \<le> tokens_until T f"
  using assms
proof (induction evs arbitrary: f)
  case (Cons p evs)
  obtain now n where p: "p = (now, n)" by force
  obtain f' ok where c: "try_consume_transit f now n = (f', ok)" by force
  show ?case using consume_bound [OF _ c, of T] Cons.IH [of f'] Cons.prems by (auto simp: p c)
qed simp

text \<open>
  The shaper enforces its rate: over any sequence of requests up to time T, at any clock
  readings, also ones that go backwards, the bytes granted never exceed the tokens at the start plus
  the rate times the elapsed time.
\<close>

theorem shaper_enforces_the_rate:
  assumes "\<forall>(t, n) \<in> set evs. unat t \<le> T"
  shows "granted f evs \<le> unat (fc_transit_bucket f) +
    unat (fc_transit_rate f) * (T - unat (fc_last_replenish f)) div 1000000000"
  using granted_bound [OF assms] by (simp add: tokens_until_def)

theorem shaper_enforces_the_rate_witness:
  "granted (flow_new 0 1) [(5, 100000), (6, 100000), (2000000, 300)] \<le> 125000 + 125000 * 2000000 div 1000000000"
  using shaper_enforces_the_rate [of "[(5, 100000), (6, 100000), (2000000, 300)]" 2000000 "flow_new 0 1"]
  by (simp add: flow_new_def)

text \<open>
  The burst allowance does not bound the first burst: a new controller, and one whose rate was just
  set, grants a whole second's worth of bytes at once, ten times its 100 ms allowance.
\<close>

theorem first_burst_exceeds_the_allowance:
  assumes "1 \<le> unat m" and "unat m * 125000 < 2 ^ 64"
  shows "snd (try_consume_transit (flow_new now m) now (m * 125000)) \<and>
    snd (try_consume_transit (set_transit_rate_mbps f now m) now (m * 125000)) \<and>
    fc_transit_burst (flow_new now m) < m * 125000"
proof -
  have u: "unat (m * 125000) = unat m * 125000" using assms(2) by (simp add: unat_word_ariths)
  have "sat_sub now now = 0" by (simp add: sat_sub_def)
  then show ?thesis using assms(1) u
    by (simp add: try_consume_transit_def replenish_def flow_new_def set_transit_rate_mbps_def set_transit_rate_bps_def
        Let_def max_def word_less_nat_alt unat_div_distrib MIN_TRANSIT_BURST_def)
qed

end
