(* ===== verification/Establish.thy ===== *)
theory Establish
  imports Session Identity L4_RS Transport
begin

text \<open>
  Session establishment, the handlers of src/src/main.rs that join identity, handshake, erasure
  coder and session: offering a handshake (\<open>initiate_handshake\<close>), answering a negotiated offer and
  taking its response (the two negotiated branches of \<open>handle_pkt\<close>), registering the session, and
  the chunked post-quantum identity proof that follows. Datagrams are sent directly: what a handler
  sends is part of its result, and the fallback carriers, the VPN hub hooks, the peer-cache file and
  logging are left out. Random values (ephemeral secrets, encapsulation randomness, wire nonces) are
  arguments.
\<close>

section \<open>The node\<close>

datatype pending_handshake =
  Kem512 bytes bytes
| Negotiated (ph_x_secret: bytes) (ph_kem512: bytes) (ph_kem768: bytes) (ph_offered: "hybrid_cipher_suite list")

record node =
  nd_identity :: ghost_identity
  nd_sessions :: "bytes \<rightharpoonup> session"
  nd_peers :: "bytes \<rightharpoonup> sock_addr"
  nd_pending :: "(sock_addr \<times> pending_handshake) list"

definition MAX_PENDING_HANDSHAKES :: nat where "MAX_PENDING_HANDSHAKES = 512"

fun is_single_device_ip :: "ip_addr \<Rightarrow> bool" where
  "is_single_device_ip (V4 a b c d) =
     (if a = 127 then False
      else (a = 10 \<or> a = 172 \<and> 16 \<le> b \<and> b \<le> 31 \<or> a = 192 \<and> b = 168) \<or> a = 100 \<and> unat b div 64 = 1 \<or> a = 169 \<and> b = 254)"
| "is_single_device_ip (V6 bs) = (bs \<noteq> zeros 15 @ [1])"

definition stale_peer :: "node \<Rightarrow> bytes \<Rightarrow> sock_addr \<Rightarrow> bytes \<Rightarrow> bool" where
  "stale_peer nd fp src key \<longleftrightarrow>
     (case nd_peers nd key of
        None \<Rightarrow> False
      | Some a \<Rightarrow> key \<noteq> fp \<and> (a = src \<or> is_single_device_ip (sa_ip src) \<and> sa_ip a = sa_ip src))"

definition register_peer_session :: "node \<Rightarrow> bytes \<Rightarrow> sock_addr \<Rightarrow> session \<Rightarrow> node" where
  "register_peer_session nd fp src s =
     (let keep = (\<lambda>m. \<lambda>key. if stale_peer nd fp src key then None else m key)
      in nd\<lparr>nd_peers := (keep (nd_peers nd))(fp \<mapsto> src),
            nd_sessions := (\<lambda>key. if stale_peer nd fp src key then None else nd_sessions nd key)(fp \<mapsto> s)\<rparr>)"

section \<open>Sealing one control message\<close>

record seal_ctx =
  sc_key :: bytes
  sc_epoch :: u64
  sc_counter :: u64
  sc_nonce :: bytes
  sc_direction :: nonce_direction
  sc_session_hash :: bytes
  sc_ratchet_due :: bool

definition ctx_from_session :: "crates \<Rightarrow> session \<Rightarrow> bytes \<Rightarrow> session \<times> seal_ctx" where
  "ctx_from_session C s nonce =
     (case seal_material C s nonce of (s', m) \<Rightarrow>
        (s', \<lparr>sc_key = sm_key m, sc_epoch = sm_epoch m, sc_counter = sm_counter m, sc_nonce = sm_nonce m,
              sc_direction = sm_direction m, sc_session_hash = se_session_hash s, sc_ratchet_due = sm_ratchet_due m\<rparr>))"

definition ctx_header :: "crates \<Rightarrow> seal_ctx \<Rightarrow> u8 \<Rightarrow> bool \<Rightarrow> u8 \<Rightarrow> gtf_v2_header" where
  "ctx_header C ctx shard_index bulk flags =
     \<lparr>gh_session_hash = sc_session_hash ctx, gh_counter = sc_counter ctx, gh_epoch = sc_epoch ctx, gh_nonce = sc_nonce ctx,
      gh_shard_index = shard_index, gh_flags = flags, gh_bulk = bulk,
      gh_tail = tail_for C (sc_key ctx) (sc_nonce ctx) (sc_epoch ctx) (sc_direction ctx)\<rparr>"

definition seal_single :: "crates \<Rightarrow> seal_ctx \<Rightarrow> bytes \<Rightarrow> (bytes, unit) rust" where
  "seal_single C ctx payload =
     (let framed = be_u16 (of_nat (length payload)) @ payload;
          framed = (if length framed mod 2 \<noteq> 0 then framed @ [0] else framed);
          framed = xchacha_seal_in_place C (sc_key ctx) (sc_nonce ctx) (sc_epoch ctx) (sc_direction ctx) framed;
          tag = drop (length framed - 16) framed;
          carrier = frame_shard framed
      in build_gtf_v2_frame (ctx_header C ctx 0 True FLAG_TUNNEL) carrier tag)"

section \<open>The post-quantum identity proof\<close>

definition PQ_AUTH_CHUNK_MAGIC :: bytes where "PQ_AUTH_CHUNK_MAGIC = ascii ''PQ_AUTH_CHUNK:''"
definition PQ_AUTH_ACK_MAGIC :: bytes where "PQ_AUTH_ACK_MAGIC = ascii ''PQ_AUTH_ACK__:''"
definition PQ_AUTH_CHUNK_PAYLOAD_SIZE :: nat where "PQ_AUTH_CHUNK_PAYLOAD_SIZE = 500"

text \<open>\<open>binding.chunks(PQ_AUTH_CHUNK_PAYLOAD_SIZE)\<close>.\<close>

function pq_chunks :: "bytes \<Rightarrow> bytes list" where
  "pq_chunks xs =
     (if xs = [] then [] else take PQ_AUTH_CHUNK_PAYLOAD_SIZE xs # pq_chunks (drop PQ_AUTH_CHUNK_PAYLOAD_SIZE xs))"
  by auto
termination
  by (relation "measure length") (auto simp: PQ_AUTH_CHUNK_PAYLOAD_SIZE_def)

declare pq_chunks.simps [simp del]

definition pq_chunk_pdu :: "nat \<Rightarrow> u8 \<Rightarrow> bytes \<Rightarrow> bytes" where
  "pq_chunk_pdu idx total_chunks chunk =
     PQ_AUTH_CHUNK_MAGIC @ [of_nat idx] @ [total_chunks] @ be_u16 (of_nat (length chunk)) @ chunk"

text \<open>The loop of \<open>send_pq_auth_proof\<close>: one seal context and one frame per chunk.\<close>

fun send_chunks ::
  "crates \<Rightarrow> node \<Rightarrow> bytes \<Rightarrow> (nat \<Rightarrow> bytes) \<Rightarrow> u8 \<Rightarrow> nat \<Rightarrow> bytes list \<Rightarrow> (node \<times> bytes list, unit) rust" where
  "send_chunks C nd fp nonces total_chunks idx [] = Ok (nd, [])"
| "send_chunks C nd fp nonces total_chunks idx (chunk # chunks) =
     (case nd_sessions nd fp of
        None \<Rightarrow> Ok (nd, [])
      | Some sess \<Rightarrow>
          (let (sess', ctx) = ctx_from_session C sess (nonces idx);
               nd' = nd\<lparr>nd_sessions := (nd_sessions nd)(fp \<mapsto> sess')\<rparr>
           in case seal_single C ctx (pq_chunk_pdu idx total_chunks chunk) of
                Ok frame \<Rightarrow>
                  (case send_chunks C nd' fp nonces total_chunks (Suc idx) chunks of
                     Ok (nd'', frames) \<Rightarrow> Ok (nd'', frame # frames)
                   | Err e \<Rightarrow> Err e
                   | Panic \<Rightarrow> Panic)
              | _ \<Rightarrow> Panic))"

definition send_pq_auth_proof :: "crates \<Rightarrow> node \<Rightarrow> bytes \<Rightarrow> (nat \<Rightarrow> bytes) \<Rightarrow> (node \<times> bytes list, unit) rust" where
  "send_pq_auth_proof C nd peer_fp nonces =
     (case nd_sessions nd peer_fp of
        None \<Rightarrow> Ok (nd, [])
      | Some sess \<Rightarrow>
          (let binding = create_identity_binding C (nd_identity nd) (se_master_key sess);
               chunks = pq_chunks binding
           in send_chunks C nd peer_fp nonces (of_nat (length chunks)) 0 chunks))"

text \<open>
  An incoming chunk or acknowledgement: the result says whether the payload was one, the new node
  and the frames sent (the acknowledgement, and the responder's own proof once the peer's verified).
\<close>

definition handle_pq_auth_pdu ::
  "crates \<Rightarrow> node \<Rightarrow> bytes \<Rightarrow> (nat \<Rightarrow> bytes) \<Rightarrow> bytes \<Rightarrow> bytes \<Rightarrow> (bool \<times> node \<times> bytes list, unit) rust" where
  "handle_pq_auth_pdu C nd ack_nonce nonces peer_fp payload =
     (let is_chunk = starts_with PQ_AUTH_CHUNK_MAGIC payload;
          is_ack = starts_with PQ_AUTH_ACK_MAGIC payload
      in if \<not> is_chunk \<and> \<not> is_ack then Ok (False, nd, [])
         else case nd_sessions nd peer_fp of
           None \<Rightarrow> Ok (True, nd, [])
         | Some sess \<Rightarrow>
             if \<not> is_chunk then Ok (True, nd, [])
             else if length payload < 14 + 4 then Ok (True, nd, [])
             else
               (let chunk_idx = payload ! 14; total_chunks = payload ! 15;
                    chunk_len = unat (u16_be [payload ! 16, payload ! 17]);
                    data_start = 14 + 4
                in if length payload < data_start + chunk_len then Ok (True, nd, [])
                   else
                     (let chunk_data = slice data_start (data_start + chunk_len) payload;
                          (sess1, ctx) = ctx_from_session C sess ack_nonce;
                          already_authed = is_pq_authenticated sess1;
                          (sess2, full_binding) =
                            (if already_authed then (sess1, None) else store_pq_chunk sess1 chunk_idx total_chunks chunk_data);
                          nd1 = nd\<lparr>nd_sessions := (nd_sessions nd)(peer_fp \<mapsto> sess2)\<rparr>
                      in case seal_single C ctx (PQ_AUTH_ACK_MAGIC @ [chunk_idx]) of
                           Ok ack_frame \<Rightarrow>
                             (if already_authed then Ok (True, nd1, [ack_frame])
                              else case full_binding of
                                None \<Rightarrow> Ok (True, nd1, [ack_frame])
                              | Some binding \<Rightarrow>
                                  (case se_peer_identity_pk sess2 of
                                     None \<Rightarrow> Ok (True, nd1\<lparr>nd_sessions := (nd_sessions nd1)(peer_fp := None)\<rparr>, [ack_frame])
                                   | Some pk \<Rightarrow>
                                       (case verify_hybrid_binding C pk (se_peer_pq_commitment sess2) (se_master_key sess2) binding of
                                          Ok pq_pk \<Rightarrow>
                                            (let sess3 = set_peer_pq_pk (set_pq_authenticated sess2 True) pq_pk;
                                                 nd2 = nd1\<lparr>nd_sessions := (nd_sessions nd1)(peer_fp \<mapsto> sess3)\<rparr>
                                             in if se_role sess2 = Responder
                                                then (case send_pq_auth_proof C nd2 peer_fp nonces of
                                                        Ok (nd3, frames) \<Rightarrow> Ok (True, nd3, ack_frame # frames)
                                                      | Err e \<Rightarrow> Err e
                                                      | Panic \<Rightarrow> Panic)
                                                else Ok (True, nd2, [ack_frame]))
                                        | _ \<Rightarrow> Ok (True, nd1\<lparr>nd_sessions := (nd_sessions nd1)(peer_fp := None)\<rparr>, [ack_frame]))))
                         | _ \<Rightarrow> Panic)))"

section \<open>The handshake\<close>

text \<open>
  \<open>uniform\<close> is the environment switch. The result has the shards handed to the transport.
\<close>

definition initiate_handshake ::
  "crates \<Rightarrow> bool \<Rightarrow> bytes \<Rightarrow> node \<Rightarrow> sock_addr \<Rightarrow> bytes \<Rightarrow> bytes \<Rightarrow> bytes \<Rightarrow> (node \<times> bytes list, unit) rust" where
  "initiate_handshake C uniform random_prefix nd t x_secret dk512 dk768 =
     (let xp = x25519_public C x_secret
      in if uniform then
           (case rs_encode C (build_uniform_handshake_pdu random_prefix (public_key_bytes C (nd_identity nd))
                    (identity_sign C (nd_identity nd)) xp (mlkem_public C dk512)) of
              Ok (_, raw) \<Rightarrow>
                (if length (nd_pending nd) \<ge> MAX_PENDING_HANDSHAKES then Ok (nd, raw)
                 else Ok (nd\<lparr>nd_pending := AList.update t (Kem512 x_secret dk512) (nd_pending nd)\<rparr>, raw))
            | _ \<Rightarrow> Panic)
         else
           (let supported = [X25519MlKem768V3, X25519MlKem512V2];
                keys = [(X25519MlKem768V3, mlkem768_public C dk768), (X25519MlKem512V2, mlkem_public C dk512)]
            in case build_negotiated_handshake_pdu supported (public_key_bytes C (nd_identity nd))
                      (identity_pq_commitment C (nd_identity nd)) (identity_sign C (nd_identity nd)) xp keys of
                 None \<Rightarrow> Panic
               | Some pdu \<Rightarrow>
                   (case rs_encode C pdu of
                      Ok (_, raw) \<Rightarrow>
                        (let pending = (if length (nd_pending nd) \<ge> MAX_PENDING_HANDSHAKES div 2 then [] else nd_pending nd)
                         in Ok (nd\<lparr>nd_pending := AList.update t (Negotiated x_secret dk512 dk768 supported) pending\<rparr>, raw))
                    | _ \<Rightarrow> Panic)))"

definition suite_encapsulate :: "crates \<Rightarrow> hybrid_cipher_suite \<Rightarrow> bytes \<Rightarrow> bytes \<Rightarrow> (bytes \<times> bytes, string) rust" where
  "suite_encapsulate C suite r peer_key =
     (case suite of X25519MlKem512V2 \<Rightarrow> kyber_encapsulate C r peer_key
                  | X25519MlKem768V3 \<Rightarrow> kyber768_encapsulate C r peer_key)"

definition LOCAL_SUITES :: "hybrid_cipher_suite list" where
  "LOCAL_SUITES = [X25519MlKem768V3, X25519MlKem512V2]"

text \<open>
  The branch of \<open>handle_pkt\<close> for a suite-list offer: the result has the response shards sent and the
  frames of the identity proof; a refused offer changes nothing and sends nothing.
\<close>

definition handle_negotiated_offer ::
  "crates \<Rightarrow> instant \<Rightarrow> node \<Rightarrow> bytes option \<Rightarrow> sock_addr \<Rightarrow> bytes \<Rightarrow> bytes \<Rightarrow> (nat \<Rightarrow> bytes) \<Rightarrow> bytes \<Rightarrow>
   (node \<times> bytes list \<times> bytes list, unit) rust" where
  "handle_negotiated_offer C now nd psk src r responder_secret nonces data =
     (case parse_negotiated_handshake_pdu data of
        None \<Rightarrow> Ok (nd, [], [])
      | Some hs \<Rightarrow>
          (let material = take (length data - 64) data
           in if \<not> verify_peer_signature C (nh_identity_pk hs) material (nh_signature hs) then Ok (nd, [], [])
              else case negotiate_cipher_suite LOCAL_SUITES (map wire_id (nh_supported hs)) of
                None \<Rightarrow> Ok (nd, [], [])
              | Some selected \<Rightarrow>
                  (case map_of (nh_kyber_keys hs) selected of
                     None \<Rightarrow> Ok (nd, [], [])
                   | Some peer_key \<Rightarrow>
                       (case suite_encapsulate C selected r peer_key of
                          Ok (ct, kem_ss) \<Rightarrow>
                            (let responder_public = x25519_public C responder_secret;
                                 x_shared = x25519_dh C responder_secret (nh_x25519_pub hs);
                                 own_commitment = identity_pq_commitment C (nd_identity nd);
                                 master = derive_hybrid_master_key_with_transcript C selected x_shared kem_ss psk
                                            (nh_x25519_pub hs) responder_public ct (nh_pq_commitment hs) own_commitment
                             in case build_negotiated_response_pdu selected (public_key_bytes C (nd_identity nd)) own_commitment
                                       (identity_sign C (nd_identity nd)) responder_public ct of
                                  None \<Rightarrow> Panic
                                | Some response \<Rightarrow>
                                    (case rs_encode C response of
                                       Ok (_, raw) \<Rightarrow>
                                         (let fp = hex_encode (take 8 (nh_identity_pk hs))
                                          in if fp = fingerprint C (nd_identity nd) then Ok (nd, raw, [])
                                             else
                                               (let s = new_with_role C now master fp Responder;
                                                    s = set_cipher_suite s selected;
                                                    s = pin_peer_identity s (nh_identity_pk hs);
                                                    s = pin_peer_pq_commitment s (nh_pq_commitment hs);
                                                    nd' = register_peer_session nd fp src s
                                                in case send_pq_auth_proof C nd' fp nonces of
                                                     Ok (nd'', frames) \<Rightarrow> Ok (nd'', raw, frames)
                                                   | _ \<Rightarrow> Panic))
                                     | _ \<Rightarrow> Panic))
                        | _ \<Rightarrow> Ok (nd, [], [])))))"

text \<open>The branch for the response.\<close>

definition handle_negotiated_response ::
  "crates \<Rightarrow> instant \<Rightarrow> node \<Rightarrow> bytes option \<Rightarrow> sock_addr \<Rightarrow> (nat \<Rightarrow> bytes) \<Rightarrow> bytes \<Rightarrow> (node \<times> bytes list, unit) rust" where
  "handle_negotiated_response C now nd psk src nonces data =
     (case parse_negotiated_response_pdu data of
        None \<Rightarrow> Ok (nd, [])
      | Some resp \<Rightarrow>
          (case get_range data 0 (negotiated_response_len (nr_suite resp) - 64) of
             None \<Rightarrow> Ok (nd, [])
           | Some material \<Rightarrow>
               if \<not> verify_peer_signature C (nr_identity_pk resp) material (nr_signature resp) then Ok (nd, [])
               else case map_of (nd_pending nd) src of
                 None \<Rightarrow> Ok (nd, [])
               | Some pending \<Rightarrow>
                   (let nd = nd\<lparr>nd_pending := AList.delete src (nd_pending nd)\<rparr>
                    in case pending of
                         Kem512 _ _ \<Rightarrow> Ok (nd, [])
                       | Negotiated x_secret kem512 kem768 offered \<Rightarrow>
                           if negotiate_cipher_suite LOCAL_SUITES (map wire_id offered) \<noteq> Some (nr_suite resp) then Ok (nd, [])
                           else
                             (let kem = (case nr_suite resp of
                                    X25519MlKem512V2 \<Rightarrow>
                                      (if length (nr_kyber_ct resp) \<noteq> 768 then Err ''''
                                       else Ok (mlkem_decapsulate C kem512 (nr_kyber_ct resp)))
                                  | X25519MlKem768V3 \<Rightarrow> kyber768_decapsulate C kem768 (nr_kyber_ct resp))
                              in case kem of
                                   Ok kem_ss \<Rightarrow>
                                     (let initiator_public = x25519_public C x_secret;
                                          x_shared = x25519_dh C x_secret (nr_x25519_pub resp);
                                          master = derive_hybrid_master_key_with_transcript C (nr_suite resp) x_shared kem_ss psk
                                                     initiator_public (nr_x25519_pub resp) (nr_kyber_ct resp)
                                                     (identity_pq_commitment C (nd_identity nd)) (nr_pq_commitment resp);
                                          fp = hex_encode (take 8 (nr_identity_pk resp));
                                          s = session_new C now master fp;
                                          s = set_cipher_suite s (nr_suite resp);
                                          s = pin_peer_identity s (nr_identity_pk resp);
                                          s = pin_peer_pq_commitment s (nr_pq_commitment resp);
                                          nd' = register_peer_session nd fp src s
                                      in case send_pq_auth_proof C nd' fp nonces of Ok v \<Rightarrow> Ok v | _ \<Rightarrow> Panic)
                                 | _ \<Rightarrow> Ok (nd, [])))))"

section \<open>Sending the proof\<close>

lemma build_bulk_ok:
  "gh_bulk h \<Longrightarrow> length payload \<le> 1418 \<Longrightarrow> \<exists>p. build_gtf_v2_frame h payload tag = Ok p"
  by (simp add: build_gtf_v2_frame_def try_build_gtf_v2_frame_def V2_MAX_BULK_PAYLOAD_LEN_def
      V2_BULK_OFFSET_AUTH_TAG_START_def V2_OFFSET_PAYLOAD_START_def)

lemma seal_single_ok:
  assumes "xchacha_law C" and "length payload \<le> 1300"
  obtains frame where "seal_single C ctx payload = Ok frame"
proof -
  have "\<exists>frame. seal_single C ctx payload = Ok frame"
    unfolding seal_single_def Let_def
    by (rule build_bulk_ok) (use assms(2) in \<open>auto simp: ctx_header_def xchacha_seal_in_place_def
      xchacha_seal_in_place_with_aad_def xchacha_lawD(1) [OF assms(1)] frame_shard_def\<close>)
  then show thesis using that by blast
qed

lemma send_chunks_ok:
  assumes "xchacha_law C" and "nd_sessions nd fp = Some s" and "peers C s b" and "\<forall>c \<in> set chunks. length c \<le> 500"
    and "unat (seal_pos s) + length chunks < 2 ^ 64"
  shows "\<exists>nd' frames s'. send_chunks C nd fp nonces t idx chunks = Ok (nd', frames) \<and> nd' = nd\<lparr>nd_sessions := (nd_sessions nd)(fp \<mapsto> s')\<rparr> \<and>
    peers C s' b \<and> same_session s s' \<and> length frames = length chunks"
  using assms(2-)
proof (induction chunks arbitrary: nd s idx)
  case Nil
  then show ?case by (intro exI [of _ nd] exI [of _ "[]"] exI [of _ s]) (auto simp: same_session_def fun_upd_idem)
next
  case (Cons c chunks)
  obtain s1 m where m: "seal_material C s (nonces idx) = (s1, m)" by force
  obtain ctx where ctx: "ctx_from_session C s (nonces idx) = (s1, ctx)" by (simp add: ctx_from_session_def m)
  note k = seal_material_keeps [OF m]
  have ne: "seal_pos s \<noteq> - 1" using Cons.prems(4) by (auto simp: unsigned_minus_1_eq_mask mask_eq_exp_minus_1)
  have s1: "peers C s1 b" "seal_pos s1 = seal_pos s + 1" using k(3) [OF Cons.prems(2) ne] by auto
  have u: "unat (seal_pos s1) = unat (seal_pos s) + 1" using s1(2) ne by (simp add: unat_plus_one)
  obtain frame where fr: "seal_single C ctx (pq_chunk_pdu idx t c) = Ok frame"
    by (rule seal_single_ok [OF assms(1)]) (use Cons.prems(3) in \<open>auto simp: pq_chunk_pdu_def PQ_AUTH_CHUNK_MAGIC_def\<close>)
  let ?nd = "nd\<lparr>nd_sessions := (nd_sessions nd)(fp \<mapsto> s1)\<rparr>"
  obtain nd' frames s' where r: "send_chunks C ?nd fp nonces t (Suc idx) chunks = Ok (nd', frames)"
    "nd' = ?nd\<lparr>nd_sessions := (nd_sessions ?nd)(fp \<mapsto> s')\<rparr>" "peers C s' b" "same_session s1 s'" "length frames = length chunks"
  proof -
    have "nd_sessions ?nd fp = Some s1" "\<forall>c \<in> set chunks. length c \<le> 500" "unat (seal_pos s1) + length chunks < 2 ^ 64"
      using u Cons.prems(3,4) by auto
    from Cons.IH [OF this(1) s1(1) this(2,3), of "Suc idx"] show thesis using that by blast
  qed
  have "send_chunks C nd fp nonces t idx (c # chunks) = Ok (nd', frame # frames)"
    using Cons.prems(1) ctx fr r(1) by simp
  moreover have "same_session s s'" using k(1) r(4) by (simp add: same_session_def)
  moreover have "nd' = nd\<lparr>nd_sessions := (nd_sessions nd)(fp \<mapsto> s')\<rparr>" using r(2) by simp
  ultimately show ?case using r(3,5)
    by (intro exI [of _ nd'] exI [of _ "frame # frames"] exI [of _ s'] conjI) (simp_all only: list.size)
qed

lemma pq_chunks_spec:
  "concat (pq_chunks xs) = xs" "length (pq_chunks xs) = (length xs + 499) div 500" "\<forall>c \<in> set (pq_chunks xs). length c \<le> 500"
proof (induction xs rule: pq_chunks.induct)
  case (1 xs)
  { case 1
    then show ?case using "1.IH" by (subst pq_chunks.simps) (auto simp: PQ_AUTH_CHUNK_PAYLOAD_SIZE_def)
  next
    case 2
    have "Suc ((l - 500 + 499) div 500) = (l + 499) div 500" if "0 < l" for l :: nat
    proof (cases "l \<le> 500")
      case True
      moreover have "(l + 499) div 500 = 1" using that True by (intro div_nat_eqI) auto
      ultimately show ?thesis by simp
    next
      case False
      then have "l + 499 = (l - 500 + 499) + 500" by simp
      then show ?thesis by simp
    qed
    then show ?case using "1.IH"(2) by (subst pq_chunks.simps) (auto simp: PQ_AUTH_CHUNK_PAYLOAD_SIZE_def)
  next
    case 3
    then show ?case using "1.IH"(3) by (subst pq_chunks.simps) (auto simp: PQ_AUTH_CHUNK_PAYLOAD_SIZE_def)
  }
qed

lemma send_pq_auth_proof_ok:
  assumes "xchacha_law C" and "sig_law C" and "nd_sessions nd fp = Some s" and "peers C s b" and "seal_pos s = 0"
  obtains frames s' where "send_pq_auth_proof C nd fp nonces = Ok (nd\<lparr>nd_sessions := (nd_sessions nd)(fp \<mapsto> s')\<rparr>, frames)"
    and "peers C s' b" and "same_session s s'" and "length frames = 11"
proof -
  let ?cs = "pq_chunks (create_identity_binding C (nd_identity nd) (se_master_key s))"
  have l: "length ?cs = 11" by (simp add: pq_chunks_spec(2) binding_fields(1) [OF assms(2)])
  then show thesis
    using send_chunks_ok [OF assms(1,3,4) pq_chunks_spec(3), of "create_identity_binding C (nd_identity nd) (se_master_key s)"
        nonces "of_nat (length ?cs)" 0] assms(3,5) that
    by (auto simp: send_pq_auth_proof_def Let_def)
qed

section \<open>The exchange\<close>

text \<open>
  What the receiver of three shards, one of them lost, hands to its handler: the two data shards
  after reconstruction.
\<close>

definition delivered :: "crates \<Rightarrow> bytes list \<Rightarrow> nat \<Rightarrow> bytes" where
  "delivered C raw i =
     (case reconstruct C ((map Some raw)[i := None]) of Ok s \<Rightarrow> the (s ! 0) @ the (s ! 1) | _ \<Rightarrow> [])"

lemma rs_encode_delivered:
  assumes "rs_law C" and "data \<noteq> []"
  obtains p raw where "rs_encode C data = Ok (p, raw)" and "\<And>i. i < 3 \<Longrightarrow> delivered C raw i = padded_even data"
proof -
  obtain d0 d1 p where e: "rs_encode C data = Ok (padded_even data, [d0, d1, p])" "d0 @ d1 = padded_even data"
    "length d0 = length d1" "d0 \<noteq> []" "rs_encode_sep C d0 d1 = Some p"
    by (rule rs_encode_ok [OF assms])
  have "delivered C [d0, d1, p] i = padded_even data" if i: "i < 3" for i
  proof -
    consider "i = 0" | "i = 1" | "i = 2" using i by linarith
    then show ?thesis using reconstruct_two [OF assms(1) e(4,3,5)] e(2) by cases (auto simp: delivered_def)
  qed
  then show thesis using that e(1) by blast
qed

definition offer_of :: "crates \<Rightarrow> ghost_identity \<Rightarrow> bytes \<Rightarrow> bytes \<Rightarrow> bytes \<Rightarrow> negotiated_handshake_blob" where
  "offer_of C me x dk512 dk768 =
     (let b = \<lparr>nh_supported = LOCAL_SUITES, nh_x25519_pub = x25519_public C x,
               nh_kyber_keys = [(X25519MlKem768V3, mlkem768_public C dk768), (X25519MlKem512V2, mlkem_public C dk512)],
               nh_identity_pk = public_key_bytes C me, nh_pq_commitment = identity_pq_commitment C me, nh_signature = []\<rparr>
      in b\<lparr>nh_signature := identity_sign C me (offer_body b @ [0])\<rparr>)"

lemma commitment_length: "hash_law C \<Longrightarrow> length (identity_pq_commitment C i) = 32"
  by (simp add: identity_pq_commitment_def pq_commitment_def hash_lawD)

lemma offer_of_ok:
  assumes "kex_law C" and "kex768_law C" and "sig_law C" and "hash_law C"
  shows "offer_ok (offer_of C me x dk512 dk768)"
    and "nh_signature (offer_of C me x dk512 dk768) = identity_sign C me (offer_body (offer_of C me x dk512 dk768) @ [0])"
  using kex_lawD [OF assms(1)] sig_lawD [OF assms(3)] commitment_length [OF assms(4)] assms(2)
  by (simp_all add: offer_of_def offer_ok_def Let_def LOCAL_SUITES_def public_key_bytes_def identity_sign_def kex768_law_def
      offer_body_def)

lemma initiate_sends_offer:
  assumes "kex_law C" and "kex768_law C" and "sig_law C" and "hash_law C" and "rs_law C"
  obtains a' raw where "initiate_handshake C False pre a t x dk512 dk768 = Ok (a', raw)"
    and "nd_identity a' = nd_identity a" and "nd_sessions a' = nd_sessions a" and "nd_peers a' = nd_peers a"
    and "map_of (nd_pending a') t = Some (Negotiated x dk512 dk768 LOCAL_SUITES)"
    and "\<And>i. i < 3 \<Longrightarrow> delivered C raw i = offer_body (offer_of C (nd_identity a) x dk512 dk768) @ [0] @
           nh_signature (offer_of C (nd_identity a) x dk512 dk768)"
proof -
  let ?b = "offer_of C (nd_identity a) x dk512 dk768"
  let ?p = "offer_body ?b @ [0] @ nh_signature ?b"
  note ok = offer_of_ok [OF assms(1-4), of "nd_identity a" x dk512 dk768]
  have built: "build_negotiated_handshake_pdu [X25519MlKem768V3, X25519MlKem512V2] (public_key_bytes C (nd_identity a))
      (identity_pq_commitment C (nd_identity a)) (identity_sign C (nd_identity a)) (x25519_public C x)
      [(X25519MlKem768V3, mlkem768_public C dk768), (X25519MlKem512V2, mlkem_public C dk512)] = Some ?p"
    using build_offer [where b = ?b and sign = "identity_sign C (nd_identity a)", OF ok]
    by (simp add: offer_of_def Let_def LOCAL_SUITES_def)
  have "length (nh_signature ?b) = 64" using ok(1) by (simp add: offer_ok_def)
  then have even: "length ?p mod 2 = 0" using odd_offer_body [OF ok(1)] by simp
  obtain p raw where raw: "rs_encode C ?p = Ok (p, raw)" "\<And>i. i < 3 \<Longrightarrow> delivered C raw i = padded_even ?p"
    by (rule rs_encode_delivered [OF assms(5), of ?p]) (auto simp: offer_body_def)
  let ?pend = "if length (nd_pending a) \<ge> MAX_PENDING_HANDSHAKES div 2 then [] else nd_pending a"
  have "initiate_handshake C False pre a t x dk512 dk768 =
      Ok (a\<lparr>nd_pending := AList.update t (Negotiated x dk512 dk768 LOCAL_SUITES) ?pend\<rparr>, raw)"
    unfolding initiate_handshake_def Let_def if_False built option.case raw(1) rust.case prod.case LOCAL_SUITES_def ..
  then show thesis by (rule that) (use raw(2) padded_even_even [OF even] in \<open>auto simp: update_conv'\<close>)
qed

text \<open>The session each side registers, before the identity proof goes out.\<close>

definition pinned :: "session \<Rightarrow> hybrid_cipher_suite \<Rightarrow> bytes \<Rightarrow> bytes \<Rightarrow> session" where
  "pinned s suite pk commitment = pin_peer_pq_commitment (pin_peer_identity (set_cipher_suite s suite) pk) commitment"

lemma pinned_fields [simp]:
  "se_ratchet (pinned s suite pk com) = se_ratchet s" "se_role (pinned s suite pk com) = se_role s"
  "se_master_key (pinned s suite pk com) = se_master_key s" "se_cipher_suite (pinned s suite pk com) = suite"
  "se_peer_identity_pk (pinned s suite pk com) = Some pk" "se_peer_pq_commitment (pinned s suite pk com) = Some com"
  "se_pq_auth_state (pinned s suite pk com) = se_pq_auth_state s"
  "se_pq_incoming_chunks (pinned s suite pk com) = se_pq_incoming_chunks s"
  by (simp_all add: pinned_def pin_peer_pq_commitment_def pin_peer_identity_def set_cipher_suite_def)

lemma pinned_peers:
  "peers C (pinned (new_with_role C t k f Initiator) su pk com) (pinned (new_with_role C t' k f' Responder) su' pk' com')"
  using peers_new [of C t k f t' f'] by (simp add: peers_def seal_direction_def)

lemma new_seal_pos: "seal_pos (pinned (new_with_role C t k f r) su pk com) = 0"
  using cur_msg_new [of C k "seal_direction_of r"]
  by (auto simp: seal_pos_def seal_direction_def new_with_role_def msg_chain_seed_def)

lemma registered: "nd_sessions (register_peer_session nd fp src s) fp = Some s"
    "nd_identity (register_peer_session nd fp src s) = nd_identity nd"
  by (simp_all add: register_peer_session_def Let_def)

definition response_of :: "crates \<Rightarrow> ghost_identity \<Rightarrow> bytes \<Rightarrow> bytes \<Rightarrow> bytes" where
  "response_of C me y ct = RESPONSE_NEGOTIATION_MAGIC @ [wire_id X25519MlKem768V3] @ x25519_public C y @ ct @
     public_key_bytes C me @ identity_pq_commitment C me"

lemma offer_answered:
  fixes b :: node and x y :: bytes and psk :: "bytes option" and now :: instant and ia :: ghost_identity
  assumes laws: "kex_law C" "kex768_law C" "sig_law C" "hash_law C" "rs_law C" "xchacha_law C"
    and "fingerprint C ia \<noteq> fingerprint C (nd_identity b)" and "mlkem768_encapsulate C r (mlkem768_public C dk768) = Some (ct, ss)"
    and "length ct = 1088"
  defines "master \<equiv> derive_hybrid_master_key_with_transcript C X25519MlKem768V3 (x25519_dh C y (x25519_public C x)) ss psk
      (x25519_public C x) (x25519_public C y) ct (identity_pq_commitment C ia) (identity_pq_commitment C (nd_identity b))"
  defines "s0 \<equiv> pinned (new_with_role C now master (fingerprint C ia) Responder) X25519MlKem768V3 (public_key_bytes C ia)
      (identity_pq_commitment C ia)"
  assumes "peers C s0 sa"
  obtains b' raw frames sb where
    "handle_negotiated_offer C now b psk src r y nonces
       (offer_body (offer_of C ia x dk512 dk768) @ [0] @ nh_signature (offer_of C ia x dk512 dk768)) = Ok (b', raw, frames)"
    and "nd_sessions b' (fingerprint C ia) = Some sb" and "same_session s0 sb" and "peers C sb sa" and "length frames = 11"
    and "nd_identity b' = nd_identity b"
    and "\<And>i. i < 3 \<Longrightarrow> delivered C raw i = response_of C (nd_identity b) y ct @
           identity_sign C (nd_identity b) (response_of C (nd_identity b) y ct) @ [0]"
proof -
  let ?o = "offer_of C ia x dk512 dk768"
  let ?p = "offer_body ?o @ [0] @ nh_signature ?o"
  let ?R = "response_of C (nd_identity b) y ct"
  let ?resp = "?R @ identity_sign C (nd_identity b) ?R"
  note ok = offer_of_ok [OF laws(1-4), of ia x dk512 dk768]
  have l: "length (nh_signature ?o) = 64" using ok(1) by (simp add: offer_ok_def)
  have parse: "parse_negotiated_handshake_pdu ?p = Some ?o" using ok(1) unfolding parse_negotiated_iff by blast
  have mat: "take (length ?p - 64) ?p = offer_body ?o @ [0]" using l by simp
  have f: "nh_identity_pk ?o = public_key_bytes C ia" "nh_supported ?o = LOCAL_SUITES" "nh_x25519_pub ?o = x25519_public C x"
    "nh_pq_commitment ?o = identity_pq_commitment C ia" "map_of (nh_kyber_keys ?o) X25519MlKem768V3 = Some (mlkem768_public C dk768)"
    by (simp_all add: offer_of_def Let_def)
  have ver: "verify_peer_signature C (public_key_bytes C ia) (offer_body ?o @ [0]) (nh_signature ?o)"
    unfolding ok(2) by (simp add: verify_peer_signature_def public_key_bytes_def identity_sign_def sig_lawD(3) [OF laws(3)])
  have neg: "negotiate_cipher_suite LOCAL_SUITES (map wire_id LOCAL_SUITES) = Some X25519MlKem768V3"
    by (simp add: negotiate_cipher_suite_def LOCAL_SUITES_def)
  have kem: "suite_encapsulate C X25519MlKem768V3 r (mlkem768_public C dk768) = Ok (ct, ss)"
    by (simp add: suite_encapsulate_def kyber768_encapsulate_def assms(8))
  have resp: "build_negotiated_response_pdu X25519MlKem768V3 (public_key_bytes C (nd_identity b))
      (identity_pq_commitment C (nd_identity b)) (identity_sign C (nd_identity b)) (x25519_public C y) ct = Some ?resp"
    using assms(9) by (simp add: build_negotiated_response_pdu_def response_material_def response_of_def)
  have "length ?resp = 1265"
    using assms(9) kex_lawD(1) [OF laws(1)] sig_lawD(1,2) [OF laws(3)] commitment_length [OF laws(4)]
    by (simp add: response_of_def public_key_bytes_def identity_sign_def)
  then have pad: "padded_even ?resp = ?resp @ [0]" by (simp add: padded_even_def)
  obtain q raw where raw: "rs_encode C ?resp = Ok (q, raw)" "\<And>i. i < 3 \<Longrightarrow> delivered C raw i = padded_even ?resp"
    by (rule rs_encode_delivered [OF laws(5), of ?resp]) (auto simp: response_of_def)
  let ?nd = "register_peer_session b (fingerprint C ia) src s0"
  have pos: "seal_pos s0 = 0" by (simp add: s0_def new_seal_pos)
  obtain frames sb where sent: "send_pq_auth_proof C ?nd (fingerprint C ia) nonces =
      Ok (?nd\<lparr>nd_sessions := (nd_sessions ?nd)(fingerprint C ia \<mapsto> sb)\<rparr>, frames)"
    "peers C sb sa" "same_session s0 sb" "length frames = 11"
    by (rule send_pq_auth_proof_ok [OF laws(6,3) registered(1) assms(12) pos])
  let ?b' = "?nd\<lparr>nd_sessions := (nd_sessions ?nd)(fingerprint C ia \<mapsto> sb)\<rparr>"
  have fp: "hex_encode (take 8 (public_key_bytes C ia)) = fingerprint C ia" by (simp add: fingerprint_def)
  have "handle_negotiated_offer C now b psk src r y nonces ?p = Ok (?b', raw, frames)"
    unfolding handle_negotiated_offer_def parse option.case Let_def mat f neg ver kem rust.case prod.case
      resp raw(1) fp master_def [symmetric] pinned_def [symmetric] s0_def [symmetric] sent(1)
    using assms(7) ver by simp
  then show thesis by (rule that) (use sent(2-4) raw(2) pad in \<open>simp_all add: registered\<close>)
qed

lemma response_taken:
  fixes a :: node and x y :: bytes and psk :: "bytes option" and now :: instant and ib :: ghost_identity
  assumes laws: "kex_law C" "kex768_law C" "sig_law C" "hash_law C" "xchacha_law C"
    and "length ct = 1088" and "map_of (nd_pending a) src = Some (Negotiated x dk512 dk768 LOCAL_SUITES)"
  defines "master \<equiv> derive_hybrid_master_key_with_transcript C X25519MlKem768V3 (x25519_dh C x (x25519_public C y))
      (mlkem768_decapsulate C dk768 ct) psk
      (x25519_public C x) (x25519_public C y) ct (identity_pq_commitment C (nd_identity a)) (identity_pq_commitment C ib)"
  defines "s0 \<equiv> pinned (new_with_role C now master (fingerprint C ib) Initiator) X25519MlKem768V3 (public_key_bytes C ib)
      (identity_pq_commitment C ib)"
  assumes "peers C s0 sb"
  obtains a' frames sa where
    "handle_negotiated_response C now a psk src nonces
       (response_of C ib y ct @ identity_sign C ib (response_of C ib y ct) @ [0]) = Ok (a', frames)"
    and "nd_sessions a' (fingerprint C ib) = Some sa" and "same_session s0 sa" and "peers C sa sb" and "length frames = 11"
proof -
  let ?R = "response_of C ib y ct"
  let ?d = "?R @ identity_sign C ib ?R @ [0]"
  let ?resp = "\<lparr>nr_suite = X25519MlKem768V3, nr_x25519_pub = x25519_public C y, nr_kyber_ct = ct,
      nr_identity_pk = public_key_bytes C ib, nr_pq_commitment = identity_pq_commitment C ib, nr_signature = identity_sign C ib ?R\<rparr>"
  have l: "length (x25519_public C y) = 32" "length (public_key_bytes C ib) = 32" "length (identity_pq_commitment C ib) = 32"
    "length (identity_sign C ib ?R) = 64"
    using kex_lawD(1) [OF laws(1)] sig_lawD(1,2) [OF laws(3)] commitment_length [OF laws(4)]
    by (simp_all add: public_key_bytes_def identity_sign_def)
  have parse: "parse_negotiated_response_pdu ?d = Some ?resp"
    using response_reads [of "x25519_public C y" ct X25519MlKem768V3 "public_key_bytes C ib" "identity_pq_commitment C ib"
        "identity_sign C ib ?R" "[0]"] l assms(6)
    by (simp add: response_of_def)
  have "length ?R = 1201" using l assms(6) by (simp add: response_of_def)
  then have mat: "get_range ?d 0 (negotiated_response_len X25519MlKem768V3 - 64) = Some ?R"
    by (simp add: get_range_def negotiated_response_len_def slice_def)
  have ver: "verify_peer_signature C (public_key_bytes C ib) ?R (identity_sign C ib ?R)"
    by (simp add: verify_peer_signature_def public_key_bytes_def identity_sign_def sig_lawD(3) [OF laws(3)])
  have neg: "negotiate_cipher_suite LOCAL_SUITES (map wire_id LOCAL_SUITES) = Some X25519MlKem768V3"
    by (simp add: negotiate_cipher_suite_def LOCAL_SUITES_def)
  have kem: "kyber768_decapsulate C dk768 ct = Ok (mlkem768_decapsulate C dk768 ct)"
    by (simp add: kyber768_decapsulate_def assms(6))
  let ?a = "a\<lparr>nd_pending := AList.delete src (nd_pending a)\<rparr>"
  let ?nd = "register_peer_session ?a (fingerprint C ib) src s0"
  have pos: "seal_pos s0 = 0" by (simp add: s0_def new_seal_pos)
  obtain frames sa where sent: "send_pq_auth_proof C ?nd (fingerprint C ib) nonces =
      Ok (?nd\<lparr>nd_sessions := (nd_sessions ?nd)(fingerprint C ib \<mapsto> sa)\<rparr>, frames)"
    "peers C sa sb" "same_session s0 sa" "length frames = 11"
    by (rule send_pq_auth_proof_ok [OF laws(5,3) registered(1) assms(10) pos])
  let ?a' = "?nd\<lparr>nd_sessions := (nd_sessions ?nd)(fingerprint C ib \<mapsto> sa)\<rparr>"
  have fp: "hex_encode (take 8 (public_key_bytes C ib)) = fingerprint C ib" by (simp add: fingerprint_def)
  have "handle_negotiated_response C now a psk src nonces ?d = Ok (?a', frames)"
    unfolding handle_negotiated_response_def parse option.case Let_def negotiated_response_blob.select_convs mat assms(7)
      pending_handshake.case neg hybrid_cipher_suite.case kem rust.case fp node.select_convs node.update_convs
      session_new_def pinned_def [symmetric]
    using ver sent(1) by (simp add: s0_def master_def)
  then show thesis by (rule that) (use sent(2-4) in simp_all)
qed

text \<open>
  C2. The negotiated handshake end to end, over a transport that loses any one of the three shards of
  either message, between nodes in any state: the offer is answered, the response is taken, and the
  two nodes hold sessions under each other's fingerprints that agree (opposite roles, one master
  key, one epoch, matching chains), run the stronger suite, have the other's identity key and
  post-quantum commitment pinned, and are closed to application traffic until the identity proof
  each side has sent is verified. How many sessions either side already holds, or whether it holds
  one with that peer, plays no role.
\<close>

theorem handshake_establishes_peers:
  assumes "kex_law C" and "kex768_law C" and "sig_law C" and "hash_law C" and "rs_law C" and "xchacha_law C"
    and "fingerprint C (nd_identity a) \<noteq> fingerprint C (nd_identity b)" and "i < 3" and "j < 3"
  shows "\<exists>a1 offer b1 answer proof_b a2 proof_a sa sb.
    initiate_handshake C False pre a addr_b x dk512 dk768 = Ok (a1, offer) \<and>
    handle_negotiated_offer C t b psk addr_a r y nb (delivered C offer i) = Ok (b1, answer, proof_b) \<and>
    handle_negotiated_response C t' a1 psk addr_b na (delivered C answer j) = Ok (a2, proof_a) \<and>
    nd_sessions a2 (fingerprint C (nd_identity b)) = Some sa \<and> nd_sessions b1 (fingerprint C (nd_identity a)) = Some sb \<and>
    peers C sa sb \<and> se_master_key sa = se_master_key sb \<and> se_role sa = Initiator \<and> se_role sb = Responder \<and>
    se_cipher_suite sa = X25519MlKem768V3 \<and> se_cipher_suite sb = X25519MlKem768V3 \<and>
    se_peer_identity_pk sa = Some (public_key_bytes C (nd_identity b)) \<and>
    se_peer_identity_pk sb = Some (public_key_bytes C (nd_identity a)) \<and>
    se_peer_pq_commitment sa = Some (identity_pq_commitment C (nd_identity b)) \<and>
    se_peer_pq_commitment sb = Some (identity_pq_commitment C (nd_identity a)) \<and>
    \<not> is_pq_authenticated sa \<and> \<not> is_pq_authenticated sb \<and> length proof_a = 11 \<and> length proof_b = 11"
proof -
  let ?ia = "nd_identity a" and ?ib = "nd_identity b"
  obtain ct ss where kem: "mlkem768_encapsulate C r (mlkem768_public C dk768) = Some (ct, ss)" "length ct = 1088"
    "mlkem768_decapsulate C dk768 ct = ss"
    by (rule kex768_lawE [OF assms(2), of r dk768])
  define m where "m = derive_hybrid_master_key_with_transcript C X25519MlKem768V3 (x25519_dh C y (x25519_public C x)) ss psk
      (x25519_public C x) (x25519_public C y) ct (identity_pq_commitment C ?ia) (identity_pq_commitment C ?ib)"
  define s0a where "s0a = pinned (new_with_role C t' m (fingerprint C ?ib) Initiator) X25519MlKem768V3
      (public_key_bytes C ?ib) (identity_pq_commitment C ?ib)"
  define s0b where "s0b = pinned (new_with_role C t m (fingerprint C ?ia) Responder) X25519MlKem768V3
      (public_key_bytes C ?ia) (identity_pq_commitment C ?ia)"
  have p0: "peers C s0a s0b" by (simp add: s0a_def s0b_def pinned_peers)
  obtain a1 offer where 1: "initiate_handshake C False pre a addr_b x dk512 dk768 = Ok (a1, offer)" "nd_identity a1 = ?ia"
    "map_of (nd_pending a1) addr_b = Some (Negotiated x dk512 dk768 LOCAL_SUITES)"
    "delivered C offer i = offer_body (offer_of C ?ia x dk512 dk768) @ [0] @ nh_signature (offer_of C ?ia x dk512 dk768)"
    using initiate_sends_offer [OF assms(1-5), of pre a addr_b x dk512 dk768] assms(8) by metis
  obtain b1 answer proof_b sb where 2: "handle_negotiated_offer C t b psk addr_a r y nb (delivered C offer i) = Ok (b1, answer, proof_b)"
    "nd_sessions b1 (fingerprint C ?ia) = Some sb" "same_session s0b sb" "peers C sb s0a" "length proof_b = 11"
    "delivered C answer j = response_of C ?ib y ct @ identity_sign C ?ib (response_of C ?ib y ct) @ [0]"
    unfolding 1(4)
    by (rule offer_answered [where y = y and x = x and psk = psk and now = t and sa = s0a and nonces = nb,
          OF assms(1-7) kem(1,2), folded m_def, folded s0b_def, OF peers_sym [OF p0]]) (use assms(9) in blast)
  have dh: "x25519_dh C x (x25519_public C y) = x25519_dh C y (x25519_public C x)" by (rule kex_lawD(3) [OF assms(1)])
  obtain a2 proof_a sa where 3: "handle_negotiated_response C t' a1 psk addr_b na (delivered C answer j) = Ok (a2, proof_a)"
    "nd_sessions a2 (fingerprint C ?ib) = Some sa" "same_session s0a sa" "peers C sa sb" "length proof_a = 11"
    unfolding 2(6)
    by (rule response_taken [where ib = ?ib and y = y and psk = psk and now = t' and sb = sb and nonces = na,
          OF assms(1-4,6) kem(2) 1(3), unfolded dh kem(3) 1(2), folded m_def, folded s0a_def, OF peers_sym [OF 2(4)]])
  have fa: "se_master_key sa = m" "se_role sa = Initiator" "se_cipher_suite sa = X25519MlKem768V3"
    "se_peer_identity_pk sa = Some (public_key_bytes C ?ib)" "se_peer_pq_commitment sa = Some (identity_pq_commitment C ?ib)"
    "se_pq_auth_state sa = 0"
    using 3(3) by (simp_all add: same_session_def s0a_def new_with_role_def)
  have fb: "se_master_key sb = m" "se_role sb = Responder" "se_cipher_suite sb = X25519MlKem768V3"
    "se_peer_identity_pk sb = Some (public_key_bytes C ?ia)" "se_peer_pq_commitment sb = Some (identity_pq_commitment C ?ia)"
    "se_pq_auth_state sb = 0"
    using 2(3) by (simp_all add: same_session_def s0b_def new_with_role_def)
  have "se_master_key sa = se_master_key sb" "\<not> is_pq_authenticated sa" "\<not> is_pq_authenticated sb"
    using fa fb by (simp_all add: is_pq_authenticated_def)
  then show ?thesis using 1(1) 2(1,2,5) 3(1,2,4,5) fa(2-5) fb(2-5) by (intro exI conjI) assumption+
qed

definition demo_node :: "bytes \<Rightarrow> node" where
  "demo_node seed = \<lparr>nd_identity = from_seeds seed seed, nd_sessions = Map.empty, nd_peers = Map.empty, nd_pending = []\<rparr>"

lemma demo_fp: "fingerprint demo_crates (nd_identity (demo_node [v])) =
    [hex_digit (unat v div 16), hex_digit (unat v mod 16)] @ hex_encode (zeros 7)"
proof -
  have "take 8 (fit 32 [v]) = v # zeros 7" by (simp add: fit_def zeros_def take_Cons')
  then show ?thesis
    by (simp add: fingerprint_def public_key_bytes_def demo_node_def from_seeds_def demo_crates_def hex_encode_def)
qed

lemma demo_fingerprints:
  "fingerprint demo_crates (nd_identity (demo_node [1])) \<noteq> fingerprint demo_crates (nd_identity (demo_node [2]))"
  using demo_fp [of 1] demo_fp [of 2] by (simp add: hex_digit_def)

theorem handshake_establishes_peers_witness:
  "\<exists>a1 offer b1 answer proof_b.
    initiate_handshake demo_crates False [] (demo_node [1]) demo_addr [3] [4] [5] = Ok (a1, offer) \<and>
    handle_negotiated_offer demo_crates 0 (demo_node [2]) None demo_addr [6] [7] (\<lambda>_. zeros 12) (delivered demo_crates offer 0) =
      Ok (b1, answer, proof_b) \<and> length proof_b = 11"
  using handshake_establishes_peers [OF demo_laws(5,6,7,3,4,1) demo_fingerprints, of 0 0 "[]" demo_addr "[3]" "[4]" "[5]" 0 None
      demo_addr "[6]" "[7]" "\<lambda>_. zeros 12" 0 "\<lambda>_. zeros 12"] by auto

end
