(* ===== verification/PqAuth.thy ===== *)
theory PqAuth
  imports Establish
begin

text \<open>
  The post-quantum authentication of an established session: what \<open>handle_pq_auth_pdu\<close> of
  src/src/main.rs does with the chunks of an identity binding. A session with a pinned commitment
  opens to application traffic only through a binding that verifies, and the chunks of an honest
  peer open it in whatever order they arrive.
\<close>

section \<open>Sending a proof changes nothing but the chain\<close>

lemma same_session_refl [simp]: "same_session s s"
  by (simp add: same_session_def)

lemma same_session_trans: "same_session s s' \<Longrightarrow> same_session s' s'' \<Longrightarrow> same_session s s''"
  by (simp add: same_session_def)

lemma same_session_authenticated: "same_session s s' \<Longrightarrow> is_pq_authenticated s' = is_pq_authenticated s"
  by (simp add: same_session_def is_pq_authenticated_def)

lemma ctx_same_session: "ctx_from_session C s nonce = (s', ctx) \<Longrightarrow> same_session s s'"
  by (auto simp: ctx_from_session_def split: prod.splits dest: seal_material_keeps(1))

definition put_session :: "node \<Rightarrow> bytes \<Rightarrow> session option \<Rightarrow> node" where
  "put_session nd fp s = nd\<lparr>nd_sessions := (nd_sessions nd)(fp := s)\<rparr>"

lemma put_session_simps [simp]:
  "nd_sessions (put_session nd fp s) = (nd_sessions nd)(fp := s)" "put_session (put_session nd fp s) fp s' = put_session nd fp s'"
  "nd_identity (put_session nd fp s) = nd_identity nd"
  by (simp_all add: put_session_def)

lemma put_session_same: "nd_sessions nd fp = s \<Longrightarrow> put_session nd fp s = nd"
  by (auto simp: put_session_def)

lemmas session_updates = send_chunks.simps(2) [folded put_session_def] handle_pq_auth_pdu_def [folded put_session_def]

lemma send_chunks_keeps:
  assumes "send_chunks C nd fp nonces t idx chunks = Ok (nd', frames)" and "nd_sessions nd fp = Some s"
  shows "\<exists>s'. nd' = put_session nd fp (Some s') \<and> same_session s s'"
  using assms
proof (induction chunks arbitrary: nd s idx frames)
  case Nil
  then show ?case by (intro exI [of _ s]) (simp add: put_session_same)
next
  case (Cons c chunks)
  obtain s1 ctx where ctx: "ctx_from_session C s (nonces idx) = (s1, ctx)" by force
  let ?nd = "put_session nd fp (Some s1)"
  obtain frames' where "send_chunks C ?nd fp nonces t (Suc idx) chunks = Ok (nd', frames')"
    using Cons.prems ctx by (auto simp: session_updates simp del: send_chunks.simps split: rust.splits)
  moreover have "nd_sessions ?nd fp = Some s1" by simp
  ultimately obtain s' where "nd' = put_session ?nd fp (Some s')" "same_session s1 s'"
    using Cons.IH by blast
  then show ?case using same_session_trans [OF ctx_same_session [OF ctx]] by (intro exI [of _ s']) simp
qed

lemma send_chunks_total:
  assumes "xchacha_law C" and "\<forall>c \<in> set chunks. length c \<le> 500"
  shows "\<exists>nd' frames. send_chunks C nd fp nonces t idx chunks = Ok (nd', frames)"
  using assms(2)
proof (induction chunks arbitrary: nd idx)
  case (Cons c chunks)
  show ?case
  proof (cases "nd_sessions nd fp")
    case (Some s)
    obtain s1 ctx where ctx: "ctx_from_session C s (nonces idx) = (s1, ctx)" by force
    obtain frame where fr: "seal_single C ctx (pq_chunk_pdu idx t c) = Ok frame"
      by (rule seal_single_ok [OF assms(1)]) (use Cons.prems in \<open>auto simp: pq_chunk_pdu_def PQ_AUTH_CHUNK_MAGIC_def\<close>)
    obtain nd' frames where
      "send_chunks C (put_session nd fp (Some s1)) fp nonces t (Suc idx) chunks = Ok (nd', frames)"
      using Cons.IH Cons.prems by (metis list.set_intros(2))
    then show ?thesis using Some ctx fr by (simp add: session_updates del: send_chunks.simps)
  qed simp
qed simp

lemma proof_keeps:
  assumes "send_pq_auth_proof C nd fp nonces = Ok (nd', frames)" and "nd_sessions nd fp = Some s"
  obtains s' where "nd' = put_session nd fp (Some s')" and "same_session s s'"
  using assms send_chunks_keeps by (fastforce simp: send_pq_auth_proof_def Let_def)

lemma proof_total:
  assumes "xchacha_law C"
  obtains nd' frames where "send_pq_auth_proof C nd fp nonces = Ok (nd', frames)"
  using send_chunks_total [OF assms pq_chunks_spec(3)] that
  unfolding send_pq_auth_proof_def Let_def by (cases "nd_sessions nd fp") (simp, simp, blast)

section \<open>One chunk\<close>

text \<open>What is done once a chunk is stored, \<open>full\<close> being the binding it completed, if any.\<close>

definition chunk_outcome ::
  "crates \<Rightarrow> node \<Rightarrow> (nat \<Rightarrow> bytes) \<Rightarrow> bytes \<Rightarrow> bytes \<Rightarrow> session \<Rightarrow> bytes option \<Rightarrow> (bool \<times> node \<times> bytes list, unit) rust" where
  "chunk_outcome C nd nonces fp ack s full =
     (case full of
        None \<Rightarrow> Ok (True, put_session nd fp (Some s), [ack])
      | Some binding \<Rightarrow>
          (case se_peer_identity_pk s of
             None \<Rightarrow> Ok (True, put_session nd fp None, [ack])
           | Some pk \<Rightarrow>
               (case verify_hybrid_binding C pk (se_peer_pq_commitment s) (se_master_key s) binding of
                  Ok pq \<Rightarrow>
                    (let nd2 = put_session nd fp (Some (set_peer_pq_pk (set_pq_authenticated s True) pq))
                     in if se_role s = Responder
                        then (case send_pq_auth_proof C nd2 fp nonces of
                                Ok (nd3, frames) \<Rightarrow> Ok (True, nd3, ack # frames)
                              | Err e \<Rightarrow> Err e
                              | Panic \<Rightarrow> Panic)
                        else Ok (True, nd2, [ack]))
                | _ \<Rightarrow> Ok (True, put_session nd fp None, [ack]))))"

lemma handle_payload_cases:
  assumes "handle_pq_auth_pdu C nd an nonces fp payload = Ok (h, nd', frames)" and "nd_sessions nd fp = Some s"
    and "\<not> is_pq_authenticated s"
  obtains "nd' = nd"
  | s1 ack where "same_session s s1" and
      "chunk_outcome C nd nonces fp ack (fst (store_pq_chunk s1 (payload ! 14) (payload ! 15)
          (slice 18 (18 + unat (u16_be [payload ! 16, payload ! 17])) payload)))
        (snd (store_pq_chunk s1 (payload ! 14) (payload ! 15)
          (slice 18 (18 + unat (u16_be [payload ! 16, payload ! 17])) payload))) = Ok (h, nd', frames)"
proof -
  obtain s1 ctx where ctx: "ctx_from_session C s an = (s1, ctx)" by force
  note same = ctx_same_session [OF ctx]
  obtain s2 full where st: "store_pq_chunk s1 (payload ! 14) (payload ! 15)
      (slice 18 (18 + unat (u16_be [payload ! 16, payload ! 17])) payload) = (s2, full)" by force
  consider "nd' = nd"
    | ack where "seal_single C ctx (PQ_AUTH_ACK_MAGIC @ [payload ! 14]) = Ok ack"
        "chunk_outcome C nd nonces fp ack s2 full = Ok (h, nd', frames)"
    using assms same_session_authenticated [OF same] st
    by (auto simp: session_updates Let_def ctx chunk_outcome_def split: if_splits rust.splits option.splits)
  then show thesis using that same st by cases (auto simp: st)
qed

lemma handle_chunk:
  assumes "xchacha_law C" and "nd_sessions nd fp = Some s" and "\<not> is_pq_authenticated s" and "length c \<le> 500"
  obtains s1 ack where "same_session s s1"
    and "handle_pq_auth_pdu C nd an nonces fp (pq_chunk_pdu k t c) =
      chunk_outcome C nd nonces fp ack (fst (store_pq_chunk s1 (of_nat k) t c)) (snd (store_pq_chunk s1 (of_nat k) t c))"
proof -
  let ?p = "pq_chunk_pdu k t c"
  obtain s1 ctx where ctx: "ctx_from_session C s an = (s1, ctx)" by force
  note same = ctx_same_session [OF ctx]
  obtain ack where ack: "seal_single C ctx (PQ_AUTH_ACK_MAGIC @ [of_nat k]) = Ok ack"
    by (rule seal_single_ok [OF assms(1)]) (auto simp: PQ_AUTH_ACK_MAGIC_def)
  obtain s2 full where st: "store_pq_chunk s1 (of_nat k) t c = (s2, full)" by force
  have m: "length PQ_AUTH_CHUNK_MAGIC = 14" by (simp add: PQ_AUTH_CHUNK_MAGIC_def)
  have l: "unat (of_nat (length c) :: u16) = length c" using assms(4) by (simp add: unat_of_nat)
  have u16_be_id: "[be_u16 v ! 0, be_u16 v ! Suc 0] = be_u16 v" for v :: u16
    by (rule nth_equalityI) (auto simp: less_Suc_eq)
  have fields: "length ?p = 18 + length c" "?p ! 14 = of_nat k" "?p ! 15 = t" "unat (u16_be [?p ! 16, ?p ! 17]) = length c"
    "slice 18 (18 + length c) ?p = c" "starts_with PQ_AUTH_CHUNK_MAGIC ?p"
    using m l u16_be_id by (simp_all add: pq_chunk_pdu_def nth_append slice_def starts_with_def)
  show thesis
  proof (rule that [OF same])
    show "handle_pq_auth_pdu C nd an nonces fp ?p =
      chunk_outcome C nd nonces fp ack (fst (store_pq_chunk s1 (of_nat k) t c)) (snd (store_pq_chunk s1 (of_nat k) t c))"
      using assms(2,3) same_session_authenticated [OF same]
      by (simp add: session_updates Let_def fields ctx ack st chunk_outcome_def split: option.split rust.split)
  qed
qed

section \<open>The session opens only through a verified binding\<close>

text \<open>
  C6. Authentication is earned: a payload handled for a session that has a pinned commitment and is
  not yet authenticated leaves every other session as it was, never lets this one change its master
  key or pins, and if the session comes out authenticated then a binding verified against exactly
  the identity key and commitment the handshake pinned and this session's master key, and the
  post-quantum key stored is the one that binding carries.
\<close>

theorem authentication_needs_a_verified_binding:
  assumes "handle_pq_auth_pdu C nd an nonces fp payload = Ok (h, nd', frames)" and "nd_sessions nd fp = Some s"
    and "\<not> is_pq_authenticated s"
  shows "(\<forall>fp'. fp' \<noteq> fp \<longrightarrow> nd_sessions nd' fp' = nd_sessions nd fp') \<and>
    (\<forall>s'. nd_sessions nd' fp = Some s' \<longrightarrow>
       se_master_key s' = se_master_key s \<and> se_peer_identity_pk s' = se_peer_identity_pk s \<and>
       se_peer_pq_commitment s' = se_peer_pq_commitment s \<and>
       (is_pq_authenticated s' \<longrightarrow>
         (\<exists>pk com binding pq. se_peer_identity_pk s = Some pk \<and> se_peer_pq_commitment s = Some com \<and>
            verify_hybrid_binding C pk (Some com) (se_master_key s) binding = Ok pq \<and> se_peer_pq_pk s' = Some pq)))"
  using assms
proof (cases rule: handle_payload_cases)
  case 1
  then show ?thesis using assms(2,3) by simp
next
  case (2 s1 ack)
  let ?st = "store_pq_chunk s1 (payload ! 14) (payload ! 15) (slice 18 (18 + unat (u16_be [payload ! 16, payload ! 17])) payload)"
  obtain s2 full where st: "?st = (s2, full)" by force
  have s2: "se_master_key s2 = se_master_key s" "se_peer_identity_pk s2 = se_peer_identity_pk s"
    "se_peer_pq_commitment s2 = se_peer_pq_commitment s" "se_pq_auth_state s2 = se_pq_auth_state s"
    using st 2(1) by (auto simp: store_pq_chunk_def Let_def same_session_def)
  obtain com where com: "se_peer_pq_commitment s = Some com" using assms(3) by (auto simp: is_pq_authenticated_def)
  have out: "chunk_outcome C nd nonces fp ack s2 full = Ok (h, nd', frames)" using 2(2) by (simp add: st)
  show ?thesis
  proof (cases "\<exists>pk binding pq. full = Some binding \<and> se_peer_identity_pk s2 = Some pk \<and>
      verify_hybrid_binding C pk (se_peer_pq_commitment s2) (se_master_key s2) binding = Ok pq")
    case True
    then obtain pk binding pq where b: "full = Some binding" "se_peer_identity_pk s2 = Some pk"
      "verify_hybrid_binding C pk (se_peer_pq_commitment s2) (se_master_key s2) binding = Ok pq" by blast
    define s3 where "s3 = set_peer_pq_pk (set_pq_authenticated s2 True) pq"
    obtain s4 where "nd' = put_session nd fp (Some s4)" "same_session s3 s4"
    proof (cases "se_role s2 = Responder")
      case True
      then obtain frames' where "send_pq_auth_proof C (put_session nd fp (Some s3)) fp nonces = Ok (nd', frames')"
        using out b by (auto simp: chunk_outcome_def Let_def s3_def split: rust.splits)
      then show thesis by (rule proof_keeps [where s = s3]) (auto intro: that simp: fun_upd_def)
    qed (use out b that [of s3] in \<open>auto simp: chunk_outcome_def Let_def s3_def\<close>)
    then show ?thesis using b s2 com
      by (auto simp: same_session_def s3_def set_peer_pq_pk_def set_pq_authenticated_def)
  next
    case False
    then have "nd' = put_session nd fp (Some s2) \<or> nd' = put_session nd fp None"
      using out by (auto simp: chunk_outcome_def split: option.splits rust.splits)
    moreover have "\<not> is_pq_authenticated s2" using assms(3) s2 by (simp add: is_pq_authenticated_def)
    ultimately show ?thesis using s2 by auto
  qed
qed

section \<open>The proof of an honest peer is taken\<close>

text \<open>The payloads handed to the handler one after the other.\<close>

fun handle_pq_auth_pdus :: "crates \<Rightarrow> bytes \<Rightarrow> (nat \<Rightarrow> bytes) \<Rightarrow> bytes \<Rightarrow> node \<Rightarrow> bytes list \<Rightarrow> (node, unit) rust" where
  "handle_pq_auth_pdus C an nonces fp nd [] = Ok nd"
| "handle_pq_auth_pdus C an nonces fp nd (p # ps) =
     (case handle_pq_auth_pdu C nd an nonces fp p of
        Ok (_, nd', _) \<Rightarrow> handle_pq_auth_pdus C an nonces fp nd' ps
      | Err e \<Rightarrow> Err e
      | Panic \<Rightarrow> Panic)"

definition proof_pdu :: "crates \<Rightarrow> ghost_identity \<Rightarrow> bytes \<Rightarrow> nat \<Rightarrow> bytes" where
  "proof_pdu C i cb k = pq_chunk_pdu k 11 (pq_chunks (create_identity_binding C i cb) ! k)"

text \<open>The session awaits the proof of \<open>i\<close> and holds the chunks \<open>is\<close> of it.\<close>

definition awaits :: "crates \<Rightarrow> ghost_identity \<Rightarrow> session \<Rightarrow> nat list \<Rightarrow> bool" where
  "awaits C i s is \<longleftrightarrow> \<not> is_pq_authenticated s \<and> se_peer_identity_pk s = Some (public_key_bytes C i) \<and>
     se_peer_pq_commitment s = Some (identity_pq_commitment C i) \<and>
     se_pq_incoming_chunks s = map (\<lambda>k. (of_nat k, pq_chunks (create_identity_binding C i (se_master_key s)) ! k)) is"

lemma chunk_taken:
  assumes laws: "xchacha_law C" "sig_law C" and "nd_sessions nd fp = Some s" and "awaits C i s is"
    and "distinct (is @ [k])" and "set (is @ [k]) \<subseteq> {..<11}"
  obtains s' h frames where
    "handle_pq_auth_pdu C nd an nonces fp (proof_pdu C i (se_master_key s) k) = Ok (h, put_session nd fp (Some s'), frames)"
    and "se_master_key s' = se_master_key s" and "length is < 10 \<Longrightarrow> awaits C i s' (is @ [k])"
    and "length is = 10 \<Longrightarrow> is_pq_authenticated s' \<and> se_peer_pq_pk s' = Some (pq_public_key_bytes C i)"
proof -
  define f where "f = (!) (pq_chunks (create_identity_binding C i (se_master_key s)))"
  let ?b = "create_identity_binding C i (se_master_key s)"
  have n: "length (pq_chunks ?b) = 11" by (simp add: pq_chunks_spec(2) binding_fields(1) [OF laws(2)])
  then have "f k \<in> set (pq_chunks ?b)" using assms(6) by (simp add: f_def)
  then have lk: "length (f k) \<le> 500" using pq_chunks_spec(3) by blast
  have na: "\<not> is_pq_authenticated s" using assms(4) by (simp add: awaits_def)
  obtain s1 ack where s1: "same_session s s1" "handle_pq_auth_pdu C nd an nonces fp (proof_pdu C i (se_master_key s) k) =
      chunk_outcome C nd nonces fp ack (fst (store_pq_chunk s1 (of_nat k) 11 (f k))) (snd (store_pq_chunk s1 (of_nat k) 11 (f k)))"
    using handle_chunk [OF laws(1) assms(3) na lk] unfolding proof_pdu_def f_def by metis
  define s2 where "s2 = s1\<lparr>se_pq_incoming_chunks := map (\<lambda>k. (of_nat k, f k)) (is @ [k])\<rparr>"
  have "concat (map f [0..<11]) = ?b" using pq_chunks_spec(1) [of ?b] map_nth [of "pq_chunks ?b"] by (simp add: f_def n)
  then have st: "store_pq_chunk s1 (of_nat k) 11 (f k) = (s2, if length is = 10 then Some ?b else None)"
    using store_chunk_result [of s1 f "is" k 11] assms(4-6) s1(1)
    by (simp add: awaits_def same_session_def f_def s2_def)
  have keep: "se_master_key s2 = se_master_key s" "se_peer_identity_pk s2 = Some (public_key_bytes C i)"
    "se_peer_pq_commitment s2 = Some (identity_pq_commitment C i)" "se_pq_auth_state s2 = se_pq_auth_state s"
    using s1(1) assms(4) by (simp_all add: s2_def same_session_def awaits_def)
  show thesis
  proof (cases "length is = 10")
    case False
    have "awaits C i s2 (is @ [k])"
      using keep assms(4) by (simp add: awaits_def is_pq_authenticated_def s2_def f_def)
    moreover have "handle_pq_auth_pdu C nd an nonces fp (proof_pdu C i (se_master_key s) k) =
        Ok (True, put_session nd fp (Some s2), [ack])"
      using False by (simp add: s1(2) st chunk_outcome_def)
    ultimately show thesis using that keep(1) False by blast
  next
    case True
    define s3 where "s3 = set_peer_pq_pk (set_pq_authenticated s2 True) (pq_public_key_bytes C i)"
    let ?nd = "put_session nd fp (Some s3)"
    have "verify_hybrid_binding C (public_key_bytes C i) (Some (identity_pq_commitment C i)) (se_master_key s) ?b =
        Ok (pq_public_key_bytes C i)" by (rule binding_accepted [OF laws(2) disjI2 [OF refl]])
    then have out: "chunk_outcome C nd nonces fp ack s2 (Some ?b) =
        (if se_role s2 = Responder
         then (case send_pq_auth_proof C ?nd fp nonces of Ok (nd3, frames) \<Rightarrow> Ok (True, nd3, ack # frames) | Err e \<Rightarrow> Err e | Panic \<Rightarrow> Panic)
         else Ok (True, ?nd, [ack]))"
      by (simp add: chunk_outcome_def keep s3_def Let_def)
    obtain nd3 frames where p: "send_pq_auth_proof C ?nd fp nonces = Ok (nd3, frames)" by (rule proof_total [OF laws(1)])
    obtain s4 where s4: "nd3 = put_session nd fp (Some s4)" "same_session s3 s4"
      by (rule proof_keeps [OF p, of s3]) (auto simp: fun_upd_def)
    have ok: "is_pq_authenticated s' \<and> se_peer_pq_pk s' = Some (pq_public_key_bytes C i) \<and> se_master_key s' = se_master_key s"
      if "same_session s3 s'" for s'
      using that keep(1) by (simp add: same_session_def s3_def set_peer_pq_pk_def set_pq_authenticated_def is_pq_authenticated_def)
    show thesis
    proof (cases "se_role s2 = Responder")
      case True
      then show thesis using that [of True s4 "ack # frames"] out ok [OF s4(2)] s1(2) st p s4(1) \<open>length is = 10\<close> by simp
    next
      case False
      then show thesis using that [of True s3 "[ack]"] out ok [OF same_session_refl] s1(2) st \<open>length is = 10\<close> by simp
    qed
  qed
qed

lemma chunks_taken:
  assumes laws: "xchacha_law C" "sig_law C" and "ks \<noteq> []"
  shows "nd_sessions nd fp = Some s \<Longrightarrow> awaits C i s is \<Longrightarrow> distinct (is @ ks) \<Longrightarrow> set (is @ ks) = {..<11} \<Longrightarrow>
    \<exists>s'. handle_pq_auth_pdus C an nonces fp nd (map (proof_pdu C i (se_master_key s)) ks) = Ok (put_session nd fp (Some s')) \<and>
      is_pq_authenticated s' \<and> se_peer_pq_pk s' = Some (pq_public_key_bytes C i) \<and> se_master_key s' = se_master_key s"
  using assms(3)
proof (induction ks arbitrary: nd s "is" rule: list_nonempty_induct)
  case (single k)
  have "length is = 10" using distinct_card [OF single.prems(3)] single.prems(4) by simp
  moreover have "set (is @ [k]) \<subseteq> {..<11}" using single.prems(4) by simp
  ultimately obtain s1 h frames where
    "handle_pq_auth_pdu C nd an nonces fp (proof_pdu C i (se_master_key s) k) = Ok (h, put_session nd fp (Some s1), frames)"
    "se_master_key s1 = se_master_key s" "is_pq_authenticated s1 \<and> se_peer_pq_pk s1 = Some (pq_public_key_bytes C i)"
    using chunk_taken [OF laws single.prems(1,2,3), of an nonces] by metis
  then show ?case by auto
next
  case (cons k ks)
  have d: "distinct (is @ [k])" "set (is @ [k]) \<subseteq> {..<11}" using cons.prems(3,4) by auto
  have "length is + length (k # ks) = 11" using distinct_card [OF cons.prems(3)] cons.prems(4) by simp
  then have short: "length is < 10" using cons.hyps by (cases ks) auto
  obtain s1 h frames where st: "handle_pq_auth_pdu C nd an nonces fp (proof_pdu C i (se_master_key s) k) = Ok (h, put_session nd fp (Some s1), frames)"
    "se_master_key s1 = se_master_key s" "awaits C i s1 (is @ [k])"
    using chunk_taken [OF laws cons.prems(1,2) d, of an nonces] short by metis
  have "\<exists>s'. handle_pq_auth_pdus C an nonces fp (put_session nd fp (Some s1)) (map (proof_pdu C i (se_master_key s1)) ks) =
      Ok (put_session (put_session nd fp (Some s1)) fp (Some s')) \<and>
      is_pq_authenticated s' \<and> se_peer_pq_pk s' = Some (pq_public_key_bytes C i) \<and> se_master_key s' = se_master_key s1"
    by (rule cons.IH [of _ s1 "is @ [k]"]) (use st(3) cons.prems(3,4) in auto)
  then show ?case using st(1,2) by auto
qed

text \<open>
  C10. The identity proof completes: a session that pinned a peer's identity key and commitment and
  has no chunk yet, handed the eleven chunks of the binding that peer makes for this session's
  master key, in any order, ends authenticated with the peer's post-quantum key stored, and no
  other session of the node has changed. Neither side's chain position matters.
\<close>

theorem identity_proof_authenticates:
  assumes "xchacha_law C" and "sig_law C" and "nd_sessions nd fp = Some s"
    and "se_peer_identity_pk s = Some (public_key_bytes C i)" and "se_peer_pq_commitment s = Some (identity_pq_commitment C i)"
    and "\<not> is_pq_authenticated s" and "se_pq_incoming_chunks s = []" and "distinct ks" and "set ks = {..<11}"
  shows "\<exists>nd' s'. handle_pq_auth_pdus C an nonces fp nd
      (map (\<lambda>k. pq_chunk_pdu k 11 (pq_chunks (create_identity_binding C i (se_master_key s)) ! k)) ks) = Ok nd' \<and>
    nd_sessions nd' = (nd_sessions nd)(fp \<mapsto> s') \<and>
    is_pq_authenticated s' \<and> se_peer_pq_pk s' = Some (pq_public_key_bytes C i) \<and> se_master_key s' = se_master_key s"
proof -
  have "0 \<in> set ks" unfolding assms(9) by simp
  then have "ks \<noteq> []" by (cases ks) simp_all
  moreover have "awaits C i s []" using assms(4-7) by (simp add: awaits_def)
  moreover have "distinct ([] @ ks)" "set ([] @ ks) = {..<11}" using assms(8,9) by simp_all
  ultimately obtain s' where
    "handle_pq_auth_pdus C an nonces fp nd (map (proof_pdu C i (se_master_key s)) ks) = Ok (put_session nd fp (Some s'))"
    "is_pq_authenticated s'" "se_peer_pq_pk s' = Some (pq_public_key_bytes C i)" "se_master_key s' = se_master_key s"
    using chunks_taken [OF assms(1,2), of ks nd fp s i "[]" an nonces] assms(3) by blast
  then show ?thesis unfolding proof_pdu_def by (intro exI conjI) (assumption | simp only: put_session_simps)+
qed

definition demo_pinned :: session where
  "demo_pinned = pinned (new_with_role demo_crates 0 [9] [8] Initiator) X25519MlKem768V3
     (public_key_bytes demo_crates (from_seeds [1] [2])) (identity_pq_commitment demo_crates (from_seeds [1] [2]))"

definition demo_waiting :: node where
  "demo_waiting = (demo_node [3])\<lparr>nd_sessions := [[8] \<mapsto> demo_pinned]\<rparr>"

lemma demo_waiting:
  "nd_sessions demo_waiting [8] = Some demo_pinned" "\<not> is_pq_authenticated demo_pinned" "se_pq_incoming_chunks demo_pinned = []"
  "se_peer_identity_pk demo_pinned = Some (public_key_bytes demo_crates (from_seeds [1] [2]))"
  "se_peer_pq_commitment demo_pinned = Some (identity_pq_commitment demo_crates (from_seeds [1] [2]))"
  by (simp_all add: demo_waiting_def demo_pinned_def is_pq_authenticated_def new_with_role_def)

theorem identity_proof_authenticates_witness:
  "\<exists>nd' s'. handle_pq_auth_pdus demo_crates (zeros 24) (\<lambda>_. zeros 24) [8] demo_waiting
      (map (\<lambda>k. pq_chunk_pdu k 11 (pq_chunks (create_identity_binding demo_crates (from_seeds [1] [2]) (se_master_key demo_pinned)) ! k))
        [10, 3, 0, 1, 2, 4, 5, 6, 7, 8, 9]) = Ok nd' \<and> nd_sessions nd' [8] = Some s' \<and> is_pq_authenticated s'"
proof -
  have "set [10, 3, 0, 1, 2, 4, 5, 6, 7, 8, 9] = {..<11 :: nat}" by (auto simp: numeral_eq_Suc less_Suc_eq)
  moreover have "distinct [10, 3, 0, 1, 2, 4, 5, 6, 7, 8, 9 :: nat]" by simp
  ultimately show ?thesis
    using identity_proof_authenticates [OF demo_laws(1,7) demo_waiting(1,4,5,2,3), of "[10, 3, 0, 1, 2, 4, 5, 6, 7, 8, 9]" "zeros 24" "\<lambda>_. zeros 24"]
    by fastforce
qed

theorem authentication_needs_a_verified_binding_witness:
  "\<exists>h nd' frames s'. handle_pq_auth_pdu demo_crates demo_waiting (zeros 24) (\<lambda>_. zeros 24) [8] (pq_chunk_pdu 0 2 [1]) = Ok (h, nd', frames) \<and>
     nd_sessions nd' [8] = Some s' \<and> se_master_key s' = se_master_key demo_pinned \<and> nd_sessions nd' [7] = None"
proof -
  obtain s1 ack where s1: "same_session demo_pinned s1" "handle_pq_auth_pdu demo_crates demo_waiting (zeros 24) (\<lambda>_. zeros 24) [8] (pq_chunk_pdu 0 2 [1]) =
      chunk_outcome demo_crates demo_waiting (\<lambda>_. zeros 24) [8] ack (fst (store_pq_chunk s1 (of_nat 0) 2 [1])) (snd (store_pq_chunk s1 (of_nat 0) 2 [1]))"
    by (rule handle_chunk [OF demo_laws(1) demo_waiting(1,2), of "[1]"]) simp
  then obtain nd' s' where "handle_pq_auth_pdu demo_crates demo_waiting (zeros 24) (\<lambda>_. zeros 24) [8] (pq_chunk_pdu 0 2 [1]) = Ok (True, nd', [ack])"
    "nd_sessions nd' [8] = Some s'"
    using demo_waiting(3) by (simp add: chunk_outcome_def store_pq_chunk_def Let_def same_session_def)
  moreover have "nd_sessions demo_waiting [7] = None" by (simp add: demo_waiting_def)
  ultimately show ?thesis
    using authentication_needs_a_verified_binding [OF _ demo_waiting(1,2)] by fastforce
qed

end
