(* ===== verification/Utf8.thy ===== *)
theory Utf8
  imports Prelude
begin

text \<open>
  Rust strings as byte lists: the UTF-8 check behind \<open>String::from_utf8\<close> and \<open>str::from_utf8\<close>, and
  \<open>String::from_utf8_lossy\<close>, which replaces every maximal broken prefix by U+FFFD. \<open>utf8_head\<close> reads
  one character: the bytes consumed, and whether they are one.
\<close>

definition is_cont :: "u8 \<Rightarrow> bool" where
  "is_cont b \<longleftrightarrow> 128 \<le> b \<and> b < 192"

text \<open>The range of the second byte of a three-byte and of a four-byte character.\<close>

definition second3 :: "u8 \<Rightarrow> u8 \<Rightarrow> bool" where
  "second3 a b \<longleftrightarrow> (if a = 0xE0 then 0xA0 \<le> b \<and> b < 192 else if a = 0xED then 128 \<le> b \<and> b < 0xA0 else is_cont b)"

definition second4 :: "u8 \<Rightarrow> u8 \<Rightarrow> bool" where
  "second4 a b \<longleftrightarrow> (if a = 0xF0 then 0x90 \<le> b \<and> b < 192 else if a = 0xF4 then 128 \<le> b \<and> b < 0x90 else is_cont b)"

definition utf8_head :: "u8 \<Rightarrow> bytes \<Rightarrow> nat \<times> bool" where
  "utf8_head a r =
     (if a < 128 then (1, True)
      else if 0xC2 \<le> a \<and> a < 0xE0 then
        (if 1 \<le> length r \<and> is_cont (r ! 0) then (2, True) else (1, False))
      else if 0xE0 \<le> a \<and> a < 0xF0 then
        (if 1 \<le> length r \<and> second3 a (r ! 0) then
           (if 2 \<le> length r \<and> is_cont (r ! 1) then (3, True) else (2, False))
         else (1, False))
      else if 0xF0 \<le> a \<and> a < 0xF5 then
        (if 1 \<le> length r \<and> second4 a (r ! 0) then
           (if 2 \<le> length r \<and> is_cont (r ! 1) then
              (if 3 \<le> length r \<and> is_cont (r ! 2) then (4, True) else (3, False))
            else (2, False))
         else (1, False))
      else (1, False))"

lemma utf8_head_size:
  assumes "utf8_head a r = (n, ok)"
  shows "1 \<le> n" and "n \<le> Suc (length r)"
  using assms by (auto simp: utf8_head_def split: if_splits)

text \<open>A character depends only on its own bytes.\<close>

lemma utf8_head_take:
  assumes "utf8_head a r = (n, True)" and "take (n - 1) r = take (n - 1) r'" and "n \<le> Suc (length r')"
  shows "utf8_head a r' = (n, True)"
proof -
  have "r ! i = r' ! i" if "i < n - 1" for i using assms(2) that by (metis nth_take)
  then show ?thesis using assms(1,3) utf8_head_size [OF assms(1)]
    by (auto simp: utf8_head_def split: if_splits)
qed

function utf8_valid :: "bytes \<Rightarrow> bool" where
  "utf8_valid [] = True"
| "utf8_valid (a # r) = (case utf8_head a r of (n, ok) \<Rightarrow> ok \<and> utf8_valid (drop (n - 1) r))"
  by pat_completeness auto
termination
  by (relation "measure length") (auto simp: less_Suc_eq_le)

definition REPLACEMENT :: bytes where "REPLACEMENT = [0xEF, 0xBF, 0xBD]"

function from_utf8_lossy :: "bytes \<Rightarrow> bytes" where
  "from_utf8_lossy [] = []"
| "from_utf8_lossy (a # r) =
     (case utf8_head a r of
        (n, ok) \<Rightarrow> (if ok then a # take (n - 1) r else REPLACEMENT) @ from_utf8_lossy (drop (n - 1) r))"
  by pat_completeness auto
termination
  by (relation "measure length") (auto simp: less_Suc_eq_le)

declare utf8_valid.simps(2) [simp del] from_utf8_lossy.simps(2) [simp del]

definition from_utf8 :: "bytes \<Rightarrow> bytes option" where
  "from_utf8 bs = (if utf8_valid bs then Some bs else None)"

lemma utf8_valid_char:
  assumes "utf8_head a r = (n, True)"
  shows "utf8_valid (a # take (n - 1) r @ rest) = utf8_valid rest"
proof -
  have n: "1 \<le> n" "n - 1 \<le> length r" using utf8_head_size [OF assms] by auto
  have "utf8_head a (take (n - 1) r @ rest) = (n, True)"
    by (rule utf8_head_take [OF assms]) (use n in auto)
  then show ?thesis using n by (simp add: utf8_valid.simps(2))
qed

lemma utf8_valid_replacement: "utf8_valid (REPLACEMENT @ rest) = utf8_valid rest"
  by (simp add: REPLACEMENT_def utf8_valid.simps(2) utf8_head_def second3_def is_cont_def)

lemma lossy_valid: "utf8_valid (from_utf8_lossy bs)"
proof (induction bs rule: from_utf8_lossy.induct)
  case (2 a r)
  obtain n ok where h: "utf8_head a r = (n, ok)" by fastforce
  then have "utf8_valid (from_utf8_lossy (drop (n - 1) r))" using 2 by simp
  then show ?case using h utf8_valid_char [of a r n] utf8_valid_replacement by (auto simp: from_utf8_lossy.simps(2))
qed simp

lemma lossy_id: "utf8_valid bs \<Longrightarrow> from_utf8_lossy bs = bs"
proof (induction bs rule: utf8_valid.induct)
  case (2 a r)
  obtain n ok where h: "utf8_head a r = (n, ok)" by fastforce
  then have "ok" "utf8_valid (drop (n - 1) r)" using 2(2) by (simp_all add: utf8_valid.simps(2))
  then show ?case using 2(1) h by (simp add: from_utf8_lossy.simps(2))
qed simp

lemma ascii_valid: "(\<forall>b \<in> set bs. b < 128) \<Longrightarrow> utf8_valid bs"
  by (induction bs) (auto simp: utf8_valid.simps(2) utf8_head_def)

lemma from_utf8_Some [simp]: "from_utf8 bs = Some s \<longleftrightarrow> s = bs \<and> utf8_valid bs"
  by (auto simp: from_utf8_def)

end
