(* ===== verification/SessionPdu.thy ===== *)
theory SessionPdu
  imports Utf8
begin

text \<open>
  The ratchet and quantum-mix PDUs of src/src/ghost/session/mod.rs: builders, parsers and the byte
  strings their signatures cover. The identity signature is the argument \<open>sign\<close>; the check of an
  ML-KEM encapsulation key, done by the crate, is the argument \<open>ek_valid\<close>.
\<close>

section \<open>Re-key\<close>

definition REKEY_MAGIC :: bytes where "REKEY_MAGIC = ascii ''GHOST_REKEY____!''"
definition REKEY_RESPONSE_MAGIC :: bytes where "REKEY_RESPONSE_MAGIC = ascii ''GHOST_REKEY_RSP!''"
definition QEL_MIX_MAGIC :: bytes where "QEL_MIX_MAGIC = ascii ''GHOST_QEL_MIX___''"
definition QEL_MIX_RESPONSE_MAGIC :: bytes where "QEL_MIX_RESPONSE_MAGIC = ascii ''GHOST_QEL_MIX_OK''"
definition QEL_MIX_MAX_LABEL :: nat where "QEL_MIX_MAX_LABEL = 128"
definition QEL_MIX_BLOB_LEN :: nat where "QEL_MIX_BLOB_LEN = 250"
definition QEL_MIX_RESPONSE_BLOB_LEN :: nat where "QEL_MIX_RESPONSE_BLOB_LEN = 120"
definition REKEY_BLOB_LEN :: nat where "REKEY_BLOB_LEN = 912"
definition REKEY_RESPONSE_BLOB_LEN :: nat where "REKEY_RESPONSE_BLOB_LEN = 912"

lemmas pdu_consts = QEL_MIX_MAX_LABEL_def QEL_MIX_BLOB_LEN_def QEL_MIX_RESPONSE_BLOB_LEN_def
  REKEY_BLOB_LEN_def REKEY_RESPONSE_BLOB_LEN_def

definition rekey_init_signed_material :: "bytes \<Rightarrow> bytes \<Rightarrow> bytes" where
  "rekey_init_signed_material x_pub kyber_pub = x_pub @ kyber_pub"

definition rekey_answer_signed_material :: "bytes \<Rightarrow> bytes \<Rightarrow> bytes \<Rightarrow> bytes" where
  "rekey_answer_signed_material x_pub kyber_ct confirm = x_pub @ kyber_ct @ confirm"

definition build_rekey_pdu :: "(bytes \<Rightarrow> bytes) \<Rightarrow> bytes \<Rightarrow> bytes \<Rightarrow> bytes" where
  "build_rekey_pdu sign x_pub kyber_bytes =
     (let pdu = zeros REKEY_BLOB_LEN;
          pdu = copy_at 0 REKEY_MAGIC pdu;
          pdu = copy_at 16 x_pub pdu;
          pdu = copy_at 48 kyber_bytes pdu;
          signed_material = x_pub @ kyber_bytes;
          sig = sign signed_material
      in copy_at 848 sig pdu)"

definition build_ratchet_step_pdu :: "(bytes \<Rightarrow> bool) \<Rightarrow> (bytes \<Rightarrow> bytes) \<Rightarrow> bytes \<Rightarrow> bytes \<Rightarrow> bytes option" where
  "build_ratchet_step_pdu ek_valid sign x_pub_bytes kem_pub_bytes =
     (if \<not> ek_valid kem_pub_bytes then None else Some (build_rekey_pdu sign x_pub_bytes kem_pub_bytes))"

record rekey_blob =
  rb_x25519_pub :: bytes
  rb_kyber_pub :: bytes
  rb_signature :: bytes

definition parse_rekey_pdu :: "bytes \<Rightarrow> rekey_blob option" where
  "parse_rekey_pdu data =
     (if length data < REKEY_BLOB_LEN \<or> \<not> starts_with REKEY_MAGIC data then None
      else Some \<lparr>rb_x25519_pub = slice 16 48 data, rb_kyber_pub = slice 48 848 data,
                 rb_signature = slice 848 912 data\<rparr>)"

definition build_rekey_response_pdu :: "(bytes \<Rightarrow> bytes) \<Rightarrow> bytes \<Rightarrow> bytes \<Rightarrow> bytes \<Rightarrow> bytes" where
  "build_rekey_response_pdu sign x_pub kyber_ct confirm =
     (let pdu = zeros REKEY_RESPONSE_BLOB_LEN;
          pdu = copy_at 0 REKEY_RESPONSE_MAGIC pdu;
          pdu = copy_at 16 x_pub pdu;
          pdu = copy_at 48 kyber_ct pdu;
          pdu = copy_at 816 confirm pdu;
          signed_material = copy_at 800 confirm (copy_at 32 kyber_ct (copy_at 0 x_pub (zeros 832)));
          sig = sign signed_material
      in copy_at 848 sig pdu)"

record rekey_response_blob =
  rr_x25519_pub :: bytes
  rr_kyber_ct :: bytes
  rr_confirm :: bytes
  rr_signature :: bytes

definition parse_rekey_response_pdu :: "bytes \<Rightarrow> rekey_response_blob option" where
  "parse_rekey_response_pdu data =
     (if length data < REKEY_RESPONSE_BLOB_LEN \<or> \<not> starts_with REKEY_RESPONSE_MAGIC data then None
      else Some \<lparr>rr_x25519_pub = slice 16 48 data, rr_kyber_ct = slice 48 816 data,
                 rr_confirm = slice 816 848 data, rr_signature = slice 848 912 data\<rparr>)"

section \<open>Quantum mix\<close>

definition QEL_MIX_EPOCH_AT :: nat where "QEL_MIX_EPOCH_AT = 16"
definition QEL_MIX_LABEL_LEN_AT :: nat where "QEL_MIX_LABEL_LEN_AT = 24"
definition QEL_MIX_LABEL_AT :: nat where "QEL_MIX_LABEL_AT = 26"
definition QEL_MIX_CONFIRM_AT :: nat where "QEL_MIX_CONFIRM_AT = QEL_MIX_LABEL_AT + QEL_MIX_MAX_LABEL"
definition QEL_MIX_SIG_AT :: nat where "QEL_MIX_SIG_AT = QEL_MIX_CONFIRM_AT + 32"

lemmas mix_offsets = QEL_MIX_EPOCH_AT_def QEL_MIX_LABEL_LEN_AT_def QEL_MIX_LABEL_AT_def
  QEL_MIX_CONFIRM_AT_def QEL_MIX_SIG_AT_def

definition qel_mix_signed_material :: "u64 \<Rightarrow> bytes \<Rightarrow> bytes \<Rightarrow> bytes" where
  "qel_mix_signed_material epoch label confirm =
     be_u64 epoch @ be_u16 (of_nat (length label)) @ label @ confirm"

text \<open>\<open>label\<close> is the UTF-8 of the \<open>&str\<close>; one over the field's size trips the assertion.\<close>

definition build_qel_mix_pdu :: "(bytes \<Rightarrow> bytes) \<Rightarrow> u64 \<Rightarrow> bytes \<Rightarrow> bytes \<Rightarrow> (bytes, unit) rust" where
  "build_qel_mix_pdu sign epoch label confirm =
     (let pdu = zeros QEL_MIX_BLOB_LEN;
          pdu = copy_at 0 QEL_MIX_MAGIC pdu;
          pdu = copy_at QEL_MIX_EPOCH_AT (be_u64 epoch) pdu
      in if length label > QEL_MIX_MAX_LABEL then Panic
         else
           (let pdu = copy_at QEL_MIX_LABEL_LEN_AT (be_u16 (of_nat (length label))) pdu;
                pdu = copy_at QEL_MIX_LABEL_AT label pdu;
                pdu = copy_at QEL_MIX_CONFIRM_AT confirm pdu;
                sig = sign (qel_mix_signed_material epoch label confirm)
            in Ok (copy_at QEL_MIX_SIG_AT sig pdu)))"

record qel_mix_blob =
  qm_epoch :: u64
  qm_label :: bytes
  qm_confirm :: bytes
  qm_signature :: bytes

definition parse_qel_mix_pdu :: "bytes \<Rightarrow> qel_mix_blob option" where
  "parse_qel_mix_pdu data =
     (if length data < QEL_MIX_BLOB_LEN \<or> \<not> starts_with QEL_MIX_MAGIC data then None
      else
        (let epoch = u64_be (slice QEL_MIX_EPOCH_AT QEL_MIX_LABEL_LEN_AT data);
             label_len = unat (u16_be (slice QEL_MIX_LABEL_LEN_AT QEL_MIX_LABEL_AT data))
         in if label_len = 0 \<or> label_len > QEL_MIX_MAX_LABEL then None
            else
              (let label_bytes = slice QEL_MIX_LABEL_AT (QEL_MIX_LABEL_AT + label_len) data
               in if \<not> utf8_valid label_bytes then None
                  else Some \<lparr>qm_epoch = epoch, qm_label = label_bytes,
                             qm_confirm = slice QEL_MIX_CONFIRM_AT QEL_MIX_SIG_AT data,
                             qm_signature = slice QEL_MIX_SIG_AT QEL_MIX_BLOB_LEN data\<rparr>)))"

definition qel_mix_response_signed_material :: "u64 \<Rightarrow> bytes \<Rightarrow> bytes" where
  "qel_mix_response_signed_material epoch confirm = be_u64 epoch @ confirm"

definition build_qel_mix_response_pdu :: "(bytes \<Rightarrow> bytes) \<Rightarrow> u64 \<Rightarrow> bytes \<Rightarrow> bytes" where
  "build_qel_mix_response_pdu sign epoch confirm =
     (let pdu = zeros QEL_MIX_RESPONSE_BLOB_LEN;
          pdu = copy_at 0 QEL_MIX_RESPONSE_MAGIC pdu;
          pdu = copy_at 16 (be_u64 epoch) pdu;
          pdu = copy_at 24 confirm pdu;
          sig = sign (qel_mix_response_signed_material epoch confirm)
      in copy_at 56 sig pdu)"

record qel_mix_response_blob =
  qr_epoch :: u64
  qr_confirm :: bytes
  qr_signature :: bytes

definition parse_qel_mix_response_pdu :: "bytes \<Rightarrow> qel_mix_response_blob option" where
  "parse_qel_mix_response_pdu data =
     (if length data < QEL_MIX_RESPONSE_BLOB_LEN \<or> \<not> starts_with QEL_MIX_RESPONSE_MAGIC data then None
      else Some \<lparr>qr_epoch = u64_be (slice 16 24 data), qr_confirm = slice 24 56 data,
                 qr_signature = slice 56 120 data\<rparr>)"

section \<open>Round trips\<close>

lemma length_magics [simp]:
  "length REKEY_MAGIC = 16" "length REKEY_RESPONSE_MAGIC = 16" "length QEL_MIX_MAGIC = 16"
  "length QEL_MIX_RESPONSE_MAGIC = 16"
  by (simp_all add: REKEY_MAGIC_def REKEY_RESPONSE_MAGIC_def QEL_MIX_MAGIC_def QEL_MIX_RESPONSE_MAGIC_def)

lemma magics_distinct:
  "distinct [REKEY_MAGIC, REKEY_RESPONSE_MAGIC, QEL_MIX_MAGIC, QEL_MIX_RESPONSE_MAGIC]"
  by (simp add: REKEY_MAGIC_def REKEY_RESPONSE_MAGIC_def QEL_MIX_MAGIC_def QEL_MIX_RESPONSE_MAGIC_def ascii_def)

lemmas pdu_simps = starts_with_copy starts_with_later wire_simps pdu_consts mix_offsets Let_def

lemma rekey_built:
  assumes "signer sign" and "length x = 32" and "length k = 800"
  shows "parse_rekey_pdu (build_rekey_pdu sign x k) =
      Some \<lparr>rb_x25519_pub = x, rb_kyber_pub = k, rb_signature = sign (rekey_init_signed_material x k)\<rparr>"
    and "length m = 16 \<Longrightarrow> starts_with m (build_rekey_pdu sign x k) \<longleftrightarrow> m = REKEY_MAGIC"
  using assms signerD [OF assms(1)]
  by (simp_all add: parse_rekey_pdu_def build_rekey_pdu_def rekey_init_signed_material_def pdu_simps)

lemma rekey_response_built:
  assumes "signer sign" and "length x = 32" and "length ct = 768" and "length c = 32"
  shows "parse_rekey_response_pdu (build_rekey_response_pdu sign x ct c) =
      Some \<lparr>rr_x25519_pub = x, rr_kyber_ct = ct, rr_confirm = c,
            rr_signature = sign (rekey_answer_signed_material x ct c)\<rparr>"
    and "length m = 16 \<Longrightarrow> starts_with m (build_rekey_response_pdu sign x ct c) \<longleftrightarrow> m = REKEY_RESPONSE_MAGIC"
proof -
  have "copy_at 800 c (copy_at 32 ct (copy_at 0 x (zeros 832))) = x @ ct @ c"
    using assms(2-4) by (simp add: copy_at_def)
  then show "parse_rekey_response_pdu (build_rekey_response_pdu sign x ct c) =
      Some \<lparr>rr_x25519_pub = x, rr_kyber_ct = ct, rr_confirm = c,
            rr_signature = sign (rekey_answer_signed_material x ct c)\<rparr>"
    and "length m = 16 \<Longrightarrow> starts_with m (build_rekey_response_pdu sign x ct c) \<longleftrightarrow> m = REKEY_RESPONSE_MAGIC"
    using assms signerD [OF assms(1)]
    by (simp_all add: parse_rekey_response_pdu_def build_rekey_response_pdu_def rekey_answer_signed_material_def pdu_simps)
qed

lemma qel_mix_built:
  assumes "signer sign" and "length c = 32" and "length l \<le> 128"
  obtains p where "build_qel_mix_pdu sign e l c = Ok p" and "length p = 250"
    and "parse_qel_mix_pdu p =
      (if l = [] \<or> \<not> utf8_valid l then None
       else Some \<lparr>qm_epoch = e, qm_label = l, qm_confirm = c, qm_signature = sign (qel_mix_signed_material e l c)\<rparr>)"
    and "\<And>m. length m = 16 \<Longrightarrow> starts_with m p \<longleftrightarrow> m = QEL_MIX_MAGIC"
proof -
  define p where "p = copy_at 186 (sign (qel_mix_signed_material e l c)) (copy_at 154 c (copy_at 26 l
      (copy_at 24 (be_u16 (of_nat (length l))) (copy_at 16 (be_u64 e) (copy_at 0 QEL_MIX_MAGIC (zeros 250))))))"
  note sg = signerD [OF assms(1)]
  have len: "unat (of_nat (length l) :: u16) = length l" using assms(3) by (simp add: unat_of_nat)
  have f: "slice 16 24 p = be_u64 e" "slice 24 26 p = be_u16 (of_nat (length l))" "slice 26 (26 + length l) p = l"
    "slice 154 186 p = c" "slice 186 250 p = sign (qel_mix_signed_material e l c)" "length p = 250"
    using assms sg by (simp_all add: p_def wire_simps)
  have m: "starts_with m p \<longleftrightarrow> m = QEL_MIX_MAGIC" if "length m = 16" for m
    using that assms sg by (simp add: p_def pdu_simps)
  show thesis
  proof (rule that [of p])
    show "build_qel_mix_pdu sign e l c = Ok p" using assms(3) by (simp add: build_qel_mix_pdu_def pdu_simps p_def)
    show "parse_qel_mix_pdu p = (if l = [] \<or> \<not> utf8_valid l then None
       else Some \<lparr>qm_epoch = e, qm_label = l, qm_confirm = c, qm_signature = sign (qel_mix_signed_material e l c)\<rparr>)"
      using f m len assms(3) by (simp add: parse_qel_mix_pdu_def pdu_consts mix_offsets Let_def)
  qed (use f m in simp_all)
qed

lemma qel_mix_response_built:
  assumes "signer sign" and "length c = 32"
  shows "parse_qel_mix_response_pdu (build_qel_mix_response_pdu sign e c) =
      Some \<lparr>qr_epoch = e, qr_confirm = c, qr_signature = sign (qel_mix_response_signed_material e c)\<rparr>"
    and "length m = 16 \<Longrightarrow> starts_with m (build_qel_mix_response_pdu sign e c) \<longleftrightarrow> m = QEL_MIX_RESPONSE_MAGIC"
  using assms signerD [OF assms(1)]
  by (simp_all add: parse_qel_mix_response_pdu_def build_qel_mix_response_pdu_def pdu_simps)

interpretation rekey_codec: wire_codec
  "\<lambda>(sign, x, k). build_rekey_pdu sign x k" parse_rekey_pdu
  "\<lambda>(sign, x, k). \<lparr>rb_x25519_pub = x, rb_kyber_pub = k, rb_signature = sign (rekey_init_signed_material x k)\<rparr>"
  "\<lambda>(sign, x, k). signer sign \<and> length x = 32 \<and> length k = 800"
  by unfold_locales (auto simp: rekey_built)

interpretation rekey_response_codec: wire_codec
  "\<lambda>(sign, x, ct, c). build_rekey_response_pdu sign x ct c" parse_rekey_response_pdu
  "\<lambda>(sign, x, ct, c). \<lparr>rr_x25519_pub = x, rr_kyber_ct = ct, rr_confirm = c,
     rr_signature = sign (rekey_answer_signed_material x ct c)\<rparr>"
  "\<lambda>(sign, x, ct, c). signer sign \<and> length x = 32 \<and> length ct = 768 \<and> length c = 32"
  by unfold_locales (auto simp: rekey_response_built)

interpretation qel_mix_response_codec: wire_codec
  "\<lambda>(sign, e, c). build_qel_mix_response_pdu sign e c" parse_qel_mix_response_pdu
  "\<lambda>(sign, e, c). \<lparr>qr_epoch = e, qr_confirm = c, qr_signature = sign (qel_mix_response_signed_material e c)\<rparr>"
  "\<lambda>(sign, e, c). signer sign \<and> length c = 32"
  by unfold_locales (auto simp: qel_mix_response_built)

text \<open>The kind of a PDU: which of the four parsers take it.\<close>

definition accepted_by :: "bytes \<Rightarrow> bool list" where
  "accepted_by p = [parse_rekey_pdu p \<noteq> None, parse_rekey_response_pdu p \<noteq> None, parse_qel_mix_pdu p \<noteq> None,
     parse_qel_mix_response_pdu p \<noteq> None]"

lemma accepted_by_magic:
  assumes "\<And>m. length m = 16 \<Longrightarrow> starts_with m p \<longleftrightarrow> m = m0"
  shows "m0 \<noteq> REKEY_MAGIC \<Longrightarrow> parse_rekey_pdu p = None"
    and "m0 \<noteq> REKEY_RESPONSE_MAGIC \<Longrightarrow> parse_rekey_response_pdu p = None"
    and "m0 \<noteq> QEL_MIX_MAGIC \<Longrightarrow> parse_qel_mix_pdu p = None"
    and "m0 \<noteq> QEL_MIX_RESPONSE_MAGIC \<Longrightarrow> parse_qel_mix_response_pdu p = None"
  using assms
  by (auto simp: parse_rekey_pdu_def parse_rekey_response_pdu_def parse_qel_mix_pdu_def parse_qel_mix_response_pdu_def)

section \<open>Properties\<close>

text \<open>
  The four control PDUs of the ratchet round-trip, each is taken by its own parser only, and the
  signature the receiver reads is the sender's signature over exactly the material the receiver
  recomputes from the parsed fields. A quantum-mix label that is empty, though the builder takes it,
  is refused by the parser, and one over 128 bytes panics the builder.
\<close>

theorem ratchet_pdus_roundtrip:
  assumes "signer sign" and "length x = 32" and "length k = 800" and "length ct = 768" and "length c = 32"
  shows "parse_rekey_pdu (build_rekey_pdu sign x k) =
      Some \<lparr>rb_x25519_pub = x, rb_kyber_pub = k, rb_signature = sign (rekey_init_signed_material x k)\<rparr> \<and>
    accepted_by (build_rekey_pdu sign x k) = [True, False, False, False] \<and>
    parse_rekey_response_pdu (build_rekey_response_pdu sign x ct c) =
      Some \<lparr>rr_x25519_pub = x, rr_kyber_ct = ct, rr_confirm = c,
            rr_signature = sign (rekey_answer_signed_material x ct c)\<rparr> \<and>
    accepted_by (build_rekey_response_pdu sign x ct c) = [False, True, False, False] \<and>
    parse_qel_mix_response_pdu (build_qel_mix_response_pdu sign e c) =
      Some \<lparr>qr_epoch = e, qr_confirm = c, qr_signature = sign (qel_mix_response_signed_material e c)\<rparr> \<and>
    accepted_by (build_qel_mix_response_pdu sign e c) = [False, False, False, True] \<and>
    (if 128 < length l then build_qel_mix_pdu sign e l c = Panic
     else \<exists>p. build_qel_mix_pdu sign e l c = Ok p \<and>
       (if l = [] \<or> \<not> utf8_valid l then accepted_by p = [False, False, False, False]
        else accepted_by p = [False, False, True, False] \<and>
          parse_qel_mix_pdu p = Some \<lparr>qm_epoch = e, qm_label = l, qm_confirm = c,
            qm_signature = sign (qel_mix_signed_material e l c)\<rparr>))"
proof -
  note d = magics_distinct
  have mix: "\<exists>p. build_qel_mix_pdu sign e l c = Ok p \<and>
       (if l = [] \<or> \<not> utf8_valid l then accepted_by p = [False, False, False, False]
        else accepted_by p = [False, False, True, False] \<and>
          parse_qel_mix_pdu p = Some \<lparr>qm_epoch = e, qm_label = l, qm_confirm = c,
            qm_signature = sign (qel_mix_signed_material e l c)\<rparr>)" if ll: "length l \<le> 128"
  proof -
    obtain p where p: "build_qel_mix_pdu sign e l c = Ok p"
      "parse_qel_mix_pdu p = (if l = [] \<or> \<not> utf8_valid l then None
       else Some \<lparr>qm_epoch = e, qm_label = l, qm_confirm = c, qm_signature = sign (qel_mix_signed_material e l c)\<rparr>)"
      "\<And>m. length m = 16 \<Longrightarrow> starts_with m p \<longleftrightarrow> m = QEL_MIX_MAGIC"
      by (rule qel_mix_built [OF assms(1,5) ll]) blast
    have "accepted_by p = [False, False, \<not> (l = [] \<or> \<not> utf8_valid l), False]"
      using accepted_by_magic [OF p(3)] p(2) d by (auto simp: accepted_by_def)
    then show ?thesis using p(1,2) by auto
  qed
  have long: "128 < length l \<Longrightarrow> build_qel_mix_pdu sign e l c = Panic"
    by (simp add: build_qel_mix_pdu_def Let_def QEL_MIX_MAX_LABEL_def)
  have a: "accepted_by (build_rekey_pdu sign x k) = [True, False, False, False]"
    using accepted_by_magic [OF rekey_built(2) [OF assms(1-3)]] rekey_built(1) [OF assms(1-3)] d
    by (auto simp: accepted_by_def)
  have b: "accepted_by (build_rekey_response_pdu sign x ct c) = [False, True, False, False]"
    using accepted_by_magic [OF rekey_response_built(2) [OF assms(1,2,4,5)]] rekey_response_built(1) [OF assms(1,2,4,5)] d
    by (auto simp: accepted_by_def)
  have c: "accepted_by (build_qel_mix_response_pdu sign e c) = [False, False, False, True]"
    using accepted_by_magic [OF qel_mix_response_built(2) [OF assms(1,5)]] qel_mix_response_built(1) [OF assms(1,5)] d
    by (auto simp: accepted_by_def)
  show ?thesis
    using rekey_built(1) [OF assms(1-3)] rekey_response_built(1) [OF assms(1,2,4,5)]
      qel_mix_response_built(1) [OF assms(1,5)] a b c mix long by (simp add: not_less)
qed

theorem ratchet_pdus_roundtrip_witness:
  "parse_qel_mix_response_pdu (build_qel_mix_response_pdu (\<lambda>m. zeros 64) 7 (zeros 32)) =
     Some \<lparr>qr_epoch = 7, qr_confirm = zeros 32, qr_signature = zeros 64\<rparr>"
  using ratchet_pdus_roundtrip [of "\<lambda>m. zeros 64" "zeros 32" "zeros 800" "zeros 768" "zeros 32" 7 "[]"]
  by (simp add: signer_def)

end
