(* ===== verification/Rekey.thy ===== *)
theory Rekey
  imports PqAuth SessionPdu
begin

text \<open>
  Running the ratchet between two nodes, src/src/main.rs: the maintenance ticks that start a step or
  a quantum mix for the sessions that are due, and the handlers of the PDUs that answer and finish
  them. Ephemeral secrets, encapsulation randomness and wire nonces are arguments, and so are the
  key a quantum link yields (\<open>establish\<close>) and the one a label redeems (\<open>redeem\<close>), which come from
  outside the program. A frame is sent by being part of the result; which path carries it and the
  topology file written for the router are left out. The concurrent session map is walked in the
  order \<open>order\<close>.
\<close>

definition RATCHET_STEP_STALL :: duration where "RATCHET_STEP_STALL = secs 30"
definition QUANTUM_MIX_STALL :: duration where "QUANTUM_MIX_STALL = secs 90"
definition QUANTUM_MIX_RETRY :: duration where "QUANTUM_MIX_RETRY = secs 60"

text \<open>What one handler call draws from the random source.\<close>

record draw =
  dr_x_secret :: bytes
  dr_kem_dk :: bytes
  dr_kem_rnd :: bytes
  dr_nonce :: bytes

section \<open>Handlers\<close>

definition handle_ratchet_pdu ::
  "crates \<Rightarrow> instant \<Rightarrow> node \<Rightarrow> draw \<Rightarrow> bytes \<Rightarrow> bytes \<Rightarrow> (bool \<times> node \<times> bytes list, unit) rust" where
  "handle_ratchet_pdu C now nd dr peer_fp payload =
     (let is_init = starts_with REKEY_MAGIC payload;
          is_answer = starts_with REKEY_RESPONSE_MAGIC payload
      in if \<not> is_init \<and> \<not> is_answer then Ok (False, nd, [])
         else case nd_sessions nd peer_fp of
           None \<Rightarrow> Ok (True, nd, [])
         | Some sess \<Rightarrow>
             (case se_peer_identity_pk sess of
                None \<Rightarrow> Ok (True, nd, [])
              | Some pk \<Rightarrow>
                  if is_init then
                    (case parse_rekey_pdu payload of
                       None \<Rightarrow> Ok (True, nd, [])
                     | Some blob \<Rightarrow>
                         (let material = rekey_init_signed_material (rb_x25519_pub blob) (rb_kyber_pub blob)
                          in if \<not> verify_peer_signature C pk material (rb_signature blob) then Ok (True, nd, [])
                             else
                               (let (sess, admitted) = admit_peer_step sess (fingerprint C (nd_identity nd))
                                in if \<not> admitted then Ok (True, put_session nd peer_fp (Some sess), [])
                                   else case answer_ratchet_step C sess (dr_x_secret dr) (dr_kem_dk dr) (dr_kem_rnd dr)
                                               (rb_x25519_pub blob) (rb_kyber_pub blob) of
                                     Ok (sess, None) \<Rightarrow> Ok (True, put_session nd peer_fp (Some sess), [])
                                   | Ok (sess, Some answer) \<Rightarrow>
                                       (let pdu = build_rekey_response_pdu (identity_sign C (nd_identity nd))
                                                    (ra_x_public answer) (ra_kem_ct answer) (ra_confirm answer);
                                            (sess, ctx) = ctx_from_session C sess (dr_nonce dr)
                                        in case seal_single C ctx pdu of
                                             Ok frame \<Rightarrow> Ok (True, put_session nd peer_fp (Some sess), [frame])
                                           | _ \<Rightarrow> Panic)
                                   | _ \<Rightarrow> Panic)))
                  else
                    (case parse_rekey_response_pdu payload of
                       None \<Rightarrow> Ok (True, nd, [])
                     | Some blob \<Rightarrow>
                         (let material = rekey_answer_signed_material (rr_x25519_pub blob) (rr_kyber_ct blob) (rr_confirm blob)
                          in if \<not> verify_peer_signature C pk material (rr_signature blob) then Ok (True, nd, [])
                             else
                               (let expected = sr_epoch (se_ratchet sess) + 1;
                                    answer = \<lparr>ra_x_public = rr_x25519_pub blob, ra_kem_ct = rr_kyber_ct blob,
                                              ra_confirm = rr_confirm blob, ra_epoch = expected\<rparr>
                                in case finish_ratchet_step C sess now answer of
                                     (sess, _) \<Rightarrow> Ok (True, put_session nd peer_fp (Some sess), []))))))"

definition handle_qel_mix_pdu ::
  "crates \<Rightarrow> instant \<Rightarrow> (bytes \<Rightarrow> bytes \<Rightarrow> bytes option) \<Rightarrow> node \<Rightarrow> draw \<Rightarrow> bytes \<Rightarrow> bytes \<Rightarrow>
   (bool \<times> node \<times> bytes list, unit) rust" where
  "handle_qel_mix_pdu C now redeem nd dr peer_fp payload =
     (let is_init = starts_with QEL_MIX_MAGIC payload;
          is_answer = starts_with QEL_MIX_RESPONSE_MAGIC payload
      in if \<not> is_init \<and> \<not> is_answer then Ok (False, nd, [])
         else if is_init then
           (case parse_qel_mix_pdu payload of
              None \<Rightarrow> Ok (True, nd, [])
            | Some blob \<Rightarrow>
                (case nd_sessions nd peer_fp of
                   None \<Rightarrow> Ok (True, nd, [])
                 | Some sess \<Rightarrow>
                     (case se_peer_identity_pk sess of
                        None \<Rightarrow> Ok (True, nd, [])
                      | Some pk \<Rightarrow>
                          (let material = qel_mix_signed_material (qm_epoch blob) (qm_label blob) (qm_confirm blob)
                           in if \<not> verify_peer_signature C pk material (qm_signature blob) then Ok (True, nd, [])
                              else
                                (let (sess, admitted) = admit_peer_quantum_mix sess (fingerprint C (nd_identity nd));
                                     nd = put_session nd peer_fp (Some sess)
                                 in if \<not> admitted then Ok (True, nd, [])
                                    else case redeem peer_fp (qm_label blob) of
                                      None \<Rightarrow> Ok (True, nd, [])
                                    | Some key \<Rightarrow>
                                        (case answer_quantum_mix C sess now key (qm_epoch blob) (qm_confirm blob) (qm_label blob) of
                                           Ok (sess, None) \<Rightarrow> Ok (True, put_session nd peer_fp (Some sess), [])
                                         | Ok (sess, Some answer) \<Rightarrow>
                                             (let pdu = build_qel_mix_response_pdu (identity_sign C (nd_identity nd)) (qm_epoch blob) answer;
                                                  (sess, ctx) = ctx_from_session C sess (dr_nonce dr)
                                              in case seal_single C ctx pdu of
                                                   Ok frame \<Rightarrow> Ok (True, put_session nd peer_fp (Some sess), [frame])
                                                 | _ \<Rightarrow> Panic)
                                         | _ \<Rightarrow> Panic))))))
         else
           (case parse_qel_mix_response_pdu payload of
              None \<Rightarrow> Ok (True, nd, [])
            | Some blob \<Rightarrow>
                (case nd_sessions nd peer_fp of
                   None \<Rightarrow> Ok (True, nd, [])
                 | Some sess \<Rightarrow>
                     (case se_peer_identity_pk sess of
                        None \<Rightarrow> Ok (True, nd, [])
                      | Some pk \<Rightarrow>
                          (let material = qel_mix_response_signed_material (qr_epoch blob) (qr_confirm blob)
                           in if \<not> verify_peer_signature C pk material (qr_signature blob) then Ok (True, nd, [])
                              else case finish_quantum_mix sess now (qr_epoch blob) (qr_confirm blob) of
                                (sess, _) \<Rightarrow> Ok (True, put_session nd peer_fp (Some sess), []))))))"

section \<open>Maintenance\<close>

definition unreachable_addr :: sock_addr where
  "unreachable_addr = \<lparr>sa_ip = V4 127 0 0 1, sa_port = 0\<rparr>"

text \<open>The first loop of \<open>ratchet_maintenance_once\<close>: the work list has peer, address and PDU.\<close>

fun begin_due_steps ::
  "crates \<Rightarrow> (bytes \<Rightarrow> bool) \<Rightarrow> instant \<Rightarrow> (bytes \<Rightarrow> bool) \<Rightarrow> (bytes \<Rightarrow> draw) \<Rightarrow> node \<Rightarrow> bytes list \<Rightarrow>
   node \<times> (bytes \<times> sock_addr \<times> bytes) list" where
  "begin_due_steps C ek_valid now has_path dr nd [] = (nd, [])"
| "begin_due_steps C ek_valid now has_path dr nd (key # keys) =
     (case nd_sessions nd key of
        None \<Rightarrow> begin_due_steps C ek_valid now has_path dr nd keys
      | Some e \<Rightarrow>
          (let e = (if ratchet_step_stalled e now RATCHET_STEP_STALL then abandon_ratchet_step e else e);
               fp = se_peer_fingerprint e;
               addr = nd_peers nd fp
           in if \<not> ratchet_due e \<or> addr = None \<and> \<not> has_path fp
              then begin_due_steps C ek_valid now has_path dr (put_session nd key (Some e)) keys
              else
                (let addr = (case addr of Some a \<Rightarrow> a | None \<Rightarrow> unreachable_addr)
                 in case begin_ratchet_step C e now (dr_x_secret (dr key)) (dr_kem_dk (dr key)) of
                      (e, None) \<Rightarrow> begin_due_steps C ek_valid now has_path dr (put_session nd key (Some e)) keys
                    | (e, Some (x_pub, kem_pub)) \<Rightarrow>
                        (case build_ratchet_step_pdu ek_valid (identity_sign C (nd_identity nd)) x_pub kem_pub of
                           None \<Rightarrow>
                             begin_due_steps C ek_valid now has_path dr (put_session nd key (Some (abandon_ratchet_step e))) keys
                         | Some pdu \<Rightarrow>
                             (case begin_due_steps C ek_valid now has_path dr (put_session nd key (Some e)) keys of
                                (nd, work) \<Rightarrow> (nd, (fp, addr, pdu) # work))))))"

text \<open>The second loop: seal and send.\<close>

fun send_work ::
  "crates \<Rightarrow> (bytes \<Rightarrow> draw) \<Rightarrow> node \<Rightarrow> (bytes \<times> sock_addr \<times> bytes) list \<Rightarrow> (node \<times> (sock_addr \<times> bytes) list, unit) rust" where
  "send_work C dr nd [] = Ok (nd, [])"
| "send_work C dr nd ((fp, addr, pdu) # work) =
     (case nd_sessions nd fp of
        None \<Rightarrow> send_work C dr nd work
      | Some sess \<Rightarrow>
          (let (sess, ctx) = ctx_from_session C sess (dr_nonce (dr fp))
           in case seal_single C ctx pdu of
                Ok frame \<Rightarrow>
                  (case send_work C dr (put_session nd fp (Some sess)) work of
                     Ok (nd, sent) \<Rightarrow> Ok (nd, (addr, frame) # sent)
                   | Err e \<Rightarrow> Err e
                   | Panic \<Rightarrow> Panic)
              | _ \<Rightarrow> Panic))"

definition ratchet_maintenance_once ::
  "crates \<Rightarrow> (bytes \<Rightarrow> bool) \<Rightarrow> instant \<Rightarrow> (bytes \<Rightarrow> bool) \<Rightarrow> (bytes \<Rightarrow> draw) \<Rightarrow> bytes list \<Rightarrow> node \<Rightarrow>
   (node \<times> (sock_addr \<times> bytes) list, unit) rust" where
  "ratchet_maintenance_once C ek_valid now has_path dr order nd =
     (case begin_due_steps C ek_valid now has_path dr nd order of (nd, work) \<Rightarrow> send_work C dr nd work)"

text \<open>The pre-pass of \<open>quantum_mix_maintenance_once\<close>: stalled mixes are abandoned, the due peers collected.\<close>

fun due_mixes :: "crates \<Rightarrow> instant \<Rightarrow> node \<Rightarrow> bytes list \<Rightarrow> node \<times> bytes list" where
  "due_mixes C now nd [] = (nd, [])"
| "due_mixes C now nd (key # keys) =
     (case nd_sessions nd key of
        None \<Rightarrow> due_mixes C now nd keys
      | Some e \<Rightarrow>
          (let peer_fp = se_peer_fingerprint e;
               e = (if quantum_mix_stalled e now QUANTUM_MIX_STALL then abandon_quantum_mix e else e)
           in case due_mixes C now (put_session nd key (Some e)) keys of
                (nd', due) \<Rightarrow>
                  (nd', if quantum_mix_due e now QUANTUM_MIX_RETRY \<and> str_less (fingerprint C (nd_identity nd)) peer_fp
                        then peer_fp # due else due)))"

fun begin_due_mixes ::
  "crates \<Rightarrow> instant \<Rightarrow> (bytes \<Rightarrow> bool) \<Rightarrow> (bytes \<Rightarrow> bytes \<Rightarrow> (bytes \<times> bytes) option) \<Rightarrow> (bytes \<Rightarrow> draw) \<Rightarrow> node \<Rightarrow> bytes list \<Rightarrow>
   (node \<times> (sock_addr \<times> bytes) list, unit) rust" where
  "begin_due_mixes C now has_path establish dr nd [] = Ok (nd, [])"
| "begin_due_mixes C now has_path establish dr nd (peer_fp # due) =
     (let addr = nd_peers nd peer_fp
      in if addr = None \<and> \<not> has_path peer_fp then begin_due_mixes C now has_path establish dr nd due
         else
           (let addr = (case addr of Some a \<Rightarrow> a | None \<Rightarrow> unreachable_addr)
            in case nd_sessions nd peer_fp of
                 None \<Rightarrow> begin_due_mixes C now has_path establish dr nd due
               | Some sess \<Rightarrow>
                   (let sess = note_quantum_mix_attempt sess now;
                        nd = put_session nd peer_fp (Some sess)
                    in case establish (fingerprint C (nd_identity nd)) peer_fp of
                         None \<Rightarrow> begin_due_mixes C now has_path establish dr nd due
                       | Some (key, label) \<Rightarrow>
                           (case begin_quantum_mix C sess now key label of
                              Ok (sess, None) \<Rightarrow> begin_due_mixes C now has_path establish dr (put_session nd peer_fp (Some sess)) due
                            | Ok (sess, Some pending) \<Rightarrow>
                                (case build_qel_mix_pdu (identity_sign C (nd_identity nd)) (pq_epoch pending) (pq_label pending)
                                        (pq_confirm pending) of
                                   Ok pdu \<Rightarrow>
                                     (let (sess, ctx) = ctx_from_session C sess (dr_nonce (dr peer_fp))
                                      in case seal_single C ctx pdu of
                                           Ok frame \<Rightarrow>
                                             (case begin_due_mixes C now has_path establish dr (put_session nd peer_fp (Some sess)) due of
                                                Ok (nd, sent) \<Rightarrow> Ok (nd, (addr, frame) # sent)
                                              | Err e \<Rightarrow> Err e
                                              | Panic \<Rightarrow> Panic)
                                         | _ \<Rightarrow> Panic)
                                 | _ \<Rightarrow> Panic)
                            | _ \<Rightarrow> Panic))))"

definition quantum_mix_maintenance_once ::
  "crates \<Rightarrow> instant \<Rightarrow> (bytes \<Rightarrow> bool) \<Rightarrow> (bytes \<Rightarrow> bytes \<Rightarrow> (bytes \<times> bytes) option) \<Rightarrow> (bytes \<Rightarrow> draw) \<Rightarrow> bytes list \<Rightarrow> node \<Rightarrow>
   (node \<times> (sock_addr \<times> bytes) list, unit) rust" where
  "quantum_mix_maintenance_once C now has_path establish dr order nd =
     (case due_mixes C now nd order of (nd, due) \<Rightarrow> begin_due_mixes C now has_path establish dr nd due)"

section \<open>Only the pinned peer moves the ratchet\<close>

lemma put_session_other: "fp' \<noteq> fp \<Longrightarrow> nd_sessions (put_session nd fp s) fp' = nd_sessions nd fp'"
  by simp

lemma slice_slice: "a \<le> b \<Longrightarrow> b \<le> c \<Longrightarrow> slice a b xs @ slice b c xs = slice a c xs"
  using take_add [of "b - a" "c - b" "drop a xs"] by (simp add: slice_def add.commute)

lemma rekey_material:
  "length p \<ge> 912 \<Longrightarrow> rekey_init_signed_material (slice 16 48 p) (slice 48 848 p) = slice 16 848 p"
  "length p \<ge> 912 \<Longrightarrow> rekey_answer_signed_material (slice 16 48 p) (slice 48 816 p) (slice 816 848 p) = slice 16 848 p"
  by (simp_all add: rekey_init_signed_material_def rekey_answer_signed_material_def slice_slice)

text \<open>
  C11. A ratchet PDU acts only under the peer's signature: if handling one changes the node or sends
  anything, then the session has a pinned identity key and bytes 848 to 912 of the PDU are a
  signature by it over bytes 16 to 848, and the only thing changed is that session.
\<close>

theorem ratchet_pdus_need_the_pinned_signature:
  assumes "handle_ratchet_pdu C now nd dr fp payload = Ok (handled, nd', frames)" and "nd' \<noteq> nd \<or> frames \<noteq> []"
  shows "\<exists>s s' pk. nd_sessions nd fp = Some s \<and> se_peer_identity_pk s = Some pk \<and> 912 \<le> length payload \<and>
    (starts_with REKEY_MAGIC payload \<or> starts_with REKEY_RESPONSE_MAGIC payload) \<and>
    verify_peer_signature C pk (slice 16 848 payload) (slice 848 912 payload) \<and> nd' = put_session nd fp (Some s')"
proof -
  obtain s pk where s: "nd_sessions nd fp = Some s" "se_peer_identity_pk s = Some pk"
    and m: "starts_with REKEY_MAGIC payload \<or> starts_with REKEY_RESPONSE_MAGIC payload"
    using assms by (auto simp: handle_ratchet_pdu_def Let_def split: if_splits option.splits)
  show ?thesis
  proof (cases "starts_with REKEY_MAGIC payload")
    case True
    have l: "912 \<le> length payload" "verify_peer_signature C pk (slice 16 848 payload) (slice 848 912 payload)"
      using assms s True rekey_material(1) [of payload]
      by (auto simp: handle_ratchet_pdu_def Let_def parse_rekey_pdu_def REKEY_BLOB_LEN_def split: if_splits)
    have "\<exists>s'. nd' = put_session nd fp (Some s')"
      using assms s True l
      by (auto simp: handle_ratchet_pdu_def Let_def split: if_splits option.splits prod.splits rust.splits)
    then show ?thesis using s m l by blast
  next
    case False
    have l: "912 \<le> length payload" "verify_peer_signature C pk (slice 16 848 payload) (slice 848 912 payload)"
      using assms s False m rekey_material(2) [of payload]
      by (auto simp: handle_ratchet_pdu_def Let_def parse_rekey_response_pdu_def REKEY_RESPONSE_BLOB_LEN_def split: if_splits)
    have "\<exists>s'. nd' = put_session nd fp (Some s')"
      using assms s False m l
      by (auto simp: handle_ratchet_pdu_def Let_def split: if_splits option.splits prod.splits)
    then show ?thesis using s m l by blast
  qed
qed

section \<open>A step between two nodes\<close>

lemma peers_new_epochs:
  assumes "seal_direction b' = peer_direction (seal_direction a')" and "sr_epoch ra = sr_epoch rb"
    and "se_ratchet a' = (new_epoch C ra rk)\<lparr>sr_steps := m\<rparr>" and "se_ratchet b' = (new_epoch C rb rk)\<lparr>sr_steps := n\<rparr>"
  shows "peers C a' b'"
  using assms chain_ok_seed by (cases rk) (auto simp: peers_def new_epoch_fields)

text \<open>An answered step can be finished, in whatever state the two chains are.\<close>

lemma answer_then_finish:
  assumes "kex_law C" and "hash_law C" and "peers C a b" and "se_pending_step a = Some (step_generate C xa dka)"
  obtains ans a2 rk where
    "answer_ratchet_step C b xb dkb rnd (rst_x_public (step_generate C xa dka)) (rst_kem_ek (step_generate C xa dka)) =
       Ok (b\<lparr>se_ratchet := prepared C (se_ratchet b) rk\<rparr>, Some ans)"
    and "length (ra_x_public ans) = 32" and "length (ra_kem_ct ans) = 768" and "length (ra_confirm ans) = 32"
    and "ra_epoch ans = sr_epoch (se_ratchet a) + 1"
    and "finish_ratchet_step C a t' ans = (a2, Some (sr_epoch (se_ratchet a) + 1))"
    and "se_ratchet a2 = (new_epoch C (se_ratchet a) rk)\<lparr>sr_steps := sr_steps (se_ratchet a) + 1\<rparr>" and "se_role a2 = se_role a"
proof -
  define st st' where "st = step_generate C xa dka" and "st' = step_generate C xb dkb"
  define ra rb where "ra = se_ratchet a" and "rb = se_ratchet b"
  obtain sec ct where resp: "step_respond C rnd st' (rst_x_public st) (rst_kem_ek st) = Some (sec, ct)" "length ct = 768"
    and fin: "step_finish C st (rst_x_public st') ct = Some sec"
    unfolding st_def st'_def by (rule hybrid_secrets [OF assms(1)])
  have eq: "sr_root_key rb = sr_root_key ra" "sr_epoch rb = sr_epoch ra" "seal_direction a = peer_direction (seal_direction b)"
    using assms(3) by (simp_all add: peers_def ra_def rb_def)
  define rk where "rk = kdf_rk_hybrid C (sr_root_key ra) (dh sec) (kem sec)"
  define ans where "ans = \<lparr>ra_x_public = rst_x_public st', ra_kem_ct = ct,
      ra_confirm = ratchet_confirm C (first_key C rb rk (seal_direction a)), ra_epoch = sr_epoch ra + 1\<rparr>"
  have "prepare_step C rb sec (seal_direction a) = Ok (prepared C rb rk, sr_epoch ra + 1, first_key C rb rk (seal_direction a))"
    by (simp add: prepare_step_def rk_def eq(1) prepare_epoch_prepared eq(2))
  then have answer: "answer_ratchet_step C b xb dkb rnd (rst_x_public st) (rst_kem_ek st) = Ok (b\<lparr>se_ratchet := prepared C rb rk\<rparr>, Some ans)"
    using resp eq(3) by (simp add: answer_ratchet_step_def Let_def st'_def [symmetric] ans_def rb_def)
  have fk: "first_key C rb rk d = first_key C ra rk d" for d using first_key_cong eq(2) by metis
  define a2 where "a2 = fst (apply_ratchet_step C (a\<lparr>se_pending_step := None\<rparr>) t' sec)"
  have "finish_ratchet_step C a t' ans = (a2, Some (sr_epoch ra + 1))"
    using finish_ratchet_step_eq [of a st C ans sec t'] fin fk assms(4)
    by (simp add: ans_def rk_def st_def [symmetric] ra_def a2_def)
  moreover have "se_ratchet a2 = (new_epoch C ra rk)\<lparr>sr_steps := sr_steps ra + 1\<rparr>" "se_role a2 = se_role a"
    by (simp_all add: a2_def apply_ratchet_step_def step_new_epoch Let_def ra_def [symmetric] rk_def)
  moreover have "length (ra_x_public ans) = 32" "length (ra_kem_ct ans) = 768" "length (ra_confirm ans) = 32"
    using resp(2) kex_lawD(1) [OF assms(1)] hash_lawD [OF assms(2)]
    by (simp_all add: ans_def st'_def step_generate_def ratchet_confirm_def)
  ultimately show thesis using that [of rk ans a2] answer by (simp add: ans_def st_def ra_def rb_def)
qed

text \<open>Sealing leaves a prepared epoch prepared.\<close>

lemma seal_prepared:
  assumes "se_ratchet s = prepared C r rk" and "ctx_from_session C s nonce = (s', ctx)"
  obtains r' where "se_ratchet s' = prepared C r' rk" and "sr_epoch r' = sr_epoch r" and "sr_steps r' = sr_steps r"
proof -
  define d where "d = seal_direction s"
  define r' where "r' = (upd_cur d (\<lambda>_. fst (advance C (cur_msg r d))) r)\<lparr>sr_frames_in_epoch := sr_frames_in_epoch r + 1\<rparr>"
  have "cur_msg (prepared C r rk) d = cur_msg r d" by simp
  then have "se_ratchet s' = prepared C r' rk"
    using assms
    by (cases rk; cases d)
      (auto simp: ctx_from_session_def seal_material_def advance_seal_def Let_def count_seal_def d_def [symmetric] prepared_def r'_def
        split: prod.splits if_splits)
  moreover have "sr_epoch r' = sr_epoch r" "sr_steps r' = sr_steps r" by (cases d; simp add: r'_def)+
  ultimately show thesis by (rule that)
qed

lemma identity_signer: "sig_law C \<Longrightarrow> signer (identity_sign C i)"
  by (simp add: signer_def identity_sign_def sig_lawD)

lemma identity_verifies: "sig_law C \<Longrightarrow> verify_peer_signature C (public_key_bytes C i) m (identity_sign C i m)"
  by (simp add: verify_peer_signature_def public_key_bytes_def identity_sign_def sig_lawD)

lemma rekey_pdu_lengths:
  assumes "signer sign"
  shows "length x = 32 \<Longrightarrow> length k = 800 \<Longrightarrow> length (build_rekey_pdu sign x k) = 912"
    and "length x = 32 \<Longrightarrow> length ct = 768 \<Longrightarrow> length c = 32 \<Longrightarrow> length (build_rekey_response_pdu sign x ct c) = 912"
  using signerD [OF assms] by (simp_all add: build_rekey_pdu_def build_rekey_response_pdu_def pdu_simps)

lemma step_answered:
  assumes laws: "kex_law C" "sig_law C" "xchacha_law C"
    and "nd_sessions B fp = Some b" and "se_peer_identity_pk b = Some (public_key_bytes C i)" and "\<not> se_ratchet_in_progress b"
    and "answer_ratchet_step C b (dr_x_secret dr) (dr_kem_dk dr) (dr_kem_rnd dr) (rst_x_public (step_generate C x dk))
           (rst_kem_ek (step_generate C x dk)) = Ok (b1, Some ans)"
    and "length (ra_x_public ans) = 32" and "length (ra_kem_ct ans) = 768" and "length (ra_confirm ans) = 32"
  obtains b2 ctx frame where "ctx_from_session C b1 (dr_nonce dr) = (b2, ctx)"
    and "seal_single C ctx (build_rekey_response_pdu (identity_sign C (nd_identity B)) (ra_x_public ans) (ra_kem_ct ans) (ra_confirm ans)) = Ok frame"
    and "handle_ratchet_pdu C t B dr fp
           (build_rekey_pdu (identity_sign C i) (rst_x_public (step_generate C x dk)) (rst_kem_ek (step_generate C x dk))) =
         Ok (True, put_session B fp (Some b2), [frame])"
proof -
  let ?st = "step_generate C x dk"
  let ?pdu = "build_rekey_response_pdu (identity_sign C (nd_identity B)) (ra_x_public ans) (ra_kem_ct ans) (ra_confirm ans)"
  have lens: "length (rst_x_public ?st) = 32" "length (rst_kem_ek ?st) = 800"
    using kex_lawD [OF laws(1)] by (simp_all add: step_generate_def)
  note parse = rekey_built [OF identity_signer [OF laws(2), of i] lens]
  obtain b2 ctx where ctx: "ctx_from_session C b1 (dr_nonce dr) = (b2, ctx)" by force
  obtain frame where fr: "seal_single C ctx ?pdu = Ok frame"
    by (rule seal_single_ok [OF laws(3), of ?pdu ctx]) (simp add: rekey_pdu_lengths [OF identity_signer [OF laws(2)]] assms(8-10))
  show thesis
    by (rule that [OF ctx fr])
      (use assms(4-7) ctx fr parse identity_verifies [OF laws(2)] in \<open>simp add: handle_ratchet_pdu_def admit_peer_step_def\<close>)
qed

text \<open>
  C7. A ratchet step run by the two nodes' handlers: the step the starter begins travels as a signed
  PDU, the other node answers it with one sealed frame and has the new epoch prepared, the signed
  answer in that frame completes the step at the starter, and when the other node activates the epoch
  the two sessions agree again, one epoch later. That the step and the answer were sealed in between
  does not matter.
\<close>

theorem nodes_complete_a_ratchet_step:
  assumes laws: "kex_law C" "sig_law C" "hash_law C" "xchacha_law C"
    and "nd_sessions A fpb = Some a" and "nd_sessions B fpa = Some b" and "peers C a b"
    and "se_peer_identity_pk a = Some (public_key_bytes C (nd_identity B))"
    and "se_peer_identity_pk b = Some (public_key_bytes C (nd_identity A))"
    and "\<not> se_ratchet_in_progress a" and "\<not> se_quantum_mix_in_progress a" and "\<not> se_ratchet_in_progress b"
    and "seal_pos a \<noteq> - 1" and "ek_valid (mlkem_public C dka)"
  shows "\<exists>a1 x k pdu a2 ctx step_frame b1 b2 ctx' pdu' frame a3 b3.
    begin_ratchet_step C a t0 xa dka = (a1, Some (x, k)) \<and>
    build_ratchet_step_pdu ek_valid (identity_sign C (nd_identity A)) x k = Some pdu \<and>
    ctx_from_session C a1 nonce = (a2, ctx) \<and> seal_single C ctx pdu = Ok step_frame \<and>
    handle_ratchet_pdu C t1 B dr fpa pdu = Ok (True, put_session B fpa (Some b2), [frame]) \<and>
    ctx_from_session C b1 (dr_nonce dr) = (b2, ctx') \<and> seal_single C ctx' pdu' = Ok frame \<and>
    handle_ratchet_pdu C t2 (put_session A fpb (Some a2)) dr' fpb pdu' = Ok (True, put_session A fpb (Some a3), []) \<and>
    sr_epoch (se_ratchet a3) = sr_epoch (se_ratchet a) + 1 \<and> sr_epoch (se_ratchet b2) = sr_epoch (se_ratchet a) \<and>
    activate_epoch b2 t3 (sr_epoch (se_ratchet a) + 1) = (b3, True) \<and> peers C a3 b3"
proof -
  let ?st = "step_generate C xa dka" and ?ia = "nd_identity A" and ?ib = "nd_identity B"
  define a1 where "a1 = a\<lparr>se_ratchet_in_progress := True, se_forced_ratchet_due := False, se_pending_step := Some ?st,
      se_ratchet_step_at := Some t0\<rparr>"
  have beg: "begin_ratchet_step C a t0 xa dka = (a1, Some (rst_x_public ?st, rst_kem_ek ?st))"
    using assms(10,11) by (simp add: begin_ratchet_step_def Let_def a1_def)
  let ?pdu = "build_rekey_pdu (identity_sign C ?ia) (rst_x_public ?st) (rst_kem_ek ?st)"
  have lens: "length (rst_x_public ?st) = 32" "length (rst_kem_ek ?st) = 800"
    using kex_lawD [OF laws(1)] by (simp_all add: step_generate_def)
  have built: "build_ratchet_step_pdu ek_valid (identity_sign C ?ia) (rst_x_public ?st) (rst_kem_ek ?st) = Some ?pdu"
    using assms(14) by (simp add: build_ratchet_step_pdu_def step_generate_def)
  obtain a2 ctx where ctx: "ctx_from_session C a1 nonce = (a2, ctx)" by force
  obtain step_frame where sf: "seal_single C ctx ?pdu = Ok step_frame"
    by (rule seal_single_ok [OF laws(4), of ?pdu ctx]) (simp add: rekey_pdu_lengths [OF identity_signer [OF laws(2)]] lens)
  have p1: "peers C a1 b" "seal_pos a1 \<noteq> - 1" using assms(7,13) by (simp_all add: peers_def a1_def seal_direction_def seal_pos_def)
  obtain m where m: "seal_material C a1 nonce = (a2, m)" using ctx by (auto simp: ctx_from_session_def split: prod.splits)
  have p2: "peers C a2 b" "same_session a1 a2" using seal_material_keeps(3) [OF m p1] seal_material_keeps(1) [OF m] by auto
  have "se_pending_step a2 = se_pending_step a1"
    using m by (auto simp: seal_material_def Let_def split: prod.splits if_splits)
  then have pend: "se_pending_step a2 = Some ?st" "sr_epoch (se_ratchet a2) = sr_epoch (se_ratchet a)"
    "se_role a2 = se_role a" "se_peer_identity_pk a2 = Some (public_key_bytes C ?ib)"
    using p2 p1(1) assms(7,8) by (simp_all add: a1_def same_session_def peers_def)
  obtain ans a3 rk where ans: "answer_ratchet_step C b (dr_x_secret dr) (dr_kem_dk dr) (dr_kem_rnd dr) (rst_x_public ?st) (rst_kem_ek ?st) =
       Ok (b\<lparr>se_ratchet := prepared C (se_ratchet b) rk\<rparr>, Some ans)"
    "length (ra_x_public ans) = 32" "length (ra_kem_ct ans) = 768" "length (ra_confirm ans) = 32"
    "ra_epoch ans = sr_epoch (se_ratchet a2) + 1" "finish_ratchet_step C a2 t2 ans = (a3, Some (sr_epoch (se_ratchet a2) + 1))"
    "se_ratchet a3 = (new_epoch C (se_ratchet a2) rk)\<lparr>sr_steps := sr_steps (se_ratchet a2) + 1\<rparr>" "se_role a3 = se_role a2"
    by (rule answer_then_finish [OF laws(1,3) p2(1) pend(1)])
  define b1 where "b1 = b\<lparr>se_ratchet := prepared C (se_ratchet b) rk\<rparr>"
  let ?pdu' = "build_rekey_response_pdu (identity_sign C ?ib) (ra_x_public ans) (ra_kem_ct ans) (ra_confirm ans)"
  note parse' = rekey_response_built [OF identity_signer [OF laws(2), of ?ib] ans(2-4)]
  obtain b2 ctx' frame where ctx': "ctx_from_session C b1 (dr_nonce dr) = (b2, ctx')" and fr: "seal_single C ctx' ?pdu' = Ok frame"
    and hb: "handle_ratchet_pdu C t1 B dr fpa ?pdu = Ok (True, put_session B fpa (Some b2), [frame])"
    by (rule step_answered [OF laws(1,2,4) assms(6,9,12) ans(1-4) [folded b1_def]])
  have "\<not> starts_with REKEY_MAGIC ?pdu'" "starts_with REKEY_RESPONSE_MAGIC ?pdu'"
    using parse'(2) magics_distinct by auto
  then have ha: "handle_ratchet_pdu C t2 (put_session A fpb (Some a2)) dr' fpb ?pdu' = Ok (True, put_session A fpb (Some a3), [])"
    using pend(4) ans(5,6) parse'(1) identity_verifies [OF laws(2)]
    by (simp add: handle_ratchet_pdu_def) (cases ans, simp)
  obtain r' where b2: "se_ratchet b2 = prepared C r' rk" "sr_epoch r' = sr_epoch (se_ratchet b)"
    by (rule seal_prepared [OF _ ctx', of "se_ratchet b" rk]) (simp_all add: b1_def)
  obtain b3 where act: "activate_epoch b2 t3 (sr_epoch r' + 1) = (b3, True)"
    "se_ratchet b3 = (new_epoch C r' rk)\<lparr>sr_steps := sr_steps r' + 1\<rparr>" "se_role b3 = se_role b2"
    using activate_epoch_prepared [OF b2(1), of t3] by blast
  have ep: "sr_epoch r' = sr_epoch (se_ratchet a)" using b2(2) assms(7) by (simp add: peers_def)
  have "se_role b2 = se_role b" using ctx_same_session [OF ctx'] by (simp add: same_session_def b1_def)
  then have "seal_direction b3 = peer_direction (seal_direction a3)"
    using assms(7) act(3) ans(8) pend(3) by (simp add: peers_def seal_direction_def)
  then have ok: "peers C a3 b3" by (rule peers_new_epochs [OF _ _ ans(7) act(2)]) (simp add: ep pend(2))
  have e3: "sr_epoch (se_ratchet a3) = sr_epoch (se_ratchet a) + 1" using ans(7) pend(2) by (cases rk) (simp add: new_epoch_fields)
  have e2: "sr_epoch (se_ratchet b2) = sr_epoch (se_ratchet a)" using b2(1) ep by simp
  show ?thesis using beg built ctx sf hb ctx' fr ha e3 e2 act(1) [unfolded ep] ok by (intro exI conjI) assumption+
qed

definition demo_ra :: session where
  "demo_ra = pin_peer_identity demo_a (public_key_bytes demo_crates (from_seeds [2] [2]))"

definition demo_rb :: session where
  "demo_rb = pin_peer_identity demo_b (public_key_bytes demo_crates (from_seeds [1] [1]))"

definition demo_na :: node where "demo_na = put_session (demo_node [1]) [2] (Some demo_ra)"
definition demo_nb :: node where "demo_nb = put_session (demo_node [2]) [1] (Some demo_rb)"

definition demo_draw :: draw where
  "demo_draw = \<lparr>dr_x_secret = [6], dr_kem_dk = [7], dr_kem_rnd = [8], dr_nonce = zeros 12\<rparr>"

lemma demo_ratchet:
  "nd_sessions demo_na [2] = Some demo_ra" "nd_sessions demo_nb [1] = Some demo_rb" "peers demo_crates demo_ra demo_rb"
  "se_peer_identity_pk demo_ra = Some (public_key_bytes demo_crates (nd_identity demo_nb))"
  "se_peer_identity_pk demo_rb = Some (public_key_bytes demo_crates (nd_identity demo_na))"
  "\<not> se_ratchet_in_progress demo_ra" "\<not> se_quantum_mix_in_progress demo_ra" "\<not> se_ratchet_in_progress demo_rb"
  "seal_pos demo_ra \<noteq> - 1"
proof -
  show "peers demo_crates demo_ra demo_rb"
    using demo_peers(1) by (simp add: peers_def demo_ra_def demo_rb_def pin_peer_identity_def seal_direction_def)
  have "mc_pos (cur_msg (se_ratchet demo_a) d) = 0" for d
    using cur_msg_new [of demo_crates "[9]" d] by (auto simp: demo_a_def new_with_role_def msg_chain_seed_def)
  then show "seal_pos demo_ra \<noteq> - 1" by (simp add: seal_pos_def demo_ra_def pin_peer_identity_def seal_direction_def)
qed (simp_all add: demo_na_def demo_nb_def demo_ra_def demo_rb_def demo_node_def pin_peer_identity_def demo_a_def demo_b_def new_with_role_def)

theorem nodes_complete_a_ratchet_step_witness:
  "\<exists>a1 x k pdu b2 frame. begin_ratchet_step demo_crates demo_ra 0 [3] [4] = (a1, Some (x, k)) \<and>
     build_ratchet_step_pdu (\<lambda>_. True) (identity_sign demo_crates (nd_identity demo_na)) x k = Some pdu \<and>
     handle_ratchet_pdu demo_crates 0 demo_nb demo_draw [1] pdu = Ok (True, put_session demo_nb [1] (Some b2), [frame]) \<and>
     sr_epoch (se_ratchet b2) = sr_epoch (se_ratchet demo_ra)"
  using nodes_complete_a_ratchet_step [OF demo_laws(5,7,3,1) demo_ratchet, of "\<lambda>_. True" "[4]" 0 "[3]" "zeros 12" 0 demo_draw 0 demo_draw 0]
  by blast

theorem ratchet_pdus_need_the_pinned_signature_witness:
  "\<exists>nd' frame pk. handle_ratchet_pdu demo_crates 0 demo_nb demo_draw [1]
       (build_rekey_pdu (identity_sign demo_crates (nd_identity demo_na)) (rst_x_public (step_generate demo_crates [3] [4]))
          (rst_kem_ek (step_generate demo_crates [3] [4]))) = Ok (True, nd', [frame]) \<and>
     se_peer_identity_pk demo_rb = Some pk \<and>
     verify_peer_signature demo_crates pk
       (slice 16 848 (build_rekey_pdu (identity_sign demo_crates (nd_identity demo_na)) (rst_x_public (step_generate demo_crates [3] [4]))
          (rst_kem_ek (step_generate demo_crates [3] [4]))))
       (slice 848 912 (build_rekey_pdu (identity_sign demo_crates (nd_identity demo_na)) (rst_x_public (step_generate demo_crates [3] [4]))
          (rst_kem_ek (step_generate demo_crates [3] [4]))))"
proof -
  let ?st = "step_generate demo_crates [3] [4]"
  let ?pdu = "build_rekey_pdu (identity_sign demo_crates (nd_identity demo_na)) (rst_x_public ?st) (rst_kem_ek ?st)"
  define a1 where "a1 = demo_ra\<lparr>se_pending_step := Some ?st\<rparr>"
  have "peers demo_crates a1 demo_rb" using demo_ratchet(3) by (simp add: a1_def peers_def seal_direction_def)
  moreover have "se_pending_step a1 = Some ?st" by (simp add: a1_def)
  ultimately obtain ans b1 where ans: "answer_ratchet_step demo_crates demo_rb (dr_x_secret demo_draw) (dr_kem_dk demo_draw) (dr_kem_rnd demo_draw)
      (rst_x_public ?st) (rst_kem_ek ?st) = Ok (b1, Some ans)"
    "length (ra_x_public ans) = 32" "length (ra_kem_ct ans) = 768" "length (ra_confirm ans) = 32"
    by (rule answer_then_finish [OF demo_laws(5,3)])
  obtain b2 frame where h: "handle_ratchet_pdu demo_crates 0 demo_nb demo_draw [1] ?pdu = Ok (True, put_session demo_nb [1] (Some b2), [frame])"
    by (rule step_answered [OF demo_laws(5,7,1) demo_ratchet(2,5,8) ans])
  show ?thesis using ratchet_pdus_need_the_pinned_signature [OF h] h demo_ratchet(2) by auto
qed

end
