(* ===== verification/ShardSec.thy ===== *)
theory ShardSec
  imports L2_Aead L4_RS
begin

unbundle bit_operations_syntax

text \<open>
  ShardSec, src/src/ghost/net/shardsec.rs: a message is framed with its length, erasure-coded, and
  each shard sealed under its own key; any two authenticated shards give the message back. Also the
  honey shards, the temporal dispatch schedule and the spatio-temporal erosion codec of the same
  file.
\<close>

section \<open>Sealed shards\<close>

definition SHARDSEC_LABEL :: bytes where "SHARDSEC_LABEL = ascii ''GGN_SHARDSEC_V1''"
definition HONEY_TRAP_LABEL :: bytes where "HONEY_TRAP_LABEL = ascii ''GGN_HONEY_TRAP_KEY_V1''"

record sealed_shard =
  ss_index :: u8
  ss_ciphertext :: bytes
  ss_tag :: bytes
  ss_is_honey :: bool

definition shard_key :: "crates \<Rightarrow> bytes \<Rightarrow> u64 \<Rightarrow> bytes \<Rightarrow> u8 \<Rightarrow> bytes" where
  "shard_key C master epoch nonce index =
     hkdf_sha256 C master [] (SHARDSEC_LABEL @ be_u64 epoch @ nonce @ [index]) 32"

definition shard_nonce :: "bytes \<Rightarrow> u8 \<Rightarrow> bytes" where
  "shard_nonce base index = base[11 := base ! 11 XOR index]"

definition seal_shard ::
  "crates \<Rightarrow> bytes \<Rightarrow> u64 \<Rightarrow> bytes \<Rightarrow> nonce_direction \<Rightarrow> u8 \<Rightarrow> bytes \<Rightarrow> sealed_shard" where
  "seal_shard C master epoch nonce direction index shard =
     (let key = shard_key C master epoch nonce index;
          sn = shard_nonce nonce index;
          shard = xchacha_seal_in_place C key sn epoch direction shard
      in \<lparr>ss_index = index, ss_ciphertext = take (length shard - 16) shard,
          ss_tag = drop (length shard - 16) shard, ss_is_honey = False\<rparr>)"

text \<open>The \<open>trap_master\<close> loop of the two honey functions.\<close>

definition trap_master :: "bytes \<Rightarrow> bytes" where
  "trap_master master =
     foldl (\<lambda>m (i, b). m[i mod 32 := m ! (i mod 32) XOR b]) master (enumerate 0 HONEY_TRAP_LABEL)"

definition seal_honey_shard ::
  "crates \<Rightarrow> bytes \<Rightarrow> u64 \<Rightarrow> bytes \<Rightarrow> nonce_direction \<Rightarrow> u8 \<Rightarrow> bytes \<Rightarrow> sealed_shard" where
  "seal_honey_shard C master epoch nonce direction index shard =
     (let key = shard_key C (trap_master master) epoch nonce index;
          sn = shard_nonce nonce index;
          shard = xchacha_seal_in_place C key sn epoch direction shard
      in \<lparr>ss_index = index, ss_ciphertext = take (length shard - 16) shard,
          ss_tag = drop (length shard - 16) shard, ss_is_honey = True\<rparr>)"

definition verify_honey_shard ::
  "crates \<Rightarrow> bytes \<Rightarrow> u64 \<Rightarrow> bytes \<Rightarrow> nonce_direction \<Rightarrow> sealed_shard \<Rightarrow> bool" where
  "verify_honey_shard C master epoch nonce direction honey =
     (if \<not> ss_is_honey honey \<or> ss_index honey \<ge> 3 then False
      else
        (let key = shard_key C (trap_master master) epoch nonce (ss_index honey);
             sn = shard_nonce nonce (ss_index honey);
             ciphertext = ss_ciphertext honey @ ss_tag honey
         in xchacha_open C key sn epoch direction ciphertext \<noteq> None))"

definition open_shard ::
  "crates \<Rightarrow> bytes \<Rightarrow> u64 \<Rightarrow> bytes \<Rightarrow> nonce_direction \<Rightarrow> sealed_shard \<Rightarrow> (bytes, string) rust" where
  "open_shard C master epoch nonce direction sealed =
     (if ss_index sealed \<ge> 3 then Err ''invalid shard index''
      else
        (let key = shard_key C master epoch nonce (ss_index sealed);
             sn = shard_nonce nonce (ss_index sealed);
             ciphertext = ss_ciphertext sealed @ ss_tag sealed
         in case xchacha_open C key sn epoch direction ciphertext of
              Some pt \<Rightarrow> Ok pt
            | None \<Rightarrow> Err ''shard authentication failed''))"

section \<open>Messages\<close>

text \<open>The length-prefixed frame, padded to even length.\<close>

definition frame_message :: "bytes \<Rightarrow> bytes" where
  "frame_message plaintext =
     (let framed = be_u16 (of_nat (length plaintext)) @ plaintext
      in if length framed mod 2 \<noteq> 0 then framed @ [0] else framed)"

definition seal_message ::
  "crates \<Rightarrow> bytes \<Rightarrow> u64 \<Rightarrow> bytes \<Rightarrow> nonce_direction \<Rightarrow> bytes \<Rightarrow> (sealed_shard list, unit) rust" where
  "seal_message C master epoch nonce direction plaintext =
     (case rs_encode C (frame_message plaintext) of
        Ok (_, shards) \<Rightarrow>
          Ok (map (\<lambda>(index, shard). seal_shard C master epoch nonce direction (of_nat index) shard)
                (enumerate 0 shards))
      | _ \<Rightarrow> Panic)"

text \<open>One turn of the candidate loop of \<open>open_message\<close>.\<close>

definition collect_shard ::
  "crates \<Rightarrow> bytes \<Rightarrow> u64 \<Rightarrow> bytes \<Rightarrow> nonce_direction \<Rightarrow> bytes option list \<Rightarrow> sealed_shard \<Rightarrow>
   bytes option list" where
  "collect_shard C master epoch nonce direction shards candidate =
     (if ss_index candidate \<ge> 3 \<or> shards ! unat (ss_index candidate) \<noteq> None then shards
      else case open_shard C master epoch nonce direction candidate of
             Ok plaintext \<Rightarrow> shards[unat (ss_index candidate) := Some plaintext]
           | _ \<Rightarrow> shards)"

text \<open>
  The common tail of \<open>open_message\<close> and \<open>reconstruct_space_time\<close>, which differ in their error
  texts only: count, reconstruct, concatenate, read the length, cut.
\<close>

definition assemble ::
  "crates \<Rightarrow> string \<Rightarrow> string \<Rightarrow> string \<Rightarrow> string \<Rightarrow> string \<Rightarrow> bytes option list \<Rightarrow> (bytes, string) rust" where
  "assemble C e_few e_first e_second e_trunc e_len shards =
     (if length (filter (\<lambda>s. s \<noteq> None) shards) < 2 then Err e_few
      else
        (case reconstruct C shards of
           Err _ \<Rightarrow> Err ''Reed-Solomon reconstruction failed''
         | Panic \<Rightarrow> Panic
         | Ok shards \<Rightarrow>
             (case shards ! 0 of
                None \<Rightarrow> Err e_first
              | Some first \<Rightarrow>
                  (case shards ! 1 of
                     None \<Rightarrow> Err e_second
                   | Some second \<Rightarrow>
                       (let framed = first @ second
                        in if length framed < 2 then Err e_trunc
                           else
                             (let len = unat (u16_be [framed ! 0, framed ! 1])
                              in if len + 2 > length framed then Err e_len
                                 else Ok (drop 2 (take (len + 2) framed))))))))"

definition open_message ::
  "crates \<Rightarrow> bytes \<Rightarrow> u64 \<Rightarrow> bytes \<Rightarrow> nonce_direction \<Rightarrow> sealed_shard option list \<Rightarrow>
   (bytes, string) rust" where
  "open_message C master epoch nonce direction sealed =
     (if length sealed \<noteq> 3 then Err ''ShardSec requires exactly three shard slots''
      else
        (let shards = foldl (collect_shard C master epoch nonce direction) [None, None, None]
                        (List.map_filter id sealed)
         in assemble C ''fewer than two authenticated shards'' ''missing reconstructed shard''
              ''missing reconstructed shard'' ''reconstructed payload is truncated''
              ''reconstructed payload length is invalid'' shards))"

section \<open>Temporal dispatch\<close>

record scheduled_shard =
  sd_shard :: sealed_shard
  sd_delay_ms :: u64

record temporal_shard_scheduler =
  ts_base_delay_ms :: u64
  ts_jitter_ms :: u64

definition scheduler_default :: temporal_shard_scheduler where
  "scheduler_default = \<lparr>ts_base_delay_ms = 200, ts_jitter_ms = 0\<rparr>"

definition scheduler_new :: "u64 \<Rightarrow> temporal_shard_scheduler" where
  "scheduler_new base_delay_ms = \<lparr>ts_base_delay_ms = base_delay_ms, ts_jitter_ms = 0\<rparr>"

text \<open>\<open>max(1) + 1\<close> wraps to 0 for the largest base delay, and the remainder then panics.\<close>

definition schedule ::
  "temporal_shard_scheduler \<Rightarrow> sealed_shard list \<Rightarrow> (scheduled_shard list, unit) rust" where
  "schedule sc shards =
     (let m = max (ts_base_delay_ms sc) 1 + 1
      in if shards \<noteq> [] \<and> m = 0 then Panic
         else Ok (map (\<lambda>(i, shard). \<lparr>sd_shard = shard,
                        sd_delay_ms = of_nat i * ts_base_delay_ms sc + ts_jitter_ms sc mod m\<rparr>)
                    (enumerate 0 shards)))"

definition intercept_window ::
  "scheduled_shard list \<Rightarrow> u64 \<Rightarrow> u64 \<Rightarrow> sealed_shard option list" where
  "intercept_window scheduled window_start_ms window_end_ms =
     foldl (\<lambda>captured s.
        if sd_delay_ms s \<ge> window_start_ms \<and> sd_delay_ms s \<le> window_end_ms \<and>
           unat (ss_index (sd_shard s)) < 3
        then captured[unat (ss_index (sd_shard s)) := Some (sd_shard s)] else captured)
       [None, None, None] scheduled"

section \<open>Spatio-temporal erosion\<close>

record space_time_shard =
  st_index :: u8
  st_epoch_slot :: u64
  st_sealed_shard :: sealed_shard

definition encode_space_time ::
  "crates \<Rightarrow> bytes list \<Rightarrow> u64 \<Rightarrow> bytes \<Rightarrow> nonce_direction \<Rightarrow> bytes \<Rightarrow>
   (space_time_shard list, unit) rust" where
  "encode_space_time C epoch_master_keys base_epoch nonce direction plaintext =
     (case rs_encode C (frame_message plaintext) of
        Ok (_, shards) \<Rightarrow>
          Ok (map (\<lambda>(i, shard).
                let epoch = base_epoch + of_nat i
                in \<lparr>st_index = of_nat i, st_epoch_slot = epoch,
                    st_sealed_shard = seal_shard C (epoch_master_keys ! i) epoch nonce direction (of_nat i) shard\<rparr>)
                (enumerate 0 shards))
      | _ \<Rightarrow> Panic)"

definition collect_space_time ::
  "crates \<Rightarrow> bytes option list \<Rightarrow> bytes \<Rightarrow> nonce_direction \<Rightarrow> bytes option list \<Rightarrow> space_time_shard \<Rightarrow>
   bytes option list" where
  "collect_space_time C available_epoch_keys nonce direction opened st =
     (let idx = unat (st_index st)
      in if idx \<ge> 3 then opened
         else case available_epoch_keys ! idx of
                None \<Rightarrow> opened
              | Some key \<Rightarrow>
                  (case open_shard C key (st_epoch_slot st) nonce direction (st_sealed_shard st) of
                     Ok pt \<Rightarrow> opened[idx := Some pt]
                   | _ \<Rightarrow> opened))"

definition reconstruct_space_time ::
  "crates \<Rightarrow> bytes option list \<Rightarrow> u64 \<Rightarrow> bytes \<Rightarrow> nonce_direction \<Rightarrow> space_time_shard list \<Rightarrow>
   (bytes, string) rust" where
  "reconstruct_space_time C available_epoch_keys base_epoch nonce direction shards =
     assemble C ''spatio-temporal erosion: fewer than 2 valid epoch keys available''
       ''missing shard 0'' ''missing shard 1'' ''truncated payload'' ''invalid payload length''
       (foldl (collect_space_time C available_epoch_keys nonce direction) [None, None, None] shards)"

section \<open>Sealing and opening one shard\<close>

lemma seal_shard_wire:
  "ss_ciphertext (seal_shard C m e n d i s) @ ss_tag (seal_shard C m e n d i s) =
     xchacha_seal_in_place C (shard_key C m e n i) (shard_nonce n i) e d s"
  "ss_index (seal_shard C m e n d i s) = i"
  by (simp_all add: seal_shard_def Let_def)

lemma open_seal_shard:
  assumes "xchacha_law C"
  shows "open_shard C m e n d (seal_shard C m e n d i s) =
    (if 3 \<le> i then Err ''invalid shard index'' else Ok s)"
  by (simp add: open_shard_def seal_shard_wire Let_def)
    (simp add: xchacha_open_def xchacha_open_with_aad_def xchacha_seal_in_place_def
      xchacha_seal_in_place_with_aad_def xchacha_lawD [OF assms])

lemma u8_ge3: "(3 \<le> (i :: u8)) = (3 \<le> unat i)"
  by (simp add: word_le_nat_alt)

section \<open>Collecting shards\<close>

text \<open>
  A slot vector of a message with the three plain shards \<open>rs\<close>: each slot is empty or holds its
  shard. Collecting a candidate that does not open to anything but its own shard keeps this and
  adds its index when it opens.
\<close>

definition slots_of :: "bytes list \<Rightarrow> bytes option list \<Rightarrow> bool" where
  "slots_of rs s \<longleftrightarrow> length s = 3 \<and> (\<forall>i < 3. s ! i = None \<or> s ! i = Some (rs ! i))"

definition filled :: "bytes option list \<Rightarrow> nat set" where
  "filled s = {i. i < 3 \<and> s ! i \<noteq> None}"

definition opens_as :: "bytes list \<Rightarrow> ('a \<Rightarrow> nat) \<Rightarrow> ('a \<Rightarrow> bytes option) \<Rightarrow> 'a \<Rightarrow> bool" where
  "opens_as rs idx opn c \<longleftrightarrow> (\<forall>pt. opn c = Some pt \<longrightarrow> idx c < 3 \<and> pt = rs ! idx c)"

lemma slots_of_none: "slots_of rs [None, None, None]" "filled [None, None, None] = {}"
proof -
  have "[None, None, None] ! i = (None :: bytes option)" if "i < 3" for i
    using that by (simp add: nth_Cons split: nat.split)
  then show "slots_of rs [None, None, None]" "filled [None, None, None] = {}"
    by (auto simp: slots_of_def filled_def)
qed

lemma slots_of_update:
  assumes "slots_of rs s" and "i < 3"
  shows "slots_of rs (s[i := Some (rs ! i)])" and "filled (s[i := Some (rs ! i)]) = insert i (filled s)"
  using assms by (auto simp: slots_of_def filled_def nth_list_update)

lemma collect_all:
  assumes "\<And>s c. c \<in> set cs \<Longrightarrow> slots_of rs s \<Longrightarrow>
      slots_of rs (f s c) \<and> filled (f s c) = filled s \<union> (case opn c of None \<Rightarrow> {} | Some _ \<Rightarrow> {idx c})"
    and "slots_of rs s"
  shows "slots_of rs (foldl f s cs) \<and>
    filled (foldl f s cs) = filled s \<union> {idx c |c. c \<in> set cs \<and> opn c \<noteq> None}"
  using assms
proof (induction cs arbitrary: s)
  case (Cons c cs)
  have "slots_of rs (f s c)" "filled (f s c) = filled s \<union> (case opn c of None \<Rightarrow> {} | Some _ \<Rightarrow> {idx c})"
    using Cons.prems(1) [of c s] Cons.prems(2) by simp_all
  then show ?case using Cons.IH [of "f s c"] Cons.prems(1)
    by (auto split: option.splits)
qed simp

lemma filled_finite: "finite (filled s)"
  by (rule finite_subset [of _ "{0..<3}"]) (auto simp: filled_def)

text \<open>The plain shards of a framed message.\<close>

definition coded :: "crates \<Rightarrow> bytes \<Rightarrow> bytes list \<Rightarrow> bool" where
  "coded C m rs \<longleftrightarrow> (\<exists>d0 d1 p. rs = [d0, d1, p] \<and> d0 @ d1 = frame_message m \<and> length d0 = length d1 \<and>
     d0 \<noteq> [] \<and> rs_encode_sep C d0 d1 = Some p)"

lemma frame_message_even: "frame_message m \<noteq> []" "padded_even (frame_message m) = frame_message m"
proof -
  have "length (be_u16 (of_nat (length m)) @ m) = Suc (Suc (length m))" by simp
  then show "frame_message m \<noteq> []" unfolding frame_message_def Let_def by (auto simp del: length_be)
  show "padded_even (frame_message m) = frame_message m"
    by (simp add: frame_message_def Let_def padded_even_def) presburger
qed

lemma encode_coded:
  assumes "rs_law C"
  obtains rs where "rs_encode C (frame_message m) = Ok (frame_message m, rs)" and "coded C m rs" and "length rs = 3"
  by (rule rs_encode_ok [OF assms frame_message_even(1) [of m]])
    (use that in \<open>auto simp: frame_message_even coded_def\<close>)

lemma frame_message_read:
  "unat (u16_be [frame_message m ! 0, frame_message m ! 1]) = length m mod 65536"
  "length m mod 65536 + 2 \<le> length (frame_message m)"
  "drop 2 (take (length m mod 65536 + 2) (frame_message m)) = take (length m mod 65536) m"
proof -
  let ?h = "be_u16 (of_nat (length m))"
  obtain x y where h: "?h = [x, y]" by (simp add: be_u16_def numeral_2_eq_2)
  have f: "frame_message m = x # y # m @ (if length m mod 2 = 0 then [] else [0])"
    by (auto simp: frame_message_def h Let_def mod_Suc split: if_splits)
  have "u16_be [x, y] = of_nat (length m)" using be_roundtrip(1) h by metis
  then show "unat (u16_be [frame_message m ! 0, frame_message m ! 1]) = length m mod 65536"
    by (simp add: f unat_of_nat)
  have "length m mod 65536 \<le> length m" by simp
  then show "length m mod 65536 + 2 \<le> length (frame_message m)"
    "drop 2 (take (length m mod 65536 + 2) (frame_message m)) = take (length m mod 65536) m"
    unfolding f by simp_all
qed

text \<open>The tail on a slot vector of a framed message.\<close>

lemma assemble_coded:
  assumes "rs_law C" and "coded C m rs" and "slots_of rs s"
  shows "assemble C e1 e2 e3 e4 e5 s =
    (if card (filled s) < 2 then Err e1 else Ok (take (length m mod 65536) m))"
proof -
  have cnt: "length (filter (\<lambda>s. s \<noteq> None) s) = card (filled s)"
    using assms(3) by (simp add: length_filter_conv_card filled_def slots_of_def del: not_None_eq)
  show ?thesis
  proof (cases "card (filled s) < 2")
    case False
    obtain d0 d1 p where c: "rs = [d0, d1, p]" "d0 @ d1 = frame_message m" "length d0 = length d1"
      "d0 \<noteq> []" "rs_encode_sep C d0 d1 = Some p"
      using assms(2) by (auto simp: coded_def)
    obtain s' where s': "reconstruct C s = Ok s'" "s' ! 0 = Some d0" "s' ! 1 = Some d1"
      by (rule reconstruct_available [OF assms(1) c(4,3,5), of s])
        (use assms(3) False c(1) in \<open>auto simp: slots_of_def filled_def\<close>)
    have "2 \<le> length (frame_message m)" using frame_message_read(2) [of m] by simp
    then show ?thesis
      using False s' c(2) frame_message_read [of m]
      by (simp add: assemble_def cnt Let_def del: not_None_eq)
  qed (simp add: assemble_def cnt del: not_None_eq)
qed

text \<open>The plaintext of a candidate, where it opens, and the two collecting loops.\<close>

definition opened :: "crates \<Rightarrow> bytes \<Rightarrow> u64 \<Rightarrow> bytes \<Rightarrow> nonce_direction \<Rightarrow> sealed_shard \<Rightarrow> bytes option" where
  "opened C k e n d c = (case open_shard C k e n d c of Ok pt \<Rightarrow> Some pt | _ \<Rightarrow> None)"

lemma opened_index: "opened C k e n d c = Some pt \<Longrightarrow> unat (ss_index c) < 3"
  by (auto simp: opened_def open_shard_def u8_ge3 split: if_splits)

lemma opened_seal: "xchacha_law C \<Longrightarrow> i < 3 \<Longrightarrow> opened C k e n d (seal_shard C k e n d (of_nat i) s) = Some s"
  by (simp add: opened_def open_seal_shard u8_ge3 unat_of_nat)

lemma collect_shard_step:
  assumes "\<And>pt. opened C k e n d c = Some pt \<Longrightarrow> pt = rs ! unat (ss_index c)" and "slots_of rs s"
  shows "slots_of rs (collect_shard C k e n d s c) \<and>
    filled (collect_shard C k e n d s c) =
      filled s \<union> (case opened C k e n d c of None \<Rightarrow> {} | Some _ \<Rightarrow> {unat (ss_index c)})"
proof (cases "opened C k e n d c")
  case None
  then have "collect_shard C k e n d s c = s"
    by (auto simp: collect_shard_def opened_def split: rust.splits)
  then show ?thesis using None assms(2) by simp
next
  case (Some pt)
  then have o: "open_shard C k e n d c = Ok pt" by (simp add: opened_def split: rust.splits)
  have i: "unat (ss_index c) < 3" and pt: "pt = rs ! unat (ss_index c)"
    using Some opened_index assms(1) by blast+
  show ?thesis
  proof (cases "s ! unat (ss_index c) = None")
    case True
    then have "collect_shard C k e n d s c = s[unat (ss_index c) := Some (rs ! unat (ss_index c))]"
      using o i pt by (simp add: collect_shard_def u8_ge3)
    then show ?thesis using Some slots_of_update [OF assms(2) i] by simp
  next
    case False
    then have "collect_shard C k e n d s c = s" "unat (ss_index c) \<in> filled s"
      using i by (auto simp: collect_shard_def filled_def)
    then show ?thesis using Some assms(2) by auto
  qed
qed

lemma enumerate_shards:
  assumes "length rs = 3" and "i < 3"
  shows "map f (enumerate 0 rs) ! i = f (i, rs ! i)"
  using assms by (simp add: nth_enumerate_eq)

text \<open>
  Opening a message from three slots, where whatever is not one of the sealed shards fails to
  authenticate: the message (its length modulo 65536) from any two genuine shards, an error
  otherwise.
\<close>

lemma open_message_spec:
  assumes "xchacha_law C" and "rs_law C"
  shows "\<exists>S. seal_message C k e n d m = Ok S \<and> length S = 3 \<and> (\<forall>i < 3. unat (ss_index (S ! i)) = i) \<and>
    (\<forall>slots. length slots = 3 \<longrightarrow>
       (\<forall>c. Some c \<in> set slots \<longrightarrow> c \<in> set S \<or> opened C k e n d c = None) \<longrightarrow>
       open_message C k e n d slots =
         (if card {i. i < 3 \<and> Some (S ! i) \<in> set slots} < 2 then Err ''fewer than two authenticated shards''
          else Ok (take (length m mod 65536) m)))"
proof -
  obtain rs where rs: "rs_encode C (frame_message m) = Ok (frame_message m, rs)" "coded C m rs" "length rs = 3"
    by (rule encode_coded [OF assms(2)])
  define S where "S = map (\<lambda>(i, s). seal_shard C k e n d (of_nat i) s) (enumerate 0 rs)"
  have len: "length S = 3" using rs(3) by (simp add: S_def)
  have nth: "S ! i = seal_shard C k e n d (of_nat i) (rs ! i)" if "i < 3" for i
    using enumerate_shards [OF rs(3) that, of "\<lambda>(i, s). seal_shard C k e n d (of_nat i) s"] by (simp add: S_def)
  have idx: "unat (ss_index (S ! i)) = i" "opened C k e n d (S ! i) = Some (rs ! i)" if "i < 3" for i
    using that by (simp_all add: nth seal_shard_wire unat_of_nat opened_seal [OF assms(1)])
  have "open_message C k e n d slots =
      (if card {i. i < 3 \<and> Some (S ! i) \<in> set slots} < 2 then Err ''fewer than two authenticated shards''
       else Ok (take (length m mod 65536) m))"
    if l: "length slots = 3" and g: "\<And>c. Some c \<in> set slots \<Longrightarrow> c \<in> set S \<or> opened C k e n d c = None" for slots
  proof -
    let ?cs = "List.map_filter id slots"
    have cs: "set ?cs = {c. Some c \<in> set slots}" by (force simp: List.map_filter_def image_iff)
    have gen: "\<exists>i < 3. c = S ! i" if "Some c \<in> set slots" "opened C k e n d c \<noteq> None" for c
      using g [OF that(1)] that(2) len by (auto simp: in_set_conv_nth)
    have c: "slots_of rs (foldl (collect_shard C k e n d) [None, None, None] ?cs) \<and>
        filled (foldl (collect_shard C k e n d) [None, None, None] ?cs) =
          {} \<union> {unat (ss_index c) |c. c \<in> set ?cs \<and> opened C k e n d c \<noteq> None}"
      unfolding slots_of_none(2) [symmetric]
    proof (rule collect_all [OF _ slots_of_none(1)])
      fix s c
      assume "c \<in> set ?cs" and "slots_of rs s"
      then show "slots_of rs (collect_shard C k e n d s c) \<and> filled (collect_shard C k e n d s c) =
          filled s \<union> (case opened C k e n d c of None \<Rightarrow> {} | Some _ \<Rightarrow> {unat (ss_index c)})"
        using gen [of c] idx by (intro collect_shard_step) (auto simp: cs)
    qed
    have "{unat (ss_index c) |c. c \<in> set ?cs \<and> opened C k e n d c \<noteq> None} =
        {i. i < 3 \<and> Some (S ! i) \<in> set slots}"
      using gen idx by (fastforce simp: cs)
    then show ?thesis using c l assemble_coded [OF assms(2) rs(2)] by (simp add: open_message_def Let_def)
  qed
  moreover have "seal_message C k e n d m = Ok S" by (simp add: seal_message_def rs(1) S_def)
  ultimately show ?thesis using len idx(1) by blast
qed

lemma reconstruct_space_time_spec:
  assumes "xchacha_law C" and "rs_law C" and "length keys = 3"
  shows "\<exists>S. encode_space_time C keys e n d m = Ok S \<and> length S = 3 \<and>
    (\<forall>avail cs. length avail = 3 \<longrightarrow> (\<forall>i < 3. avail ! i = None \<or> avail ! i = Some (keys ! i)) \<longrightarrow>
       set cs \<subseteq> set S \<longrightarrow>
       reconstruct_space_time C avail e n d cs =
         (if card {i. i < 3 \<and> avail ! i \<noteq> None \<and> S ! i \<in> set cs} < 2
          then Err ''spatio-temporal erosion: fewer than 2 valid epoch keys available''
          else Ok (take (length m mod 65536) m)))"
proof -
  obtain rs where rs: "rs_encode C (frame_message m) = Ok (frame_message m, rs)" "coded C m rs" "length rs = 3"
    by (rule encode_coded [OF assms(2)])
  define sl where "sl = (\<lambda>(i, s). let epoch = e + of_nat i in \<lparr>st_index = of_nat i, st_epoch_slot = epoch,
      st_sealed_shard = seal_shard C (keys ! i) epoch n d (of_nat i) s\<rparr>)"
  define S where "S = map sl (enumerate 0 rs)"
  have len: "length S = 3" using rs(3) by (simp add: S_def)
  have nth: "S ! i = sl (i, rs ! i)" if "i < 3" for i
    using enumerate_shards [OF rs(3) that, of sl] by (simp add: S_def)
  have idx: "unat (st_index (S ! i)) = i"
      "opened C (keys ! i) (st_epoch_slot (S ! i)) n d (st_sealed_shard (S ! i)) = Some (rs ! i)" if "i < 3" for i
    using that by (simp_all add: nth sl_def Let_def unat_of_nat opened_seal [OF assms(1)])
  have "reconstruct_space_time C avail e n d cs =
         (if card {i. i < 3 \<and> avail ! i \<noteq> None \<and> S ! i \<in> set cs} < 2
          then Err ''spatio-temporal erosion: fewer than 2 valid epoch keys available''
          else Ok (take (length m mod 65536) m))"
    if a: "\<forall>i < 3. avail ! i = None \<or> avail ! i = Some (keys ! i)" and sub: "set cs \<subseteq> set S" for avail cs
  proof -
    define opn where "opn = (\<lambda>c :: space_time_shard. if avail ! unat (st_index c) = None then None else Some (rs ! unat (st_index c)))"
    have gen: "\<exists>i < 3. c = S ! i" if "c \<in> set cs" for c
      using sub that len by (force simp: in_set_conv_nth subset_iff)
    have step: "collect_space_time C avail n d s c =
        (if avail ! unat (st_index c) = None then s else s[unat (st_index c) := Some (rs ! unat (st_index c))])"
      if c: "c \<in> set cs" for s c
    proof -
      obtain i where i: "i < 3" "c = S ! i" using gen [OF c] by blast
      show ?thesis using a [rule_format, OF i(1)] idx [OF i(1)] i
        by (auto simp: collect_space_time_def Let_def opened_def split: rust.splits)
    qed
    have c: "slots_of rs (foldl (collect_space_time C avail n d) [None, None, None] cs) \<and>
        filled (foldl (collect_space_time C avail n d) [None, None, None] cs) =
          {} \<union> {unat (st_index c) |c. c \<in> set cs \<and> opn c \<noteq> None}"
      unfolding slots_of_none(2) [symmetric]
    proof (rule collect_all [OF _ slots_of_none(1)])
      fix s c
      assume c: "c \<in> set cs" and s: "slots_of rs s"
      have i: "unat (st_index c) < 3" using gen [OF c] idx by auto
      show "slots_of rs (collect_space_time C avail n d s c) \<and> filled (collect_space_time C avail n d s c) =
          filled s \<union> (case opn c of None \<Rightarrow> {} | Some _ \<Rightarrow> {unat (st_index c)})"
        using s slots_of_update [OF s i] by (simp add: step [OF c] opn_def)
    qed
    have "i \<in> {unat (st_index c) |c. c \<in> set cs \<and> opn c \<noteq> None} \<longleftrightarrow>
        i < 3 \<and> avail ! i \<noteq> None \<and> S ! i \<in> set cs" for i
    proof
      assume "i \<in> {unat (st_index c) |c. c \<in> set cs \<and> opn c \<noteq> None}"
      then obtain c where c: "i = unat (st_index c)" "c \<in> set cs" "opn c \<noteq> None" by blast
      then have "c = S ! i" "i < 3" using gen [of c] idx(1) by auto
      then show "i < 3 \<and> avail ! i \<noteq> None \<and> S ! i \<in> set cs" using c by (auto simp: opn_def split: if_splits)
    next
      assume i: "i < 3 \<and> avail ! i \<noteq> None \<and> S ! i \<in> set cs"
      then have "opn (S ! i) \<noteq> None" "unat (st_index (S ! i)) = i" using idx(1) [of i] by (simp_all add: opn_def)
      then show "i \<in> {unat (st_index c) |c. c \<in> set cs \<and> opn c \<noteq> None}" using i by force
    qed
    then have "{unat (st_index c) |c. c \<in> set cs \<and> opn c \<noteq> None} = {i. i < 3 \<and> avail ! i \<noteq> None \<and> S ! i \<in> set cs}"
      by blast
    then show ?thesis using c assemble_coded [OF assms(2) rs(2)] by (simp add: reconstruct_space_time_def)
  qed
  moreover have "encode_space_time C keys e n d m = Ok S"
    by (simp add: encode_space_time_def rs(1) S_def sl_def)
  ultimately show ?thesis using len by blast
qed

section \<open>The interception window\<close>

lemma intercept_members:
  "length (intercept_window L ws we) = 3"
  "Some c \<in> set (intercept_window L ws we) \<Longrightarrow> \<exists>s \<in> set L. c = sd_shard s \<and> ws \<le> sd_delay_ms s \<and> sd_delay_ms s \<le> we"
proof -
  define f where "f = (\<lambda>captured (s :: scheduled_shard). if sd_delay_ms s \<ge> ws \<and> sd_delay_ms s \<le> we \<and> unat (ss_index (sd_shard s)) < 3
        then captured[unat (ss_index (sd_shard s)) := Some (sd_shard s)] else captured)"
  have l: "length (foldl f cap L) = length cap" for cap
    by (induction L arbitrary: cap) (auto simp: f_def)
  have m: "Some c \<in> set (foldl f cap L) \<Longrightarrow> Some c \<in> set cap \<or>
      (\<exists>s \<in> set L. c = sd_shard s \<and> ws \<le> sd_delay_ms s \<and> sd_delay_ms s \<le> we)" for cap
  proof (induction L arbitrary: cap)
    case (Cons s L)
    have "Some c \<in> set (f cap s) \<Longrightarrow> Some c \<in> set cap \<or> (c = sd_shard s \<and> ws \<le> sd_delay_ms s \<and> sd_delay_ms s \<le> we)"
      using set_update_subset_insert [of cap] by (auto simp: f_def split: if_splits)
    then show ?case using Cons.IH [of "f cap s"] Cons.prems by auto
  qed simp
  show "length (intercept_window L ws we) = 3"
    unfolding intercept_window_def f_def [symmetric] l by simp
  show "Some c \<in> set (intercept_window L ws we) \<Longrightarrow>
      \<exists>s \<in> set L. c = sd_shard s \<and> ws \<le> sd_delay_ms s \<and> sd_delay_ms s \<le> we"
    unfolding intercept_window_def f_def [symmetric] using m [of "[None, None, None]"] by simp
qed

lemma schedule_delays:
  assumes "4 * unat (ts_base_delay_ms sc) < 2 ^ 64" and "length S = 3"
  obtains L r where "schedule sc S = Ok L" and "length L = 3" and "\<forall>i < 3. sd_shard (L ! i) = S ! i"
    and "\<forall>i < 3. unat (sd_delay_ms (L ! i)) = i * unat (ts_base_delay_ms sc) + r"
proof -
  let ?b = "ts_base_delay_ms sc"
  let ?m = "max ?b 1 + 1"
  have mx: "unat (max ?b 1) = max (unat ?b) 1" by (simp add: max_def word_le_nat_alt)
  then have m: "unat ?m = max (unat ?b) 1 + 1" using assms(1) by (simp add: unat_word_ariths)
  then have m0: "?m \<noteq> 0" by (metis add_is_0 unat_0 zero_neq_one)
  define r where "r = ts_jitter_ms sc mod ?m"
  have r: "unat r \<le> max (unat ?b) 1"
    using m mod_less_divisor [of "unat ?m" "unat (ts_jitter_ms sc)"] by (simp add: r_def unat_mod_distrib)
  define L where "L = map (\<lambda>(i, shard). \<lparr>sd_shard = shard, sd_delay_ms = of_nat i * ?b + r\<rparr>) (enumerate 0 S)"
  have nth: "L ! i = \<lparr>sd_shard = S ! i, sd_delay_ms = of_nat i * ?b + r\<rparr>" if "i < 3" for i
    using that assms(2) by (simp add: L_def nth_enumerate_eq)
  have d: "unat (of_nat i * ?b + r) = i * unat ?b + unat r" if "i < 3" for i
  proof -
    have "i \<le> 2" using that by simp
    then have le: "i * unat ?b \<le> 2 * unat ?b" by (rule mult_right_mono) simp
    then have "i * unat ?b + unat r \<le> 2 * unat ?b + max (unat ?b) 1" using r by (rule add_mono)
    also have "\<dots> < 2 ^ 64" using assms(1) by (simp add: max_def)
    finally have "i * unat ?b + unat r < 2 ^ 64" .
    moreover have "i < 2 ^ 64" using that by simp
    ultimately show ?thesis by (simp add: unat_word_ariths unat_of_nat)
  qed
  show thesis
  proof (rule that [of L "unat r"])
    show "schedule sc S = Ok L" using m0 by (simp add: schedule_def Let_def L_def r_def)
    show "length L = 3" using assms(2) by (simp add: L_def)
  qed (use nth d in simp_all)
qed

section \<open>Properties\<close>



text \<open>
  The length prefix is the low 16 bits of the message length: a longer message is sealed without
  an error and opens to its first (length modulo 65536) bytes only.
\<close>

theorem long_messages_are_truncated:
  assumes "xchacha_law C" and "rs_law C"
  shows "\<exists>s0 s1 s2. seal_message C k e n d m = Ok [s0, s1, s2] \<and>
    open_message C k e n d [Some s0, Some s1, Some s2] = Ok (take (length m mod 65536) m) \<and>
    (65536 \<le> length m \<longrightarrow> take (length m mod 65536) m \<noteq> m)"
proof -
  obtain S where S: "seal_message C k e n d m = Ok S" "length S = 3" and
    o: "\<And>slots. length slots = 3 \<Longrightarrow> (\<forall>c. Some c \<in> set slots \<longrightarrow> c \<in> set S \<or> opened C k e n d c = None) \<Longrightarrow>
       open_message C k e n d slots =
         (if card {i. i < 3 \<and> Some (S ! i) \<in> set slots} < 2 then Err ''fewer than two authenticated shards''
          else Ok (take (length m mod 65536) m))"
    using open_message_spec [OF assms, of k e n d m] by blast
  then obtain s0 s1 s2 where s: "S = [s0, s1, s2]" by (auto simp: numeral_3_eq_3 length_Suc_conv)
  have "{i. i < 3 \<and> Some (S ! i) \<in> set [Some s0, Some s1, Some s2]} = {0, 1, 2}"
    by (auto simp: s less_Suc_eq numeral_3_eq_3)
  then have op: "open_message C k e n d [Some s0, Some s1, Some s2] = Ok (take (length m mod 65536) m)"
    using o [of "[Some s0, Some s1, Some s2]"] by (simp add: s)
  have "length (take (length m mod 65536) m) \<noteq> length m" if "65536 \<le> length m"
    using that mod_less_divisor [of 65536 "length m"] by (auto simp: min_def)
  then have "65536 \<le> length m \<longrightarrow> take (length m mod 65536) m \<noteq> m" by force
  then show ?thesis using S op by (auto simp: s)
qed

theorem long_messages_are_truncated_witness:
  "\<exists>s0 s1 s2. open_message demo_crates [1] 3 (zeros 12) InitiatorToResponder [Some s0, Some s1, Some s2] = Ok []
    \<and> seal_message demo_crates [1] 3 (zeros 12) InitiatorToResponder (zeros 65536) = Ok [s0, s1, s2]"
  using long_messages_are_truncated [OF demo_laws(1,4), of "[1]" 3 "zeros 12" InitiatorToResponder "zeros 65536"]
  by auto

text \<open>
  Authenticity of one shard: \<open>open_shard\<close> returns a plaintext exactly for the sealing of that
  plaintext under the same key, epoch, nonce, direction and index; any altered bit, another epoch
  or another slot is refused with an error.
\<close>

theorem open_shard_accepts_exactly_seals:
  assumes "xchacha_law C" and "length (ss_tag c) = 16"
  shows "(open_shard C k e n d c = Ok pt) =
      (ss_index c < 3 \<and> c\<lparr>ss_is_honey := False\<rparr> = seal_shard C k e n d (ss_index c) pt)
    \<and> open_shard C k e n d c \<noteq> Panic"
proof -
  let ?w = "ss_ciphertext c @ ss_tag c"
  let ?e = "xchacha_encrypt C (shard_key C k e n (ss_index c)) (xnonce (shard_nonce n (ss_index c)) e d) []"
  have "(xchacha_open C (shard_key C k e n (ss_index c)) (shard_nonce n (ss_index c)) e d ?w = Some pt) = (?w = ?e pt)"
    using xchacha_lawD [OF assms(1)]
    by (auto simp: xchacha_open_def xchacha_open_with_aad_def)
  moreover have "(c\<lparr>ss_is_honey := False\<rparr> = seal_shard C k e n d (ss_index c) pt) = (?w = ?e pt)"
  proof
    assume "c\<lparr>ss_is_honey := False\<rparr> = seal_shard C k e n d (ss_index c) pt"
    then have "ss_ciphertext (c\<lparr>ss_is_honey := False\<rparr>) @ ss_tag (c\<lparr>ss_is_honey := False\<rparr>) = ?e pt"
      by (simp only: seal_shard_wire) (simp add: xchacha_seal_in_place_def xchacha_seal_in_place_with_aad_def)
    then show "?w = ?e pt" by simp
  next
    assume w: "?w = ?e pt"
    show "c\<lparr>ss_is_honey := False\<rparr> = seal_shard C k e n d (ss_index c) pt"
      unfolding seal_shard_def Let_def xchacha_seal_in_place_def xchacha_seal_in_place_with_aad_def w [symmetric]
      using assms(2) by (cases c) simp
  qed
  ultimately show ?thesis
    by (auto simp: open_shard_def Let_def not_le [symmetric] split: option.splits)
qed

theorem open_shard_accepts_exactly_seals_witness:
  "open_shard demo_crates [1] 3 (zeros 12) InitiatorToResponder
      (seal_shard demo_crates [1] 3 (zeros 12) InitiatorToResponder 2 [5, 6]) = Ok [5, 6]"
  by (subst open_shard_accepts_exactly_seals [OF demo_laws(1), THEN conjunct1])
    (simp_all add: seal_shard_def Let_def xchacha_seal_in_place_def xchacha_seal_in_place_with_aad_def
      xchacha_lawD(1) [OF demo_laws(1)])

text \<open>
  Time as a shard: an observer whose capture window is shorter than the base delay holds at
  most one of the scheduled shards, and \<open>open_message\<close> on what it captured is refused. (The delays
  are \<open>u64\<close> sums; the bound on the base delay excludes wrap-around.)
\<close>

theorem short_window_cannot_open:
  assumes "xchacha_law C" and "rs_law C" and "4 * unat (ts_base_delay_ms sc) < 2 ^ 64"
    and "unat we < unat ws + unat (ts_base_delay_ms sc)"
  shows "\<exists>S L. seal_message C k e n d m = Ok S \<and> schedule sc S = Ok L \<and>
    open_message C k e n d (intercept_window L ws we) = Err ''fewer than two authenticated shards''"
proof -
  let ?b = "unat (ts_base_delay_ms sc)"
  obtain S where S: "seal_message C k e n d m = Ok S" "length S = 3" "\<And>i. i < 3 \<Longrightarrow> unat (ss_index (S ! i)) = i"
    and o: "\<And>slots. length slots = 3 \<Longrightarrow> (\<forall>c. Some c \<in> set slots \<longrightarrow> c \<in> set S \<or> opened C k e n d c = None) \<Longrightarrow>
       open_message C k e n d slots =
         (if card {i. i < 3 \<and> Some (S ! i) \<in> set slots} < 2 then Err ''fewer than two authenticated shards''
          else Ok (take (length m mod 65536) m))"
    using open_message_spec [OF assms(1,2), of k e n d m] by blast
  obtain L r where L: "schedule sc S = Ok L" "length L = 3" "\<forall>i < 3. sd_shard (L ! i) = S ! i"
    "\<forall>i < 3. unat (sd_delay_ms (L ! i)) = i * ?b + r"
    by (rule schedule_delays [OF assms(3) S(2)])
  have mem: "\<exists>i < 3. c = S ! i \<and> unat ws \<le> i * ?b + r \<and> i * ?b + r \<le> unat we"
    if c: "Some c \<in> set (intercept_window L ws we)" for c
  proof -
    obtain i where "i < 3" "c = sd_shard (L ! i)" "ws \<le> sd_delay_ms (L ! i)" "sd_delay_ms (L ! i) \<le> we"
      using intercept_members(2) [OF c] L(2) by (auto simp: in_set_conv_nth)
    then show ?thesis using L(3,4) by (intro exI [of _ i]) (simp add: word_le_nat_alt)
  qed
  have win: "unat ws \<le> i * ?b + r \<and> i * ?b + r \<le> unat we" if i: "i < 3" and "Some (S ! i) \<in> set (intercept_window L ws we)" for i
    using mem [OF that(2)] S(3) i by metis
  have one: "i = j" if "i \<in> W" "j \<in> W" "W = {i. i < 3 \<and> Some (S ! i) \<in> set (intercept_window L ws we)}" for i j W
  proof (rule ccontr)
    assume "i \<noteq> j"
    have "i * ?b + ?b \<le> j * ?b \<or> j * ?b + ?b \<le> i * ?b"
      using \<open>i \<noteq> j\<close> mult_le_mono1 [of "Suc i" j ?b] mult_le_mono1 [of "Suc j" i ?b] by (auto simp: nat_neq_iff)
    then show False using win [of i] win [of j] that assms(4) by auto
  qed
  define W where "W = {i. i < 3 \<and> Some (S ! i) \<in> set (intercept_window L ws we)}"
  have "finite W" by (simp add: W_def)
  then have "card W \<le> 1" using one [OF _ _ W_def] by (simp add: card_le_Suc0_iff_eq)
  then have "card {i. i < 3 \<and> Some (S ! i) \<in> set (intercept_window L ws we)} < 2" by (simp add: W_def)
  moreover have "c \<in> set S" if "Some c \<in> set (intercept_window L ws we)" for c
    using mem [OF that] S(2) by auto
  ultimately have "open_message C k e n d (intercept_window L ws we) = Err ''fewer than two authenticated shards''"
    using o [OF intercept_members(1)] by simp
  then show ?thesis using S(1) L(1) by blast
qed

theorem short_window_cannot_open_witness:
  "\<exists>S L. seal_message demo_crates [1] 3 (zeros 12) InitiatorToResponder [7] = Ok S \<and>
     schedule scheduler_default S = Ok L \<and>
     open_message demo_crates [1] 3 (zeros 12) InitiatorToResponder (intercept_window L 100 299)
       = Err ''fewer than two authenticated shards''"
  by (rule short_window_cannot_open [OF demo_laws(1,4)]) (simp_all add: scheduler_default_def)

text \<open>
  Erosion: from shards of a space-time encoding the message is recovered exactly when at least
  two of them are present with their epoch's key; once two epoch keys are wiped it never is.
\<close>

theorem erosion_needs_two_epochs:
  assumes "xchacha_law C" and "rs_law C" and "length keys = 3" and "length m < 65536"
  shows "\<exists>S. encode_space_time C keys e n d m = Ok S \<and> length S = 3 \<and>
    (\<forall>avail cs. length avail = 3 \<longrightarrow> (\<forall>i < 3. avail ! i = None \<or> avail ! i = Some (keys ! i)) \<longrightarrow>
       set cs \<subseteq> set S \<longrightarrow>
       reconstruct_space_time C avail e n d cs =
         (if card {i. i < 3 \<and> avail ! i \<noteq> None \<and> S ! i \<in> set cs} < 2
          then Err ''spatio-temporal erosion: fewer than 2 valid epoch keys available''
          else Ok m))"
proof -
  have "take (length m mod 65536) m = m" using assms(4) by simp
  then show ?thesis using reconstruct_space_time_spec [OF assms(1-3), of e n d m] by (simp only:)
qed

theorem erosion_needs_two_epochs_witness:
  "\<exists>S. encode_space_time demo_crates [[1], [2], [3]] 7 (zeros 12) InitiatorToResponder [4, 5] = Ok S \<and>
     reconstruct_space_time demo_crates [Some [1], None, None] 7 (zeros 12) InitiatorToResponder []
       = Err ''spatio-temporal erosion: fewer than 2 valid epoch keys available''"
proof -
  obtain S where S: "encode_space_time demo_crates [[1], [2], [3]] 7 (zeros 12) InitiatorToResponder [4, 5] = Ok S"
    "\<And>avail cs. length avail = 3 \<Longrightarrow> (\<forall>i < 3. avail ! i = None \<or> avail ! i = Some ([[1], [2], [3]] ! i)) \<Longrightarrow>
       set cs \<subseteq> set S \<Longrightarrow>
       reconstruct_space_time demo_crates avail 7 (zeros 12) InitiatorToResponder cs =
         (if card {i. i < 3 \<and> avail ! i \<noteq> None \<and> S ! i \<in> set cs} < 2
          then Err ''spatio-temporal erosion: fewer than 2 valid epoch keys available''
          else Ok [4, 5])"
    using erosion_needs_two_epochs [OF demo_laws(1,4), of "[[1], [2], [3]]" "[4, 5]" 7 "zeros 12" InitiatorToResponder]
    by auto
  have "\<forall>i < 3. [Some [1], None, None] ! i = None \<or> [Some [1], None, None] ! i = Some ([[1], [2], [3 :: u8]] ! i)"
    by (simp add: less_Suc_eq numeral_3_eq_3 nth_Cons')
  then show ?thesis using S(1) S(2) [of "[Some [1], None, None]" "[]"] by simp
qed

end
