(* ===== verification/Spool.thy ===== *)
theory Spool
  imports L4_RS Transport Gtf ShardSec "HOL-Library.AList"
begin

unbundle bit_operations_syntax

text \<open>
  Reassembly in the daemon, src/src/main.rs: the spool that collects the shards of one message under
  a key read from the wire (\<open>SpoolKey\<close>, \<open>assemble\<close>), the seal metadata of a v2 frame
  (\<open>V2FrameMeta\<close>), the length prefix inside a decrypted message (\<open>frame_payload\<close>) and the reorder
  buffer of a tunnel (\<open>RxState\<close>, \<open>rx_push\<close>). The concurrent maps are association lists.
\<close>

section \<open>Frame metadata\<close>

record v2_frame_meta =
  vm_epoch :: u64
  vm_nonce :: bytes
  vm_bulk :: bool
  vm_tail :: bytes
  vm_shardsec :: bool

definition v2_meta_of :: "bytes \<Rightarrow> v2_frame_meta option" where
  "v2_meta_of frame =
     map_option (\<lambda>h. \<lparr>vm_epoch = gh_epoch h, vm_nonce = gh_nonce h, vm_bulk = gh_bulk h, vm_tail = gh_tail h,
                      vm_shardsec = (gh_flags h AND FLAG_SHARDSEC \<noteq> 0)\<rparr>) (parse_gtf_v2_header frame)"

definition frame_payload :: "bytes \<Rightarrow> bytes option" where
  "frame_payload pt =
     (if length pt < 2 then None
      else
        (let n = unat (u16_be [pt ! 0, pt ! 1])
         in if 2 + n = length pt \<or> 2 + n + 1 = length pt then Some (slice 2 (2 + n) pt) else None))"

section \<open>The spool\<close>

record spool_key =
  sk_session_hash :: bytes
  sk_epoch :: u64
  sk_counter :: u64
  sk_pre_session_src :: "sock_addr option"

definition spool_key_of :: "sock_addr \<Rightarrow> bytes \<Rightarrow> v2_frame_meta option \<Rightarrow> spool_key" where
  "spool_key_of src datagram v2 =
     (let session_hash = parse_session_hash datagram
      in \<lparr>sk_session_hash = session_hash, sk_epoch = (case v2 of None \<Rightarrow> 0 | Some m \<Rightarrow> vm_epoch m),
          sk_counter = parse_packet_counter_u64 datagram,
          sk_pre_session_src = (if session_hash = [0, 0, 0, 0] then Some src else None)\<rparr>)"

type_synonym spool_pool = "(spool_key \<times> bytes option list) list"

definition MAX_SPOOL_ENTRIES :: nat where "MAX_SPOOL_ENTRIES = 8192"

definition count_some :: "'a option list \<Rightarrow> nat" where
  "count_some xs = length (filter (\<lambda>x. x \<noteq> None) xs)"

text \<open>Pruning when the pool is over its cap.\<close>

definition prune_spool :: "spool_pool \<Rightarrow> spool_pool" where
  "prune_spool pool =
     (if length pool > MAX_SPOOL_ENTRIES then filter (\<lambda>(_, v). 2 \<le> count_some v) pool else pool)"

text \<open>The write under the bucket's lock, with the claim marker.\<close>

definition write_shard :: "bytes option list \<Rightarrow> nat \<Rightarrow> bytes \<Rightarrow> (bytes option list, unit) rust" where
  "write_shard e idx data =
     (let e = e @ replicate (3 - length e) None
      in if length e \<le> idx then Panic
         else
           (let e = e[idx := Some data]
            in Ok (if 2 \<le> count_some e \<and> length e = 3 then e @ [None] else e)))"

text \<open>Shorter shards are filled with zeros, then the first three slots are reconstructed.\<close>

definition join_bucket :: "crates \<Rightarrow> bytes option list \<Rightarrow> (bytes option, unit) rust" where
  "join_bucket C s =
     (let m = foldr max (map length (List.map_filter id s)) 0;
          s = map (map_option (\<lambda>v. v @ zeros (m - length v))) s;
          w = map (\<lambda>i. if i < length s then s ! i else None) [0..<3]
      in case reconstruct C w of
           Ok w \<Rightarrow> Ok (case (w ! 0, w ! 1) of (Some a, Some b) \<Rightarrow> Some (a @ b) | _ \<Rightarrow> None)
         | Err _ \<Rightarrow> Ok None
         | Panic \<Rightarrow> Panic)"

definition assemble_shards ::
  "crates \<Rightarrow> spool_pool \<Rightarrow> spool_key \<Rightarrow> nat \<Rightarrow> bytes \<Rightarrow> (spool_pool \<times> bytes option, unit) rust" where
  "assemble_shards C pool key idx data =
     (let pool = prune_spool pool;
          e = (case map_of pool key of None \<Rightarrow> [None, None, None] | Some e \<Rightarrow> e)
      in case write_shard e idx data of
           Ok e \<Rightarrow>
             if length e > 3
             then (case join_bucket C e of
                     Ok r \<Rightarrow> Ok (AList.delete key pool, r)
                   | Err _ \<Rightarrow> Panic
                   | Panic \<Rightarrow> Panic)
             else Ok (AList.update key e pool, None)
         | _ \<Rightarrow> Panic)"

section \<open>The reorder buffer\<close>

text \<open>\<open>BTreeMap\<close> is a map; \<open>ctr + 1\<close> wraps as in a release build.\<close>

record rx_state =
  rx_next :: "u64 option"
  rx_buf :: "u64 \<rightharpoonup> bytes"

definition rx_default :: rx_state where "rx_default = \<lparr>rx_next = None, rx_buf = Map.empty\<rparr>"

text \<open>
  The loop that releases consecutive payloads: it ends because every turn removes an entry of a
  finite buffer.
\<close>

function rx_release :: "u64 \<Rightarrow> (u64 \<rightharpoonup> bytes) \<Rightarrow> u64 \<times> (u64 \<rightharpoonup> bytes) \<times> bytes list" where
  "rx_release n buf =
     (case buf n of
        None \<Rightarrow> (n, buf, [])
      | Some d \<Rightarrow> (case rx_release (n + 1) (buf(n := None)) of (n', buf', out) \<Rightarrow> (n', buf', d # out)))"
  by pat_completeness auto
termination
proof (relation "measure (\<lambda>(n, buf). card (dom buf))", goal_cases)
  case (2 n buf d)
  then have "card (dom buf - {n}) < card (dom buf)" by (intro card_Diff1_less) auto
  then show ?case by simp
qed simp

declare rx_release.simps [simp del]

definition rx_push :: "rx_state \<Rightarrow> u64 \<Rightarrow> bytes \<Rightarrow> rx_state \<times> bytes list" where
  "rx_push state ctr payload =
     (case rx_next state of
        None \<Rightarrow> (state\<lparr>rx_next := Some (ctr + 1)\<rparr>, [payload])
      | Some n \<Rightarrow>
          if ctr < n then (state, [])
          else (case rx_release n ((rx_buf state)(ctr \<mapsto> payload)) of
                  (n', buf', out) \<Rightarrow> (state\<lparr>rx_next := Some n', rx_buf := buf'\<rparr>, out)))"

section \<open>The spool holds single shards\<close>

definition spool_ok :: "spool_pool \<Rightarrow> bool" where
  "spool_ok pool \<longleftrightarrow> distinct (map fst pool) \<and> (\<forall>(k, v) \<in> set pool. length v = 3 \<and> count_some v = 1) \<and>
     length pool \<le> Suc MAX_SPOOL_ENTRIES"

lemma spool_ok_empty: "spool_ok []"
  by (simp add: spool_ok_def)

lemma count_some_update:
  "i < length e \<Longrightarrow> count_some (e[i := Some d]) = count_some e + (if e ! i = None then 1 else 0)"
  by (induction e arbitrary: i) (auto simp: count_some_def nth_Cons split: nat.splits)

text \<open>A bucket never outlives its second shard, so over the cap everything goes.\<close>

lemma prune_spool_ok:
  assumes "spool_ok pool"
  shows "prune_spool pool = (if length pool > MAX_SPOOL_ENTRIES then [] else pool)"
  using assms by (auto simp: prune_spool_def spool_ok_def filter_empty_conv)

lemma spool_bucket: "spool_ok pool \<Longrightarrow> map_of pool key = Some e \<Longrightarrow> length e = 3 \<and> count_some e = 1"
  by (auto simp: spool_ok_def dest: map_of_SomeD)

lemma spool_ok_delete: "spool_ok pool \<Longrightarrow> spool_ok (AList.delete key pool)"
proof -
  assume "spool_ok pool"
  moreover have "length (AList.delete key pool) \<le> length pool" by (simp add: AList.delete_eq)
  moreover have "set (AList.delete key pool) \<subseteq> set pool" by (auto simp: AList.delete_eq)
  ultimately show ?thesis by (auto simp: spool_ok_def distinct_delete)
qed

lemma length_update_le: "length (AList.update k v al) \<le> Suc (length al)"
  by (induction al) auto

lemma set_update_sub: "set (AList.update k v al) \<subseteq> insert (k, v) (set al)"
  by (induction al) auto

lemma spool_ok_update:
  assumes "spool_ok pool" and "length pool \<le> MAX_SPOOL_ENTRIES" and "length e = 3" and "count_some e = 1"
  shows "spool_ok (AList.update key e pool)"
proof -
  have "length (AList.update key e pool) \<le> Suc MAX_SPOOL_ENTRIES"
    using length_update_le [of key e pool] assms(2) by linarith
  moreover have "\<forall>(k, v) \<in> set (AList.update key e pool). length v = 3 \<and> count_some v = 1"
    using set_update_sub [of key e pool] assms by (auto simp: spool_ok_def)
  ultimately show ?thesis using assms(1) by (simp add: spool_ok_def distinct_update)
qed

definition bucket :: "spool_pool \<Rightarrow> spool_key \<Rightarrow> bytes option list" where
  "bucket pool key = (case map_of (prune_spool pool) key of None \<Rightarrow> [None, None, None] | Some e \<Rightarrow> e)"

lemma bucket_ok:
  assumes "spool_ok pool"
  shows "length (bucket pool key) = 3" "count_some (bucket pool key) \<le> 1"
  using spool_bucket [OF assms, of key] prune_spool_ok [OF assms]
  by (auto simp: bucket_def count_some_def split: option.splits if_splits)

text \<open>Storing either completes the bucket, which is joined and removed, or leaves one shard in it.\<close>

lemma assemble_shards_cases:
  assumes "spool_ok pool" and "idx < 3"
  obtains (completes) "count_some ((bucket pool key)[idx := Some data]) = 2"
      "assemble_shards C pool key idx data =
         (case join_bucket C ((bucket pool key)[idx := Some data] @ [None]) of
            Ok r \<Rightarrow> Ok (AList.delete key (prune_spool pool), r) | Err _ \<Rightarrow> Panic | Panic \<Rightarrow> Panic)"
  | (waits) "count_some ((bucket pool key)[idx := Some data]) = 1"
      "assemble_shards C pool key idx data = Ok (AList.update key ((bucket pool key)[idx := Some data]) (prune_spool pool), None)"
proof -
  note b = bucket_ok [OF assms(1), of key]
  have pos: "count_some xs > 0" if "i < length xs" "xs ! i = Some x" for i x and xs :: "bytes option list"
  proof -
    have "Some x \<in> set xs" using that by (metis nth_mem)
    then show ?thesis by (force simp: count_some_def filter_empty_conv)
  qed
  have "0 < count_some ((bucket pool key)[idx := Some data])" using b(1) assms(2) by (intro pos [of idx _ data]) auto
  then have "1 \<le> count_some ((bucket pool key)[idx := Some data])" "count_some ((bucket pool key)[idx := Some data]) \<le> 2"
    using b assms(2) pos by (auto simp: count_some_update Suc_le_eq)
  then have c: "count_some ((bucket pool key)[idx := Some data]) = 1 \<or> count_some ((bucket pool key)[idx := Some data]) = 2"
    by linarith
  have w: "write_shard (bucket pool key) idx data =
      Ok (if 2 \<le> count_some ((bucket pool key)[idx := Some data]) then (bucket pool key)[idx := Some data] @ [None]
          else (bucket pool key)[idx := Some data])"
    using b(1) assms(2) by (simp add: write_shard_def)
  from c show thesis
  proof
    assume "count_some ((bucket pool key)[idx := Some data]) = 2"
    then show thesis using w b(1)
      by (intro completes) (simp_all add: assemble_shards_def Let_def bucket_def [symmetric])
  next
    assume "count_some ((bucket pool key)[idx := Some data]) = 1"
    then show thesis using w b(1)
      by (intro waits) (simp_all add: assemble_shards_def Let_def bucket_def [symmetric])
  qed
qed

lemma assemble_keeps:
  assumes "spool_ok pool" and "idx < 3" and "assemble_shards C pool key idx data = Ok (pool', r)"
  shows "spool_ok pool'"
proof -
  have p: "spool_ok (prune_spool pool)" "length (prune_spool pool) \<le> MAX_SPOOL_ENTRIES"
    using assms(1) prune_spool_ok [OF assms(1)] spool_ok_empty by auto
  show ?thesis
    using assms(1,2)
  proof (cases rule: assemble_shards_cases [where key = key and data = data and C = C])
    case completes
    then show ?thesis using assms(3) spool_ok_delete [OF p(1)] by (auto split: rust.splits)
  next
    case waits
    then show ?thesis using assms(3) spool_ok_update [OF p, of _ key] bucket_ok(1) [OF assms(1), of key] by auto
  qed
qed

text \<open>A run of shards through the spool; a panic ends it.\<close>

fun spool_run :: "crates \<Rightarrow> spool_pool \<Rightarrow> (spool_key \<times> nat \<times> bytes) list \<Rightarrow> (spool_pool \<times> bytes option list, unit) rust" where
  "spool_run C pool [] = Ok (pool, [])"
| "spool_run C pool ((key, idx, data) # es) =
     (case assemble_shards C pool key idx data of
        Ok (pool', r) \<Rightarrow>
          (case spool_run C pool' es of Ok (pool'', rs) \<Rightarrow> Ok (pool'', r # rs) | Err e \<Rightarrow> Err e | Panic \<Rightarrow> Panic)
      | Err e \<Rightarrow> Err e
      | Panic \<Rightarrow> Panic)"

text \<open>
  The spool is bounded: however many shards arrive, under whatever keys, it never holds more than
  one bucket over its cap, every bucket holds exactly one shard, and when the cap is exceeded the
  next shard finds the whole spool emptied, messages in flight included.
\<close>

theorem spool_is_bounded:
  assumes "\<forall>(key, idx, data) \<in> set es. idx < 3" and "spool_run C [] es = Ok (pool, rs)"
  shows "length pool \<le> Suc MAX_SPOOL_ENTRIES \<and> (\<forall>v \<in> snd ` set pool. length v = 3 \<and> count_some v = 1) \<and>
    (length pool > MAX_SPOOL_ENTRIES \<longrightarrow> prune_spool pool = [])"
proof -
  have run: "spool_ok p \<Longrightarrow> \<forall>(key, idx, data) \<in> set es. idx < 3 \<Longrightarrow> spool_run C p es = Ok (pool, rs) \<Longrightarrow> spool_ok pool" for p es rs
  proof (induction es arbitrary: p rs)
    case (Cons e es)
    obtain key idx data where e: "e = (key, idx, data)" by (cases e) auto
    obtain p' r rs' where "assemble_shards C p key idx data = Ok (p', r)" "spool_run C p' es = Ok (pool, rs')"
      using Cons.prems(3) by (auto simp: e split: rust.splits)
    moreover have "spool_ok p'" using assemble_keeps [OF Cons.prems(1) _ calculation(1)] Cons.prems(2) by (simp add: e)
    ultimately show ?case using Cons.IH [of p' rs'] Cons.prems(2) by simp
  qed simp
  have "spool_ok pool" using run [OF spool_ok_empty assms] .
  then show ?thesis using prune_spool_ok by (auto simp: spool_ok_def)
qed


theorem spool_is_bounded_witness:
  "\<exists>pool rs. spool_run demo_crates [] [(spool_key_of demo_addr (zeros 40) None, 1 :: nat, [7])] = Ok (pool, rs) \<and>
     length pool \<le> Suc MAX_SPOOL_ENTRIES"
proof -
  let ?es = "[(spool_key_of demo_addr (zeros 40) None, 1 :: nat, [7])]"
  obtain pool rs where r: "spool_run demo_crates [] ?es = Ok (pool, rs)"
    by (simp add: assemble_shards_def prune_spool_def write_shard_def count_some_def MAX_SPOOL_ENTRIES_def)
  have "\<forall>(key, idx, data) \<in> set ?es. idx < 3" by simp
  from spool_is_bounded [OF this r] show ?thesis using r by blast
qed

section \<open>A message is put together from any two of its shards\<close>

lemma join_equal:
  assumes "length e = 3" and "\<And>x. Some x \<in> set e \<Longrightarrow> length x = n" and "\<exists>x. Some x \<in> set e"
  shows "join_bucket C (e @ [None]) =
    (case reconstruct C e of
       Ok w \<Rightarrow> Ok (case (w ! 0, w ! 1) of (Some a, Some b) \<Rightarrow> Some (a @ b) | _ \<Rightarrow> None)
     | Err _ \<Rightarrow> Ok None
     | Panic \<Rightarrow> Panic)"
proof -
  define ls where "ls = map length (List.map_filter id (e @ [None]))"
  have "set ls \<subseteq> {n}" using assms(2) by (auto simp: ls_def map_filter_def)
  moreover have "ls \<noteq> []" using assms(3) by (auto simp: ls_def map_filter_def filter_empty_conv)
  ultimately have m: "foldr max ls 0 = n"
  proof (induction ls)
    case (Cons l ls)
    then show ?case by (cases "ls = []") auto
  qed simp
  have pad: "map (map_option (\<lambda>v. v @ zeros (n - length v))) (e @ [None]) = e @ [None]"
    by (rule map_idI) (use assms(2) in \<open>auto simp: map_option_case zeros_def split: option.split\<close>)
  have first: "map (\<lambda>i. if i < length (e @ [None]) then (e @ [None]) ! i else None) [0..<3] = e"
    by (rule nth_equalityI) (auto simp: assms(1) nth_append)
  show ?thesis unfolding join_bucket_def Let_def m [unfolded ls_def] pad first by (rule refl)
qed

lemma other_key_untouched:
  assumes "spool_ok pool" and "length pool \<le> MAX_SPOOL_ENTRIES" and "idx < 3" and "key' \<noteq> key"
    and "assemble_shards C pool key' idx data = Ok (pool', r)"
  shows "map_of pool' key = map_of pool key \<and> length pool' \<le> Suc (length pool)"
proof -
  have p: "prune_spool pool = pool" using assms(2) by (simp add: prune_spool_def)
  show ?thesis
    using assms(1,3)
  proof (cases rule: assemble_shards_cases [where key = key' and data = data and C = C])
    case completes
    moreover have "length (AList.delete key' pool) \<le> length pool" by (simp add: AList.delete_eq)
    ultimately show ?thesis using assms(4,5) p by (auto simp: delete_conv' split: rust.splits)
  next
    case waits
    then show ?thesis using assms(4,5) p length_update_le [of key' _ pool] by (auto simp: update_conv')
  qed
qed

lemma run_keeps_key:
  assumes "spool_run C pool es = Ok (pool', rs)" and "spool_ok pool" and "\<forall>(k, idx, d) \<in> set es. k \<noteq> key \<and> idx < 3"
    and "length pool + length es \<le> MAX_SPOOL_ENTRIES"
  shows "map_of pool' key = map_of pool key \<and> spool_ok pool' \<and> length pool' \<le> MAX_SPOOL_ENTRIES"
  using assms
proof (induction es arbitrary: pool rs)
  case (Cons e es)
  obtain k idx d where e: "e = (k, idx, d)" by (cases e) auto
  obtain p r rs' where a: "assemble_shards C pool k idx d = Ok (p, r)" "spool_run C p es = Ok (pool', rs')"
    using Cons.prems(1) by (auto simp: e split: rust.splits)
  have k: "k \<noteq> key" "idx < 3" "length pool \<le> MAX_SPOOL_ENTRIES" using Cons.prems(3,4) by (auto simp: e)
  note o = other_key_untouched [OF Cons.prems(2) k(3,2,1) a(1)]
  have "spool_ok p" using assemble_keeps [OF Cons.prems(2) k(2) a(1)] .
  then show ?case using Cons.IH [OF a(2)] o Cons.prems(3,4) by auto
qed auto

lemma first_shard_waits:
  assumes "spool_ok pool" and "map_of pool key = None" and "length pool \<le> MAX_SPOOL_ENTRIES" and "i < 3"
  shows "assemble_shards C pool key i d = Ok (AList.update key ([None, None, None][i := Some d]) pool, None)"
    and "spool_ok (AList.update key ([None, None, None][i := Some d]) pool)"
proof -
  let ?e1 = "[None, None, None][i := Some d]"
  have fresh: "bucket pool key = [None, None, None]" using assms(2,3) by (simp add: bucket_def prune_spool_def)
  have one: "count_some ?e1 = 1" using assms(4) by (auto simp: count_some_def less_Suc_eq numeral_3_eq_3)
  show "assemble_shards C pool key i d = Ok (AList.update key ?e1 pool, None)"
    using assms(1,4)
    by (cases rule: assemble_shards_cases [where key = key and data = d and C = C])
      (use one assms(3) in \<open>auto simp: fresh prune_spool_def\<close>)
  have "length ?e1 = 3" by (simp only: length_list_update list.size)
  then show "spool_ok (AList.update key ?e1 pool)" using spool_ok_update [OF assms(1,3) _ one, of key] by blast
qed

lemma second_shard_completes:
  assumes "rs_law C" and "data \<noteq> []" and "rs_encode C data = Ok (p, raw)" and "i < 3" and "j < 3" and "i \<noteq> j"
    and "spool_ok pool" and "map_of pool key = Some ([None, None, None][i := Some (raw ! i)])" and "length pool \<le> MAX_SPOOL_ENTRIES"
  shows "assemble_shards C pool key j (raw ! j) = Ok (AList.delete key pool, Some (padded_even data))"
proof -
  obtain d0 d1 q where enc: "rs_encode C data = Ok (padded_even data, [d0, d1, q])" "d0 @ d1 = padded_even data"
    "length d0 = length d1" "d0 \<noteq> []" "rs_encode_sep C d0 d1 = Some q" "length q = length d0"
    by (rule rs_encode_ok [OF assms(1,2)])
  have raw: "raw = [d0, d1, q]" using enc(1) assms(3) by simp
  have lr: "length (raw ! k) = length d0" if "k < 3" for k
    using that enc(3,6) by (auto simp: raw less_Suc_eq numeral_3_eq_3)
  let ?e1 = "[None, None, None][i := Some (raw ! i)]"
  have one: "count_some ?e1 = 1" using assms(4) by (auto simp: count_some_def less_Suc_eq numeral_3_eq_3)
  have b: "bucket pool key = ?e1" using assms(8,9) by (simp add: bucket_def prune_spool_def)
  let ?e2 = "?e1[j := Some (raw ! j)]"
  have two: "count_some ?e2 = 2"
    using count_some_update [of j ?e1 "raw ! j"] one assms(4-6)
    by (simp add: nth_list_update nth_Cons' del: list_update.simps)
  have ij: "?e2 ! k = None \<or> ?e2 ! k = Some (raw ! k)" if "k < 3" for k
    using that assms(4-6) by (auto simp: nth_list_update less_Suc_eq numeral_3_eq_3)
  have "{i, j} \<subseteq> {k. k < 3 \<and> ?e2 ! k \<noteq> None}" using assms(4-6) by (auto simp: nth_list_update simp del: list_update.simps)
  then have c2: "2 \<le> card {k. k < 3 \<and> ?e2 ! k \<noteq> None}" using assms(6) card_mono [of "{k. k < 3 \<and> ?e2 ! k \<noteq> None}" "{i, j}"] by simp
  have l2: "length ?e2 = 3" by (simp only: length_list_update list.size)
  obtain w where w: "reconstruct C ?e2 = Ok w" "w ! 0 = Some d0" "w ! 1 = Some d1"
    by (rule reconstruct_available [OF assms(1) enc(4,3,5) l2 _ c2]) (use ij in \<open>simp_all only: raw\<close>)
  have "length x = length d0" if m: "Some x \<in> set ?e2" for x
  proof -
    obtain k where "k < 3" "?e2 ! k = Some x" using m l2 unfolding in_set_conv_nth by metis
    then show ?thesis using ij [of k] lr [of k] by auto
  qed
  moreover have "\<exists>x. Some x \<in> set ?e2" using assms(5) by (metis length_list_update length_Cons list.size(3) nth_list_update_eq nth_mem numeral_3_eq_3)
  ultimately have joined: "join_bucket C (?e2 @ [None]) = Ok (Some (padded_even data))"
    using join_equal [of ?e2 "length d0" C, OF l2] w enc(2) by (simp del: list_update.simps)
  show ?thesis
    using assms(7,5)
    by (cases rule: assemble_shards_cases [where key = key and data = "raw ! j" and C = C])
      (use two assms(9) joined in \<open>auto simp: b prune_spool_def simp del: list_update.simps\<close>)
qed

text \<open>
  Reassembly: of the three shards of an encoded message any two, in either order and with any
  traffic under other keys between them that does not overflow the spool, give the message at the
  second of them, and its bucket is gone.
\<close>

theorem spooled_message_reassembles:
  assumes "rs_law C" and "data \<noteq> []" and "rs_encode C data = Ok (p, raw)" and "i < 3" and "j < 3" and "i \<noteq> j"
    and "spool_ok pool" and "map_of pool key = None" and "\<forall>(k, idx, d) \<in> set es. k \<noteq> key \<and> idx < 3"
    and "length pool + Suc (length es) \<le> MAX_SPOOL_ENTRIES" and "spool_run C pool ((key, i, raw ! i) # es) = Ok (pool', rs)"
  shows "rs ! 0 = None \<and>
    (\<exists>pool''. assemble_shards C pool' key j (raw ! j) = Ok (pool'', Some (padded_even data)) \<and> map_of pool'' key = None)"
proof -
  let ?e1 = "[None, None, None][i := Some (raw ! i)]"
  have "length pool \<le> MAX_SPOOL_ENTRIES" using assms(10) by simp
  note a = first_shard_waits [OF assms(7,8) this assms(4), where d = "raw ! i"]
  obtain rs' where r: "spool_run C (AList.update key ?e1 pool) es = Ok (pool', rs')" "rs = None # rs'"
    using assms(11) by (auto simp: a(1) split: rust.splits)
  have "length (AList.update key ?e1 pool) + length es \<le> MAX_SPOOL_ENTRIES"
    using length_update_le [of key ?e1 pool] assms(10) by linarith
  from run_keeps_key [OF r(1) a(2) assms(9) this]
  have st: "map_of pool' key = Some ?e1" "spool_ok pool'" "length pool' \<le> MAX_SPOOL_ENTRIES" by (auto simp: update_conv')
  show ?thesis using second_shard_completes [OF assms(1-6) st(2,1,3)] r(2) by (auto simp: delete_conv')
qed

theorem spooled_message_reassembles_witness:
  "\<exists>pool' rs pool''.
     spool_run demo_crates [] [(spool_key_of demo_addr (zeros 40) None, 1, [3, 0]), (spool_key_of demo_addr (replicate 40 1) None, 0, [7])] = Ok (pool', rs) \<and>
     assemble_shards demo_crates pool' (spool_key_of demo_addr (zeros 40) None) 0 [1, 2] = Ok (pool'', Some [1, 2, 3, 0])"
proof -
  let ?k = "spool_key_of demo_addr (zeros 40) None" and ?k' = "spool_key_of demo_addr (replicate 40 1) None"
  obtain d0 d1 q where enc: "rs_encode demo_crates [1, 2, 3] = Ok (padded_even [1, 2, 3], [d0, d1, q])" "d0 @ d1 = padded_even [1, 2, 3]"
    "length d0 = length d1"
    by (rule rs_encode_ok [OF demo_laws(4), of "[1, 2, 3]"]) simp
  have "length d0 + length d1 = 4" using arg_cong [OF enc(2), of length] by (simp add: padded_even_def)
  then have d: "d0 = [1, 2]" "d1 = [3, 0]" using enc(2,3) append_eq_append_conv [of d0 "[1, 2]" d1 "[3, 0]"]
    by (simp_all add: padded_even_def)
  have ne: "?k' \<noteq> ?k" by (simp add: spool_key_of_def parse_session_hash_def zeros_def numeral_eq_Suc slice_def Let_def)
  obtain pool' rs where r: "spool_run demo_crates [] [(?k, 1, [3, 0]), (?k', 0, [7])] = Ok (pool', rs)"
    using ne by (simp add: assemble_shards_def prune_spool_def write_shard_def count_some_def MAX_SPOOL_ENTRIES_def)
  have "spool_run demo_crates [] ((?k, 1, [d0, d1, q] ! 1) # [(?k', 0, [7])]) = Ok (pool', rs)" using r by (simp add: d)
  from spooled_message_reassembles [OF demo_laws(4) _ enc(1), of 1 0 "[]" ?k "[(?k', 0, [7])]", OF _ _ _ _ spool_ok_empty _ _ _ this] r ne
  show ?thesis by (simp add: d MAX_SPOOL_ENTRIES_def padded_even_def del: spool_run.simps) blast
qed

section \<open>The reorder buffer releases the stream in order\<close>

fun rx_run :: "rx_state \<Rightarrow> (u64 \<times> bytes) list \<Rightarrow> rx_state \<times> bytes list" where
  "rx_run st [] = (st, [])"
| "rx_run st ((c, d) # es) = (case rx_push st c d of (st', out) \<Rightarrow> case rx_run st' es of (st'', outs) \<Rightarrow> (st'', out @ outs))"

text \<open>What a reorder buffer holds of a stream \<open>f\<close>: the counters \<open>S\<close> that arrived, from \<open>n\<close> on.\<close>

definition held :: "(u64 \<Rightarrow> bytes) \<Rightarrow> u64 set \<Rightarrow> u64 \<Rightarrow> u64 \<rightharpoonup> bytes" where
  "held f S n = (\<lambda>c. if c \<in> S \<and> n \<le> c then Some (f c) else None)"

lemma rx_release_held:
  assumes "S \<subseteq> {c. unat c < e}" and "e < 2 ^ 64" and "unat n \<le> e"
  shows "\<exists>n'. rx_release n (held f S n) = (n', held f S n', map (\<lambda>k. f (of_nat k)) [unat n..<unat n']) \<and>
    n \<le> n' \<and> unat n' \<le> e \<and> n' \<notin> S \<and> {n..<n'} \<subseteq> S"
  using assms(3)
proof (induction "e - unat n" arbitrary: n rule: less_induct)
  case less
  show ?case
  proof (cases "n \<in> S")
    case False
    then show ?thesis using less.prems by (intro exI [of _ n]) (auto simp: rx_release.simps [of n] held_def)
  next
    case True
    then have lt: "unat n < e" using assms(1) by auto
    then have "n \<noteq> - 1" using assms(2) by (auto simp: unsigned_minus_1_eq_mask mask_eq_exp_minus_1)
    then have un: "unat (n + 1) = Suc (unat n)" by (simp add: unat_plus_one)
    have le: "n + 1 \<le> c \<longleftrightarrow> n \<le> c \<and> c \<noteq> n" for c :: u64
      by (auto simp: word_le_nat_alt word_unat_eq_iff un)
    have here: "held f S n n = Some (f n)" using True by (simp add: held_def)
    have rest: "(held f S n)(n := None) = held f S (n + 1)" by (auto simp: held_def le fun_eq_iff)
    obtain n' where r: "rx_release (n + 1) (held f S (n + 1)) = (n', held f S n', map (\<lambda>k. f (of_nat k)) [unat (n + 1)..<unat n'])"
      "n + 1 \<le> n'" "unat n' \<le> e" "n' \<notin> S" "{n + 1..<n'} \<subseteq> S"
    proof -
      have "e - unat (n + 1) < e - unat n" "unat (n + 1) \<le> e" using lt un by linarith+
      from less.hyps [OF this] show thesis using that by blast
    qed
    have "unat n < unat n'" using r(2) un by (simp add: word_le_nat_alt)
    then have up: "[unat n..<unat n'] = unat n # [unat (n + 1)..<unat n']" by (simp add: upt_conv_Cons un)
    have "{n..<n'} \<subseteq> insert n {n + 1..<n'}" by (auto simp: le)
    then have "n \<le> n'" "{n..<n'} \<subseteq> S" using r(2,5) True le by auto
    moreover have "rx_release n (held f S n) = (n', held f S n', map (\<lambda>k. f (of_nat k)) [unat n..<unat n'])"
      using r(1) here by (subst rx_release.simps) (simp add: rest up)
    ultimately show ?thesis using r(3,4) by blast
  qed
qed

lemma rx_run_held:
  assumes "S \<union> set cs \<subseteq> {c. unat c < e}" and "e < 2 ^ 64" and "unat n \<le> e" and "n \<notin> S"
  shows "\<exists>n'. rx_run \<lparr>rx_next = Some n, rx_buf = held f S n\<rparr> (map (\<lambda>c. (c, f c)) cs) =
      (\<lparr>rx_next = Some n', rx_buf = held f (S \<union> set cs) n'\<rparr>, map (\<lambda>k. f (of_nat k)) [unat n..<unat n']) \<and>
    n \<le> n' \<and> unat n' \<le> e \<and> n' \<notin> S \<union> set cs \<and> {n..<n'} \<subseteq> S \<union> set cs"
  using assms
proof (induction cs arbitrary: S n)
  case Nil
  then show ?case by (intro exI [of _ n]) auto
next
  case (Cons c cs)
  let ?S = "insert c S"
  have sub: "?S \<subseteq> {c. unat c < e}" using Cons.prems(1) by auto
  obtain n1 where p: "rx_push \<lparr>rx_next = Some n, rx_buf = held f S n\<rparr> c (f c) =
      (\<lparr>rx_next = Some n1, rx_buf = held f ?S n1\<rparr>, map (\<lambda>k. f (of_nat k)) [unat n..<unat n1])"
    and n1: "n \<le> n1" "unat n1 \<le> e" "n1 \<notin> ?S" "{n..<n1} \<subseteq> ?S"
  proof (cases "c < n")
    case True
    then have "held f S n = held f ?S n" by (auto simp: held_def fun_eq_iff not_le [symmetric])
    then show thesis using that [of n] True Cons.prems(3,4) by (auto simp: rx_push_def)
  next
    case False
    then have "(held f S n)(c \<mapsto> f c) = held f ?S n" by (auto simp: held_def fun_eq_iff)
    then show thesis using rx_release_held [OF sub Cons.prems(2,3), of f] False that by (auto simp: rx_push_def)
  qed
  obtain n2 where n2: "rx_run \<lparr>rx_next = Some n1, rx_buf = held f ?S n1\<rparr> (map (\<lambda>c. (c, f c)) cs) =
      (\<lparr>rx_next = Some n2, rx_buf = held f (?S \<union> set cs) n2\<rparr>, map (\<lambda>k. f (of_nat k)) [unat n1..<unat n2])"
    "n1 \<le> n2" "unat n2 \<le> e" "n2 \<notin> ?S \<union> set cs" "{n1..<n2} \<subseteq> ?S \<union> set cs"
    using Cons.IH [of ?S n1] Cons.prems(1,2) n1 by auto
  have out: "map (\<lambda>k. f (of_nat k)) [unat n..<unat n1] @ map (\<lambda>k. f (of_nat k)) [unat n1..<unat n2] = map (\<lambda>k. f (of_nat k)) [unat n..<unat n2]"
    using upt_add_eq_append [of "unat n" "unat n1" "unat n2 - unat n1"] n1(1) n2(2) by (simp add: word_le_nat_alt flip: map_append)
  have all: "S \<union> set (c # cs) = ?S \<union> set cs" by auto
  have "rx_run \<lparr>rx_next = Some n, rx_buf = held f S n\<rparr> (map (\<lambda>c. (c, f c)) (c # cs)) =
      (\<lparr>rx_next = Some n2, rx_buf = held f (?S \<union> set cs) n2\<rparr>, map (\<lambda>k. f (of_nat k)) [unat n..<unat n2])"
    using p n2(1) out by simp
  moreover have "{n..<n2} \<subseteq> {n..<n1} \<union> {n1..<n2}" by auto
  ultimately show ?case unfolding all using n1 n2(2-5) by (intro exI [of _ n2] conjI) (assumption | force)+
qed

text \<open>
  Tunnel ordering: frames of one stream pushed into an anchored reorder buffer in any order and
  with any repetition come out as the stream itself, each counter once and in order, up to the first
  counter that never arrived; what arrived beyond it is held back and nothing else is.
\<close>

theorem tunnel_delivers_in_order:
  fixes f :: "u64 \<Rightarrow> bytes"
  assumes "\<forall>c \<in> set cs. c \<noteq> - 1" and "a \<noteq> - 1"
  shows "\<exists>n. rx_run \<lparr>rx_next = Some a, rx_buf = Map.empty\<rparr> (map (\<lambda>c. (c, f c)) cs) =
      (\<lparr>rx_next = Some n, rx_buf = (\<lambda>c. if c \<in> set cs \<and> n \<le> c then Some (f c) else None)\<rparr>,
       map (\<lambda>k. f (of_nat k)) [unat a..<unat n]) \<and>
    a \<le> n \<and> n \<notin> set cs \<and> {a..<n} \<subseteq> set cs"
proof -
  have "unat c < 2 ^ 64 - 1" if "c \<noteq> - 1" for c :: u64
    using that unat_bound [of c] by (auto simp: word_unat_eq_iff unsigned_minus_1_eq_mask mask_eq_exp_minus_1)
  then have "{} \<union> set cs \<subseteq> {c. unat c < 2 ^ 64 - 1}" "unat a \<le> 2 ^ 64 - 1" using assms by (auto intro: less_imp_le)
  moreover have "held f {} a = Map.empty" by (simp add: held_def)
  ultimately show ?thesis using rx_run_held [of "{}" cs "2 ^ 64 - 1" a f] by (auto simp: held_def)
qed

theorem tunnel_delivers_in_order_witness:
  "snd (rx_run \<lparr>rx_next = Some 5, rx_buf = Map.empty\<rparr> [(7, [7]), (5, [5]), (5, [5]), (6, [6]), (9, [9])]) = [[5], [6], [7]]"
proof -
  obtain n where n: "rx_run \<lparr>rx_next = Some 5, rx_buf = Map.empty\<rparr> (map (\<lambda>c. (c, [ucast c])) [7, 5, 5, 6, 9]) =
      (\<lparr>rx_next = Some n, rx_buf = (\<lambda>c. if c \<in> set [7, 5, 5, 6, 9] \<and> n \<le> c then Some [ucast c] else None)\<rparr>,
       map (\<lambda>k. [ucast (of_nat k :: u64)]) [unat (5 :: u64)..<unat n])" "5 \<le> n" "n \<notin> set [7, 5, 5, 6, 9]" "{5..<n} \<subseteq> set [7, 5, 5, 6, 9]"
    using tunnel_delivers_in_order [of "[7, 5, 5, 6, 9]" 5 "\<lambda>c. [ucast c]"] by auto
  have "\<not> 8 < n" using n(4) by (auto simp: subset_iff dest!: spec [of _ 8])
  then have "unat n \<le> 8" "5 \<le> unat n" using n(2) by (simp_all add: word_less_nat_alt word_le_nat_alt)
  moreover have "unat n \<noteq> 5" "unat n \<noteq> 6" "unat n \<noteq> 7" using n(3) by (auto simp: word_unat_eq_iff)
  ultimately have "unat n = 8" by linarith
  then show ?thesis using n(1) by (simp add: upt_rec)
qed

end
