(* ===== verification/Node.thy ===== *)
theory Node
  imports Session Transport
begin

unbundle bit_operations_syntax

text \<open>
  The node's worker path: src/src/ghost/mod.rs (\<open>decode_data_frame\<close>: parse, find the session by its
  hash, open, unframe, replay check) and the session-hash dispatcher of
  src/src/ghost/net/dispatcher.rs. The concurrent session map is a list in its iteration order; the
  comparison of hex-encoded hashes is equality of the bytes.
\<close>

section \<open>Opening a data frame\<close>

text \<open>The two directions tried, in order.\<close>

definition open_either ::
  "crates \<Rightarrow> session \<Rightarrow> gtf_v2_header \<Rightarrow> bytes \<Rightarrow> bytes option" where
  "open_either C s header sealed =
     (let ours = seal_direction s;
          aad = (if gh_bulk header then [] else gh_tail header);
          try = (\<lambda>dir. xchacha_open_with_aad C (se_master_key s) (gh_nonce header) (gh_epoch header) dir sealed aad)
      in case try (peer_direction ours) of Some m \<Rightarrow> Some m | None \<Rightarrow> try ours)"

text \<open>The loop over the sessions: the first one with the frame's hash decides.\<close>

fun decode_with ::
  "crates \<Rightarrow> instant \<Rightarrow> session list \<Rightarrow> bytes \<Rightarrow> u64 \<Rightarrow> gtf_v2_header \<Rightarrow> bytes \<Rightarrow> nat \<Rightarrow>
   session list \<times> nat \<times> bytes option" where
  "decode_with C now [] hash counter header sealed drops = ([], drops, None)"
| "decode_with C now (s # ss) hash counter header sealed drops =
     (if take 4 (se_session_hash s) \<noteq> hash
      then (case decode_with C now ss hash counter header sealed drops of (ss', d, r) \<Rightarrow> (s # ss', d, r))
      else
        (case open_either C s header sealed of
           None \<Rightarrow> (s # ss, drops + 1, None)
         | Some plain \<Rightarrow>
             (case unframe plain of
                None \<Rightarrow> (s # ss, drops + 1, None)
              | Some framed \<Rightarrow>
                  (case check_inbound s now counter of
                     (s', ok) \<Rightarrow> if ok then (s' # ss, drops, Some framed) else (s' # ss, drops + 1, None)))))"

definition decode_data_frame ::
  "crates \<Rightarrow> instant \<Rightarrow> session list \<Rightarrow> bytes \<Rightarrow> nat \<Rightarrow> session list \<times> nat \<times> bytes option" where
  "decode_data_frame C now sessions packet drops =
     (if length packet \<le> OFFSET_SHARD_INDEX then (sessions, drops + 1, None)
      else if unat (packet ! OFFSET_SHARD_INDEX) > 2 then (sessions, drops + 1, None)
      else
        (let counter = parse_packet_counter_u64 packet
         in case parse_gtf_v2_header packet of
              None \<Rightarrow> (sessions, drops + 1, None)
            | Some header \<Rightarrow>
                (let hash = parse_session_hash packet;
                     sealed = extract_payload packet;
                     tag = extract_auth_tag packet
                 in if length tag \<noteq> 16 then (sessions, drops + 1, None)
                    else decode_with C now sessions hash counter header (sealed @ tag) drops)))"

section \<open>The dispatcher\<close>

record dispatch_packet =
  dp_data :: bytes
  dp_src :: sock_addr
  dp_session_hash :: bytes
  dp_counter :: u32
  dp_shard_index :: u8

record dispatcher =
  di_queues :: "dispatch_packet list list"
  di_capacity :: nat
  di_num_workers :: nat
  di_dropped :: nat

definition dispatcher_new :: "nat \<Rightarrow> nat \<Rightarrow> dispatcher" where
  "dispatcher_new num_workers channel_capacity =
     \<lparr>di_queues = replicate num_workers [], di_capacity = channel_capacity, di_num_workers = num_workers, di_dropped = 0\<rparr>"

definition worker_id :: "bytes \<Rightarrow> nat \<Rightarrow> nat" where
  "worker_id h n = unat (h ! 0 XOR h ! 1 XOR h ! 2 XOR h ! 3) mod n"

text \<open>No workers: the remainder panics. The workers hold their receivers as long as the dispatcher
  lives, so \<open>Disconnected\<close> does not occur; capacities are positive (a channel of capacity 0 would be a
  rendezvous).\<close>

definition dispatch :: "dispatcher \<Rightarrow> bytes \<Rightarrow> sock_addr \<Rightarrow> (dispatcher \<times> bool, unit) rust" where
  "dispatch d buf src =
     (if length buf < MIN_FRAME_SIZE then Ok (d\<lparr>di_dropped := di_dropped d + 1\<rparr>, False)
      else if di_num_workers d = 0 then Panic
      else
        (let session_hash = parse_session_hash buf;
             w = worker_id session_hash (di_num_workers d);
             packet = \<lparr>dp_data = buf, dp_src = src, dp_session_hash = session_hash,
                       dp_counter = parse_packet_counter buf,
                       dp_shard_index = (if length buf > 8 then buf ! 8 else 0)\<rparr>
         in if length (di_queues d ! w) < di_capacity d
            then Ok (d\<lparr>di_queues := (di_queues d)[w := di_queues d ! w @ [packet]]\<rparr>, True)
            else Ok (d\<lparr>di_dropped := di_dropped d + 1\<rparr>, False)))"

text \<open>A worker takes the head of its channel.\<close>

definition worker_recv :: "dispatcher \<Rightarrow> nat \<Rightarrow> dispatcher \<times> dispatch_packet option" where
  "worker_recv d w =
     (case di_queues d ! w of
        [] \<Rightarrow> (d, None)
      | p # ps \<Rightarrow> (d\<lparr>di_queues := (di_queues d)[w := ps]\<rparr>, Some p))"

section \<open>Replay\<close>

lemma g64_accepts_once:
  assumes "g64_check_and_update g now c = (g', True)"
  shows "g64_check_and_update g' now' c = (g', False)"
proof -
  have s0: "sat_sub c c = 0" by (simp add: sat_sub_def)
  from assms consider
      "c > g64_v_max g" "g64_v_max g' = c" "bit (g64_bitmask g') 0"
    | "\<not> c > g64_v_max g" "g64_v_max g' = g64_v_max g" "sat_sub (g64_v_max g) c < 128"
      "bit (g64_bitmask g') (unat (sat_sub (g64_v_max g) c))"
    by (auto simp: g64_check_and_update_def Let_def bit_or_iff bit_exp_iff not_le word_less_nat_alt split: if_splits)
  then show ?thesis
  proof cases
    case 1
    then show ?thesis by (simp add: g64_check_and_update_def Let_def s0 and_exp_eq_0_iff_not_bit [of _ 0, simplified])
  next
    case 2
    then show ?thesis by (auto simp: g64_check_and_update_def Let_def and_exp_eq_0_iff_not_bit)
  qed
qed

lemma check_inbound_refused: "check_inbound s now c = (s', False) \<Longrightarrow> s' = s"
  by (auto simp: check_inbound_def g64_check_and_update_def Let_def split: prod.splits if_splits)

lemma check_inbound_once:
  "check_inbound s now c = (s', True) \<Longrightarrow> check_inbound s' now' c = (s', False)"
  using g64_accepts_once [of "se_guard s" now c _ now'] by (auto simp: check_inbound_def split: prod.splits)

lemma decode_with_at:
  assumes "\<forall>r \<in> set pre. take 4 (se_session_hash r) \<noteq> hash" and "take 4 (se_session_hash s) = hash"
  shows "decode_with C now (pre @ s # post) hash c h x drops =
    (case open_either C s h x of
       None \<Rightarrow> (pre @ s # post, drops + 1, None)
     | Some plain \<Rightarrow>
         (case unframe plain of
            None \<Rightarrow> (pre @ s # post, drops + 1, None)
          | Some framed \<Rightarrow>
              (case check_inbound s now c of
                 (s', ok) \<Rightarrow> if ok then (pre @ s' # post, drops, Some framed) else (pre @ s' # post, drops + 1, None))))"
  using assms(1)
proof (induction pre)
  case Nil
  then show ?case using assms(2) by (auto split: option.splits prod.splits)
next
  case (Cons r pre)
  then show ?case by (auto split: option.splits prod.splits)
qed

lemma decode_with_result:
  "case decode_with C now ss hash c h x drops of
     (ss', d, None) \<Rightarrow> ss' = ss
   | (ss', d, Some body) \<Rightarrow> d = drops \<and> (\<exists>i plain. i < length ss \<and> take 4 (se_session_hash (ss ! i)) = hash \<and>
       open_either C (ss ! i) h x = Some plain \<and> unframe plain = Some body \<and>
       snd (check_inbound (ss ! i) now c) \<and> ss' = ss[i := fst (check_inbound (ss ! i) now c)])"
proof (induction ss)
  case (Cons s ss)
  show ?case
  proof (cases "take 4 (se_session_hash s) = hash")
    case False
    obtain ss' d r where rec: "decode_with C now ss hash c h x drops = (ss', d, r)" by (metis prod_cases3)
    show ?thesis
    proof (cases r)
      case None
      then show ?thesis using Cons.IH rec False by simp
    next
      case (Some body)
      then obtain i plain where i: "i < length ss" "take 4 (se_session_hash (ss ! i)) = hash"
        "open_either C (ss ! i) h x = Some plain" "unframe plain = Some body"
        "snd (check_inbound (ss ! i) now c)" "ss' = ss[i := fst (check_inbound (ss ! i) now c)]" "d = drops"
        using Cons.IH rec by auto
      then show ?thesis using rec False Some by (auto intro!: exI [of _ "Suc i"])
    qed
  next
    case True
    then show ?thesis
      by (auto split: option.splits prod.splits dest: check_inbound_refused intro!: exI [of _ 0])
  qed
qed simp

section \<open>Properties\<close>

text \<open>
  Decrypt before touching the guard: whatever bytes arrive, a frame that is refused changes no
  session at all, and a frame that is accepted authenticated under the session whose hash it
  carries, unframed to the returned body, had a fresh counter, and moved that one session's guard.
\<close>

theorem refused_frames_change_nothing:
  "case decode_data_frame C now ss p drops of
     (ss', d, None) \<Rightarrow> ss' = ss
   | (ss', d, Some body) \<Rightarrow> d = drops \<and> (\<exists>i header plain. i < length ss \<and> parse_gtf_v2_header p = Some header \<and>
       take 4 (se_session_hash (ss ! i)) = parse_session_hash p \<and>
       open_either C (ss ! i) header (extract_payload p @ extract_auth_tag p) = Some plain \<and> unframe plain = Some body \<and>
       snd (check_inbound (ss ! i) now (parse_packet_counter_u64 p)) \<and>
       ss' = ss[i := fst (check_inbound (ss ! i) now (parse_packet_counter_u64 p))])"
proof (cases "parse_gtf_v2_header p")
  case None
  then show ?thesis by (simp add: decode_data_frame_def Let_def)
next
  case (Some header)
  have "decode_data_frame C now ss p drops =
      (if length p \<le> 8 \<or> unat (p ! 8) > 2 \<or> length (extract_auth_tag p) \<noteq> 16 then (ss, drops + 1, None)
       else decode_with C now ss (parse_session_hash p) (parse_packet_counter_u64 p) header
              (extract_payload p @ extract_auth_tag p) drops)"
    by (auto simp: decode_data_frame_def Let_def Some OFFSET_SHARD_INDEX_def)
  then show ?thesis
    using decode_with_result [where C = C and now = now and ss = ss and hash = "parse_session_hash p" and
        c = "parse_packet_counter_u64 p" and h = header and x = "extract_payload p @ extract_auth_tag p" and drops = drops] Some
    by (auto split: prod.splits option.splits)
qed

text \<open>The frame a sender makes for a session: the length-framed body sealed with the tail as associated data.\<close>

definition seal_frame :: "crates \<Rightarrow> bytes \<Rightarrow> nonce_direction \<Rightarrow> gtf_v2_header \<Rightarrow> bytes \<Rightarrow> (bytes, string) rust" where
  "seal_frame C key dir h body =
     (let sealed = xchacha_seal_in_place_with_aad C key (gh_nonce h) (gh_epoch h) dir (frame_shard body) (gh_tail h)
      in try_build_gtf_v2_frame h (take (length sealed - 16) sealed) (drop (length sealed - 16) sealed))"

lemma seal_frame_decodes:
  assumes "xchacha_law C" and "header_ok h" and "\<not> gh_bulk h" and "\<not> bit (gh_flags h) 0"
    and "unat (gh_shard_index h) \<le> 2" and "length body = 456"
    and "gh_session_hash h = take 4 (se_session_hash s)" and "\<forall>r \<in> set pre. take 4 (se_session_hash r) \<noteq> gh_session_hash h"
  obtains p where "seal_frame C (se_master_key s) (peer_direction (seal_direction s)) h body = Ok p"
    and "\<And>now drops. decode_data_frame C now (pre @ s # post) p drops =
      (case check_inbound s now (gh_counter h) of
         (s', ok) \<Rightarrow> if ok then (pre @ s' # post, drops, Some body) else (pre @ s # post, drops + 1, None))"
proof -
  define sealed where "sealed = xchacha_seal_in_place_with_aad C (se_master_key s) (gh_nonce h) (gh_epoch h)
      (peer_direction (seal_direction s)) (frame_shard body) (gh_tail h)"
  have l: "length sealed = 474"
    using assms(6) by (simp add: sealed_def xchacha_seal_in_place_with_aad_def xchacha_lawD(1) [OF assms(1)] frame_shard_def)
  obtain p where p: "try_build_gtf_v2_frame h (take 458 sealed) (drop 458 sealed) = Ok p" "length p = 576"
    "parse_gtf_v2_header p = Some (received_header h)" "length (extract_payload p) = 458"
    "take 458 (extract_payload p) = take 458 sealed" "extract_auth_tag p = drop 458 sealed"
    "parse_session_hash p = gh_session_hash h" "p ! 8 = gh_shard_index h"
    by (rule v2_frame_reads [OF assms(2), of "drop 458 sealed" "take 458 sealed"]) (use assms(3,4) l in auto)
  have x: "extract_payload p @ extract_auth_tag p = sealed" using p(4-6) by simp
  have o: "open_either C s (received_header h) sealed = Some (frame_shard body)"
    using assms(3) xchacha_lawD(2) [OF assms(1)]
    by (simp add: open_either_def Let_def received_header_def sealed_def xchacha_open_with_aad_def
        xchacha_seal_in_place_with_aad_def)
  have u: "unframe (frame_shard body) = Some body"
    using unframe_frame_shard [of body "[]"] assms(6) by auto
  have c: "parse_packet_counter_u64 p = gh_counter h" using p(3) by (simp add: parse_packet_counter_u64_def received_header_def)
  show thesis
  proof (rule that)
    show "seal_frame C (se_master_key s) (peer_direction (seal_direction s)) h body = Ok p"
      unfolding seal_frame_def sealed_def [symmetric] Let_def using p(1) l by simp
    fix now drops
    show "decode_data_frame C now (pre @ s # post) p drops =
      (case check_inbound s now (gh_counter h) of
         (s', ok) \<Rightarrow> if ok then (pre @ s' # post, drops, Some body) else (pre @ s # post, drops + 1, None))"
      using p(2,3,6,7,8) assms(5) l x c decode_with_at [OF assms(8), of s] assms(7) o u
      by (auto simp: decode_data_frame_def Let_def OFFSET_SHARD_INDEX_def split: prod.splits
          dest: check_inbound_refused)
  qed
qed

text \<open>
  A frame sealed by the peer of a session opens at the node, whatever other sessions it holds:
  the body comes back and the session's guard takes the counter; the same frame a second time is
  dropped and changes nothing.
\<close>

theorem worker_frame_opens_once:
  assumes "xchacha_law C" and "header_ok h" and "\<not> gh_bulk h" and "\<not> bit (gh_flags h) 0"
    and "unat (gh_shard_index h) \<le> 2" and "length body = 456"
    and "gh_session_hash h = take 4 (se_session_hash s)" and "\<forall>r \<in> set pre. take 4 (se_session_hash r) \<noteq> gh_session_hash h"
    and "check_inbound s now (gh_counter h) = (s', True)"
  shows "\<exists>p. seal_frame C (se_master_key s) (peer_direction (seal_direction s)) h body = Ok p \<and>
    decode_data_frame C now (pre @ s # post) p drops = (pre @ s' # post, drops, Some body) \<and>
    decode_data_frame C now' (pre @ s' # post) p drops' = (pre @ s' # post, drops' + 1, None)"
proof -
  have f: "se_session_hash s' = se_session_hash s" "se_master_key s' = se_master_key s" "seal_direction s' = seal_direction s"
    using assms(9) by (auto simp: check_inbound_def seal_direction_def split: prod.splits)
  obtain p where p: "seal_frame C (se_master_key s) (peer_direction (seal_direction s)) h body = Ok p"
    "\<And>now drops. decode_data_frame C now (pre @ s # post) p drops =
      (case check_inbound s now (gh_counter h) of
         (s', ok) \<Rightarrow> if ok then (pre @ s' # post, drops, Some body) else (pre @ s # post, drops + 1, None))"
    by (rule seal_frame_decodes [OF assms(1-8)]) blast
  obtain q where q: "seal_frame C (se_master_key s') (peer_direction (seal_direction s')) h body = Ok q"
    "\<And>now drops. decode_data_frame C now (pre @ s' # post) q drops =
      (case check_inbound s' now (gh_counter h) of
         (s'', ok) \<Rightarrow> if ok then (pre @ s'' # post, drops, Some body) else (pre @ s' # post, drops + 1, None))"
    by (rule seal_frame_decodes [OF assms(1-6) assms(7) [folded f(1)] assms(8)]) blast
  have "q = p" using p(1) q(1) f by simp
  then show ?thesis using p q assms(9) check_inbound_once [OF assms(9)] by auto
qed

text \<open>A fresh session and a header for it.\<close>

definition demo_header :: "u64 \<Rightarrow> gtf_v2_header" where
  "demo_header c = \<lparr>gh_session_hash = take 4 (se_session_hash demo_b), gh_counter = c, gh_epoch = 0, gh_nonce = zeros 12,
     gh_shard_index = 0, gh_flags = 0, gh_bulk = False, gh_tail = zeros 64\<rparr>"

lemma demo_header_ok: "header_ok (demo_header c)"
  by (simp add: header_ok_def demo_header_def demo_b_def new_with_role_def compute_session_hash_def
      hash_lawD(3) [OF demo_laws(3)])

lemma demo_guard_accepts: "snd (check_inbound demo_b 1 5)"
  by (simp add: check_inbound_def demo_b_def new_with_role_def g64_new_def g64_check_and_update_def g64_is_valid_def
      SESSION_HARD_TIMEOUT_def SESSION_IDLE_TIMEOUT_def secs_def sat_sub_def Let_def split: prod.splits)

theorem worker_frame_opens_once_witness:
  "\<exists>p s'. decode_data_frame demo_crates 1 [demo_b] p 0 = ([s'], 0, Some (zeros 456)) \<and>
     decode_data_frame demo_crates 2 [s'] p 0 = ([s'], 1, None)"
proof -
  obtain s' where s': "check_inbound demo_b 1 5 = (s', True)" using demo_guard_accepts by (cases "check_inbound demo_b 1 5") auto
  show ?thesis
    using worker_frame_opens_once [OF demo_laws(1) demo_header_ok [of 5], where s = demo_b and pre = "[]" and post = "[]"
        and body = "zeros 456" and now = 1 and s' = s' and drops = 0 and now' = 2 and drops' = 0] s'
    by (auto simp: demo_header_def)
qed

text \<open>
  On this path the counter is neither in the nonce nor in the associated data: the same sealed body
  under a rewritten, fresh counter is accepted again.
\<close>

theorem rewritten_counter_is_accepted:
  assumes "xchacha_law C" and "header_ok h" and "\<not> gh_bulk h" and "\<not> bit (gh_flags h) 0"
    and "unat (gh_shard_index h) \<le> 2" and "length body = 456"
    and "gh_session_hash h = take 4 (se_session_hash s)" and "check_inbound s now c' = (s', True)"
  shows "\<exists>p p'. seal_frame C (se_master_key s) (peer_direction (seal_direction s)) h body = Ok p \<and>
    seal_frame C (se_master_key s) (peer_direction (seal_direction s)) (h\<lparr>gh_counter := c'\<rparr>) body = Ok p' \<and>
    extract_payload p' @ extract_auth_tag p' = extract_payload p @ extract_auth_tag p \<and>
    decode_data_frame C now [s] p' drops = ([s'], drops, Some body)"
proof -
  define sealed where "sealed = xchacha_seal_in_place_with_aad C (se_master_key s) (gh_nonce h) (gh_epoch h)
      (peer_direction (seal_direction s)) (frame_shard body) (gh_tail h)"
  have l: "length sealed = 474"
    using assms(6) by (simp add: sealed_def xchacha_seal_in_place_with_aad_def xchacha_lawD(1) [OF assms(1)] frame_shard_def)
  have x: "\<exists>q. seal_frame C (se_master_key s) (peer_direction (seal_direction s)) (h\<lparr>gh_counter := c\<rparr>) body = Ok q \<and>
      extract_payload q @ extract_auth_tag q = sealed" for c
  proof -
    obtain q where "try_build_gtf_v2_frame (h\<lparr>gh_counter := c\<rparr>) (take 458 sealed) (drop 458 sealed) = Ok q"
      "length (extract_payload q) = 458" "take 458 (extract_payload q) = take 458 sealed" "extract_auth_tag q = drop 458 sealed"
      by (rule v2_frame_reads [of "h\<lparr>gh_counter := c\<rparr>" "drop 458 sealed" "take 458 sealed"])
        (use assms(2,3,4) l in \<open>auto simp: header_ok_def\<close>)
    then show ?thesis using l by (simp add: seal_frame_def sealed_def [symmetric])
  qed
  obtain p' where p': "seal_frame C (se_master_key s) (peer_direction (seal_direction s)) (h\<lparr>gh_counter := c'\<rparr>) body = Ok p'"
    "\<And>now drops. decode_data_frame C now ([] @ s # []) p' drops =
      (case check_inbound s now (gh_counter (h\<lparr>gh_counter := c'\<rparr>)) of
         (s', ok) \<Rightarrow> if ok then ([] @ s' # [], drops, Some body) else ([] @ s # [], drops + 1, None))"
    by (rule seal_frame_decodes [OF assms(1), of "h\<lparr>gh_counter := c'\<rparr>" body s "[]" "[]"])
      (use assms(2-7) in \<open>auto simp: header_ok_def\<close>)
  show ?thesis using x [of "gh_counter h"] x [of c'] p' assms(8) by auto
qed

section \<open>Dispatch order\<close>

datatype dispatch_event = Arrive bytes sock_addr | Take nat

text \<open>A run, with the packets that were enqueued and those the workers took, in order.\<close>

fun dispatch_run ::
  "dispatcher \<Rightarrow> dispatch_event list \<Rightarrow> dispatcher \<times> dispatch_packet list \<times> (nat \<times> dispatch_packet) list" where
  "dispatch_run d [] = (d, [], [])"
| "dispatch_run d (Arrive buf src # evs) =
     (case dispatch d buf src of
        Ok (d', ok) \<Rightarrow>
          (case dispatch_run d' evs of (d'', enq, got) \<Rightarrow>
             (d'', if ok then last (di_queues d' ! worker_id (parse_session_hash buf) (di_num_workers d)) # enq else enq, got))
      | _ \<Rightarrow> dispatch_run d evs)"
| "dispatch_run d (Take w # evs) =
     (if w < di_num_workers d
      then (case worker_recv d w of (d', p) \<Rightarrow>
              (case dispatch_run d' evs of (d'', enq, got) \<Rightarrow>
                 (d'', enq, case p of Some p \<Rightarrow> (w, p) # got | None \<Rightarrow> got)))
      else dispatch_run d evs)"

definition routed :: "nat \<Rightarrow> nat \<Rightarrow> dispatch_packet list \<Rightarrow> dispatch_packet list" where
  "routed n w ps = filter (\<lambda>p. worker_id (dp_session_hash p) n = w) ps"

definition taken_by :: "nat \<Rightarrow> (nat \<times> dispatch_packet) list \<Rightarrow> dispatch_packet list" where
  "taken_by w got = map snd (filter (\<lambda>(v, p). v = w) got)"

lemma dispatch_cases:
  assumes "0 < di_num_workers d" and "length (di_queues d) = di_num_workers d"
  obtains (dropped) "dispatch d buf src = Ok (d\<lparr>di_dropped := di_dropped d + 1\<rparr>, False)"
    | (queued) p where "dispatch d buf src =
        Ok (d\<lparr>di_queues := (di_queues d)[worker_id (parse_session_hash buf) (di_num_workers d) :=
          di_queues d ! worker_id (parse_session_hash buf) (di_num_workers d) @ [p]]\<rparr>, True)"
      "dp_session_hash p = parse_session_hash buf" "worker_id (parse_session_hash buf) (di_num_workers d) < length (di_queues d)"
proof -
  have "worker_id (parse_session_hash buf) (di_num_workers d) < length (di_queues d)"
    using assms by (simp add: worker_id_def)
  note w = this
  let ?p = "\<lparr>dp_data = buf, dp_src = src, dp_session_hash = parse_session_hash buf,
    dp_counter = parse_packet_counter buf, dp_shard_index = (if length buf > 8 then buf ! 8 else 0)\<rparr>"
  show thesis
  proof (cases "length buf < MIN_FRAME_SIZE \<or>
      \<not> length (di_queues d ! worker_id (parse_session_hash buf) (di_num_workers d)) < di_capacity d")
    case True
    then show thesis using assms(1) by (intro dropped) (auto simp: dispatch_def Let_def)
  next
    case False
    then show thesis using assms(1) w by (intro queued [of ?p]) (auto simp: dispatch_def Let_def)
  qed
qed

lemma dispatch_run_fifo:
  assumes "0 < di_num_workers d" and "length (di_queues d) = di_num_workers d" and "w < di_num_workers d"
  shows "case dispatch_run d evs of (d', enq, got) \<Rightarrow>
    taken_by w got @ di_queues d' ! w = di_queues d ! w @ routed (di_num_workers d) w enq"
  using assms(1,2,3)
proof (induction evs arbitrary: d)
  case Nil
  then show ?case by (simp add: taken_by_def routed_def)
next
  case (Cons ev evs)
  note n = Cons.prems
  show ?case
  proof (cases ev)
    case (Arrive buf src)
    from n(1,2) show ?thesis
    proof (cases rule: dispatch_cases [where buf = buf and src = src])
      case dropped
      then show ?thesis using Cons.IH [of "d\<lparr>di_dropped := di_dropped d + 1\<rparr>"] n Arrive by (auto split: prod.splits)
    next
      case (queued p)
      let ?v = "worker_id (parse_session_hash buf) (di_num_workers d)"
      let ?d = "d\<lparr>di_queues := (di_queues d)[?v := di_queues d ! ?v @ [p]]\<rparr>"
      have IH: "case dispatch_run ?d evs of (d', enq, got) \<Rightarrow>
          taken_by w got @ di_queues d' ! w = di_queues ?d ! w @ routed (di_num_workers d) w enq"
        using Cons.IH [of ?d] n by simp
      show ?thesis using IH queued Arrive n
        by (auto simp: routed_def nth_list_update split: prod.splits if_splits)
    qed
  next
    case (Take v)
    show ?thesis
    proof (cases "v < di_num_workers d \<and> di_queues d ! v \<noteq> []")
      case True
      then obtain p ps where q: "di_queues d ! v = p # ps" by (cases "di_queues d ! v") auto
      let ?d = "d\<lparr>di_queues := (di_queues d)[v := ps]\<rparr>"
      have IH: "case dispatch_run ?d evs of (d', enq, got) \<Rightarrow>
          taken_by w got @ di_queues d' ! w = di_queues ?d ! w @ routed (di_num_workers d) w enq"
        using Cons.IH [of ?d] n by simp
      show ?thesis using IH True q Take n
        by (auto simp: worker_recv_def taken_by_def nth_list_update split: prod.splits if_splits)
    next
      case False
      then show ?thesis using Cons.IH [OF n] Take by (auto simp: worker_recv_def split: prod.splits list.splits)
    qed
  qed
qed

text \<open>
  Per-session order: in every run of arrivals and worker steps, what a worker has taken followed
  by what waits in its channel is exactly the sequence of enqueued packets whose session hash routes
  to it, in arrival order; so the packets of one session are all processed by one worker, in order.
\<close>

theorem dispatch_keeps_session_order:
  assumes "0 < n" and "w < n"
  shows "case dispatch_run (dispatcher_new n cap) evs of (d', enq, got) \<Rightarrow>
    taken_by w got @ di_queues d' ! w = routed n w enq"
  using dispatch_run_fifo [of "dispatcher_new n cap" w evs] assms by (simp add: dispatcher_new_def)

theorem dispatch_keeps_session_order_witness:
  "case dispatch_run (dispatcher_new 2 4) [Arrive (zeros 32) demo_addr, Take 0, Arrive (zeros 40) demo_addr] of (d', enq, got) \<Rightarrow>
     taken_by 0 got @ di_queues d' ! 0 = routed 2 0 enq"
  by (rule dispatch_keeps_session_order) simp_all

end
