(* ===== verification/Receive.thy ===== *)
theory Receive
  imports Rekey Spool Node
begin

unbundle bit_operations_syntax

text \<open>
  The receive path of the daemon, src/src/main.rs: \<open>RxContext::ingest\<close> takes a datagram through the
  dispatcher, the per-shard opening and the spool to a whole message, and the data branch of
  \<open>handle_pkt\<close> opens it for one of the node's sessions, drops cover traffic, installs a prepared
  epoch, checks the replay window and hands the payload to the ratchet, quantum-mix and identity
  handlers, before anything else of it may reach an application. The sender's side is \<open>enc_split\<close>.
  The concurrent session map is walked in the order \<open>order\<close>. What an accepted application payload
  does further on (gossip, relaying, tunnels) is outside this theory; counters of statistics,
  logging and the tables of tunnels a goodbye clears are left out.
\<close>

section \<open>Sealing a message\<close>

definition data_flags :: "bool \<Rightarrow> u8 \<Rightarrow> u8" where
  "data_flags shardsec flags = (if shardsec then flags OR FLAG_SHARDSEC else flags)"

definition data_header :: "crates \<Rightarrow> bool \<Rightarrow> seal_ctx \<Rightarrow> u8 \<Rightarrow> bool \<Rightarrow> u8 \<Rightarrow> gtf_v2_header" where
  "data_header C shardsec ctx shard_index bulk flags = ctx_header C ctx shard_index bulk (data_flags shardsec flags)"

text \<open>The inner frame: length prefix, payload, padding to an even length.\<close>

definition inner_frame :: "bytes \<Rightarrow> bytes" where
  "inner_frame pay =
     (let framed = be_u16 (of_nat (length pay)) @ pay
      in if length framed mod 2 \<noteq> 0 then framed @ [0] else framed)"

definition enc_split :: "crates \<Rightarrow> bool \<Rightarrow> seal_ctx \<Rightarrow> bytes \<Rightarrow> (bytes list \<times> bytes, unit) rust" where
  "enc_split C shardsec ctx pay =
     (if shardsec then
        (case rs_encode C (inner_frame pay) of
           Ok (_, shards) \<Rightarrow>
             Ok (map (\<lambda>(index, shard).
                   (let sealed = seal_shard C (sc_key ctx) (sc_epoch ctx) (sc_nonce ctx) (sc_direction ctx) (of_nat index) shard
                    in frame_shard (ss_ciphertext sealed @ ss_tag sealed))) (enumerate 0 shards), zeros 16)
         | _ \<Rightarrow> Panic)
      else
        (let framed = xchacha_seal_in_place_with_aad C (sc_key ctx) (sc_nonce ctx) (sc_epoch ctx) (sc_direction ctx) (inner_frame pay)
                        (tail_for C (sc_key ctx) (sc_nonce ctx) (sc_epoch ctx) (sc_direction ctx));
             t = (if length framed \<ge> 16 then drop (length framed - 16) framed else zeros 16)
         in case rs_encode C framed of
              Ok (_, raw) \<Rightarrow> Ok (map frame_shard raw, t)
            | _ \<Rightarrow> Panic))"

text \<open>Three privacy frames; a shard that does not fit is logged and not sent.\<close>

definition send3_mixed :: "crates \<Rightarrow> bool \<Rightarrow> seal_ctx \<Rightarrow> bytes list \<Rightarrow> bytes \<Rightarrow> bytes list" where
  "send3_mixed C shardsec ctx f tag =
     List.map_filter (\<lambda>(i, shard). case try_build_gtf_v2_frame (data_header C shardsec ctx (of_nat i) False 0) shard tag of
                                     Ok frame \<Rightarrow> Some frame
                                   | _ \<Rightarrow> None) (enumerate 0 (take 3 f))"

text \<open>Frames built one after the other: a frame that cannot be built panics.\<close>

fun all_ok :: "('a, unit) rust list \<Rightarrow> ('a list, unit) rust" where
  "all_ok [] = Ok []"
| "all_ok (r # rs) =
     (case r of
        Ok x \<Rightarrow> (case all_ok rs of Ok xs \<Rightarrow> Ok (x # xs) | Err e \<Rightarrow> Err e | Panic \<Rightarrow> Panic)
      | Err e \<Rightarrow> Err e
      | Panic \<Rightarrow> Panic)"

definition send3 :: "crates \<Rightarrow> bool \<Rightarrow> seal_ctx \<Rightarrow> bytes list \<Rightarrow> bytes \<Rightarrow> (bytes list, unit) rust" where
  "send3 C shardsec ctx f tag =
     all_ok (map (\<lambda>(i, shard). build_gtf_v2_frame (data_header C shardsec ctx (of_nat i) False 0) shard tag) (enumerate 0 (take 3 f)))"

section \<open>Opening\<close>

record open_ctx =
  oc_peer_fp :: bytes
  oc_master_key :: bytes
  oc_session_hash :: bytes
  oc_role :: session_role

definition open_ctx_of :: "session \<Rightarrow> open_ctx" where
  "open_ctx_of s = \<lparr>oc_peer_fp = se_peer_fingerprint s, oc_master_key = se_master_key s,
                     oc_session_hash = se_session_hash s, oc_role = se_role s\<rparr>"

definition snapshot_of :: "(bytes \<rightharpoonup> session) \<Rightarrow> bytes list \<Rightarrow> open_ctx list" where
  "snapshot_of sessions order = map open_ctx_of (List.map_filter sessions order)"

definition open_directions :: "session_role \<Rightarrow> nonce_direction list" where
  "open_directions role = [peer_direction (seal_direction_of role), seal_direction_of role]"

text \<open>A refused plan: a gap over the skip bound asks for a forced step.\<close>

definition note_gap :: "instant \<Rightarrow> session \<Rightarrow> u64 \<Rightarrow> nonce_direction \<Rightarrow> u64 \<Rightarrow> session" where
  "note_gap now s epoch dir ctr =
     (if gap_exceeds_max_skip (se_ratchet s) epoch dir ctr then fst (trigger_forced_ratchet_step s now) else s)"

fun open_v2 ::
  "crates \<Rightarrow> instant \<Rightarrow> bytes \<Rightarrow> u64 \<Rightarrow> v2_frame_meta \<Rightarrow> session \<Rightarrow> nonce_direction list \<Rightarrow> session \<times> bytes option" where
  "open_v2 C now data ctr meta s [] = (s, None)"
| "open_v2 C now data ctr meta s (dir # dirs) =
     (let p = plan_open C (se_ratchet s) (vm_epoch meta) dir ctr
      in if p = Refused then open_v2 C now data ctr meta (note_gap now s (vm_epoch meta) dir ctr) dirs
         else case xchacha_open_with_aad C (plan_key p) (vm_nonce meta) (vm_epoch meta) dir data
                     (if vm_bulk meta then [] else vm_tail meta) of
           Some buf \<Rightarrow> (session_commit_open s (vm_epoch meta) dir p, Some buf)
         | None \<Rightarrow> open_v2 C now data ctr meta s dirs)"

fun open_v1 :: "crates \<Rightarrow> open_ctx \<Rightarrow> bytes \<Rightarrow> u32 \<Rightarrow> nonce_direction list \<Rightarrow> bytes option" where
  "open_v1 C ctx data ctr [] = None"
| "open_v1 C ctx data ctr (dir # dirs) =
     (case decrypt_in_place_with_context C (oc_master_key ctx) ctr (oc_session_hash ctx) dir data of
        Some buf \<Rightarrow> Some buf
      | None \<Rightarrow> open_v1 C ctx data ctr dirs)"

definition open_received_frame ::
  "crates \<Rightarrow> instant \<Rightarrow> open_ctx \<Rightarrow> session \<Rightarrow> bytes \<Rightarrow> u64 \<Rightarrow> v2_frame_meta option \<Rightarrow> session \<times> bytes option" where
  "open_received_frame C now ctx s data ctr v2 =
     (case v2 of
        Some meta \<Rightarrow> open_v2 C now data ctr meta s (open_directions (oc_role ctx))
      | None \<Rightarrow>
          (s, if unat ctr < 2 ^ 32
              then open_v1 C ctx data (ucast ctr) [InitiatorToResponder, ResponderToInitiator] else None))"

section \<open>Taking in a datagram\<close>

record rx_context =
  rc_connected :: bool
  rc_node :: node
  rc_spool :: spool_pool
  rc_dispatcher :: dispatcher

text \<open>What is handed to \<open>handle_pkt\<close>.\<close>

record delivery =
  dl_ctr :: u64
  dl_v2 :: "v2_frame_meta option"
  dl_payload :: bytes
  dl_src :: sock_addr
  dl_wire_session_hash :: "bytes option"

text \<open>Opening one shard of a per-shard sealed message, without a commit.\<close>

fun open_shard_dirs ::
  "crates \<Rightarrow> instant \<Rightarrow> u64 \<Rightarrow> v2_frame_meta \<Rightarrow> sealed_shard \<Rightarrow> session \<Rightarrow> nonce_direction list \<Rightarrow> session \<times> bytes option" where
  "open_shard_dirs C now ctr meta sealed s [] = (s, None)"
| "open_shard_dirs C now ctr meta sealed s (dir # dirs) =
     (let p = plan_open C (se_ratchet s) (vm_epoch meta) dir ctr
      in if p = Refused then open_shard_dirs C now ctr meta sealed (note_gap now s (vm_epoch meta) dir ctr) dirs
         else case open_shard C (plan_key p) (vm_epoch meta) (vm_nonce meta) dir sealed of
           Ok plain \<Rightarrow> (s, Some plain)
         | _ \<Rightarrow> open_shard_dirs C now ctr meta sealed s dirs)"

fun open_shard_any ::
  "crates \<Rightarrow> instant \<Rightarrow> u64 \<Rightarrow> v2_frame_meta \<Rightarrow> sealed_shard \<Rightarrow> node \<Rightarrow> open_ctx list \<Rightarrow> node \<times> bytes option" where
  "open_shard_any C now ctr meta sealed nd [] = (nd, None)"
| "open_shard_any C now ctr meta sealed nd (c # cs) =
     (case nd_sessions nd (oc_peer_fp c) of
        None \<Rightarrow> open_shard_any C now ctr meta sealed nd cs
      | Some s \<Rightarrow>
          (case open_shard_dirs C now ctr meta sealed s (open_directions (oc_role c)) of
             (s', Some plain) \<Rightarrow> (put_session nd (oc_peer_fp c) (Some s'), Some plain)
           | (s', None) \<Rightarrow> open_shard_any C now ctr meta sealed (put_session nd (oc_peer_fp c) (Some s')) cs))"

definition ingest_shardsec ::
  "crates \<Rightarrow> instant \<Rightarrow> bytes list \<Rightarrow> rx_context \<Rightarrow> bytes \<Rightarrow> sock_addr \<Rightarrow> v2_frame_meta \<Rightarrow> nat \<Rightarrow> bytes \<Rightarrow>
   (rx_context \<times> bytes option, unit) rust" where
  "ingest_shardsec C now order rx datagram src meta si sd =
     (if length sd < 16 then Ok (rx, None)
      else
        (let sealed = \<lparr>ss_index = of_nat si, ss_ciphertext = take (length sd - 16) sd, ss_tag = drop (length sd - 16) sd,
                       ss_is_honey = False\<rparr>;
             ctr = parse_packet_counter_u64 datagram;
             cands = filter (\<lambda>c. oc_session_hash c = parse_session_hash datagram) (snapshot_of (nd_sessions (rc_node rx)) order);
             (nd, opened) = open_shard_any C now ctr meta sealed (rc_node rx) cands;
             rx = rx\<lparr>rc_node := nd\<rparr>
         in case opened of
              None \<Rightarrow> Ok (rx, None)
            | Some plain_shard \<Rightarrow>
                (case assemble_shards C (rc_spool rx) (spool_key_of src datagram (Some meta)) si plain_shard of
                   Ok (spool, r) \<Rightarrow> Ok (rx\<lparr>rc_spool := spool\<rparr>, r)
                 | Err e \<Rightarrow> Err e
                 | Panic \<Rightarrow> Panic)))"

definition ingest ::
  "crates \<Rightarrow> instant \<Rightarrow> bytes list \<Rightarrow> rx_context \<Rightarrow> bytes \<Rightarrow> sock_addr \<Rightarrow> (rx_context \<times> delivery option, unit) rust" where
  "ingest C now order rx datagram src =
     (if \<not> rc_connected rx then Ok (rx, None)
      else if length datagram < MIN_FRAME_SIZE then Ok (rx, None)
      else case dispatch (rc_dispatcher rx) datagram src of
        Ok (d, _) \<Rightarrow>
          (let rx = rx\<lparr>rc_dispatcher := d\<rparr>;
               ctr = parse_packet_counter_u64 datagram;
               v2 = v2_meta_of datagram;
               deliver = (\<lambda>payload wire. \<lparr>dl_ctr = ctr, dl_v2 = v2, dl_payload = payload, dl_src = src, dl_wire_session_hash = wire\<rparr>)
           in if parse_flags datagram AND FLAG_TUNNEL \<noteq> 0
              then Ok (rx, map_option (\<lambda>sd. deliver sd None) (unframe (extract_payload datagram)))
              else if length datagram \<le> OFFSET_SHARD_INDEX then Panic
              else
                (let si = unat (datagram ! OFFSET_SHARD_INDEX)
                 in if si > 2 then Ok (rx, None)
                    else case unframe (extract_payload datagram) of
                      None \<Rightarrow> Ok (rx, None)
                    | Some sd \<Rightarrow>
                        (case (if \<exists>meta. v2 = Some meta \<and> vm_shardsec meta
                               then ingest_shardsec C now order rx datagram src (the v2) si sd
                               else (case assemble_shards C (rc_spool rx) (spool_key_of src datagram v2) si sd of
                                       Ok (spool, r) \<Rightarrow> Ok (rx\<lparr>rc_spool := spool\<rparr>, r)
                                     | Err e \<Rightarrow> Err e
                                     | Panic \<Rightarrow> Panic)) of
                           Ok (rx, r) \<Rightarrow> Ok (rx, map_option (\<lambda>p. deliver p (Some (parse_session_hash datagram))) r)
                         | Err e \<Rightarrow> Err e
                         | Panic \<Rightarrow> Panic)))
      | Err e \<Rightarrow> Err e
      | Panic \<Rightarrow> Panic)"

section \<open>Handling a message\<close>

text \<open>The commit of a per-shard sealed message: the first direction whose plan is not refused.\<close>

fun commit_first :: "crates \<Rightarrow> u64 \<Rightarrow> u64 \<Rightarrow> session \<Rightarrow> nonce_direction list \<Rightarrow> session" where
  "commit_first C epoch ctr s [] = s"
| "commit_first C epoch ctr s (dir # dirs) =
     (let p = plan_open C (se_ratchet s) epoch dir ctr
      in if p = Refused then commit_first C epoch ctr s dirs else session_commit_open s epoch dir p)"

text \<open>The loop over the candidate sessions up to the first that yields a plaintext.\<close>

fun open_candidates ::
  "crates \<Rightarrow> instant \<Rightarrow> delivery \<Rightarrow> node \<Rightarrow> open_ctx list \<Rightarrow> node \<times> (open_ctx \<times> bytes) option" where
  "open_candidates C now dl nd [] = (nd, None)"
| "open_candidates C now dl nd (c # cs) =
     (case dl_v2 dl of
        Some meta \<Rightarrow>
          (if vm_shardsec meta then
             (if dl_wire_session_hash dl = Some (oc_session_hash c)
              then (case nd_sessions nd (oc_peer_fp c) of
                      None \<Rightarrow> (nd, Some (c, dl_payload dl))
                    | Some s \<Rightarrow>
                        (put_session nd (oc_peer_fp c) (Some (commit_first C (vm_epoch meta) (dl_ctr dl) s (open_directions (oc_role c)))),
                         Some (c, dl_payload dl)))
              else open_candidates C now dl nd cs)
           else
             (case nd_sessions nd (oc_peer_fp c) of
                None \<Rightarrow> open_candidates C now dl nd cs
              | Some s \<Rightarrow>
                  (case open_received_frame C now c s (dl_payload dl) (dl_ctr dl) (Some meta) of
                     (s', Some plain) \<Rightarrow> (put_session nd (oc_peer_fp c) (Some s'), Some (c, plain))
                   | (s', None) \<Rightarrow> open_candidates C now dl (put_session nd (oc_peer_fp c) (Some s')) cs)))
      | None \<Rightarrow>
          (case nd_sessions nd (oc_peer_fp c) of
             None \<Rightarrow> open_candidates C now dl nd cs
           | Some s \<Rightarrow>
               (case open_received_frame C now c s (dl_payload dl) (dl_ctr dl) None of
                  (s', Some plain) \<Rightarrow> (put_session nd (oc_peer_fp c) (Some s'), Some (c, plain))
                | (s', None) \<Rightarrow> open_candidates C now dl (put_session nd (oc_peer_fp c) (Some s')) cs)))"

datatype outcome =
  Unopened
| Cover bytes
| Replayed bytes
| Control bytes
| Bye bytes
| Tunnelled bytes bytes
| Unauthenticated bytes
| Application bytes bytes

definition GHOST_BYE_MAGIC :: bytes where "GHOST_BYE_MAGIC = ascii ''GHOST_BYE_____''"
definition VPN_PAYLOAD_MAGIC :: bytes where "VPN_PAYLOAD_MAGIC = ascii ''GVPN1''"

definition is_bye :: "bytes \<Rightarrow> bool" where
  "is_bye framed \<longleftrightarrow> starts_with GHOST_BYE_MAGIC framed \<or>
     length framed > 5 \<and> take 5 framed = VPN_PAYLOAD_MAGIC \<and> starts_with GHOST_BYE_MAGIC (drop 5 framed)"

text \<open>A frame that opened under a newer, prepared epoch installs it.\<close>

definition install_epoch :: "instant \<Rightarrow> delivery \<Rightarrow> bytes \<Rightarrow> node \<Rightarrow> node" where
  "install_epoch now dl peer_fp nd =
     (case dl_v2 dl of
        None \<Rightarrow> nd
      | Some meta \<Rightarrow>
          (case nd_sessions nd peer_fp of
             None \<Rightarrow> nd
           | Some s \<Rightarrow> if vm_epoch meta > sr_epoch (se_ratchet s)
                        then put_session nd peer_fp (Some (fst (activate_epoch s now (vm_epoch meta)))) else nd))"

text \<open>The replay check: skipped for a retired epoch; without a session the frame is not accepted.\<close>

definition replay_check :: "instant \<Rightarrow> delivery \<Rightarrow> bytes \<Rightarrow> node \<Rightarrow> node \<times> bool" where
  "replay_check now dl peer_fp nd =
     (let retired = (case (dl_v2 dl, nd_sessions nd peer_fp) of
                       (Some meta, Some s) \<Rightarrow> vm_epoch meta < sr_epoch (se_ratchet s)
                     | _ \<Rightarrow> False)
      in if retired then (nd, True)
         else case nd_sessions nd peer_fp of
           None \<Rightarrow> (nd, False)
         | Some s \<Rightarrow> (case check_inbound s now (dl_ctr dl) of (s', ok) \<Rightarrow> (put_session nd peer_fp (Some s'), ok)))"

text \<open>
  The control handlers in their order; \<open>Some\<close> when one of them took the payload. \<open>nonces\<close> are the
  wire nonces of an identity proof.
\<close>

definition control_pdus ::
  "crates \<Rightarrow> instant \<Rightarrow> (bytes \<Rightarrow> bytes \<Rightarrow> bytes option) \<Rightarrow> draw \<Rightarrow> (nat \<Rightarrow> bytes) \<Rightarrow> bytes \<Rightarrow> bytes \<Rightarrow> node \<Rightarrow>
   (bool \<times> node \<times> bytes list, unit) rust" where
  "control_pdus C now redeem dr nonces peer_fp payload nd =
     (case handle_ratchet_pdu C now nd dr peer_fp payload of
        Ok (True, nd, frames) \<Rightarrow> Ok (True, nd, frames)
      | Ok (False, nd, _) \<Rightarrow>
          (case handle_qel_mix_pdu C now redeem nd dr peer_fp payload of
             Ok (True, nd, frames) \<Rightarrow> Ok (True, nd, frames)
           | Ok (False, nd, _) \<Rightarrow> handle_pq_auth_pdu C nd (dr_nonce dr) nonces peer_fp payload
           | Err e \<Rightarrow> Err e
           | Panic \<Rightarrow> Panic)
      | Err e \<Rightarrow> Err e
      | Panic \<Rightarrow> Panic)"

definition handle_plain ::
  "crates \<Rightarrow> instant \<Rightarrow> (bytes \<Rightarrow> bytes \<Rightarrow> bytes option) \<Rightarrow> draw \<Rightarrow> (nat \<Rightarrow> bytes) \<Rightarrow> bool \<Rightarrow> delivery \<Rightarrow> bytes \<Rightarrow> bytes \<Rightarrow> node \<Rightarrow>
   (node \<times> outcome \<times> bytes list, unit) rust" where
  "handle_plain C now redeem dr nonces vpn dl peer_fp pt nd =
     (if (case frame_payload pt of Some p \<Rightarrow> is_dummy_payload p | None \<Rightarrow> False) then Ok (nd, Cover peer_fp, [])
      else
        (let nd = install_epoch now dl peer_fp nd;
             (nd, accepted) = replay_check now dl peer_fp nd
         in if \<not> accepted then Ok (nd, Replayed peer_fp, [])
            else case (case frame_payload pt of
                         None \<Rightarrow> Ok (False, nd, [])
                       | Some payload \<Rightarrow> control_pdus C now redeem dr nonces peer_fp payload nd) of
              Ok (True, nd, frames) \<Rightarrow> Ok (nd, Control peer_fp, frames)
            | Ok (False, nd, _) \<Rightarrow>
                (if (case frame_payload pt of Some framed \<Rightarrow> is_bye framed | None \<Rightarrow> False)
                 then Ok (nd\<lparr>nd_sessions := (nd_sessions nd)(peer_fp := None), nd_peers := (nd_peers nd)(peer_fp := None)\<rparr>, Bye peer_fp, [])
                 else if vpn \<and> (case frame_payload pt of
                                 Some framed \<Rightarrow> length framed > 5 \<and> take 5 framed = VPN_PAYLOAD_MAGIC
                               | None \<Rightarrow> False)
                 then Ok (nd, Tunnelled peer_fp (drop 5 (the (frame_payload pt))), [])
                 else if \<not> (case nd_sessions nd peer_fp of Some s \<Rightarrow> is_pq_authenticated s | None \<Rightarrow> False)
                 then Ok (nd, Unauthenticated peer_fp, [])
                 else Ok (nd, Application peer_fp pt, []))
            | Err e \<Rightarrow> Err e
            | Panic \<Rightarrow> Panic))"

text \<open>The data branch of \<open>handle_pkt\<close>.\<close>

definition handle_data ::
  "crates \<Rightarrow> instant \<Rightarrow> (bytes \<Rightarrow> bytes \<Rightarrow> bytes option) \<Rightarrow> draw \<Rightarrow> (nat \<Rightarrow> bytes) \<Rightarrow> bool \<Rightarrow> bytes list \<Rightarrow> node \<Rightarrow> delivery \<Rightarrow>
   (node \<times> outcome \<times> bytes list, unit) rust" where
  "handle_data C now redeem dr nonces vpn order nd dl =
     (case open_candidates C now dl nd (snapshot_of (nd_sessions nd) order) of
        (nd, None) \<Rightarrow> Ok (nd, Unopened, [])
      | (nd, Some (c, pt)) \<Rightarrow> handle_plain C now redeem dr nonces vpn dl (oc_peer_fp c) pt nd)"

section \<open>What a frame is to the receiver\<close>

text \<open>
  The fields \<open>ingest\<close> reads off a v2 frame that is one shard of a message: hash, counter, shard index,
  seal metadata and the unframed shard.
\<close>

definition carries :: "bytes \<Rightarrow> bytes \<Rightarrow> u64 \<Rightarrow> nat \<Rightarrow> v2_frame_meta \<Rightarrow> bytes \<Rightarrow> bool" where
  "carries p hash ctr idx meta sd \<longleftrightarrow> MIN_FRAME_SIZE \<le> length p \<and> parse_session_hash p = hash \<and>
     parse_packet_counter_u64 p = ctr \<and> unat (p ! OFFSET_SHARD_INDEX) = idx \<and> v2_meta_of p = Some meta \<and>
     unframe (extract_payload p) = Some sd \<and> parse_flags p AND FLAG_TUNNEL = 0"

lemma shard_frame_carries:
  assumes "header_ok h" and "\<not> gh_bulk h" and "gh_flags h = 0 \<or> gh_flags h = FLAG_SHARDSEC" and "length tag = 16"
    and "sd \<noteq> []" and "length sd \<le> 456"
  obtains p where "try_build_gtf_v2_frame h (frame_shard sd) tag = Ok p"
    and "carries p (gh_session_hash h) (gh_counter h) (unat (gh_shard_index h))
      \<lparr>vm_epoch = gh_epoch h, vm_nonce = gh_nonce h, vm_bulk = False, vm_tail = gh_tail h,
       vm_shardsec = (gh_flags h = FLAG_SHARDSEC)\<rparr> sd"
proof -
  have nb: "\<not> bit (gh_flags h) 0" using assms(3) by (auto simp: FLAG_SHARDSEC_def)
  have le: "length (frame_shard sd) \<le> (if gh_bulk h then 1418 else 458)" using assms(2,6) by (simp add: frame_shard_def)
  obtain p where p: "try_build_gtf_v2_frame h (frame_shard sd) tag = Ok p" "length p = (if gh_bulk h then 1472 else 576)"
    "parse_gtf_v2_header p = Some (received_header h)" "length (extract_payload p) = (if gh_bulk h then 1418 else 458)"
    "take (length (frame_shard sd)) (extract_payload p) = frame_shard sd"
    "parse_session_hash p = gh_session_hash h" "p ! 8 = gh_shard_index h"
    by (rule v2_frame_reads [OF assms(1,4) le]) (use nb in auto)
  have fields: "p ! 9 = wire_flags h"
    using v2_frame_fields [OF assms(1,4) le] p(1) by (metis rust.inject(1))
  have "extract_payload p = frame_shard sd @ drop (length (frame_shard sd)) (extract_payload p)"
    using p(5) by (metis append_take_drop_id)
  then have un: "unframe (extract_payload p) = Some sd"
    using unframe_frame_shard [of sd "drop (length (frame_shard sd)) (extract_payload p)"] assms(5,6) by simp
  have "bit (wire_flags h) 1 = False" using assms(3) by (auto simp: wire_flags_bit FLAG_SHARDSEC_def)
  then have tun: "parse_flags p AND FLAG_TUNNEL = 0"
    using p(2) assms(2) fields and_exp_eq_0_iff_not_bit [of "wire_flags h" 1]
    by (simp add: parse_flags_def OFFSET_FLAGS_def FLAG_TUNNEL_def)
  have "v2_meta_of p = Some \<lparr>vm_epoch = gh_epoch h, vm_nonce = gh_nonce h, vm_bulk = False, vm_tail = gh_tail h,
      vm_shardsec = (gh_flags h = FLAG_SHARDSEC)\<rparr>"
    using assms(2,3) by (auto simp: v2_meta_of_def p(3) received_header_def FLAG_SHARDSEC_def)
  then show thesis
    using that [OF p(1)] p(2,3,6,7) assms(2) un tun
    by (simp add: carries_def MIN_FRAME_SIZE_def OFFSET_SHARD_INDEX_def parse_packet_counter_u64_def received_header_def)
qed

lemma dispatch_ok: "di_num_workers d \<noteq> 0 \<Longrightarrow> \<exists>d' r. dispatch d buf src = Ok (d', r) \<and> di_num_workers d' = di_num_workers d"
  by (auto simp: dispatch_def Let_def)

text \<open>What \<open>ingest\<close> does with such a frame.\<close>

lemma ingest_carried:
  assumes "carries p hash ctr idx meta sd" and "idx < 3" and "rc_connected rx" and "di_num_workers (rc_dispatcher rx) \<noteq> 0"
  obtains d where "di_num_workers d \<noteq> 0"
    and "ingest C now order rx p src =
      (case (if vm_shardsec meta then ingest_shardsec C now order (rx\<lparr>rc_dispatcher := d\<rparr>) p src meta idx sd
             else (case assemble_shards C (rc_spool rx) (spool_key_of src p (Some meta)) idx sd of
                     Ok (spool, r) \<Rightarrow> Ok (rx\<lparr>rc_dispatcher := d, rc_spool := spool\<rparr>, r)
                   | Err e \<Rightarrow> Err e
                   | Panic \<Rightarrow> Panic)) of
         Ok (rx, r) \<Rightarrow> Ok (rx, map_option (\<lambda>x. \<lparr>dl_ctr = ctr, dl_v2 = Some meta, dl_payload = x, dl_src = src,
                                                 dl_wire_session_hash = Some hash\<rparr>) r)
       | Err e \<Rightarrow> Err e
       | Panic \<Rightarrow> Panic)"
proof -
  obtain d r where d: "dispatch (rc_dispatcher rx) p src = Ok (d, r)" "di_num_workers d \<noteq> 0"
    using dispatch_ok [OF assms(4)] assms(4) by metis
  note c = assms(1) [unfolded carries_def]
  have "8 < length p" using c by (simp add: MIN_FRAME_SIZE_def)
  then have "ingest C now order rx p src =
      (case (if vm_shardsec meta then ingest_shardsec C now order (rx\<lparr>rc_dispatcher := d\<rparr>) p src meta idx sd
             else (case assemble_shards C (rc_spool rx) (spool_key_of src p (Some meta)) idx sd of
                     Ok (spool, r) \<Rightarrow> Ok (rx\<lparr>rc_dispatcher := d, rc_spool := spool\<rparr>, r)
                   | Err e \<Rightarrow> Err e
                   | Panic \<Rightarrow> Panic)) of
         Ok (rx, r) \<Rightarrow> Ok (rx, map_option (\<lambda>x. \<lparr>dl_ctr = ctr, dl_v2 = Some meta, dl_payload = x, dl_src = src,
                                                 dl_wire_session_hash = Some hash\<rparr>) r)
       | Err e \<Rightarrow> Err e
       | Panic \<Rightarrow> Panic)"
    using c assms(2,3) d(1)
    by (simp add: ingest_def Let_def OFFSET_SHARD_INDEX_def not_less cong: rust.case_cong prod.case_cong)
  then show thesis using that d(2) by blast
qed

lemma carried_key:
  assumes "carries p hash ctr idx meta sd" and "hash \<noteq> [0, 0, 0, 0]"
  shows "spool_key_of src p (Some meta) =
    \<lparr>sk_session_hash = hash, sk_epoch = vm_epoch meta, sk_counter = ctr, sk_pre_session_src = None\<rparr>"
  using assms by (simp add: carries_def spool_key_of_def Let_def)

section \<open>The session a frame belongs to\<close>

text \<open>
  \<open>s\<close> is the session stored under its peer's fingerprint \<open>fp\<close>, has the hash, and comes first among
  those that have it.
\<close>

definition owner :: "node \<Rightarrow> bytes list \<Rightarrow> bytes \<Rightarrow> bytes \<Rightarrow> session \<Rightarrow> bool" where
  "owner nd order hash fp s \<longleftrightarrow> nd_sessions nd fp = Some s \<and> se_peer_fingerprint s = fp \<and> se_session_hash s = hash \<and>
     (\<exists>pre post. order = pre @ fp # post \<and> (\<forall>k r. k \<in> set pre \<longrightarrow> nd_sessions nd k = Some r \<longrightarrow> se_session_hash r \<noteq> hash))"

lemma owner_first:
  assumes "owner nd order hash fp s"
  obtains before rest where "snapshot_of (nd_sessions nd) order = before @ open_ctx_of s # rest"
    and "\<forall>c \<in> set before. oc_session_hash c \<noteq> hash"
proof -
  obtain pre post where o: "order = pre @ fp # post" "\<forall>k r. k \<in> set pre \<longrightarrow> nd_sessions nd k = Some r \<longrightarrow> se_session_hash r \<noteq> hash"
    "nd_sessions nd fp = Some s"
    using assms by (auto simp: owner_def)
  have "snapshot_of (nd_sessions nd) order =
      snapshot_of (nd_sessions nd) pre @ open_ctx_of s # snapshot_of (nd_sessions nd) post"
    by (simp add: snapshot_of_def o(1,3) map_filter_def)
  moreover have "\<forall>c \<in> set (snapshot_of (nd_sessions nd) pre). oc_session_hash c \<noteq> hash"
    using o(2) by (auto simp: snapshot_of_def map_filter_def open_ctx_of_def)
  ultimately show thesis by (rule that)
qed

lemma open_ctx_fields [simp]:
  "oc_peer_fp (open_ctx_of s) = se_peer_fingerprint s" "oc_master_key (open_ctx_of s) = se_master_key s"
  "oc_session_hash (open_ctx_of s) = se_session_hash s" "oc_role (open_ctx_of s) = se_role s"
  by (simp_all add: open_ctx_of_def)

text \<open>A genuine shard is opened by its session, which stays as it is.\<close>

lemma genuine_shard_opens:
  assumes "xchacha_law C" and "owner nd order hash fp s"
    and "plan_open C (se_ratchet s) (vm_epoch meta) (peer_direction (seal_direction s)) ctr = p" and "p \<noteq> Refused" and "i < 3"
  shows "open_shard_any C now ctr meta
      (seal_shard C (plan_key p) (vm_epoch meta) (vm_nonce meta) (peer_direction (seal_direction s)) (of_nat i) shard) nd
      (filter (\<lambda>c. oc_session_hash c = hash) (snapshot_of (nd_sessions nd) order)) = (nd, Some shard)"
proof -
  obtain before rest where c: "snapshot_of (nd_sessions nd) order = before @ open_ctx_of s # rest" "\<forall>c \<in> set before. oc_session_hash c \<noteq> hash"
    by (rule owner_first [OF assms(2)])
  have "filter (\<lambda>c. oc_session_hash c = hash) (snapshot_of (nd_sessions nd) order) =
      open_ctx_of s # filter (\<lambda>c. oc_session_hash c = hash) rest"
    using c assms(2) by (simp add: filter_empty_conv owner_def)
  moreover have "\<not> (3 :: u8) \<le> of_nat i" using assms(5) by (simp add: word_le_nat_alt unat_of_nat)
  ultimately show ?thesis
    using assms(2-4) open_seal_shard [OF assms(1)]
    by (simp add: owner_def open_directions_def seal_direction_def put_session_same)
qed

lemma ingest_genuine_shard:
  assumes "xchacha_law C" and "carries p hash ctr i meta (ss_ciphertext S @ ss_tag S)" and "vm_shardsec meta"
    and "owner (rc_node rx) order hash fp s"
    and "plan_open C (se_ratchet s) (vm_epoch meta) (peer_direction (seal_direction s)) ctr = pl" and "pl \<noteq> Refused" and "i < 3"
    and "S = seal_shard C (plan_key pl) (vm_epoch meta) (vm_nonce meta) (peer_direction (seal_direction s)) (of_nat i) shard"
  shows "ingest_shardsec C now order rx p src meta i (ss_ciphertext S @ ss_tag S) =
    (case assemble_shards C (rc_spool rx) (spool_key_of src p (Some meta)) i shard of
       Ok (spool, r) \<Rightarrow> Ok (rx\<lparr>rc_spool := spool\<rparr>, r)
     | Err e \<Rightarrow> Err e
     | Panic \<Rightarrow> Panic)"
proof -
  have l: "length (ss_tag S) = 16"
    by (simp add: assms(8) seal_shard_def Let_def xchacha_seal_in_place_def xchacha_seal_in_place_with_aad_def
        xchacha_lawD(1) [OF assms(1)])
  have S: "\<lparr>ss_index = of_nat i, ss_ciphertext = ss_ciphertext S, ss_tag = ss_tag S, ss_is_honey = False\<rparr> = S"
    by (simp add: assms(8) seal_shard_def Let_def)
  show ?thesis
    using genuine_shard_opens [OF assms(1,4,5,6,7), where now = now and shard = shard] assms(2) l S
    by (simp add: ingest_shardsec_def Let_def carries_def assms(8) [symmetric] split: rust.split)
qed

text \<open>Both data shards present: they are joined as they are.\<close>

lemma join_data_shards:
  assumes "rs_law C" and "d0 \<noteq> []" and "length d0 = length d1"
  shows "join_bucket C ([Some d0, Some d1, None] @ [None]) = Ok (Some (d0 @ d1))"
proof -
  obtain p where "rs_encode_sep C d0 d1 = Some p" using rs_lawE [OF assms] by blast
  then have "reconstruct C [Some d0, Some d1, None] = Ok [Some d0, Some d1, Some p]"
    using reconstruct_two(1) [OF assms, of p None] by simp
  then show ?thesis using join_equal [of "[Some d0, Some d1, None]" "length d0" C] assms(3) by auto
qed

section \<open>Opening the message\<close>

lemma open_candidates_shardsec:
  assumes "owner nd order hash fp s" and "dl_v2 dl = Some meta" and "vm_shardsec meta" and "dl_wire_session_hash dl = Some hash"
  shows "open_candidates C now dl nd (snapshot_of (nd_sessions nd) order) =
    (put_session nd fp (Some (commit_first C (vm_epoch meta) (dl_ctr dl) s (open_directions (se_role s)))),
     Some (open_ctx_of s, dl_payload dl))"
proof -
  obtain before rest where c: "snapshot_of (nd_sessions nd) order = before @ open_ctx_of s # rest" "\<forall>c \<in> set before. oc_session_hash c \<noteq> hash"
    by (rule owner_first [OF assms(1)])
  have "open_candidates C now dl nd (before @ cs) = open_candidates C now dl nd cs" for cs
    using c(2) by (induction before) (auto simp: assms(2-4))
  then show ?thesis using assms by (simp add: c(1) owner_def)
qed

text \<open>
  C26. A finding: the spool does not tell authenticated from unauthenticated shards. Someone who holds
  no key reads hash, epoch and counter off a frame of a per-shard sealed message and sends a frame
  with these, shard index 1, the per-shard flag clear and any bytes of the shard's length. It is kept
  in the bucket unopened. When the sender's first shard arrives and opens, the two are joined, and
  the first half of the message followed by the foreign bytes is handled as a plaintext of that peer.
\<close>

theorem injected_shard_is_delivered:
  assumes laws: "xchacha_law C" "rs_law C"
    and rx: "rc_connected rx" "di_num_workers (rc_dispatcher rx) \<noteq> 0" "spool_ok (rc_spool rx)"
      "Suc (length (rc_spool rx)) \<le> MAX_SPOOL_ENTRIES"
      "map_of (rc_spool rx) \<lparr>sk_session_hash = sc_session_hash ctx, sk_epoch = sc_epoch ctx, sk_counter = sc_counter ctx,
                              sk_pre_session_src = None\<rparr> = None"
    and s: "owner (rc_node rx) order (sc_session_hash ctx) fp s" "sc_session_hash ctx \<noteq> [0, 0, 0, 0]"
      "plan_open C (se_ratchet s) (sc_epoch ctx) (peer_direction (seal_direction s)) (sc_counter ctx) = pl" "pl \<noteq> Refused"
    and ctx: "sc_key ctx = plan_key pl" "sc_direction ctx = peer_direction (seal_direction s)"
      "header_ok (data_header C True ctx 0 False 0)" "length evil_nonce = 12" "length evil_tail = 64" "length tag = 16" "length tag' = 16"
    and shard: "d0 \<noteq> []" "length evil = length d0" "length d0 \<le> 440"
      "S = seal_shard C (sc_key ctx) (sc_epoch ctx) (sc_nonce ctx) (sc_direction ctx) 0 d0"
  shows "\<exists>e g rx1 rx2 dl nd'.
    try_build_gtf_v2_frame \<lparr>gh_session_hash = sc_session_hash ctx, gh_counter = sc_counter ctx, gh_epoch = sc_epoch ctx,
      gh_nonce = evil_nonce, gh_shard_index = 1, gh_flags = 0, gh_bulk = False, gh_tail = evil_tail\<rparr> (frame_shard evil) tag' = Ok e \<and>
    try_build_gtf_v2_frame (data_header C True ctx 0 False 0) (frame_shard (ss_ciphertext S @ ss_tag S)) tag = Ok g \<and>
    ingest C now order rx e evil_src = Ok (rx1, None) \<and> ingest C now order rx1 g src = Ok (rx2, Some dl) \<and>
    handle_data C now redeem dr nonces vpn order (rc_node rx2) dl = handle_plain C now redeem dr nonces vpn dl fp (d0 @ evil) nd'"
proof -
  let ?he = "\<lparr>gh_session_hash = sc_session_hash ctx, gh_counter = sc_counter ctx, gh_epoch = sc_epoch ctx,
      gh_nonce = evil_nonce, gh_shard_index = 1, gh_flags = 0, gh_bulk = False, gh_tail = evil_tail\<rparr>"
  let ?hg = "data_header C True ctx 0 False 0"
  let ?k = "\<lparr>sk_session_hash = sc_session_hash ctx, sk_epoch = sc_epoch ctx, sk_counter = sc_counter ctx, sk_pre_session_src = None\<rparr>"
  have flags: "gh_flags ?hg = FLAG_SHARDSEC" by (simp add: data_header_def data_flags_def ctx_header_def)
  have hg: "gh_session_hash ?hg = sc_session_hash ctx" "gh_counter ?hg = sc_counter ctx" "gh_epoch ?hg = sc_epoch ctx"
    "gh_nonce ?hg = sc_nonce ctx" "gh_shard_index ?hg = 0" "\<not> gh_bulk ?hg"
    by (simp_all add: data_header_def ctx_header_def)
  have "header_ok ?he" using ctx(3-5) hg(1) by (simp add: header_ok_def)
  then obtain e where e: "try_build_gtf_v2_frame ?he (frame_shard evil) tag' = Ok e"
    "carries e (sc_session_hash ctx) (sc_counter ctx) 1 \<lparr>vm_epoch = sc_epoch ctx, vm_nonce = evil_nonce, vm_bulk = False,
       vm_tail = evil_tail, vm_shardsec = False\<rparr> evil"
    by (rule shard_frame_carries [of ?he tag' evil]) (use ctx shard in \<open>auto simp: FLAG_SHARDSEC_def\<close>)
  let ?mg = "\<lparr>vm_epoch = sc_epoch ctx, vm_nonce = sc_nonce ctx, vm_bulk = False, vm_tail = gh_tail ?hg, vm_shardsec = True\<rparr>"
  have lS: "length (ss_ciphertext S @ ss_tag S) = length d0 + 16"
    by (simp add: shard(4) seal_shard_wire xchacha_seal_in_place_def xchacha_seal_in_place_with_aad_def xchacha_lawD(1) [OF laws(1)]
        del: length_append)
  obtain g where g: "try_build_gtf_v2_frame ?hg (frame_shard (ss_ciphertext S @ ss_tag S)) tag = Ok g"
    "carries g (sc_session_hash ctx) (sc_counter ctx) 0 ?mg (ss_ciphertext S @ ss_tag S)"
    by (rule shard_frame_carries [of ?hg tag "ss_ciphertext S @ ss_tag S"]) (use ctx(3,6) hg flags lS shard(3) in \<open>auto simp del: length_append\<close>)
  have b0: "bucket (rc_spool rx) ?k = [None, None, None]" using rx(4,5) by (simp add: bucket_def prune_spool_def)
  have a1: "assemble_shards C (rc_spool rx) ?k 1 evil = Ok (AList.update ?k [None, Some evil, None] (rc_spool rx), None)"
    using rx(3) by (cases rule: assemble_shards_cases [where key = ?k and data = evil and C = C and idx = 1])
      (use b0 rx(4) in \<open>auto simp: count_some_def prune_spool_def\<close>)
  let ?sp = "AList.update ?k [None, Some evil, None] (rc_spool rx)"
  obtain d1 where d1: "di_num_workers d1 \<noteq> 0" "ingest C now order rx e evil_src = Ok (rx\<lparr>rc_dispatcher := d1, rc_spool := ?sp\<rparr>, None)"
    by (rule ingest_carried [OF e(2) _ rx(1,2), of C now order evil_src]) (use a1 carried_key [OF e(2) s(2)] in auto)
  let ?rx1 = "rx\<lparr>rc_dispatcher := d1, rc_spool := ?sp\<rparr>"
  have ok1: "spool_ok ?sp" by (rule spool_ok_update [OF rx(3)]) (use rx(4) in \<open>simp_all add: count_some_def\<close>)
  have "length ?sp \<le> MAX_SPOOL_ENTRIES" using length_update_le [of ?k "[None, Some evil, None]" "rc_spool rx"] rx(4) by linarith
  then have b1: "bucket ?sp ?k = [None, Some evil, None]" "prune_spool ?sp = ?sp" by (simp_all add: bucket_def prune_spool_def update_conv')
  have a2: "assemble_shards C ?sp ?k 0 d0 = Ok (AList.delete ?k ?sp, Some (d0 @ evil))"
    using ok1 by (cases rule: assemble_shards_cases [where key = ?k and data = d0 and C = C and idx = 0])
      (use b1 join_data_shards [OF laws(2) shard(1), of evil] shard(2) in \<open>auto simp: count_some_def\<close>)
  let ?dl = "\<lparr>dl_ctr = sc_counter ctx, dl_v2 = Some ?mg, dl_payload = d0 @ evil, dl_src = src, dl_wire_session_hash = Some (sc_session_hash ctx)\<rparr>"
  obtain d2 where d2: "ingest C now order ?rx1 g src = Ok (?rx1\<lparr>rc_dispatcher := d2, rc_spool := AList.delete ?k ?sp\<rparr>, Some ?dl)"
  proof (rule ingest_carried [OF g(2), of ?rx1 C now order src])
    fix d assume i: "ingest C now order ?rx1 g src =
      (case (if vm_shardsec ?mg then ingest_shardsec C now order (?rx1\<lparr>rc_dispatcher := d\<rparr>) g src ?mg 0 (ss_ciphertext S @ ss_tag S)
             else (case assemble_shards C (rc_spool ?rx1) (spool_key_of src g (Some ?mg)) 0 (ss_ciphertext S @ ss_tag S) of
                     Ok (spool, r) \<Rightarrow> Ok (?rx1\<lparr>rc_dispatcher := d, rc_spool := spool\<rparr>, r)
                   | Err e \<Rightarrow> Err e
                   | Panic \<Rightarrow> Panic)) of
         Ok (rx, r) \<Rightarrow> Ok (rx, map_option (\<lambda>x. \<lparr>dl_ctr = sc_counter ctx, dl_v2 = Some ?mg, dl_payload = x, dl_src = src,
                                                 dl_wire_session_hash = Some (sc_session_hash ctx)\<rparr>) r)
       | Err e \<Rightarrow> Err e
       | Panic \<Rightarrow> Panic)"
    have "ingest_shardsec C now order (?rx1\<lparr>rc_dispatcher := d\<rparr>) g src ?mg 0 (ss_ciphertext S @ ss_tag S) =
        Ok (?rx1\<lparr>rc_dispatcher := d, rc_spool := AList.delete ?k ?sp\<rparr>, Some (d0 @ evil))"
      using ingest_genuine_shard [OF laws(1) g(2), of "?rx1\<lparr>rc_dispatcher := d\<rparr>" order fp s pl d0 now src] s ctx(1,2) shard(4)
        a2 carried_key [OF g(2) s(2)]
      by simp
    with i show thesis using that [of d] by simp
  qed (use rx(1) d1(1) in simp_all)
  have "handle_data C now redeem dr nonces vpn order (rc_node rx) ?dl =
      handle_plain C now redeem dr nonces vpn ?dl fp (d0 @ evil)
        (put_session (rc_node rx) fp (Some (commit_first C (sc_epoch ctx) (sc_counter ctx) s (open_directions (se_role s)))))"
    using open_candidates_shardsec [OF s(1), of ?dl ?mg C now] s(1) by (simp add: handle_data_def owner_def)
  then show ?thesis using e(1) g(1) d1(2) d2
    by (intro exI conjI) (assumption | simp)+
qed

end
