(* ===== verification/HandlePkt.thy ===== *)
theory HandlePkt
  imports Receive
begin

text \<open>
  The dispatcher of the daemon, \<open>handle_pkt\<close> of src/src/main.rs: the suite (V3), uniform and legacy
  handshake branches and the beacon branch, and the order in which all branches are tried, down to
  the data branch. What a handshake sends is part of the result: response shards, frames of the
  identity proof, and the interactions recorded with the reputation matrix. The hub's allowlist, the
  reputation matrix and the revocation list are predicates on fingerprints (\<open>None\<close> when the node runs
  without them); the environment switch of the uniform mode is an argument, as are all random values.
\<close>

definition MAX_SESSIONS :: nat where "MAX_SESSIONS = 512"
definition BEACON_PREFIX :: bytes where "BEACON_PREFIX = ascii ''GHOST_BEACON____''"

definition session_count :: "node \<Rightarrow> nat" where "session_count nd = card (dom (nd_sessions nd))"

text \<open>Random values of one handshake step.\<close>

record hs_draw =
  hd_kem_rnd :: bytes
  hd_x_secret :: bytes
  hd_dk512 :: bytes
  hd_dk768 :: bytes
  hd_prefix :: bytes
  hd_nonces :: "nat \<Rightarrow> bytes"

record hs_policy =
  hp_hub_authorized :: "(bytes \<Rightarrow> bool) option"
  hp_byzantine :: "(bytes \<Rightarrow> bool) option"
  hp_revoked :: "(bytes \<Rightarrow> bool) option"

section \<open>Offers\<close>

definition handle_suite_offer ::
  "crates \<Rightarrow> instant \<Rightarrow> node \<Rightarrow> bytes option \<Rightarrow> sock_addr \<Rightarrow> hs_draw \<Rightarrow> bytes \<Rightarrow> (node \<times> bytes list, unit) rust" where
  "handle_suite_offer C now nd psk src dr data =
     (case parse_handshake_pdu_suite data of
        None \<Rightarrow> Ok (nd, [])
      | Some hs \<Rightarrow>
          (let signed = [wire_id (sh_suite hs)] @ sh_x25519_pub hs @ sh_kyber_pub hs @ sh_identity_pk hs
           in if \<not> verify_peer_signature C (sh_identity_pk hs) signed (sh_signature hs) then Ok (nd, [])
              else case suite_encapsulate C (sh_suite hs) (hd_kem_rnd dr) (sh_kyber_pub hs) of
                Ok (ct, ks) \<Rightarrow>
                  (let bp = x25519_public C (hd_x_secret dr);
                       xs = x25519_dh C (hd_x_secret dr) (sh_x25519_pub hs);
                       d = derive_hybrid_master_key_with_suite C (sh_suite hs) xs ks psk
                   in case build_response_pdu_suite (sh_suite hs) (public_key_bytes C (nd_identity nd))
                             (identity_sign C (nd_identity nd)) bp ct of
                        None \<Rightarrow> Panic
                      | Some resp \<Rightarrow>
                          (case rs_encode C resp of
                             Ok (_, raw) \<Rightarrow>
                               (let fp = hex_encode (take 8 (sh_identity_pk hs))
                                in if fp = fingerprint C (nd_identity nd) then Ok (nd, raw)
                                   else
                                     (let s = new_with_role C now d fp Responder;
                                          s = set_cipher_suite s (sh_suite hs);
                                          s = pin_peer_identity s (sh_identity_pk hs)
                                      in Ok (register_peer_session nd fp src s, raw)))
                           | _ \<Rightarrow> Panic))
              | _ \<Rightarrow> Ok (nd, [])))"

definition handle_uniform_offer ::
  "crates \<Rightarrow> instant \<Rightarrow> node \<Rightarrow> bytes option \<Rightarrow> sock_addr \<Rightarrow> hs_draw \<Rightarrow> bytes \<Rightarrow> (node \<times> bytes list, unit) rust" where
  "handle_uniform_offer C now nd psk src dr data =
     (let wire = take HANDSHAKE_BLOB_LEN data
      in case (parse_uniform_handshake_pdu wire, uniform_handshake_signed_material wire) of
           (Some hs, Some signed_material) \<Rightarrow>
             (if \<not> verify_peer_signature C (hb_identity_pk hs) signed_material (hb_signature hs) then Ok (nd, [])
              else
                (let fp = hex_encode (take 8 (hb_identity_pk hs))
                 in if session_count nd \<ge> MAX_SESSIONS \<or> nd_sessions nd fp \<noteq> None then Ok (nd, [])
                    else case kyber_encapsulate C (hd_kem_rnd dr) (hb_kyber_pub hs) of
                      Ok (ct, ks) \<Rightarrow>
                        (let bp = x25519_public C (hd_x_secret dr);
                             xs = x25519_dh C (hd_x_secret dr) (hb_x25519_pub hs);
                             master = derive_hybrid_master_key_with_psk C xs ks psk;
                             resp = build_uniform_response_pdu (hd_prefix dr) (public_key_bytes C (nd_identity nd))
                                      (identity_sign C (nd_identity nd)) bp ct
                         in case rs_encode C resp of
                              Ok (_, raw) \<Rightarrow>
                                (let s = new_with_role C now master fp Responder;
                                     s = pin_peer_identity s (hb_identity_pk hs)
                                 in Ok (register_peer_session nd fp src s, raw))
                            | _ \<Rightarrow> Panic)
                    | _ \<Rightarrow> Ok (nd, [])))
         | _ \<Rightarrow> Ok (nd, []))"

text \<open>A discovery beacon: a peer not yet known is offered a handshake.\<close>

definition handle_beacon ::
  "crates \<Rightarrow> bool \<Rightarrow> node \<Rightarrow> sock_addr \<Rightarrow> hs_draw \<Rightarrow> bytes \<Rightarrow> (node \<times> bytes list, unit) rust" where
  "handle_beacon C uniform nd src dr data =
     (let pk = slice 16 48 data; sig = slice 48 112 data
      in if verify_peer_signature C pk (slice 16 48 data) sig then
           (let beacon_fp = hex_encode (take 8 pk)
            in if beacon_fp \<noteq> fingerprint C (nd_identity nd) \<and> nd_peers nd beacon_fp = None \<and>
                  length (nd_pending nd) < MAX_PENDING_HANDSHAKES
               then initiate_handshake C uniform (hd_prefix dr) nd src (hd_x_secret dr) (hd_dk512 dr) (hd_dk768 dr)
               else Ok (nd, []))
         else Ok (nd, []))"

text \<open>An interaction recorded with the reputation matrix, if the node has one.\<close>

definition rep_record :: "hs_policy \<Rightarrow> bytes \<Rightarrow> bool \<Rightarrow> (bytes \<times> bool) list" where
  "rep_record pol fp ok = (if hp_byzantine pol \<noteq> None then [(fp, ok)] else [])"

definition flagged :: "(bytes \<Rightarrow> bool) option \<Rightarrow> bytes \<Rightarrow> bool" where
  "flagged p fp = (case p of Some f \<Rightarrow> f fp | None \<Rightarrow> False)"

definition handle_legacy_offer ::
  "crates \<Rightarrow> instant \<Rightarrow> hs_policy \<Rightarrow> node \<Rightarrow> bytes option \<Rightarrow> sock_addr \<Rightarrow> hs_draw \<Rightarrow> bytes \<Rightarrow>
   (node \<times> bytes list \<times> (bytes \<times> bool) list, unit) rust" where
  "handle_legacy_offer C now pol nd psk src dr data =
     (if length data < HANDSHAKE_BLOB_LEN then Ok (nd, [], [])
      else if session_count nd \<ge> MAX_SESSIONS then Ok (nd, [], [])
      else case parse_handshake_pdu (take HANDSHAKE_BLOB_LEN data) of
        None \<Rightarrow> Ok (nd, [], [])
      | Some hs \<Rightarrow>
          (let fp = hex_encode (take 8 (hb_identity_pk hs))
           in if fp = fingerprint C (nd_identity nd) then Ok (nd, [], [])
              else
                (let nd = (if nd_sessions nd fp \<noteq> None then put_session nd fp None else nd)
                 in if flagged (map_option (\<lambda>ok fp. \<not> ok fp) (hp_hub_authorized pol)) fp then Ok (nd, [], rep_record pol fp False)
                    else if flagged (hp_byzantine pol) fp then Ok (nd, [], [])
                    else if flagged (hp_revoked pol) fp then Ok (nd, [], rep_record pol fp False)
                    else if \<not> verify_peer_signature C (hb_identity_pk hs) (hb_x25519_pub hs @ hb_kyber_pub hs) (hb_signature hs)
                    then Ok (nd, [], rep_record pol fp False)
                    else case kyber_encapsulate C (hd_kem_rnd dr) (hb_kyber_pub hs) of
                      Ok (ct, ks) \<Rightarrow>
                        (let bp = x25519_public C (hd_x_secret dr);
                             xs = x25519_dh C (hd_x_secret dr) (hb_x25519_pub hs);
                             d = derive_hybrid_master_key_with_psk C xs ks psk;
                             resp_pdu = build_response_pdu (public_key_bytes C (nd_identity nd))
                                          (identity_sign C (nd_identity nd)) bp ct
                         in case rs_encode C resp_pdu of
                              Ok (_, raw) \<Rightarrow>
                                (let s = new_with_role C now d fp Responder;
                                     s = set_v1_wire s True;
                                     s = set_pq_authenticated s True;
                                     s = pin_peer_identity s (hb_identity_pk hs)
                                 in Ok (register_peer_session nd fp src s, raw, rep_record pol fp True))
                            | _ \<Rightarrow> Panic)
                    | _ \<Rightarrow> Ok (nd, [], rep_record pol fp False))))"

section \<open>Responses\<close>

text \<open>Taking the pending handshake of the address; it is gone whatever follows.\<close>

definition take_pending :: "node \<Rightarrow> sock_addr \<Rightarrow> node \<times> pending_handshake option" where
  "take_pending nd src = (nd\<lparr>nd_pending := AList.delete src (nd_pending nd)\<rparr>, map_of (nd_pending nd) src)"

definition handle_suite_response ::
  "crates \<Rightarrow> instant \<Rightarrow> node \<Rightarrow> bytes option \<Rightarrow> sock_addr \<Rightarrow> bytes \<Rightarrow> node" where
  "handle_suite_response C now nd psk src data =
     (case parse_response_pdu_suite data of
        None \<Rightarrow> nd
      | Some resp \<Rightarrow>
          (let signed = [wire_id (sr_suite resp)] @ sr_x25519_pub resp @ sr_kyber_ct resp @ sr_identity_pk resp
           in if \<not> verify_peer_signature C (sr_identity_pk resp) signed (sr_signature resp) then nd
              else
                (let fp = hex_encode (take 8 (sr_identity_pk resp))
                 in case take_pending nd src of
                      (nd, Some (Kem512 ax dk)) \<Rightarrow>
                        (if sr_suite resp = X25519MlKem512V2 \<and> length (sr_kyber_ct resp) = 768 then
                           (let xs = x25519_dh C ax (sr_x25519_pub resp);
                                d = derive_hybrid_master_key_with_suite C (sr_suite resp) xs
                                      (mlkem_decapsulate C dk (sr_kyber_ct resp)) psk;
                                s = session_new C now d fp;
                                s = set_cipher_suite s (sr_suite resp);
                                s = pin_peer_identity s (sr_identity_pk resp)
                            in register_peer_session nd fp src s)
                         else nd)
                    | (nd, _) \<Rightarrow> nd)))"

definition handle_uniform_response ::
  "crates \<Rightarrow> instant \<Rightarrow> node \<Rightarrow> bytes option \<Rightarrow> sock_addr \<Rightarrow> bytes \<Rightarrow> node" where
  "handle_uniform_response C now nd psk src data =
     (let wire = take RESPONSE_BLOB_LEN data
      in case (parse_uniform_response_pdu wire, uniform_response_signed_material wire) of
           (Some resp, Some signed_material) \<Rightarrow>
             (if \<not> verify_peer_signature C (rp_identity_pk resp) signed_material (rp_signature resp) then nd
              else case take_pending nd src of
                (nd, Some (Kem512 ax dk)) \<Rightarrow>
                  (let ks = mlkem_decapsulate C dk (rp_kyber_ct resp);
                       xs = x25519_dh C ax (rp_x25519_pub resp);
                       master = derive_hybrid_master_key_with_psk C xs ks psk;
                       fp = hex_encode (take 8 (rp_identity_pk resp));
                       s = session_new C now master fp;
                       s = pin_peer_identity s (rp_identity_pk resp)
                   in register_peer_session nd fp src s)
              | (nd, _) \<Rightarrow> nd)
         | _ \<Rightarrow> nd)"

definition handle_legacy_response ::
  "crates \<Rightarrow> instant \<Rightarrow> hs_policy \<Rightarrow> node \<Rightarrow> bytes option \<Rightarrow> sock_addr \<Rightarrow> bytes \<Rightarrow> node" where
  "handle_legacy_response C now pol nd psk src data =
     (if length data < RESPONSE_BLOB_LEN then nd
      else case parse_response_pdu (take RESPONSE_BLOB_LEN data) of
        None \<Rightarrow> nd
      | Some resp \<Rightarrow>
          (let signed_material = copy_at 32 (rp_kyber_ct resp) (copy_at 0 (rp_x25519_pub resp) (zeros 800))
           in if \<not> verify_peer_signature C (rp_identity_pk resp) signed_material (rp_signature resp) then nd
              else
                (let fp = hex_encode (take 8 (rp_identity_pk resp))
                 in if flagged (hp_byzantine pol) fp then nd
                    else if flagged (hp_revoked pol) fp then nd
                    else case take_pending nd src of
                      (nd, Some (Kem512 ax dk)) \<Rightarrow>
                        (let ks = mlkem_decapsulate C dk (rp_kyber_ct resp);
                             xs = x25519_dh C ax (rp_x25519_pub resp);
                             d = derive_hybrid_master_key_with_suite C X25519MlKem512V2 xs ks psk;
                             s = session_new C now d fp;
                             s = set_v1_wire s True;
                             s = set_pq_authenticated s True;
                             s = pin_peer_identity s (rp_identity_pk resp)
                         in register_peer_session nd fp src s)
                    | (nd, _) \<Rightarrow> nd)))"

section \<open>The dispatcher\<close>

datatype handled =
  Handshake (hs_shards: "bytes list") (hs_frames: "bytes list") (hs_interactions: "(bytes \<times> bool) list")
| Data outcome "bytes list"

text \<open>\<open>settled\<close> puts the result of a branch into the common form.\<close>

definition settled :: "(node \<times> bytes list, unit) rust \<Rightarrow> (node \<times> handled, unit) rust" where
  "settled r = (case r of Ok (nd, raw) \<Rightarrow> Ok (nd, Handshake raw [] []) | Err e \<Rightarrow> Err e | Panic \<Rightarrow> Panic)"

definition handle_pkt ::
  "crates \<Rightarrow> instant \<Rightarrow> bool \<Rightarrow> hs_policy \<Rightarrow> bytes option \<Rightarrow> (bytes \<Rightarrow> bytes \<Rightarrow> bytes option) \<Rightarrow> draw \<Rightarrow> hs_draw \<Rightarrow> bool \<Rightarrow> bytes list \<Rightarrow>
   node \<Rightarrow> delivery \<Rightarrow> (node \<times> handled, unit) rust" where
  "handle_pkt C now uniform pol psk redeem dr hs vpn order nd dl =
     (let ctr = dl_ctr dl; data = dl_payload dl; src = dl_src dl
      in if ctr = 0 \<and> starts_with HANDSHAKE_NEGOTIATION_MAGIC data then
           (case handle_negotiated_offer C now nd psk src (hd_kem_rnd hs) (hd_x_secret hs) (hd_nonces hs) data of
              Ok (nd, raw, frames) \<Rightarrow> Ok (nd, Handshake raw frames []) | Err e \<Rightarrow> Err e | Panic \<Rightarrow> Panic)
         else if ctr = 0 \<and> starts_with HANDSHAKE_V3_MAGIC data then settled (handle_suite_offer C now nd psk src hs data)
         else if uniform \<and> ctr = 0 \<and> length data \<ge> HANDSHAKE_BLOB_LEN then settled (handle_uniform_offer C now nd psk src hs data)
         else if length data \<ge> 112 \<and> take 16 data = BEACON_PREFIX then settled (handle_beacon C uniform nd src hs data)
         else if ctr = 0 \<and> length data \<ge> 16 \<and> take 16 data = HANDSHAKE_MAGIC then
           (case handle_legacy_offer C now pol nd psk src hs data of
              Ok (nd, raw, events) \<Rightarrow> Ok (nd, Handshake raw [] events) | Err e \<Rightarrow> Err e | Panic \<Rightarrow> Panic)
         else if ctr = 1 \<and> starts_with RESPONSE_NEGOTIATION_MAGIC data then
           (case handle_negotiated_response C now nd psk src (hd_nonces hs) data of
              Ok (nd, frames) \<Rightarrow> Ok (nd, Handshake [] frames []) | Err e \<Rightarrow> Err e | Panic \<Rightarrow> Panic)
         else if ctr = 1 \<and> starts_with RESPONSE_V3_MAGIC data then Ok (handle_suite_response C now nd psk src data, Handshake [] [] [])
         else if uniform \<and> ctr = 1 \<and> length data \<ge> RESPONSE_BLOB_LEN then
           Ok (handle_uniform_response C now nd psk src data, Handshake [] [] [])
         else if ctr = 1 \<and> length data \<ge> 16 \<and> take 16 data = RESPONSE_MAGIC then
           Ok (handle_legacy_response C now pol nd psk src data, Handshake [] [] [])
         else
           (case handle_data C now redeem dr (hd_nonces hs) vpn order nd dl of
              Ok (nd, outcome, frames) \<Rightarrow> Ok (nd, Data outcome frames) | Err e \<Rightarrow> Err e | Panic \<Rightarrow> Panic))"

section \<open>No session without a signature\<close>

lemma slice_split: "a \<le> b \<Longrightarrow> b \<le> c \<Longrightarrow> slice a b xs @ slice b c xs = slice a c xs"
  using take_add [of "b - a" "c - b" "drop a xs"] by (simp add: slice_def)

lemma slice_take: "b \<le> n \<Longrightarrow> slice a b (take n xs) = slice a b xs"
  by (simp add: slice_alt min_absorb1)

lemma slice_single: "a < length xs \<Longrightarrow> slice a (Suc a) xs = [xs ! a]"
  by (simp add: slice_def take_Suc_conv_app_nth hd_drop_conv_nth take_Suc)

text \<open>The data carries a key, a stretch of bytes and a signature of that key over them.\<close>

definition signed_in :: "crates \<Rightarrow> bytes \<Rightarrow> bytes \<Rightarrow> bool" where
  "signed_in C data pk \<longleftrightarrow> (\<exists>p i j k. pk = slice p (p + 32) data \<and>
     verify_peer_signature C pk (slice i j data) (slice k (k + 64) data))"

definition only_signed :: "crates \<Rightarrow> bytes \<Rightarrow> node \<Rightarrow> node \<Rightarrow> bool" where
  "only_signed C data nd nd' \<longleftrightarrow> (\<forall>fp s. nd_sessions nd' fp = Some s \<longrightarrow> nd_sessions nd fp = Some s \<or>
     (\<exists>pk. se_peer_identity_pk s = Some pk \<and> fp = hex_encode (take 8 pk) \<and> signed_in C data pk))"

lemma only_signed_refl [simp]: "only_signed C data nd nd" "only_signed C data nd (nd\<lparr>nd_pending := p\<rparr>)"
  "only_signed C data nd (put_session nd fp None)"
  by (auto simp: only_signed_def split: if_splits)

lemma only_signed_trans: "only_signed C data nd nd' \<Longrightarrow> only_signed C data nd' nd'' \<Longrightarrow> only_signed C data nd nd''"
  unfolding only_signed_def by blast

lemma only_signed_register:
  assumes "signed_in C data pk" and "se_peer_identity_pk s = Some pk"
  shows "only_signed C data nd (register_peer_session nd (hex_encode (take 8 pk)) src s)"
  using assms by (auto simp: only_signed_def register_peer_session_def Let_def)

lemma only_signed_proof:
  assumes "only_signed C data nd nd1" and "nd_sessions nd1 fp = Some s" and "se_peer_identity_pk s = Some pk" and "fp = hex_encode (take 8 pk)"
    and "signed_in C data pk" and "send_pq_auth_proof C nd1 fp nonces = Ok (nd', frames)"
  shows "only_signed C data nd nd'"
proof -
  obtain s' where s': "nd' = put_session nd1 fp (Some s')" "same_session s s'" by (rule proof_keeps [OF assms(6,2)])
  have "se_peer_identity_pk s' = Some pk" using s'(2) assms(3) by (simp add: same_session_def)
  then show ?thesis using assms(1,4,5) s'(1) by (auto simp: only_signed_def)
qed

lemma signed_inI:
  assumes "verify_peer_signature C pk m sig" and "pk = slice p (p + 32) data" and "m = slice i j data" and "sig = slice k (k + 64) data"
  shows "signed_in C data pk"
  using assms unfolding signed_in_def by blast

lemma offer_signed:
  assumes "parse_negotiated_handshake_pdu data = Some hs"
    and "verify_peer_signature C (nh_identity_pk hs) (take (length data - 64) data) (nh_signature hs)"
  shows "signed_in C data (nh_identity_pk hs)"
proof -
  have ok: "offer_ok hs" and d: "data = offer_body hs @ [0] @ nh_signature hs \<or> data = offer_body hs @ nh_signature hs \<or>
      data = offer_body hs @ nh_signature hs @ [0]"
    using assms(1) unfolding parse_negotiated_iff by blast+
  have l: "length (nh_identity_pk hs) = 32" "length (nh_pq_commitment hs) = 32" "length (nh_signature hs) = 64"
    using ok by (auto simp: offer_ok_def)
  obtain pre where b: "offer_body hs = pre @ nh_identity_pk hs @ nh_pq_commitment hs" by (auto simp: offer_body_def)
  then obtain t where "data = pre @ nh_identity_pk hs @ t" using d by fastforce
  then have pk: "nh_identity_pk hs = slice (length pre) (length pre + 32) data" by (simp add: slice_def l)
  obtain q t' where "data = q @ nh_signature hs @ t'" using d by (metis append_Nil2 append_assoc)
  then have sig: "nh_signature hs = slice (length q) (length q + 64) data" by (simp add: slice_def l)
  show ?thesis by (rule signed_inI [OF assms(2) pk _ sig]) (simp add: slice_0 [symmetric])
qed

lemma response_signed:
  assumes "parse_negotiated_response_pdu data = Some resp" and "get_range data 0 n = Some m"
    and "verify_peer_signature C (nr_identity_pk resp) m (nr_signature resp)"
  shows "signed_in C data (nr_identity_pk resp)"
proof -
  obtain suite where "nr_identity_pk resp = slice (49 + suite_ct_len suite) (49 + suite_ct_len suite + 32) data"
    "nr_signature resp = slice (49 + suite_ct_len suite + 64) (49 + suite_ct_len suite + 64 + 64) data"
    using assms(1) by (auto simp: parse_negotiated_response_pdu_def Let_def bind_eq_Some_conv add.assoc split: if_splits)
  moreover have "m = slice 0 n data" using assms(2) by (simp add: get_range_def split: if_splits)
  ultimately show ?thesis using signed_inI [OF assms(3)] by blast
qed

lemma suite_pieces:
  assumes "16 < length data" and "data ! 16 = w" and "49 \<le> k" and "k \<le> m"
  shows "w # slice 17 49 data @ slice 49 k data @ slice k m data = slice 16 m data"
proof -
  have "[w] @ slice 17 m data = slice 16 m data" using slice_split [of 16 17 m data] assms slice_single [of 16 data] by simp
  moreover have "slice 17 49 data @ slice 49 k data @ slice k m data = slice 17 m data"
    using assms by (simp add: slice_split flip: append_assoc)
  ultimately show ?thesis by simp
qed

lemma suite_offer_signed:
  assumes "parse_handshake_pdu_suite data = Some hs"
    and "verify_peer_signature C (sh_identity_pk hs) ([wire_id (sh_suite hs)] @ sh_x25519_pub hs @ sh_kyber_pub hs @ sh_identity_pk hs) (sh_signature hs)"
  shows "signed_in C data (sh_identity_pk hs)"
proof -
  obtain suite where s: "data ! 16 = wire_id suite" "length data = 145 + suite_key_len suite"
    "hs = \<lparr>sh_suite = suite, sh_x25519_pub = slice 17 49 data, sh_kyber_pub = slice 49 (49 + suite_key_len suite) data,
      sh_identity_pk = slice (49 + suite_key_len suite) (49 + suite_key_len suite + 32) data,
      sh_signature = drop (49 + suite_key_len suite + 32) data\<rparr>"
    using assms(1) by (auto simp: parse_handshake_pdu_suite_def Let_def bind_eq_Some_conv from_wire_id_iff split: if_splits)
  let ?n = "49 + suite_key_len suite"
  have "sh_signature hs = slice (?n + 32) (?n + 32 + 64) data" using s(2,3) by (simp add: slice_def)
  then show ?thesis
    using signed_inI [OF assms(2), of ?n data 16 "?n + 32" "?n + 32"] suite_pieces [of data "wire_id suite" ?n "?n + 32"] s by simp
qed

lemma suite_response_signed:
  assumes "parse_response_pdu_suite data = Some hs"
    and "verify_peer_signature C (sr_identity_pk hs) ([wire_id (sr_suite hs)] @ sr_x25519_pub hs @ sr_kyber_ct hs @ sr_identity_pk hs) (sr_signature hs)"
  shows "signed_in C data (sr_identity_pk hs)"
proof -
  obtain suite where s: "data ! 16 = wire_id suite" "length data = 145 + suite_ct_len suite"
    "hs = \<lparr>sr_suite = suite, sr_x25519_pub = slice 17 49 data, sr_kyber_ct = slice 49 (49 + suite_ct_len suite) data,
      sr_identity_pk = slice (49 + suite_ct_len suite) (49 + suite_ct_len suite + 32) data,
      sr_signature = drop (49 + suite_ct_len suite + 32) data\<rparr>"
    using assms(1) by (auto simp: parse_response_pdu_suite_def Let_def bind_eq_Some_conv from_wire_id_iff split: if_splits)
  let ?n = "49 + suite_ct_len suite"
  have "sr_signature hs = slice (?n + 32) (?n + 32 + 64) data" using s(2,3) by (simp add: slice_def)
  then show ?thesis
    using signed_inI [OF assms(2), of ?n data 16 "?n + 32" "?n + 32"] suite_pieces [of data "wire_id suite" ?n "?n + 32"] s by simp
qed

lemma legacy_offer_signed:
  assumes "verify_peer_signature C (slice 848 880 data) (slice 16 48 data @ slice 48 848 data) (slice 880 944 data)"
  shows "signed_in C data (slice 848 880 data)"
  by (rule signed_inI [OF assms, of 848 data 16 848 880]) (simp_all add: slice_split)

lemma legacy_response_signed:
  assumes "verify_peer_signature C (slice 816 848 data) (slice 16 48 data @ slice 48 816 data) (slice 848 912 data)"
  shows "signed_in C data (slice 816 848 data)"
  by (rule signed_inI [OF assms, of 816 data 16 816 848]) (simp_all add: slice_split)

lemma uniform_signed:
  assumes "verify_peer_signature C (slice a (a + 32) data) (take n data) (slice k (k + 64) data)"
  shows "signed_in C data (slice a (a + 32) data)"
  by (rule signed_inI [OF assms, of a data 0 n k]) (simp_all add: slice_0)

section \<open>The branches\<close>

lemma negotiated_offer_only_signed:
  assumes "handle_negotiated_offer C now nd psk src r y nonces data = Ok (nd', raw, frames)"
  shows "only_signed C data nd nd'"
proof (cases "nd' = nd")
  case False
  obtain hs selected peer_key ct ss response q raw' where h: "parse_negotiated_handshake_pdu data = Some hs"
    "verify_peer_signature C (nh_identity_pk hs) (take (length data - 64) data) (nh_signature hs)"
    and p: "send_pq_auth_proof C (register_peer_session nd (hex_encode (take 8 (nh_identity_pk hs))) src
       (pin_peer_pq_commitment (pin_peer_identity (set_cipher_suite (new_with_role C now
         (derive_hybrid_master_key_with_transcript C selected (x25519_dh C y (nh_x25519_pub hs)) ss psk (nh_x25519_pub hs) (x25519_public C y) ct
           (nh_pq_commitment hs) (identity_pq_commitment C (nd_identity nd))) (hex_encode (take 8 (nh_identity_pk hs))) Responder) selected)
         (nh_identity_pk hs)) (nh_pq_commitment hs))) (hex_encode (take 8 (nh_identity_pk hs))) nonces = Ok (nd', frames)"
    using assms False
    by (auto simp: handle_negotiated_offer_def Let_def split: option.splits if_splits rust.splits prod.splits)
  note sg = offer_signed [OF h]
  show ?thesis
    by (rule only_signed_proof [OF only_signed_register [OF sg] registered(1) _ refl sg p]) (simp_all add: pin_peer_pq_commitment_def pin_peer_identity_def)
qed simp

lemma negotiated_response_only_signed:
  assumes "handle_negotiated_response C now nd psk src nonces data = Ok (nd', frames)"
  shows "only_signed C data nd nd'"
proof (cases "nd_sessions nd' = nd_sessions nd")
  case True
  then show ?thesis by (simp add: only_signed_def)
next
  case False
  obtain resp m s where h: "parse_negotiated_response_pdu data = Some resp"
    "get_range data 0 (negotiated_response_len (nr_suite resp) - 64) = Some m"
    "verify_peer_signature C (nr_identity_pk resp) m (nr_signature resp)"
    and s: "se_peer_identity_pk s = Some (nr_identity_pk resp)"
    and p: "send_pq_auth_proof C (register_peer_session (nd\<lparr>nd_pending := AList.delete src (nd_pending nd)\<rparr>) (hex_encode (take 8 (nr_identity_pk resp))) src s)
       (hex_encode (take 8 (nr_identity_pk resp))) nonces = Ok (nd', frames)"
  proof -
    have pin: "se_peer_identity_pk (pin_peer_pq_commitment (pin_peer_identity t pk) c) = Some pk" for t pk c
      by (simp add: pin_peer_pq_commitment_def pin_peer_identity_def)
    show thesis
      using assms False that [OF _ _ _ pin]
      by (auto simp: handle_negotiated_response_def Let_def split: option.splits if_splits rust.splits prod.splits pending_handshake.splits)
  qed
  note sg = response_signed [OF h]
  let ?nd = "nd\<lparr>nd_pending := AList.delete src (nd_pending nd)\<rparr>"
  have "only_signed C data nd (register_peer_session ?nd (hex_encode (take 8 (nr_identity_pk resp))) src s)"
    using only_signed_trans [OF only_signed_refl(2) only_signed_register [OF sg s]] .
  then show ?thesis by (rule only_signed_proof [OF _ registered(1) s refl sg p])
qed

lemma pinned_key [simp]: "se_peer_identity_pk (pin_peer_identity s pk) = Some pk"
  by (simp add: pin_peer_identity_def)

lemma suite_offer_only_signed:
  assumes "handle_suite_offer C now nd psk src dr data = Ok (nd', raw)"
  shows "only_signed C data nd nd'"
proof (cases "nd' = nd")
  case False
  obtain hs d where h: "parse_handshake_pdu_suite data = Some hs"
    "verify_peer_signature C (sh_identity_pk hs) ([wire_id (sh_suite hs)] @ sh_x25519_pub hs @ sh_kyber_pub hs @ sh_identity_pk hs) (sh_signature hs)"
    and r: "nd' = register_peer_session nd (hex_encode (take 8 (sh_identity_pk hs))) src
       (pin_peer_identity (set_cipher_suite (new_with_role C now d (hex_encode (take 8 (sh_identity_pk hs))) Responder) (sh_suite hs)) (sh_identity_pk hs))"
    using assms False by (auto simp: handle_suite_offer_def Let_def split: option.splits if_splits rust.splits prod.splits)
  show ?thesis unfolding r by (rule only_signed_register [OF suite_offer_signed [OF h]]) simp
qed simp

lemma uniform_offer_only_signed:
  assumes "handle_uniform_offer C now nd psk src dr data = Ok (nd', raw)" and "HANDSHAKE_BLOB_LEN \<le> length data"
  shows "only_signed C data nd nd'"
proof (cases "nd' = nd")
  case False
  let ?pk = "slice 848 880 data"
  obtain d where v: "verify_peer_signature C ?pk (take 880 data) (slice 880 944 data)"
    and r: "nd' = register_peer_session nd (hex_encode (take 8 ?pk)) src
       (pin_peer_identity (new_with_role C now d (hex_encode (take 8 ?pk)) Responder) ?pk)"
    using assms False
    by (auto simp: handle_uniform_offer_def parse_uniform_handshake_pdu_def uniform_handshake_signed_material_def read_handshake_def
        HANDSHAKE_BLOB_LEN_def slice_take min_absorb1 Let_def split: if_splits rust.splits prod.splits)
  show ?thesis unfolding r by (rule only_signed_register) (use uniform_signed [of C 848 data 880 880] v in simp_all)
qed simp

lemma legacy_offer_only_signed:
  assumes "handle_legacy_offer C now pol nd psk src dr data = Ok (nd', raw, ev)"
  shows "only_signed C data nd nd'"
proof (cases "nd' = nd \<or> (\<exists>fp. nd' = put_session nd fp None)")
  case False
  let ?pk = "slice 848 880 data"
  obtain nd1 s where v: "verify_peer_signature C ?pk (slice 16 48 data @ slice 48 848 data) (slice 880 944 data)"
    and nd1: "nd1 = nd \<or> nd1 = put_session nd (hex_encode (take 8 ?pk)) None"
    and r: "nd' = register_peer_session nd1 (hex_encode (take 8 ?pk)) src (pin_peer_identity s ?pk)"
    using assms False
    by (auto simp: handle_legacy_offer_def parse_handshake_pdu_def read_handshake_def HANDSHAKE_BLOB_LEN_def slice_take Let_def
        split: if_splits rust.splits prod.splits)
  have "only_signed C data nd1 nd'" unfolding r by (rule only_signed_register [OF legacy_offer_signed [OF v]]) simp
  moreover have "only_signed C data nd nd1" using nd1 by auto
  ultimately show ?thesis using only_signed_trans by blast
qed auto

lemma beacon_keeps_sessions:
  assumes "handle_beacon C uniform nd src dr data = Ok (nd', raw)"
  shows "nd_sessions nd' = nd_sessions nd"
  using assms by (auto simp: handle_beacon_def initiate_handshake_def Let_def split: if_splits option.splits rust.splits prod.splits)

lemma take_pending_sessions: "take_pending nd src = (nd1, p) \<Longrightarrow> only_signed C data nd nd1"
  by (auto simp: take_pending_def)

lemma suite_response_only_signed: "only_signed C data nd (handle_suite_response C now nd psk src data)"
proof (cases "\<exists>p. handle_suite_response C now nd psk src data = nd\<lparr>nd_pending := p\<rparr>")
  case True
  then show ?thesis by auto
next
  case False
  then have "handle_suite_response C now nd psk src data \<noteq> nd" by (metis node.surjective node.update_convs(4))
  then obtain hs s where h: "parse_response_pdu_suite data = Some hs"
    "verify_peer_signature C (sr_identity_pk hs) ([wire_id (sr_suite hs)] @ sr_x25519_pub hs @ sr_kyber_ct hs @ sr_identity_pk hs) (sr_signature hs)"
    and r: "handle_suite_response C now nd psk src data = register_peer_session (nd\<lparr>nd_pending := AList.delete src (nd_pending nd)\<rparr>)
       (hex_encode (take 8 (sr_identity_pk hs))) src (pin_peer_identity s (sr_identity_pk hs))"
    using False by (auto simp: handle_suite_response_def take_pending_def Let_def split: option.splits if_splits pending_handshake.splits)
  show ?thesis unfolding r
    by (rule only_signed_trans [OF only_signed_refl(2) only_signed_register [OF suite_response_signed [OF h]]]) simp
qed

lemma uniform_response_only_signed:
  assumes "RESPONSE_BLOB_LEN \<le> length data"
  shows "only_signed C data nd (handle_uniform_response C now nd psk src data)"
proof (cases "\<exists>p. handle_uniform_response C now nd psk src data = nd\<lparr>nd_pending := p\<rparr>")
  case True
  then show ?thesis by auto
next
  case False
  let ?pk = "slice 816 848 data"
  have "handle_uniform_response C now nd psk src data \<noteq> nd" using False by (metis node.surjective node.update_convs(4))
  then obtain s where v: "verify_peer_signature C ?pk (take 848 data) (slice 848 912 data)"
    and r: "handle_uniform_response C now nd psk src data = register_peer_session (nd\<lparr>nd_pending := AList.delete src (nd_pending nd)\<rparr>)
       (hex_encode (take 8 ?pk)) src (pin_peer_identity s ?pk)"
    using assms False
    by (auto simp: handle_uniform_response_def parse_uniform_response_pdu_def uniform_response_signed_material_def read_response_def
        RESPONSE_BLOB_LEN_def slice_take min_absorb1 take_pending_def Let_def split: if_splits option.splits pending_handshake.splits)
  have "signed_in C data ?pk" using uniform_signed [of C 816 data 848 848] v by simp
  then show ?thesis unfolding r by (rule only_signed_trans [OF only_signed_refl(2) only_signed_register]) simp
qed

lemma legacy_response_registers:
  assumes "handle_legacy_response C now pol nd psk src data = nd'" and "\<And>p. nd' \<noteq> nd\<lparr>nd_pending := p\<rparr>"
  obtains s where "verify_peer_signature C (slice 816 848 data) (slice 16 48 data @ slice 48 816 data) (slice 848 912 data)"
    and "nd' = register_peer_session (nd\<lparr>nd_pending := AList.delete src (nd_pending nd)\<rparr>)
       (hex_encode (take 8 (slice 816 848 data))) src (pin_peer_identity s (slice 816 848 data))"
proof -
  have ne: "nd' \<noteq> nd" using assms(2) by (metis node.surjective node.update_convs(4))
  then have l: "912 \<le> length data" and p: "starts_with RESPONSE_MAGIC (take 912 data)"
    using assms(1) by (auto simp: handle_legacy_response_def parse_response_pdu_def RESPONSE_BLOB_LEN_def split: if_splits)
  then have parse: "parse_response_pdu (take 912 data) =
      Some \<lparr>rp_x25519_pub = slice 16 48 data, rp_kyber_ct = slice 48 816 data, rp_identity_pk = slice 816 848 data, rp_signature = slice 848 912 data\<rparr>"
    by (simp add: parse_response_pdu_def RESPONSE_BLOB_LEN_def read_response_def slice_take)
  have m: "copy_at 32 (slice 48 816 data) (copy_at 0 (slice 16 48 data) (zeros 800)) = slice 16 48 data @ slice 48 816 data"
    using l by (simp add: copy_at_def)
  have v: "verify_peer_signature C (slice 816 848 data) (slice 16 48 data @ slice 48 816 data) (slice 848 912 data)"
    using assms(1) ne l by (auto simp: handle_legacy_response_def parse m Let_def RESPONSE_BLOB_LEN_def split: if_splits)
  obtain ax dk where "map_of (nd_pending nd) src = Some (Kem512 ax dk)"
    using assms l v ne by (auto simp: handle_legacy_response_def parse m Let_def RESPONSE_BLOB_LEN_def take_pending_def
        split: if_splits option.splits pending_handshake.splits)
  then show thesis
    using that [OF v] assms l v ne
    by (auto simp: handle_legacy_response_def parse m Let_def RESPONSE_BLOB_LEN_def take_pending_def split: if_splits)
qed

lemma legacy_response_only_signed: "only_signed C data nd (handle_legacy_response C now pol nd psk src data)"
proof (cases "\<exists>p. handle_legacy_response C now pol nd psk src data = nd\<lparr>nd_pending := p\<rparr>")
  case True
  then show ?thesis by auto
next
  case False
  then obtain s where v: "verify_peer_signature C (slice 816 848 data) (slice 16 48 data @ slice 48 816 data) (slice 848 912 data)"
    and r: "handle_legacy_response C now pol nd psk src data = register_peer_session (nd\<lparr>nd_pending := AList.delete src (nd_pending nd)\<rparr>)
       (hex_encode (take 8 (slice 816 848 data))) src (pin_peer_identity s (slice 816 848 data))"
    using legacy_response_registers [OF refl, of C now pol nd psk src data] by metis
  show ?thesis unfolding r
    by (rule only_signed_trans [OF only_signed_refl(2) only_signed_register [OF legacy_response_signed [OF v]]]) simp
qed


section \<open>A forged offer\<close>

lemma magics_differ: "HANDSHAKE_MAGIC \<noteq> HANDSHAKE_NEGOTIATION_MAGIC" "HANDSHAKE_MAGIC \<noteq> HANDSHAKE_V3_MAGIC" "HANDSHAKE_MAGIC \<noteq> BEACON_PREFIX"
  "length HANDSHAKE_MAGIC = 16" "length HANDSHAKE_NEGOTIATION_MAGIC = 16" "length HANDSHAKE_V3_MAGIC = 16"
  by (simp_all add: HANDSHAKE_MAGIC_def HANDSHAKE_NEGOTIATION_MAGIC_def HANDSHAKE_V3_MAGIC_def BEACON_PREFIX_def ascii_def)

text \<open>
  C27. A finding: a forged legacy offer ends a live session. A node that is not in uniform mode removes
  the session of the identity named in a legacy offer before it looks at the signature: any sender who
  knows a peer's public key makes the node drop its session with that peer, with a signature that does
  not verify, and nothing is sent in answer.
\<close>

theorem forged_offer_ends_a_session:
  assumes "nd_sessions nd (hex_encode (take 8 pk)) = Some s" and "hex_encode (take 8 pk) \<noteq> fingerprint C (nd_identity nd)"
    and "session_count nd < MAX_SESSIONS" and "length x = 32" and "length k = 800" and "length pk = 32" and "length sig = 64"
    and "\<not> verify_peer_signature C pk (x @ k) sig"
    and "dl_ctr dl = 0" and "dl_payload dl = HANDSHAKE_MAGIC @ x @ k @ pk @ sig"
  shows "\<exists>ev. handle_pkt C now False pol psk redeem dr hs vpn order nd dl =
    Ok (put_session nd (hex_encode (take 8 pk)) None, Handshake [] [] ev)"
proof -
  let ?d = "HANDSHAKE_MAGIC @ x @ k @ pk @ sig"
  have p: "parse_handshake_pdu ?d = Some \<lparr>hb_x25519_pub = x, hb_kyber_pub = k, hb_identity_pk = pk, hb_signature = sig\<rparr>"
    using assms(4-7) by (simp add: parse_handshake_pdu_def starts_with_def read_handshake_def slice_def HANDSHAKE_BLOB_LEN_def magics_differ(4))
  have l: "length ?d = HANDSHAKE_BLOB_LEN" using assms(4-7) by (simp add: HANDSHAKE_BLOB_LEN_def magics_differ(4))
  have t: "take 16 ?d = HANDSHAKE_MAGIC" "take HANDSHAKE_BLOB_LEN ?d = ?d" "\<not> starts_with HANDSHAKE_NEGOTIATION_MAGIC ?d" "\<not> starts_with HANDSHAKE_V3_MAGIC ?d"
    using l magics_differ by (simp_all add: starts_with_def del: append.simps)
  have "\<exists>ev. handle_legacy_offer C now pol nd psk (dl_src dl) hs ?d = Ok (put_session nd (hex_encode (take 8 pk)) None, [], ev)"
    using assms(1-3,8) p l t(2) by (simp add: handle_legacy_offer_def Let_def del: append.simps)
  then obtain ev where "handle_legacy_offer C now pol nd psk (dl_src dl) hs ?d = Ok (put_session nd (hex_encode (take 8 pk)) None, [], ev)" ..
  moreover have "16 \<le> length ?d" using l by (simp add: HANDSHAKE_BLOB_LEN_def del: length_append)
  ultimately show ?thesis using t magics_differ(3) by (simp add: handle_pkt_def assms(9,10) Let_def del: append.simps length_append)
qed

section \<open>Suite handshakes over the sharded transport\<close>

text \<open>
  A finding: a suite (V3) handshake never completes over the three-shard transport. Every suite
  offer and response has odd length, the erasure coder pads it to an even one, and the parsers accept
  the exact length only: whichever two shards arrive, the offer is dropped without a change and so is
  the response, although both are well formed and correctly signed.
\<close>

theorem suite_handshakes_are_lost_in_sharding:
  assumes "rs_law C" and "signer sign" and "length x = 32" and "length pk = 32" and "i < 3"
    and "build_handshake_pdu_suite suite pk sign x k = Some offer" and "build_response_pdu_suite suite pk sign x ct = Some response"
  shows "\<exists>p raw p' raw'. rs_encode C offer = Ok (p, raw) \<and> handle_suite_offer C now nd psk src dr (delivered C raw i) = Ok (nd, []) \<and>
    rs_encode C response = Ok (p', raw') \<and> handle_suite_response C now nd psk src (delivered C raw' i) = nd"
proof -
  have lo: "length offer = 145 + suite_key_len suite" "offer \<noteq> []"
    using assms by (auto simp: build_handshake_pdu_suite_def HANDSHAKE_V3_MAGIC_def signerD Let_def split: if_splits)
  have lr: "length response = 145 + suite_ct_len suite" "response \<noteq> []"
    using assms by (auto simp: build_response_pdu_suite_def RESPONSE_V3_MAGIC_def signerD Let_def split: if_splits)
  have o16: "offer ! 16 = wire_id suite" using assms(6)
    by (auto simp: build_handshake_pdu_suite_def HANDSHAKE_V3_MAGIC_def nth_append Let_def split: if_splits)
  have r16: "response ! 16 = wire_id suite" using assms(7)
    by (auto simp: build_response_pdu_suite_def RESPONSE_V3_MAGIC_def nth_append Let_def split: if_splits)
  have pad: "padded_even offer = offer @ [0]" "padded_even response = response @ [0]"
    using lo lr by (cases suite; simp add: padded_even_def)+
  have none: "parse_handshake_pdu_suite (offer @ [0]) = None" "parse_response_pdu_suite (response @ [0]) = None"
    using lo lr o16 r16 by (simp_all add: parse_handshake_pdu_suite_def parse_response_pdu_suite_def nth_append Let_def)
  obtain p raw where o: "rs_encode C offer = Ok (p, raw)" "\<And>i. i < 3 \<Longrightarrow> delivered C raw i = padded_even offer"
    by (rule rs_encode_delivered [OF assms(1) lo(2)]) (rule that)
  obtain p' raw' where r: "rs_encode C response = Ok (p', raw')" "\<And>i. i < 3 \<Longrightarrow> delivered C raw' i = padded_even response"
    by (rule rs_encode_delivered [OF assms(1) lr(2)]) (rule that)
  show ?thesis
    using o r pad none assms(5) by (auto simp: handle_suite_offer_def handle_suite_response_def)
qed

section \<open>The uniform handshake\<close>

definition uniform_material :: "crates \<Rightarrow> ghost_identity \<Rightarrow> bytes \<Rightarrow> bytes \<Rightarrow> bytes \<Rightarrow> bytes" where
  "uniform_material C me pre x k = pre @ x25519_public C x @ k @ public_key_bytes C me"

lemma uniform_offer_sent:
  assumes "kex_law C" and "sig_law C" and "rs_law C" and "length pre = 16" and "length (nd_pending a) < MAX_PENDING_HANDSHAKES" and "i < 3"
  obtains a1 raw where "initiate_handshake C True pre a t x dk dk768 = Ok (a1, raw)" and "nd_identity a1 = nd_identity a"
    and "map_of (nd_pending a1) t = Some (Kem512 x dk)" and "delivered C raw i = uniform_material C (nd_identity a) pre x (mlkem_public C dk) @
           identity_sign C (nd_identity a) (uniform_material C (nd_identity a) pre x (mlkem_public C dk))"
proof -
  let ?m = "uniform_material C (nd_identity a) pre x (mlkem_public C dk)"
  let ?p = "build_uniform_handshake_pdu pre (public_key_bytes C (nd_identity a)) (identity_sign C (nd_identity a)) (x25519_public C x) (mlkem_public C dk)"
  note l = kex_lawD(1,2) [OF assms(1)] sig_lawD(1,2) [OF assms(2)]
  have b: "?p = ?m @ identity_sign C (nd_identity a) ?m"
    using uniform_offer_built [OF identity_signer [OF assms(2)] assms(4), of "x25519_public C x" "mlkem_public C dk" "public_key_bytes C (nd_identity a)"] l
    by (simp add: uniform_material_def public_key_bytes_def)
  then have "length ?p = 944" using l assms(4) by (simp add: uniform_material_def public_key_bytes_def identity_sign_def)
  then have "padded_even ?p = ?p" "?p \<noteq> []" by (auto simp: padded_even_even)
  moreover obtain q raw where r: "rs_encode C ?p = Ok (q, raw)" "\<And>i. i < 3 \<Longrightarrow> delivered C raw i = padded_even ?p"
    by (rule rs_encode_delivered [OF assms(3) \<open>?p \<noteq> []\<close>]) (rule that)
  moreover have "initiate_handshake C True pre a t x dk dk768 = Ok (a\<lparr>nd_pending := AList.update t (Kem512 x dk) (nd_pending a)\<rparr>, raw)"
    using assms(5) r(1) by (simp add: initiate_handshake_def)
  ultimately show thesis using that [of "a\<lparr>nd_pending := AList.update t (Kem512 x dk) (nd_pending a)\<rparr>" raw] assms(6) b
    by (simp add: update_conv')
qed

lemma uniform_reads:
  assumes "length pre = 16" and "length x = 32" and "length pk = 32" and "length sig = 64"
  shows "length k = 800 \<Longrightarrow> parse_uniform_handshake_pdu (pre @ x @ k @ pk @ sig) =
      Some \<lparr>hb_x25519_pub = x, hb_kyber_pub = k, hb_identity_pk = pk, hb_signature = sig\<rparr>"
    and "length k = 800 \<Longrightarrow> uniform_handshake_signed_material (pre @ x @ k @ pk @ sig) = Some (pre @ x @ k @ pk)"
    and "length ct = 768 \<Longrightarrow> parse_uniform_response_pdu (pre @ x @ ct @ pk @ sig) =
      Some \<lparr>rp_x25519_pub = x, rp_kyber_ct = ct, rp_identity_pk = pk, rp_signature = sig\<rparr>"
    and "length ct = 768 \<Longrightarrow> uniform_response_signed_material (pre @ x @ ct @ pk @ sig) = Some (pre @ x @ ct @ pk)"
  using assms by (simp_all add: parse_uniform_handshake_pdu_def uniform_handshake_signed_material_def read_handshake_def
      parse_uniform_response_pdu_def uniform_response_signed_material_def read_response_def slice_def HANDSHAKE_BLOB_LEN_def RESPONSE_BLOB_LEN_def)

lemma uniform_offer_answered:
  assumes "kex_law C" and "sig_law C" and "rs_law C" and "length pre = 16" and "length (hd_prefix dr) = 16"
    and "session_count b < MAX_SESSIONS" and "nd_sessions b (fingerprint C ia) = None" and "i < 3"
    and "mlkem_encapsulate C (hd_kem_rnd dr) (mlkem_public C dk) = Some (ct, ss)" and "length ct = 768"
    and "data = uniform_material C ia pre x (mlkem_public C dk) @ identity_sign C ia (uniform_material C ia pre x (mlkem_public C dk))"
  obtains raw where "handle_uniform_offer C t b psk src dr data = Ok (register_peer_session b (fingerprint C ia) src
       (pin_peer_identity (new_with_role C t (derive_hybrid_master_key_with_psk C (x25519_dh C (hd_x_secret dr) (x25519_public C x)) ss psk)
          (fingerprint C ia) Responder) (public_key_bytes C ia)), raw)"
    and "delivered C raw i = uniform_material C (nd_identity b) (hd_prefix dr) (hd_x_secret dr) ct @
           identity_sign C (nd_identity b) (uniform_material C (nd_identity b) (hd_prefix dr) (hd_x_secret dr) ct)"
proof -
  let ?m = "uniform_material C ia pre x (mlkem_public C dk)"
  let ?r = "uniform_material C (nd_identity b) (hd_prefix dr) (hd_x_secret dr) ct"
  let ?p = "build_uniform_response_pdu (hd_prefix dr) (public_key_bytes C (nd_identity b)) (identity_sign C (nd_identity b)) (x25519_public C (hd_x_secret dr)) ct"
  note l = kex_lawD(1,2) [OF assms(1)] sig_lawD(1,2) [OF assms(2)]
  have li: "length (public_key_bytes C k) = 32" "length (identity_sign C k u) = 64" for k u
    using l by (simp_all add: public_key_bytes_def identity_sign_def)
  have d: "data = pre @ x25519_public C x @ mlkem_public C dk @ public_key_bytes C ia @ identity_sign C ia ?m"
    by (simp add: assms(11) uniform_material_def)
  then have len: "length data = HANDSHAKE_BLOB_LEN" using l li assms(4) by (simp add: HANDSHAKE_BLOB_LEN_def)
  note reads = uniform_reads(1,2) [OF assms(4) l(1) [of x] li(1) [of ia] li(2) [of ia ?m] l(2) [of dk], folded d]
  have ver: "verify_peer_signature C (public_key_bytes C ia) ?m (identity_sign C ia ?m)" by (rule identity_verifies [OF assms(2)])
  have b: "?p = ?r @ identity_sign C (nd_identity b) ?r"
    using uniform_response_built [OF identity_signer [OF assms(2)] assms(5) l(1) assms(10) li(1)] by (simp add: uniform_material_def)
  then have "length ?p = 912" using l li assms(5,10) by (simp add: uniform_material_def)
  then have pad: "padded_even ?p = ?p" "?p \<noteq> []" by (auto simp: padded_even_even)
  obtain q raw where r: "rs_encode C ?p = Ok (q, raw)" "\<And>i. i < 3 \<Longrightarrow> delivered C raw i = padded_even ?p"
    by (rule rs_encode_delivered [OF assms(3) pad(2)]) (rule that)
  have "handle_uniform_offer C t b psk src dr data = Ok (register_peer_session b (fingerprint C ia) src
       (pin_peer_identity (new_with_role C t (derive_hybrid_master_key_with_psk C (x25519_dh C (hd_x_secret dr) (x25519_public C x)) ss psk)
          (fingerprint C ia) Responder) (public_key_bytes C ia)), raw)"
    using reads ver [unfolded uniform_material_def] len assms(6,7,9) r(1)
    by (simp add: handle_uniform_offer_def kyber_encapsulate_def fingerprint_def uniform_material_def Let_def)
  then show thesis by (rule that) (use r(2) pad b assms(8) in simp)
qed

text \<open>
  The uniform handshake end to end, over a transport that loses any one shard of either message:
  if the responder has room and holds no session under the initiator's fingerprint, the two nodes end
  with sessions that agree and have each other's identity keys pinned. No post-quantum commitment is
  exchanged, so both sessions count as authenticated at once and are open to application traffic
  without an identity proof.
\<close>

theorem uniform_handshake_establishes_peers:
  assumes "kex_law C" and "sig_law C" and "rs_law C" and "length pre = 16" and "length (hd_prefix dr) = 16"
    and "length (nd_pending a) < MAX_PENDING_HANDSHAKES" and "session_count b < MAX_SESSIONS"
    and "nd_sessions b (fingerprint C (nd_identity a)) = None" and "i < 3" and "j < 3"
  shows "\<exists>a1 offer b1 answer sa sb.
    initiate_handshake C True pre a addr_b x dk512 dk768 = Ok (a1, offer) \<and>
    handle_uniform_offer C t b psk addr_a dr (delivered C offer i) = Ok (b1, answer) \<and>
    nd_sessions (handle_uniform_response C t' a1 psk addr_b (delivered C answer j)) (fingerprint C (nd_identity b)) = Some sa \<and>
    nd_sessions b1 (fingerprint C (nd_identity a)) = Some sb \<and> peers C sa sb \<and> se_master_key sa = se_master_key sb \<and>
    se_role sa = Initiator \<and> se_role sb = Responder \<and>
    se_peer_identity_pk sa = Some (public_key_bytes C (nd_identity b)) \<and> se_peer_identity_pk sb = Some (public_key_bytes C (nd_identity a)) \<and>
    is_pq_authenticated sa \<and> is_pq_authenticated sb"
proof -
  let ?ia = "nd_identity a" and ?ib = "nd_identity b" and ?y = "hd_x_secret dr"
  obtain ct ss where kem: "mlkem_encapsulate C (hd_kem_rnd dr) (mlkem_public C dk512) = Some (ct, ss)" "length ct = 768" "mlkem_decapsulate C dk512 ct = ss"
    by (rule kex_lawE [OF assms(1)])
  obtain a1 offer where 1: "initiate_handshake C True pre a addr_b x dk512 dk768 = Ok (a1, offer)" "nd_identity a1 = ?ia"
    "map_of (nd_pending a1) addr_b = Some (Kem512 x dk512)"
    "delivered C offer i = uniform_material C ?ia pre x (mlkem_public C dk512) @ identity_sign C ?ia (uniform_material C ?ia pre x (mlkem_public C dk512))"
    by (rule uniform_offer_sent [OF assms(1-4,6,9)])
  define m where "m = derive_hybrid_master_key_with_psk C (x25519_dh C ?y (x25519_public C x)) ss psk"
  define sa where "sa = pin_peer_identity (new_with_role C t' m (fingerprint C ?ib) Initiator) (public_key_bytes C ?ib)"
  define sb where "sb = pin_peer_identity (new_with_role C t m (fingerprint C ?ia) Responder) (public_key_bytes C ?ia)"
  obtain answer where 2: "handle_uniform_offer C t b psk addr_a dr (delivered C offer i) = Ok (register_peer_session b (fingerprint C ?ia) addr_a sb, answer)"
    "delivered C answer j = uniform_material C ?ib (hd_prefix dr) ?y ct @ identity_sign C ?ib (uniform_material C ?ib (hd_prefix dr) ?y ct)"
    by (rule uniform_offer_answered [OF assms(1-5,7,8,10) kem(1,2) 1(4), of t psk addr_a, folded m_def, folded sb_def])
  let ?r = "uniform_material C ?ib (hd_prefix dr) ?y ct"
  let ?d = "hd_prefix dr @ x25519_public C ?y @ ct @ public_key_bytes C ?ib @ identity_sign C ?ib ?r"
  define D where "D = ?d"
  have d: "delivered C answer j = D" using 2(2) by (simp add: uniform_material_def D_def)
  have l: "length (public_key_bytes C ?ib) = 32" "length (identity_sign C ?ib ?r) = 64" "length (x25519_public C ?y) = 32"
    using kex_lawD(1) [OF assms(1)] sig_lawD(1,2) [OF assms(2)] by (simp_all add: public_key_bytes_def identity_sign_def)
  then have len: "length D = RESPONSE_BLOB_LEN" using assms(5) kem(2) by (simp add: RESPONSE_BLOB_LEN_def D_def)
  note reads = uniform_reads(3,4) [OF assms(5) l(3,1,2) kem(2), folded D_def]
  have dh: "x25519_dh C x (x25519_public C ?y) = x25519_dh C ?y (x25519_public C x)" by (rule kex_lawD(3) [OF assms(1)])
  have "handle_uniform_response C t' a1 psk addr_b D = register_peer_session (a1\<lparr>nd_pending := AList.delete addr_b (nd_pending a1)\<rparr>)
      (fingerprint C ?ib) addr_b sa"
    using reads len 1(3) kem(3) dh identity_verifies [OF assms(2), of ?ib ?r, unfolded uniform_material_def]
    by (simp add: handle_uniform_response_def take_pending_def Let_def uniform_material_def sa_def m_def session_new_def fingerprint_def)
  then have 3: "nd_sessions (handle_uniform_response C t' a1 psk addr_b (delivered C answer j)) (fingerprint C ?ib) = Some sa"
    unfolding d by (simp add: registered)
  have p: "peers C sa sb" using peers_new [of C t' m "fingerprint C ?ib" t "fingerprint C ?ia"]
    by (simp add: sa_def sb_def pin_peer_identity_def peers_def seal_direction_def)
  have f: "se_master_key sa = se_master_key sb" "se_role sa = Initiator" "se_role sb = Responder"
    "se_peer_identity_pk sa = Some (public_key_bytes C ?ib)" "se_peer_identity_pk sb = Some (public_key_bytes C ?ia)"
    "is_pq_authenticated sa" "is_pq_authenticated sb"
    by (simp_all add: sa_def sb_def pin_peer_identity_def new_with_role_def is_pq_authenticated_def)
  show ?thesis using 1(1) 2(1) 3 registered(1) p f by (intro exI conjI) assumption+
qed

section \<open>Witnesses\<close>

definition demo_hs :: hs_draw where
  "demo_hs = \<lparr>hd_kem_rnd = [6], hd_x_secret = [7], hd_dk512 = [4], hd_dk768 = [5], hd_prefix = zeros 16, hd_nonces = (\<lambda>_. zeros 12)\<rparr>"

definition demo_policy :: hs_policy where
  "demo_policy = \<lparr>hp_hub_authorized = None, hp_byzantine = Some (\<lambda>_. False), hp_revoked = None\<rparr>"

lemma demo_node_empty [simp]: "nd_sessions (demo_node v) = Map.empty" "nd_pending (demo_node v) = []" "session_count (demo_node v) = 0"
  by (simp_all add: demo_node_def session_count_def)

theorem uniform_handshake_establishes_peers_witness:
  "\<exists>a1 offer b1 answer. initiate_handshake demo_crates True (zeros 16) (demo_node [1]) demo_addr [3] [4] [5] = Ok (a1, offer) \<and>
     handle_uniform_offer demo_crates 0 (demo_node [2]) None demo_addr demo_hs (delivered demo_crates offer 1) = Ok (b1, answer)"
  using uniform_handshake_establishes_peers [OF demo_laws(5,7,4), of "zeros 16" demo_hs "demo_node [1]" "demo_node [2]" 1 0 demo_addr "[3]" "[4]" "[5]"
      0 None demo_addr 0]
  by (auto simp: demo_hs_def MAX_PENDING_HANDSHAKES_def MAX_SESSIONS_def)

theorem suite_handshakes_are_lost_in_sharding_witness:
  "\<exists>offer p raw. build_handshake_pdu_suite X25519MlKem768V3 (zeros 32) (\<lambda>_. zeros 64) (zeros 32) (zeros 1184) = Some offer \<and>
     rs_encode demo_crates offer = Ok (p, raw) \<and>
     handle_suite_offer demo_crates 0 (demo_node [2]) None demo_addr demo_hs (delivered demo_crates raw 2) = Ok (demo_node [2], [])"
proof -
  obtain offer response where b: "build_handshake_pdu_suite X25519MlKem768V3 (zeros 32) (\<lambda>_. zeros 64) (zeros 32) (zeros 1184) = Some offer"
    "build_response_pdu_suite X25519MlKem768V3 (zeros 32) (\<lambda>_. zeros 64) (zeros 32) (zeros 1088) = Some response"
    by (simp add: build_handshake_pdu_suite_def build_response_pdu_suite_def Let_def)
  show ?thesis
    using suite_handshakes_are_lost_in_sharding [OF demo_laws(4) _ _ _ _ b, of 2 0 "demo_node [2]" None demo_addr demo_hs] b(1)
    by (auto simp: signer_def)
qed

theorem forged_offer_ends_a_session_witness:
  "\<exists>ev. handle_pkt demo_crates 0 False demo_policy None (\<lambda>_ _. None) demo_draw demo_hs False []
       (put_session (demo_node [2]) (hex_encode (take 8 (9 # zeros 31))) (Some demo_a))
       \<lparr>dl_ctr = 0, dl_v2 = None, dl_payload = HANDSHAKE_MAGIC @ zeros 32 @ zeros 800 @ (9 # zeros 31) @ 1 # zeros 63, dl_src = demo_addr,
        dl_wire_session_hash = None\<rparr> =
     Ok (put_session (put_session (demo_node [2]) (hex_encode (take 8 (9 # zeros 31))) (Some demo_a)) (hex_encode (take 8 (9 # zeros 31))) None,
         Handshake [] [] ev)"
proof (rule forged_offer_ends_a_session)
  show "hex_encode (take 8 (9 # zeros 31)) \<noteq>
    fingerprint demo_crates (nd_identity (put_session (demo_node [2]) (hex_encode (take 8 (9 # zeros 31))) (Some demo_a)))"
    by (simp add: demo_fp hex_encode_def hex_digit_def)
  show "\<not> verify_peer_signature demo_crates (9 # zeros 31) (zeros 32 @ zeros 800) ((1 # zeros 63))"
  proof -
    have "(1 # zeros 63) ! 0 \<noteq> (1 # zeros 63 :: bytes) ! 1" by simp
    then have "1 # zeros 63 \<noteq> replicate 64 c" for c :: u8 by (metis nth_replicate one_less_numeral_iff semiring_norm(76) zero_less_numeral)
    then show ?thesis by (simp add: verify_peer_signature_def demo_crates_def)
  qed
qed (simp_all add: session_count_def MAX_SESSIONS_def)


end
