(* ===== verification/Relay.thy ===== *)
theory Relay
  imports Utf8 Receive
begin

text \<open>
  Relaying, src/src/ghost/net/relay.rs and the relay branches of \<open>handle_pkt\<close> in src/src/main.rs:
  the two envelopes and the nested onion, the fixed-size shard onion, the store-and-forward buffer
  with its delivery pass, the blind relay, and what the daemon does with an onion it receives.
  Fingerprints are byte lists; strings read off the wire go through the UTF-8 conversions. Statistics
  other than the relay's own counters, logging and failing socket writes are left out.
\<close>

section \<open>Envelopes and onions\<close>

definition RELAY_MAGIC :: bytes where "RELAY_MAGIC = ascii ''RLY!''"
definition BLIND_MAGIC :: bytes where "BLIND_MAGIC = ascii ''BLND''"
definition MAX_HOPS :: nat where "MAX_HOPS = 5"
definition BUNDLE_EXPIRY_SECS :: nat where "BUNDLE_EXPIRY_SECS = 3600"
definition RELAY_ENVELOPE_MIN :: nat where "RELAY_ENVELOPE_MIN = 40"

text \<open>A name in a field of 32 bytes, cut or padded with zeros, and what is read before the first zero.\<close>

definition name_field :: "bytes \<Rightarrow> bytes" where
  "name_field fp = copy_at 0 (take (min (length fp) 32) fp) (zeros 32)"

definition until_nul :: "bytes \<Rightarrow> bytes" where
  "until_nul bs = takeWhile (\<lambda>b. b \<noteq> 0) bs"

definition build_envelope :: "bytes \<Rightarrow> bytes \<Rightarrow> u32 \<Rightarrow> bytes \<Rightarrow> bytes" where
  "build_envelope magic fp hops payload = magic @ be_u32 hops @ name_field fp @ payload"

record relay_header =
  rh_remaining_hops :: u32
  rh_next_hop_fingerprint :: bytes
  rh_inner_payload :: bytes

definition parse_relay_header :: "bytes \<Rightarrow> relay_header option" where
  "parse_relay_header data =
     (if length data < 44 \<or> take 4 data \<noteq> RELAY_MAGIC then None
      else Some \<lparr>rh_remaining_hops = u32_be (slice 4 8 data),
                 rh_next_hop_fingerprint = from_utf8_lossy (until_nul (slice 8 40 data)),
                 rh_inner_payload = drop 40 data\<rparr>)"

definition build_relay_packet :: "bytes \<Rightarrow> u32 \<Rightarrow> bytes \<Rightarrow> bytes" where
  "build_relay_packet next_hop_fingerprint remaining_hops inner_payload =
     build_envelope RELAY_MAGIC next_hop_fingerprint remaining_hops inner_payload"

text \<open>The loop of \<open>build_onion_route\<close>, from the last hop of the list to the first.\<close>

fun onion_layers :: "bytes list \<Rightarrow> bytes \<Rightarrow> bytes" where
  "onion_layers [] payload = payload"
| "onion_layers (hop # hops) payload =
     build_relay_packet hop (of_nat (length (hop # hops))) (onion_layers hops payload)"

definition build_onion_route :: "bytes list \<Rightarrow> bytes \<Rightarrow> bytes option" where
  "build_onion_route route payload =
     (if length route < 2 \<or> length route > MAX_HOPS + 1 \<or> [] \<in> set route \<or> \<not> distinct route then None
      else Some (onion_layers (tl route) payload))"

section \<open>The shard onion\<close>

definition SPHINX_SHARD_LEN :: nat where "SPHINX_SHARD_LEN = 576"
definition SPHINX_MAX_HOP_NAME :: nat where "SPHINX_MAX_HOP_NAME = 32"

record peeled_sphinx_hop =
  ps_next_hop :: bytes
  ps_inner_payload :: bytes

definition exit_layer :: "crates \<Rightarrow> bytes \<Rightarrow> u8 \<Rightarrow> bytes \<Rightarrow> bytes" where
  "exit_layer C exit_key shard_idx shard_data =
     chacha_encrypt C exit_key (replicate 12 0x33) [] ([shard_idx, of_nat (length shard_data)] @ shard_data)"

definition hop_layer :: "crates \<Rightarrow> bytes \<Rightarrow> u8 \<Rightarrow> bytes \<Rightarrow> bytes \<Rightarrow> bytes" where
  "hop_layer C key nonce_byte next_hop inner = chacha_encrypt C key (replicate 12 nonce_byte) [] (name_field next_hop @ inner)"

definition sphinx_build ::
  "crates \<Rightarrow> bytes \<Rightarrow> bytes \<Rightarrow> bytes \<Rightarrow> bytes \<Rightarrow> bytes \<Rightarrow> bytes \<Rightarrow> u8 \<Rightarrow> bytes \<Rightarrow> (bytes, unit) rust" where
  "sphinx_build C filler guard_key middle_hop middle_key exit_hop exit_key shard_idx shard_data =
     (let exit_sealed = exit_layer C exit_key shard_idx shard_data;
          middle_sealed = hop_layer C middle_key 0x22 exit_hop exit_sealed;
          guard_sealed = hop_layer C guard_key 0x11 middle_hop middle_sealed
      in if length guard_sealed > SPHINX_SHARD_LEN - 2 then Panic
         else Ok (be_u16 (of_nat (length guard_sealed)) @ guard_sealed @ take (SPHINX_SHARD_LEN - 2 - length guard_sealed) filler))"

definition peel_hop :: "crates \<Rightarrow> bytes \<Rightarrow> bytes \<Rightarrow> peeled_sphinx_hop option" where
  "peel_hop C hop_key ciphertext =
     (let framed = (length ciphertext = SPHINX_SHARD_LEN);
          actual_len = unat (u16_be (slice 0 2 ciphertext))
      in if framed \<and> actual_len > SPHINX_SHARD_LEN - 2 then None
         else
           (let body = (if framed then slice 2 (2 + actual_len) ciphertext else ciphertext);
                decrypted = (case chacha_decrypt C hop_key (replicate 12 0x11) [] body of
                               Some pt \<Rightarrow> Some pt
                             | None \<Rightarrow> chacha_decrypt C hop_key (replicate 12 0x22) [] body)
            in case decrypted of
                 None \<Rightarrow> None
               | Some pt \<Rightarrow>
                   if length pt < SPHINX_MAX_HOP_NAME then None
                   else case from_utf8 (until_nul (take SPHINX_MAX_HOP_NAME pt)) of
                     None \<Rightarrow> None
                   | Some next_hop \<Rightarrow> Some \<lparr>ps_next_hop = next_hop, ps_inner_payload = drop SPHINX_MAX_HOP_NAME pt\<rparr>))"

definition exit_open :: "crates \<Rightarrow> bytes \<Rightarrow> bytes \<Rightarrow> (u8 \<times> bytes) option" where
  "exit_open C exit_key ciphertext =
     (case chacha_decrypt C exit_key (replicate 12 0x33) [] ciphertext of
        None \<Rightarrow> None
      | Some pt \<Rightarrow>
          if length pt < 2 then None
          else if length pt < 2 + unat (pt ! 1) then None
          else Some (pt ! 0, slice 2 (2 + unat (pt ! 1)) pt))"

section \<open>Store and forward\<close>

record relay_bundle =
  bn_target_fingerprint :: bytes
  bn_encrypted_shards :: "bytes list"
  bn_session_hash :: bytes
  bn_created_at :: instant
  bn_retries :: u8
  bn_remaining_route :: "bytes list"

text \<open>The bundles by next hop.\<close>

type_synonym bundle_buffer = "(bytes \<times> relay_bundle list) list"

definition enqueue :: "bundle_buffer \<Rightarrow> relay_bundle \<Rightarrow> bundle_buffer" where
  "enqueue bb b =
     (let fp = bn_target_fingerprint b
      in AList.update fp ((case map_of bb fp of Some v \<Rightarrow> v | None \<Rightarrow> []) @ [b]) bb)"

definition dequeue_for :: "bundle_buffer \<Rightarrow> bytes \<Rightarrow> bundle_buffer \<times> relay_bundle list" where
  "dequeue_for bb peer_fp = (AList.delete peer_fp bb, case map_of bb peer_fp of Some v \<Rightarrow> v | None \<Rightarrow> [])"

definition fresh_bundle :: "instant \<Rightarrow> relay_bundle \<Rightarrow> bool" where
  "fresh_bundle now b \<longleftrightarrow> now - bn_created_at b < secs BUNDLE_EXPIRY_SECS"

definition expire_old :: "instant \<Rightarrow> bundle_buffer \<Rightarrow> bundle_buffer \<times> nat" where
  "expire_old now bb =
     (filter (\<lambda>(fp, v). v \<noteq> []) (map (\<lambda>(fp, v). (fp, filter (fresh_bundle now) v)) bb),
      sum_list (map (\<lambda>(fp, v). length (filter (\<lambda>b. \<not> fresh_bundle now b) v)) bb))"

definition has_pending :: "bundle_buffer \<Rightarrow> bytes \<Rightarrow> bool" where
  "has_pending bb peer_fp = (case map_of bb peer_fp of Some v \<Rightarrow> v \<noteq> [] | None \<Rightarrow> False)"

text \<open>
  Forwarding one hop. The result has the node (its session with the next hop has sealed a message),
  the buffer, the frames sent with their address, and the verdict.
\<close>

definition relay_frames :: "crates \<Rightarrow> bool \<Rightarrow> bytes \<Rightarrow> sealing_material \<Rightarrow> bytes \<Rightarrow> (bytes list, unit) rust" where
  "relay_frames C use_bulk sh material inner_relay =
     (let framed = (if length inner_relay mod 2 \<noteq> 0 then inner_relay @ [0] else inner_relay);
          tail = (if use_bulk then zeros JITTER_MAX
                  else tail_for C (sm_key material) (sm_nonce material) (sm_epoch material) (sm_direction material));
          framed = xchacha_seal_in_place_with_aad C (sm_key material) (sm_nonce material) (sm_epoch material)
                     (sm_direction material) framed (if use_bulk then [] else tail);
          tag = (if length framed \<ge> 16 then drop (length framed - 16) framed else zeros 16)
      in case rs_encode C framed of
           Ok (_, shards) \<Rightarrow>
             all_ok (map (\<lambda>(i, shard).
               build_gtf_v2_frame \<lparr>gh_session_hash = sh, gh_counter = sm_counter material, gh_epoch = sm_epoch material,
                 gh_nonce = sm_nonce material, gh_shard_index = of_nat i, gh_flags = 0, gh_bulk = use_bulk, gh_tail = tail\<rparr>
                 (frame_shard shard) tag) (enumerate 0 (take 3 shards)))
         | _ \<Rightarrow> Panic)"

definition try_forward_relay ::
  "crates \<Rightarrow> instant \<Rightarrow> bytes \<Rightarrow> node \<Rightarrow> bundle_buffer \<Rightarrow> bytes \<Rightarrow>
   (node \<times> bundle_buffer \<times> (sock_addr \<times> bytes list) option, unit) rust" where
  "try_forward_relay C now nonce nd bb relay_payload =
     (case parse_relay_header relay_payload of
        None \<Rightarrow> Ok (nd, bb, None)
      | Some header \<Rightarrow>
          if rh_remaining_hops header = 0 then Ok (nd, bb, None)
          else
            (let next_fp = rh_next_hop_fingerprint header
             in case nd_peers nd next_fp of
                  None \<Rightarrow>
                    Ok (nd, enqueue bb \<lparr>bn_target_fingerprint = next_fp, bn_encrypted_shards = [rh_inner_payload header],
                              bn_session_hash = zeros 4, bn_created_at = now, bn_retries = 0, bn_remaining_route = []\<rparr>, None)
                | Some next_addr \<Rightarrow>
                    (case nd_sessions nd next_fp of
                       None \<Rightarrow> Ok (nd, bb, None)
                     | Some sess \<Rightarrow>
                         (let (sess', material) = seal_material C sess nonce;
                              new_remaining = rh_remaining_hops header - 1;
                              inner_relay = (if new_remaining > 0 then rh_inner_payload header
                                             else ascii ''DIR!'' @ rh_inner_payload header)
                          in case relay_frames C (se_use_bulk sess) (se_session_hash sess) material inner_relay of
                               Ok frames \<Rightarrow> Ok (put_session nd next_fp (Some sess'), bb, Some (next_addr, frames))
                             | Err e \<Rightarrow> Err e
                             | Panic \<Rightarrow> Panic))))"

text \<open>One round of the background task, over the peers \<open>pending\<close> in the order the map is walked.\<close>

fun deliver_bundles ::
  "crates \<Rightarrow> instant \<Rightarrow> (nat \<Rightarrow> bytes) \<Rightarrow> bytes \<Rightarrow> node \<Rightarrow> bundle_buffer \<Rightarrow> relay_bundle list \<Rightarrow>
   (node \<times> bundle_buffer \<times> (sock_addr \<times> bytes list) list, unit) rust" where
  "deliver_bundles C now nonces fp nd bb [] = Ok (nd, bb, [])"
| "deliver_bundles C now nonces fp nd bb (b # bs) =
     (if bn_encrypted_shards b = [] then Panic
      else case try_forward_relay C now (nonces 0) nd bb (build_relay_packet fp 1 (hd (bn_encrypted_shards b))) of
        Ok (nd, bb, sent) \<Rightarrow>
          (case deliver_bundles C now (nonces \<circ> Suc) fp nd bb bs of
             Ok (nd, bb, out) \<Rightarrow> Ok (nd, bb, (case sent of Some x \<Rightarrow> x # out | None \<Rightarrow> out))
           | Err e \<Rightarrow> Err e
           | Panic \<Rightarrow> Panic)
      | Err e \<Rightarrow> Err e
      | Panic \<Rightarrow> Panic)"

fun store_forward_peers ::
  "crates \<Rightarrow> instant \<Rightarrow> (nat \<Rightarrow> bytes) \<Rightarrow> node \<Rightarrow> bundle_buffer \<Rightarrow> bytes list \<Rightarrow>
   (node \<times> bundle_buffer \<times> (sock_addr \<times> bytes list) list, unit) rust" where
  "store_forward_peers C now nonces nd bb [] = Ok (nd, bb, [])"
| "store_forward_peers C now nonces nd bb (fp # fps) =
     (if nd_sessions nd fp = None \<or> nd_peers nd fp = None then store_forward_peers C now nonces nd bb fps
      else
        (let (bb, bundles) = dequeue_for bb fp
         in case deliver_bundles C now nonces fp nd bb bundles of
              Ok (nd, bb, out) \<Rightarrow>
                (case store_forward_peers C now (\<lambda>k. nonces (k + length bundles)) nd bb fps of
                   Ok (nd, bb, out') \<Rightarrow> Ok (nd, bb, out @ out')
                 | Err e \<Rightarrow> Err e
                 | Panic \<Rightarrow> Panic)
            | Err e \<Rightarrow> Err e
            | Panic \<Rightarrow> Panic))"

definition store_forward_round ::
  "crates \<Rightarrow> instant \<Rightarrow> (nat \<Rightarrow> bytes) \<Rightarrow> node \<Rightarrow> bundle_buffer \<Rightarrow> (node \<times> bundle_buffer \<times> (sock_addr \<times> bytes list) list, unit) rust" where
  "store_forward_round C now nonces nd bb =
     (let bb = fst (expire_old now bb) in store_forward_peers C now nonces nd bb (map fst bb))"

section \<open>The blind relay\<close>

record blind_frame =
  bf_target_fingerprint :: bytes
  bf_opaque :: bytes

definition parse_blind_frame :: "bytes \<Rightarrow> blind_frame option" where
  "parse_blind_frame raw =
     (if length raw < RELAY_ENVELOPE_MIN \<or> take 4 raw \<noteq> BLIND_MAGIC then None
      else if u32_be (slice 4 8 raw) \<noteq> 0 then None
      else case from_utf8 (until_nul (slice 8 40 raw)) of
        None \<Rightarrow> None
      | Some target \<Rightarrow> Some \<lparr>bf_target_fingerprint = target, bf_opaque = drop RELAY_ENVELOPE_MIN raw\<rparr>)"

definition wrap_blind_frame :: "bytes \<Rightarrow> bytes \<Rightarrow> bytes" where
  "wrap_blind_frame target_fp payload = build_envelope BLIND_MAGIC target_fp 0 payload"

datatype drop_reason = NotAnEnvelope | NotBlindForward | UnauthorizedSender | UnknownTarget | QuotaExceeded | Loop

datatype forwarded = Deliver sock_addr bytes | Dropped drop_reason

record derp_relay =
  dp_authorized :: "bytes \<rightharpoonup> sock_addr"
  dp_candidates :: "(bytes \<times> sock_addr) list"
  dp_flow :: flow_controller
  dp_forwarded_frames :: u64
  dp_forwarded_bytes :: u64
  dp_dropped :: u64

definition derp_new :: "flow_controller \<Rightarrow> derp_relay" where
  "derp_new flow = \<lparr>dp_authorized = Map.empty, dp_candidates = [], dp_flow = flow, dp_forwarded_frames = 0,
     dp_forwarded_bytes = 0, dp_dropped = 0\<rparr>"

definition authorize :: "derp_relay \<Rightarrow> bytes \<Rightarrow> sock_addr \<Rightarrow> derp_relay" where
  "authorize r fp addr = r\<lparr>dp_authorized := (dp_authorized r)(fp \<mapsto> addr)\<rparr>"

definition deauthorize :: "derp_relay \<Rightarrow> bytes \<Rightarrow> derp_relay" where
  "deauthorize r fp = r\<lparr>dp_authorized := (dp_authorized r)(fp := None)\<rparr>"

definition is_authorized :: "derp_relay \<Rightarrow> bytes \<Rightarrow> bool" where
  "is_authorized r fp \<longleftrightarrow> dp_authorized r fp \<noteq> None"

definition add_relay_candidate :: "derp_relay \<Rightarrow> bytes \<Rightarrow> sock_addr \<Rightarrow> derp_relay" where
  "add_relay_candidate r fp addr = r\<lparr>dp_candidates := AList.update fp addr (dp_candidates r)\<rparr>"

text \<open>The comparator of the sort: authenticated relays first, then by fingerprint.\<close>

definition candidate_before :: "derp_relay \<Rightarrow> bytes \<times> sock_addr \<Rightarrow> bytes \<times> sock_addr \<Rightarrow> bool" where
  "candidate_before r a b =
     (let known = is_authorized r (fst a); other_known = is_authorized r (fst b)
      in if known = other_known then \<not> str_less (fst b) (fst a) else known)"

fun insert_candidate :: "derp_relay \<Rightarrow> bytes \<times> sock_addr \<Rightarrow> (bytes \<times> sock_addr) list \<Rightarrow> (bytes \<times> sock_addr) list" where
  "insert_candidate r c [] = [c]"
| "insert_candidate r c (d # ds) = (if candidate_before r c d then c # d # ds else d # insert_candidate r c ds)"

definition relay_candidates :: "derp_relay \<Rightarrow> (bytes \<times> sock_addr) list" where
  "relay_candidates r = foldr (insert_candidate r) (dp_candidates r) []"

definition pick_relay :: "derp_relay \<Rightarrow> bytes \<Rightarrow> bytes \<Rightarrow> (bytes \<times> sock_addr) option" where
  "pick_relay r our_fp target_fp = find (\<lambda>(fp, _). fp \<noteq> our_fp \<and> fp \<noteq> target_fp) (relay_candidates r)"

definition derp_drop :: "derp_relay \<Rightarrow> drop_reason \<Rightarrow> derp_relay \<times> forwarded" where
  "derp_drop r reason = (r\<lparr>dp_dropped := dp_dropped r + 1\<rparr>, Dropped reason)"

definition derp_forward :: "derp_relay \<Rightarrow> u64 \<Rightarrow> bytes \<Rightarrow> bytes \<Rightarrow> derp_relay \<times> forwarded" where
  "derp_forward r now from_fp payload =
     (case parse_blind_frame payload of
        None \<Rightarrow> (r, Dropped (if length payload \<ge> RELAY_ENVELOPE_MIN \<and> take 4 payload = RELAY_MAGIC
                              then NotBlindForward else NotAnEnvelope))
      | Some frame \<Rightarrow>
          if dp_authorized r from_fp = None then derp_drop r UnauthorizedSender
          else if bf_target_fingerprint frame = from_fp then derp_drop r Loop
          else case dp_authorized r (bf_target_fingerprint frame) of
            None \<Rightarrow> derp_drop r UnknownTarget
          | Some dest \<Rightarrow>
              (case try_consume_transit (dp_flow r) now (of_nat (length payload)) of
                 (flow, False) \<Rightarrow> derp_drop (r\<lparr>dp_flow := flow\<rparr>) QuotaExceeded
               | (flow, True) \<Rightarrow>
                   (r\<lparr>dp_flow := flow, dp_forwarded_frames := dp_forwarded_frames r + 1,
                      dp_forwarded_bytes := dp_forwarded_bytes r + of_nat (length (bf_opaque frame))\<rparr>,
                    Deliver dest (bf_opaque frame))))"

section \<open>Onions at the daemon\<close>

text \<open>
  The relay branch of \<open>handle_pkt\<close>: what is sent on to the next hop (the onion's next layer, or the
  zero-hop form for the destination). \<open>evicted\<close> is the leecher check and \<open>byzantine\<close> the reputation
  check. A daemon that is asked to relay draws a counter from the session before it seals.
\<close>

definition relay_rewrap :: "relay_header \<Rightarrow> bytes" where
  "relay_rewrap relay =
     (if rh_remaining_hops relay > 1
      then (case parse_relay_header (rh_inner_payload relay) of
              Some _ \<Rightarrow> rh_inner_payload relay
            | None \<Rightarrow> build_relay_packet (rh_next_hop_fingerprint relay) (rh_remaining_hops relay - 1) (rh_inner_payload relay))
      else build_relay_packet (rh_next_hop_fingerprint relay) 0 (rh_inner_payload relay))"

definition forward_onion ::
  "crates \<Rightarrow> bool \<Rightarrow> (bytes \<Rightarrow> bool) \<Rightarrow> (bytes \<Rightarrow> bool) \<Rightarrow> bytes \<Rightarrow> node \<Rightarrow> bytes \<Rightarrow> relay_header \<Rightarrow>
   (node \<times> (sock_addr \<times> bytes list) option, unit) rust" where
  "forward_onion C shardsec evicted byzantine nonce nd peer_fp relay =
     (let next = rh_next_hop_fingerprint relay
      in if evicted peer_fp then Ok (nd, None)
         else if byzantine next then Ok (nd, None)
         else case nd_peers nd next of
           None \<Rightarrow> Ok (nd, None)
         | Some tgt \<Rightarrow>
             (case nd_sessions nd next of
                None \<Rightarrow> Ok (nd, None)
              | Some sess \<Rightarrow>
                  (let sess = fst (next_tx_counter sess);
                       (sess, hop_ctx) = ctx_from_session C sess nonce
                   in case enc_split C shardsec hop_ctx (relay_rewrap relay) of
                        Ok (f, tag) \<Rightarrow>
                          (case send3 C shardsec hop_ctx f tag of
                             Ok frames \<Rightarrow> Ok (put_session nd next (Some sess), Some (tgt, frames))
                           | _ \<Rightarrow> Panic)
                      | _ \<Rightarrow> Panic)))"

text \<open>The final hop: the inner blob is opened under the master key of the first session that fits.\<close>

fun open_relayed :: "crates \<Rightarrow> bytes \<Rightarrow> bytes \<Rightarrow> open_ctx list \<Rightarrow> (open_ctx \<times> bytes) option" where
  "open_relayed C wire_nonce blob [] = None"
| "open_relayed C wire_nonce blob (c # cs) =
     (case xchacha_open C (oc_master_key c) wire_nonce 0 InitiatorToResponder blob of
        Some plain \<Rightarrow> Some (c, plain)
      | None \<Rightarrow>
          (case xchacha_open C (oc_master_key c) wire_nonce 0 ResponderToInitiator blob of
             Some plain \<Rightarrow> Some (c, plain)
           | None \<Rightarrow> open_relayed C wire_nonce blob cs))"

definition relay_final_hop :: "crates \<Rightarrow> bytes list \<Rightarrow> node \<Rightarrow> relay_header \<Rightarrow> (u64 \<times> open_ctx \<times> bytes) option" where
  "relay_final_hop C order nd relay =
     (let inner = rh_inner_payload relay
      in if length inner < 20 + 16 then None
         else map_option (\<lambda>(c, plain). (u64_be (slice 0 8 inner), c, plain))
                (open_relayed C (slice 8 20 inner) (drop 20 inner) (snapshot_of (nd_sessions nd) order)))"

section \<open>Names\<close>

definition hop_name :: "bytes \<Rightarrow> bool" where
  "hop_name fp \<longleftrightarrow> fp \<noteq> [] \<and> length fp \<le> 32 \<and> 0 \<notin> set fp \<and> utf8_valid fp"

lemma length_name_field [simp]: "length (name_field fp) = 32"
  by (simp add: name_field_def)

lemma name_field_read:
  assumes "hop_name fp"
  shows "until_nul (name_field fp) = fp"
proof -
  have "name_field fp = fp @ zeros (32 - length fp)"
    using assms by (simp add: name_field_def copy_at_def hop_name_def)
  moreover have "takeWhile (\<lambda>b. b \<noteq> 0) (fp @ zeros n) = fp" for n
  proof -
    have "takeWhile (\<lambda>b. b \<noteq> 0) (zeros n) = []" by (cases n) (simp_all add: zeros_def)
    then show ?thesis using assms by (subst takeWhile_append2) (auto simp: hop_name_def)
  qed
  ultimately show ?thesis by (simp add: until_nul_def)
qed

lemma envelope_fields:
  assumes "length magic = 4"
  shows "take 4 (build_envelope magic fp h p) = magic" "u32_be (slice 4 8 (build_envelope magic fp h p)) = h"
    "slice 8 40 (build_envelope magic fp h p) = name_field fp" "drop 40 (build_envelope magic fp h p) = p"
    "length (build_envelope magic fp h p) = 40 + length p"
  using assms by (simp_all add: build_envelope_def slice_def)

lemma magic_lengths [simp]: "length RELAY_MAGIC = 4" "length BLIND_MAGIC = 4"
  by (simp_all add: RELAY_MAGIC_def BLIND_MAGIC_def)

lemma parse_built:
  assumes "hop_name fp" and "4 \<le> length p"
  shows "parse_relay_header (build_relay_packet fp h p) =
    Some \<lparr>rh_remaining_hops = h, rh_next_hop_fingerprint = fp, rh_inner_payload = p\<rparr>"
  using assms by (simp add: parse_relay_header_def build_relay_packet_def envelope_fields name_field_read lossy_id hop_name_def)

section \<open>An onion follows its route\<close>

text \<open>The hops a packet is sent to by daemons that hold the sessions, and what the last of them receives.\<close>

fun travel :: "nat \<Rightarrow> bytes \<Rightarrow> bytes list \<times> bytes" where
  "travel 0 data = ([], data)"
| "travel (Suc n) data =
     (case parse_relay_header data of
        None \<Rightarrow> ([], data)
      | Some relay \<Rightarrow>
          if rh_remaining_hops relay = 0 then ([], data)
          else (case travel n (relay_rewrap relay) of (hops, final) \<Rightarrow> (rh_next_hop_fingerprint relay # hops, final)))"

lemma length_onion_layers: "length (onion_layers hops p) = 40 * length hops + length p"
  by (induction hops) (simp_all add: build_relay_packet_def envelope_fields)

lemma travel_layers:
  assumes "hops \<noteq> []" and "\<forall>h \<in> set hops. hop_name h" and "4 \<le> length p" and "length hops \<le> n" and "length hops < 2 ^ 32"
  shows "travel n (onion_layers hops p) = (hops, build_relay_packet (last hops) 0 p)"
  using assms
proof (induction hops arbitrary: n)
  case (Cons h hops)
  obtain m where n: "n = Suc m" using Cons.prems(4) by (cases n) auto
  let ?h = "\<lparr>rh_remaining_hops = of_nat (length (h # hops)), rh_next_hop_fingerprint = h, rh_inner_payload = onion_layers hops p\<rparr>"
  have parse: "parse_relay_header (onion_layers (h # hops) p) = Some ?h"
    using Cons.prems parse_built [of h "onion_layers hops p"] by (simp add: length_onion_layers)
  have nz: "unat (of_nat (length (h # hops)) :: u32) = length (h # hops)" using Cons.prems(5) by (simp only: unat_of_nat) simp
  then have hops: "(of_nat (length (h # hops)) :: u32) \<noteq> 0" by (metis length_0_conv list.distinct(1) unat_0)
  show ?case
  proof (cases "hops = []")
    case True
    have "parse_relay_header (build_relay_packet h 0 p) = Some \<lparr>rh_remaining_hops = 0, rh_next_hop_fingerprint = h, rh_inner_payload = p\<rparr>"
      using Cons.prems by (simp add: parse_built)
    then have "travel m (build_relay_packet h 0 p) = ([], build_relay_packet h 0 p)" by (cases m) simp_all
    then show ?thesis using parse True hops by (simp add: n relay_rewrap_def)
  next
    case False
    then obtain g gs where g: "hops = g # gs" by (cases hops) auto
    have "parse_relay_header (onion_layers hops p) \<noteq> None"
      using Cons.prems parse_built [of g "onion_layers gs p"] by (simp add: g length_onion_layers)
    moreover have "1 < (of_nat (length (h # hops)) :: u32)" using nz False by (simp add: word_less_nat_alt g)
    ultimately have "relay_rewrap ?h = onion_layers hops p" by (auto simp: relay_rewrap_def)
    then show ?thesis using Cons.IH [OF False, of m] Cons.prems parse hops False by (simp add: n)
  qed
qed simp

text \<open>
  An onion follows its route: for a route of two to six distinct hops with well-formed names and a
  payload of at least four bytes, the onion is built, and daemons that each read the outer layer and
  send on what the relay branch sends on hand it to every hop of the route in order and to nobody
  else; the last one receives the payload in the zero-hop form.
\<close>

theorem onion_follows_its_route:
  assumes "2 \<le> length route" and "length route \<le> MAX_HOPS + 1" and "distinct route" and "\<forall>h \<in> set route. hop_name h" and "4 \<le> length p"
  shows "\<exists>onion. build_onion_route route p = Some onion \<and> travel (length route) onion = (tl route, build_relay_packet (last route) 0 p) \<and>
    length onion = 40 * (length route - 1) + length p"
proof -
  obtain g rest where r: "route = g # rest" "rest \<noteq> []" using assms(1) by (cases route; cases "tl route") auto
  have "travel (length route) (onion_layers rest p) = (rest, build_relay_packet (last rest) 0 p)"
    by (rule travel_layers) (use assms r in \<open>auto simp: MAX_HOPS_def\<close>)
  moreover have "[] \<notin> set route" using assms(4) by (auto simp: hop_name_def)
  ultimately show ?thesis using assms r by (simp add: build_onion_route_def length_onion_layers)
qed

lemma onion_follows_its_route_witness:
  "\<exists>onion. build_onion_route [ascii ''ann'', ascii ''bob'', ascii ''eve''] [1, 2, 3, 4] = Some onion \<and>
    travel 3 onion = ([ascii ''bob'', ascii ''eve''], build_relay_packet (ascii ''eve'') 0 [1, 2, 3, 4]) \<and> length onion = 84"
proof -
  have "hop_name (ascii s)" if "s \<in> {''ann'', ''bob'', ''eve''}" for s
    using that by (auto simp: hop_name_def ascii_def intro!: ascii_valid)
  moreover have "distinct [ascii ''ann'', ascii ''bob'', ascii ''eve'']" by (simp add: ascii_def)
  ultimately show ?thesis
    using onion_follows_its_route [of "[ascii ''ann'', ascii ''bob'', ascii ''eve'']" "[1, 2, 3, 4]"]
    by (simp add: MAX_HOPS_def numeral_eq_Suc)
qed

section \<open>The shard onion opens hop by hop\<close>

lemma length_hop_layer [simp]: "chacha_law C \<Longrightarrow> length (hop_layer C k n hop inner) = length inner + 48"
  by (simp add: hop_layer_def chacha_lawD)

lemma length_exit_layer [simp]: "chacha_law C \<Longrightarrow> length (exit_layer C k i d) = length d + 18"
  by (simp add: exit_layer_def chacha_lawD)

lemma peel_layer:
  assumes "chacha_law C" and "hop_name hop"
    and "chacha_decrypt C key (replicate 12 0x11) [] body = Some (name_field hop @ inner) \<or>
      chacha_decrypt C key (replicate 12 0x11) [] body = None \<and>
      chacha_decrypt C key (replicate 12 0x22) [] body = Some (name_field hop @ inner)"
    and "if length frame = SPHINX_SHARD_LEN
         then unat (u16_be (slice 0 2 frame)) = length body \<and> length body \<le> 574 \<and> slice 2 (2 + length body) frame = body
         else frame = body"
  shows "peel_hop C key frame = Some \<lparr>ps_next_hop = hop, ps_inner_payload = inner\<rparr>"
  using assms by (auto simp: peel_hop_def Let_def SPHINX_SHARD_LEN_def SPHINX_MAX_HOP_NAME_def name_field_read
      hop_name_def [of hop] from_utf8_def split: if_splits)

lemma exit_layer_opens:
  assumes "chacha_law C"
  shows "exit_open C k (exit_layer C k i d) = Some (i, take (length d mod 256) d)"
proof -
  have "unat (of_nat (length d) :: u8) = length d mod 256" by (simp add: unat_of_nat)
  then show ?thesis
    using mod_less_eq_dividend [of "length d" 256] assms
    by (simp add: exit_open_def exit_layer_def chacha_lawD slice_def)
qed

text \<open>
  A shard onion for a guard, a middle and an exit fills its frame of 576 bytes for every shard of
  at most 460 bytes, and opens hop by hop: the guard's key reveals the middle hop's name and its
  layer, the middle's key the exit's name and its layer, and the exit's key the shard index and the
  shard. The shard comes back whole below 256 bytes; its length travels in one byte, so a longer one
  is cut to its length modulo 256. The middle's key must not open its own layer under the guard's
  nonce, which is tried first.
\<close>

theorem shard_onion_opens_hop_by_hop:
  assumes law: "chacha_law C" and names: "hop_name middle_hop" "hop_name exit_hop"
    and len: "length shard \<le> 460" and filler: "576 \<le> length filler"
    and fails: "chacha_decrypt C middle_key (replicate 12 0x11) []
      (hop_layer C middle_key 0x22 exit_hop (exit_layer C exit_key i shard)) = None"
  shows "\<exists>frame for_middle for_exit.
    sphinx_build C filler guard_key middle_hop middle_key exit_hop exit_key i shard = Ok frame \<and>
    length frame = SPHINX_SHARD_LEN \<and>
    peel_hop C guard_key frame = Some \<lparr>ps_next_hop = middle_hop, ps_inner_payload = for_middle\<rparr> \<and>
    peel_hop C middle_key for_middle = Some \<lparr>ps_next_hop = exit_hop, ps_inner_payload = for_exit\<rparr> \<and>
    exit_open C exit_key for_exit = Some (i, take (length shard mod 256) shard)"
proof -
  define ex where "ex = exit_layer C exit_key i shard"
  define mid where "mid = hop_layer C middle_key 0x22 exit_hop ex"
  define gd where "gd = hop_layer C guard_key 0x11 middle_hop mid"
  define frame where "frame = be_u16 (of_nat (length gd)) @ gd @ take (SPHINX_SHARD_LEN - 2 - length gd) filler"
  have l: "length mid = length shard + 66" "length gd = length shard + 114"
    using law by (simp_all add: ex_def mid_def gd_def)
  have u: "unat (of_nat (length gd) :: u16) = length gd" using len l by (simp only: unat_of_nat) simp
  have built: "sphinx_build C filler guard_key middle_hop middle_key exit_hop exit_key i shard = Ok frame"
    using len by (simp add: sphinx_build_def Let_def SPHINX_SHARD_LEN_def l frame_def
        ex_def [symmetric] mid_def [symmetric] gd_def [symmetric])
  have size: "length frame = SPHINX_SHARD_LEN" using len filler by (simp add: frame_def l SPHINX_SHARD_LEN_def)
  have gd574: "length gd \<le> 574" using len l by simp
  have body: "u16_be (slice 0 2 frame) = of_nat (length gd)" "slice 2 (2 + length gd) frame = gd"
    by (simp_all add: frame_def slice_def)
  have "chacha_decrypt C guard_key (replicate 12 0x11) [] gd = Some (name_field middle_hop @ mid)"
    using law by (simp add: gd_def hop_layer_def chacha_lawD)
  then have "peel_hop C guard_key frame = Some \<lparr>ps_next_hop = middle_hop, ps_inner_payload = mid\<rparr>"
    using u gd574 by (intro peel_layer [OF law names(1), of _ gd]) (simp_all only: size body if_True simp_thms)
  moreover have "peel_hop C middle_key mid = Some \<lparr>ps_next_hop = exit_hop, ps_inner_payload = ex\<rparr>"
    by (rule peel_layer [OF law names(2), of _ mid])
      (use len law fails in \<open>simp_all add: SPHINX_SHARD_LEN_def l ex_def [symmetric] mid_def [symmetric],
        simp_all add: mid_def hop_layer_def chacha_lawD\<close>)
  ultimately show ?thesis using built size exit_layer_opens [OF law] ex_def by blast
qed

lemma shard_onion_opens_hop_by_hop_witness:
  "\<exists>frame for_middle for_exit.
    sphinx_build demo_crates (zeros 576) (1 # zeros 31) (ascii ''mid'') (2 # zeros 31) (ascii ''out'') (3 # zeros 31) 1 [7, 8, 9] = Ok frame \<and>
    length frame = SPHINX_SHARD_LEN \<and>
    peel_hop demo_crates (1 # zeros 31) frame = Some \<lparr>ps_next_hop = ascii ''mid'', ps_inner_payload = for_middle\<rparr> \<and>
    peel_hop demo_crates (2 # zeros 31) for_middle = Some \<lparr>ps_next_hop = ascii ''out'', ps_inner_payload = for_exit\<rparr> \<and>
    exit_open demo_crates (3 # zeros 31) for_exit = Some (1, [7, 8, 9])"
proof -
  have "hop_name (ascii ''mid'')" "hop_name (ascii ''out'')"
    by (auto simp: hop_name_def ascii_def intro!: ascii_valid)
  moreover have "chacha_decrypt demo_crates k (replicate 12 0x11) [] (hop_layer demo_crates k 0x22 hop inner) = None"
    if "k = 2 # zeros 31" for k hop inner
  proof -
    have "sum_bytes (k @ replicate 12 0x22) \<noteq> sum_bytes (k @ replicate 12 0x11)" unfolding that by code_simp
    then show ?thesis by (simp add: demo_crates_def hop_layer_def demo_decrypt_def demo_encrypt_def)
  qed
  ultimately show ?thesis
    using shard_onion_opens_hop_by_hop [of demo_crates "ascii ''mid''" "ascii ''out''" "[7, 8, 9]" "zeros 576" "2 # zeros 31" "3 # zeros 31" 1 "1 # zeros 31"]
    by (simp add: demo_laws)
qed

section \<open>The blind relay over a run\<close>

text \<open>
  What happens to a relay: a peer's session is established or lost, or a frame arrives at a clock
  reading from a peer. The log has, for every frame sent on, the history, the sender, the frame, and
  the address and bytes sent. \<open>admitted\<close> reads off a history who has a session, and where.
\<close>

datatype derp_event = Admit bytes sock_addr | Revoke bytes | Blinded u64 bytes bytes

fun admitted :: "derp_event list \<Rightarrow> bytes \<rightharpoonup> sock_addr" where
  "admitted [] = Map.empty"
| "admitted (Admit fp a # past) = (admitted past)(fp \<mapsto> a)"
| "admitted (Revoke fp # past) = (admitted past)(fp := None)"
| "admitted (Blinded t fp b # past) = admitted past"

fun derp_step :: "derp_relay \<Rightarrow> derp_event \<Rightarrow> derp_relay \<times> forwarded option" where
  "derp_step r (Admit fp a) = (authorize r fp a, None)"
| "derp_step r (Revoke fp) = (deauthorize r fp, None)"
| "derp_step r (Blinded now fp b) = (case derp_forward r now fp b of (r', f) \<Rightarrow> (r', Some f))"

fun derp_log :: "derp_relay \<Rightarrow> derp_event list \<Rightarrow> derp_event list \<Rightarrow> (derp_event list \<times> bytes \<times> bytes \<times> sock_addr \<times> bytes) list" where
  "derp_log r past [] = []"
| "derp_log r past (e # evs) =
     (case derp_step r e of
        (r', out) \<Rightarrow>
          (case (e, out) of
             (Blinded now fp b, Some (Deliver dest opaque)) \<Rightarrow> [(past, fp, b, dest, opaque)]
           | _ \<Rightarrow> []) @ derp_log r' (e # past) evs)"

text \<open>Clock readings up to T, and frames whose length is a \<open>usize\<close>.\<close>

fun event_within :: "nat \<Rightarrow> derp_event \<Rightarrow> bool" where
  "event_within T (Blinded now fp b) \<longleftrightarrow> unat now \<le> T \<and> length b < 2 ^ 64"
| "event_within T _ \<longleftrightarrow> True"

definition passed :: "derp_event list \<Rightarrow> bytes \<Rightarrow> bytes \<Rightarrow> sock_addr \<Rightarrow> bytes \<Rightarrow> bool" where
  "passed past fp b dest opaque \<longleftrightarrow>
     (\<exists>frame. parse_blind_frame b = Some frame \<and> bf_opaque frame = opaque \<and> admitted past fp \<noteq> None \<and>
        bf_target_fingerprint frame \<noteq> fp \<and> admitted past (bf_target_fingerprint frame) = Some dest)"

lemma derp_forward_authorized: "dp_authorized (fst (derp_forward r now fp b)) = dp_authorized r"
  by (auto simp: derp_forward_def derp_drop_def split: option.split prod.split bool.split)

lemma derp_step_authorized:
  "dp_authorized r = admitted past \<Longrightarrow> dp_authorized (fst (derp_step r e)) = admitted (e # past)"
  by (cases e) (simp_all add: authorize_def deauthorize_def case_prod_beta derp_forward_authorized)

lemma derp_forward_deliver:
  assumes "derp_forward r now fp b = (r', Deliver dest opaque)"
  obtains frame where "parse_blind_frame b = Some frame" "bf_opaque frame = opaque" "dp_authorized r fp \<noteq> None"
    "bf_target_fingerprint frame \<noteq> fp" "dp_authorized r (bf_target_fingerprint frame) = Some dest"
    "try_consume_transit (dp_flow r) now (of_nat (length b)) = (dp_flow r', True)"
  using assms by (auto simp: derp_forward_def derp_drop_def split: option.splits prod.splits bool.splits if_splits)

lemma passed_log:
  assumes "dp_authorized r = admitted past" and "(p, fp, b, dest, opaque) \<in> set (derp_log r past evs)"
  shows "passed p fp b dest opaque"
  using assms
proof (induction evs arbitrary: r past)
  case (Cons e evs)
  obtain r' out where s: "derp_step r e = (r', out)" by force
  have a: "dp_authorized r' = admitted (e # past)" using derp_step_authorized [OF Cons.prems(1), of e] s by simp
  show ?case
  proof (cases "(p, fp, b, dest, opaque) \<in> set (derp_log r' (e # past) evs)")
    case True
    then show ?thesis by (rule Cons.IH [OF a])
  next
    case False
    then obtain now where e: "e = Blinded now fp b" "p = past" "derp_forward r now fp b = (r', Deliver dest opaque)"
      using Cons.prems(2) s by (auto split: derp_event.splits option.splits forwarded.splits prod.splits)
    show ?thesis using Cons.prems(1) e(2) by (auto simp: passed_def intro: derp_forward_deliver [OF e(3)])
  qed
qed simp

definition logged_bytes :: "(derp_event list \<times> bytes \<times> bytes \<times> sock_addr \<times> bytes) list \<Rightarrow> nat" where
  "logged_bytes log = sum_list (map (\<lambda>x. length (fst (snd (snd x)))) log)"

lemma logged_bytes_append [simp]: "logged_bytes (a @ b) = logged_bytes a + logged_bytes b"
  by (simp add: logged_bytes_def)

lemma derp_step_flow:
  assumes "event_within T e" and "derp_step r e = (r', out)"
  shows "logged_bytes (case (e, out) of (Blinded now fp b, Some (Deliver dest opaque)) \<Rightarrow> [(past, fp, b, dest, opaque)] | _ \<Rightarrow> []) +
    tokens_until T (dp_flow r') \<le> tokens_until T (dp_flow r)"
proof (cases e)
  case (Blinded now fp b)
  then have f: "derp_forward r now fp b = (r', the out)" and now: "unat now \<le> T" "unat (of_nat (length b) :: u64) = length b"
    using assms by (auto simp: unat_of_nat split: prod.splits)
  obtain g ok where c: "try_consume_transit (dp_flow r) now (of_nat (length b)) = (g, ok)" by force
  show ?thesis
    using f consume_bound [OF now(1) c] now(2) assms(2) Blinded c
    by (auto simp: logged_bytes_def derp_forward_def derp_drop_def split: option.splits prod.splits if_splits bool.splits)
qed (use assms in \<open>auto simp: logged_bytes_def authorize_def deauthorize_def\<close>)

lemma derp_log_flow:
  "(\<forall>e \<in> set evs. event_within T e) \<Longrightarrow>
   logged_bytes (derp_log r past evs) \<le> tokens_until T (dp_flow r)"
proof (induction evs arbitrary: r past)
  case (Cons e evs)
  obtain r' out where s: "derp_step r e = (r', out)" by force
  show ?case using derp_step_flow [of T e r r' out past] Cons.IH [of r' "e # past"] Cons.prems s by simp
qed (simp add: logged_bytes_def)


lemma parse_wrapped:
  "hop_name fp \<Longrightarrow> parse_blind_frame (wrap_blind_frame fp p) = Some \<lparr>bf_target_fingerprint = fp, bf_opaque = p\<rparr>"
  by (simp add: parse_blind_frame_def wrap_blind_frame_def envelope_fields name_field_read from_utf8_def hop_name_def [of fp]
      RELAY_ENVELOPE_MIN_def)

text \<open>Two peers with sessions: a wrapped frame that the shaper's tokens cover reaches the other one.\<close>

lemma wrapped_frame_is_delivered:
  assumes "dp_authorized r fp \<noteq> None" and "dp_authorized r target = Some dest" and "target \<noteq> fp" and "hop_name target"
    and "snd (try_consume_transit (dp_flow r) now (of_nat (length (wrap_blind_frame target p))))"
  shows "snd (derp_forward r now fp (wrap_blind_frame target p)) = Deliver dest p"
  using assms by (auto simp: derp_forward_def parse_wrapped split: prod.split bool.split)


section \<open>Strings off the wire\<close>

lemma length_lossy: "length (from_utf8_lossy bs) \<le> 3 * length bs"
proof (induction bs rule: from_utf8_lossy.induct)
  case (2 a r)
  obtain n ok where h: "utf8_head a r = (n, ok)" by fastforce
  then have "length (from_utf8_lossy (drop (n - 1) r)) \<le> 3 * (length r - (n - 1))" using 2 by simp
  then show ?case using h utf8_head_size [OF h] by (auto simp: from_utf8_lossy.simps(2) REPLACEMENT_def)
qed simp

lemma peel_hop_name:
  assumes "peel_hop C key data = Some p"
  obtains pt where "ps_next_hop p = until_nul (take SPHINX_MAX_HOP_NAME pt)" "utf8_valid (ps_next_hop p)"
proof -
  have "\<exists>pt. from_utf8 (until_nul (take SPHINX_MAX_HOP_NAME pt)) = Some (ps_next_hop p)"
    using assms unfolding peel_hop_def Let_def by (auto simp del: from_utf8_Some split: if_split_asm option.split_asm)
  then show thesis using that by auto
qed

lemma until_nul_le: "length (until_nul bs) \<le> length bs"
  by (simp add: until_nul_def length_takeWhile_le)


section \<open>The final hop\<close>

text \<open>
  A relayed payload at its destination is opened under the session's master key, and the counter
  before it is neither authenticated nor remembered: whatever opens once opens again, under the same
  session and with the same plaintext, for every counter an intermediate hop writes in front of it.
\<close>

theorem relayed_payload_opens_again:
  assumes "length c = 8" and "length c' = 8"
    and "relay_final_hop C order nd \<lparr>rh_remaining_hops = 0, rh_next_hop_fingerprint = fp, rh_inner_payload = c @ rest\<rparr> = Some (n, s, plain)"
  shows "relay_final_hop C order nd \<lparr>rh_remaining_hops = 0, rh_next_hop_fingerprint = fp', rh_inner_payload = c' @ rest\<rparr> =
    Some (u64_be c', s, plain)"
proof -
  have s: "slice 0 8 (x @ rest) = x" "slice 8 20 (x @ rest) = take 12 rest" "drop 20 (x @ rest) = drop 12 rest"
    "length (x @ rest) < 20 + 16 \<longleftrightarrow> length rest < 28" if "length x = 8" for x
    by (simp_all add: that slice_def)
  show ?thesis using assms(3) unfolding relay_final_hop_def Let_def relay_header.simps s [OF assms(1)] s [OF assms(2)]
    by (auto split: if_split_asm)
qed

end
