(* ===== verification/Vouchers.thy ===== *)
theory Vouchers
  imports Utf8 Identity "HOL-Library.Multiset"
begin

text \<open>
  Capabilities and quotas of the relays, src/src/ghost/net/relay.rs: exit capabilities with their
  binary form, proofs of transit, forwarding vouchers, blind capability tokens with the relay table
  they open channels in, the anonymous vouchers with their ledger, the exit policy, the diversity
  constraint of a shard flight, the mixing batch and the Tor dispatcher. Clock readings are
  arguments; so is the permutation a shuffle draws.
\<close>

section \<open>Exit capabilities\<close>

record exit_capability =
  ec_issuer_pk :: bytes
  ec_subject :: bytes
  ec_scope :: bytes
  ec_expires_at :: u64
  ec_signature :: bytes

definition EXIT_MAGIC :: bytes where "EXIT_MAGIC = ascii ''EXITAUTH''"
definition EXIT_VERSION :: u8 where "EXIT_VERSION = 1"
definition MAX_SUBJECT :: nat where "MAX_SUBJECT = 64"
definition MAX_SCOPE :: nat where "MAX_SCOPE = 192"

definition exit_signing_bytes :: "bytes \<Rightarrow> bytes \<Rightarrow> u64 \<Rightarrow> bytes option" where
  "exit_signing_bytes subject scope expires_at =
     (if subject = [] \<or> length subject > MAX_SUBJECT \<or> scope = [] \<or> length scope > MAX_SCOPE then None
      else Some (ascii ''GGN_EXITAUTH_V1'' @ be_u64 expires_at @ [of_nat (length subject)] @ subject @
             be_u16 (of_nat (length scope)) @ scope))"

definition exit_issue :: "crates \<Rightarrow> ghost_identity \<Rightarrow> bytes \<Rightarrow> bytes \<Rightarrow> u64 \<Rightarrow> exit_capability option" where
  "exit_issue C issuer subject scope expires_at =
     (case exit_signing_bytes subject scope expires_at of
        None \<Rightarrow> None
      | Some signing \<Rightarrow>
          Some \<lparr>ec_issuer_pk = public_key_bytes C issuer, ec_subject = subject, ec_scope = scope,
                ec_expires_at = expires_at, ec_signature = identity_sign C issuer signing\<rparr>)"

definition exit_verify :: "crates \<Rightarrow> exit_capability \<Rightarrow> u64 \<Rightarrow> bytes \<Rightarrow> bytes \<Rightarrow> bool" where
  "exit_verify C c now expected_subject required_scope =
     (if now > ec_expires_at c \<or> ec_subject c \<noteq> expected_subject \<or> ec_scope c \<noteq> required_scope then False
      else case exit_signing_bytes (ec_subject c) (ec_scope c) (ec_expires_at c) of
        None \<Rightarrow> False
      | Some signing \<Rightarrow> verify_peer_signature C (ec_issuer_pk c) signing (ec_signature c))"

definition exit_encode :: "exit_capability \<Rightarrow> bytes option" where
  "exit_encode c =
     (let out = EXIT_MAGIC @ [EXIT_VERSION] @ be_u64 (ec_expires_at c) @ [of_nat (length (ec_subject c))] @ ec_subject c @
                be_u16 (of_nat (length (ec_scope c))) @ ec_scope c @ ec_issuer_pk c @ ec_signature c
      in if length (ec_subject c) \<le> MAX_SUBJECT \<and> length (ec_scope c) \<le> MAX_SCOPE then Some out else None)"

definition exit_decode :: "bytes \<Rightarrow> exit_capability option" where
  "exit_decode raw =
     (if length raw < 8 + 1 + 8 + 1 + 2 + 32 + 64 \<or> take 8 raw \<noteq> EXIT_MAGIC \<or> raw ! 8 \<noteq> EXIT_VERSION then None
      else
        (let expires_at = u64_be (slice 9 17 raw);
             subject_len = unat (raw ! 17);
             at = 18
         in if subject_len = 0 \<or> subject_len > MAX_SUBJECT \<or> at + subject_len > length raw then None
            else case from_utf8 (slice at (at + subject_len) raw) of
              None \<Rightarrow> None
            | Some subject \<Rightarrow>
                (let at = at + subject_len
                 in case get_range raw at (at + 2) of
                      None \<Rightarrow> None
                    | Some l \<Rightarrow>
                        (let scope_len = unat (u16_be l); at = at + 2
                         in if scope_len = 0 \<or> scope_len > MAX_SCOPE \<or> at + scope_len > length raw then None
                            else case from_utf8 (slice at (at + scope_len) raw) of
                              None \<Rightarrow> None
                            | Some scope \<Rightarrow>
                                (let at = at + scope_len
                                 in case get_range raw at (at + 32) of
                                      None \<Rightarrow> None
                                    | Some issuer_pk \<Rightarrow>
                                        (let at = at + 32
                                         in case get_range raw at (at + 64) of
                                              None \<Rightarrow> None
                                            | Some signature \<Rightarrow>
                                                if at + 64 \<noteq> length raw then None
                                                else Some \<lparr>ec_issuer_pk = issuer_pk, ec_subject = subject, ec_scope = scope,
                                                           ec_expires_at = expires_at, ec_signature = signature\<rparr>))))))"

section \<open>Proofs of transit and forwarding vouchers\<close>

record proof_of_transit =
  pt_relay_pk :: bytes
  pt_payload_hash :: bytes
  pt_next_hop :: bytes
  pt_timestamp :: u64
  pt_signature :: bytes

definition transit_signing_bytes :: "bytes \<Rightarrow> bytes \<Rightarrow> u64 \<Rightarrow> bytes" where
  "transit_signing_bytes payload_hash next_hop timestamp =
     ascii ''GGN_TRANSIT_PROOF_V1'' @ payload_hash @ be_u64 timestamp @ next_hop"

definition transit_mint :: "crates \<Rightarrow> u64 \<Rightarrow> ghost_identity \<Rightarrow> bytes \<Rightarrow> bytes \<Rightarrow> proof_of_transit" where
  "transit_mint C now relay payload next_hop =
     (let payload_hash = sha256 C payload
      in \<lparr>pt_relay_pk = public_key_bytes C relay, pt_payload_hash = payload_hash, pt_next_hop = next_hop, pt_timestamp = now,
          pt_signature = identity_sign C relay (transit_signing_bytes payload_hash next_hop now)\<rparr>)"

definition transit_verify :: "crates \<Rightarrow> u64 \<Rightarrow> proof_of_transit \<Rightarrow> bytes \<Rightarrow> bytes \<Rightarrow> u64 \<Rightarrow> bool" where
  "transit_verify C now p expected_payload expected_next_hop max_age_secs =
     (if pt_payload_hash p \<noteq> sha256 C expected_payload \<or> pt_next_hop p \<noteq> expected_next_hop then False
      else if sat_sub now (pt_timestamp p) > max_age_secs then False
      else verify_peer_signature C (pt_relay_pk p)
             (transit_signing_bytes (pt_payload_hash p) (pt_next_hop p) (pt_timestamp p)) (pt_signature p))"

record forwarding_voucher =
  fv_client_pk :: bytes
  fv_max_bytes :: u64
  fv_expires_at :: u64
  fv_voucher_id :: u64
  fv_signature :: bytes

definition voucher_signing_bytes :: "u64 \<Rightarrow> u64 \<Rightarrow> u64 \<Rightarrow> bytes" where
  "voucher_signing_bytes max_bytes expires_at voucher_id =
     ascii ''GGN_CAP_VOUCHER_V1'' @ be_u64 max_bytes @ be_u64 expires_at @ be_u64 voucher_id"

definition voucher_mint :: "crates \<Rightarrow> ghost_identity \<Rightarrow> u64 \<Rightarrow> u64 \<Rightarrow> u64 \<Rightarrow> forwarding_voucher" where
  "voucher_mint C client max_bytes expires_at voucher_id =
     \<lparr>fv_client_pk = public_key_bytes C client, fv_max_bytes = max_bytes, fv_expires_at = expires_at, fv_voucher_id = voucher_id,
      fv_signature = identity_sign C client (voucher_signing_bytes max_bytes expires_at voucher_id)\<rparr>"

definition voucher_verify :: "crates \<Rightarrow> forwarding_voucher \<Rightarrow> u64 \<Rightarrow> u64 \<Rightarrow> bool" where
  "voucher_verify C v now requested_bytes =
     (if now > fv_expires_at v \<or> requested_bytes > fv_max_bytes v then False
      else verify_peer_signature C (fv_client_pk v)
             (voucher_signing_bytes (fv_max_bytes v) (fv_expires_at v) (fv_voucher_id v)) (fv_signature v))"

section \<open>Blind tokens and the relay table\<close>

record blind_token =
  bt_token_id :: bytes
  bt_max_bytes :: u64
  bt_expires_at :: u64
  bt_auth_tag :: bytes

definition compute_token_id :: "crates \<Rightarrow> bytes \<Rightarrow> bytes \<Rightarrow> bytes" where
  "compute_token_id C seed flow_salt = sha256 C (ascii ''GGN_BLIND_TOKEN_ID_V1'' @ seed @ flow_salt)"

definition compute_auth_tag :: "crates \<Rightarrow> bytes \<Rightarrow> bytes \<Rightarrow> u64 \<Rightarrow> u64 \<Rightarrow> bytes" where
  "compute_auth_tag C auth_key token_id max_bytes expires_at =
     sha256 C (ascii ''GGN_BLIND_CAP_AUTH_V1'' @ auth_key @ token_id @ be_u64 max_bytes @ be_u64 expires_at)"

definition token_mint :: "crates \<Rightarrow> bytes \<Rightarrow> bytes \<Rightarrow> bytes \<Rightarrow> u64 \<Rightarrow> u64 \<Rightarrow> blind_token" where
  "token_mint C auth_key seed flow_salt max_bytes expires_at =
     (let token_id = compute_token_id C seed flow_salt
      in \<lparr>bt_token_id = token_id, bt_max_bytes = max_bytes, bt_expires_at = expires_at,
          bt_auth_tag = compute_auth_tag C auth_key token_id max_bytes expires_at\<rparr>)"

definition token_verify :: "crates \<Rightarrow> blind_token \<Rightarrow> bytes \<Rightarrow> u64 \<Rightarrow> u64 \<Rightarrow> bool" where
  "token_verify C t auth_key now requested_bytes =
     (if now > bt_expires_at t \<or> requested_bytes > bt_max_bytes t then False
      else bt_auth_tag t = compute_auth_tag C auth_key (bt_token_id t) (bt_max_bytes t) (bt_expires_at t))"

record agnostic_channel =
  ac_egress_endpoint :: sock_addr
  ac_max_bytes :: u64
  ac_forwarded_bytes :: u64
  ac_expires_at :: u64

type_synonym relay_table = "bytes \<rightharpoonup> agnostic_channel"

datatype voucher_error = InvalidVoucher | ChannelNotFound | ChannelExpired | VoucherQuotaExceeded

definition register_channel ::
  "crates \<Rightarrow> relay_table \<Rightarrow> blind_token \<Rightarrow> bytes \<Rightarrow> sock_addr \<Rightarrow> u64 \<Rightarrow> relay_table \<times> (unit, voucher_error) rust" where
  "register_channel C tb token auth_key egress_endpoint now =
     (if \<not> token_verify C token auth_key now 0 then (tb, Err InvalidVoucher)
      else (tb(bt_token_id token \<mapsto> \<lparr>ac_egress_endpoint = egress_endpoint, ac_max_bytes = bt_max_bytes token,
                 ac_forwarded_bytes = 0, ac_expires_at = bt_expires_at token\<rparr>), Ok ()))"

definition table_forward :: "relay_table \<Rightarrow> bytes \<Rightarrow> nat \<Rightarrow> u64 \<Rightarrow> relay_table \<times> (sock_addr, voucher_error) rust" where
  "table_forward tb token_id packet_len now =
     (case tb token_id of
        None \<Rightarrow> (tb, Err ChannelNotFound)
      | Some chan \<Rightarrow>
          if now > ac_expires_at chan then (tb, Err ChannelExpired)
          else
            (let next_total = sat_add (ac_forwarded_bytes chan) (of_nat packet_len)
             in if next_total > ac_max_bytes chan then (tb, Err VoucherQuotaExceeded)
                else (tb(token_id \<mapsto> chan\<lparr>ac_forwarded_bytes := next_total\<rparr>), Ok (ac_egress_endpoint chan))))"

section \<open>Anonymous vouchers\<close>

record anonymous_voucher =
  av_group_id :: bytes
  av_voucher_id :: u64
  av_max_bytes :: u64
  av_expires_at :: u64
  av_group_commitment :: bytes

definition group_commitment :: "crates \<Rightarrow> bytes \<Rightarrow> bytes \<Rightarrow> u64 \<Rightarrow> u64 \<Rightarrow> u64 \<Rightarrow> bytes" where
  "group_commitment C group_id secret voucher_id max_bytes expires_at =
     sha256 C (ascii ''GGN_ANONYMOUS_THRESHOLD_VOUCHER_V1'' @ group_id @ secret @ be_u64 voucher_id @ be_u64 max_bytes @
       be_u64 expires_at)"

definition anonymous_mint :: "crates \<Rightarrow> bytes \<Rightarrow> bytes \<Rightarrow> u64 \<Rightarrow> u64 \<Rightarrow> u64 \<Rightarrow> anonymous_voucher" where
  "anonymous_mint C group_id secret voucher_id max_bytes expires_at =
     \<lparr>av_group_id = group_id, av_voucher_id = voucher_id, av_max_bytes = max_bytes, av_expires_at = expires_at,
      av_group_commitment = group_commitment C group_id secret voucher_id max_bytes expires_at\<rparr>"

definition anonymous_verify :: "crates \<Rightarrow> anonymous_voucher \<Rightarrow> bytes \<Rightarrow> u64 \<Rightarrow> bool" where
  "anonymous_verify C v secret current_time =
     (if current_time > av_expires_at v then False
      else group_commitment C (av_group_id v) secret (av_voucher_id v) (av_max_bytes v) (av_expires_at v) = av_group_commitment v)"

text \<open>The table of bytes consumed by voucher number; \<open>or_insert(0)\<close> leaves an entry even when the spend is refused.\<close>

type_synonym capability_ledger = "u64 \<rightharpoonup> u64"

definition try_spend ::
  "crates \<Rightarrow> capability_ledger \<Rightarrow> anonymous_voucher \<Rightarrow> bytes \<Rightarrow> u64 \<Rightarrow> u64 \<Rightarrow> capability_ledger \<times> (u64, voucher_error) rust" where
  "try_spend C lg v secret n now =
     (if \<not> anonymous_verify C v secret now then (lg, Err InvalidVoucher)
      else
        (let consumed = (case lg (av_voucher_id v) of Some x \<Rightarrow> x | None \<Rightarrow> 0);
             lg = lg(av_voucher_id v \<mapsto> consumed);
             new_total = sat_add consumed n
         in if new_total > av_max_bytes v then (lg, Err VoucherQuotaExceeded)
            else (lg(av_voucher_id v \<mapsto> new_total), Ok (av_max_bytes v - new_total))))"

section \<open>Exit policy\<close>

text \<open>
  \<open>str::trim\<close> on UTF-8 bytes: the encodings of the characters with the White_Space property, taken off
  both ends; \<open>to_ascii_lowercase\<close>, \<open>eq_ignore_ascii_case\<close>, \<open>trim_end_matches\<close>, \<open>strip_prefix\<close> and \<open>split\<close>.
\<close>

definition white_space :: "bytes list" where
  "white_space =
     [[9], [10], [11], [12], [13], [32], [0xC2, 0x85], [0xC2, 0xA0], [0xE1, 0x9A, 0x80]] @
     map (\<lambda>b. [0xE2, 0x80, b]) ([0x80, 0x81, 0x82, 0x83, 0x84, 0x85, 0x86, 0x87, 0x88, 0x89, 0x8A] @ [0xA8, 0xA9, 0xAF]) @
     [[0xE2, 0x81, 0x9F], [0xE3, 0x80, 0x80]]"

definition ends_with :: "bytes \<Rightarrow> bytes \<Rightarrow> bool" where
  "ends_with sfx data \<longleftrightarrow> length sfx \<le> length data \<and> drop (length data - length sfx) data = sfx"

text \<open>The length of the white space character at the start, and at the end; 0 without one.\<close>

definition ws_start :: "bytes \<Rightarrow> nat" where
  "ws_start s = (case find (\<lambda>w. starts_with w s) white_space of Some w \<Rightarrow> length w | None \<Rightarrow> 0)"

definition ws_end :: "bytes \<Rightarrow> nat" where
  "ws_end s = (case find (\<lambda>w. ends_with w s) white_space of Some w \<Rightarrow> length w | None \<Rightarrow> 0)"

lemma ws_start_le: "ws_start s \<le> length s"
proof (cases "find (\<lambda>w. starts_with w s) white_space")
  case (Some w)
  then have "take (length w) s = w" by (auto simp: find_Some_iff starts_with_def)
  then have "length w = min (length w) (length s)" by (metis length_take min.commute)
  then show ?thesis using Some by (simp add: ws_start_def)
qed (simp add: ws_start_def)

lemma ws_end_le: "ws_end s \<le> length s"
  by (auto simp: ws_end_def ends_with_def find_Some_iff split: option.split)

function trim_start :: "bytes \<Rightarrow> bytes" where
  "trim_start s = (if ws_start s = 0 then s else trim_start (drop (ws_start s) s))"
  by auto
termination
  by (relation "measure length") (auto, metis diff_less gr_zeroI le_zero_eq ws_start_le)

function trim_end :: "bytes \<Rightarrow> bytes" where
  "trim_end s = (if ws_end s = 0 then s else trim_end (take (length s - ws_end s) s))"
  by auto
termination
  by (relation "measure length") (auto, metis diff_less gr_zeroI le_zero_eq ws_end_le)

declare trim_start.simps [simp del] trim_end.simps [simp del]

definition trim :: "bytes \<Rightarrow> bytes" where "trim s = trim_end (trim_start s)"

definition lower :: "u8 \<Rightarrow> u8" where "lower b = (if 65 \<le> b \<and> b \<le> 90 then b + 32 else b)"

definition to_ascii_lowercase :: "bytes \<Rightarrow> bytes" where "to_ascii_lowercase s = map lower s"

definition eq_ignore_ascii_case :: "bytes \<Rightarrow> bytes \<Rightarrow> bool" where
  "eq_ignore_ascii_case a b \<longleftrightarrow> to_ascii_lowercase a = to_ascii_lowercase b"

definition trim_dots :: "bytes \<Rightarrow> bytes" where "trim_dots s = rev (dropWhile (\<lambda>b. b = 46) (rev s))"

definition strip_prefix :: "bytes \<Rightarrow> bytes \<Rightarrow> bytes option" where
  "strip_prefix p s = (if starts_with p s then Some (drop (length p) s) else None)"

fun split_on :: "u8 \<Rightarrow> bytes \<Rightarrow> bytes list" where
  "split_on c [] = [[]]"
| "split_on c (b # s) =
     (if b = c then [] # split_on c s
      else case split_on c s of p # ps \<Rightarrow> (b # p) # ps | [] \<Rightarrow> [[b]])"

record exit_policy =
  ep_rules :: "bytes list"
  ep_allow_any :: bool

text \<open>\<open>raw\<close> is the environment variable, empty when unset; 44 is the comma.\<close>

definition policy_from_env :: "bytes \<Rightarrow> exit_policy" where
  "policy_from_env raw =
     \<lparr>ep_rules = map to_ascii_lowercase
        (filter (\<lambda>r. r \<noteq> [] \<and> \<not> eq_ignore_ascii_case r (ascii ''any'')) (map trim (split_on 44 raw))),
      ep_allow_any = (trim raw = [] \<or> (\<exists>r \<in> set (split_on 44 raw). eq_ignore_ascii_case (trim r) (ascii ''any'')))\<rparr>"

definition policy_new :: "bytes list \<Rightarrow> exit_policy" where
  "policy_new rules =
     (let rules = filter (\<lambda>r. r \<noteq> []) (map (\<lambda>r. to_ascii_lowercase (trim r)) rules)
      in \<lparr>ep_rules = rules, ep_allow_any = (ascii ''any'' \<in> set rules)\<rparr>)"

definition normal_host :: "bytes \<Rightarrow> bytes" where
  "normal_host host = to_ascii_lowercase (trim_dots (trim host))"

definition policy_allows :: "exit_policy \<Rightarrow> bytes \<Rightarrow> bool" where
  "policy_allows p host =
     (if ep_allow_any p then True
      else
        (let host = normal_host host
         in \<exists>rule \<in> set (ep_rules p).
              (case strip_prefix (ascii ''*.'') rule of
                 Some sfx \<Rightarrow> ends_with (ascii ''.'' @ sfx) host \<and> length host > length sfx + 1
               | None \<Rightarrow> host = rule)))"

section \<open>Diversity, mixing and circuits\<close>

record asn_constraint =
  as_max_shards_per_asn :: nat
  as_assigned_asns :: "(u8 \<times> u32) list"

definition asn_default :: asn_constraint where
  "asn_default = \<lparr>as_max_shards_per_asn = 1, as_assigned_asns = []\<rparr>"

definition asn_new :: "nat \<Rightarrow> asn_constraint" where
  "asn_new max_shards = \<lparr>as_max_shards_per_asn = max max_shards 1, as_assigned_asns = []\<rparr>"

definition is_asn_permitted :: "asn_constraint \<Rightarrow> u8 \<Rightarrow> u32 \<Rightarrow> bool" where
  "is_asn_permitted c shard_index candidate_asn \<longleftrightarrow>
     length (filter (\<lambda>(idx, asn). idx \<noteq> shard_index \<and> asn = candidate_asn) (as_assigned_asns c)) < as_max_shards_per_asn c"

definition assign_shard_asn :: "asn_constraint \<Rightarrow> u8 \<Rightarrow> u32 \<Rightarrow> asn_constraint \<times> bool" where
  "assign_shard_asn c shard_index asn =
     (if is_asn_permitted c shard_index asn
      then (c\<lparr>as_assigned_asns := filter (\<lambda>(idx, _). idx \<noteq> shard_index) (as_assigned_asns c) @ [(shard_index, asn)]\<rparr>, True)
      else (c, False))"

text \<open>The loop of \<open>is_diverse\<close> with the set of numbers seen so far.\<close>

fun diverse_loop :: "nat \<Rightarrow> u32 set \<Rightarrow> (u8 \<times> u32) list \<Rightarrow> bool" where
  "diverse_loop m seen [] = True"
| "diverse_loop m seen ((_, asn) # rest) =
     (if asn \<in> seen \<and> m = 1 then False else diverse_loop m (insert asn seen) rest)"

definition is_diverse :: "asn_constraint \<Rightarrow> bool" where
  "is_diverse c =
     (if length (as_assigned_asns c) < 2 then False else diverse_loop (as_max_shards_per_asn c) {} (as_assigned_asns c))"

record 'a mix_batch =
  mb_items :: "(instant \<times> 'a) list"
  mb_capacity :: nat
  mb_max_delay :: duration

definition mix_new :: "nat \<Rightarrow> duration \<Rightarrow> 'a mix_batch" where
  "mix_new capacity max_delay = \<lparr>mb_items = [], mb_capacity = max capacity 1, mb_max_delay = max_delay\<rparr>"

definition drain_randomized :: "((instant \<times> 'a) list \<Rightarrow> (instant \<times> 'a) list) \<Rightarrow> 'a mix_batch \<Rightarrow> 'a mix_batch \<times> 'a list" where
  "drain_randomized shuffle m = (m\<lparr>mb_items := []\<rparr>, map snd (shuffle (mb_items m)))"

definition mix_push ::
  "((instant \<times> 'a) list \<Rightarrow> (instant \<times> 'a) list) \<Rightarrow> instant \<Rightarrow> 'a mix_batch \<Rightarrow> 'a \<Rightarrow> 'a mix_batch \<times> 'a list option" where
  "mix_push shuffle now m item =
     (let m = m\<lparr>mb_items := mb_items m @ [(now, item)]\<rparr>
      in if length (mb_items m) \<ge> mb_capacity m
         then (case drain_randomized shuffle m of (m, out) \<Rightarrow> (m, Some out)) else (m, None))"

text \<open>\<open>delay_ms\<close> is what \<open>mix_batch_delay_ms()\<close> returns.\<close>

definition flush_due :: "nat \<Rightarrow> instant \<Rightarrow> 'a mix_batch \<Rightarrow> bool" where
  "flush_due delay_ms now m =
     (let deadline = (if mb_max_delay m = 0 then 0 else millis delay_ms)
      in case mb_items m of [] \<Rightarrow> False | (created, _) # _ \<Rightarrow> now - created \<ge> deadline)"

record tor_dispatcher =
  td_circuit_endpoints :: "sock_addr list"

definition local_port :: "u16 \<Rightarrow> sock_addr" where "local_port p = \<lparr>sa_ip = V4 127 0 0 1, sa_port = p\<rparr>"

definition tor_default :: tor_dispatcher where
  "tor_default = \<lparr>td_circuit_endpoints = [local_port 9050, local_port 9052, local_port 9054]\<rparr>"

definition tor_new :: "sock_addr list \<Rightarrow> tor_dispatcher" where
  "tor_new endpoints = \<lparr>td_circuit_endpoints = endpoints\<rparr>"

definition circuit_for_shard :: "tor_dispatcher \<Rightarrow> u8 \<Rightarrow> sock_addr" where
  "circuit_for_shard d shard_index = td_circuit_endpoints d ! (unat shard_index mod 3)"

definition build_socks5_auth_request :: bytes where "build_socks5_auth_request = [5, 1, 0]"

definition encapsulate_shard_udp :: "bytes \<Rightarrow> sock_addr \<Rightarrow> bytes" where
  "encapsulate_shard_udp shard_data target_addr =
     [0, 0, 0] @
     (case sa_ip target_addr of
        V4 a b c d \<Rightarrow> [1, a, b, c, d] @ be_u16 (sa_port target_addr)
      | V6 octets \<Rightarrow> [4] @ octets @ be_u16 (sa_port target_addr)) @
     shard_data"

definition decapsulate_shard_udp :: "bytes \<Rightarrow> bytes option" where
  "decapsulate_shard_udp encapsulated =
     (if length encapsulated < 10 then None
      else
        (let atyp = encapsulated ! 3
         in if atyp = 1 then Some (drop 10 encapsulated)
            else if atyp = 4 then (if length encapsulated < 22 then None else Some (drop 22 encapsulated))
            else None))"

section \<open>Exit capabilities on the wire\<close>

definition exit_cap_ok :: "exit_capability \<Rightarrow> bool" where
  "exit_cap_ok c \<longleftrightarrow> ec_subject c \<noteq> [] \<and> length (ec_subject c) \<le> MAX_SUBJECT \<and> utf8_valid (ec_subject c) \<and>
     ec_scope c \<noteq> [] \<and> length (ec_scope c) \<le> MAX_SCOPE \<and> utf8_valid (ec_scope c) \<and>
     length (ec_issuer_pk c) = 32 \<and> length (ec_signature c) = 64"

lemma exit_decode_encoded:
  assumes "exit_cap_ok c" and "exit_encode c = Some raw"
  shows "exit_decode raw = Some c"
proof -
  let ?s = "ec_subject c" and ?p = "ec_scope c"
  have ls: "length ?s \<le> 64" and lp: "length ?p \<le> 192"
    using assms(1) by (auto simp: exit_cap_ok_def MAX_SUBJECT_def MAX_SCOPE_def)
  have u: "unat (of_nat (length ?s) :: u8) = length ?s" "unat (of_nat (length ?p) :: u16) = length ?p"
    using ls lp by (simp_all add: unat_of_nat)
  have raw: "raw = EXIT_MAGIC @ [EXIT_VERSION] @ be_u64 (ec_expires_at c) @ [of_nat (length ?s)] @ ?s @
      be_u16 (of_nat (length ?p)) @ ?p @ ec_issuer_pk c @ ec_signature c"
    using assms(2) by (auto simp: exit_encode_def Let_def split: if_splits)
  have m: "length EXIT_MAGIC = 8" by (simp add: EXIT_MAGIC_def)
  have pk: "length (ec_issuer_pk c) = 32" "length (ec_signature c) = 64" using assms(1) by (auto simp: exit_cap_ok_def)
  have "raw ! 8 = EXIT_VERSION" "raw ! 17 = of_nat (length ?s)" "take 8 raw = EXIT_MAGIC" "u64_be (slice 9 17 raw) = ec_expires_at c"
    "slice 18 (18 + length ?s) raw = ?s" "length raw = 116 + length ?s + length ?p"
    "u16_be (slice (18 + length ?s) (20 + length ?s) raw) = of_nat (length ?p)"
    "slice (20 + length ?s) (20 + length ?s + length ?p) raw = ?p"
    "slice (20 + length ?s + length ?p) (52 + length ?s + length ?p) raw = ec_issuer_pk c"
    "slice (52 + length ?s + length ?p) (116 + length ?s + length ?p) raw = ec_signature c"
    by (simp_all add: raw m pk nth_append slice_def drop_Cons')
  then show ?thesis
    using assms(1) u by (simp add: exit_decode_def Let_def get_range_def exit_cap_ok_def add.assoc from_utf8_def)
qed

lemma exit_decode_exact:
  assumes "exit_decode raw = Some c"
  shows "exit_cap_ok c \<and> exit_encode c = Some raw"
proof -
  define n where "n = unat (raw ! 17)"
  define m where "m = unat (u16_be (slice (18 + n) (20 + n) raw))"
  have f: "117 - 1 \<le> length raw" "take 8 raw = EXIT_MAGIC" "raw ! 8 = EXIT_VERSION" "0 < n" "n \<le> MAX_SUBJECT"
    "20 + n \<le> length raw" "0 < m" "m \<le> MAX_SCOPE" "length raw = 116 + n + m"
    "utf8_valid (slice 18 (18 + n) raw)" "utf8_valid (slice (20 + n) (20 + n + m) raw)"
    and c: "c = \<lparr>ec_issuer_pk = slice (20 + n + m) (52 + n + m) raw, ec_subject = slice 18 (18 + n) raw,
      ec_scope = slice (20 + n) (20 + n + m) raw, ec_expires_at = u64_be (slice 9 17 raw),
      ec_signature = slice (52 + n + m) (116 + n + m) raw\<rparr>"
    using assms unfolding exit_decode_def Let_def n_def [symmetric] get_range_def
    by (auto simp: m_def add.assoc split: if_split_asm option.split_asm)
  have sl: "slice a b raw @ drop b raw = drop a raw" if "a \<le> b" for a b using that by (rule slices_join)
  have one: "[raw ! i] @ drop (Suc i) raw = drop i raw" if "i < length raw" for i using that by (simp add: Cons_nth_drop_Suc)
  have lens: "length (slice 18 (18 + n) raw) = n" "length (slice (20 + n) (20 + n + m) raw) = m" using f(9) by auto
  then have ne: "slice 18 (18 + n) raw \<noteq> []" "slice (20 + n) (20 + n + m) raw \<noteq> []"
    using f(4,7) by (metis length_greater_0_conv)+
  have be: "be_u64 (u64_be (slice 9 17 raw)) = slice 9 17 raw" "be_u16 (of_nat m) = slice (18 + n) (20 + n) raw"
    "of_nat n = raw ! 17"
    using f(9) by (simp_all add: be_reread m_def n_def)
  have "EXIT_MAGIC @ [EXIT_VERSION] @ slice 9 17 raw @ [raw ! 17] @ slice 18 (18 + n) raw @ slice (18 + n) (20 + n) raw @
      slice (20 + n) (20 + n + m) raw @ slice (20 + n + m) (52 + n + m) raw @ slice (52 + n + m) (116 + n + m) raw = raw"
  proof -
    have "slice (52 + n + m) (116 + n + m) raw = drop (52 + n + m) raw" using f(9) by (simp add: slice_def)
    then show ?thesis
      using f(9) sl [of "20 + n + m" "52 + n + m"] sl [of "20 + n" "20 + n + m"] sl [of "18 + n" "20 + n"] sl [of 18 "18 + n"]
        one [of 17] sl [of 9 17] one [of 8] f(2,3)
      by (simp, metis append_take_drop_id)
  qed
  then show ?thesis using f c lens be ne by (auto simp: exit_encode_def Let_def exit_cap_ok_def)
qed

text \<open>
  The binary form of an exit capability is exact: a buffer decodes to a capability if and only if
  the capability is well formed (subject and scope non-empty UTF-8 within their limits, a 32-byte key
  and a 64-byte signature) and the buffer is its encoding. So decoding inverts encoding, no two
  buffers mean one capability, and nothing malformed is read.
\<close>

theorem exit_capability_codec_exact:
  "exit_decode raw = Some c \<longleftrightarrow> exit_cap_ok c \<and> exit_encode c = Some raw"
  using exit_decode_encoded exit_decode_exact by blast

lemma length_identity_sign: "sig_law C \<Longrightarrow> length (identity_sign C i m) = 64"
  by (simp add: identity_sign_def sig_lawD)

text \<open>An issued capability crosses the wire and is good for its subject and scope until it expires, and for nothing else.\<close>

lemma issued_capability:
  assumes law: "sig_law C" and c: "exit_issue C issuer subject scope e = Some c" and "utf8_valid subject" "utf8_valid scope"
  obtains raw where "exit_encode c = Some raw" "exit_decode raw = Some c"
    "\<And>now s p. exit_verify C c now s p \<longleftrightarrow> now \<le> e \<and> s = subject \<and> p = scope"
proof -
  obtain m where m: "exit_signing_bytes subject scope e = Some m" and
    eq: "c = \<lparr>ec_issuer_pk = public_key_bytes C issuer, ec_subject = subject, ec_scope = scope, ec_expires_at = e,
      ec_signature = identity_sign C issuer m\<rparr>"
    using c by (auto simp: exit_issue_def split: option.splits)
  have ok: "exit_cap_ok c"
    using m assms(3,4) law
    by (auto simp: eq exit_cap_ok_def exit_signing_bytes_def public_key_bytes_def length_identity_sign sig_lawD split: if_splits)
  then obtain raw where raw: "exit_encode c = Some raw" by (auto simp: exit_encode_def exit_cap_ok_def Let_def)
  have "exit_verify C c now s p \<longleftrightarrow> now \<le> e \<and> s = subject \<and> p = scope" for now s p
    using m law by (auto simp: exit_verify_def eq verify_peer_signature_def public_key_bytes_def identity_sign_def sig_lawD not_less)
  with raw exit_decode_encoded [OF ok raw] show thesis by (rule that)
qed

section \<open>Metered capabilities\<close>

text \<open>
  A run of requests against a meter, and the requests it granted. What a meter promises: a granted
  request is booked in full under its key and within its limit, a refused one is not booked, and a
  request touches no other key and no limit. The limit u64::MAX is none, because the sum saturates.
\<close>

fun granted_of :: "('s \<Rightarrow> 'r \<Rightarrow> 's \<times> bool) \<Rightarrow> 's \<Rightarrow> 'r list \<Rightarrow> 'r list" where
  "granted_of spend s [] = []"
| "granted_of spend s (r # rs) =
     (case spend s r of (s', ok) \<Rightarrow> (if ok then [r] else []) @ granted_of spend s' rs)"

locale meter =
  fixes spend :: "'s \<Rightarrow> 'r \<Rightarrow> 's \<times> bool" and used :: "'s \<Rightarrow> 'k \<Rightarrow> nat" and who :: "'r \<Rightarrow> 'k"
    and amount :: "'r \<Rightarrow> nat" and limit :: "'s \<Rightarrow> 'r \<Rightarrow> nat"
  assumes spend_granted: "spend s r = (s', True) \<Longrightarrow> limit s r < 2 ^ 64 - 1 \<Longrightarrow>
      used s' (who r) = used s (who r) + amount r \<and> used s' (who r) \<le> limit s r"
    and spend_refused: "spend s r = (s', False) \<Longrightarrow> used s' k = used s k"
    and spend_other: "spend s r = (s', ok) \<Longrightarrow> k \<noteq> who r \<Longrightarrow> used s' k = used s k"
    and spend_limit: "spend s r = (s', ok) \<Longrightarrow> limit s' r' = limit s r'"
begin

lemma granted_within:
  assumes "\<forall>r \<in> set rs. who r = k \<longrightarrow> limit s r \<le> L" and "L < 2 ^ 64 - 1" and "used s k \<le> L"
  shows "used s k + sum_list (map amount (filter (\<lambda>r. who r = k) (granted_of spend s rs))) \<le> L"
  using assms(1,3)
proof (induction rs arbitrary: s)
  case (Cons r rs)
  obtain s' ok where sp: "spend s r = (s', ok)" by force
  have lim: "\<forall>q \<in> set rs. who q = k \<longrightarrow> limit s' q \<le> L" using Cons.prems(1) spend_limit [OF sp] by simp
  show ?case
  proof (cases "ok \<and> who r = k")
    case True
    then have "used s' k = used s k + amount r" "used s' k \<le> L"
      using spend_granted [of s r s'] sp Cons.prems(1) assms(2) by auto
    then show ?thesis using Cons.IH [OF lim] True sp by simp
  next
    case False
    then have "used s' k = used s k" using spend_refused [of s r s'] spend_other [OF sp, of k] sp by (cases ok) auto
    then show ?thesis using Cons.IH [OF lim] False sp Cons.prems(2) by auto
  qed
qed simp

end

text \<open>The two meters: a channel of the relay table, and a voucher number of the ledger.\<close>

type_synonym table_request = "bytes \<times> nat \<times> u64"
type_synonym ledger_request = "anonymous_voucher \<times> bytes \<times> u64 \<times> u64"

definition table_spend :: "relay_table \<Rightarrow> table_request \<Rightarrow> relay_table \<times> bool" where
  "table_spend tb r = (case r of (token_id, len, now) \<Rightarrow>
     (case table_forward tb token_id len now of (tb', res) \<Rightarrow> (tb', \<exists>a. res = Ok a)))"

definition table_used :: "relay_table \<Rightarrow> bytes \<Rightarrow> nat" where
  "table_used tb k = (case tb k of None \<Rightarrow> 0 | Some c \<Rightarrow> unat (ac_forwarded_bytes c))"

definition table_limit :: "relay_table \<Rightarrow> bytes \<Rightarrow> nat" where
  "table_limit tb k = (case tb k of None \<Rightarrow> 0 | Some c \<Rightarrow> unat (ac_max_bytes c))"

definition ledger_spend :: "crates \<Rightarrow> capability_ledger \<Rightarrow> ledger_request \<Rightarrow> capability_ledger \<times> bool" where
  "ledger_spend C lg r = (case r of (v, secret, n, now) \<Rightarrow>
     (case try_spend C lg v secret n now of (lg', res) \<Rightarrow> (lg', \<exists>left. res = Ok left)))"

definition ledger_used :: "capability_ledger \<Rightarrow> u64 \<Rightarrow> nat" where
  "ledger_used lg k = (case lg k of None \<Rightarrow> 0 | Some x \<Rightarrow> unat x)"

lemma sat_add_within:
  assumes "sat_add a b \<le> (m :: u64)" and "unat m < 2 ^ 64 - 1"
  shows "unat (sat_add a b) = unat a + unat b \<and> unat a + unat b \<le> unat m"
  using assms unat_sat_add [of a b] by (auto simp: word_le_nat_alt min_def split: if_splits)

lemma sat_add_zero [simp]: "sat_add 0 (b :: 'a::len word) = b"
  by (simp add: sat_add_def)

interpretation table_meter: meter table_spend table_used fst "\<lambda>r. unat (of_nat (fst (snd r)) :: u64)" "\<lambda>tb r. table_limit tb (fst r)"
proof (unfold_locales, goal_cases)
  case (1 s r s')
  then show ?case using sat_add_within
    by (auto simp: table_spend_def table_forward_def table_used_def table_limit_def Let_def not_less
        split: prod.splits option.splits if_splits)
qed (auto simp: table_spend_def table_forward_def table_used_def table_limit_def Let_def
    split: prod.splits option.splits if_splits)

interpretation ledger_meter: meter "ledger_spend C" ledger_used "\<lambda>r. av_voucher_id (fst r)" "\<lambda>r. unat (fst (snd (snd r)))"
  "\<lambda>lg r. unat (av_max_bytes (fst r))" for C
proof (unfold_locales, goal_cases)
  case (1 s r s')
  then show ?case using sat_add_within
    by (auto simp: ledger_spend_def try_spend_def ledger_used_def Let_def not_less word_le_nat_alt
        split: prod.splits option.splits if_splits)
qed (auto simp: ledger_spend_def try_spend_def ledger_used_def Let_def split: prod.splits option.splits if_splits)

lemma registered_channel:
  assumes "register_channel C tb token key ep now = (tb', Ok ())"
  shows "table_used tb' (bt_token_id token) = 0" and "table_limit tb' (bt_token_id token) = unat (bt_max_bytes token)"
    and "now \<le> bt_expires_at token"
  using assms by (auto simp: register_channel_def token_verify_def table_used_def table_limit_def split: if_splits)

text \<open>
  Neither meter can be overdrawn. After a blind token is registered, any run of packets on any
  channels, at any clock readings, forwards at most the token's quota on its channel; and on any
  ledger, any run of spends with any vouchers grants the vouchers of one number, all together, at most
  the largest of their quotas, so splitting, reordering or repeating requests gains nothing. The quota
  2^64 - 1 is excepted: the running sum saturates there and is never exceeded.
\<close>

theorem quotas_hold_over_runs:
  assumes "register_channel C tb token key ep now = (tb', Ok ())" and "unat (bt_max_bytes token) < 2 ^ 64 - 1"
    and "L < 2 ^ 64 - 1" and "\<forall>r \<in> set spends. av_voucher_id (fst r) = k \<longrightarrow> unat (av_max_bytes (fst r)) \<le> L"
  shows "sum_list (map (\<lambda>r. unat (of_nat (fst (snd r)) :: u64))
      (filter (\<lambda>r. fst r = bt_token_id token) (granted_of table_spend tb' packets))) \<le> unat (bt_max_bytes token) \<and>
    sum_list (map (\<lambda>r. unat (fst (snd (snd r))))
      (filter (\<lambda>r. av_voucher_id (fst r) = k) (granted_of (ledger_spend C) Map.empty spends))) \<le> L"
  using table_meter.granted_within [where rs = packets and k = "bt_token_id token" and s = tb' and L = "unat (bt_max_bytes token)"]
    ledger_meter.granted_within [where rs = spends and k = k and s = Map.empty and L = L and C = C] registered_channel [OF assms(1)] assms(2-4)
  by (simp add: ledger_used_def)

text \<open>Registering the same token again starts its quota over.\<close>

theorem registering_again_refills:
  assumes "register_channel C tb token key ep now = (tb', Ok ())" and "now' \<le> bt_expires_at token"
  shows "\<exists>tb''. register_channel C (fst (table_forward tb' (bt_token_id token) n now)) token key ep' now' = (tb'', Ok ()) \<and>
    table_used tb'' (bt_token_id token) = 0"
  using assms by (auto simp: register_channel_def token_verify_def table_used_def split: if_splits)

definition demo_token :: blind_token where "demo_token = token_mint demo_crates [1] [2] [3] 100 50"
definition demo_voucher :: anonymous_voucher where "demo_voucher = anonymous_mint demo_crates [1] [2] 7 10 50"

theorem quotas_hold_over_runs_witness:
  "\<exists>tb'. register_channel demo_crates Map.empty demo_token [1] demo_addr 0 = (tb', Ok ()) \<and>
    sum_list (map (\<lambda>r. unat (of_nat (fst (snd r)) :: u64)) (filter (\<lambda>r. fst r = bt_token_id demo_token)
      (granted_of table_spend tb' [(bt_token_id demo_token, 60, 0), (bt_token_id demo_token, 60, 0)]))) \<le> 100 \<and>
    sum_list (map (\<lambda>r. unat (fst (snd (snd r)))) (filter (\<lambda>r. av_voucher_id (fst r) = 7)
      (granted_of (ledger_spend demo_crates) Map.empty [(demo_voucher, [2], 6, 0), (demo_voucher, [2], 6, 0)]))) \<le> 10"
proof -
  obtain tb' where tb: "register_channel demo_crates Map.empty demo_token [1] demo_addr 0 = (tb', Ok ())"
    by (simp add: register_channel_def token_verify_def demo_token_def token_mint_def Let_def)
  have q: "unat (bt_max_bytes demo_token) = 100" by (simp add: demo_token_def token_mint_def Let_def)
  have "unat (av_max_bytes demo_voucher) = 10" by (simp add: demo_voucher_def anonymous_mint_def)
  then show ?thesis
    using tb quotas_hold_over_runs [OF tb, of 10 "[(demo_voucher, [2], 6, 0), (demo_voucher, [2], 6, 0)]" 7
        "[(bt_token_id demo_token, 60, 0), (bt_token_id demo_token, 60, 0)]"] q by auto
qed

section \<open>The diversity of a flight\<close>

text \<open>One entry per shard, and at most the maximum of shards in one autonomous system.\<close>

definition asn_ok :: "asn_constraint \<Rightarrow> bool" where
  "asn_ok c \<longleftrightarrow> 1 \<le> as_max_shards_per_asn c \<and> distinct (map fst (as_assigned_asns c)) \<and>
     (\<forall>a. length (filter (\<lambda>(i, asn). asn = a) (as_assigned_asns c)) \<le> as_max_shards_per_asn c)"

definition asn_step :: "asn_constraint \<Rightarrow> u8 \<times> u32 \<Rightarrow> asn_constraint" where
  "asn_step c e = fst (assign_shard_asn c (fst e) (snd e))"

lemma asn_step_ok: "asn_ok c \<Longrightarrow> asn_ok (asn_step c e)"
proof (cases "is_asn_permitted c (fst e) (snd e)")
  case True
  assume ok: "asn_ok c"
  obtain i asn where e: "e = (i, asn)" by force
  let ?old = "filter (\<lambda>(idx, _). idx \<noteq> i) (as_assigned_asns c)"
  have new: "as_assigned_asns (asn_step c e) = ?old @ [(i, asn)]" "as_max_shards_per_asn (asn_step c e) = as_max_shards_per_asn c"
    using True by (simp_all add: asn_step_def assign_shard_asn_def e)
  have d: "distinct (map fst (?old @ [(i, asn)]))" using ok by (auto simp: asn_ok_def distinct_map_filter)
  have le: "length (filter (\<lambda>(j, a'). a' = a) ?old) \<le> length (filter (\<lambda>(j, a'). a' = a) (as_assigned_asns c))" for a
    using length_filter_le [of "\<lambda>(idx, _). idx \<noteq> i" "filter (\<lambda>(j, a'). a' = a) (as_assigned_asns c)"]
    by (simp add: case_prod_beta conj_commute)
  have "length (filter (\<lambda>(j, a'). a' = asn) ?old) < as_max_shards_per_asn c"
    using True by (simp add: is_asn_permitted_def e case_prod_unfold conj_commute)
  then have "length (filter (\<lambda>(j, a'). a' = a) (?old @ [(i, asn)])) \<le> as_max_shards_per_asn c" for a
    using le [of a] ok by (cases "a = asn") (auto simp: asn_ok_def intro: le_trans)
  with d ok show ?thesis by (simp only: asn_ok_def new) simp
qed (simp add: asn_step_def assign_shard_asn_def)

interpretation asn_machine: state_machine asn_step asn_ok
  by unfold_locales (rule asn_step_ok)

lemma diverse_loop_iff: "diverse_loop 1 seen xs \<longleftrightarrow> distinct (map snd xs) \<and> (\<forall>x \<in> set xs. snd x \<notin> seen)"
  by (induction xs arbitrary: seen) (force split: if_splits)+

text \<open>
  The diversity constraint: whatever shards are assigned to whatever autonomous systems, in any
  order and with reassignments, every shard has one system and no system carries more shards than the
  maximum; under the default maximum of one the systems are pairwise distinct, so the completed flight
  is reported diverse exactly when at least two shards are assigned.
\<close>

theorem flight_diversity:
  "asn_ok (foldl asn_step (asn_new m) es) \<and>
   distinct (map snd (as_assigned_asns (foldl asn_step asn_default es))) \<and>
   is_diverse (foldl asn_step asn_default es) = (2 \<le> length (as_assigned_asns (foldl asn_step asn_default es)))"
proof -
  let ?c = "foldl asn_step asn_default es"
  have max: "as_max_shards_per_asn (foldl asn_step c es) = as_max_shards_per_asn c" for c
    by (induction es arbitrary: c) (simp_all add: asn_step_def assign_shard_asn_def)
  have ok: "asn_ok ?c" by (rule asn_machine.run_inv) (simp add: asn_ok_def asn_default_def)
  have one: "as_max_shards_per_asn ?c = 1" by (simp add: max asn_default_def)
  have "distinct (map snd xs)" if "\<forall>a. length (filter (\<lambda>(i, asn). asn = a) xs) \<le> Suc 0" for xs :: "(u8 \<times> u32) list"
    using that
  proof (induction xs)
    case (Cons x xs)
    then have "length (filter (\<lambda>(i, asn). asn = a) xs) \<le> Suc 0" for a by (cases x) (metis (mono_tags, lifting) filter.simps(2) le_Suc_eq length_Cons lessI less_imp_le order.trans)
    moreover have "filter (\<lambda>(i, asn). asn = snd x) xs = []" using Cons.prems [rule_format, of "snd x"] by (cases x) simp
    ultimately show ?case using Cons.IH by (auto simp: filter_empty_conv)
  qed simp
  then have d: "distinct (map snd (as_assigned_asns ?c))" using ok one by (simp add: asn_ok_def)
  have "asn_ok (foldl asn_step (asn_new m) es)" by (rule asn_machine.run_inv) (simp add: asn_ok_def asn_new_def)
  then show ?thesis using d one diverse_loop_iff [of "{}"] by (auto simp: is_diverse_def)
qed

section \<open>The mixing batch\<close>

text \<open>A run of pushes: what is still held, and what was emitted.\<close>

fun mix_run ::
  "((instant \<times> 'a) list \<Rightarrow> (instant \<times> 'a) list) \<Rightarrow> 'a mix_batch \<Rightarrow> (instant \<times> 'a) list \<Rightarrow> 'a mix_batch \<times> 'a list list" where
  "mix_run shuffle m [] = (m, [])"
| "mix_run shuffle m ((now, x) # xs) =
     (case mix_push shuffle now m x of
        (m, out) \<Rightarrow> (case mix_run shuffle m xs of
           (m, outs) \<Rightarrow> (m, (case out of Some b \<Rightarrow> b # outs | None \<Rightarrow> outs))))"

lemma mix_run_spec:
  assumes shuffle: "\<And>xs. mset (shuffle xs) = mset xs" and "length (mb_items m) < mb_capacity m"
    and "mix_run shuffle m xs = (m', outs)"
  shows "mset (map snd (mb_items m')) + mset (concat outs) = mset (map snd (mb_items m)) + mset (map snd xs) \<and>
    length (mb_items m') < mb_capacity m' \<and> mb_capacity m' = mb_capacity m \<and> (\<forall>b \<in> set outs. length b = mb_capacity m)"
  using assms(2,3)
proof (induction xs arbitrary: m m' outs)
  case (Cons e xs)
  obtain now x where e: "e = (now, x)" by force
  obtain m1 out where p: "mix_push shuffle now m x = (m1, out)" by force
  obtain outs1 where r: "mix_run shuffle m1 xs = (m', outs1)" "outs = (case out of Some b \<Rightarrow> b # outs1 | None \<Rightarrow> outs1)"
    using Cons.prems(2) by (auto simp: e p split: prod.splits)
  have len: "length (shuffle ys) = length ys" for ys using shuffle [of ys] by (metis size_mset)
  have m1: "length (mb_items m1) < mb_capacity m1" "mb_capacity m1 = mb_capacity m"
    and b: "case out of None \<Rightarrow> mset (map snd (mb_items m1)) = mset (map snd (mb_items m)) + {#x#}
      | Some b \<Rightarrow> mb_items m1 = [] \<and> length b = mb_capacity m \<and> mset b = mset (map snd (mb_items m)) + {#x#}"
    using p Cons.prems(1) shuffle [of "mb_items m @ [(now, x)]"]
    by (auto simp: mix_push_def drain_randomized_def Let_def len split: if_splits)
  show ?case using Cons.IH [OF m1(1) r(1)] m1 b r(2) by (cases out) (auto simp: e ac_simps)
qed auto

text \<open>
  The mixing batch neither loses, duplicates nor invents items, whatever permutation each shuffle
  draws: after any run of pushes, the items held and the items of the batches emitted are together
  those pushed; fewer items than the capacity are held, and every batch emitted has exactly the
  capacity.
\<close>

theorem mix_batch_conserves_items:
  assumes "\<And>xs. mset (shuffle xs) = mset xs" and "mix_run shuffle (mix_new capacity delay) xs = (m, outs)"
  shows "mset (map snd (mb_items m)) + mset (concat outs) = mset (map snd xs) \<and>
    length (mb_items m) < max capacity 1 \<and> (\<forall>b \<in> set outs. length b = max capacity 1)"
proof -
  have "length (mb_items (mix_new capacity delay)) < mb_capacity (mix_new capacity delay)" by (simp add: mix_new_def max_def)
  from mix_run_spec [OF assms(1) this assms(2)] show ?thesis by (auto simp: mix_new_def)
qed

theorem mix_batch_conserves_items_witness:
  "\<exists>m outs. mix_run rev (mix_new 2 0) [(1, 7 :: nat), (2, 8), (3, 9)] = (m, outs) \<and> map snd (mb_items m) = [9] \<and> outs = [[8, 7]] \<and>
    mset (map snd (mb_items m)) + mset (concat outs) = mset [7, 8, 9]"
proof -
  obtain m outs where r: "mix_run rev (mix_new 2 0) [(1, 7 :: nat), (2, 8), (3, 9)] = (m, outs)" by force
  then have "map snd (mb_items m) = [9]" "outs = [[8, 7]]"
    by (auto simp: mix_push_def drain_randomized_def mix_new_def Let_def)
  moreover have "mset (map snd (mb_items m)) + mset (concat outs) = mset (map snd [(1 :: nat, 7 :: nat), (2, 8), (3, 9)])"
    by (rule mix_batch_conserves_items [OF _ r, THEN conjunct1]) simp
  ultimately show ?thesis using r by (intro exI [of _ m] exI [of _ outs] conjI) simp_all
qed

section \<open>Circuits\<close>

lemma tor_roundtrip:
  assumes "case sa_ip a of V4 _ _ _ _ \<Rightarrow> True | V6 o6 \<Rightarrow> length o6 = 16"
  shows "decapsulate_shard_udp (encapsulate_shard_udp d a) = Some d"
  using assms by (auto simp: decapsulate_shard_udp_def encapsulate_shard_udp_def Let_def drop_Cons' split: ip_addr.splits)

lemma tor_circuits_differ: "distinct (map (circuit_for_shard tor_default) [0, 1, 2])"
  by (simp add: circuit_for_shard_def tor_default_def local_port_def)

section \<open>What the exit policy allows\<close>

lemma ends_with_iff: "ends_with sfx s \<longleftrightarrow> (\<exists>p. s = p @ sfx)"
proof
  assume "ends_with sfx s"
  then show "\<exists>p. s = p @ sfx" unfolding ends_with_def by (metis append_take_drop_id)
qed (auto simp: ends_with_def)

lemma trim_dots_idem: "trim_dots (trim_dots s) = trim_dots s"
  by (simp add: trim_dots_def dropWhile_idem)

lemma lower_idem: "lower (lower b) = lower b"
proof (cases "65 \<le> b \<and> b \<le> 90")
  case True
  then have "65 \<le> unat b" "unat b \<le> 90" by (simp_all add: word_le_nat_alt)
  then have "unat (b + 32) = unat b + 32" by (simp add: unat_word_ariths)
  then have "\<not> b + 32 \<le> 90" using \<open>65 \<le> unat b\<close> by (simp add: word_le_nat_alt)
  then show ?thesis using True by (simp add: lower_def)
qed (simp add: lower_def)

lemma lower_dot: "lower b = 46 \<longleftrightarrow> b = 46"
proof (cases "65 \<le> b \<and> b \<le> 90")
  case True
  then have "65 \<le> unat b" "unat b \<le> 90" by (simp_all add: word_le_nat_alt)
  then have "unat (b + 32) \<noteq> 46" "unat b \<noteq> 46" by (simp_all add: unat_word_ariths)
  then show ?thesis using True by (auto simp: lower_def)
qed (auto simp: lower_def)

lemma normal_host_no_dot: "normal_host host \<noteq> [] \<Longrightarrow> last (normal_host host) \<noteq> 46"
  using hd_dropWhile [of "\<lambda>b. b = 46" "rev (trim host)"]
  by (auto simp: normal_host_def to_ascii_lowercase_def last_map lower_dot trim_dots_def last_rev simp del: dropWhile_eq_Nil_conv)

text \<open>
  A closed exit policy allows a host exactly when its normal form (white space and trailing dots
  off, lower case) equals a plain rule, or is a non-empty label followed by a dot and the suffix of a
  \<open>*.suffix\<close> rule: the bare suffix and names that merely end in it are refused, and a rule that ends in
  a dot admits nothing.
\<close>

theorem exit_policy_decides:
  "policy_allows p host \<longleftrightarrow> ep_allow_any p \<or>
     (\<exists>rule \<in> set (ep_rules p).
        (if starts_with (ascii ''*.'') rule
         then \<exists>label. label \<noteq> [] \<and> normal_host host = label @ ascii ''.'' @ drop 2 rule
         else normal_host host = rule) \<and> (rule = [] \<or> last rule \<noteq> 46))"
proof -
  have wild: "(ends_with (ascii ''.'' @ s) h \<and> length h > length s + 1) = (\<exists>label. label \<noteq> [] \<and> h = label @ ascii ''.'' @ s)" for s h
    by (auto simp: ends_with_iff)
  have dotted: "rule = [] \<or> last rule \<noteq> 46"
    if m: "if starts_with (ascii ''*.'') rule then \<exists>label. label \<noteq> [] \<and> normal_host host = label @ ascii ''.'' @ drop 2 rule
        else normal_host host = rule" for rule
  proof (cases "starts_with (ascii ''*.'') rule")
    case True
    then obtain label where h: "normal_host host = label @ ascii ''.'' @ drop 2 rule" using m by auto
    have r: "rule = ascii ''*.'' @ drop 2 rule" using True by (metis append_take_drop_id length_ascii list.size(3,4) One_nat_def Suc_1 starts_with_def plus_1_eq_Suc add.commute)
    have "drop 2 rule \<noteq> []" using h normal_host_no_dot [of host] by (auto simp: ascii_def)
    then have "last rule = last (normal_host host)" using h r by (metis append_is_Nil_conv last_appendR)
    then show ?thesis using normal_host_no_dot [of host] h by (auto simp: ascii_def)
  qed (use m normal_host_no_dot [of host] in auto)
  have "policy_allows p host \<longleftrightarrow> ep_allow_any p \<or> (\<exists>rule \<in> set (ep_rules p).
        if starts_with (ascii ''*.'') rule then \<exists>label. label \<noteq> [] \<and> normal_host host = label @ ascii ''.'' @ drop 2 rule
        else normal_host host = rule)"
    unfolding policy_allows_def Let_def strip_prefix_def if_distrib [of "case_option _ _"] option.case wild length_ascii
    by (simp add: numeral_2_eq_2 cong: if_cong)
  then show ?thesis using dotted by blast
qed

end
