(* ===== verification/Deliver.thy ===== *)
theory Deliver
  imports Receive
begin

text \<open>
  The receive path against the send path: what one node seals with \<open>enc_split\<close> and sends in three
  frames, the other takes in with \<open>ingest\<close> and opens in \<open>handle_data\<close> (src/src/main.rs), in both
  sealing modes and from any two of the frames; and what a payload handed on must have passed.
\<close>

section \<open>The inner frame\<close>

lemma inner_frame_even: "length (inner_frame pay) mod 2 = 0"
  by (simp add: inner_frame_def Let_def) presburger

lemma inner_frame_nonempty: "inner_frame pay \<noteq> []"
proof -
  have "2 \<le> length (inner_frame pay)" by (simp add: inner_frame_def Let_def)
  then show ?thesis by auto
qed

lemma inner_frame_length: "length (inner_frame pay) \<le> length pay + 3"
  by (simp add: inner_frame_def Let_def)

lemma inner_frame_payload:
  assumes "length pay < 65536"
  shows "frame_payload (inner_frame pay) = Some pay"
proof -
  have "[be_u16 v ! 0, be_u16 v ! Suc 0] = be_u16 v" for v :: u16
    by (rule nth_equalityI) (auto simp: less_Suc_eq)
  then have n: "unat (u16_be [be_u16 v ! 0, be_u16 v ! Suc 0]) = unat v" for v :: u16 by simp
  show ?thesis
    using assms n by (auto simp: inner_frame_def frame_payload_def Let_def nth_append slice_def unat_of_nat)
qed

section \<open>Sessions that do not open\<close>

lemma open_key_plan: "plan_open C r e d c \<noteq> Refused \<Longrightarrow> open_key C r e d c = Some (plan_key (plan_open C r e d c))"
  by (cases "plan_open C r e d c") (simp_all add: open_key_def)

lemma note_gap_ratchet [simp]: "se_ratchet (note_gap now s e d c) = se_ratchet s"
  by (simp add: note_gap_def trigger_forced_ratchet_step_def Let_def)

text \<open>No key the session would use for that frame opens the message.\<close>

definition bystander :: "crates \<Rightarrow> v2_frame_meta \<Rightarrow> u64 \<Rightarrow> bytes \<Rightarrow> session \<Rightarrow> bool" where
  "bystander C meta ctr data r \<longleftrightarrow>
     (\<forall>dir key. open_key C (se_ratchet r) (vm_epoch meta) dir ctr = Some key \<longrightarrow>
        xchacha_open_with_aad C key (vm_nonce meta) (vm_epoch meta) dir data (if vm_bulk meta then [] else vm_tail meta) = None)"

lemma bystander_closed:
  assumes "bystander C meta ctr data s"
  obtains s' where "open_v2 C now data ctr meta s dirs = (s', None)" and "se_ratchet s' = se_ratchet s"
  using assms
proof (induction dirs arbitrary: s thesis)
  case (Cons d ds)
  show ?case
  proof (cases "plan_open C (se_ratchet s) (vm_epoch meta) d ctr = Refused")
    case True
    have "bystander C meta ctr data (note_gap now s (vm_epoch meta) d ctr)" using Cons.prems(2) by (simp add: bystander_def)
    then show ?thesis using Cons.IH [of "note_gap now s (vm_epoch meta) d ctr"] Cons.prems(1) True by (auto simp: Let_def)
  next
    case False
    then show ?thesis
      using Cons.IH [of s] Cons.prems open_key_plan [OF False]
      by (auto simp: Let_def bystander_def)
  qed
qed simp

lemma bystanders_pass:
  assumes "dl_v2 dl = Some meta" and "\<not> vm_shardsec meta"
    and "\<forall>c \<in> set before. oc_peer_fp c \<noteq> fp" and "\<forall>c r. c \<in> set before \<longrightarrow> nd_sessions nd (oc_peer_fp c) = Some r \<longrightarrow>
      bystander C meta (dl_ctr dl) (dl_payload dl) r"
  obtains nd' where "open_candidates C now dl nd (before @ cs) = open_candidates C now dl nd' cs"
    and "nd_sessions nd' fp = nd_sessions nd fp"
  using assms(3,4)
proof (induction before arbitrary: nd thesis)
  case (Cons c before)
  show ?case
  proof (cases "nd_sessions nd (oc_peer_fp c)")
    case None
    then show ?thesis using Cons.IH [of nd] Cons.prems assms(1,2) by auto
  next
    case (Some r)
    then have "bystander C meta (dl_ctr dl) (dl_payload dl) r" using Cons.prems(3) by auto
    then obtain r' where r': "open_v2 C now (dl_payload dl) (dl_ctr dl) meta r (open_directions (oc_role c)) = (r', None)"
      "se_ratchet r' = se_ratchet r" by (rule bystander_closed)
    let ?nd = "put_session nd (oc_peer_fp c) (Some r')"
    have "\<forall>c' q. c' \<in> set before \<longrightarrow> nd_sessions ?nd (oc_peer_fp c') = Some q \<longrightarrow> bystander C meta (dl_ctr dl) (dl_payload dl) q"
      using Cons.prems(3) Some r'(2) by (auto simp: bystander_def split: if_splits)
    moreover have "nd_sessions ?nd fp = nd_sessions nd fp" using Cons.prems(2) by auto
    moreover have "open_candidates C now dl nd ((c # before) @ cs) = open_candidates C now dl ?nd (before @ cs)"
      using Some r'(1) assms(1,2) by (simp add: open_received_frame_def)
    ultimately show ?thesis using Cons.IH [of ?nd] Cons.prems(1,2) by auto
  qed
qed simp

section \<open>What the sender's context has in common with the receiver\<close>

lemma sealed_ctx:
  assumes "peers C a b" and "epochs_ok (se_ratchet b)" and "seal_pos a \<noteq> - 1"
    and "mc_pos (cur_msg (se_ratchet b) (seal_direction a)) \<le> seal_pos a"
    and "seal_pos a - mc_pos (cur_msg (se_ratchet b) (seal_direction a)) \<le> 1024"
    and "ctx_from_session C a nonce = (a', ctx)"
  shows "sc_nonce ctx = nonce" "sc_session_hash ctx = se_session_hash a" "sc_direction ctx = peer_direction (seal_direction b)"
    and "plan_open C (se_ratchet b) (sc_epoch ctx) (sc_direction ctx) (sc_counter ctx) \<noteq> Refused"
    and "plan_key (plan_open C (se_ratchet b) (sc_epoch ctx) (sc_direction ctx) (sc_counter ctx)) = sc_key ctx"
    and "peers C a' (session_commit_open b (sc_epoch ctx) (sc_direction ctx)
           (plan_open C (se_ratchet b) (sc_epoch ctx) (sc_direction ctx) (sc_counter ctx)))"
proof -
  obtain a'' m where m: "seal_material C a nonce = (a'', m)" "sm_nonce m = nonce" "sm_direction m = seal_direction a"
    "open_key C (se_ratchet b) (sm_epoch m) (sm_direction m) (sm_counter m) = Some (sm_key m)"
    "peers C a'' (session_commit_open b (sm_epoch m) (sm_direction m)
           (plan_open C (se_ratchet b) (sm_epoch m) (sm_direction m) (sm_counter m)))"
    using sealed_opens [OF assms(1,2) _ assms(3,4,5), of nonce] by (auto simp: seal_pos_def Let_def)
  have ctx: "a'' = a'" "sc_key ctx = sm_key m" "sc_epoch ctx = sm_epoch m" "sc_counter ctx = sm_counter m" "sc_nonce ctx = sm_nonce m"
    "sc_direction ctx = sm_direction m" "sc_session_hash ctx = se_session_hash a"
    using assms(6) m(1) by (auto simp: ctx_from_session_def)
  have dir: "seal_direction a = peer_direction (seal_direction b)" using assms(1) by (simp add: peers_def)
  have "plan_open C (se_ratchet b) (sm_epoch m) (sm_direction m) (sm_counter m) \<noteq> Refused"
    using m(4) by (auto simp: open_key_def)
  then show "plan_open C (se_ratchet b) (sc_epoch ctx) (sc_direction ctx) (sc_counter ctx) \<noteq> Refused"
    "plan_key (plan_open C (se_ratchet b) (sc_epoch ctx) (sc_direction ctx) (sc_counter ctx)) = sc_key ctx"
    using m(4) open_key_plan [of C "se_ratchet b" "sm_epoch m" "sm_direction m" "sm_counter m"] by (simp_all add: ctx)
  show "sc_nonce ctx = nonce" "sc_session_hash ctx = se_session_hash a" "sc_direction ctx = peer_direction (seal_direction b)"
    "peers C a' (session_commit_open b (sc_epoch ctx) (sc_direction ctx)
           (plan_open C (se_ratchet b) (sc_epoch ctx) (sc_direction ctx) (sc_counter ctx)))"
    using m(2,3,5) ctx dir by simp_all
qed

section \<open>The three frames\<close>

definition ctx_meta :: "crates \<Rightarrow> bool \<Rightarrow> seal_ctx \<Rightarrow> v2_frame_meta" where
  "ctx_meta C shardsec ctx = \<lparr>vm_epoch = sc_epoch ctx, vm_nonce = sc_nonce ctx, vm_bulk = False,
     vm_tail = tail_for C (sc_key ctx) (sc_nonce ctx) (sc_epoch ctx) (sc_direction ctx), vm_shardsec = shardsec\<rparr>"

text \<open>What is split into shards: the plaintext in one mode, the sealed message in the other.\<close>

definition wire_message :: "crates \<Rightarrow> bool \<Rightarrow> seal_ctx \<Rightarrow> bytes \<Rightarrow> bytes" where
  "wire_message C shardsec ctx pay =
     (if shardsec then inner_frame pay
      else xchacha_seal_in_place_with_aad C (sc_key ctx) (sc_nonce ctx) (sc_epoch ctx) (sc_direction ctx) (inner_frame pay)
             (tail_for C (sc_key ctx) (sc_nonce ctx) (sc_epoch ctx) (sc_direction ctx)))"

definition wire_shard :: "crates \<Rightarrow> bool \<Rightarrow> seal_ctx \<Rightarrow> nat \<Rightarrow> bytes \<Rightarrow> bytes" where
  "wire_shard C shardsec ctx k shard =
     (if shardsec
      then (let S = seal_shard C (sc_key ctx) (sc_epoch ctx) (sc_nonce ctx) (sc_direction ctx) (of_nat k) shard in ss_ciphertext S @ ss_tag S)
      else shard)"

lemma length_tail_for: "hash_law C \<Longrightarrow> length (tail_for C key nonce e d) = 64"
  by (simp add: tail_for_def JITTER_MAX_def hash_lawD upt_rec)

lemma wire_message_even:
  assumes "xchacha_law C"
  shows "length (wire_message C shardsec ctx pay) mod 2 = 0" "wire_message C shardsec ctx pay \<noteq> []"
    "length (wire_message C shardsec ctx pay) \<le> length pay + 19"
proof -
  have l: "length (wire_message C shardsec ctx pay) = length (inner_frame pay) + (if shardsec then 0 else 16)"
    by (simp add: wire_message_def xchacha_seal_in_place_with_aad_def xchacha_lawD(1) [OF assms])
  show "length (wire_message C shardsec ctx pay) mod 2 = 0" using inner_frame_even [of pay] unfolding l by (cases shardsec) presburger+
  show "wire_message C shardsec ctx pay \<noteq> []" using l inner_frame_nonempty [of pay] by auto
  show "length (wire_message C shardsec ctx pay) \<le> length pay + 19" using inner_frame_length [of pay] by (simp add: l)
qed

lemma wire_shard_length:
  assumes "xchacha_law C"
  shows "length (wire_shard C shardsec ctx k shard) = length shard + (if shardsec then 16 else 0)"
  by (simp add: wire_shard_def Let_def seal_shard_wire xchacha_seal_in_place_def xchacha_seal_in_place_with_aad_def
      xchacha_lawD(1) [OF assms] del: length_append)

lemma message_frames:
  assumes laws: "xchacha_law C" "rs_law C" "hash_law C"
    and "length (sc_session_hash ctx) = 4" and "length (sc_nonce ctx) = 12" and "length pay \<le> 860"
  obtains f tag frames raw where "enc_split C shardsec ctx pay = Ok (f, tag)" and "send3_mixed C shardsec ctx f tag = frames"
    and "length frames = 3" and "rs_encode C (wire_message C shardsec ctx pay) = Ok (wire_message C shardsec ctx pay, raw)"
    and "\<And>k. k < 3 \<Longrightarrow> carries (frames ! k) (sc_session_hash ctx) (sc_counter ctx) k (ctx_meta C shardsec ctx)
          (wire_shard C shardsec ctx k (raw ! k))"
proof -
  let ?w = "wire_message C shardsec ctx pay"
  obtain d0 d1 q where enc: "rs_encode C ?w = Ok (padded_even ?w, [d0, d1, q])" "d0 @ d1 = padded_even ?w"
    "length d0 = length d1" "d0 \<noteq> []" "length q = length d0"
    by (rule rs_encode_ok [OF laws(2) wire_message_even(2) [OF laws(1)]])
  have pad: "padded_even ?w = ?w" using wire_message_even(1) [OF laws(1)] by (simp add: padded_even_even)
  have "2 * length d0 = length ?w" using arg_cong [OF enc(2), of length] enc(3) by (simp add: pad)
  then have l0: "length d0 \<le> 439" using wire_message_even(3) [OF laws(1), of shardsec ctx pay] assms(6) by simp
  let ?raw = "[d0, d1, q]"
  define tag where "tag = (if shardsec then zeros 16 else drop (length ?w - 16) ?w)"
  have lt: "length tag = 16"
    by (simp add: tag_def wire_message_def xchacha_seal_in_place_with_aad_def xchacha_lawD(1) [OF laws(1)])
  define f where "f = map (\<lambda>k. frame_shard (wire_shard C shardsec ctx k (?raw ! k))) [0..<3]"
  have "enc_split C shardsec ctx pay = Ok (f, tag)"
  proof (cases shardsec)
    case True
    then show ?thesis
      using enc(1) by (simp add: enc_split_def wire_message_def f_def tag_def wire_shard_def enumerate_eq_zip upt_rec numeral_3_eq_3 Let_def)
  next
    case False
    then have "16 \<le> length ?w" by (simp add: wire_message_def xchacha_seal_in_place_with_aad_def xchacha_lawD(1) [OF laws(1)])
    then show ?thesis
      using enc(1) False by (simp add: enc_split_def wire_message_def f_def tag_def wire_shard_def Let_def upt_rec numeral_3_eq_3)
  qed
  moreover
  let ?h = "\<lambda>k. data_header C shardsec ctx (of_nat k) False 0"
  have ex: "\<exists>p. try_build_gtf_v2_frame (?h k) (frame_shard (wire_shard C shardsec ctx k (?raw ! k))) tag = Ok p \<and>
      carries p (sc_session_hash ctx) (sc_counter ctx) k (ctx_meta C shardsec ctx) (wire_shard C shardsec ctx k (?raw ! k))" if k: "k < 3" for k
  proof -
    have lk: "length (?raw ! k) = length d0" using k enc(3,5) by (auto simp: less_Suc_eq numeral_3_eq_3)
    have ok: "header_ok (?h k)" using assms(4,5) length_tail_for [OF laws(3)] by (simp add: header_ok_def data_header_def ctx_header_def)
    have ne: "wire_shard C shardsec ctx k (?raw ! k) \<noteq> []" "length (wire_shard C shardsec ctx k (?raw ! k)) \<le> 456"
      using wire_shard_length [OF laws(1), of shardsec ctx k "?raw ! k"] lk enc(4) l0 by auto
    have u: "unat (of_nat k :: u8) = k" using k by (simp add: unat_of_nat)
    obtain p where p: "try_build_gtf_v2_frame (?h k) (frame_shard (wire_shard C shardsec ctx k (?raw ! k))) tag = Ok p"
      "carries p (gh_session_hash (?h k)) (gh_counter (?h k)) (unat (gh_shard_index (?h k)))
        \<lparr>vm_epoch = gh_epoch (?h k), vm_nonce = gh_nonce (?h k), vm_bulk = False, vm_tail = gh_tail (?h k),
         vm_shardsec = (gh_flags (?h k) = FLAG_SHARDSEC)\<rparr> (wire_shard C shardsec ctx k (?raw ! k))"
      by (rule shard_frame_carries [OF ok _ _ lt ne]) (simp_all add: data_header_def ctx_header_def data_flags_def)
    have "gh_flags (?h k) = FLAG_SHARDSEC \<longleftrightarrow> shardsec" by (simp add: data_header_def ctx_header_def data_flags_def FLAG_SHARDSEC_def)
    then show ?thesis using p u by (intro exI [of _ p]) (simp add: ctx_meta_def data_header_def ctx_header_def)
  qed
  define fr where "fr = (\<lambda>k. SOME p. try_build_gtf_v2_frame (?h k) (frame_shard (wire_shard C shardsec ctx k (?raw ! k))) tag = Ok p \<and>
      carries p (sc_session_hash ctx) (sc_counter ctx) k (ctx_meta C shardsec ctx) (wire_shard C shardsec ctx k (?raw ! k)))"
  have fr: "try_build_gtf_v2_frame (?h k) (frame_shard (wire_shard C shardsec ctx k (?raw ! k))) tag = Ok (fr k)"
      "carries (fr k) (sc_session_hash ctx) (sc_counter ctx) k (ctx_meta C shardsec ctx) (wire_shard C shardsec ctx k (?raw ! k))" if "k < 3" for k
    using someI_ex [OF ex [OF that]] by (auto simp: fr_def)
  have "send3_mixed C shardsec ctx f tag = map fr [0..<3]"
    using fr(1) [of 0] fr(1) [of 1] fr(1) [of 2]
    by (simp add: send3_mixed_def f_def enumerate_eq_zip upt_rec numeral_3_eq_3 map_filter_def numeral_2_eq_2)
  ultimately show thesis
    using that [of f tag "map fr [0..<3]" ?raw] enc(1) fr(2) by (simp add: pad)
qed

section \<open>From the wire to the session\<close>

lemma ingest_message_frame:
  assumes "xchacha_law C" and "carries p hash ctr k meta (wire_shard C shardsec ctx k shard)" and "meta = ctx_meta C shardsec ctx"
    and "hash = sc_session_hash ctx" and "ctr = sc_counter ctx" and "hash \<noteq> [0, 0, 0, 0]"
    and "k < 3" and "rc_connected rx" and "di_num_workers (rc_dispatcher rx) \<noteq> 0"
    and "owner (rc_node rx) order hash fp b" and "sc_direction ctx = peer_direction (seal_direction b)"
    and "plan_open C (se_ratchet b) (sc_epoch ctx) (sc_direction ctx) (sc_counter ctx) \<noteq> Refused"
    and "plan_key (plan_open C (se_ratchet b) (sc_epoch ctx) (sc_direction ctx) (sc_counter ctx)) = sc_key ctx"
    and "assemble_shards C (rc_spool rx)
           \<lparr>sk_session_hash = hash, sk_epoch = sc_epoch ctx, sk_counter = ctr, sk_pre_session_src = None\<rparr> k shard = Ok (spool, r)"
  obtains d where "di_num_workers d \<noteq> 0"
    and "ingest C now order rx p src = Ok (rx\<lparr>rc_dispatcher := d, rc_spool := spool\<rparr>,
      map_option (\<lambda>x. \<lparr>dl_ctr = ctr, dl_v2 = Some meta, dl_payload = x, dl_src = src, dl_wire_session_hash = Some hash\<rparr>) r)"
proof (rule ingest_carried [OF assms(2,7-9), of C now order src])
  fix d assume d: "di_num_workers d \<noteq> 0"
    and i: "ingest C now order rx p src =
      (case (if vm_shardsec meta then ingest_shardsec C now order (rx\<lparr>rc_dispatcher := d\<rparr>) p src meta k (wire_shard C shardsec ctx k shard)
             else (case assemble_shards C (rc_spool rx) (spool_key_of src p (Some meta)) k (wire_shard C shardsec ctx k shard) of
                     Ok (spool, r) \<Rightarrow> Ok (rx\<lparr>rc_dispatcher := d, rc_spool := spool\<rparr>, r)
                   | Err e \<Rightarrow> Err e
                   | Panic \<Rightarrow> Panic)) of
         Ok (rx, r) \<Rightarrow> Ok (rx, map_option (\<lambda>x. \<lparr>dl_ctr = ctr, dl_v2 = Some meta, dl_payload = x, dl_src = src,
                                                 dl_wire_session_hash = Some hash\<rparr>) r)
       | Err e \<Rightarrow> Err e
       | Panic \<Rightarrow> Panic)"
  have key: "spool_key_of src p (Some meta) = \<lparr>sk_session_hash = hash, sk_epoch = sc_epoch ctx, sk_counter = ctr, sk_pre_session_src = None\<rparr>"
    using carried_key [OF assms(2,6)] by (simp add: assms(3) ctx_meta_def)
  have "(if vm_shardsec meta then ingest_shardsec C now order (rx\<lparr>rc_dispatcher := d\<rparr>) p src meta k (wire_shard C shardsec ctx k shard)
             else (case assemble_shards C (rc_spool rx) (spool_key_of src p (Some meta)) k (wire_shard C shardsec ctx k shard) of
                     Ok (spool, r) \<Rightarrow> Ok (rx\<lparr>rc_dispatcher := d, rc_spool := spool\<rparr>, r)
                   | Err e \<Rightarrow> Err e
                   | Panic \<Rightarrow> Panic)) = Ok (rx\<lparr>rc_dispatcher := d, rc_spool := spool\<rparr>, r)"
  proof (cases shardsec)
    case True
    let ?S = "seal_shard C (sc_key ctx) (sc_epoch ctx) (sc_nonce ctx) (sc_direction ctx) (of_nat k) shard"
    have w: "wire_shard C shardsec ctx k shard = ss_ciphertext ?S @ ss_tag ?S" using True by (simp add: wire_shard_def Let_def)
    have "ingest_shardsec C now order (rx\<lparr>rc_dispatcher := d\<rparr>) p src meta k (ss_ciphertext ?S @ ss_tag ?S) =
        Ok (rx\<lparr>rc_dispatcher := d, rc_spool := spool\<rparr>, r)"
      using ingest_genuine_shard [OF assms(1) assms(2) [unfolded w], of "rx\<lparr>rc_dispatcher := d\<rparr>" order fp b
          "plan_open C (se_ratchet b) (sc_epoch ctx) (sc_direction ctx) (sc_counter ctx)" shard now src] assms(3,5,7,10-14) True key
      by (simp add: ctx_meta_def)
    then show ?thesis using True w by (simp add: assms(3) ctx_meta_def)
  next
    case False
    then show ?thesis using assms(14) key by (simp add: assms(3) ctx_meta_def wire_shard_def)
  qed
  with i show thesis using that [OF d] by simp
qed

lemma commit_first_open:
  assumes "sc_direction ctx = peer_direction (seal_direction b)"
    and "plan_open C (se_ratchet b) (sc_epoch ctx) (sc_direction ctx) (sc_counter ctx) \<noteq> Refused"
  shows "commit_first C (sc_epoch ctx) (sc_counter ctx) b (open_directions (se_role b)) =
    session_commit_open b (sc_epoch ctx) (sc_direction ctx) (plan_open C (se_ratchet b) (sc_epoch ctx) (sc_direction ctx) (sc_counter ctx))"
  using assms by (simp add: open_directions_def seal_direction_def Let_def)

text \<open>The message, put together, opens for its session, whichever sessions are tried before.\<close>

lemma message_opens:
  assumes "xchacha_law C" and "owner nd order hash fp b" and "order = pre @ fp # post" and "fp \<notin> set pre"
    and keyed: "\<And>k r. k \<in> set pre \<Longrightarrow> nd_sessions nd k = Some r \<Longrightarrow> se_peer_fingerprint r = k"
    and quiet: "\<And>k r. \<not> shardsec \<Longrightarrow> k \<in> set pre \<Longrightarrow> nd_sessions nd k = Some r \<Longrightarrow>
      bystander C (ctx_meta C shardsec ctx) (sc_counter ctx) (wire_message C shardsec ctx pay) r"
    and ctx: "sc_direction ctx = peer_direction (seal_direction b)"
      "plan_open C (se_ratchet b) (sc_epoch ctx) (sc_direction ctx) (sc_counter ctx) = pl" "pl \<noteq> Refused" "plan_key pl = sc_key ctx"
    and dl: "dl_v2 dl = Some (ctx_meta C shardsec ctx)" "dl_ctr dl = sc_counter ctx" "dl_payload dl = wire_message C shardsec ctx pay"
      "dl_wire_session_hash dl = Some hash"
  obtains nd' where "open_candidates C now dl nd (snapshot_of (nd_sessions nd) order) =
      (nd', Some (open_ctx_of b, inner_frame pay))"
    and "nd_sessions nd' fp = Some (session_commit_open b (sc_epoch ctx) (sc_direction ctx) pl)"
proof (cases shardsec)
  case True
  have meta: "vm_shardsec (ctx_meta C shardsec ctx)" "vm_epoch (ctx_meta C shardsec ctx) = sc_epoch ctx"
    using True by (simp_all add: ctx_meta_def)
  show thesis
    using open_candidates_shardsec [OF assms(2) dl(1) meta(1) dl(4), of C now] commit_first_open [OF ctx(1), of C] ctx dl(2,3) meta(2) True
    by (intro that [of "put_session nd fp (Some (session_commit_open b (sc_epoch ctx) (sc_direction ctx) pl))"])
      (simp_all add: wire_message_def)
next
  case False
  let ?meta = "ctx_meta C shardsec ctx"
  have fp: "nd_sessions nd fp = Some b" "se_peer_fingerprint b = fp" using assms(2) by (simp_all add: owner_def)
  let ?before = "snapshot_of (nd_sessions nd) pre"
  have split: "snapshot_of (nd_sessions nd) order = ?before @ open_ctx_of b # snapshot_of (nd_sessions nd) post"
    by (simp add: snapshot_of_def assms(3) map_filter_def fp(1))
  have mem: "\<exists>k r. k \<in> set pre \<and> nd_sessions nd k = Some r \<and> oc_peer_fp c = k" if "c \<in> set ?before" for c
    using that keyed by (auto simp: snapshot_of_def map_filter_def)
  obtain nd' where nd': "open_candidates C now dl nd (?before @ open_ctx_of b # snapshot_of (nd_sessions nd) post) =
      open_candidates C now dl nd' (open_ctx_of b # snapshot_of (nd_sessions nd) post)" "nd_sessions nd' fp = Some b"
  proof (rule bystanders_pass [OF dl(1), of ?before fp nd C now "open_ctx_of b # snapshot_of (nd_sessions nd) post"])
    show "\<not> vm_shardsec ?meta" using False by (simp add: ctx_meta_def)
    show "\<forall>c \<in> set ?before. oc_peer_fp c \<noteq> fp" using mem assms(4) by blast
    show "\<forall>c r. c \<in> set ?before \<longrightarrow> nd_sessions nd (oc_peer_fp c) = Some r \<longrightarrow> bystander C ?meta (dl_ctr dl) (dl_payload dl) r"
      using mem quiet [OF False] unfolding dl(2,3) by blast
  qed (use that fp in auto)
  have "xchacha_open_with_aad C (plan_key pl) (vm_nonce ?meta) (vm_epoch ?meta) (sc_direction ctx) (dl_payload dl) (vm_tail ?meta) =
      Some (inner_frame pay)"
    using False by (simp add: ctx(4) ctx_meta_def dl(3) wire_message_def xchacha_open_with_aad_def xchacha_seal_in_place_with_aad_def
        xchacha_lawD [OF assms(1)])
  then have "open_received_frame C now (open_ctx_of b) b (dl_payload dl) (dl_ctr dl) (Some ?meta) =
      (session_commit_open b (sc_epoch ctx) (sc_direction ctx) pl, Some (inner_frame pay))"
    using ctx dl(2) by (simp add: open_received_frame_def open_directions_def seal_direction_def ctx_meta_def Let_def)
  then have "open_candidates C now dl nd' (open_ctx_of b # snapshot_of (nd_sessions nd) post) =
      (put_session nd' fp (Some (session_commit_open b (sc_epoch ctx) (sc_direction ctx) pl)), Some (open_ctx_of b, inner_frame pay))"
    using nd'(2) fp(2) dl(1) False by (simp add: ctx_meta_def)
  then show thesis using that nd'(1) split by simp
qed

text \<open>
  C1. The data path end to end, in both sealing modes: between sessions that agree, with the receiver
  at most 1024 messages behind, a payload of up to 860 bytes is sealed and sent as three frames, and
  any two of them, in either order and from any source addresses, are enough: the first is held in
  the spool, the second yields the message, it is opened for the sender's session and handled as the
  payload that was sent, and the two sessions still agree. Sessions tried earlier must not share the
  session hash and, in the mode that seals the message as a whole, must not open it.
\<close>

theorem message_crosses_the_path:
  assumes laws: "xchacha_law C" "rs_law C" "hash_law C"
    and a: "peers C a b" "epochs_ok (se_ratchet b)" "seal_pos a \<noteq> - 1" "mc_pos (cur_msg (se_ratchet b) (seal_direction a)) \<le> seal_pos a"
      "seal_pos a - mc_pos (cur_msg (se_ratchet b) (seal_direction a)) \<le> 1024" "ctx_from_session C a nonce = (a', ctx)"
      "length (se_session_hash a) = 4" "se_session_hash a \<noteq> [0, 0, 0, 0]" "length nonce = 12" "length pay \<le> 860"
    and rx: "rc_connected rx" "di_num_workers (rc_dispatcher rx) \<noteq> 0" "spool_ok (rc_spool rx)" "Suc (length (rc_spool rx)) \<le> MAX_SPOOL_ENTRIES"
      "map_of (rc_spool rx) \<lparr>sk_session_hash = se_session_hash a, sk_epoch = sc_epoch ctx, sk_counter = sc_counter ctx,
                              sk_pre_session_src = None\<rparr> = None"
    and own: "nd_sessions (rc_node rx) fp = Some b" "se_peer_fingerprint b = fp" "se_session_hash b = se_session_hash a"
      "order = pre @ fp # post" "fp \<notin> set pre"
    and others: "\<forall>k \<in> set pre. \<forall>r. nd_sessions (rc_node rx) k = Some r \<longrightarrow> se_peer_fingerprint r = k \<and> se_session_hash r \<noteq> se_session_hash a \<and>
      (shardsec \<or> bystander C (ctx_meta C shardsec ctx) (sc_counter ctx) (wire_message C shardsec ctx pay) r)"
    and "i < 3" and "j < 3" and "i \<noteq> j"
  shows "\<exists>f tag frames rx1 rx2 dl nd' b'. enc_split C shardsec ctx pay = Ok (f, tag) \<and> send3_mixed C shardsec ctx f tag = frames \<and>
    length frames = 3 \<and> ingest C t1 order rx (frames ! i) src1 = Ok (rx1, None) \<and>
    ingest C t2 order rx1 (frames ! j) src2 = Ok (rx2, Some dl) \<and> spool_ok (rc_spool rx2) \<and>
    handle_data C now redeem dr nonces vpn order (rc_node rx2) dl = handle_plain C now redeem dr nonces vpn dl fp (inner_frame pay) nd' \<and>
    frame_payload (inner_frame pay) = Some pay \<and> nd_sessions nd' fp = Some b' \<and> peers C a' b'"
proof -
  note c = sealed_ctx [OF a(1-6)]
  let ?w = "wire_message C shardsec ctx pay" and ?meta = "ctx_meta C shardsec ctx"
  let ?k = "\<lparr>sk_session_hash = se_session_hash a, sk_epoch = sc_epoch ctx, sk_counter = sc_counter ctx, sk_pre_session_src = None\<rparr>"
  have l: "length (sc_session_hash ctx) = 4" "length (sc_nonce ctx) = 12" using a(7,9) c(1,2) by simp_all
  obtain f tag frames raw where fr: "enc_split C shardsec ctx pay = Ok (f, tag)" "send3_mixed C shardsec ctx f tag = frames"
    "length frames = 3" "rs_encode C ?w = Ok (?w, raw)"
    "\<And>k. k < 3 \<Longrightarrow> carries (frames ! k) (sc_session_hash ctx) (sc_counter ctx) k ?meta (wire_shard C shardsec ctx k (raw ! k))"
    by (rule message_frames [OF laws l a(10), of shardsec]) (rule that)
  have own': "owner (rc_node rx) order (sc_session_hash ctx) fp b"
    using own others unfolding owner_def c(2) by blast
  have hash: "sc_session_hash ctx \<noteq> [0, 0, 0, 0]" using a(8) c(2) by simp
  let ?sp = "AList.update ?k ([None, None, None][i := Some (raw ! i)]) (rc_spool rx)"
  note w1 = first_shard_waits [OF rx(3,5) Suc_leD [OF rx(4)] \<open>i < 3\<close>, where d = "raw ! i"]
  obtain d1 where d1: "di_num_workers d1 \<noteq> 0"
    "ingest C t1 order rx (frames ! i) src1 = Ok (rx\<lparr>rc_dispatcher := d1, rc_spool := ?sp\<rparr>, None)"
    by (rule ingest_message_frame [OF laws(1) fr(5) [OF \<open>i < 3\<close>] refl refl refl hash \<open>i < 3\<close> rx(1,2) own' c(3-5), of ?sp None t1 src1])
      (use w1 c(2) in simp_all)
  let ?rx1 = "rx\<lparr>rc_dispatcher := d1, rc_spool := ?sp\<rparr>"
  have "length ?sp \<le> MAX_SPOOL_ENTRIES" using length_update_le [of ?k _ "rc_spool rx"] rx(4) by (rule order_trans)
  then have w2: "assemble_shards C ?sp ?k j (raw ! j) = Ok (AList.delete ?k ?sp, Some ?w)"
    using second_shard_completes [OF laws(2) wire_message_even(2) [OF laws(1)] fr(4) \<open>i < 3\<close> \<open>j < 3\<close> \<open>i \<noteq> j\<close> w1(2), of ?k]
      padded_even_even [OF wire_message_even(1) [OF laws(1)]] by (simp add: update_conv')
  let ?dl = "\<lparr>dl_ctr = sc_counter ctx, dl_v2 = Some ?meta, dl_payload = ?w, dl_src = src2, dl_wire_session_hash = Some (sc_session_hash ctx)\<rparr>"
  obtain d2 where d2: "ingest C t2 order ?rx1 (frames ! j) src2 = Ok (?rx1\<lparr>rc_dispatcher := d2, rc_spool := AList.delete ?k ?sp\<rparr>, Some ?dl)"
    by (rule ingest_message_frame [OF laws(1) fr(5) [OF \<open>j < 3\<close>] refl refl refl hash \<open>j < 3\<close>, of ?rx1 order fp b "AList.delete ?k ?sp" "Some ?w" t2 src2])
      (use w2 c rx(1) d1(1) own' in simp_all)
  obtain nd' where nd': "open_candidates C now ?dl (rc_node rx) (snapshot_of (nd_sessions (rc_node rx)) order) =
      (nd', Some (open_ctx_of b, inner_frame pay))"
    "nd_sessions nd' fp = Some (session_commit_open b (sc_epoch ctx) (sc_direction ctx)
       (plan_open C (se_ratchet b) (sc_epoch ctx) (sc_direction ctx) (sc_counter ctx)))"
    by (rule message_opens [OF laws(1) own' own(4,5) _ _ c(3) refl c(4,5), of shardsec pay ?dl now]) (use others in auto)
  have "handle_data C now redeem dr nonces vpn order (rc_node (?rx1\<lparr>rc_dispatcher := d2, rc_spool := AList.delete ?k ?sp\<rparr>)) ?dl =
      handle_plain C now redeem dr nonces vpn ?dl fp (inner_frame pay) nd'"
    using nd'(1) own(2) by (simp add: handle_data_def)
  moreover have "spool_ok (rc_spool (?rx1\<lparr>rc_dispatcher := d2, rc_spool := AList.delete ?k ?sp\<rparr>))"
    using spool_ok_delete [OF w1(2)] by simp
  moreover have "frame_payload (inner_frame pay) = Some pay" using inner_frame_payload a(10) by simp
  ultimately show ?thesis using fr(1-3) d1(2) d2 nd'(2) c(6) by (intro exI conjI) assumption+
qed

definition demo_sa :: session where "demo_sa = demo_a\<lparr>se_session_hash := [7, 7, 7, 7]\<rparr>"

definition demo_sb :: session where "demo_sb = demo_b\<lparr>se_session_hash := [7, 7, 7, 7], se_peer_fingerprint := [1]\<rparr>"

definition demo_rx :: rx_context where
  "demo_rx = \<lparr>rc_connected = True, rc_node = put_session (demo_node [2]) [1] (Some demo_sb), rc_spool = [],
     rc_dispatcher = dispatcher_new 1 4\<rparr>"

lemma demo_path:
  "peers demo_crates demo_sa demo_sb" "epochs_ok (se_ratchet demo_sb)" "seal_pos demo_sa = 0"
  "mc_pos (cur_msg (se_ratchet demo_sb) (seal_direction demo_sa)) = 0"
proof -
  have pos: "mc_pos (cur_msg (se_ratchet demo_a) d) = 0" "mc_pos (cur_msg (se_ratchet demo_b) d) = 0" for d
    using cur_msg_new [of demo_crates "[9]" d] by (auto simp: demo_a_def demo_b_def new_with_role_def msg_chain_seed_def)
  then show "seal_pos demo_sa = 0" "mc_pos (cur_msg (se_ratchet demo_sb) (seal_direction demo_sa)) = 0"
    by (simp_all add: demo_sa_def demo_sb_def seal_pos_def)
  show "peers demo_crates demo_sa demo_sb" using demo_peers(1) by (simp add: peers_def demo_sa_def demo_sb_def seal_direction_def)
  show "epochs_ok (se_ratchet demo_sb)" by (simp add: demo_sb_def demo_b_def new_with_role_def epochs_ok_new)
qed

lemma demo_ctx:
  assumes "ctx_from_session demo_crates demo_sa (zeros 12) = (a', ctx)"
  shows "sc_nonce ctx = zeros 12" "sc_session_hash ctx = [7, 7, 7, 7]" "sc_direction ctx = peer_direction (seal_direction demo_sb)"
    and "plan_open demo_crates (se_ratchet demo_sb) (sc_epoch ctx) (sc_direction ctx) (sc_counter ctx) \<noteq> Refused"
    and "plan_key (plan_open demo_crates (se_ratchet demo_sb) (sc_epoch ctx) (sc_direction ctx) (sc_counter ctx)) = sc_key ctx"
proof -
  have "seal_pos demo_sa \<noteq> - 1" "mc_pos (cur_msg (se_ratchet demo_sb) (seal_direction demo_sa)) \<le> seal_pos demo_sa"
    "seal_pos demo_sa - mc_pos (cur_msg (se_ratchet demo_sb) (seal_direction demo_sa)) \<le> 1024" by (simp_all add: demo_path)
  note ctx = sealed_ctx [OF demo_path(1,2) this assms]
  show "sc_nonce ctx = zeros 12" "sc_session_hash ctx = [7, 7, 7, 7]" "sc_direction ctx = peer_direction (seal_direction demo_sb)"
    "plan_open demo_crates (se_ratchet demo_sb) (sc_epoch ctx) (sc_direction ctx) (sc_counter ctx) \<noteq> Refused"
    "plan_key (plan_open demo_crates (se_ratchet demo_sb) (sc_epoch ctx) (sc_direction ctx) (sc_counter ctx)) = sc_key ctx"
    using ctx(1-5) by (simp_all add: demo_sa_def)
qed

lemma demo_owner:
  assumes "ctx_from_session demo_crates demo_sa (zeros 12) = (a', ctx)"
  shows "owner (rc_node demo_rx) [[1]] (sc_session_hash ctx) [1] demo_sb"
  by (auto simp: owner_def demo_rx_def demo_sb_def demo_ctx [OF assms] intro!: exI [of _ "[]"])

theorem message_crosses_the_path_witness:
  "\<exists>f tag frames rx1 rx2 dl nd' b'. enc_split demo_crates True (snd (ctx_from_session demo_crates demo_sa (zeros 12))) [1, 2, 3] = Ok (f, tag) \<and>
     send3_mixed demo_crates True (snd (ctx_from_session demo_crates demo_sa (zeros 12))) f tag = frames \<and>
     ingest demo_crates 1 [[1]] demo_rx (frames ! 2) demo_addr = Ok (rx1, None) \<and>
     ingest demo_crates 2 [[1]] rx1 (frames ! 0) demo_addr = Ok (rx2, Some dl) \<and>
     handle_data demo_crates 3 (\<lambda>_ _. None) demo_draw (\<lambda>_. zeros 12) False [[1]] (rc_node rx2) dl =
       handle_plain demo_crates 3 (\<lambda>_ _. None) demo_draw (\<lambda>_. zeros 12) False dl [1] (inner_frame [1, 2, 3]) nd' \<and>
     frame_payload (inner_frame [1, 2, 3]) = Some [1, 2, 3] \<and> nd_sessions nd' [1] = Some b'"
proof -
  obtain a' ctx where c: "ctx_from_session demo_crates demo_sa (zeros 12) = (a', ctx)" by (cases "ctx_from_session demo_crates demo_sa (zeros 12)")
  show ?thesis
    using message_crosses_the_path [OF demo_laws(1,4,3) demo_path(1,2) _ _ _ c, of "[1, 2, 3]" demo_rx "[1]" "[[1]]" "[]" "[]" True 2 0 1 demo_addr 2 demo_addr
        3 "\<lambda>_ _. None" demo_draw "\<lambda>_. zeros 12" False] demo_path(3,4) c
    by (simp add: demo_rx_def dispatcher_new_def demo_sb_def demo_sa_def spool_ok_empty MAX_SPOOL_ENTRIES_def) blast
qed

theorem injected_shard_is_delivered_witness:
  "\<exists>e rx1 g rx2 dl nd'. ingest demo_crates 0 [[1]] demo_rx e demo_addr = Ok (rx1, None) \<and>
     ingest demo_crates 0 [[1]] rx1 g demo_addr = Ok (rx2, Some dl) \<and>
     handle_data demo_crates 0 (\<lambda>_ _. None) demo_draw (\<lambda>_. zeros 12) False [[1]] (rc_node rx2) dl =
       handle_plain demo_crates 0 (\<lambda>_ _. None) demo_draw (\<lambda>_. zeros 12) False dl [1] ([0, 2] @ [66, 66]) nd'"
proof -
  obtain a' ctx where c: "ctx_from_session demo_crates demo_sa (zeros 12) = (a', ctx)" by (cases "ctx_from_session demo_crates demo_sa (zeros 12)")
  note ctx = demo_ctx [OF c]
  let ?S = "seal_shard demo_crates (sc_key ctx) (sc_epoch ctx) (sc_nonce ctx) (sc_direction ctx) 0 [0, 2]"
  note own = demo_owner [OF c]
  have hdr: "header_ok (data_header demo_crates True ctx 0 False 0)"
    by (simp add: header_ok_def data_header_def ctx_header_def ctx(1,2) demo_sa_def length_tail_for demo_laws(3))
  show ?thesis
    using injected_shard_is_delivered [OF demo_laws(1,4) _ _ _ _ _ own _ refl _ _ ctx(3) hdr, of "zeros 12" "zeros 64" "zeros 16" "zeros 16" "[0, 2]" "[66, 66]" ?S
        0 demo_addr demo_addr "\<lambda>_ _. None" demo_draw "\<lambda>_. zeros 12" False] ctx(3-5)
    by (simp add: demo_rx_def dispatcher_new_def spool_ok_empty MAX_SPOOL_ENTRIES_def ctx(2) demo_sa_def del: append.simps) blast
qed

section \<open>What reaches an application\<close>

text \<open>Handling may set flags of sessions; keys and authentication state of every session stay.\<close>

definition same_keys :: "node \<Rightarrow> node \<Rightarrow> bool" where
  "same_keys nd nd' \<longleftrightarrow> (\<forall>k s'. nd_sessions nd' k = Some s' \<longrightarrow>
     (\<exists>s. nd_sessions nd k = Some s \<and> se_ratchet s' = se_ratchet s \<and> is_pq_authenticated s' = is_pq_authenticated s))"

lemma same_keys_refl [simp]: "same_keys nd nd"
  by (simp add: same_keys_def)

lemma same_keys_put:
  assumes "same_keys nd nd'" and "nd_sessions nd' k = Some s'" and "se_ratchet s'' = se_ratchet s'"
    and "is_pq_authenticated s'' = is_pq_authenticated s'"
  shows "same_keys nd (put_session nd' k (Some s''))"
  using assms by (simp add: same_keys_def)

lemma note_gap_pq [simp]: "is_pq_authenticated (note_gap now s e d c) = is_pq_authenticated s"
  by (simp add: note_gap_def trigger_forced_ratchet_step_def is_pq_authenticated_def Let_def)

lemma commit_open_pq [simp]: "is_pq_authenticated (session_commit_open s e d p) = is_pq_authenticated s"
  by (simp add: session_commit_open_def is_pq_authenticated_def)

lemma open_v2_authentic:
  assumes "open_v2 C now data ctr meta s dirs = (s', r)"
  shows "is_pq_authenticated s' = is_pq_authenticated s"
    and "r = None \<Longrightarrow> se_ratchet s' = se_ratchet s"
    and "r = Some pt \<Longrightarrow> \<exists>dir \<in> set dirs. \<exists>key. open_key C (se_ratchet s) (vm_epoch meta) dir ctr = Some key \<and>
           xchacha_open_with_aad C key (vm_nonce meta) (vm_epoch meta) dir data (if vm_bulk meta then [] else vm_tail meta) = Some pt"
  using assms
proof (induction C now data ctr meta s dirs rule: open_v2.induct)
  case (2 C now data ctr meta s dir dirs)
  note IH = 2
  { case 1 then show ?case using IH(1,4) by (auto simp: Let_def split: if_splits option.splits) }
  { case 2 then show ?case using IH(2,5) by (auto simp: Let_def split: if_splits option.splits) }
  { case 3 then show ?case using IH(3,6) by (auto simp: Let_def open_key_plan split: if_splits option.splits) }
qed simp_all

text \<open>The frame opened under a message key that the session of \<open>fp\<close> held.\<close>

definition opened_by :: "crates \<Rightarrow> delivery \<Rightarrow> v2_frame_meta \<Rightarrow> session \<Rightarrow> bytes \<Rightarrow> bool" where
  "opened_by C dl meta s pt \<longleftrightarrow> (\<exists>dir key. open_key C (se_ratchet s) (vm_epoch meta) dir (dl_ctr dl) = Some key \<and>
     xchacha_open_with_aad C key (vm_nonce meta) (vm_epoch meta) dir (dl_payload dl) (if vm_bulk meta then [] else vm_tail meta) = Some pt)"

lemma open_candidates_authentic:
  assumes "open_candidates C now dl nd1 cs = (nd', Some (c, pt))" and "dl_v2 dl = Some meta" and "\<not> vm_shardsec meta" and "same_keys nd nd1"
  obtains s s' where "nd_sessions nd (oc_peer_fp c) = Some s" and "opened_by C dl meta s pt"
    and "nd_sessions nd' (oc_peer_fp c) = Some s'" and "is_pq_authenticated s' = is_pq_authenticated s"
  using assms(1,4)
proof (induction cs arbitrary: nd1 thesis)
  case (Cons c1 cs)
  show ?case
  proof (cases "nd_sessions nd1 (oc_peer_fp c1)")
    case None
    then show ?thesis using Cons.IH [of thesis nd1] Cons.prems assms(2,3) by simp
  next
    case (Some s1)
    then obtain s where s: "nd_sessions nd (oc_peer_fp c1) = Some s" "se_ratchet s1 = se_ratchet s" "is_pq_authenticated s1 = is_pq_authenticated s"
      using Cons.prems(3) by (auto simp: same_keys_def)
    obtain s' r where r: "open_v2 C now (dl_payload dl) (dl_ctr dl) meta s1 (open_directions (oc_role c1)) = (s', r)"
      by (cases "open_v2 C now (dl_payload dl) (dl_ctr dl) meta s1 (open_directions (oc_role c1))")
    note auth = open_v2_authentic [OF r]
    show ?thesis
    proof (cases r)
      case None
      have "same_keys nd (put_session nd1 (oc_peer_fp c1) (Some s'))"
        by (rule same_keys_put [OF Cons.prems(3) Some auth(2) [OF None] auth(1)])
      then show ?thesis
        using Cons.IH [of thesis "put_session nd1 (oc_peer_fp c1) (Some s')"] Cons.prems(1,2) Some r None assms(2,3)
        by (simp add: open_received_frame_def)
    next
      case (Some q)
      then have "c1 = c" "q = pt" "nd' = put_session nd1 (oc_peer_fp c1) (Some s')"
        using Cons.prems(2) \<open>nd_sessions nd1 (oc_peer_fp c1) = Some s1\<close> r assms(2,3) by (auto simp: open_received_frame_def)
      moreover have "opened_by C dl meta s pt" using auth(3) [OF Some] s(2) \<open>q = pt\<close> unfolding opened_by_def by metis
      ultimately show ?thesis using Cons.prems(1) [of s s'] s auth(1) by simp
    qed
  qed
qed simp

lemma install_epoch_pq:
  assumes "nd_sessions nd fp = Some s"
  obtains s' where "nd_sessions (install_epoch now dl fp nd) fp = Some s'" and "is_pq_authenticated s' = is_pq_authenticated s"
proof -
  have "is_pq_authenticated (fst (activate_epoch s now e)) = is_pq_authenticated s" for e
    by (simp add: activate_epoch_def is_pq_authenticated_def Let_def split: prod.split)
  moreover have "install_epoch now dl fp nd = nd \<or> (\<exists>e. install_epoch now dl fp nd = put_session nd fp (Some (fst (activate_epoch s now e))))"
    using assms by (auto simp: install_epoch_def split: option.split)
  ultimately show ?thesis using that assms by auto
qed

lemma replay_check_pq:
  assumes "replay_check now dl fp nd = (nd', ok)" and "nd_sessions nd fp = Some s"
  obtains s' where "nd_sessions nd' fp = Some s'" and "is_pq_authenticated s' = is_pq_authenticated s"
proof -
  have "is_pq_authenticated (fst (check_inbound s now c)) = is_pq_authenticated s" for c
    by (simp add: check_inbound_def is_pq_authenticated_def split: prod.split)
  moreover have "nd' = nd \<or> nd' = put_session nd fp (Some (fst (check_inbound s now (dl_ctr dl))))"
    using assms by (auto simp: replay_check_def Let_def split: prod.splits if_splits)
  ultimately show ?thesis using that assms(2) by auto
qed

lemma control_pdus_pass:
  assumes "control_pdus C now redeem dr nonces fp payload nd = Ok (False, nd', out)"
  shows "nd' = nd"
  using assms
  by (auto simp: control_pdus_def handle_ratchet_pdu_def handle_qel_mix_pdu_def handle_pq_auth_pdu_def Let_def
      split: rust.splits bool.splits prod.splits if_splits option.splits)

text \<open>
  C3. What reaches an application: whatever message is handled in whatever state, if a v2 message that is
  not per-shard sealed is handed to an application as coming from the peer \<open>fp\<close>, then the node holds
  a session under \<open>fp\<close> whose post-quantum identity check is complete, and the plaintext is what the
  message decrypts to, with its header tail as associated data, under the message key this session
  had for the header's epoch and counter. No other frame is sent in answer.
\<close>

theorem applications_get_authenticated_payloads:
  assumes "handle_data C now redeem dr nonces vpn order nd dl = Ok (nd', Application fp pt, out)"
    and "dl_v2 dl = Some meta" and "\<not> vm_shardsec meta"
  shows "\<exists>s. nd_sessions nd fp = Some s \<and> is_pq_authenticated s \<and> opened_by C dl meta s pt \<and> out = []"
proof -
  obtain nd1 c pt1 where o: "open_candidates C now dl nd (snapshot_of (nd_sessions nd) order) = (nd1, Some (c, pt1))"
    "handle_plain C now redeem dr nonces vpn dl (oc_peer_fp c) pt1 nd1 = Ok (nd', Application fp pt, out)"
    using assms(1) by (auto simp: handle_data_def split: prod.splits option.splits)
  obtain s s1 where s: "nd_sessions nd (oc_peer_fp c) = Some s" "opened_by C dl meta s pt1"
    "nd_sessions nd1 (oc_peer_fp c) = Some s1" "is_pq_authenticated s1 = is_pq_authenticated s"
    by (rule open_candidates_authentic [OF o(1) assms(2,3) same_keys_refl])
  obtain s2 where s2: "nd_sessions (install_epoch now dl (oc_peer_fp c) nd1) (oc_peer_fp c) = Some s2" "is_pq_authenticated s2 = is_pq_authenticated s1"
    by (rule install_epoch_pq [OF s(3)])
  obtain nd3 ok where rc: "replay_check now dl (oc_peer_fp c) (install_epoch now dl (oc_peer_fp c) nd1) = (nd3, ok)"
    by (cases "replay_check now dl (oc_peer_fp c) (install_epoch now dl (oc_peer_fp c) nd1)")
  obtain s3 where s3: "nd_sessions nd3 (oc_peer_fp c) = Some s3" "is_pq_authenticated s3 = is_pq_authenticated s2"
    by (rule replay_check_pq [OF rc s2(1)])
  have "is_pq_authenticated s3 \<and> fp = oc_peer_fp c \<and> pt = pt1 \<and> out = []"
  proof (cases "frame_payload pt1")
    case None
    then show ?thesis using o(2) rc s3(1) by (auto simp: handle_plain_def Let_def split: if_splits)
  next
    case (Some p)
    show ?thesis
    proof (cases "control_pdus C now redeem dr nonces (oc_peer_fp c) p nd3")
      case (Ok r)
      then show ?thesis
        using o(2) rc s3(1) Some control_pdus_pass [of C now redeem dr nonces "oc_peer_fp c" p nd3]
        by (cases r; cases "fst r") (auto simp: handle_plain_def Let_def split: if_splits)
    qed (use o(2) rc Some in \<open>auto simp: handle_plain_def Let_def split: if_splits\<close>)
  qed
  then show ?thesis using s s2(2) s3(2) by auto
qed

lemma demo_epochs:
  "ctx_from_session demo_crates demo_sa (zeros 12) = (a', ctx) \<Longrightarrow> sc_epoch ctx = 0" "sr_epoch (se_ratchet (session_commit_open demo_sb e d p)) = 0"
  by (auto simp: ctx_from_session_def seal_material_def demo_sa_def demo_a_def new_with_role_def ratchet_new_def Let_def
      session_commit_open_def commit_open_def demo_sb_def demo_b_def split: prod.splits)

lemma demo_plain: "control_pdus C now redeem dr nonces fp [1, 2, 3] nd = Ok (False, nd, [])" "\<not> is_bye [1, 2, 3]" "\<not> is_dummy_payload [1, 2, 3]"
proof -
  have no: "\<not> starts_with m [1, 2, 3]" if "3 < length m" for m :: bytes
    using that arg_cong [of "take (length m) [1, 2, 3]" m length] by (auto simp: starts_with_def)
  show "\<not> is_bye [1, 2, 3]" by (simp add: is_bye_def no GHOST_BYE_MAGIC_def ascii_def)
  show "\<not> is_dummy_payload [1, 2, 3]" by (simp add: is_dummy_payload_def DUMMY_MAGIC_def ascii_def)
  show "control_pdus C now redeem dr nonces fp [1, 2, 3] nd = Ok (False, nd, [])"
    by (simp add: control_pdus_def handle_ratchet_pdu_def handle_qel_mix_pdu_def handle_pq_auth_pdu_def no REKEY_MAGIC_def REKEY_RESPONSE_MAGIC_def
        QEL_MIX_MAGIC_def QEL_MIX_RESPONSE_MAGIC_def PQ_AUTH_CHUNK_MAGIC_def PQ_AUTH_ACK_MAGIC_def ascii_def)
qed

lemma demo_accepts: "snd (check_inbound (session_commit_open demo_sb e d p) 0 c)" "is_pq_authenticated demo_sb"
  by (auto simp: word_gt_0  check_inbound_def session_commit_open_def demo_sb_def demo_b_def new_with_role_def g64_new_def g64_check_and_update_def
      g64_is_valid_def is_pq_authenticated_def SESSION_HARD_TIMEOUT_def SESSION_IDLE_TIMEOUT_def secs_def sat_sub_def Let_def split: prod.splits)

theorem applications_get_authenticated_payloads_witness:
  "\<exists>dl meta nd'. handle_data demo_crates 0 (\<lambda>_ _. None) demo_draw (\<lambda>_. zeros 12) False [[1]] (rc_node demo_rx) dl =
       Ok (nd', Application [1] (inner_frame [1, 2, 3]), []) \<and> dl_v2 dl = Some meta \<and> opened_by demo_crates dl meta demo_sb (inner_frame [1, 2, 3])"
proof -
  obtain a' ctx where c: "ctx_from_session demo_crates demo_sa (zeros 12) = (a', ctx)" by (cases "ctx_from_session demo_crates demo_sa (zeros 12)")
  note ctx = demo_ctx [OF c]
  let ?meta = "ctx_meta demo_crates False ctx"
  let ?dl = "\<lparr>dl_ctr = sc_counter ctx, dl_v2 = Some ?meta, dl_payload = wire_message demo_crates False ctx [1, 2, 3], dl_src = demo_addr,
     dl_wire_session_hash = Some (sc_session_hash ctx)\<rparr>"
  obtain nd1 where nd1: "open_candidates demo_crates 0 ?dl (rc_node demo_rx) (snapshot_of (nd_sessions (rc_node demo_rx)) [[1]]) =
      (nd1, Some (open_ctx_of demo_sb, inner_frame [1, 2, 3]))"
    "nd_sessions nd1 [1] = Some (session_commit_open demo_sb (sc_epoch ctx) (sc_direction ctx)
       (plan_open demo_crates (se_ratchet demo_sb) (sc_epoch ctx) (sc_direction ctx) (sc_counter ctx)))"
    by (rule message_opens [OF demo_laws(1) demo_owner [OF c], of "[]" "[]" False ctx "[1, 2, 3]" _ ?dl 0]) (use ctx in auto)
  let ?b = "session_commit_open demo_sb (sc_epoch ctx) (sc_direction ctx)
       (plan_open demo_crates (se_ratchet demo_sb) (sc_epoch ctx) (sc_direction ctx) (sc_counter ctx))"
  obtain b2 where b2: "check_inbound ?b 0 (sc_counter ctx) = (b2, True)" using demo_accepts(1) by (metis prod.collapse)
  then have "is_pq_authenticated b2" using demo_accepts(2) by (auto simp: check_inbound_def is_pq_authenticated_def session_commit_open_def split: prod.splits)
  moreover have "oc_peer_fp (open_ctx_of demo_sb) = [1]" by (simp add: open_ctx_of_def demo_sb_def)
  ultimately have "\<exists>nd'. handle_data demo_crates 0 (\<lambda>_ _. None) demo_draw (\<lambda>_. zeros 12) False [[1]] (rc_node demo_rx) ?dl =
       Ok (nd', Application [1] (inner_frame [1, 2, 3]), [])"
    using nd1 b2 demo_epochs(1) [OF c] inner_frame_payload [of "[1, 2, 3]"]
    by (simp add: handle_data_def handle_plain_def demo_plain install_epoch_def replay_check_def demo_epochs(2) ctx_meta_def)
  then show ?thesis
    using applications_get_authenticated_payloads [of demo_crates 0 "\<lambda>_ _. None" demo_draw "\<lambda>_. zeros 12" False "[[1]]" "rc_node demo_rx" ?dl _ "[1]" "inner_frame [1, 2, 3]" "[]" ?meta]
    by (auto simp: demo_rx_def ctx_meta_def) 
qed

end
