(* ===== verification/Tunnel.thy ===== *)
theory Tunnel
  imports Relay Vouchers Deliver
begin

text \<open>
  What the daemon does with an application payload, the last part of \<open>handle_pkt\<close> in
  src/src/main.rs: peer exchange, chat, the relay branches, and the SOCKS tunnels between an initiator
  and an exit (CONNECT, OK, CLOSE and data frames), with \<open>handle_exit_connect\<close>. The channels are the
  lists of chunks put into them; a TCP connection attempt is a parameter; frames are sent directly (no
  fallback route).
\<close>

section \<open>Strings\<close>

text \<open>\<open>split_once\<close>, \<open>rsplit_once\<close>, \<open>strip_suffix\<close> for one ASCII character.\<close>

definition split_once :: "u8 \<Rightarrow> bytes \<Rightarrow> (bytes \<times> bytes) option" where
  "split_once c s = (if c \<in> set s then Some (takeWhile (\<lambda>b. b \<noteq> c) s, tl (dropWhile (\<lambda>b. b \<noteq> c) s)) else None)"

definition rsplit_once :: "u8 \<Rightarrow> bytes \<Rightarrow> (bytes \<times> bytes) option" where
  "rsplit_once c s = map_option (\<lambda>(a, b). (rev b, rev a)) (split_once c (rev s))"

definition strip_last :: "u8 \<Rightarrow> bytes \<Rightarrow> bytes option" where
  "strip_last c s = (if s \<noteq> [] \<and> last s = c then Some (butlast s) else None)"

text \<open>
  \<open>str::parse\<close> for an unsigned type with the given maximum: an optional plus sign, then at least one
  digit, and no overflow. \<open>dec\<close> is how such a number is printed.
\<close>

definition is_digit :: "u8 \<Rightarrow> bool" where "is_digit b \<longleftrightarrow> 48 \<le> b \<and> b \<le> 57"

definition digits_value :: "bytes \<Rightarrow> nat" where
  "digits_value s = foldl (\<lambda>a b. a * 10 + (unat b - 48)) 0 s"

definition parse_uint :: "nat \<Rightarrow> bytes \<Rightarrow> nat option" where
  "parse_uint bound s =
     (let d = (if s \<noteq> [] \<and> hd s = 43 \<and> tl s \<noteq> [] then tl s else s)
      in if d \<noteq> [] \<and> list_all is_digit d \<and> digits_value d \<le> bound then Some (digits_value d) else None)"

fun dec :: "nat \<Rightarrow> bytes" where
  "dec n = (if n < 10 then [of_nat (48 + n)] else dec (n div 10) @ [of_nat (48 + n mod 10)])"

declare dec.simps [simp del]

definition parse_u32 :: "bytes \<Rightarrow> u32 option" where "parse_u32 s = map_option of_nat (parse_uint (2 ^ 32 - 1) s)"
definition parse_u16 :: "bytes \<Rightarrow> u16 option" where "parse_u16 s = map_option of_nat (parse_uint (2 ^ 16 - 1) s)"

text \<open>The characters the protocol uses.\<close>

abbreviation "bang \<equiv> (33 :: u8)"
abbreviation "colon \<equiv> (58 :: u8)"
abbreviation "bar \<equiv> (124 :: u8)"

section \<open>Destinations\<close>

definition looks_like_dest :: "bytes \<Rightarrow> bool" where
  "looks_like_dest p =
     (let s = from_utf8_lossy p
      in case (case strip_prefix (ascii ''STREAM!'') s of
                 Some rest \<Rightarrow> map_option snd (split_once bang rest)
               | None \<Rightarrow> Some s) of
           None \<Rightarrow> False
         | Some target \<Rightarrow>
             (case (case strip_prefix (ascii ''EXITAUTH!'') target of
                      Some rest \<Rightarrow> map_option snd (split_once bang rest)
                    | None \<Rightarrow> Some target) of
                None \<Rightarrow> False
              | Some target \<Rightarrow>
                  (case rsplit_once colon target of
                     Some (h, port) \<Rightarrow> h \<noteq> [] \<and> parse_u16 port \<noteq> None
                   | None \<Rightarrow> False)))"

definition exit_tunnel_key :: "bytes \<Rightarrow> u32 \<Rightarrow> bytes" where
  "exit_tunnel_key sh stream_id = hex_encode sh @ [bar] @ dec (unat stream_id)"

text \<open>\<open>hex::decode\<close>.\<close>

definition hex_value :: "u8 \<Rightarrow> nat option" where
  "hex_value b =
     (if is_digit b then Some (unat b - 48)
      else if 97 \<le> b \<and> b \<le> 102 then Some (unat b - 87)
      else if 65 \<le> b \<and> b \<le> 70 then Some (unat b - 55) else None)"

fun hex_decode :: "bytes \<Rightarrow> bytes option" where
  "hex_decode [] = Some []"
| "hex_decode [_] = None"
| "hex_decode (a # b # r) =
     (case (hex_value a, hex_value b, hex_decode r) of
        (Some x, Some y, Some bs) \<Rightarrow> Some (of_nat (16 * x + y) # bs)
      | _ \<Rightarrow> None)"

section \<open>The state of the tunnels\<close>

record exit_tunnel =
  et_out_tx :: "bytes list"
  et_rx :: rx_state
  et_session_hash :: bytes

record tunnels =
  tn_exit_tunnels :: "bytes \<rightharpoonup> exit_tunnel"
  tn_sessions_rx :: "bytes \<times> u32 \<rightharpoonup> bytes list"
  tn_connect_acks :: "bytes \<times> u32 \<rightharpoonup> bool"
  tn_connect_ok_ctrs :: "bytes \<times> u32 \<rightharpoonup> u64"
  tn_rx_state :: "bytes \<times> u32 \<rightharpoonup> rx_state"

text \<open>The stream number of an OK payload, and of a CLOSE payload.\<close>

definition ok_stream :: "bytes \<Rightarrow> u32" where
  "ok_stream payload =
     (if starts_with (ascii ''OK!'') payload
      then (case strip_prefix (ascii ''OK!'') (from_utf8_lossy payload) of
              None \<Rightarrow> 0
            | Some r \<Rightarrow> (case strip_last bang r of
                           None \<Rightarrow> 0
                         | Some id_str \<Rightarrow> (case parse_u32 id_str of Some n \<Rightarrow> n | None \<Rightarrow> 0)))
      else 0)"

definition close_stream :: "bytes \<Rightarrow> u32 option" where
  "close_stream payload =
     (case strip_prefix (ascii ''CLOSE!'') (from_utf8_lossy payload) of
        None \<Rightarrow> None
      | Some r \<Rightarrow> (case strip_last bang r of None \<Rightarrow> None | Some id_str \<Rightarrow> parse_u32 id_str))"

definition note_ok :: "tunnels \<Rightarrow> bytes \<Rightarrow> u32 \<Rightarrow> u64 \<Rightarrow> tunnels" where
  "note_ok tn sh stream_id ctr =
     tn\<lparr>tn_connect_acks := (tn_connect_acks tn)((sh, stream_id) \<mapsto> True),
        tn_connect_ok_ctrs := (tn_connect_ok_ctrs tn)((sh, stream_id) \<mapsto> ctr),
        tn_rx_state := (tn_rx_state tn)((sh, stream_id) := None)\<rparr>"

definition close_all :: "tunnels \<Rightarrow> bytes \<Rightarrow> u32 \<Rightarrow> tunnels" where
  "close_all tn sh sid =
     tn\<lparr>tn_exit_tunnels := (tn_exit_tunnels tn)(exit_tunnel_key sh sid := None),
        tn_sessions_rx := (tn_sessions_rx tn)((sh, sid) := None),
        tn_connect_acks := (tn_connect_acks tn)((sh, sid) := None),
        tn_rx_state := (tn_rx_state tn)((sh, sid) := None)\<rparr>"

definition stream_of :: "bytes \<Rightarrow> u32 \<times> bytes" where
  "stream_of payload =
     (if length payload \<ge> 4 \<and> \<not> looks_like_dest payload then (u32_be (take 4 payload), drop 4 payload) else (0, payload))"

text \<open>A chunk into an exit tunnel, and into the initiator's channel, whose window is anchored after the OK.\<close>

definition push_exit :: "tunnels \<Rightarrow> bytes \<Rightarrow> exit_tunnel \<Rightarrow> u64 \<Rightarrow> bytes \<Rightarrow> tunnels" where
  "push_exit tn tkey t ctr inner_data =
     (case rx_push (et_rx t) ctr inner_data of
        (rx, flush) \<Rightarrow> tn\<lparr>tn_exit_tunnels := (tn_exit_tunnels tn)(tkey \<mapsto> t\<lparr>et_rx := rx, et_out_tx := et_out_tx t @ flush\<rparr>)\<rparr>)"

definition push_session :: "tunnels \<Rightarrow> bytes \<times> u32 \<Rightarrow> bytes list \<Rightarrow> u64 \<Rightarrow> bytes \<Rightarrow> tunnels" where
  "push_session tn key tx ctr inner_data =
     (let st = (case tn_rx_state tn key of Some st \<Rightarrow> st | None \<Rightarrow> rx_default);
          st = (if rx_next st = None
                then (case tn_connect_ok_ctrs tn key of Some k \<Rightarrow> st\<lparr>rx_next := Some (k + 1)\<rparr> | None \<Rightarrow> st)
                else st)
      in case rx_push st ctr inner_data of
           (st, flush) \<Rightarrow> tn\<lparr>tn_rx_state := (tn_rx_state tn)(key \<mapsto> st), tn_sessions_rx := (tn_sessions_rx tn)(key \<mapsto> tx @ flush)\<rparr>)"

section \<open>The exit side\<close>

text \<open>
  The environment of an exit: the allowlist variable and the voucher switch, the clock, and whether a
  TCP connection to a host and port succeeds.
\<close>

record exit_env =
  ee_allowlist :: bytes
  ee_require_voucher :: bool
  ee_now :: u64
  ee_connect :: "bytes \<Rightarrow> u16 \<Rightarrow> bool"

record exit_request =
  er_stream_id :: u32
  er_voucher :: "bytes option"
  er_host :: bytes
  er_port :: u16

definition parse_exit_request :: "bytes \<Rightarrow> exit_request option" where
  "parse_exit_request dest =
     (let raw_request = from_utf8_lossy dest;
          (stream_id, request) =
            (case strip_prefix (ascii ''STREAM!'') raw_request of
               Some rest \<Rightarrow>
                 (case split_once bang rest of
                    Some (sid_str, actual_dest) \<Rightarrow> ((case parse_u32 sid_str of Some n \<Rightarrow> n | None \<Rightarrow> 0), actual_dest)
                  | None \<Rightarrow> (0, raw_request))
             | None \<Rightarrow> (0, raw_request));
          (voucher, dest) =
            (case strip_prefix (ascii ''EXITAUTH!'') request of
               Some rest \<Rightarrow>
                 (case split_once bang rest of
                    Some (encoded, target) \<Rightarrow> (hex_decode encoded, target)
                  | None \<Rightarrow> (None, request))
             | None \<Rightarrow> (None, request))
      in case rsplit_once colon dest of
           None \<Rightarrow> None
         | Some (h, p) \<Rightarrow>
             (case parse_u16 p of
                None \<Rightarrow> None
              | Some port \<Rightarrow> Some \<lparr>er_stream_id = stream_id, er_voucher = voucher, er_host = h, er_port = port\<rparr>))"

text \<open>The checks before a socket is opened: the policy, and where required a capability of this exit's own.\<close>

definition exit_permits :: "crates \<Rightarrow> exit_env \<Rightarrow> ghost_identity \<Rightarrow> bytes \<Rightarrow> exit_request \<Rightarrow> bool" where
  "exit_permits C env identity peer_fp rq =
     (if \<not> policy_allows (policy_from_env (ee_allowlist env)) (er_host rq) then False
      else if \<not> ee_require_voucher env then True
      else case er_voucher rq of
        None \<Rightarrow> False
      | Some raw_voucher \<Rightarrow>
          (case exit_decode raw_voucher of
             None \<Rightarrow> False
           | Some capability \<Rightarrow>
               ec_issuer_pk capability = public_key_bytes C identity \<and>
               exit_verify C capability (ee_now env) peer_fp (er_host rq)))"

text \<open>The context for a peer, which is made up when its session is gone.\<close>

definition seal_ctx_for :: "crates \<Rightarrow> bytes \<Rightarrow> bytes \<Rightarrow> bytes \<Rightarrow> node \<Rightarrow> bytes \<Rightarrow> node \<times> seal_ctx" where
  "seal_ctx_for C key sh nonce nd fp =
     (case nd_sessions nd fp of
        Some s \<Rightarrow> (case ctx_from_session C s nonce of (s', ctx) \<Rightarrow> (put_session nd fp (Some s'), ctx))
      | None \<Rightarrow> (nd, \<lparr>sc_key = key, sc_epoch = 0, sc_counter = 2, sc_nonce = nonce, sc_direction = ResponderToInitiator,
                        sc_session_hash = sh, sc_ratchet_due = False\<rparr>))"

text \<open>A payload back to the initiator through the relay it came by, and straight to it.\<close>

definition relayed_blob :: "crates \<Rightarrow> bytes \<Rightarrow> u64 \<Rightarrow> bytes \<Rightarrow> bytes \<Rightarrow> bytes" where
  "relayed_blob C key dctr wire_nonce payload =
     be_u64 dctr @ wire_nonce @ xchacha_seal_in_place C key wire_nonce 0 ResponderToInitiator (inner_frame payload)"

definition send_relayed ::
  "crates \<Rightarrow> bool \<Rightarrow> bytes \<Rightarrow> bytes \<Rightarrow> (nat \<Rightarrow> bytes) \<Rightarrow> node \<Rightarrow> bytes \<Rightarrow> bytes \<Rightarrow> sock_addr \<Rightarrow> bytes \<Rightarrow>
   (node \<times> sock_addr \<times> bytes list, unit) rust" where
  "send_relayed C shardsec key sh nonces nd peer_fp relay_fp src payload =
     (let (nd, dctr) = (case nd_sessions nd peer_fp of
                          Some s \<Rightarrow> (case next_tx_counter s of (s', n) \<Rightarrow> (put_session nd peer_fp (Some s'), n))
                        | None \<Rightarrow> (nd, 2));
          relay_envelope = build_relay_packet peer_fp 1 (relayed_blob C key dctr (nonces 0) payload);
          relay_tgt = (case nd_peers nd relay_fp of Some a \<Rightarrow> a | None \<Rightarrow> src);
          (nd, relay_ctx) = seal_ctx_for C key sh (nonces 1) nd relay_fp
      in case enc_split C shardsec relay_ctx relay_envelope of
           Ok (f, tag) \<Rightarrow>
             (case send3 C shardsec relay_ctx f tag of Ok frames \<Rightarrow> Ok (nd, relay_tgt, frames) | _ \<Rightarrow> Panic)
         | _ \<Rightarrow> Panic)"

definition ok_payload :: "u32 \<Rightarrow> bytes" where
  "ok_payload stream_id = (if stream_id > 0 then ascii ''OK!'' @ dec (unat stream_id) @ [bang] else ascii ''OK'')"

datatype exit_outcome = BadRequest | Denied | ConnectFailed | Connected exit_request sock_addr "bytes list"

definition handle_exit_connect ::
  "crates \<Rightarrow> bool \<Rightarrow> exit_env \<Rightarrow> (nat \<Rightarrow> bytes) \<Rightarrow> node \<Rightarrow> tunnels \<Rightarrow> sock_addr \<Rightarrow> bytes \<Rightarrow> bytes \<Rightarrow> bytes \<Rightarrow> bytes option \<Rightarrow>
   bytes \<Rightarrow> u64 \<Rightarrow> (node \<times> tunnels \<times> exit_outcome, unit) rust" where
  "handle_exit_connect C shardsec env nonces nd tn src key sh peer_fp via_relay dest connect_ctr =
     (case parse_exit_request dest of
        None \<Rightarrow> Ok (nd, tn, BadRequest)
      | Some rq \<Rightarrow>
          if \<not> exit_permits C env (nd_identity nd) peer_fp rq then Ok (nd, tn, Denied)
          else if \<not> ee_connect env (er_host rq) (er_port rq) then Ok (nd, tn, ConnectFailed)
          else
            (let (nd, ok_ctx) = seal_ctx_for C key sh (nonces 0) nd peer_fp;
                 tkey = exit_tunnel_key sh (er_stream_id rq);
                 t = \<lparr>et_out_tx = [], et_rx = rx_default\<lparr>rx_next := Some (connect_ctr + 1)\<rparr>, et_session_hash = sh\<rparr>;
                 tn = tn\<lparr>tn_exit_tunnels := (tn_exit_tunnels tn)(tkey \<mapsto> t)\<rparr>
             in case (case via_relay of
                        Some relay_fp \<Rightarrow> send_relayed C shardsec key sh (nonces \<circ> Suc) nd peer_fp relay_fp src (ok_payload (er_stream_id rq))
                      | None \<Rightarrow> (case enc_split C shardsec ok_ctx (ok_payload (er_stream_id rq)) of
                                   Ok (f, tag) \<Rightarrow>
                                     (case send3 C shardsec ok_ctx f tag of Ok frames \<Rightarrow> Ok (nd, src, frames) | _ \<Rightarrow> Panic)
                                 | _ \<Rightarrow> Panic)) of
                  Ok (nd, dst, frames) \<Rightarrow> Ok (nd, tn, Connected rq dst frames)
                | Err e \<Rightarrow> Err e
                | Panic \<Rightarrow> Panic))"

section \<open>Peer exchange\<close>

definition GHOST_PEX_MAGIC :: bytes where "GHOST_PEX_MAGIC = ascii ''GHOST_PEX_____''"
definition MAX_PEX_PEERS :: nat where "MAX_PEX_PEERS = 32"

definition trim_nul :: "bytes \<Rightarrow> bytes" where "trim_nul s = rev (dropWhile (\<lambda>b. b = 0) (rev s))"

text \<open>
  The gossip of one node: its peers in the order the map is walked, without the receiver. Addresses
  are printed and read by the standard library, which is a parameter here.
\<close>

definition pex_entry :: "(sock_addr \<Rightarrow> bytes) \<Rightarrow> bytes \<times> sock_addr \<Rightarrow> bytes" where
  "pex_entry show_addr e =
     (let fp_bytes = fst e; fp_len = min (length fp_bytes) 16
      in copy_at 0 (take fp_len fp_bytes) (zeros 16) @ show_addr (snd e) @ [0])"

definition pex_payload :: "(sock_addr \<Rightarrow> bytes) \<Rightarrow> bytes \<Rightarrow> (bytes \<times> sock_addr) list \<Rightarrow> bytes" where
  "pex_payload show_addr dest_fp peer_map =
     (let peer_list = take MAX_PEX_PEERS (filter (\<lambda>e. fst e \<noteq> dest_fp) peer_map)
      in GHOST_PEX_MAGIC @ [of_nat (length peer_list)] @ concat (map (pex_entry show_addr) peer_list))"

definition send_pex ::
  "crates \<Rightarrow> bool \<Rightarrow> (sock_addr \<Rightarrow> bytes) \<Rightarrow> bytes \<Rightarrow> node \<Rightarrow> bytes \<Rightarrow> (bytes \<times> sock_addr) list \<Rightarrow>
   (node \<times> (sock_addr \<times> bytes list) option, unit) rust" where
  "send_pex C shardsec show_addr nonce nd dest_fp peer_map =
     (case nd_sessions nd dest_fp of
        None \<Rightarrow> Ok (nd, None)
      | Some sess \<Rightarrow>
          (case nd_peers nd dest_fp of
             None \<Rightarrow> Ok (nd, None)
           | Some dest_addr \<Rightarrow>
               (case ctx_from_session C sess nonce of
                  (sess', ctx) \<Rightarrow>
                    (case enc_split C shardsec ctx (pex_payload show_addr dest_fp peer_map) of
                       Ok (f, tag) \<Rightarrow> Ok (put_session nd dest_fp (Some sess'), Some (dest_addr, send3_mixed C shardsec ctx f tag))
                     | _ \<Rightarrow> Panic))))"

text \<open>Reading it: \<open>n\<close> entries at most, from the position on.\<close>

fun pex_entries :: "nat \<Rightarrow> bytes \<Rightarrow> (bytes \<times> bytes) list" where
  "pex_entries 0 rest = []"
| "pex_entries (Suc n) rest =
     (if length rest < 16 then []
      else
        (let fp = trim_nul (from_utf8_lossy (take 16 rest));
             body = drop 16 rest;
             addr = until_nul body
         in (fp, from_utf8_lossy addr) # pex_entries n (drop (length addr + 1) body)))"

definition pex_learn :: "(bytes \<Rightarrow> sock_addr option) \<Rightarrow> bytes \<Rightarrow> (bytes \<Rightarrow> bool) \<Rightarrow> bytes \<Rightarrow> sock_addr list" where
  "pex_learn parse_addr own known body =
     (if body = [] then []
      else List.map_filter (\<lambda>(fp, addr_str). if fp = own \<or> known fp then None else parse_addr addr_str)
             (pex_entries (unat (hd body)) (tl body)))"

section \<open>The dispatch of application payloads\<close>

datatype app_outcome =
  Unframed
| LearnPeers "sock_addr list"
| Chat bytes
| BlindIgnored
| BlindRefused drop_reason
| BlindSent sock_addr bytes
| OnionDropped
| OnionSent sock_addr "bytes list"
| RelayTooShort
| RelayUnopened
| Acknowledged
| Closed
| Pushed
| ExitDenied
| Exit exit_outcome
| NoStream

definition exit_allowed :: "bytes set \<Rightarrow> bytes \<Rightarrow> bool" where
  "exit_allowed trusted_exits fp \<longleftrightarrow> ascii ''any'' \<in> trusted_exits \<or> fp \<in> trusted_exits"

text \<open>
  What the handler is given: the peer and session the payload was opened for, its counter, where it
  came from, and the surroundings.
\<close>

record app_context =
  ap_peer_fp :: bytes
  ap_key :: bytes
  ap_session_hash :: bytes
  ap_role :: session_role
  ap_ctr :: u64
  ap_src :: sock_addr
  ap_trusted_exits :: "bytes set"
  ap_env :: exit_env
  ap_nonces :: "nat \<Rightarrow> bytes"
  ap_shardsec :: bool

text \<open>OK, CLOSE and data frames; \<open>connect\<close> is what is done with a CONNECT request when no tunnel matches.\<close>

definition close_or_keep :: "tunnels \<Rightarrow> bytes \<Rightarrow> bytes \<Rightarrow> tunnels" where
  "close_or_keep tn sh payload = (case close_stream payload of Some sid \<Rightarrow> close_all tn sh sid | None \<Rightarrow> tn)"

definition is_ok :: "bytes \<Rightarrow> bool" where
  "is_ok payload \<longleftrightarrow> payload = ascii ''OK'' \<or> starts_with (ascii ''OK!'') payload"

definition tunnel_payload ::
  "crates \<Rightarrow> app_context \<Rightarrow> node \<Rightarrow> tunnels \<Rightarrow> bytes \<Rightarrow> (node \<times> tunnels \<times> app_outcome, unit) rust" where
  "tunnel_payload C ap nd tn payload =
     (let sh = ap_session_hash ap
      in if is_ok payload then Ok (nd, note_ok tn sh (ok_stream payload) (ap_ctr ap), Acknowledged)
         else if starts_with (ascii ''CLOSE!'') payload then Ok (nd, close_or_keep tn sh payload, Closed)
         else
           (let (stream_id, inner_data) = stream_of payload;
                tkey = exit_tunnel_key sh stream_id
            in case tn_exit_tunnels tn tkey of
                 Some t \<Rightarrow> Ok (nd, push_exit tn tkey t (ap_ctr ap) inner_data, Pushed)
               | None \<Rightarrow>
                   if ap_role ap = Responder \<and> looks_like_dest payload then
                     (if \<not> exit_allowed (ap_trusted_exits ap) (ap_peer_fp ap) then Ok (nd, tn, ExitDenied)
                      else case handle_exit_connect C (ap_shardsec ap) (ap_env ap) (ap_nonces ap) nd tn (ap_src ap) (ap_key ap) sh
                                  (ap_peer_fp ap) None payload (ap_ctr ap) of
                             Ok (nd, tn, r) \<Rightarrow> Ok (nd, tn, Exit r)
                           | Err e \<Rightarrow> Err e
                           | Panic \<Rightarrow> Panic)
                   else if ap_ctr ap \<ge> 3 then
                     (case tn_sessions_rx tn (sh, stream_id) of
                        Some tx \<Rightarrow> Ok (nd, push_session tn (sh, stream_id) tx (ap_ctr ap) inner_data, Pushed)
                      | None \<Rightarrow> Ok (nd, tn, NoStream))
                   else Ok (nd, tn, NoStream)))"

text \<open>The same for a payload that came through a relay and was opened for the session \<open>c\<close> with counter \<open>ic\<close>.\<close>

definition relayed_payload ::
  "crates \<Rightarrow> app_context \<Rightarrow> node \<Rightarrow> tunnels \<Rightarrow> u64 \<Rightarrow> open_ctx \<Rightarrow> bytes \<Rightarrow> (node \<times> tunnels \<times> app_outcome, unit) rust" where
  "relayed_payload C ap nd tn ic c payload =
     (let sh = oc_session_hash c; fp2 = oc_peer_fp c;
          initiator_addr = (case nd_peers nd fp2 of Some a \<Rightarrow> a | None \<Rightarrow> ap_src ap)
      in if (oc_role c = Responder \<or> starts_with (ascii ''STREAM!'') payload) \<and> looks_like_dest payload then
           (if \<not> exit_allowed (ap_trusted_exits ap) fp2 then Ok (nd, tn, ExitDenied)
            else case handle_exit_connect C (ap_shardsec ap) (ap_env ap) (ap_nonces ap) nd tn initiator_addr (oc_master_key c) sh
                        fp2 (Some (ap_peer_fp ap)) payload ic of
                   Ok (nd, tn, r) \<Rightarrow> Ok (nd, tn, Exit r)
                 | Err e \<Rightarrow> Err e
                 | Panic \<Rightarrow> Panic)
         else if is_ok payload then Ok (nd, note_ok tn sh (ok_stream payload) ic, Acknowledged)
         else if starts_with (ascii ''CLOSE!'') payload then Ok (nd, close_or_keep tn sh payload, Closed)
         else
           (let (stream_id, inner_data) = stream_of payload;
                tkey = exit_tunnel_key sh stream_id
            in case tn_exit_tunnels tn tkey of
                 Some t \<Rightarrow> Ok (nd, push_exit tn tkey t ic inner_data, Pushed)
               | None \<Rightarrow>
                   (case tn_sessions_rx tn (sh, stream_id) of
                      Some tx \<Rightarrow> Ok (nd, push_session tn (sh, stream_id) tx ic inner_data, Pushed)
                    | None \<Rightarrow> Ok (nd, tn, NoStream))))"

text \<open>
  The whole chain: peer exchange, chat, blind envelopes, onions, tunnels. \<open>evicted\<close> and \<open>byzantine\<close> are
  the two checks of a relay request; \<open>order\<close> is the order the sessions are walked in.
\<close>

definition app_dispatch ::
  "crates \<Rightarrow> (bytes \<Rightarrow> sock_addr option) \<Rightarrow> (bytes \<Rightarrow> bool) \<Rightarrow> (bytes \<Rightarrow> bool) \<Rightarrow> u64 \<Rightarrow> bytes list \<Rightarrow> app_context \<Rightarrow>
   node \<Rightarrow> tunnels \<Rightarrow> derp_relay option \<Rightarrow> bytes \<Rightarrow> (node \<times> tunnels \<times> derp_relay option \<times> app_outcome, unit) rust" where
  "app_dispatch C parse_addr evicted byzantine clock order ap nd tn relay_role pt =
     (case frame_payload pt of
        None \<Rightarrow> Ok (nd, tn, relay_role, Unframed)
      | Some payload \<Rightarrow>
          if starts_with GHOST_PEX_MAGIC payload then
            Ok (nd, tn, relay_role, LearnPeers (pex_learn parse_addr (fingerprint C (nd_identity nd)) (\<lambda>fp. nd_peers nd fp \<noteq> None)
              (drop (length GHOST_PEX_MAGIC) payload)))
          else if starts_with (ascii ''CHAT!'') payload then
            Ok (nd, tn, relay_role, Chat (trim_nul (from_utf8_lossy (drop 5 payload))))
          else case parse_blind_frame payload of
            Some _ \<Rightarrow>
              (case relay_role of
                 None \<Rightarrow> Ok (nd, tn, None, BlindIgnored)
               | Some r \<Rightarrow>
                   (case derp_forward r clock (ap_peer_fp ap) payload of
                      (r, Deliver dest b) \<Rightarrow> Ok (nd, tn, Some r, BlindSent dest b)
                    | (r, Dropped reason) \<Rightarrow> Ok (nd, tn, Some r, BlindRefused reason)))
          | None \<Rightarrow>
              (case parse_relay_header payload of
                 Some relay \<Rightarrow>
                   if rh_remaining_hops relay > 0 then
                     (case forward_onion C (ap_shardsec ap) evicted byzantine (ap_nonces ap 0) nd (ap_peer_fp ap) relay of
                        Ok (nd, None) \<Rightarrow> Ok (nd, tn, relay_role, OnionDropped)
                      | Ok (nd, Some (tgt, frames)) \<Rightarrow> Ok (nd, tn, relay_role, OnionSent tgt frames)
                      | Err e \<Rightarrow> Err e
                      | Panic \<Rightarrow> Panic)
                   else if length (rh_inner_payload relay) < 20 + 16 then Ok (nd, tn, relay_role, RelayTooShort)
                   else
                     (case relay_final_hop C order nd relay of
                        None \<Rightarrow> Ok (nd, tn, relay_role, RelayUnopened)
                      | Some (ic, c, plain) \<Rightarrow>
                          (case frame_payload plain of
                             None \<Rightarrow> Ok (nd, tn, relay_role, Unframed)
                           | Some inner \<Rightarrow>
                               (case relayed_payload C ap nd tn ic c inner of
                                  Ok (nd, tn, r) \<Rightarrow> Ok (nd, tn, relay_role, r)
                                | Err e \<Rightarrow> Err e
                                | Panic \<Rightarrow> Panic)))
               | None \<Rightarrow>
                   (case tunnel_payload C ap nd tn payload of
                      Ok (nd, tn, r) \<Rightarrow> Ok (nd, tn, relay_role, r)
                    | Err e \<Rightarrow> Err e
                    | Panic \<Rightarrow> Panic)))"

section \<open>Numbers and keys\<close>

lemma digits_value_snoc [simp]: "digits_value (s @ [b]) = digits_value s * 10 + (unat b - 48)"
  by (simp add: digits_value_def)

lemma digit_byte: "d < 10 \<Longrightarrow> is_digit (of_nat (48 + d)) \<and> unat (of_nat (48 + d) :: u8) = 48 + d"
  unfolding is_digit_def word_le_nat_alt unat_of_nat by simp

lemma dec_digits: "dec n \<noteq> [] \<and> list_all is_digit (dec n) \<and> digits_value (dec n) = n"
proof (induction n rule: dec.induct)
  case (1 n)
  show ?case
  proof (cases "n < 10")
    case True
    then show ?thesis using digit_byte [of n] by (simp add: dec.simps [of n] digits_value_def)
  next
    case False
    then show ?thesis using 1 digit_byte [of "n mod 10"] by (subst (1 2 3) dec.simps) simp
  qed
qed

lemma parse_dec: "n \<le> m \<Longrightarrow> parse_uint m (dec n) = Some n"
proof -
  have "is_digit (hd (dec n))" using dec_digits [of n] by (cases "dec n") auto
  then have "hd (dec n) \<noteq> 43" by (auto simp: is_digit_def)
  then show "n \<le> m \<Longrightarrow> ?thesis" using dec_digits [of n] by (simp add: parse_uint_def)
qed

lemma dec_inject: "dec m = dec n \<longleftrightarrow> m = n"
  by (metis dec_digits)

lemma parse_u32_dec [simp]: "parse_u32 (dec (unat x)) = Some x"
  using unat_bound [of x] by (simp add: parse_u32_def parse_dec)

lemma hex_digit_value: "d < 16 \<Longrightarrow> hex_value (hex_digit d) = Some d"
proof -
  assume "d < 16"
  then have "d \<in> set [0..<16]" by simp
  then show ?thesis
    by (auto simp: hex_digit_def hex_value_def is_digit_def upt_rec word_le_nat_alt unat_of_nat)
qed

lemma hex_decode_encode: "hex_decode (hex_encode bs) = Some bs"
proof (induction bs)
  case (Cons b bs)
  have b: "unat b < 256" using unat_bound [of b] by simp
  have "(of_nat (16 * (unat b div 16) + unat b mod 16) :: u8) = b" by (simp only: mult_div_mod_eq) simp
  moreover from b have "unat b div 16 < 16" "unat b mod 16 < 16" by auto
  ultimately show ?case using Cons by (simp add: hex_encode_def hex_digit_value)
qed (simp add: hex_encode_def)

lemma length_hex [simp]: "length (hex_encode bs) = 2 * length bs"
  by (induction bs) (simp_all add: hex_encode_def)

lemma tunnel_key_inject:
  "length sh = length sh' \<Longrightarrow> exit_tunnel_key sh sid = exit_tunnel_key sh' sid' \<longleftrightarrow> sh = sh' \<and> sid = sid'"
  by (auto simp: exit_tunnel_key_def dec_inject word_unat_eq_iff) (metis hex_decode_encode option.inject)

section \<open>Who gets out\<close>

text \<open>What has to hold for an exit to connect for a peer.\<close>

definition exit_authorised :: "crates \<Rightarrow> bytes set \<Rightarrow> exit_env \<Rightarrow> ghost_identity \<Rightarrow> bytes \<Rightarrow> exit_request \<Rightarrow> bool" where
  "exit_authorised C trusted_exits env identity fp rq \<longleftrightarrow>
     (ascii ''any'' \<in> trusted_exits \<or> fp \<in> trusted_exits) \<and>
     policy_allows (policy_from_env (ee_allowlist env)) (er_host rq) \<and>
     (ee_require_voucher env \<longrightarrow>
        (\<exists>raw cap m. er_voucher rq = Some raw \<and> exit_encode cap = Some raw \<and> exit_cap_ok cap \<and>
           ec_issuer_pk cap = public_key_bytes C identity \<and> ec_subject cap = fp \<and> ec_scope cap = er_host rq \<and>
           ee_now env \<le> ec_expires_at cap \<and> exit_signing_bytes fp (er_host rq) (ec_expires_at cap) = Some m \<and>
           verify_peer_signature C (public_key_bytes C identity) m (ec_signature cap)))"

lemma exit_permits_authorised:
  assumes "exit_allowed trusted_exits fp" and "exit_permits C env identity fp rq"
  shows "exit_authorised C trusted_exits env identity fp rq"
proof -
  have "\<exists>raw cap m. er_voucher rq = Some raw \<and> exit_encode cap = Some raw \<and> exit_cap_ok cap \<and>
      ec_issuer_pk cap = public_key_bytes C identity \<and> ec_subject cap = fp \<and> ec_scope cap = er_host rq \<and>
      ee_now env \<le> ec_expires_at cap \<and> exit_signing_bytes fp (er_host rq) (ec_expires_at cap) = Some m \<and>
      verify_peer_signature C (public_key_bytes C identity) m (ec_signature cap)" if "ee_require_voucher env"
  proof -
    obtain raw cap where v: "er_voucher rq = Some raw" "exit_decode raw = Some cap" "ec_issuer_pk cap = public_key_bytes C identity"
      "exit_verify C cap (ee_now env) fp (er_host rq)"
      using assms(2) \<open>ee_require_voucher env\<close> by (auto simp: exit_permits_def split: if_splits option.splits)
    have "exit_cap_ok cap" "exit_encode cap = Some raw" using exit_decode_exact [OF v(2)] by auto
    moreover obtain m where "exit_signing_bytes fp (er_host rq) (ec_expires_at cap) = Some m" "ec_subject cap = fp"
      "ec_scope cap = er_host rq" "ee_now env \<le> ec_expires_at cap" "verify_peer_signature C (public_key_bytes C identity) m (ec_signature cap)"
      using v(3,4) by (auto simp: exit_verify_def not_less split: if_splits option.splits)
    ultimately show ?thesis using v(1,3) by blast
  qed
  then show ?thesis using assms by (auto simp: exit_authorised_def exit_permits_def exit_allowed_def split: if_splits)
qed

lemma connect_adds:
  assumes "handle_exit_connect C sec env nonces nd tn src key sh fp via dest ctr = Ok (nd', tn', r)"
  shows "(\<exists>rq dst frames. r = Connected rq dst frames \<and> parse_exit_request dest = Some rq \<and>
      exit_permits C env (nd_identity nd) fp rq \<and> ee_connect env (er_host rq) (er_port rq) \<and>
      tn' = tn\<lparr>tn_exit_tunnels := (tn_exit_tunnels tn)(exit_tunnel_key sh (er_stream_id rq) \<mapsto>
        \<lparr>et_out_tx = [], et_rx = rx_default\<lparr>rx_next := Some (ctr + 1)\<rparr>, et_session_hash = sh\<rparr>)\<rparr>) \<or>
    (\<forall>rq dst frames. r \<noteq> Connected rq dst frames) \<and> tn' = tn"
proof (cases "parse_exit_request dest")
  case (Some rq)
  show ?thesis
  proof (cases "exit_permits C env (nd_identity nd) fp rq \<and> ee_connect env (er_host rq) (er_port rq)")
    case True
    then show ?thesis using assms Some by (auto simp: handle_exit_connect_def Let_def split: prod.splits rust.splits)
  next
    case False
    then have "tn' = tn \<and> (r = Denied \<or> r = ConnectFailed)" using assms Some by (auto simp: handle_exit_connect_def split: if_splits)
    then show ?thesis by auto
  qed
qed (use assms in \<open>auto simp: handle_exit_connect_def\<close>)

text \<open>Only CONNECT adds an exit tunnel; the other operations keep the set of keys or shrink it.\<close>

lemma tunnel_ops_dom:
  "tn_exit_tunnels (note_ok tn sh sid c) = tn_exit_tunnels tn"
  "dom (tn_exit_tunnels (close_or_keep tn sh p)) \<subseteq> dom (tn_exit_tunnels tn)"
  "tn_exit_tunnels tn k = Some t \<Longrightarrow> dom (tn_exit_tunnels (push_exit tn k t c d)) = dom (tn_exit_tunnels tn)"
  "tn_exit_tunnels (push_session tn key tx c d) = tn_exit_tunnels tn"
  by (auto simp: note_ok_def close_or_keep_def close_all_def push_exit_def push_session_def Let_def
      split: option.split prod.split if_splits)

definition opened_by :: "crates \<Rightarrow> app_context \<Rightarrow> ghost_identity \<Rightarrow> bytes \<Rightarrow> app_outcome \<Rightarrow> bool" where
  "opened_by C ap identity fp out \<longleftrightarrow>
     (\<exists>rq dst frames. out = Exit (Connected rq dst frames) \<and> ee_connect (ap_env ap) (er_host rq) (er_port rq) \<and>
        exit_authorised C (ap_trusted_exits ap) (ap_env ap) identity fp rq)"

lemma connect_opens:
  assumes "handle_exit_connect C sec (ap_env ap) nonces nd tn src key sh fp via dest ctr = Ok (nd', tn', r)"
    and "exit_allowed (ap_trusted_exits ap) fp" and "k \<in> dom (tn_exit_tunnels tn')" "k \<notin> dom (tn_exit_tunnels tn)"
  shows "opened_by C ap (nd_identity nd) fp (Exit r)"
  using connect_adds [OF assms(1)] assms(3,4) exit_permits_authorised [OF assms(2)] by (auto simp: opened_by_def)

lemma direct_payload_opens:
  assumes "tunnel_payload C ap nd tn payload = Ok (nd', tn', out)"
    and "k \<in> dom (tn_exit_tunnels tn')" "k \<notin> dom (tn_exit_tunnels tn)"
  shows "opened_by C ap (nd_identity nd) (ap_peer_fp ap) out"
proof -
  obtain sid d where s: "stream_of payload = (sid, d)" by force
  have ok: "\<not> is_ok payload"
    using assms tunnel_ops_dom(1) by (cases "is_ok payload") (auto simp: tunnel_payload_def Let_def)
  moreover have "\<not> starts_with (ascii ''CLOSE!'') payload"
    using assms ok tunnel_ops_dom(2) [of tn "ap_session_hash ap" payload]
    by (cases "starts_with (ascii ''CLOSE!'') payload") (auto simp: tunnel_payload_def Let_def)
  ultimately have ne: "\<not> is_ok payload"
    "\<not> starts_with (ascii ''CLOSE!'') payload" by auto
  show ?thesis
  proof (cases "tn_exit_tunnels tn (exit_tunnel_key (ap_session_hash ap) sid)")
    case (Some t)
    then have "tn' = push_exit tn (exit_tunnel_key (ap_session_hash ap) sid) t (ap_ctr ap) d"
      using assms(1) ne by (simp add: tunnel_payload_def Let_def s)
    then show ?thesis using tunnel_ops_dom(3) [OF Some] assms(2,3) by simp
  next
    case None
    show ?thesis
    proof (cases "ap_role ap = Responder \<and> looks_like_dest payload \<and> exit_allowed (ap_trusted_exits ap) (ap_peer_fp ap)")
      case True
      then obtain r where r: "out = Exit r" "handle_exit_connect C (ap_shardsec ap) (ap_env ap) (ap_nonces ap) nd tn (ap_src ap)
          (ap_key ap) (ap_session_hash ap) (ap_peer_fp ap) None payload (ap_ctr ap) = Ok (nd', tn', r)"
        using assms(1) ne None by (auto simp: tunnel_payload_def Let_def s split: rust.splits)
      show ?thesis using connect_opens [OF r(2) _ assms(2,3)] True r(1) by simp
    next
      case False
      then have "tn_exit_tunnels tn' = tn_exit_tunnels tn"
        using assms(1) ne None tunnel_ops_dom(4) by (auto simp: tunnel_payload_def Let_def s split: option.splits if_splits)
      then show ?thesis using assms(2,3) by simp
    qed
  qed
qed

lemma relayed_payload_opens:
  assumes "relayed_payload C ap nd tn ic c payload = Ok (nd', tn', out)"
    and "k \<in> dom (tn_exit_tunnels tn')" "k \<notin> dom (tn_exit_tunnels tn)"
  shows "opened_by C ap (nd_identity nd) (oc_peer_fp c) out"
proof (cases "(oc_role c = Responder \<or> starts_with (ascii ''STREAM!'') payload) \<and> looks_like_dest payload")
  case True
  show ?thesis
  proof (cases "exit_allowed (ap_trusted_exits ap) (oc_peer_fp c)")
    case ok: True
    then obtain src r where r: "out = Exit r" "handle_exit_connect C (ap_shardsec ap) (ap_env ap) (ap_nonces ap) nd tn src
        (oc_master_key c) (oc_session_hash c) (oc_peer_fp c) (Some (ap_peer_fp ap)) payload ic = Ok (nd', tn', r)"
      using assms(1) True by (auto simp: relayed_payload_def Let_def split: rust.splits)
    show ?thesis using connect_opens [OF r(2) ok assms(2,3)] r(1) by simp
  next
    case False
    then have "tn' = tn" using assms(1) True by (auto simp: relayed_payload_def Let_def)
    then show ?thesis using assms(2,3) by simp
  qed
next
  case False
  obtain sid d where s: "stream_of payload = (sid, d)" by force
  have ok: "\<not> is_ok payload"
    using assms False tunnel_ops_dom(1) by (cases "is_ok payload") (auto simp: relayed_payload_def Let_def)
  moreover have "\<not> starts_with (ascii ''CLOSE!'') payload"
    using assms False ok tunnel_ops_dom(2) [of tn "oc_session_hash c" payload]
    by (cases "starts_with (ascii ''CLOSE!'') payload") (auto simp: relayed_payload_def Let_def)
  ultimately have ne: "\<not> is_ok payload" "\<not> starts_with (ascii ''CLOSE!'') payload" by auto
  show ?thesis
  proof (cases "tn_exit_tunnels tn (exit_tunnel_key (oc_session_hash c) sid)")
    case (Some t)
    then have "tn' = push_exit tn (exit_tunnel_key (oc_session_hash c) sid) t ic d"
      using assms(1) ne False by (simp add: relayed_payload_def Let_def s)
    then show ?thesis using tunnel_ops_dom(3) [OF Some] assms(2,3) by simp
  next
    case None
    then have "tn_exit_tunnels tn' = tn_exit_tunnels tn"
      using assms(1) ne False tunnel_ops_dom(4) by (auto simp: relayed_payload_def Let_def s split: option.splits)
    then show ?thesis using assms(2,3) by simp
  qed
qed

section \<open>What fits into three frames\<close>

lemma enc_split_sizes:
  assumes "rs_law C" and "xchacha_law C"
  obtains f tag where "enc_split C sec ctx pay = Ok (f, tag)" "length f = 3"
    "\<And>x. x \<in> set f \<Longrightarrow> length x = length (wire_message C sec ctx pay) div 2 + (if sec then 18 else 2)"
proof -
  let ?w = "wire_message C sec ctx pay"
  obtain d0 d1 q where enc: "rs_encode C ?w = Ok (padded_even ?w, [d0, d1, q])" "d0 @ d1 = padded_even ?w"
    "length d0 = length d1" "length q = length d0"
    by (rule rs_encode_ok [OF assms(1) wire_message_even(2) [OF assms(2)]])
  have pad: "padded_even ?w = ?w" using wire_message_even(1) [OF assms(2)] by (simp add: padded_even_even)
  have l0: "length d0 = length ?w div 2" using arg_cong [OF enc(2), of length] enc(3) by (simp add: pad)
  let ?f = "map (\<lambda>(i, shard). frame_shard (wire_shard C sec ctx i shard)) (enumerate 0 [d0, d1, q])"
  obtain tag where "enc_split C sec ctx pay = Ok (?f, tag)"
    using enc(1) by (cases sec) (simp_all add: enc_split_def wire_message_def wire_shard_def Let_def)
  moreover have "length x = length ?w div 2 + (if sec then 18 else 2)" if "x \<in> set ?f" for x
    using that enc(3,4) l0 by (auto simp: frame_shard_def wire_shard_length [OF assms(2)] split: if_splits)
  ultimately show thesis using that by simp
qed

lemma length_wire_message:
  "xchacha_law C \<Longrightarrow> length (wire_message C sec ctx pay) = length (inner_frame pay) + (if sec then 0 else 16)"
  by (simp add: wire_message_def xchacha_seal_in_place_with_aad_def xchacha_lawD(1))

lemma build_fits:
  assumes "\<not> gh_bulk h"
  shows "length payload \<le> 458 \<Longrightarrow> \<exists>p. try_build_gtf_v2_frame h payload tag = Ok p"
    and "458 < length payload \<Longrightarrow> \<exists>e. try_build_gtf_v2_frame h payload tag = Err e"
  using assms by (auto simp: try_build_gtf_v2_frame_def Let_def V2_MAX_PAYLOAD_LEN_def V2_OFFSET_AUTH_TAG_START_def V2_OFFSET_PAYLOAD_START_def)

text \<open>Up to 850 bytes fit in both modes; from 895 bytes on \<open>send3\<close> panics and \<open>send3_mixed\<close> sends nothing.\<close>

lemma send3_fits:
  assumes "rs_law C" and "xchacha_law C" and "length pay \<le> 850"
  obtains f tag frames where "enc_split C sec ctx pay = Ok (f, tag)" "send3 C sec ctx f tag = Ok frames"
proof -
  obtain f tag where f: "enc_split C sec ctx pay = Ok (f, tag)" "length f = 3"
    "\<And>x. x \<in> set f \<Longrightarrow> length x = length (wire_message C sec ctx pay) div 2 + (if sec then 18 else 2)"
    by (rule enc_split_sizes [OF assms(1,2), of sec ctx pay]) (rule that)
  obtain x y z where xyz: "f = [x, y, z]" using f(2) by (auto simp: numeral_3_eq_3 length_Suc_conv)
  have "length w \<le> 458" if "w \<in> set f" for w
    using f(3) [OF that] inner_frame_length [of pay] assms(3) by (auto simp: length_wire_message [OF assms(2)])
  then have "\<exists>p. try_build_gtf_v2_frame (data_header C sec ctx (of_nat i) False 0) w tag = Ok p" if "w \<in> set f" for w i
    using that by (intro build_fits(1)) (simp_all add: data_header_def ctx_header_def)
  then obtain p0 p1 p2 where "try_build_gtf_v2_frame (data_header C sec ctx (of_nat 0) False 0) x tag = Ok p0"
    "try_build_gtf_v2_frame (data_header C sec ctx (of_nat 1) False 0) y tag = Ok p1"
    "try_build_gtf_v2_frame (data_header C sec ctx (of_nat 2) False 0) z tag = Ok p2"
    unfolding xyz by (meson list.set_intros)
  then have "send3 C sec ctx f tag = Ok [p0, p1, p2]" by (simp add: send3_def xyz build_gtf_v2_frame_def numeral_2_eq_2)
  with f(1) show thesis by (rule that)
qed

lemma send3_oversize:
  assumes "rs_law C" and "xchacha_law C" and "895 \<le> length pay"
  obtains f tag where "enc_split C sec ctx pay = Ok (f, tag)" "send3 C sec ctx f tag = Panic" "send3_mixed C sec ctx f tag = []"
proof -
  obtain f tag where f: "enc_split C sec ctx pay = Ok (f, tag)" "length f = 3"
    "\<And>x. x \<in> set f \<Longrightarrow> length x = length (wire_message C sec ctx pay) div 2 + (if sec then 18 else 2)"
    by (rule enc_split_sizes [OF assms(1,2), of sec ctx pay]) (rule that)
  obtain x y z where xyz: "f = [x, y, z]" using f(2) by (auto simp: numeral_3_eq_3 length_Suc_conv)
  have "length pay + 2 \<le> length (inner_frame pay)" "even (length (inner_frame pay))"
    using inner_frame_even [of pay] by (simp_all add: inner_frame_def Let_def even_iff_mod_2_eq_zero)
  then have "898 \<le> length (inner_frame pay)" using assms(3) by presburger
  then have "458 < length w" if "w \<in> set f" for w
    using f(3) [OF that] by (auto simp: length_wire_message [OF assms(2)])
  then have "\<exists>e. try_build_gtf_v2_frame (data_header C sec ctx (of_nat i) False 0) w tag = Err e" if "w \<in> set f" for w i
    using that by (intro build_fits(2)) (simp_all add: data_header_def ctx_header_def)
  then obtain e0 e1 e2 where "try_build_gtf_v2_frame (data_header C sec ctx (of_nat 0) False 0) x tag = Err e0"
    "try_build_gtf_v2_frame (data_header C sec ctx (of_nat 1) False 0) y tag = Err e1"
    "try_build_gtf_v2_frame (data_header C sec ctx (of_nat 2) False 0) z tag = Err e2"
    unfolding xyz by (meson list.set_intros)
  then show thesis
    using that [OF f(1)] by (simp add: send3_def send3_mixed_def xyz build_gtf_v2_frame_def numeral_2_eq_2 map_filter_def)
qed

section \<open>Exits open only for authorised peers\<close>


section \<open>Destinations as they are sent\<close>

lemma digit_range: "is_digit b \<Longrightarrow> b < 128 \<and> b \<noteq> colon \<and> b \<noteq> bang"
  by (auto simp: is_digit_def word_le_nat_alt word_less_nat_alt)

lemma rsplit_dest:
  assumes "list_all is_digit p"
  shows "rsplit_once colon (h @ [colon] @ p) = Some (h, p)"
proof -
  have d: "\<forall>b \<in> set (rev p). b \<noteq> colon" using assms digit_range by (auto simp: list_all_iff)
  then have "takeWhile (\<lambda>b. b \<noteq> colon) (rev p @ colon # rev h) = rev p" "dropWhile (\<lambda>b. b \<noteq> colon) (rev p @ colon # rev h) = colon # rev h"
    by (auto simp: takeWhile_append dropWhile_append)
  then show ?thesis by (simp add: rsplit_once_def split_once_def)
qed

text \<open>A host and port in ASCII, not starting with either keyword, is a destination and a request.\<close>

lemma plain_dest:
  assumes "\<forall>b \<in> set h. b < 128" and "h \<noteq> []" and "p < 65536"
    and "\<not> starts_with (ascii ''STREAM!'') (h @ [colon] @ dec p)" "\<not> starts_with (ascii ''EXITAUTH!'') (h @ [colon] @ dec p)"
  shows "looks_like_dest (h @ [colon] @ dec p)"
    and "parse_exit_request (h @ [colon] @ dec p) = Some \<lparr>er_stream_id = 0, er_voucher = None, er_host = h, er_port = of_nat p\<rparr>"
proof -
  have "\<forall>b \<in> set (h @ [colon] @ dec p). b < 128" using assms(1) dec_digits [of p] digit_range by (auto simp: list_all_iff)
  then have u: "from_utf8_lossy (h @ [colon] @ dec p) = h @ [colon] @ dec p" by (intro lossy_id ascii_valid)
  have sp: "rsplit_once colon (h @ [colon] @ dec p) = Some (h, dec p)" using dec_digits by (intro rsplit_dest) auto
  have pp: "parse_u16 (dec p) = Some (of_nat p)" using assms(3) by (simp add: parse_u16_def parse_dec)
  have n: "strip_prefix (ascii ''STREAM!'') (h @ [colon] @ dec p) = None" "strip_prefix (ascii ''EXITAUTH!'') (h @ [colon] @ dec p) = None"
    using assms(4,5) by (simp_all add: strip_prefix_def)
  show "looks_like_dest (h @ [colon] @ dec p)"
    using assms(2) pp unfolding looks_like_dest_def Let_def u n option.case sp by simp
  show "parse_exit_request (h @ [colon] @ dec p) = Some \<lparr>er_stream_id = 0, er_voucher = None, er_host = h, er_port = of_nat p\<rparr>"
    unfolding parse_exit_request_def Let_def u n option.case prod.case sp pp by simp
qed

definition demo_ap :: app_context where
  "demo_ap = \<lparr>ap_peer_fp = [7], ap_key = [9], ap_session_hash = [1, 2, 3, 4], ap_role = Responder, ap_ctr = 5, ap_src = demo_addr,
     ap_trusted_exits = {[7]}, ap_env = \<lparr>ee_allowlist = [], ee_require_voucher = False, ee_now = 0, ee_connect = (\<lambda>_ _. True)\<rparr>,
     ap_nonces = (\<lambda>_. zeros 12), ap_shardsec = False\<rparr>"

definition no_tunnels :: tunnels where
  "no_tunnels = \<lparr>tn_exit_tunnels = Map.empty, tn_sessions_rx = Map.empty, tn_connect_acks = Map.empty, tn_connect_ok_ctrs = Map.empty,
     tn_rx_state = Map.empty\<rparr>"

lemma open_policy: "policy_allows (policy_from_env []) host"
proof -
  have "ws_start [] = 0" "ws_end [] = 0" using ws_start_le [of "[]"] ws_end_le [of "[]"] by auto
  then have "trim [] = []" by (simp add: trim_def trim_start.simps trim_end.simps)
  then show ?thesis by (simp add: policy_allows_def policy_from_env_def)
qed

lemma demo_connect:
  obtains nd' tn' dst frames where
    "app_dispatch demo_crates parse_addr evicted byzantine 0 [] demo_ap (demo_node [1]) no_tunnels None (inner_frame (ascii ''a:80'')) =
       Ok (nd', tn', None, Exit (Connected \<lparr>er_stream_id = 0, er_voucher = None, er_host = [97], er_port = 80\<rparr> dst frames))"
    "exit_tunnel_key [1, 2, 3, 4] 0 \<in> dom (tn_exit_tunnels tn')"
proof -
  have pl: "ascii ''a:80'' = [97] @ [colon] @ dec 80" by (simp add: ascii_def dec.simps)
  have nst: "\<not> starts_with (ascii ''STREAM!'') (ascii ''a:80'')" "\<not> starts_with (ascii ''EXITAUTH!'') (ascii ''a:80'')"
    by (simp_all add: starts_with_def ascii_def)
  have d: "looks_like_dest (ascii ''a:80'')" "parse_exit_request (ascii ''a:80'') =
      Some \<lparr>er_stream_id = 0, er_voucher = None, er_host = [97], er_port = 80\<rparr>"
    using plain_dest [of "[97]" 80] nst by (simp_all add: pl)
  have fp: "frame_payload (inner_frame (ascii ''a:80'')) = Some (ascii ''a:80'')"
    by (rule inner_frame_payload) simp
  have branch: "\<not> starts_with GHOST_PEX_MAGIC (ascii ''a:80'')" "\<not> starts_with (ascii ''CHAT!'') (ascii ''a:80'')"
    "parse_blind_frame (ascii ''a:80'') = None" "parse_relay_header (ascii ''a:80'') = None" "\<not> is_ok (ascii ''a:80'')"
    "\<not> starts_with (ascii ''CLOSE!'') (ascii ''a:80'')" "stream_of (ascii ''a:80'') = (0, ascii ''a:80'')"
    using d(1) by (simp_all add: starts_with_def ascii_def GHOST_PEX_MAGIC_def parse_blind_frame_def parse_relay_header_def is_ok_def
        RELAY_ENVELOPE_MIN_def stream_of_def)
  obtain nd1 ctx where s: "seal_ctx_for demo_crates [9] [1, 2, 3, 4] (zeros 12) (demo_node [1]) [7] = (nd1, ctx)" by force
  obtain f tag frames where e: "enc_split demo_crates False ctx (ok_payload 0) = Ok (f, tag)" "send3 demo_crates False ctx f tag = Ok frames"
    by (rule send3_fits [OF demo_laws(4,1), of "ok_payload 0" False ctx]) (simp_all add: ok_payload_def)
  let ?tn = "no_tunnels\<lparr>tn_exit_tunnels := [exit_tunnel_key [1, 2, 3, 4] 0 \<mapsto>
      \<lparr>et_out_tx = [], et_rx = rx_default\<lparr>rx_next := Some 6\<rparr>, et_session_hash = [1, 2, 3, 4]\<rparr>]\<rparr>"
  have connect: "handle_exit_connect demo_crates False (ap_env demo_ap) (\<lambda>_. zeros 12) (demo_node [1]) no_tunnels demo_addr [9] [1, 2, 3, 4] [7] None
      (ascii ''a:80'') 5 = Ok (nd1, ?tn,
      Connected \<lparr>er_stream_id = 0, er_voucher = None, er_host = [97], er_port = 80\<rparr> demo_addr frames)"
    by (simp add: handle_exit_connect_def d exit_permits_def open_policy s e demo_ap_def no_tunnels_def)
  have ap: "ap_peer_fp demo_ap = [7]" "ap_key demo_ap = [9]" "ap_session_hash demo_ap = [1, 2, 3, 4]" "ap_role demo_ap = Responder"
    "ap_ctr demo_ap = 5" "ap_src demo_ap = demo_addr" "ap_trusted_exits demo_ap = {[7]}" "ap_nonces demo_ap = (\<lambda>_. zeros 12)"
    "ap_shardsec demo_ap = False" "tn_exit_tunnels no_tunnels = Map.empty"
    by (simp_all add: demo_ap_def no_tunnels_def)
  have "app_dispatch demo_crates parse_addr evicted byzantine 0 [] demo_ap (demo_node [1]) no_tunnels None (inner_frame (ascii ''a:80'')) =
      Ok (nd1, ?tn, None, Exit (Connected \<lparr>er_stream_id = 0, er_voucher = None, er_host = [97], er_port = 80\<rparr> demo_addr frames))"
    by (simp add: app_dispatch_def fp branch tunnel_payload_def d exit_allowed_def ap connect)
  then show thesis by (rule that) simp
qed


section \<open>Streams of an exit\<close>

text \<open>A data frame of a stream, when its content is not taken for something else.\<close>

definition carries_data :: "u32 \<Rightarrow> bytes \<Rightarrow> bool" where
  "carries_data sid d \<longleftrightarrow> \<not> looks_like_dest (be_u32 sid @ d) \<and> \<not> is_ok (be_u32 sid @ d) \<and> \<not> starts_with (ascii ''CLOSE!'') (be_u32 sid @ d)"

lemma stream_of_data: "carries_data sid d \<Longrightarrow> stream_of (be_u32 sid @ d) = (sid, d)"
  by (simp add: stream_of_def carries_data_def)

fun data_run :: "crates \<Rightarrow> app_context \<Rightarrow> node \<Rightarrow> tunnels \<Rightarrow> (u64 \<times> u32 \<times> bytes) list \<Rightarrow> tunnels" where
  "data_run C ap nd tn [] = tn"
| "data_run C ap nd tn ((c, sid, d) # fs) =
     data_run C ap nd (case tunnel_payload C (ap\<lparr>ap_ctr := c\<rparr>) nd tn (be_u32 sid @ d) of Ok (_, tn', _) \<Rightarrow> tn' | _ \<Rightarrow> tn) fs"

lemma data_step:
  assumes "carries_data sid d"
  obtains tn' nd' out where "tunnel_payload C ap nd tn (be_u32 sid @ d) = Ok (nd', tn', out)"
    "tn_exit_tunnels tn' = (case tn_exit_tunnels tn (exit_tunnel_key (ap_session_hash ap) sid) of
       None \<Rightarrow> tn_exit_tunnels tn
     | Some t \<Rightarrow> tn_exit_tunnels (push_exit tn (exit_tunnel_key (ap_session_hash ap) sid) t (ap_ctr ap) d))"
proof -
  have n: "\<not> is_ok (be_u32 sid @ d)" "\<not> starts_with (ascii ''CLOSE!'') (be_u32 sid @ d)" "\<not> looks_like_dest (be_u32 sid @ d)"
    using assms by (simp_all add: carries_data_def)
  show thesis
  proof (cases "tn_exit_tunnels tn (exit_tunnel_key (ap_session_hash ap) sid)")
    case (Some t)
    then show thesis using that n by (auto simp: tunnel_payload_def Let_def stream_of_data [OF assms])
  next
    case None
    then show thesis using that n tunnel_ops_dom(4)
      by (cases "tn_sessions_rx tn (ap_session_hash ap, sid)"; cases "ap_ctr ap \<ge> 3")
        (auto simp: tunnel_payload_def Let_def stream_of_data [OF assms])
  qed
qed

text \<open>The tunnel of one stream sees exactly the frames of that stream, whatever streams they are mixed with.\<close>

lemma exit_data_run:
  assumes "\<forall>(c, s, d) \<in> set fs. carries_data s d"
    and "tn_exit_tunnels tn (exit_tunnel_key (ap_session_hash ap) sid) = Some t"
  shows "tn_exit_tunnels (data_run C ap nd tn fs) (exit_tunnel_key (ap_session_hash ap) sid) =
    (case rx_run (et_rx t) (map (\<lambda>(c, s, d). (c, d)) (filter (\<lambda>(c, s, d). s = sid) fs)) of
       (rx, outs) \<Rightarrow> Some (t\<lparr>et_rx := rx, et_out_tx := et_out_tx t @ outs\<rparr>))"
  using assms
proof (induction fs arbitrary: tn t)
  case (Cons f fs)
  obtain c s d where f: "f = (c, s, d)" by (cases f)
  have cd: "carries_data s d" using Cons.prems(1) by (simp add: f)
  let ?ap = "ap\<lparr>ap_ctr := c\<rparr>"
  obtain tn' nd' out where st: "tunnel_payload C ?ap nd tn (be_u32 s @ d) = Ok (nd', tn', out)"
    "tn_exit_tunnels tn' = (case tn_exit_tunnels tn (exit_tunnel_key (ap_session_hash ap) s) of
       None \<Rightarrow> tn_exit_tunnels tn | Some t \<Rightarrow> tn_exit_tunnels (push_exit tn (exit_tunnel_key (ap_session_hash ap) s) t c d))"
    by (rule data_step [OF cd, of C ?ap nd tn]) (rule that, assumption, simp cong: option.case_cong)
  show ?case
  proof (cases "s = sid")
    case True
    obtain rx fl where p: "rx_push (et_rx t) c d = (rx, fl)" by force
    have "tn_exit_tunnels tn' (exit_tunnel_key (ap_session_hash ap) sid) = Some (t\<lparr>et_rx := rx, et_out_tx := et_out_tx t @ fl\<rparr>)"
      using st(2) Cons.prems(2) True p by (simp add: push_exit_def)
    from Cons.IH [OF _ this] show ?thesis using Cons.prems(1) st(1) True p by (simp add: f split: prod.split)
  next
    case False
    then have "tn_exit_tunnels tn' (exit_tunnel_key (ap_session_hash ap) sid) = Some t"
      using st(2) Cons.prems(2) tunnel_key_inject [of "ap_session_hash ap" "ap_session_hash ap" sid s]
      by (auto simp: push_exit_def split: option.split prod.split)
    from Cons.IH [OF _ this] show ?thesis using Cons.prems(1) st(1) False by (simp add: f)
  qed
qed simp


lemma be_u32_small: "unat sid < 256 \<Longrightarrow> be_u32 sid = [0, 0, 0, of_nat (unat sid)]"
proof -
  have four: "(4 :: nat) = Suc (Suc (Suc (Suc 0)))" by simp
  show "unat sid < 256 \<Longrightarrow> ?thesis" by (simp add: be_u32_def four)
qed

lemma data_no_keyword:
  assumes "unat sid < 256"
  shows "\<not> starts_with (ascii ''STREAM!'') (be_u32 sid @ d)" "\<not> starts_with (ascii ''EXITAUTH!'') (be_u32 sid @ d)"
    "\<not> is_ok (be_u32 sid @ d)" "\<not> starts_with (ascii ''CLOSE!'') (be_u32 sid @ d)"
  by (simp_all add: be_u32_small [OF assms] starts_with_def ascii_def is_ok_def)

lemma carries_plain:
  assumes "unat sid < 58" and "\<forall>b \<in> set d. b < 128 \<and> b \<noteq> colon"
  shows "carries_data sid d"
proof -
  have s: "(of_nat (unat sid) :: u8) < 128" "(of_nat (unat sid) :: u8) \<noteq> colon"
    using assms(1) by (auto simp: word_less_nat_alt word_unat_eq_iff unat_ucast_mod)
  have small: "unat sid < 256" using assms(1) by simp
  have "\<forall>b \<in> set (be_u32 sid @ d). b < 128 \<and> b \<noteq> colon" using assms(2) s by (auto simp: be_u32_small [OF small])
  then have "from_utf8_lossy (be_u32 sid @ d) = be_u32 sid @ d" "rsplit_once colon (be_u32 sid @ d) = None"
    by (auto intro!: lossy_id ascii_valid simp: rsplit_once_def split_once_def)
  then show ?thesis using data_no_keyword [OF small, of d] by (simp add: carries_data_def looks_like_dest_def strip_prefix_def)
qed


text \<open>
  Data that ends like a port leaves its stream. Any ASCII chunk that ends in a colon and a number
  up to 65535 makes the whole frame, stream number included, look like a destination: the exit does
  not give it to the stream's connection but takes it for a CONNECT on stream 0, to the host made of
  the stream number's bytes and the data before the colon.
\<close>

theorem port_like_data_leaves_its_stream:
  assumes "unat sid < 128" and "\<forall>b \<in> set chunk. b < 128" and "port < 65536"
    and "ap_role ap = Responder" and "tn_exit_tunnels tn (exit_tunnel_key (ap_session_hash ap) 0) = None"
  shows "stream_of (be_u32 sid @ chunk @ [colon] @ dec port) = (0, be_u32 sid @ chunk @ [colon] @ dec port) \<and>
    parse_exit_request (be_u32 sid @ chunk @ [colon] @ dec port) =
      Some \<lparr>er_stream_id = 0, er_voucher = None, er_host = be_u32 sid @ chunk, er_port = of_nat port\<rparr> \<and>
    tunnel_payload C ap nd tn (be_u32 sid @ chunk @ [colon] @ dec port) =
      (if \<not> exit_allowed (ap_trusted_exits ap) (ap_peer_fp ap) then Ok (nd, tn, ExitDenied)
       else case handle_exit_connect C (ap_shardsec ap) (ap_env ap) (ap_nonces ap) nd tn (ap_src ap) (ap_key ap)
                   (ap_session_hash ap) (ap_peer_fp ap) None (be_u32 sid @ chunk @ [colon] @ dec port) (ap_ctr ap) of
              Ok (nd, tn, r) \<Rightarrow> Ok (nd, tn, Exit r)
            | Err e \<Rightarrow> Err e
            | Panic \<Rightarrow> Panic)"
proof -
  let ?h = "be_u32 sid @ chunk"
  have small: "unat sid < 256" using assms(1) by simp
  have "(of_nat (unat sid) :: u8) < 128" using assms(1) by (simp add: word_less_nat_alt unat_ucast_mod)
  then have "\<forall>b \<in> set ?h. b < 128" using assms(2) by (auto simp: be_u32_small [OF small])
  moreover have "?h \<noteq> []" by (simp add: be_u32_small [OF small])
  ultimately have d: "looks_like_dest (?h @ [colon] @ dec port)" "parse_exit_request (?h @ [colon] @ dec port) =
      Some \<lparr>er_stream_id = 0, er_voucher = None, er_host = ?h, er_port = of_nat port\<rparr>"
    using plain_dest [of ?h port] assms(3) data_no_keyword [OF small, of "chunk @ [colon] @ dec port"] by simp_all
  have s: "stream_of (?h @ [colon] @ dec port) = (0, ?h @ [colon] @ dec port)" using d(1) by (simp add: stream_of_def)
  show ?thesis
    using d s assms(4,5) data_no_keyword [OF small, of "chunk @ [colon] @ dec port"] by (simp add: tunnel_payload_def Let_def)
qed

lemma port_like_data_leaves_its_stream_witness:
  "stream_of (be_u32 1 @ ascii ''at 12'' @ [colon] @ dec 30) = (0, be_u32 1 @ ascii ''at 12'' @ [colon] @ dec 30) \<and>
   parse_exit_request (be_u32 1 @ ascii ''at 12'' @ [colon] @ dec 30) =
     Some \<lparr>er_stream_id = 0, er_voucher = None, er_host = be_u32 1 @ ascii ''at 12'', er_port = 30\<rparr>"
proof -
  have "\<forall>b \<in> set (ascii ''at 12''). b < 128" by (simp add: ascii_def)
  then show ?thesis
    using port_like_data_leaves_its_stream [of 1 "ascii ''at 12''" 30 demo_ap no_tunnels] by (simp add: demo_ap_def no_tunnels_def)
qed

section \<open>Sessions do not touch each other's tunnels\<close>

definition other_sessions_kept :: "bytes \<Rightarrow> tunnels \<Rightarrow> tunnels \<Rightarrow> bool" where
  "other_sessions_kept sh tn tn' \<longleftrightarrow>
     (\<forall>sh' sid. sh' \<noteq> sh \<longrightarrow> length sh' = length sh \<longrightarrow>
        tn_exit_tunnels tn' (exit_tunnel_key sh' sid) = tn_exit_tunnels tn (exit_tunnel_key sh' sid) \<and>
        tn_sessions_rx tn' (sh', sid) = tn_sessions_rx tn (sh', sid) \<and> tn_connect_acks tn' (sh', sid) = tn_connect_acks tn (sh', sid) \<and>
        tn_connect_ok_ctrs tn' (sh', sid) = tn_connect_ok_ctrs tn (sh', sid) \<and> tn_rx_state tn' (sh', sid) = tn_rx_state tn (sh', sid))"

lemma ops_keep_others:
  "other_sessions_kept sh tn tn" "other_sessions_kept sh tn (note_ok tn sh sid c)" "other_sessions_kept sh tn (close_or_keep tn sh p)"
  "other_sessions_kept sh tn (push_exit tn (exit_tunnel_key sh sid) t c d)" "other_sessions_kept sh tn (push_session tn (sh, sid) tx c d)"
  "other_sessions_kept sh tn (tn\<lparr>tn_exit_tunnels := (tn_exit_tunnels tn)(exit_tunnel_key sh sid \<mapsto> t)\<rparr>)"
  using tunnel_key_inject
  by (auto simp: other_sessions_kept_def note_ok_def close_or_keep_def close_all_def push_exit_def push_session_def Let_def
      split: option.split prod.split)

lemma connect_keeps_others:
  assumes "handle_exit_connect C sec env nonces nd tn src key sh fp via dest ctr = Ok (nd', tn', r)"
  shows "other_sessions_kept sh tn tn'"
  using connect_adds [OF assms] ops_keep_others(1,6) by auto

text \<open>
  What a peer sends concerns its own session's streams only: handling any tunnel payload of a
  session, direct or relayed, leaves every other session's exit tunnels, channels, acknowledgements and
  reorder state as they were (session hashes have one length).
\<close>

theorem tunnels_of_sessions_are_separate:
  assumes "tunnel_payload C ap nd tn payload = Ok (nd', tn', out) \<and> sh = ap_session_hash ap \<or>
    relayed_payload C ap nd tn ic c payload = Ok (nd', tn', out) \<and> sh = oc_session_hash c"
  shows "other_sessions_kept sh tn tn'"
proof -
  obtain sid d where s: "stream_of payload = (sid, d)" by force
  from assms show ?thesis
  proof
    assume "tunnel_payload C ap nd tn payload = Ok (nd', tn', out) \<and> sh = ap_session_hash ap"
    then show ?thesis using ops_keep_others connect_keeps_others
      by (auto simp: tunnel_payload_def Let_def s split: if_split_asm option.split_asm rust.split_asm; blast)
  next
    assume "relayed_payload C ap nd tn ic c payload = Ok (nd', tn', out) \<and> sh = oc_session_hash c"
    then show ?thesis using ops_keep_others connect_keeps_others
      by (auto simp: relayed_payload_def Let_def s split: if_split_asm option.split_asm rust.split_asm; blast)
  qed
qed

lemma tunnels_of_sessions_are_separate_witness:
  "other_sessions_kept [1, 2, 3, 4] no_tunnels (note_ok no_tunnels [1, 2, 3, 4] 0 5)"
proof -
  have "tunnel_payload demo_crates demo_ap (demo_node [1]) no_tunnels (ascii ''OK'') =
      Ok (demo_node [1], note_ok no_tunnels [1, 2, 3, 4] 0 5, Acknowledged)"
    by (simp add: tunnel_payload_def is_ok_def ok_stream_def starts_with_def ascii_def demo_ap_def)
  moreover have "[1, 2, 3, 4] = ap_session_hash demo_ap" by (simp add: demo_ap_def)
  ultimately show ?thesis by (intro tunnels_of_sessions_are_separate [OF disjI1] conjI)
qed

section \<open>Peer exchange\<close>

definition pex_ok :: "(sock_addr \<Rightarrow> bytes) \<Rightarrow> (bytes \<Rightarrow> sock_addr option) \<Rightarrow> bytes \<times> sock_addr \<Rightarrow> bool" where
  "pex_ok show_addr parse_addr e \<longleftrightarrow> length (fst e) = 16 \<and> 0 \<notin> set (fst e) \<and> utf8_valid (fst e) \<and>
     0 \<notin> set (show_addr (snd e)) \<and> utf8_valid (show_addr (snd e)) \<and> parse_addr (show_addr (snd e)) = Some (snd e)"

lemma pex_entries_built:
  assumes "\<forall>e \<in> set es. pex_ok show_addr parse_addr e"
  shows "pex_entries (length es) (concat (map (pex_entry show_addr) es) @ rest) = map (\<lambda>e. (fst e, show_addr (snd e))) es"
  using assms
proof (induction es)
  case (Cons e es)
  let ?tail = "concat (map (pex_entry show_addr) es) @ rest"
  have e: "length (fst e) = 16" "0 \<notin> set (fst e)" "utf8_valid (fst e)" "0 \<notin> set (show_addr (snd e))" "utf8_valid (show_addr (snd e))"
    using Cons.prems by (auto simp: pex_ok_def)
  have en: "pex_entry show_addr e = fst e @ show_addr (snd e) @ [0]" using e(1) by (simp add: pex_entry_def Let_def copy_at_def)
  have "fst e \<noteq> [] \<and> last (fst e) \<noteq> 0" using e(1,2) by (metis last_in_set length_0_conv zero_neq_numeral)
  then have "trim_nul (fst e) = fst e" by (cases "fst e" rule: rev_cases) (auto simp: trim_nul_def)
  moreover have "until_nul (show_addr (snd e) @ 0 # ?tail) = show_addr (snd e)"
    using e(4) by (auto simp: until_nul_def takeWhile_append)
  ultimately show ?case using Cons e(1,3,5) by (simp add: en lossy_id Let_def)
qed simp

text \<open>
  Peer exchange: the receiver of a gossip payload starts a handshake with exactly the addresses of
  the peers the sender lists (the first 32 other than the receiver), in order, leaving out itself and
  the peers it already knows, provided fingerprints have their sixteen characters and addresses print
  and read back.
\<close>

theorem peer_exchange_teaches_the_new_peers:
  assumes "\<forall>e \<in> set peer_map. pex_ok show_addr parse_addr e"
  shows "pex_learn parse_addr own known (drop (length GHOST_PEX_MAGIC) (pex_payload show_addr dest_fp peer_map)) =
    map snd (filter (\<lambda>e. fst e \<noteq> own \<and> \<not> known (fst e)) (take MAX_PEX_PEERS (filter (\<lambda>e. fst e \<noteq> dest_fp) peer_map)))"
proof -
  let ?l = "take MAX_PEX_PEERS (filter (\<lambda>e. fst e \<noteq> dest_fp) peer_map)"
  have ok: "\<forall>e \<in> set ?l. pex_ok show_addr parse_addr e" using assms by (auto dest: in_set_takeD)
  have "length ?l \<le> 32" by (simp add: MAX_PEX_PEERS_def)
  then have n: "unat (of_nat (length ?l) :: u8) = length ?l" by (simp only: unat_of_nat) simp
  have "List.map_filter (\<lambda>(fp, addr_str). if fp = own \<or> known fp then None else parse_addr addr_str) (map (\<lambda>e. (fst e, show_addr (snd e))) es) =
      map snd (filter (\<lambda>e. fst e \<noteq> own \<and> \<not> known (fst e)) es)" if "\<forall>e \<in> set es. pex_ok show_addr parse_addr e" for es
    using that by (induction es) (auto simp: map_filter_simps pex_ok_def)
  then show ?thesis using ok n pex_entries_built [OF ok, of "[]"] by (simp add: pex_learn_def pex_payload_def Let_def)
qed

lemma peer_exchange_teaches_the_new_peers_witness:
  "pex_learn (\<lambda>_. Some demo_addr) (replicate 16 1) (\<lambda>fp. fp = replicate 16 2)
     (drop (length GHOST_PEX_MAGIC) (pex_payload (\<lambda>_. [65]) (replicate 16 1)
        [(replicate 16 1, demo_addr), (replicate 16 2, demo_addr), (replicate 16 3, demo_addr)])) = [demo_addr]"
proof -
  have "utf8_valid (replicate 16 b)" if "b < 128" for b :: u8 using that by (intro ascii_valid) simp
  then show ?thesis
    using peer_exchange_teaches_the_new_peers [of "[(replicate 16 1, demo_addr), (replicate 16 2, demo_addr), (replicate 16 3, demo_addr)]"
        "\<lambda>_. [65]" "\<lambda>_. Some demo_addr" "replicate 16 1" "\<lambda>fp. fp = replicate 16 2" "replicate 16 1"]
    by (simp add: pex_ok_def ascii_valid MAX_PEX_PEERS_def)
qed

text \<open>
  A full list does not fit: once a node knows 32 other peers, its gossip is at least 895 bytes long
  and no frame of it is sent.
\<close>

theorem full_peer_list_is_never_sent:
  assumes "rs_law C" and "xchacha_law C" and "32 \<le> length (filter (\<lambda>e. fst e \<noteq> dest_fp) peer_map)"
    and "\<forall>e \<in> set peer_map. 11 \<le> length (show_addr (snd e))"
    and "send_pex C sec show_addr nonce nd dest_fp peer_map = Ok (nd', Some (addr, frames))"
  shows "frames = []"
proof -
  let ?l = "take MAX_PEX_PEERS (filter (\<lambda>e. fst e \<noteq> dest_fp) peer_map)"
  have l: "length ?l = 32" using assms(3) by (simp add: MAX_PEX_PEERS_def)
  have "28 \<le> length (pex_entry show_addr e)" if "e \<in> set ?l" for e
    using that assms(4) by (auto simp: pex_entry_def Let_def dest: in_set_takeD)
  then have sum: "28 * length es \<le> length (concat (map (pex_entry show_addr) es))" if "set es \<subseteq> set ?l" for es
    using that by (induction es) fastforce+
  have "28 * 32 \<le> length (concat (map (pex_entry show_addr) ?l))" using sum [of ?l] unfolding l by simp
  then have "895 \<le> length (pex_payload show_addr dest_fp peer_map)" by (simp add: pex_payload_def Let_def GHOST_PEX_MAGIC_def)
  note big = send3_oversize [OF assms(1,2) this]
  obtain s s' ctx where s: "nd_sessions nd dest_fp = Some s" "ctx_from_session C s nonce = (s', ctx)"
    using assms(5) by (auto simp: send_pex_def split: option.splits prod.splits)
  obtain f tag where "enc_split C sec ctx (pex_payload show_addr dest_fp peer_map) = Ok (f, tag)" "send3_mixed C sec ctx f tag = []"
    by (rule big [of sec ctx]) (rule that)
  then show ?thesis using assms(5) s by (auto simp: send_pex_def split: option.splits)
qed

section \<open>Onions too large to send on\<close>

text \<open>
  An onion that does not fit panics the relay: when a daemon is asked to relay, for the last hop, an
  inner payload of 855 bytes or more (which frames of the bulk size can deliver) to a peer it has a
  session with, re-framing it in base frames fails and the handler panics instead of refusing.
\<close>

theorem large_onion_panics_the_relay:
  assumes "rs_law C" and "xchacha_law C" and "855 \<le> length (rh_inner_payload relay)" and "rh_remaining_hops relay = 1"
    and "\<not> evicted peer_fp" and "\<not> byzantine (rh_next_hop_fingerprint relay)"
    and "nd_peers nd (rh_next_hop_fingerprint relay) = Some tgt" and "nd_sessions nd (rh_next_hop_fingerprint relay) = Some sess"
  shows "forward_onion C sec evicted byzantine nonce nd peer_fp relay = Panic"
proof -
  obtain s1 ctx where s: "ctx_from_session C (fst (next_tx_counter sess)) nonce = (s1, ctx)" by force
  have "895 \<le> length (relay_rewrap relay)"
    using assms(3,4) by (simp add: relay_rewrap_def build_relay_packet_def envelope_fields)
  then obtain f tag where "enc_split C sec ctx (relay_rewrap relay) = Ok (f, tag)" "send3 C sec ctx f tag = Panic"
    by (rule send3_oversize [OF assms(1,2)])
  then show ?thesis using assms(5-8) by (simp add: forward_onion_def Let_def s)
qed

lemma large_onion_panics_the_relay_witness:
  "forward_onion demo_crates False (\<lambda>_. False) (\<lambda>_. False) (zeros 12)
     ((put_session (demo_node [1]) [2] (Some demo_a))\<lparr>nd_peers := [[2] \<mapsto> demo_addr]\<rparr>) [7]
     \<lparr>rh_remaining_hops = 1, rh_next_hop_fingerprint = [2], rh_inner_payload = zeros 900\<rparr> = Panic"
  by (rule large_onion_panics_the_relay [OF demo_laws(4,1)]) simp_all

end
