(* ===== verification/Stun.thy ===== *)
theory Stun
  imports Utf8
begin

unbundle bit_operations_syntax

text \<open>
  STUN messages, src/src/ghost/net/stun.rs: the message type with method and class interleaved, the
  attributes and their TLV form, addresses in plain and XOR form, encoding with and without
  MESSAGE-INTEGRITY and FINGERPRINT, parsing, and the two verifications on the raw datagram. HMAC-SHA1
  and MD5 are crates: fields of the record \<open>stun_crates\<close> with their documented output lengths. Transaction
  ids, which the code draws at random, are arguments.
\<close>

section \<open>Constants and crates\<close>

definition MAGIC_COOKIE :: u32 where "MAGIC_COOKIE = 0x2112A442"
definition STUN_HEADER_LEN :: nat where "STUN_HEADER_LEN = 20"
definition FINGERPRINT_XOR :: u32 where "FINGERPRINT_XOR = 0x5354554E"
definition FINGERPRINT_SIZE :: nat where "FINGERPRINT_SIZE = 8"
definition INTEGRITY_SIZE :: nat where "INTEGRITY_SIZE = 24"
definition TRANSPORT_UDP :: u8 where "TRANSPORT_UDP = 17"
definition CHANNEL_NUMBER_MIN :: u16 where "CHANNEL_NUMBER_MIN = 0x4000"
definition CHANNEL_NUMBER_MAX :: u16 where "CHANNEL_NUMBER_MAX = 0x7FFF"
definition FAMILY_IPV4 :: u8 where "FAMILY_IPV4 = 1"
definition FAMILY_IPV6 :: u8 where "FAMILY_IPV6 = 2"

definition MAPPED_ADDRESS :: u16 where "MAPPED_ADDRESS = 0x0001"
definition USERNAME :: u16 where "USERNAME = 0x0006"
definition MESSAGE_INTEGRITY :: u16 where "MESSAGE_INTEGRITY = 0x0008"
definition ERROR_CODE :: u16 where "ERROR_CODE = 0x0009"
definition UNKNOWN_ATTRIBUTES :: u16 where "UNKNOWN_ATTRIBUTES = 0x000A"
definition CHANNEL_NUMBER :: u16 where "CHANNEL_NUMBER = 0x000C"
definition LIFETIME :: u16 where "LIFETIME = 0x000D"
definition XOR_PEER_ADDRESS :: u16 where "XOR_PEER_ADDRESS = 0x0012"
definition DATA :: u16 where "DATA = 0x0013"
definition REALM :: u16 where "REALM = 0x0014"
definition NONCE :: u16 where "NONCE = 0x0015"
definition XOR_RELAYED_ADDRESS :: u16 where "XOR_RELAYED_ADDRESS = 0x0016"
definition REQUESTED_TRANSPORT :: u16 where "REQUESTED_TRANSPORT = 0x0019"
definition DONT_FRAGMENT :: u16 where "DONT_FRAGMENT = 0x001A"
definition XOR_MAPPED_ADDRESS :: u16 where "XOR_MAPPED_ADDRESS = 0x0020"
definition PRIORITY :: u16 where "PRIORITY = 0x0024"
definition USE_CANDIDATE :: u16 where "USE_CANDIDATE = 0x0025"
definition SOFTWARE :: u16 where "SOFTWARE = 0x8022"
definition FINGERPRINT :: u16 where "FINGERPRINT = 0x8028"
definition ICE_CONTROLLED :: u16 where "ICE_CONTROLLED = 0x8029"
definition ICE_CONTROLLING :: u16 where "ICE_CONTROLLING = 0x802A"

lemmas attr_kinds = MAPPED_ADDRESS_def USERNAME_def MESSAGE_INTEGRITY_def ERROR_CODE_def
  UNKNOWN_ATTRIBUTES_def CHANNEL_NUMBER_def LIFETIME_def XOR_PEER_ADDRESS_def DATA_def REALM_def
  NONCE_def XOR_RELAYED_ADDRESS_def REQUESTED_TRANSPORT_def DONT_FRAGMENT_def XOR_MAPPED_ADDRESS_def
  PRIORITY_def USE_CANDIDATE_def SOFTWARE_def FINGERPRINT_def ICE_CONTROLLED_def ICE_CONTROLLING_def

lemmas stun_sizes = STUN_HEADER_LEN_def FINGERPRINT_SIZE_def INTEGRITY_SIZE_def

text \<open>\<open>hmac_sha1 key data\<close> is \<open>None\<close> where \<open>new_from_slice\<close> fails; HMAC takes keys of every length.\<close>

record stun_crates =
  hmac_sha1 :: "bytes \<Rightarrow> bytes \<Rightarrow> bytes option"
  md5 :: "bytes \<Rightarrow> bytes"

definition hmac_sha1_law :: "stun_crates \<Rightarrow> bool" where
  "hmac_sha1_law H \<longleftrightarrow> (\<forall>key d. \<exists>t. hmac_sha1 H key d = Some t \<and> length t = 20)"

definition long_term_key :: "stun_crates \<Rightarrow> bytes \<Rightarrow> bytes \<Rightarrow> bytes \<Rightarrow> bytes" where
  "long_term_key H username realm password =
     md5 H (username @ ascii '':'' @ realm @ ascii '':'' @ password)"

datatype stun_error =
  TooShort | BadMagicCookie | LengthMismatch nat nat | UnpaddedLength | TruncatedAttribute
| TruncatedValue | UnknownFamily u8 | MissingIntegrity | BadIntegrity | MissingFingerprint
| BadFingerprint | Malformed string

section \<open>Message types\<close>

datatype stun_class = Request | Indication | SuccessResponse | ErrorResponse

fun class_bits :: "stun_class \<Rightarrow> u16" where
  "class_bits Request = 0"
| "class_bits Indication = 1"
| "class_bits SuccessResponse = 2"
| "class_bits ErrorResponse = 3"

definition METHOD_BINDING :: u16 where "METHOD_BINDING = 0x001"
definition METHOD_ALLOCATE :: u16 where "METHOD_ALLOCATE = 0x003"
definition METHOD_REFRESH :: u16 where "METHOD_REFRESH = 0x004"
definition METHOD_SEND :: u16 where "METHOD_SEND = 0x006"
definition METHOD_DATA :: u16 where "METHOD_DATA = 0x007"
definition METHOD_CREATE_PERMISSION :: u16 where "METHOD_CREATE_PERMISSION = 0x008"
definition METHOD_CHANNEL_BIND :: u16 where "METHOD_CHANNEL_BIND = 0x009"

lemmas stun_methods = METHOD_BINDING_def METHOD_ALLOCATE_def METHOD_REFRESH_def METHOD_SEND_def
  METHOD_DATA_def METHOD_CREATE_PERMISSION_def METHOD_CHANNEL_BIND_def

definition message_type :: "u16 \<Rightarrow> stun_class \<Rightarrow> u16" where
  "message_type m class =
     (let c = class_bits class in
      (m AND 0x000F) OR push_bit 1 (m AND 0x0070) OR push_bit 2 (m AND 0x0F80)
        OR push_bit 4 (c AND 0x01) OR push_bit 7 (c AND 0x02))"

definition method_of :: "u16 \<Rightarrow> u16" where
  "method_of t = (t AND 0x000F) OR drop_bit 1 (t AND 0x00E0) OR drop_bit 2 (t AND 0x3E00)"

definition class_of :: "u16 \<Rightarrow> stun_class" where
  "class_of t =
     (let c = (drop_bit 4 t AND 0x01) OR (drop_bit 7 t AND 0x02) in
      if c = 0 then Request else if c = 1 then Indication else if c = 2 then SuccessResponse
      else ErrorResponse)"

section \<open>Attributes\<close>

datatype attribute =
  MappedAddress sock_addr
| XorMappedAddress sock_addr
| Username bytes
| MessageIntegrity bytes
| ErrorCode u16 bytes
| Priority u32
| UseCandidate
| IceControlled u64
| IceControlling u64
| Software bytes
| Fingerprint u32
| XorPeerAddress sock_addr
| XorRelayedAddress sock_addr
| DataA bytes
| Realm bytes
| NonceA bytes
| RequestedTransport u8
| Lifetime u32
| ChannelNumber u16
| UnknownAttributes "u16 list"
| DontFragment
| UnknownA u16 bytes

fun attr_kind :: "attribute \<Rightarrow> u16" where
  "attr_kind (MappedAddress _) = MAPPED_ADDRESS"
| "attr_kind (XorMappedAddress _) = XOR_MAPPED_ADDRESS"
| "attr_kind (Username _) = USERNAME"
| "attr_kind (MessageIntegrity _) = MESSAGE_INTEGRITY"
| "attr_kind (ErrorCode _ _) = ERROR_CODE"
| "attr_kind (Priority _) = PRIORITY"
| "attr_kind UseCandidate = USE_CANDIDATE"
| "attr_kind (IceControlled _) = ICE_CONTROLLED"
| "attr_kind (IceControlling _) = ICE_CONTROLLING"
| "attr_kind (Software _) = SOFTWARE"
| "attr_kind (Fingerprint _) = FINGERPRINT"
| "attr_kind (XorPeerAddress _) = XOR_PEER_ADDRESS"
| "attr_kind (XorRelayedAddress _) = XOR_RELAYED_ADDRESS"
| "attr_kind (DataA _) = DATA"
| "attr_kind (Realm _) = REALM"
| "attr_kind (NonceA _) = NONCE"
| "attr_kind (RequestedTransport _) = REQUESTED_TRANSPORT"
| "attr_kind (Lifetime _) = LIFETIME"
| "attr_kind (ChannelNumber _) = CHANNEL_NUMBER"
| "attr_kind (UnknownAttributes _) = UNKNOWN_ATTRIBUTES"
| "attr_kind DontFragment = DONT_FRAGMENT"
| "attr_kind (UnknownA k _) = k"

text \<open>\<open>for i in 0..n { raw[i] ^= mask[i] }\<close>\<close>

definition mask_bytes :: "bytes \<Rightarrow> bytes \<Rightarrow> bytes" where
  "mask_bytes xs ys = map (\<lambda>(x, y). x XOR y) (zip xs ys)"

definition COOKIE_PORT :: u16 where "COOKIE_PORT = ucast (drop_bit 16 MAGIC_COOKIE)"

definition encode_address :: "sock_addr \<Rightarrow> bytes \<Rightarrow> bool \<Rightarrow> bytes" where
  "encode_address addr txid xored =
     (let port = (if xored then sa_port addr XOR COOKIE_PORT else sa_port addr)
      in case sa_ip addr of
           V4 a b c d \<Rightarrow>
             [0, FAMILY_IPV4] @ be_u16 port
               @ (if xored then mask_bytes [a, b, c, d] (be_u32 MAGIC_COOKIE) else [a, b, c, d])
         | V6 raw \<Rightarrow>
             [0, FAMILY_IPV6] @ be_u16 port
               @ (if xored then mask_bytes raw (be_u32 MAGIC_COOKIE @ txid) else raw))"

definition decode_address :: "bytes \<Rightarrow> bytes \<Rightarrow> bool \<Rightarrow> (sock_addr, stun_error) rust" where
  "decode_address value txid xored =
     (if length value < 4 then Err (Malformed ''address attribute shorter than 4 bytes'')
      else
        (let family = value ! 1;
             port0 = u16_be (slice 2 4 value);
             port = (if xored then port0 XOR COOKIE_PORT else port0)
         in if family = FAMILY_IPV4 then
              (if length value < 8 then Err (Malformed ''IPv4 address attribute needs 8 bytes'')
               else
                 (let raw0 = slice 4 8 value;
                      raw = (if xored then mask_bytes raw0 (be_u32 MAGIC_COOKIE) else raw0)
                  in Ok \<lparr>sa_ip = V4 (raw ! 0) (raw ! 1) (raw ! 2) (raw ! 3), sa_port = port\<rparr>))
            else if family = FAMILY_IPV6 then
              (if length value < 20 then Err (Malformed ''IPv6 address attribute needs 20 bytes'')
               else
                 (let raw0 = slice 4 20 value;
                      raw = (if xored then mask_bytes raw0 (be_u32 MAGIC_COOKIE @ txid) else raw0)
                  in Ok \<lparr>sa_ip = V6 raw, sa_port = port\<rparr>))
            else Err (UnknownFamily family)))"

fun encode_value :: "attribute \<Rightarrow> bytes \<Rightarrow> bytes" where
  "encode_value (MappedAddress a) txid = encode_address a txid False"
| "encode_value (XorMappedAddress a) txid = encode_address a txid True"
| "encode_value (Username u) txid = u"
| "encode_value (MessageIntegrity h) txid = h"
| "encode_value (ErrorCode code reason) txid =
     [0, 0, (ucast (code div 100) :: u8) AND 7, ucast (code mod 100)] @ reason"
| "encode_value (Priority p) txid = be_u32 p"
| "encode_value UseCandidate txid = []"
| "encode_value (IceControlled t) txid = be_u64 t"
| "encode_value (IceControlling t) txid = be_u64 t"
| "encode_value (Software s) txid = s"
| "encode_value (Fingerprint c) txid = be_u32 c"
| "encode_value (XorPeerAddress a) txid = encode_address a txid True"
| "encode_value (XorRelayedAddress a) txid = encode_address a txid True"
| "encode_value (DataA d) txid = d"
| "encode_value (Realm s) txid = s"
| "encode_value (NonceA s) txid = s"
| "encode_value (RequestedTransport proto) txid = [proto, 0, 0, 0]"
| "encode_value (Lifetime s) txid = be_u32 s"
| "encode_value (ChannelNumber n) txid = be_u16 n @ [0, 0]"
| "encode_value (UnknownAttributes kinds) txid = concat (map be_u16 kinds)"
| "encode_value DontFragment txid = []"
| "encode_value (UnknownA k value) txid = value"

text \<open>The zero bytes pushed until the length is a multiple of four.\<close>

definition pad4 :: "bytes \<Rightarrow> bytes" where
  "pad4 out = out @ zeros ((4 - length out mod 4) mod 4)"

definition encode_into :: "bytes \<Rightarrow> bytes \<Rightarrow> attribute \<Rightarrow> bytes" where
  "encode_into txid out a =
     (let value = encode_value a txid
      in pad4 (out @ be_u16 (attr_kind a) @ be_u16 (of_nat (length value)) @ value))"

definition read_u64 :: "bytes \<Rightarrow> (u64, stun_error) rust" where
  "read_u64 value =
     (if length value < 8 then Err (Malformed ''64-bit attribute shorter than 8 bytes'')
      else Ok (u64_be (slice 0 8 value)))"

fun rmap :: "('a \<Rightarrow> 'b) \<Rightarrow> ('a, 'e) rust \<Rightarrow> ('b, 'e) rust" where
  "rmap f (Ok a) = Ok (f a)"
| "rmap f (Err e) = Err e"
| "rmap f Panic = Panic"

text \<open>\<open>as_chunks::<2>()\<close> of an even-length value.\<close>

fun u16_pairs :: "bytes \<Rightarrow> u16 list" where
  "u16_pairs (a # b # r) = u16_be [a, b] # u16_pairs r"
| "u16_pairs _ = []"

definition decode_attribute :: "u16 \<Rightarrow> bytes \<Rightarrow> bytes \<Rightarrow> (attribute, stun_error) rust" where
  "decode_attribute kind value txid =
     (if kind = MAPPED_ADDRESS then rmap MappedAddress (decode_address value txid False)
      else if kind = XOR_MAPPED_ADDRESS then rmap XorMappedAddress (decode_address value txid True)
      else if kind = USERNAME then Ok (Username value)
      else if kind = MESSAGE_INTEGRITY then
        (if length value < 20 then Err (Malformed ''MESSAGE-INTEGRITY shorter than 20 bytes'')
         else Ok (MessageIntegrity (take 20 value)))
      else if kind = ERROR_CODE then
        (if length value < 4 then Err (Malformed ''ERROR-CODE shorter than 4 bytes'')
         else Ok (ErrorCode (ucast (value ! 2 AND 7) * 100 + ucast (value ! 3)) (from_utf8_lossy (drop 4 value))))
      else if kind = PRIORITY then
        (if length value < 4 then Err (Malformed ''PRIORITY shorter than 4 bytes'')
         else Ok (Priority (u32_be (slice 0 4 value))))
      else if kind = USE_CANDIDATE then Ok UseCandidate
      else if kind = ICE_CONTROLLED then rmap IceControlled (read_u64 value)
      else if kind = ICE_CONTROLLING then rmap IceControlling (read_u64 value)
      else if kind = SOFTWARE then Ok (Software (from_utf8_lossy value))
      else if kind = XOR_PEER_ADDRESS then rmap XorPeerAddress (decode_address value txid True)
      else if kind = XOR_RELAYED_ADDRESS then rmap XorRelayedAddress (decode_address value txid True)
      else if kind = DATA then Ok (DataA value)
      else if kind = REALM then Ok (Realm (from_utf8_lossy value))
      else if kind = NONCE then Ok (NonceA (from_utf8_lossy value))
      else if kind = REQUESTED_TRANSPORT then
        (if value = [] then Err (Malformed ''REQUESTED-TRANSPORT shorter than 1 byte'')
         else Ok (RequestedTransport (value ! 0)))
      else if kind = LIFETIME then
        (if value = [] then Err (Malformed ''LIFETIME empty'')
         else if length value < 4 then Err (Malformed ''LIFETIME short'')
         else Ok (Lifetime (u32_be (slice 0 4 value))))
      else if kind = CHANNEL_NUMBER then
        (if length value < 2 then Err (Malformed ''CHANNEL-NUMBER short'')
         else Ok (ChannelNumber (u16_be (slice 0 2 value))))
      else if kind = UNKNOWN_ATTRIBUTES then
        (if length value mod 2 \<noteq> 0 then Err (Malformed ''UNKNOWN-ATTRIBUTES not even'')
         else Ok (UnknownAttributes (u16_pairs value)))
      else if kind = DONT_FRAGMENT then Ok DontFragment
      else if kind = FINGERPRINT then
        (if length value < 4 then Err (Malformed ''FINGERPRINT shorter than 4 bytes'')
         else Ok (Fingerprint (u32_be (slice 0 4 value))))
      else Ok (UnknownA kind value))"

section \<open>Messages\<close>

record message =
  msg_typ :: u16
  msg_txid :: bytes
  msg_attributes :: "attribute list"

definition message_new :: "u16 \<Rightarrow> stun_class \<Rightarrow> bytes \<Rightarrow> message" where
  "message_new m c t = \<lparr>msg_typ = message_type m c, msg_txid = t, msg_attributes = []\<rparr>"

definition push_attr :: "message \<Rightarrow> attribute \<Rightarrow> message" where
  "push_attr m a = m\<lparr>msg_attributes := msg_attributes m @ [a]\<rparr>"

definition software :: bytes where "software = ascii ''GhostNet/0.8.21''"

definition binding_request :: "bytes \<Rightarrow> message" where
  "binding_request t = push_attr (message_new METHOD_BINDING Request t) (Software software)"

definition binding_indication :: "bytes \<Rightarrow> message" where
  "binding_indication t = push_attr (message_new METHOD_BINDING Indication t) (Software software)"

definition binding_success :: "bytes \<Rightarrow> sock_addr \<Rightarrow> message" where
  "binding_success t mapped =
     push_attr (push_attr (message_new METHOD_BINDING SuccessResponse t) (XorMappedAddress mapped))
       (Software software)"

definition get_attr :: "message \<Rightarrow> u16 \<Rightarrow> attribute option" where
  "get_attr m kind = find (\<lambda>a. attr_kind a = kind) (msg_attributes m)"

definition xor_mapped_address :: "message \<Rightarrow> sock_addr option" where
  "xor_mapped_address m =
     (case get_attr m XOR_MAPPED_ADDRESS of
        Some (XorMappedAddress a) \<Rightarrow> Some a
      | _ \<Rightarrow> (case get_attr m MAPPED_ADDRESS of Some (MappedAddress a) \<Rightarrow> Some a | _ \<Rightarrow> None))"

definition xor_relayed_address :: "message \<Rightarrow> sock_addr option" where
  "xor_relayed_address m =
     (case get_attr m XOR_RELAYED_ADDRESS of Some (XorRelayedAddress a) \<Rightarrow> Some a | _ \<Rightarrow> None)"

definition xor_peer_address :: "message \<Rightarrow> sock_addr option" where
  "xor_peer_address m =
     (case get_attr m XOR_PEER_ADDRESS of Some (XorPeerAddress a) \<Rightarrow> Some a | _ \<Rightarrow> None)"

definition data_of :: "message \<Rightarrow> bytes option" where
  "data_of m = (case get_attr m DATA of Some (DataA d) \<Rightarrow> Some d | _ \<Rightarrow> None)"

definition realm_of :: "message \<Rightarrow> bytes option" where
  "realm_of m = (case get_attr m REALM of Some (Realm s) \<Rightarrow> Some s | _ \<Rightarrow> None)"

definition nonce_of :: "message \<Rightarrow> bytes option" where
  "nonce_of m = (case get_attr m NONCE of Some (NonceA s) \<Rightarrow> Some s | _ \<Rightarrow> None)"

definition lifetime_of :: "message \<Rightarrow> u32 option" where
  "lifetime_of m = (case get_attr m LIFETIME of Some (Lifetime s) \<Rightarrow> Some s | _ \<Rightarrow> None)"

definition channel_number :: "message \<Rightarrow> u16 option" where
  "channel_number m = (case get_attr m CHANNEL_NUMBER of Some (ChannelNumber n) \<Rightarrow> Some n | _ \<Rightarrow> None)"

definition requested_transport :: "message \<Rightarrow> u8 option" where
  "requested_transport m =
     (case get_attr m REQUESTED_TRANSPORT of Some (RequestedTransport p) \<Rightarrow> Some p | _ \<Rightarrow> None)"

definition unknown_attributes :: "message \<Rightarrow> u16 list" where
  "unknown_attributes m =
     (case get_attr m UNKNOWN_ATTRIBUTES of Some (UnknownAttributes ks) \<Rightarrow> ks | _ \<Rightarrow> [])"

definition error_code :: "message \<Rightarrow> (u16 \<times> bytes) option" where
  "error_code m = (case get_attr m ERROR_CODE of Some (ErrorCode c r) \<Rightarrow> Some (c, r) | _ \<Rightarrow> None)"

lemmas message_reads = xor_mapped_address_def xor_relayed_address_def xor_peer_address_def
  data_of_def realm_of_def nonce_of_def lifetime_of_def channel_number_def requested_transport_def
  unknown_attributes_def error_code_def

definition write_header :: "message \<Rightarrow> u16 \<Rightarrow> bytes" where
  "write_header m attr_len = be_u16 (msg_typ m) @ be_u16 attr_len @ be_u32 MAGIC_COOKIE @ msg_txid m"

text \<open>\<open>out[2..4].copy_from_slice(&len.to_be_bytes())\<close>\<close>

definition set_length :: "nat \<Rightarrow> bytes \<Rightarrow> bytes" where
  "set_length n out = copy_at 2 (be_u16 (of_nat n)) out"

definition encode_message :: "message \<Rightarrow> bytes" where
  "encode_message m =
     (let out = foldl (encode_into (msg_txid m)) (write_header m 0) (msg_attributes m)
      in set_length (length out - STUN_HEADER_LEN) out)"

fun is_digest :: "attribute \<Rightarrow> bool" where
  "is_digest (MessageIntegrity _) = True"
| "is_digest (Fingerprint _) = True"
| "is_digest _ = False"

text \<open>One step of the bitwise CRC-32: \<open>(crc & 1).wrapping_neg()\<close> masks the polynomial.\<close>

definition crc_bit :: "u32 \<Rightarrow> u32" where
  "crc_bit crc = (let m = - (crc AND 1) in drop_bit 1 crc XOR (0xEDB88320 AND m))"

definition crc_byte :: "u32 \<Rightarrow> u8 \<Rightarrow> u32" where
  "crc_byte crc b = (crc_bit ^^ 8) (crc XOR ucast b)"

definition crc32_ieee :: "bytes \<Rightarrow> u32" where
  "crc32_ieee d = NOT (foldl crc_byte 0xFFFFFFFF d)"

definition encode_with_integrity :: "stun_crates \<Rightarrow> message \<Rightarrow> bytes \<Rightarrow> (bytes, stun_error) rust" where
  "encode_with_integrity H m key =
     (let stripped = m\<lparr>msg_attributes := filter (\<lambda>a. \<not> is_digest a) (msg_attributes m)\<rparr>;
          out = foldl (encode_into (msg_txid stripped)) (write_header stripped 0) (msg_attributes stripped);
          out = set_length (length out - STUN_HEADER_LEN + INTEGRITY_SIZE) out
      in case hmac_sha1 H key out of
           None \<Rightarrow> Err (Malformed ''bad HMAC key'')
         | Some tag \<Rightarrow>
             (let out = out @ be_u16 MESSAGE_INTEGRITY @ be_u16 20 @ tag;
                  out = set_length (length out - STUN_HEADER_LEN + FINGERPRINT_SIZE) out;
                  crc = crc32_ieee out XOR FINGERPRINT_XOR
              in Ok (out @ be_u16 FINGERPRINT @ be_u16 4 @ be_u32 crc)))"

text \<open>\<open>(len + 3) & !3\<close>\<close>

definition padded :: "nat \<Rightarrow> nat" where "padded len = (len + 3) div 4 * 4"

function parse_attributes :: "bytes \<Rightarrow> bytes \<Rightarrow> (attribute list, stun_error) rust" where
  "parse_attributes txid rest =
     (if rest = [] then Ok []
      else if length rest < 4 then Err TruncatedAttribute
      else
        (let kind = u16_be (slice 0 2 rest);
             len = unat (u16_be (slice 2 4 rest));
             value_end = 4 + len
         in if value_end > length rest then Err TruncatedValue
            else
              (case decode_attribute kind (slice 4 value_end rest) txid of
                 Err e \<Rightarrow> Err e
               | Panic \<Rightarrow> Panic
               | Ok a \<Rightarrow>
                   (let advance = 4 + padded len
                    in if advance > length rest then Err TruncatedValue
                       else rmap (Cons a) (parse_attributes txid (drop advance rest))))))"
  by pat_completeness auto
termination
  by (relation "measure (length \<circ> snd)") auto

declare parse_attributes.simps [simp del]

definition parse_message :: "bytes \<Rightarrow> (message, stun_error) rust" where
  "parse_message buf =
     (if length buf < STUN_HEADER_LEN then Err TooShort
      else
        (let ty = u16_be (slice 0 2 buf);
             declared = unat (u16_be (slice 2 4 buf))
         in if declared mod 4 \<noteq> 0 then Err UnpaddedLength
            else if u32_be (slice 4 8 buf) \<noteq> MAGIC_COOKIE then Err BadMagicCookie
            else
              (let t = slice 8 20 buf;
                   available = length buf - STUN_HEADER_LEN
               in if declared > available then Err (LengthMismatch declared available)
                  else rmap (\<lambda>as. \<lparr>msg_typ = ty, msg_txid = t, msg_attributes = as\<rparr>)
                         (parse_attributes t (slice STUN_HEADER_LEN (STUN_HEADER_LEN + declared) buf)))))"

section \<open>Verification of the raw datagram\<close>

text \<open>The loop from position \<open>pos\<close>: the position and declared length of the first attribute wanted.\<close>

function find_raw_from :: "bytes \<Rightarrow> u16 \<Rightarrow> nat \<Rightarrow> nat \<Rightarrow> (nat \<times> nat) option" where
  "find_raw_from buf want ending pos =
     (if pos + 4 \<le> ending then
        (let kind = u16_be (slice pos (pos + 2) buf);
             len = unat (u16_be (slice (pos + 2) (pos + 4) buf))
         in if kind = want then Some (pos, len)
            else find_raw_from buf want ending (pos + (4 + padded len)))
      else None)"
  by pat_completeness auto
termination
  by (relation "measure (\<lambda>(_, _, ending, pos). ending - pos)") auto

declare find_raw_from.simps [simp del]

definition find_raw_attribute :: "bytes \<Rightarrow> u16 \<Rightarrow> (nat \<times> nat) option" where
  "find_raw_attribute buf want =
     (if length buf < 4 then None
      else
        (let declared = unat (u16_be (slice 2 4 buf))
         in find_raw_from buf want (min (STUN_HEADER_LEN + declared) (length buf)) STUN_HEADER_LEN))"

definition verify_integrity :: "stun_crates \<Rightarrow> bytes \<Rightarrow> bytes \<Rightarrow> (unit, stun_error) rust" where
  "verify_integrity H buf key =
     (case find_raw_attribute buf MESSAGE_INTEGRITY of
        None \<Rightarrow> Err MissingIntegrity
      | Some (off, _) \<Rightarrow>
          (if off + INTEGRITY_SIZE > length buf \<or> off < STUN_HEADER_LEN then Err BadIntegrity
           else
             (let covered_len = of_nat (off - STUN_HEADER_LEN + INTEGRITY_SIZE) :: u16
              in case hmac_sha1 H key (slice 0 2 buf @ be_u16 covered_len @ slice 4 off buf) of
                   None \<Rightarrow> Err (Malformed ''bad HMAC key'')
                 | Some expected \<Rightarrow>
                     (if expected = slice (off + 4) (off + 24) buf then Ok () else Err BadIntegrity))))"

definition verify_fingerprint :: "bytes \<Rightarrow> (unit, stun_error) rust" where
  "verify_fingerprint buf =
     (case find_raw_attribute buf FINGERPRINT of
        None \<Rightarrow> Err MissingFingerprint
      | Some (off, _) \<Rightarrow>
          (if off + FINGERPRINT_SIZE > length buf \<or> off < STUN_HEADER_LEN then Err BadFingerprint
           else
             (let covered = set_length (off - STUN_HEADER_LEN + FINGERPRINT_SIZE) (take off buf);
                  expected = crc32_ieee covered XOR FINGERPRINT_XOR
              in if expected = u32_be (slice (off + 4) (off + 8) buf) then Ok () else Err BadFingerprint)))"

section \<open>Message types round-trip\<close>

lemma sixteen_cases: "(\<forall>n < 16. P n) \<longleftrightarrow> (\<forall>n \<in> {0, 1, 2, 3, 4, 5, 6, 7, 8, 9, 10, 11, 12, 13, 14, 15}. P (n :: nat))"
proof -
  have "{n :: nat. n < 16} = {0, 1, 2, 3, 4, 5, 6, 7, 8, 9, 10, 11, 12, 13, 14, 15}" by auto presburger
  then show ?thesis by blast
qed

lemma u16_eqI: "(\<And>n. n < 16 \<Longrightarrow> bit a n = bit b n) \<Longrightarrow> a = (b :: u16)"
  by (rule bit_word_eqI) simp

lemma u16_method_bits: "m < 0x1000 \<Longrightarrow> 12 \<le> n \<Longrightarrow> \<not> bit (m :: u16) n"
proof
  assume m: "m < 0x1000" and n: "12 \<le> n" and b: "bit m n"
  have "unat m < 2 ^ 12" using m by (simp add: word_less_nat_alt)
  also have "\<dots> \<le> 2 ^ n" using n by (rule power_increasing) simp
  finally have "\<not> bit (unat m) n" by (simp add: bit_iff_odd)
  then show False using b by (simp add: bit_unsigned_iff)
qed

lemma message_type_method: "m < 0x1000 \<Longrightarrow> method_of (message_type m c) = m"
proof (rule u16_eqI)
  fix n :: nat assume m: "m < 0x1000" and n: "n < 16"
  have hi: "\<not> bit m 12" "\<not> bit m 13" "\<not> bit m 14" "\<not> bit m 15" using u16_method_bits [OF m] by auto
  have dbl: "bit (m * 2) 5 = bit m 4" "bit (m * 2) 6 = bit m 5" "bit (m * 2) 7 = bit m 6"
    using bit_double_iff [of m 5] bit_double_iff [of m 6] bit_double_iff [of m 7]
    by (simp_all add: mult.commute)
  have "\<forall>n < 16. bit (method_of (message_type m c)) n = bit m n"
    unfolding sixteen_cases
    by (cases c) (simp_all add: method_of_def message_type_def bit_simps hi dbl)
  then show "bit (method_of (message_type m c)) n = bit m n" using n by blast
qed

lemma message_type_class: "class_of (message_type m c) = c"
proof -
  let ?t = "message_type m c"
  have b: "bit ?t 4 = (c = Indication \<or> c = ErrorResponse)" "bit ?t 8 = (c = SuccessResponse \<or> c = ErrorResponse)"
    by (cases c; simp add: message_type_def bit_simps)+
  have c: "(drop_bit 4 ?t AND 1) OR (drop_bit 7 ?t AND 2) = class_bits c"
  proof (rule u16_eqI)
    fix n :: nat assume n: "n < 16"
    have "\<forall>n < 16. bit ((drop_bit 4 ?t AND 1) OR (drop_bit 7 ?t AND 2)) n = bit (class_bits c) n"
      unfolding sixteen_cases using b by (cases c) (simp_all add: bit_simps)
    then show "bit ((drop_bit 4 ?t AND 1) OR (drop_bit 7 ?t AND 2)) n = bit (class_bits c) n"
      using n by blast
  qed
  show ?thesis unfolding class_of_def c by (cases c) simp_all
qed

section \<open>Addresses and attributes round-trip\<close>

lemma length_mask_bytes [simp]: "length (mask_bytes xs ys) = min (length xs) (length ys)"
  by (simp add: mask_bytes_def)

lemma mask_bytes_twice: "length xs \<le> length ys \<Longrightarrow> mask_bytes (mask_bytes xs ys) ys = xs"
  by (rule nth_equalityI) (auto simp: mask_bytes_def xor.assoc)

definition addr_wf :: "sock_addr \<Rightarrow> bool" where
  "addr_wf a = (case sa_ip a of V4 _ _ _ _ \<Rightarrow> True | V6 raw \<Rightarrow> length raw = 16)"

lemma length_encode_address:
  "addr_wf a \<Longrightarrow> length t = 12 \<Longrightarrow>
   length (encode_address a t x) = (case sa_ip a of V4 _ _ _ _ \<Rightarrow> 8 | V6 _ \<Rightarrow> 20)"
  by (auto simp: encode_address_def addr_wf_def Let_def split: ip_addr.splits)

lemma address_roundtrip:
  assumes "addr_wf a" and t: "length t = 12"
  shows "decode_address (encode_address a t x) t x = Ok a"
proof -
  have fam: "FAMILY_IPV6 \<noteq> FAMILY_IPV4" by (simp add: FAMILY_IPV4_def FAMILY_IPV6_def)
  define port where "port = (if x then sa_port a XOR COOKIE_PORT else sa_port a)"
  have port: "(if x then port XOR COOKIE_PORT else port) = sa_port a" by (simp add: port_def xor.assoc)
  have head: "u16_be (slice 2 4 ([0, f] @ be_u16 port @ raw)) = port" for f raw
    by (simp add: wire_simps slice_append2 numeral_2_eq_2 slice_full slice_def)
  have tail: "length raw = 4 \<Longrightarrow> slice 4 8 ([0, f] @ be_u16 port @ raw) = raw"
    "length raw = 16 \<Longrightarrow> slice 4 20 ([0, f] @ be_u16 port @ raw) = raw" for f raw
    by (simp_all add: slice_def drop_Cons')
  show ?thesis
  proof (cases "sa_ip a")
    case (V4 p q r s)
    let ?raw = "if x then mask_bytes [p, q, r, s] (be_u32 MAGIC_COOKIE) else [p, q, r, s]"
    have raw: "length ?raw = 4" "(if x then mask_bytes ?raw (be_u32 MAGIC_COOKIE) else ?raw) = [p, q, r, s]"
      by (simp_all add: mask_bytes_twice)
    have e: "encode_address a t x = [0, FAMILY_IPV4] @ be_u16 port @ ?raw"
      by (simp add: encode_address_def V4 port_def Let_def)
    have "decode_address (encode_address a t x) t x
        = Ok \<lparr>sa_ip = V4 p q r s, sa_port = sa_port a\<rparr>"
      unfolding decode_address_def e head tail(1) [OF raw(1)] Let_def port raw by simp
    then show ?thesis using V4 by (cases a) simp
  next
    case (V6 o6)
    then have o6: "length o6 = 16" using assms by (simp add: addr_wf_def)
    let ?raw = "if x then mask_bytes o6 (be_u32 MAGIC_COOKIE @ t) else o6"
    have raw: "length ?raw = 16" "(if x then mask_bytes ?raw (be_u32 MAGIC_COOKIE @ t) else ?raw) = o6"
      using o6 t by (simp_all add: mask_bytes_twice)
    have e: "encode_address a t x = [0, FAMILY_IPV6] @ be_u16 port @ ?raw"
      by (simp add: encode_address_def V6 port_def Let_def)
    have "decode_address (encode_address a t x) t x = Ok \<lparr>sa_ip = V6 o6, sa_port = sa_port a\<rparr>"
      unfolding decode_address_def e head tail(2) [OF raw(1)] Let_def port raw using fam o6 t by simp
    then show ?thesis using V6 by (cases a) simp
  qed
qed

text \<open>What an attribute must satisfy to come back: an error code below 800, strings that are strings.\<close>

definition KNOWN_KINDS :: "u16 list" where
  "KNOWN_KINDS = [MAPPED_ADDRESS, USERNAME, MESSAGE_INTEGRITY, ERROR_CODE, UNKNOWN_ATTRIBUTES,
     CHANNEL_NUMBER, LIFETIME, XOR_PEER_ADDRESS, DATA, REALM, NONCE, XOR_RELAYED_ADDRESS,
     REQUESTED_TRANSPORT, DONT_FRAGMENT, XOR_MAPPED_ADDRESS, PRIORITY, USE_CANDIDATE, SOFTWARE,
     FINGERPRINT, ICE_CONTROLLED, ICE_CONTROLLING]"

fun attr_wf :: "attribute \<Rightarrow> bool" where
  "attr_wf (MappedAddress a) = addr_wf a"
| "attr_wf (XorMappedAddress a) = addr_wf a"
| "attr_wf (XorPeerAddress a) = addr_wf a"
| "attr_wf (XorRelayedAddress a) = addr_wf a"
| "attr_wf (MessageIntegrity h) = (length h = 20)"
| "attr_wf (ErrorCode c r) = (c < 800 \<and> utf8_valid r)"
| "attr_wf (Software s) = utf8_valid s"
| "attr_wf (Realm s) = utf8_valid s"
| "attr_wf (NonceA s) = utf8_valid s"
| "attr_wf (UnknownA k v) = (k \<notin> set KNOWN_KINDS)"
| "attr_wf _ = True"

lemma u16_pairs_concat [simp]: "u16_pairs (concat (map be_u16 ks)) = ks"
proof (induction ks)
  case (Cons k ks)
  obtain a b where ab: "be_u16 k = [a, b]"
    using length_be(1) [of k] unfolding numeral_2_eq_2 length_Suc_conv by auto
  then have "u16_be [a, b] = k" by (metis be_roundtrip(1))
  then show ?case using Cons ab by simp
qed simp

lemma be_u32_nonempty [simp]: "be_u32 x \<noteq> []"
  using length_be(2) [of x] by (metis list.size(3) zero_neq_numeral)

lemma even_concat_be_u16: "length (concat (map be_u16 ks)) mod 2 = 0"
  by (induction ks) auto

lemma error_code_split:
  assumes "c < (800 :: u16)"
  shows "ucast ((ucast (c div 100) :: u8) AND 7) * 100 + ucast (ucast (c mod 100) :: u8) = c"
proof -
  have c: "unat c < 800" using assms by (simp add: word_less_nat_alt)
  have d: "unat (c div 100) = unat c div 100" "unat (c mod 100) = unat c mod 100"
    by (simp_all add: unat_div unat_mod)
  have "(ucast (c div 100) :: u8) AND 7 = ucast (c div 100)"
  proof -
    have "unat (ucast (c div 100) :: u8) < 8" using c by (simp add: unat_ucast_mod d)
    then have "take_bit 3 (unat (ucast (c div 100) :: u8)) = unat (ucast (c div 100) :: u8)"
      by (simp add: take_bit_eq_mod)
    then have "take_bit 3 (ucast (c div 100) :: u8) = ucast (c div 100)"
      by (metis unsigned_take_bit_eq unsigned_word_eqI)
    then show ?thesis by (simp add: take_bit_eq_mask mask_eq_exp_minus_1)
  qed
  moreover have "ucast (ucast (c div 100) :: u8) = c div 100" "ucast (ucast (c mod 100) :: u8) = c mod 100"
    using c by (auto intro!: word_unat_eq_iff [THEN iffD2] simp: unat_ucast_mod d)
  ultimately show ?thesis using word_mod_div_equality [of c 100] by simp
qed

lemma attribute_roundtrip:
  assumes "attr_wf a" and "length t = 12"
  shows "decode_attribute (attr_kind a) (encode_value a t) t = Ok a"
  using assms
  by (cases a)
    (simp_all add: decode_attribute_def attr_kinds address_roundtrip read_u64_def slice_full slice_append1
      lossy_id even_concat_be_u16 error_code_split KNOWN_KINDS_def)

section \<open>Messages round-trip\<close>

definition tlv :: "bytes \<Rightarrow> attribute \<Rightarrow> bytes" where
  "tlv t a =
     (let v = encode_value a t
      in be_u16 (attr_kind a) @ be_u16 (of_nat (length v)) @ v @ zeros (padded (length v) - length v))"

definition body_bytes :: "bytes \<Rightarrow> attribute list \<Rightarrow> bytes" where
  "body_bytes t as = concat (map (tlv t) as)"

definition message_wf :: "message \<Rightarrow> bool" where
  "message_wf m \<longleftrightarrow> length (msg_txid m) = 12 \<and> list_all attr_wf (msg_attributes m)
     \<and> length (body_bytes (msg_txid m) (msg_attributes m)) < 65536"

lemma padded_bounds: "n \<le> padded n" "padded n < n + 4" "padded n mod 4 = 0"
  unfolding padded_def by presburger+

lemma length_tlv: "length (tlv t a) = 4 + padded (length (encode_value a t))"
  using padded_bounds(1) by (simp add: tlv_def Let_def)

lemma body_simps [simp]:
  "body_bytes t [] = []" "body_bytes t (a # as) = tlv t a @ body_bytes t as"
  "body_bytes t (as @ bs) = body_bytes t as @ body_bytes t bs"
  by (simp_all add: body_bytes_def)

lemma length_body_mod: "length (body_bytes t as) mod 4 = 0"
proof (induction as)
  case (Cons a as)
  then show ?case using padded_bounds(3) [of "length (encode_value a t)"]
    by (simp add: length_tlv) presburger
qed simp

lemma pad_of_padded: "(4 - n mod 4) mod 4 = padded n - n"
proof -
  define q r where "q = n div 4" and "r = n mod 4"
  have n: "n = 4 * q + r" by (simp add: q_def r_def)
  have "r < 4" by (simp add: r_def)
  then consider "r = 0" | "r = 1" | "r = 2" | "r = 3" by linarith
  then show ?thesis by cases (simp_all add: r_def [symmetric] padded_def, simp_all add: n)
qed

lemma encode_into_tlv: "length out mod 4 = 0 \<Longrightarrow> encode_into t out a = out @ tlv t a"
proof -
  assume "length out mod 4 = 0"
  then have "(length out + length (encode_value a t)) mod 4 = length (encode_value a t) mod 4"
    by presburger
  then show ?thesis by (simp add: encode_into_def pad4_def Let_def tlv_def flip: pad_of_padded)
qed

lemma encode_into_body: "length out mod 4 = 0 \<Longrightarrow> foldl (encode_into t) out as = out @ body_bytes t as"
proof (induction as arbitrary: out)
  case (Cons a as)
  then have "length (out @ tlv t a) mod 4 = 0"
    using length_body_mod [of t "[a]"] by simp presburger
  then show ?case using Cons by (simp add: encode_into_tlv)
qed simp

lemma length_header: "length (msg_txid m) = 12 \<Longrightarrow> length (write_header m l) = 20"
  by (simp add: write_header_def)

lemma set_length_header:
  "set_length n (write_header m l @ rest) = write_header m (of_nat n) @ rest"
  by (simp add: set_length_def write_header_def copy_at_def)

lemma encode_message_form:
  assumes "length (msg_txid m) = 12"
  shows "encode_message m
    = write_header m (of_nat (length (body_bytes (msg_txid m) (msg_attributes m)))) @ body_bytes (msg_txid m) (msg_attributes m)"
  using assms by (simp add: encode_message_def length_header encode_into_body set_length_header stun_sizes)

lemma header_reads:
  assumes "length (msg_txid m) = 12"
  shows "slice 0 2 (write_header m l @ rest) = be_u16 (msg_typ m)"
    and "slice 2 4 (write_header m l @ rest) = be_u16 l"
    and "slice 4 8 (write_header m l @ rest) = be_u32 MAGIC_COOKIE"
    and "slice 8 20 (write_header m l @ rest) = msg_txid m"
  using assms by (simp_all add: write_header_def slice_def)

lemma value_length_bound:
  assumes "a \<in> set as" and "length (body_bytes t as) < n"
  shows "length (encode_value a t) < n"
proof -
  have "length (tlv t a) \<le> length (body_bytes t as)"
    using assms(1) by (induction as) auto
  then show ?thesis using assms(2) padded_bounds(1) [of "length (encode_value a t)"] by (simp add: length_tlv)
qed

lemma tlv_reads:
  assumes "length (encode_value a t) < 65536"
  shows "u16_be (slice 0 2 (tlv t a @ rest)) = attr_kind a"
    and "unat (u16_be (slice 2 4 (tlv t a @ rest))) = length (encode_value a t)"
    and "slice 4 (4 + length (encode_value a t)) (tlv t a @ rest) = encode_value a t"
  using assms by (simp_all add: tlv_def Let_def slice_def unat_u16_be_of_nat)

lemma tlv_nonempty [simp]: "tlv t a \<noteq> []"
  using length_tlv [of t a] by auto

lemma parse_attributes_tlv:
  assumes "attr_wf a" and "length t = 12" and v: "length (encode_value a t) < 65536"
  shows "parse_attributes t (tlv t a @ rest) = rmap (Cons a) (parse_attributes t rest)"
proof -
  have l: "length (tlv t a) = 4 + padded (length (encode_value a t))" by (rule length_tlv)
  have p: "length (encode_value a t) \<le> padded (length (encode_value a t))" by (rule padded_bounds)
  have "drop (4 + padded (length (encode_value a t))) (tlv t a @ rest) = rest" by (simp add: l)
  then show ?thesis
    using attribute_roundtrip [OF assms(1,2)] l p
    by (subst parse_attributes.simps) (simp add: tlv_reads [OF v] Let_def)
qed

lemma parse_attributes_body:
  assumes "length t = 12"
  shows "list_all attr_wf as \<Longrightarrow> length (body_bytes t as) < 65536 \<Longrightarrow> parse_attributes t (body_bytes t as) = Ok as"
proof (induction as)
  case Nil
  show ?case by (simp add: parse_attributes.simps)
next
  case (Cons a as)
  then have "length (encode_value a t) < 65536" using value_length_bound [of a "a # as" t] by simp
  then show ?case using Cons assms by (simp add: parse_attributes_tlv)
qed

lemma parse_encoded:
  assumes "message_wf m"
  shows "parse_message (encode_message m @ extra) = Ok m"
proof -
  let ?b = "body_bytes (msg_txid m) (msg_attributes m)"
  have t: "length (msg_txid m) = 12" and b: "length ?b < 65536" "length ?b mod 4 = 0"
    and p: "parse_attributes (msg_txid m) ?b = Ok (msg_attributes m)"
    using assms length_body_mod parse_attributes_body by (auto simp: message_wf_def)
  have n: "unat (of_nat (length ?b) :: u16) = length ?b" using b(1) by (rule unat_u16_be_of_nat)
  have s: "slice 20 (20 + length ?b) (write_header m l @ ?b @ extra) = ?b" for l
    using t by (simp add: slice_def length_header)
  show ?thesis
    unfolding parse_message_def encode_message_form [OF t] append_assoc header_reads [OF t] stun_sizes
    using b n p s t by (simp add: length_header Let_def)
qed

section \<open>Integrity and fingerprint\<close>

text \<open>The search over attributes that are not the one wanted, up to the first that is.\<close>

lemma find_raw_body:
  assumes "\<forall>a \<in> set as. attr_kind a \<noteq> want \<and> length (encode_value a t) < 65536"
    and "attr_kind a = want" and "length (encode_value a t) < 65536"
    and "length pre + length (body_bytes t as) + 4 \<le> ending"
  shows "find_raw_from (pre @ body_bytes t as @ tlv t a @ post) want ending (length pre)
    = Some (length pre + length (body_bytes t as), length (encode_value a t))"
  using assms
proof (induction as arbitrary: pre)
  case Nil
  have "slice (length pre) (length pre + 2) (pre @ tlv t a @ post) = slice 0 2 (tlv t a @ post)"
    "slice (length pre + 2) (length pre + 4) (pre @ tlv t a @ post) = slice 2 4 (tlv t a @ post)"
    by (simp_all add: slice_def)
  then show ?case using Nil by (subst find_raw_from.simps) (simp add: tlv_reads Let_def)
next
  case (Cons b as)
  let ?rest = "body_bytes t as @ tlv t a @ post"
  have b: "attr_kind b \<noteq> want" "length (encode_value b t) < 65536" using Cons.prems(1) by auto
  have l: "length (tlv t b) = 4 + padded (length (encode_value b t))" by (rule length_tlv)
  have "slice (length pre) (length pre + 2) (pre @ tlv t b @ ?rest) = slice 0 2 (tlv t b @ ?rest)"
    "slice (length pre + 2) (length pre + 4) (pre @ tlv t b @ ?rest) = slice 2 4 (tlv t b @ ?rest)"
    by (simp_all add: slice_def)
  moreover have "length pre + 4 \<le> ending" using Cons.prems(4) l by simp
  ultimately have "find_raw_from (pre @ tlv t b @ ?rest) want ending (length pre)
      = find_raw_from ((pre @ tlv t b) @ ?rest) want ending (length (pre @ tlv t b))"
    using b l by (subst find_raw_from.simps) (simp add: tlv_reads Let_def)
  also have "\<dots> = Some (length (pre @ tlv t b) + length (body_bytes t as), length (encode_value a t))"
    by (rule Cons.IH) (use Cons.prems in auto)
  finally show ?case by simp
qed

lemma find_raw_encoded:
  assumes t: "length (msg_txid m) = 12" and as: "msg_attributes m = as @ a # bs"
    and len: "length (body_bytes (msg_txid m) (msg_attributes m)) < 65536"
    and no: "\<forall>x \<in> set as. attr_kind x \<noteq> attr_kind a"
  shows "find_raw_attribute (encode_message m) (attr_kind a)
    = Some (20 + length (body_bytes (msg_txid m) as), length (encode_value a (msg_txid m)))"
proof -
  let ?t = "msg_txid m"
  let ?l = "of_nat (length (body_bytes ?t (msg_attributes m))) :: u16"
  have e: "encode_message m = write_header m ?l @ body_bytes ?t as @ tlv ?t a @ body_bytes ?t bs"
    using encode_message_form [OF t] by (simp add: as)
  have h: "length (write_header m ?l) = 20" using t by (rule length_header)
  have n: "unat ?l = length (body_bytes ?t (msg_attributes m))" using len by (rule unat_u16_be_of_nat)
  have v: "length (encode_value x ?t) < 65536" if "x \<in> set (msg_attributes m)" for x
    using value_length_bound that len by blast
  have "find_raw_from (write_header m ?l @ body_bytes ?t as @ tlv ?t a @ body_bytes ?t bs) (attr_kind a)
      (length (encode_message m)) (length (write_header m ?l))
    = Some (length (write_header m ?l) + length (body_bytes ?t as), length (encode_value a ?t))"
  proof (rule find_raw_body)
    show "\<forall>x \<in> set as. attr_kind x \<noteq> attr_kind a \<and> length (encode_value x ?t) < 65536"
      using no v as by auto
    show "length (encode_value a ?t) < 65536" using v as by auto
    show "length (write_header m ?l) + length (body_bytes ?t as) + 4 \<le> length (encode_message m)"
      using e by (simp add: length_tlv)
  qed simp
  moreover have "min (20 + unat ?l) (length (encode_message m)) = length (encode_message m)"
    unfolding n using encode_message_form [OF t] length_header [OF t] by simp
  moreover have "slice 2 4 (encode_message m) = be_u16 ?l" "4 \<le> length (encode_message m)"
    using e h header_reads(2) [OF t] by simp_all
  ultimately show ?thesis by (simp add: find_raw_attribute_def Let_def e [symmetric] h stun_sizes)
qed

text \<open>The bytes MESSAGE-INTEGRITY covers, and the message a key signs.\<close>

definition covered :: "message \<Rightarrow> attribute list \<Rightarrow> nat \<Rightarrow> bytes" where
  "covered m as n =
     write_header m (of_nat (length (body_bytes (msg_txid m) as) + n)) @ body_bytes (msg_txid m) as"

definition signed_attributes :: "stun_crates \<Rightarrow> bytes \<Rightarrow> message \<Rightarrow> attribute list \<Rightarrow> attribute list" where
  "signed_attributes H key m as =
     (let t1 = as @ [MessageIntegrity (the (hmac_sha1 H key (covered m as INTEGRITY_SIZE)))]
      in t1 @ [Fingerprint (crc32_ieee (covered m t1 FINGERPRINT_SIZE) XOR FINGERPRINT_XOR)])"

lemma header_of_attributes [simp]: "write_header (m\<lparr>msg_attributes := as\<rparr>) l = write_header m l"
  by (simp add: write_header_def)

lemma covered_attributes [simp]: "covered (m\<lparr>msg_attributes := as\<rparr>) bs n = covered m bs n"
  by (simp add: covered_def)

lemma integrity_tlv: "length h = 20 \<Longrightarrow> tlv t (MessageIntegrity h) = be_u16 MESSAGE_INTEGRITY @ be_u16 20 @ h"
  by (simp add: tlv_def padded_def)

lemma fingerprint_tlv: "tlv t (Fingerprint c) = be_u16 FINGERPRINT @ be_u16 4 @ be_u32 c"
  by (simp add: tlv_def padded_def)

lemma encode_with_integrity_is_encode:
  assumes "hmac_sha1_law H" and t: "length (msg_txid m) = 12"
  shows "encode_with_integrity H m key
    = Ok (encode_message (m\<lparr>msg_attributes := signed_attributes H key m (filter (\<lambda>a. \<not> is_digest a) (msg_attributes m))\<rparr>))"
proof -
  let ?as = "filter (\<lambda>a. \<not> is_digest a) (msg_attributes m)"
  obtain tag where tag: "hmac_sha1 H key (covered m ?as INTEGRITY_SIZE) = Some tag" "length tag = 20"
    using assms(1) by (auto simp: hmac_sha1_law_def)
  have f: "foldl (encode_into (msg_txid m)) (write_header m l) ?as = write_header m l @ body_bytes (msg_txid m) ?as" for l
    by (rule encode_into_body) (simp add: length_header [OF t])
  show ?thesis
    using tag t unfolding encode_with_integrity_def
    by (simp add: f set_length_header length_header covered_def encode_message_form signed_attributes_def
        integrity_tlv fingerprint_tlv stun_sizes Let_def add.commute)
qed

lemma verify_integrity_encoded:
  assumes t: "length (msg_txid m) = 12" and as: "msg_attributes m = as @ MessageIntegrity tag # bs"
    and len: "length (body_bytes (msg_txid m) (msg_attributes m)) < 65536"
    and no: "\<forall>x \<in> set as. attr_kind x \<noteq> MESSAGE_INTEGRITY"
    and tag: "length tag = 20" "hmac_sha1 H key (covered m as INTEGRITY_SIZE) = Some tag'"
  shows "verify_integrity H (encode_message m) key = (if tag' = tag then Ok () else Err BadIntegrity)"
proof -
  let ?t = "msg_txid m" and ?n = "length (body_bytes (msg_txid m) as)"
  have f: "find_raw_attribute (encode_message m) MESSAGE_INTEGRITY = Some (20 + ?n, 20)"
    using find_raw_encoded [OF t as len] no tag(1) by simp
  have e: "encode_message m = write_header m (of_nat (length (body_bytes ?t (msg_attributes m))))
      @ body_bytes ?t as @ (be_u16 MESSAGE_INTEGRITY @ be_u16 20 @ tag) @ body_bytes ?t bs"
    using encode_message_form [OF t] by (simp add: as integrity_tlv tag(1))
  have "slice (20 + ?n + 4) (20 + ?n + 24) (encode_message m) = tag"
    unfolding e using t tag(1) by (simp add: slice_def length_header)
  moreover have "slice 0 2 (encode_message m) @ be_u16 l @ slice 4 (20 + ?n) (encode_message m)
      = write_header m l @ body_bytes ?t as" for l
    unfolding e using t by (simp add: slice_def write_header_def)
  ultimately show ?thesis
    using tag f e t unfolding verify_integrity_def
    by (simp add: stun_sizes covered_def length_header Let_def)
qed

lemma verify_fingerprint_encoded:
  assumes t: "length (msg_txid m) = 12" and as: "msg_attributes m = as @ Fingerprint c # bs"
    and len: "length (body_bytes (msg_txid m) (msg_attributes m)) < 65536"
    and no: "\<forall>x \<in> set as. attr_kind x \<noteq> FINGERPRINT"
  shows "verify_fingerprint (encode_message m)
    = (if crc32_ieee (covered m as FINGERPRINT_SIZE) XOR FINGERPRINT_XOR = c then Ok () else Err BadFingerprint)"
proof -
  let ?t = "msg_txid m" and ?n = "length (body_bytes (msg_txid m) as)"
  have f: "find_raw_attribute (encode_message m) FINGERPRINT = Some (20 + ?n, 4)"
    using find_raw_encoded [OF t as len] no by simp
  have e: "encode_message m = write_header m (of_nat (length (body_bytes ?t (msg_attributes m))))
      @ body_bytes ?t as @ (be_u16 FINGERPRINT @ be_u16 4 @ be_u32 c) @ body_bytes ?t bs"
    using encode_message_form [OF t] by (simp add: as fingerprint_tlv)
  have "slice (20 + ?n + 4) (20 + ?n + 8) (encode_message m) = be_u32 c"
    unfolding e using t by (simp add: slice_def length_header)
  moreover have "set_length n (take (20 + ?n) (encode_message m)) = write_header m (of_nat n) @ body_bytes ?t as" for n
    unfolding e using t by (simp add: length_header set_length_header)
  ultimately show ?thesis
    using f e t unfolding verify_fingerprint_def
    by (simp add: stun_sizes covered_def length_header Let_def)
qed

lemma plain_kinds: "attr_wf a \<Longrightarrow> \<not> is_digest a \<Longrightarrow> attr_kind a \<noteq> MESSAGE_INTEGRITY \<and> attr_kind a \<noteq> FINGERPRINT"
  by (cases a) (auto simp: attr_kinds KNOWN_KINDS_def)

lemma length_body_filter: "length (body_bytes t (filter P as)) \<le> length (body_bytes t as)"
  by (induction as) auto

lemma hmac_law_tag:
  assumes "hmac_sha1_law H"
  shows "hmac_sha1 H key d = Some (the (hmac_sha1 H key d))" "length (the (hmac_sha1 H key d)) = 20"
  using assms by (metis hmac_sha1_law_def option.sel)+

text \<open>
  A datagram with plain attributes, then MESSAGE-INTEGRITY under \<open>key\<close>, then any plain attributes, then
  the fingerprint of all of it.
\<close>

definition signed_then :: "stun_crates \<Rightarrow> bytes \<Rightarrow> message \<Rightarrow> attribute list \<Rightarrow> message" where
  "signed_then H key m extra =
     (let t1 = msg_attributes m @ MessageIntegrity (the (hmac_sha1 H key (covered m (msg_attributes m) INTEGRITY_SIZE))) # extra
      in m\<lparr>msg_attributes := t1 @ [Fingerprint (crc32_ieee (covered m t1 FINGERPRINT_SIZE) XOR FINGERPRINT_XOR)]\<rparr>)"

definition plain_attributes :: "attribute list \<Rightarrow> bool" where
  "plain_attributes as \<longleftrightarrow> list_all attr_wf as \<and> (\<forall>a \<in> set as. \<not> is_digest a)"

lemma body_signed_then:
  assumes "hmac_sha1_law H"
  shows "length (body_bytes (msg_txid m) (msg_attributes (signed_then H key m extra)))
    = length (body_bytes (msg_txid m) (msg_attributes m)) + length (body_bytes (msg_txid m) extra) + 32"
  using hmac_law_tag [OF assms] by (simp add: signed_then_def Let_def integrity_tlv fingerprint_tlv)

lemma signed_then_verifies:
  assumes H: "hmac_sha1_law H" and t: "length (msg_txid m) = 12"
    and as: "plain_attributes (msg_attributes m)" "plain_attributes extra"
    and len: "length (body_bytes (msg_txid m) (msg_attributes m)) + length (body_bytes (msg_txid m) extra) + 32 < 65536"
  shows "verify_integrity H (encode_message (signed_then H key m extra)) key = Ok ()"
    and "verify_fingerprint (encode_message (signed_then H key m extra)) = Ok ()"
    and "parse_message (encode_message (signed_then H key m extra)) = Ok (signed_then H key m extra)"
proof -
  let ?s = "signed_then H key m extra"
  let ?tag = "the (hmac_sha1 H key (covered m (msg_attributes m) INTEGRITY_SIZE))"
  have tag: "length ?tag = 20" by (rule hmac_law_tag [OF H])
  obtain c where c: "msg_attributes ?s = (msg_attributes m @ MessageIntegrity ?tag # extra) @ [Fingerprint c]"
    "c = crc32_ieee (covered m (msg_attributes m @ MessageIntegrity ?tag # extra) FINGERPRINT_SIZE) XOR FINGERPRINT_XOR"
    by (simp add: signed_then_def Let_def)
  have t': "msg_txid ?s = msg_txid m" by (simp add: signed_then_def Let_def)
  have cov: "covered ?s xs n = covered m xs n" for xs n by (simp add: signed_then_def Let_def)
  have len': "length (body_bytes (msg_txid ?s) (msg_attributes ?s)) < 65536"
    using len body_signed_then [OF H] t' by simp
  have kinds: "attr_kind a \<noteq> MESSAGE_INTEGRITY \<and> attr_kind a \<noteq> FINGERPRINT"
    if "a \<in> set (msg_attributes m) \<union> set extra" for a
    using that as plain_kinds by (auto simp: plain_attributes_def list_all_iff)
  show "verify_integrity H (encode_message ?s) key = Ok ()"
    using verify_integrity_encoded [of ?s "msg_attributes m" ?tag "extra @ [Fingerprint c]" H key ?tag]
      t t' c(1) len' kinds tag hmac_law_tag(1) [OF H] by (simp add: cov)
  have "FINGERPRINT \<noteq> MESSAGE_INTEGRITY" by (simp add: attr_kinds)
  then have "\<forall>x \<in> set (msg_attributes m @ MessageIntegrity ?tag # extra). attr_kind x \<noteq> FINGERPRINT"
    using kinds by auto
  then show "verify_fingerprint (encode_message ?s) = Ok ()"
    using verify_fingerprint_encoded [OF _ c(1) len'] t t' by (simp add: cov c(2))
  have "message_wf ?s"
    using as tag t t' len' c(1) by (auto simp: message_wf_def plain_attributes_def list_all_iff)
  then show "parse_message (encode_message ?s) = Ok ?s" using parse_encoded [of ?s "[]"] by simp
qed

lemma encode_with_integrity_signed_then:
  assumes "hmac_sha1_law H" and "length (msg_txid m) = 12"
  shows "encode_with_integrity H m key
    = Ok (encode_message (signed_then H key (m\<lparr>msg_attributes := filter (\<lambda>a. \<not> is_digest a) (msg_attributes m)\<rparr>) []))"
  using encode_with_integrity_is_encode [OF assms]
  by (simp add: signed_then_def signed_attributes_def Let_def)

lemma plain_filter: "message_wf m \<Longrightarrow> plain_attributes (filter (\<lambda>a. \<not> is_digest a) (msg_attributes m))"
  by (auto simp: message_wf_def plain_attributes_def list_all_iff)

text \<open>
  C29. Round trip with credentials: a well-formed message whose attributes leave room for the two
  digests is encoded under a key so that MESSAGE-INTEGRITY verifies under that key, FINGERPRINT
  verifies, and the parser returns the message with exactly its attributes other than digests,
  followed by the two digests; without credentials it returns the message itself, whatever bytes
  follow it in the datagram.
\<close>

theorem stun_messages_roundtrip:
  assumes "hmac_sha1_law H" and "message_wf m"
    and "length (body_bytes (msg_txid m) (msg_attributes m)) + 32 < 65536"
  shows "parse_message (encode_message m @ extra) = Ok m
    \<and> (\<exists>buf tag crc. encode_with_integrity H m key = Ok buf \<and> verify_integrity H buf key = Ok ()
        \<and> verify_fingerprint buf = Ok ()
        \<and> parse_message buf = Ok (m\<lparr>msg_attributes := filter (\<lambda>a. \<not> is_digest a) (msg_attributes m)
            @ [MessageIntegrity tag, Fingerprint crc]\<rparr>))"
proof -
  let ?m = "m\<lparr>msg_attributes := filter (\<lambda>a. \<not> is_digest a) (msg_attributes m)\<rparr>"
  let ?s = "signed_then H key ?m []"
  have t: "length (msg_txid m) = 12" using assms(2) by (simp add: message_wf_def)
  have len: "length (body_bytes (msg_txid ?m) (msg_attributes ?m)) + length (body_bytes (msg_txid ?m) []) + 32 < 65536"
    using assms(3) length_body_filter [of "msg_txid m" "\<lambda>a. \<not> is_digest a" "msg_attributes m"] by simp
  note v = signed_then_verifies [OF assms(1) _ _ _ len, of key]
  have "\<exists>tag crc. ?s = m\<lparr>msg_attributes := filter (\<lambda>a. \<not> is_digest a) (msg_attributes m)
      @ [MessageIntegrity tag, Fingerprint crc]\<rparr>"
    by (simp add: signed_then_def Let_def) blast
  then show ?thesis
    using v plain_filter [OF assms(2)] t encode_with_integrity_signed_then [OF assms(1) t] parse_encoded [OF assms(2)]
    by (auto simp: plain_attributes_def)
qed

text \<open>A crate instance for the witnesses: the digest is the start of key and data.\<close>

definition demo_stun :: stun_crates where
  "demo_stun = \<lparr>hmac_sha1 = (\<lambda>key d. Some (take 20 (key @ d @ zeros 20))), md5 = (\<lambda>d. take 16 (d @ zeros 16))\<rparr>"

lemma demo_stun_law: "hmac_sha1_law demo_stun"
  by (auto simp: hmac_sha1_law_def demo_stun_def min_def)

lemma demo_addr_wf [simp]: "addr_wf demo_addr"
  by (simp add: addr_wf_def demo_addr_def)

definition demo_binding :: message where "demo_binding = binding_success (zeros 12) demo_addr"

lemma software_valid [simp]: "utf8_valid software"
  by (rule ascii_valid) (simp add: software_def ascii_def)

lemma demo_binding_facts:
  "message_wf demo_binding" "length (body_bytes (msg_txid demo_binding) (msg_attributes demo_binding)) = 32"
proof -
  have "length (encode_address demo_addr (zeros 12) True) = 8" by (simp add: length_encode_address) (simp add: demo_addr_def)
  moreover have "length software = 15" by (simp add: software_def)
  ultimately show len: "length (body_bytes (msg_txid demo_binding) (msg_attributes demo_binding)) = 32"
    by (simp add: demo_binding_def binding_success_def message_new_def push_attr_def length_tlv padded_def)
  show "message_wf demo_binding"
    using len unfolding message_wf_def
    by (simp add: demo_binding_def binding_success_def message_new_def push_attr_def)
qed

theorem stun_messages_roundtrip_witness:
  "\<exists>buf. encode_with_integrity demo_stun demo_binding [1, 2] = Ok buf \<and> verify_integrity demo_stun buf [1, 2] = Ok ()
    \<and> parse_message (encode_message demo_binding @ [9]) = Ok demo_binding"
  using stun_messages_roundtrip [OF demo_stun_law demo_binding_facts(1), of "[9]" "[1, 2]"] demo_binding_facts(2)
  by auto

lemma find_append: "find P (xs @ ys) = (case find P xs of Some x \<Rightarrow> Some x | None \<Rightarrow> find P ys)"
  by (induction xs) auto

text \<open>
  What anyone on the path can do with a signed datagram, without the key: cut off the fingerprint,
  append attributes, set the length and add a new fingerprint.
\<close>

definition append_attributes :: "bytes \<Rightarrow> bytes \<Rightarrow> attribute list \<Rightarrow> bytes" where
  "append_attributes t sent extra =
     (let out = take (length sent - FINGERPRINT_SIZE) sent @ body_bytes t extra;
          out = set_length (length out - STUN_HEADER_LEN + FINGERPRINT_SIZE) out
      in out @ be_u16 FINGERPRINT @ be_u16 4 @ be_u32 (crc32_ieee out XOR FINGERPRINT_XOR))"

lemma append_attributes_signed:
  assumes "hmac_sha1_law H" and t: "length (msg_txid m) = 12"
  shows "append_attributes (msg_txid m) (encode_message (signed_then H key m [])) extra
    = encode_message (signed_then H key m extra)"
proof -
  let ?t = "msg_txid m" and ?as = "msg_attributes m"
  let ?mi = "tlv (msg_txid m) (MessageIntegrity (the (hmac_sha1 H key (covered m (msg_attributes m) INTEGRITY_SIZE))))"
  obtain l c where e: "encode_message (signed_then H key m [])
      = write_header m l @ body_bytes ?t ?as @ ?mi @ be_u16 FINGERPRINT @ be_u16 4 @ be_u32 c"
    using encode_message_form [of "signed_then H key m []"] t
    by (simp add: signed_then_def Let_def fingerprint_tlv)
  have mi: "length ?mi = 24" using hmac_law_tag(2) [OF assms(1)] by (simp add: integrity_tlv)
  have "take (length (encode_message (signed_then H key m [])) - 8) (encode_message (signed_then H key m []))
      = write_header m l @ body_bytes ?t ?as @ ?mi"
    unfolding e by simp
  then show ?thesis
    using encode_message_form [of "signed_then H key m extra"] t mi
    by (simp add: append_attributes_def signed_then_def Let_def stun_sizes fingerprint_tlv length_header
        set_length_header covered_def add.commute add.left_commute)
qed

text \<open>
  What MESSAGE-INTEGRITY does not protect: attributes appended to a signed datagram by somebody
  without the key leave both verifications successful, and the parser hands them out. The readers
  of a message then see an appended attribute wherever the signed part has none of that kind.
\<close>

theorem appended_attributes_verify:
  assumes "hmac_sha1_law H" and "length (msg_txid m) = 12"
    and "plain_attributes (msg_attributes m)" and "plain_attributes extra"
    and "length (body_bytes (msg_txid m) (msg_attributes m)) + length (body_bytes (msg_txid m) extra) + 32 < 65536"
  shows "\<exists>sent m'. encode_with_integrity H m key = Ok sent
    \<and> verify_integrity H (append_attributes (msg_txid m) sent extra) key = Ok ()
    \<and> verify_fingerprint (append_attributes (msg_txid m) sent extra) = Ok ()
    \<and> parse_message (append_attributes (msg_txid m) sent extra) = Ok m'
    \<and> (\<forall>k. k \<noteq> MESSAGE_INTEGRITY \<longrightarrow> k \<noteq> FINGERPRINT \<longrightarrow>
         get_attr m' k = (case get_attr m k of Some a \<Rightarrow> Some a | None \<Rightarrow> find (\<lambda>a. attr_kind a = k) extra))"
proof -
  have "filter (\<lambda>a. \<not> is_digest a) (msg_attributes m) = msg_attributes m"
    using assms(3) by (auto simp: plain_attributes_def intro!: filter_True)
  then have e: "encode_with_integrity H m key = Ok (encode_message (signed_then H key m []))"
    using encode_with_integrity_signed_then [OF assms(1,2)] by simp
  have "get_attr (signed_then H key m extra) k
      = (case get_attr m k of Some a \<Rightarrow> Some a | None \<Rightarrow> find (\<lambda>a. attr_kind a = k) extra)"
    if "k \<noteq> MESSAGE_INTEGRITY" "k \<noteq> FINGERPRINT" for k
    using that by (auto simp: get_attr_def signed_then_def Let_def find_append split: option.splits)
  then show ?thesis
    using e signed_then_verifies [OF assms] append_attributes_signed [OF assms(1,2)] by auto
qed

theorem appended_attributes_witness:
  "\<exists>sent m'. encode_with_integrity demo_stun (binding_request (zeros 12)) [1, 2] = Ok sent
    \<and> verify_integrity demo_stun (append_attributes (zeros 12) sent [UseCandidate]) [1, 2] = Ok ()
    \<and> parse_message (append_attributes (zeros 12) sent [UseCandidate]) = Ok m'
    \<and> get_attr (binding_request (zeros 12)) USE_CANDIDATE = None \<and> get_attr m' USE_CANDIDATE = Some UseCandidate"
proof -
  let ?m = "binding_request (zeros 12)"
  have s: "length software = 15" by (simp add: software_def)
  have len: "length (body_bytes (msg_txid ?m) (msg_attributes ?m)) + length (body_bytes (msg_txid ?m) [UseCandidate]) + 32 < 65536"
    using s by (simp add: binding_request_def message_new_def push_attr_def length_tlv padded_def)
  have n: "get_attr ?m USE_CANDIDATE = None" "msg_txid ?m = zeros 12"
    by (simp_all add: get_attr_def binding_request_def message_new_def push_attr_def attr_kinds)
  have k: "USE_CANDIDATE \<noteq> MESSAGE_INTEGRITY" "USE_CANDIDATE \<noteq> FINGERPRINT" by (simp_all add: attr_kinds)
  have p: "length (msg_txid ?m) = 12" "plain_attributes (msg_attributes ?m)" "plain_attributes [UseCandidate]"
    by (simp_all add: plain_attributes_def binding_request_def message_new_def push_attr_def)
  obtain sent m' where "encode_with_integrity demo_stun ?m [1, 2] = Ok sent"
    "verify_integrity demo_stun (append_attributes (zeros 12) sent [UseCandidate]) [1, 2] = Ok ()"
    "parse_message (append_attributes (zeros 12) sent [UseCandidate]) = Ok m'"
    "get_attr m' USE_CANDIDATE = Some UseCandidate"
    using appended_attributes_verify [OF demo_stun_law p len, of "[1, 2]"] k n by auto
  then show ?thesis using n(1) by blast
qed

section \<open>The checksum\<close>

lemma crc_mask: "0xEDB88320 AND (- (x AND 1) :: u32) = (if bit x 0 then 0xEDB88320 else 0)"
  by (cases "bit x 0") (simp_all add: and_one_eq bit_0 mod_2_eq_odd)

lemma xor_cancel: "x XOR z = y XOR (z :: 'a::len word) \<Longrightarrow> x = y"
proof -
  assume "x XOR z = y XOR z"
  then have "(x XOR z) XOR z = (y XOR z) XOR z" by simp
  then show "x = y" by (simp only: xor.assoc xor_self_eq xor.right_neutral)
qed

lemma crc_bit_inj: "crc_bit x = crc_bit y \<Longrightarrow> x = y"
proof -
  assume e: "crc_bit x = crc_bit y"
  have top: "bit (crc_bit z) 31 = bit z 0" for z
    using bit_imp_le_length [of z 32] by (auto simp: crc_bit_def Let_def crc_mask bit_simps)
  have low: "bit x 0 = bit y 0" using e top by metis
  then have d: "drop_bit 1 x = drop_bit 1 y"
    using e unfolding crc_bit_def Let_def crc_mask by (auto dest: xor_cancel)
  show "x = y"
  proof (rule bit_word_eqI)
    fix n :: nat assume "n < LENGTH(32)"
    show "bit x n = bit y n"
    proof (cases n)
      case (Suc k)
      then show ?thesis using d by (metis bit_drop_bit_eq comp_apply plus_1_eq_Suc)
    qed (simp add: low)
  qed
qed

lemma crc_bits_inj: "(crc_bit ^^ n) x = (crc_bit ^^ n) y \<Longrightarrow> x = y"
  by (induction n arbitrary: x y) (auto dest: crc_bit_inj)

lemma crc_fold_inj: "foldl crc_byte x bs = foldl crc_byte y bs \<Longrightarrow> x = y"
proof (induction bs arbitrary: x y)
  case (Cons b bs)
  then have "crc_byte x b = crc_byte y b" by auto
  then have "x XOR ucast b = y XOR (ucast b :: u32)" unfolding crc_byte_def by (rule crc_bits_inj)
  then show ?case by (rule xor_cancel)
qed simp

lemma crc_byte_inj: "crc_byte x b = crc_byte x c \<Longrightarrow> b = c"
proof -
  assume "crc_byte x b = crc_byte x c"
  then have "x XOR ucast b = x XOR (ucast c :: u32)" unfolding crc_byte_def by (rule crc_bits_inj)
  then have "ucast b = (ucast c :: u32)" using xor_cancel by (metis xor.commute)
  then have "unat (ucast b :: u32) = unat (ucast c :: u32)" by (rule arg_cong)
  moreover have "unat b < 4294967296" "unat c < 4294967296" using unat_bound [of b] unat_bound [of c] by simp_all
  ultimately have "unat b = unat c" by (simp add: unat_ucast_mod)
  then show "b = c" by (rule unsigned_word_eqI)
qed

text \<open>
  The fingerprint notices every change of one byte: two byte strings that differ in exactly one
  place have different CRC-32 values.
\<close>

theorem crc_detects_one_changed_byte: "crc32_ieee (xs @ b # ys) = crc32_ieee (xs @ c # ys) \<longleftrightarrow> b = c"
proof
  assume "crc32_ieee (xs @ b # ys) = crc32_ieee (xs @ c # ys)"
  then have "foldl crc_byte (crc_byte (foldl crc_byte 0xFFFFFFFF xs) b) ys
      = foldl crc_byte (crc_byte (foldl crc_byte 0xFFFFFFFF xs) c) ys"
    unfolding crc32_ieee_def by simp
  then show "b = c" by (rule crc_byte_inj [OF crc_fold_inj])
qed simp

text \<open>
  Message types: for every 12-bit method and every class, method and class are read back from
  the interleaved type, and the two top bits that tell STUN from other traffic are clear.
\<close>

theorem message_types_roundtrip:
  assumes "m < 0x1000"
  shows "method_of (message_type m c) = m \<and> class_of (message_type m c) = c
    \<and> \<not> bit (message_type m c) 14 \<and> \<not> bit (message_type m c) 15"
proof -
  have hi: "\<not> bit m 12" "\<not> bit m 13" "\<not> bit m 14" "\<not> bit m 15" using u16_method_bits [OF assms] by auto
  have "\<not> bit (message_type m c) 14" "\<not> bit (message_type m c) 15"
    by (cases c; simp add: message_type_def bit_simps hi)+
  then show ?thesis using message_type_method [OF assms] message_type_class by simp
qed

theorem message_types_roundtrip_witness:
  "method_of (message_type METHOD_CHANNEL_BIND ErrorResponse) = METHOD_CHANNEL_BIND
    \<and> class_of (message_type METHOD_CHANNEL_BIND ErrorResponse) = ErrorResponse"
  using message_types_roundtrip [of METHOD_CHANNEL_BIND ErrorResponse] by (simp add: METHOD_CHANNEL_BIND_def)

end
