(* ===== verification/Turn.thy ===== *)
theory Turn
  imports Stun "HOL-Library.AList"
begin

text \<open>
  TURN, src/src/ghost/net/turn.rs: the ChannelData framing, the server as the pure state machine it is
  in the code (allocations, permissions, channels, long-term credentials with issued nonces) and the
  client. The server's hash maps are association lists in iteration order, the clock and the nonce a
  challenge draws are arguments. Of the client's asynchronous calls the socket is replaced by the list
  of datagrams that arrive before the deadline; socket errors are not modelled.
\<close>

definition DEFAULT_LIFETIME :: duration where "DEFAULT_LIFETIME = secs 600"
definition MIN_LIFETIME_SECS :: u32 where "MIN_LIFETIME_SECS = 600"
definition DEFAULT_PERMISSION_LIFETIME :: duration where "DEFAULT_PERMISSION_LIFETIME = secs 300"
definition CHANNEL_LIFETIME_SECS :: u32 where "CHANNEL_LIFETIME_SECS = 600"
definition MAX_OUTSTANDING_NONCES :: nat where "MAX_OUTSTANDING_NONCES = 4096"

datatype turn_error =
  StunErr stun_error | TimeoutErr duration | Rejected u16 bytes | MissingCredentials | NoAllocation
| NoChannelAvailable | Unauthorized | MalformedTurn string

section \<open>ChannelData\<close>

definition channel_data :: "u16 \<Rightarrow> bytes \<Rightarrow> bytes" where
  "channel_data channel payload = pad4 (be_u16 channel @ be_u16 (of_nat (length payload)) @ payload)"

definition channel_range :: "u16 \<Rightarrow> bool" where
  "channel_range c \<longleftrightarrow> CHANNEL_NUMBER_MIN \<le> c \<and> c \<le> CHANNEL_NUMBER_MAX"

definition parse_channel_data :: "bytes \<Rightarrow> (u16 \<times> bytes) option" where
  "parse_channel_data raw =
     (if length raw < 4 then None
      else
        (let channel = u16_be (slice 0 2 raw);
             len = unat (u16_be (slice 2 4 raw))
         in if \<not> channel_range channel then None
            else if 4 + len > length raw then None
            else Some (channel, slice 4 (4 + len) raw)))"

section \<open>The server\<close>

datatype outbound =
  ToClient sock_addr bytes
| ToPeer u16 sock_addr bytes

record server_allocation =
  sv_relay_port :: u16
  sv_permissions :: "ip_addr \<rightharpoonup> instant"
  sv_channels :: "u16 \<rightharpoonup> sock_addr"
  sv_channel_peers :: "sock_addr \<rightharpoonup> u16"
  sv_expires_at :: instant

record turn_server =
  ts_realm :: bytes
  ts_users :: "bytes \<rightharpoonup> bytes"
  ts_relay_ip :: ip_addr
  ts_port_min :: u16
  ts_port_max :: u16
  ts_allocations :: "(sock_addr \<times> server_allocation) list"
  ts_nonces :: "(bytes \<times> instant) list"
  ts_nonce_lifetime :: duration

definition turn_server_new :: "bytes \<Rightarrow> (bytes \<rightharpoonup> bytes) \<Rightarrow> ip_addr \<Rightarrow> u16 \<Rightarrow> u16 \<Rightarrow> turn_server" where
  "turn_server_new realm users relay_ip port_min port_max =
     \<lparr>ts_realm = realm, ts_users = users, ts_relay_ip = relay_ip, ts_port_min = port_min,
      ts_port_max = port_max, ts_allocations = [], ts_nonces = [], ts_nonce_lifetime = secs 600\<rparr>"

definition expire_allocations :: "turn_server \<Rightarrow> instant \<Rightarrow> turn_server" where
  "expire_allocations s now =
     s\<lparr>ts_allocations := filter (\<lambda>(_, a). sv_expires_at a > now)
         (map (\<lambda>(c, a). (c, a\<lparr>sv_permissions := (\<lambda>ip. case sv_permissions a ip of
              Some expiry \<Rightarrow> if expiry > now then Some expiry else None | None \<Rightarrow> None)\<rparr>))
            (ts_allocations s))\<rparr>"

definition sweep :: "turn_server \<Rightarrow> instant \<Rightarrow> turn_server \<times> nat" where
  "sweep s now =
     (let s' = expire_allocations s now
      in (s', length (ts_allocations s) - length (ts_allocations s')))"

definition free_port :: "turn_server \<Rightarrow> u16 option" where
  "free_port s =
     find (\<lambda>p. \<not> list_ex (\<lambda>(_, a). sv_relay_port a = p) (ts_allocations s))
       (map of_nat [unat (ts_port_min s) ..< Suc (unat (ts_port_max s))])"

text \<open>\<open>fresh\<close> is the random nonce drawn, \<open>clk\<close> the clock read.\<close>

definition issue_nonce :: "turn_server \<Rightarrow> instant \<Rightarrow> bytes \<Rightarrow> turn_server" where
  "issue_nonce s clk fresh =
     (let kept = filter (\<lambda>(_, issued). clk - issued < ts_nonce_lifetime s) (ts_nonces s);
          kept = (if length kept \<ge> MAX_OUTSTANDING_NONCES then [] else kept)
      in s\<lparr>ts_nonces := AList.update fresh clk kept\<rparr>)"

definition authenticate :: "stun_crates \<Rightarrow> turn_server \<Rightarrow> bytes \<Rightarrow> message \<Rightarrow> bytes option" where
  "authenticate H s raw msg =
     (case get_attr msg 0x0006 of
        Some (Username u) \<Rightarrow>
          (let username = from_utf8_lossy u
           in case realm_of msg of
                None \<Rightarrow> None
              | Some realm \<Rightarrow>
                  (if realm \<noteq> ts_realm s then None
                   else case nonce_of msg of
                          None \<Rightarrow> None
                        | Some nonce \<Rightarrow>
                            (if map_of (ts_nonces s) nonce = None then None
                             else case ts_users s username of
                                    None \<Rightarrow> None
                                  | Some password \<Rightarrow>
                                      (let key = long_term_key H username realm password
                                       in if verify_integrity H raw key = Ok () then Some key else None))))
      | _ \<Rightarrow> None)"

definition error_response ::
  "turn_server \<Rightarrow> instant \<Rightarrow> bytes \<Rightarrow> sock_addr \<Rightarrow> bytes \<Rightarrow> u16 \<Rightarrow> u16 \<Rightarrow> string \<Rightarrow> turn_server \<times> outbound list" where
  "error_response s clk fresh dest t m code reason =
     (let resp = push_attr (message_new m ErrorResponse t) (ErrorCode code (ascii reason))
      in if code = 401 \<or> code = 438 then
           (issue_nonce s clk fresh,
            [ToClient dest (encode_message (push_attr (push_attr resp (Realm (ts_realm s))) (NonceA fresh)))])
         else (s, [ToClient dest (encode_message resp)]))"

text \<open>\<open>resp.encode_with_integrity(&key).unwrap_or_else(|_| resp.encode())\<close>\<close>

definition encode_signed :: "stun_crates \<Rightarrow> message \<Rightarrow> bytes \<Rightarrow> bytes" where
  "encode_signed H resp key =
     (case encode_with_integrity H resp key of Ok b \<Rightarrow> b | _ \<Rightarrow> encode_message resp)"

definition handle_allocate ::
  "stun_crates \<Rightarrow> turn_server \<Rightarrow> bytes \<Rightarrow> message \<Rightarrow> sock_addr \<Rightarrow> instant \<Rightarrow> instant \<Rightarrow> bytes \<Rightarrow> turn_server \<times> outbound list" where
  "handle_allocate H s raw msg from now clk fresh =
     (let err = error_response s clk fresh from (msg_txid msg) (method_of (msg_typ msg))
      in case authenticate H s raw msg of
           None \<Rightarrow> err 401 ''Unauthorized''
         | Some key \<Rightarrow>
             (case requested_transport msg of
                None \<Rightarrow> err 400 ''Bad Request''
              | Some proto \<Rightarrow>
                  (if proto \<noteq> TRANSPORT_UDP then err 442 ''Unsupported Transport Protocol''
                   else if sa_ip from = ts_relay_ip s then err 403 ''Forbidden''
                   else
                     (let requested = max (case lifetime_of msg of Some l \<Rightarrow> l | None \<Rightarrow> 600) MIN_LIFETIME_SECS
                      in case (case map_of (ts_allocations s) from of
                                 Some existing \<Rightarrow> Some (sv_relay_port existing)
                               | None \<Rightarrow> free_port s) of
                           None \<Rightarrow> err 508 ''Insufficient Capacity''
                         | Some port \<Rightarrow>
                             (let resp = push_attr (push_attr (push_attr
                                           (message_new METHOD_ALLOCATE SuccessResponse (msg_txid msg))
                                           (XorRelayedAddress \<lparr>sa_ip = ts_relay_ip s, sa_port = port\<rparr>))
                                           (XorMappedAddress from))
                                           (Lifetime requested)
                              in (s\<lparr>ts_allocations := AList.update from
                                      \<lparr>sv_relay_port = port, sv_permissions = Map.empty,
                                       sv_channels = Map.empty, sv_channel_peers = Map.empty,
                                       sv_expires_at = now + secs (unat requested)\<rparr> (ts_allocations s)\<rparr>,
                                  [ToClient from (encode_signed H resp key)]))))))"

definition handle_refresh ::
  "stun_crates \<Rightarrow> turn_server \<Rightarrow> bytes \<Rightarrow> message \<Rightarrow> sock_addr \<Rightarrow> instant \<Rightarrow> instant \<Rightarrow> bytes \<Rightarrow> turn_server \<times> outbound list" where
  "handle_refresh H s raw msg from now clk fresh =
     (let err = error_response s clk fresh from (msg_txid msg) (method_of (msg_typ msg))
      in case authenticate H s raw msg of
           None \<Rightarrow> err 401 ''Unauthorized''
         | Some key \<Rightarrow>
             (case map_of (ts_allocations s) from of
                None \<Rightarrow> err 437 ''Allocation Mismatch''
              | Some alloc \<Rightarrow>
                  (let lifetime = (case lifetime_of msg of Some l \<Rightarrow> l | None \<Rightarrow> 600);
                       resp = message_new METHOD_REFRESH SuccessResponse (msg_txid msg)
                   in if lifetime = 0 then
                        (s\<lparr>ts_allocations := AList.delete from (ts_allocations s)\<rparr>,
                         [ToClient from (encode_signed H (push_attr resp (Lifetime 0)) key)])
                      else
                        (let granted = max lifetime MIN_LIFETIME_SECS
                         in (s\<lparr>ts_allocations := AList.update from
                                 (alloc\<lparr>sv_expires_at := now + secs (unat granted)\<rparr>) (ts_allocations s)\<rparr>,
                             [ToClient from (encode_signed H (push_attr resp (Lifetime granted)) key)])))))"

definition is_unspecified :: "ip_addr \<Rightarrow> bool" where
  "is_unspecified ip = (case ip of V4 a b c d \<Rightarrow> a = 0 \<and> b = 0 \<and> c = 0 \<and> d = 0 | V6 raw \<Rightarrow> raw = zeros 16)"

definition handle_create_permission ::
  "stun_crates \<Rightarrow> turn_server \<Rightarrow> bytes \<Rightarrow> message \<Rightarrow> sock_addr \<Rightarrow> instant \<Rightarrow> instant \<Rightarrow> bytes \<Rightarrow> turn_server \<times> outbound list" where
  "handle_create_permission H s raw msg from now clk fresh =
     (let err = error_response s clk fresh from (msg_txid msg) (method_of (msg_typ msg))
      in case authenticate H s raw msg of
           None \<Rightarrow> err 401 ''Unauthorized''
         | Some key \<Rightarrow>
             (case xor_peer_address msg of
                None \<Rightarrow> err 400 ''Bad Request''
              | Some peer \<Rightarrow>
                  (case map_of (ts_allocations s) from of
                     None \<Rightarrow> err 437 ''Allocation Mismatch''
                   | Some alloc \<Rightarrow>
                       (if is_unspecified (sa_ip peer) then err 403 ''Forbidden''
                        else
                          (s\<lparr>ts_allocations := AList.update from
                               (alloc\<lparr>sv_permissions := (sv_permissions alloc)(sa_ip peer \<mapsto> now + DEFAULT_PERMISSION_LIFETIME)\<rparr>)
                               (ts_allocations s)\<rparr>,
                           [ToClient from (encode_signed H
                              (message_new METHOD_CREATE_PERMISSION SuccessResponse (msg_txid msg)) key)])))))"

definition handle_channel_bind ::
  "stun_crates \<Rightarrow> turn_server \<Rightarrow> bytes \<Rightarrow> message \<Rightarrow> sock_addr \<Rightarrow> instant \<Rightarrow> instant \<Rightarrow> bytes \<Rightarrow> turn_server \<times> outbound list" where
  "handle_channel_bind H s raw msg from now clk fresh =
     (let err = error_response s clk fresh from (msg_txid msg) (method_of (msg_typ msg))
      in case authenticate H s raw msg of
           None \<Rightarrow> err 401 ''Unauthorized''
         | Some key \<Rightarrow>
             (case (channel_number msg, xor_peer_address msg) of
                (Some channel, Some peer) \<Rightarrow>
                  (if \<not> channel_range channel then err 400 ''Bad Request''
                   else
                     (case map_of (ts_allocations s) from of
                        None \<Rightarrow> err 437 ''Allocation Mismatch''
                      | Some alloc \<Rightarrow>
                          (if sv_channels alloc channel \<notin> {None, Some peer} then err 400 ''Bad Request''
                           else if sv_channel_peers alloc peer \<notin> {None, Some channel} then err 400 ''Bad Request''
                           else
                             (s\<lparr>ts_allocations := AList.update from
                                  (alloc\<lparr>sv_channels := (sv_channels alloc)(channel \<mapsto> peer),
                                         sv_channel_peers := (sv_channel_peers alloc)(peer \<mapsto> channel),
                                         sv_permissions := (sv_permissions alloc)(sa_ip peer \<mapsto> now + DEFAULT_PERMISSION_LIFETIME)\<rparr>)
                                  (ts_allocations s)\<rparr>,
                              [ToClient from (encode_signed H
                                 (push_attr (message_new METHOD_CHANNEL_BIND SuccessResponse (msg_txid msg))
                                    (Lifetime CHANNEL_LIFETIME_SECS)) key)]))))
              | _ \<Rightarrow> err 400 ''Bad Request''))"

definition outbound_to_peer :: "turn_server \<Rightarrow> sock_addr \<Rightarrow> sock_addr \<Rightarrow> bytes \<Rightarrow> outbound list" where
  "outbound_to_peer s client peer d =
     (case map_of (ts_allocations s) client of
        None \<Rightarrow> []
      | Some alloc \<Rightarrow>
          (if sv_permissions alloc (sa_ip peer) = None then []
           else [ToPeer (sv_relay_port alloc) peer d]))"

definition handle_send :: "stun_crates \<Rightarrow> turn_server \<Rightarrow> bytes \<Rightarrow> message \<Rightarrow> sock_addr \<Rightarrow> outbound list" where
  "handle_send H s raw msg from =
     (case authenticate H s raw msg of
        None \<Rightarrow> []
      | Some key \<Rightarrow>
          (case (xor_peer_address msg, data_of msg) of
             (Some peer, Some d) \<Rightarrow> outbound_to_peer s from peer d
           | _ \<Rightarrow> []))"

definition relay_channel_data :: "turn_server \<Rightarrow> sock_addr \<Rightarrow> u16 \<Rightarrow> bytes \<Rightarrow> outbound list" where
  "relay_channel_data s from channel payload =
     (case map_of (ts_allocations s) from of
        None \<Rightarrow> []
      | Some alloc \<Rightarrow>
          (case sv_channels alloc channel of
             None \<Rightarrow> []
           | Some peer \<Rightarrow> [ToPeer (sv_relay_port alloc) peer payload]))"

definition turn_handle ::
  "stun_crates \<Rightarrow> turn_server \<Rightarrow> bytes \<Rightarrow> sock_addr \<Rightarrow> instant \<Rightarrow> instant \<Rightarrow> bytes \<Rightarrow> turn_server \<times> outbound list" where
  "turn_handle H s0 raw from now clk fresh =
     (let s = expire_allocations s0 now
      in case parse_channel_data raw of
           Some (channel, payload) \<Rightarrow> (s, relay_channel_data s from channel payload)
         | None \<Rightarrow>
             (case parse_message raw of
                Ok msg \<Rightarrow>
                  (let m = method_of (msg_typ msg); c = class_of (msg_typ msg)
                   in if m = METHOD_ALLOCATE \<and> c = Request then handle_allocate H s raw msg from now clk fresh
                      else if m = METHOD_REFRESH \<and> c = Request then handle_refresh H s raw msg from now clk fresh
                      else if m = METHOD_CREATE_PERMISSION \<and> c = Request then
                        handle_create_permission H s raw msg from now clk fresh
                      else if m = METHOD_CHANNEL_BIND \<and> c = Request then
                        handle_channel_bind H s raw msg from now clk fresh
                      else if m = METHOD_SEND \<and> c = Indication then (s, handle_send H s raw msg from)
                      else (s, []))
              | _ \<Rightarrow> (s, [])))"

text \<open>\<open>t\<close> is the transaction id drawn for an indication.\<close>

definition handle_peer_data :: "turn_server \<Rightarrow> bytes \<Rightarrow> u16 \<Rightarrow> sock_addr \<Rightarrow> bytes \<Rightarrow> outbound option" where
  "handle_peer_data s t relay_port peer payload =
     (case find (\<lambda>(_, a). sv_relay_port a = relay_port) (ts_allocations s) of
        None \<Rightarrow> None
      | Some (client, alloc) \<Rightarrow>
          (if sv_permissions alloc (sa_ip peer) = None then None
           else
             Some (ToClient client
               (case sv_channel_peers alloc peer of
                  Some channel \<Rightarrow> channel_data channel payload
                | None \<Rightarrow>
                    encode_message (push_attr (push_attr (message_new METHOD_DATA Indication t)
                      (XorPeerAddress peer)) (DataA payload))))))"

definition relay_addr :: "turn_server \<Rightarrow> sock_addr \<Rightarrow> sock_addr option" where
  "relay_addr s client =
     map_option (\<lambda>a. \<lparr>sa_ip = ts_relay_ip s, sa_port = sv_relay_port a\<rparr>) (map_of (ts_allocations s) client)"

section \<open>The client\<close>

record allocation =
  al_relayed_addr :: sock_addr
  al_mapped_addr :: "sock_addr option"
  al_lifetime :: duration
  al_expires_at :: instant

datatype turn_inbound =
  InData sock_addr bytes
| InChannelData u16 bytes

record turn_client =
  tc_server :: sock_addr
  tc_username :: bytes
  tc_password :: bytes
  tc_realm :: "bytes option"
  tc_nonce :: "bytes option"
  tc_allocation :: "allocation option"
  tc_permissions :: "ip_addr \<rightharpoonup> instant"
  tc_channels :: "u16 \<rightharpoonup> sock_addr"
  tc_channel_peers :: "sock_addr \<rightharpoonup> u16"
  tc_next_channel :: u16
  tc_timeout :: duration

definition turn_client_new :: "sock_addr \<Rightarrow> bytes \<Rightarrow> bytes \<Rightarrow> turn_client" where
  "turn_client_new server username password =
     \<lparr>tc_server = server, tc_username = username, tc_password = password, tc_realm = None,
      tc_nonce = None, tc_allocation = None, tc_permissions = Map.empty, tc_channels = Map.empty,
      tc_channel_peers = Map.empty, tc_next_channel = CHANNEL_NUMBER_MIN, tc_timeout = secs 5\<rparr>"

definition with_timeout :: "turn_client \<Rightarrow> duration \<Rightarrow> turn_client" where
  "with_timeout c timeout = c\<lparr>tc_timeout := timeout\<rparr>"

definition is_live :: "turn_client \<Rightarrow> instant \<Rightarrow> bool" where
  "is_live c now = (case tc_allocation c of Some a \<Rightarrow> al_expires_at a > now | None \<Rightarrow> False)"

definition tc_key :: "stun_crates \<Rightarrow> turn_client \<Rightarrow> (bytes, turn_error) rust" where
  "tc_key H c =
     (case tc_realm c of
        None \<Rightarrow> Err MissingCredentials
      | Some realm \<Rightarrow> Ok (long_term_key H (tc_username c) realm (tc_password c)))"

definition tc_seal :: "stun_crates \<Rightarrow> turn_client \<Rightarrow> message \<Rightarrow> (bytes, turn_error) rust" where
  "tc_seal H c msg =
     (case (tc_realm c, tc_nonce c) of
        (Some realm, Some nonce) \<Rightarrow>
          (let msg = push_attr (push_attr (push_attr msg (Username (tc_username c))) (Realm realm)) (NonceA nonce)
           in case tc_key H c of
                Ok key \<Rightarrow>
                  (case encode_with_integrity H msg key of
                     Ok b \<Rightarrow> Ok b | Err e \<Rightarrow> Err (StunErr e) | Panic \<Rightarrow> Panic)
              | Err e \<Rightarrow> Err e
              | Panic \<Rightarrow> Panic)
      | _ \<Rightarrow> Err MissingCredentials)"

text \<open>
  The receive loop over the datagrams that arrive in time, and what it hands to \<open>on_other\<close>.
\<close>

fun transact ::
  "stun_crates \<Rightarrow> turn_client \<Rightarrow> bytes \<Rightarrow> (bytes \<times> sock_addr) list \<Rightarrow>
   (message, turn_error) rust \<times> (bytes \<times> sock_addr) list" where
  "transact H c t [] = (Err (TimeoutErr (tc_timeout c)), [])"
| "transact H c t ((d0, from) # rest) =
     (let d = take 1500 d0;
          other = (let (r, os) = transact H c t rest in (r, (d, from) # os))
      in if from \<noteq> tc_server c then other
         else case parse_message d of
                Ok msg \<Rightarrow>
                  (if msg_txid msg \<noteq> t then other
                   else if (case tc_key H c of
                              Ok key \<Rightarrow> get_attr msg 0x0008 \<noteq> None \<and> verify_integrity H d key \<noteq> Ok ()
                            | _ \<Rightarrow> False) then transact H c t rest
                   else (Ok msg, []))
              | _ \<Rightarrow> other)"

definition allocate_request :: "bytes \<Rightarrow> u32 \<Rightarrow> message" where
  "allocate_request t lifetime_secs =
     push_attr (push_attr (push_attr (message_new METHOD_ALLOCATE Request t)
       (RequestedTransport TRANSPORT_UDP)) (Lifetime lifetime_secs)) DontFragment"

text \<open>One response to an allocation request: \<open>None\<close> is the \<open>continue\<close> after a challenge.\<close>

definition take_allocation ::
  "turn_client \<Rightarrow> duration \<Rightarrow> instant \<Rightarrow> message \<Rightarrow> turn_client \<times> (sock_addr, turn_error) rust option" where
  "take_allocation c lifetime now response =
     (case class_of (msg_typ response) of
        SuccessResponse \<Rightarrow>
          (case xor_relayed_address response of
             None \<Rightarrow> (c, Some (Err (MalformedTurn ''allocation without XOR-RELAYED-ADDRESS'')))
           | Some relayed \<Rightarrow>
               (let granted = (case lifetime_of response of Some l \<Rightarrow> secs (unat l) | None \<Rightarrow> lifetime)
                in (c\<lparr>tc_allocation := Some \<lparr>al_relayed_addr = relayed,
                       al_mapped_addr = xor_mapped_address response, al_lifetime = granted,
                       al_expires_at = now + granted\<rparr>\<rparr>, Some (Ok relayed))))
      | ErrorResponse \<Rightarrow>
          (let (code, reason) = (case error_code response of Some cr \<Rightarrow> cr | None \<Rightarrow> (0, []))
           in if code = 401 \<or> code = 438 then
                (case (case realm_of response of Some r \<Rightarrow> Some r | None \<Rightarrow> tc_realm c) of
                   None \<Rightarrow> (c, Some (Err MissingCredentials))
                 | Some realm \<Rightarrow>
                     (case (case nonce_of response of Some n \<Rightarrow> Some n | None \<Rightarrow> tc_nonce c) of
                        None \<Rightarrow> (c, Some (Err MissingCredentials))
                      | Some nonce \<Rightarrow> (c\<lparr>tc_realm := Some realm, tc_nonce := Some nonce\<rparr>, None)))
              else (c, Some (Err (Rejected code reason))))
      | Request \<Rightarrow> (c, Some (Err (MalformedTurn ''server sent a request'')))
      | Indication \<Rightarrow> (c, Some (Err (MalformedTurn ''server sent an indication''))))"

text \<open>
  The two attempts, each with its transaction id and the datagrams that arrive after its request:
  the client, the outcome, the requests sent and the datagrams handed on.
\<close>

definition tc_allocate ::
  "stun_crates \<Rightarrow> turn_client \<Rightarrow> duration \<Rightarrow> instant \<Rightarrow> bytes \<times> (bytes \<times> sock_addr) list \<Rightarrow>
   bytes \<times> (bytes \<times> sock_addr) list \<Rightarrow>
   turn_client \<times> (sock_addr, turn_error) rust \<times> bytes list \<times> (bytes \<times> sock_addr) list" where
  "tc_allocate H c lifetime now first second =
     (let lifetime_secs = max (of_nat (lifetime div 1000000000)) MIN_LIFETIME_SECS;
          req0 = encode_message (allocate_request (fst first) lifetime_secs);
          (r0, os0) = transact H c (fst first) (snd first)
      in case r0 of
           Err e \<Rightarrow> (c, Err e, [req0], os0)
         | Panic \<Rightarrow> (c, Panic, [req0], os0)
         | Ok response0 \<Rightarrow>
             (case take_allocation c lifetime now response0 of
                (c0, Some result) \<Rightarrow> (c0, result, [req0], os0)
              | (c0, None) \<Rightarrow>
                  (case tc_seal H c0 (allocate_request (fst second) lifetime_secs) of
                     Err e \<Rightarrow> (c0, Err e, [req0], os0)
                   | Panic \<Rightarrow> (c0, Panic, [req0], os0)
                   | Ok req1 \<Rightarrow>
                       (let (r1, os1) = transact H c0 (fst second) (snd second)
                        in case r1 of
                             Err e \<Rightarrow> (c0, Err e, [req0, req1], os0 @ os1)
                           | Panic \<Rightarrow> (c0, Panic, [req0, req1], os0 @ os1)
                           | Ok response1 \<Rightarrow>
                               (case take_allocation c0 lifetime now response1 of
                                  (c1, Some result) \<Rightarrow> (c1, result, [req0, req1], os0 @ os1)
                                | (c1, None) \<Rightarrow> (c1, Err MissingCredentials, [req0, req1], os0 @ os1))))))"

text \<open>Seal a request, send it and wait for its response; an error response is \<open>Rejected\<close>.\<close>

definition sealed_request ::
  "stun_crates \<Rightarrow> turn_client \<Rightarrow> message \<Rightarrow> (bytes \<times> sock_addr) list \<Rightarrow>
   (message, turn_error) rust \<times> bytes list \<times> (bytes \<times> sock_addr) list" where
  "sealed_request H c msg arrivals =
     (case tc_seal H c msg of
        Err e \<Rightarrow> (Err e, [], [])
      | Panic \<Rightarrow> (Panic, [], [])
      | Ok req \<Rightarrow>
          (let (r, os) = transact H c (msg_txid msg) arrivals
           in (case r of
                 Ok response \<Rightarrow>
                   (if class_of (msg_typ response) = ErrorResponse then
                      (let (code, reason) = (case error_code response of Some cr \<Rightarrow> cr | None \<Rightarrow> (0, []))
                       in Err (Rejected code reason))
                    else Ok response)
               | e \<Rightarrow> e, [req], os)))"

definition tc_refresh ::
  "stun_crates \<Rightarrow> turn_client \<Rightarrow> duration \<Rightarrow> instant \<Rightarrow> bytes \<Rightarrow> (bytes \<times> sock_addr) list \<Rightarrow>
   turn_client \<times> (duration, turn_error) rust \<times> bytes list \<times> (bytes \<times> sock_addr) list" where
  "tc_refresh H c lifetime now t arrivals =
     (if tc_allocation c = None then (c, Err NoAllocation, [], [])
      else
        (let msg = push_attr (message_new METHOD_REFRESH Request t) (Lifetime (of_nat (lifetime div 1000000000)));
             (r, sent, os) = sealed_request H c msg arrivals
         in case r of
              Err e \<Rightarrow> (c, Err e, sent, os)
            | Panic \<Rightarrow> (c, Panic, sent, os)
            | Ok response \<Rightarrow>
                (let granted = secs (unat (case lifetime_of response of Some l \<Rightarrow> l | None \<Rightarrow> 0))
                 in if granted = 0 then
                      (c\<lparr>tc_allocation := None, tc_permissions := Map.empty, tc_channels := Map.empty,
                         tc_channel_peers := Map.empty\<rparr>, Ok granted, sent, os)
                    else
                      (c\<lparr>tc_allocation := map_option (\<lambda>a. a\<lparr>al_lifetime := granted, al_expires_at := now + granted\<rparr>)
                           (tc_allocation c)\<rparr>, Ok granted, sent, os))))"

definition tc_create_permission ::
  "stun_crates \<Rightarrow> turn_client \<Rightarrow> sock_addr \<Rightarrow> instant \<Rightarrow> bytes \<Rightarrow> (bytes \<times> sock_addr) list \<Rightarrow>
   turn_client \<times> (unit, turn_error) rust \<times> bytes list \<times> (bytes \<times> sock_addr) list" where
  "tc_create_permission H c peer now t arrivals =
     (if tc_allocation c = None then (c, Err NoAllocation, [], [])
      else
        (let msg = push_attr (message_new METHOD_CREATE_PERMISSION Request t) (XorPeerAddress peer);
             (r, sent, os) = sealed_request H c msg arrivals
         in case r of
              Err e \<Rightarrow> (c, Err e, sent, os)
            | Panic \<Rightarrow> (c, Panic, sent, os)
            | Ok _ \<Rightarrow>
                (c\<lparr>tc_permissions := (tc_permissions c)(sa_ip peer \<mapsto> now + DEFAULT_PERMISSION_LIFETIME)\<rparr>,
                 Ok (), sent, os)))"

text \<open>The loop of \<open>allocate_channel\<close> with \<open>n\<close> turns left.\<close>

fun find_channel :: "(u16 \<rightharpoonup> sock_addr) \<Rightarrow> nat \<Rightarrow> u16 \<Rightarrow> u16 \<times> u16 option" where
  "find_channel used 0 nxt = (nxt, None)"
| "find_channel used (Suc n) nxt =
     (let nxt' = (if nxt \<ge> CHANNEL_NUMBER_MAX then CHANNEL_NUMBER_MIN else nxt + 1)
      in if used nxt = None then (nxt', Some nxt) else find_channel used n nxt')"

definition allocate_channel :: "turn_client \<Rightarrow> turn_client \<times> (u16, turn_error) rust" where
  "allocate_channel c =
     (let (nxt, r) = find_channel (tc_channels c) (Suc (unat (CHANNEL_NUMBER_MAX - CHANNEL_NUMBER_MIN))) (tc_next_channel c)
      in (c\<lparr>tc_next_channel := nxt\<rparr>, case r of Some ch \<Rightarrow> Ok ch | None \<Rightarrow> Err NoChannelAvailable))"

definition tc_channel_bind ::
  "stun_crates \<Rightarrow> turn_client \<Rightarrow> sock_addr \<Rightarrow> instant \<Rightarrow> bytes \<Rightarrow> (bytes \<times> sock_addr) list \<Rightarrow>
   turn_client \<times> (u16, turn_error) rust \<times> bytes list \<times> (bytes \<times> sock_addr) list" where
  "tc_channel_bind H c peer now t arrivals =
     (if tc_allocation c = None then (c, Err NoAllocation, [], [])
      else case tc_channel_peers c peer of
             Some existing \<Rightarrow> (c, Ok existing, [], [])
           | None \<Rightarrow>
               (case allocate_channel c of
                  (c1, Ok channel) \<Rightarrow>
                    (let msg = push_attr (push_attr (message_new METHOD_CHANNEL_BIND Request t)
                                 (ChannelNumber channel)) (XorPeerAddress peer);
                         (r, sent, os) = sealed_request H c1 msg arrivals
                     in case r of
                          Err e \<Rightarrow> (c1, Err e, sent, os)
                        | Panic \<Rightarrow> (c1, Panic, sent, os)
                        | Ok _ \<Rightarrow>
                            (c1\<lparr>tc_channels := (tc_channels c1)(channel \<mapsto> peer),
                                tc_channel_peers := (tc_channel_peers c1)(peer \<mapsto> channel),
                                tc_permissions := (tc_permissions c1)(sa_ip peer \<mapsto> now + DEFAULT_PERMISSION_LIFETIME)\<rparr>,
                             Ok channel, sent, os))
                | (c1, Err e) \<Rightarrow> (c1, Err e, [], [])
                | (c1, Panic) \<Rightarrow> (c1, Panic, [], [])))"

definition tc_send :: "stun_crates \<Rightarrow> turn_client \<Rightarrow> bytes \<Rightarrow> sock_addr \<Rightarrow> bytes \<Rightarrow> (bytes, turn_error) rust" where
  "tc_send H c t peer payload =
     (if tc_allocation c = None then Err NoAllocation
      else case tc_channel_peers c peer of
             Some channel \<Rightarrow> Ok (channel_data channel payload)
           | None \<Rightarrow>
               (let msg = push_attr (push_attr (message_new METHOD_SEND Indication t) (XorPeerAddress peer)) (DataA payload)
                in case tc_key H c of
                     Ok key \<Rightarrow>
                       (case encode_with_integrity H msg key of
                          Ok b \<Rightarrow> Ok b | Err e \<Rightarrow> Err (StunErr e) | Panic \<Rightarrow> Panic)
                   | _ \<Rightarrow> Ok (encode_message msg)))"

definition decode_inbound :: "bytes \<Rightarrow> turn_inbound option" where
  "decode_inbound raw =
     (case parse_channel_data raw of
        Some (channel, payload) \<Rightarrow> Some (InChannelData channel payload)
      | None \<Rightarrow>
          (case parse_message raw of
             Ok msg \<Rightarrow>
               (if method_of (msg_typ msg) \<noteq> METHOD_DATA \<or> class_of (msg_typ msg) \<noteq> Indication then None
                else case (xor_peer_address msg, data_of msg) of
                       (Some peer, Some payload) \<Rightarrow> Some (InData peer payload)
                     | _ \<Rightarrow> None)
           | _ \<Rightarrow> None))"

definition peer_for_channel :: "turn_client \<Rightarrow> u16 \<Rightarrow> sock_addr option" where
  "peer_for_channel c channel = tc_channels c channel"

section \<open>What a datagram can change\<close>

text \<open>A datagram is authentic if the server's check of its credentials succeeds.\<close>

definition authentic :: "stun_crates \<Rightarrow> turn_server \<Rightarrow> bytes \<Rightarrow> bool" where
  "authentic H s raw \<longleftrightarrow> (\<exists>msg key. parse_message raw = Ok msg \<and> authenticate H s raw msg = Some key)"

definition asks_for :: "bytes \<Rightarrow> sock_addr \<Rightarrow> bool" where
  "asks_for raw peer \<longleftrightarrow> (\<exists>msg. parse_message raw = Ok msg \<and> xor_peer_address msg = Some peer
     \<and> method_of (msg_typ msg) \<in> {METHOD_CREATE_PERMISSION, METHOD_CHANNEL_BIND} \<and> class_of (msg_typ msg) = Request)"

text \<open>The abstract server: how one datagram may change the table of allocations.\<close>

inductive alloc_change ::
  "stun_crates \<Rightarrow> turn_server \<Rightarrow> bytes \<Rightarrow> sock_addr \<Rightarrow> instant \<Rightarrow> (sock_addr \<times> server_allocation) list \<Rightarrow> bool"
  for H s raw client now where
  unchanged: "alloc_change H s raw client now (ts_allocations s)"
| allocated: "authentic H s raw \<Longrightarrow> sa_ip client \<noteq> ts_relay_ip s \<Longrightarrow>
    (case map_of (ts_allocations s) client of Some a \<Rightarrow> Some (sv_relay_port a) | None \<Rightarrow> free_port s) = Some port \<Longrightarrow>
    MIN_LIFETIME_SECS \<le> l \<Longrightarrow>
    alloc_change H s raw client now (AList.update client
      \<lparr>sv_relay_port = port, sv_permissions = Map.empty, sv_channels = Map.empty,
       sv_channel_peers = Map.empty, sv_expires_at = now + secs (unat l)\<rparr> (ts_allocations s))"
| refreshed: "authentic H s raw \<Longrightarrow> map_of (ts_allocations s) client = Some a \<Longrightarrow> MIN_LIFETIME_SECS \<le> l \<Longrightarrow>
    alloc_change H s raw client now
      (AList.update client (a\<lparr>sv_expires_at := now + secs (unat l)\<rparr>) (ts_allocations s))"
| released: "authentic H s raw \<Longrightarrow> alloc_change H s raw client now (AList.delete client (ts_allocations s))"
| permitted: "authentic H s raw \<Longrightarrow> asks_for raw peer \<Longrightarrow> map_of (ts_allocations s) client = Some a \<Longrightarrow>
    \<not> is_unspecified (sa_ip peer) \<Longrightarrow>
    alloc_change H s raw client now (AList.update client
      (a\<lparr>sv_permissions := (sv_permissions a)(sa_ip peer \<mapsto> now + DEFAULT_PERMISSION_LIFETIME)\<rparr>) (ts_allocations s))"
| bound: "authentic H s raw \<Longrightarrow> asks_for raw peer \<Longrightarrow> map_of (ts_allocations s) client = Some a \<Longrightarrow>
    channel_range ch \<Longrightarrow> sv_channels a ch \<in> {None, Some peer} \<Longrightarrow> sv_channel_peers a peer \<in> {None, Some ch} \<Longrightarrow>
    alloc_change H s raw client now (AList.update client
      (a\<lparr>sv_channels := (sv_channels a)(ch \<mapsto> peer), sv_channel_peers := (sv_channel_peers a)(peer \<mapsto> ch),
         sv_permissions := (sv_permissions a)(sa_ip peer \<mapsto> now + DEFAULT_PERMISSION_LIFETIME)\<rparr>) (ts_allocations s))"

inductive_cases alloc_changeE: "alloc_change H s raw client now al"

text \<open>Configuration and nonce table.\<close>

definition same_config :: "turn_server \<Rightarrow> turn_server \<Rightarrow> bool" where
  "same_config s s' \<longleftrightarrow> ts_realm s' = ts_realm s \<and> ts_users s' = ts_users s \<and> ts_relay_ip s' = ts_relay_ip s
     \<and> ts_port_min s' = ts_port_min s \<and> ts_port_max s' = ts_port_max s \<and> ts_nonce_lifetime s' = ts_nonce_lifetime s"

lemma update_length: "length (AList.update k v al) \<le> Suc (length al)"
  by (induction al) auto

lemma issue_nonce_facts:
  "same_config s (issue_nonce s clk fresh)" "ts_allocations (issue_nonce s clk fresh) = ts_allocations s"
  "length (ts_nonces (issue_nonce s clk fresh)) \<le> 4096"
proof -
  show "length (ts_nonces (issue_nonce s clk fresh)) \<le> 4096"
    using update_length [of fresh clk "filter (\<lambda>(_, issued). clk - issued < ts_nonce_lifetime s) (ts_nonces s)"]
    by (simp add: issue_nonce_def Let_def MAX_OUTSTANDING_NONCES_def)
qed (simp_all add: issue_nonce_def Let_def same_config_def)

text \<open>
  What every handler promises: an allowed change of the table, the configuration kept, at most 4096
  nonces, and answers to the sender only.
\<close>

definition handler_ok ::
  "stun_crates \<Rightarrow> turn_server \<Rightarrow> bytes \<Rightarrow> sock_addr \<Rightarrow> instant \<Rightarrow> turn_server \<times> outbound list \<Rightarrow> bool" where
  "handler_ok H s raw client now r \<longleftrightarrow>
     alloc_change H s raw client now (ts_allocations (fst r)) \<and> same_config s (fst r)
     \<and> (length (ts_nonces s) \<le> 4096 \<longrightarrow> length (ts_nonces (fst r)) \<le> 4096)
     \<and> (\<exists>d. snd r = [ToClient client d])"

lemma same_config_refl [simp]: "same_config s s" "same_config s (s\<lparr>ts_allocations := al\<rparr>)"
  by (simp_all add: same_config_def)

lemma error_response_ok [simp]: "handler_ok H s raw client now (error_response s clk fresh client t m code reason)"
  using issue_nonce_facts [of s clk fresh]
  by (auto simp: handler_ok_def error_response_def Let_def intro: unchanged)

lemma update_ok:
  "alloc_change H s raw client now al \<Longrightarrow> handler_ok H s raw client now (s\<lparr>ts_allocations := al\<rparr>, [ToClient client d])"
  by (simp add: handler_ok_def)

lemma min_lifetime [simp]: "600 \<le> MIN_LIFETIME_SECS"
  by (simp add: MIN_LIFETIME_SECS_def)

lemma allocate_ok:
  assumes "parse_message raw = Ok msg"
  shows "handler_ok H s raw client now (handle_allocate H s raw msg client now clk fresh)"
  using assms
  by (auto simp: handle_allocate_def Let_def authentic_def max_def split: option.splits
      intro!: update_ok allocated)

lemma refresh_ok:
  assumes "parse_message raw = Ok msg"
  shows "handler_ok H s raw client now (handle_refresh H s raw msg client now clk fresh)"
  using assms
  by (auto simp: handle_refresh_def Let_def authentic_def max_def split: option.splits
      intro!: update_ok refreshed released)

lemma create_permission_ok:
  assumes "parse_message raw = Ok msg" and "method_of (msg_typ msg) = METHOD_CREATE_PERMISSION" and "class_of (msg_typ msg) = Request"
  shows "handler_ok H s raw client now (handle_create_permission H s raw msg client now clk fresh)"
  using assms
  by (auto simp: handle_create_permission_def Let_def authentic_def asks_for_def split: option.splits
      intro!: update_ok permitted)

lemma channel_bind_ok:
  assumes "parse_message raw = Ok msg" and "method_of (msg_typ msg) = METHOD_CHANNEL_BIND" and "class_of (msg_typ msg) = Request"
  shows "handler_ok H s raw client now (handle_channel_bind H s raw msg client now clk fresh)"
  using assms
  by (auto simp: handle_channel_bind_def Let_def authentic_def asks_for_def split: option.splits
      intro!: update_ok bound)

text \<open>The whole of \<open>handle\<close>: a change of the table, or data relayed to a peer of the sender's own table entry.\<close>

lemma turn_handle_cases:
  assumes s: "expire_allocations s0 now = s" and h: "turn_handle H s0 raw client now clk fresh = (s', out)"
  shows "handler_ok H s raw client now (s', out) \<or>
    s' = s \<and> (\<forall>x \<in> set out. \<exists>a port peer d. x = ToPeer port peer d \<and> map_of (ts_allocations s) client = Some a
        \<and> port = sv_relay_port a
        \<and> ((\<exists>ch. parse_channel_data raw = Some (ch, d) \<and> sv_channels a ch = Some peer)
           \<or> authentic H s raw \<and> (\<exists>e. sv_permissions a (sa_ip peer) = Some e)))"
proof (cases "parse_channel_data raw")
  case (Some cp)
  then have "s' = s" "out = relay_channel_data s client (fst cp) (snd cp)"
    using h by (auto simp: turn_handle_def Let_def s split: prod.splits)
  then show ?thesis
    using Some by (auto simp: relay_channel_data_def split: option.splits)
next
  case None
  show ?thesis
  proof (cases "parse_message raw")
    case (Ok msg)
    let ?m = "method_of (msg_typ msg)" and ?c = "class_of (msg_typ msg)"
    have r: "(s', out) = (if ?m = METHOD_ALLOCATE \<and> ?c = Request then handle_allocate H s raw msg client now clk fresh
        else if ?m = METHOD_REFRESH \<and> ?c = Request then handle_refresh H s raw msg client now clk fresh
        else if ?m = METHOD_CREATE_PERMISSION \<and> ?c = Request then handle_create_permission H s raw msg client now clk fresh
        else if ?m = METHOD_CHANNEL_BIND \<and> ?c = Request then handle_channel_bind H s raw msg client now clk fresh
        else if ?m = METHOD_SEND \<and> ?c = Indication then (s, handle_send H s raw msg client) else (s, []))"
      using h [symmetric] unfolding turn_handle_def Let_def s None option.case Ok rust.case .
    have send: "\<exists>a port peer d. x = ToPeer port peer d \<and> map_of (ts_allocations s) client = Some a
        \<and> port = sv_relay_port a \<and> authentic H s raw \<and> (\<exists>e. sv_permissions a (sa_ip peer) = Some e)"
      if "x \<in> set (handle_send H s raw msg client)" for x
      using that Ok
      by (auto simp: handle_send_def outbound_to_peer_def authentic_def split: option.splits if_splits) metis
    show ?thesis
    proof (cases "?c = Request \<and> ?m \<in> {METHOD_ALLOCATE, METHOD_REFRESH, METHOD_CREATE_PERMISSION, METHOD_CHANNEL_BIND}")
      case True
      then have "handler_ok H s raw client now (s', out)"
        unfolding r using allocate_ok [OF Ok] refresh_ok [OF Ok] create_permission_ok [OF Ok] channel_bind_ok [OF Ok]
        by (auto split: if_splits)
      then show ?thesis ..
    next
      case False
      then have n: "(?m = METHOD_ALLOCATE \<and> ?c = Request) = False" "(?m = METHOD_REFRESH \<and> ?c = Request) = False"
        "(?m = METHOD_CREATE_PERMISSION \<and> ?c = Request) = False" "(?m = METHOD_CHANNEL_BIND \<and> ?c = Request) = False"
        by blast+
      have "(s', out) = (if ?m = METHOD_SEND \<and> ?c = Indication then (s, handle_send H s raw msg client) else (s, []))"
        using r unfolding n if_False .
      then have "s' = s" "out = (if ?m = METHOD_SEND \<and> ?c = Indication then handle_send H s raw msg client else [])"
        by (auto split: if_splits)
      moreover from this(2) have "x \<in> set (handle_send H s raw msg client)" if "x \<in> set out" for x
        using that by (auto split: if_splits)
      ultimately show ?thesis by (auto dest!: send)
    qed
  qed (use h None in \<open>simp_all add: turn_handle_def Let_def s\<close>)
qed

section \<open>Runs of the server\<close>

datatype turn_event =
  FromClient bytes sock_addr instant instant bytes   \<comment> \<open>datagram, sender, time, clock and nonce of a challenge\<close>
| Sweep instant

fun turn_exec :: "stun_crates \<Rightarrow> turn_server \<Rightarrow> turn_event \<Rightarrow> turn_server \<times> outbound list" where
  "turn_exec H s (FromClient raw client now clk fresh) = turn_handle H s raw client now clk fresh"
| "turn_exec H s (Sweep now) = (fst (sweep s now), [])"

definition turn_step :: "stun_crates \<Rightarrow> turn_server \<Rightarrow> turn_event \<Rightarrow> turn_server" where
  "turn_step H s e = fst (turn_exec H s e)"

text \<open>Invariant of the tables.\<close>

definition channels_ok :: "server_allocation \<Rightarrow> bool" where
  "channels_ok a \<longleftrightarrow> (\<forall>ch peer. sv_channels a ch = Some peer \<longleftrightarrow> sv_channel_peers a peer = Some ch)
     \<and> (\<forall>ch \<in> dom (sv_channels a). channel_range ch)"

definition ports :: "(sock_addr \<times> server_allocation) list \<Rightarrow> u16 list" where
  "ports al = map (sv_relay_port \<circ> snd) al"

definition server_ok :: "turn_server \<Rightarrow> bool" where
  "server_ok s \<longleftrightarrow> distinct (map fst (ts_allocations s)) \<and> distinct (ports (ts_allocations s))
     \<and> (\<forall>p \<in> set (ports (ts_allocations s)). ts_port_min s \<le> p \<and> p \<le> ts_port_max s)
     \<and> (\<forall>(c, a) \<in> set (ts_allocations s). channels_ok a \<and> sa_ip c \<noteq> ts_relay_ip s)
     \<and> length (ts_nonces s) \<le> 4096"

lemma update_new: "map_of al k = None \<Longrightarrow> AList.update k v al = al @ [(k, v)]"
  by (induction al) auto

lemma set_update: "(c, a) \<in> set (AList.update k v al) \<Longrightarrow> (c, a) = (k, v) \<or> (c, a) \<in> set al"
  by (induction al) (auto split: if_splits)

lemma ports_update:
  "map_of al k = Some a \<Longrightarrow> sv_relay_port v = sv_relay_port a \<Longrightarrow> ports (AList.update k v al) = ports al"
  by (induction al) (auto simp: ports_def split: if_splits)

lemma find_SomeD: "find P xs = Some x \<Longrightarrow> x \<in> set xs \<and> P x"
  by (induction xs) (auto split: if_splits)

lemma free_port_fresh:
  assumes "free_port s = Some p"
  shows "p \<notin> set (ports (ts_allocations s))" and "ts_port_min s \<le> p \<and> p \<le> ts_port_max s"
proof -
  obtain n where n: "p = of_nat n" "unat (ts_port_min s) \<le> n" "n \<le> unat (ts_port_max s)"
    and free: "\<not> list_ex (\<lambda>(_, a). sv_relay_port a = p) (ts_allocations s)"
    using find_SomeD [OF assms [unfolded free_port_def]] unfolding set_map set_upt by auto
  show "p \<notin> set (ports (ts_allocations s))" using free by (auto simp: ports_def list_ex_iff)
  have "n < 2 ^ 16" using n(3) unat_bound [of "ts_port_max s"] by simp
  then have "unat p = n" by (simp add: n(1) unat_of_nat)
  then show "ts_port_min s \<le> p \<and> p \<le> ts_port_max s" using n by (simp add: word_le_nat_alt)
qed

lemma expire_subset:
  "(c, a) \<in> set (ts_allocations (expire_allocations s now)) \<Longrightarrow>
   \<exists>a0. (c, a0) \<in> set (ts_allocations s) \<and> sv_channels a = sv_channels a0 \<and> sv_channel_peers a = sv_channel_peers a0
     \<and> sv_relay_port a = sv_relay_port a0 \<and> sv_expires_at a = sv_expires_at a0 \<and> now < sv_expires_at a
     \<and> (\<forall>ip e. sv_permissions a ip = Some e \<longrightarrow> sv_permissions a0 ip = Some e \<and> now < e)"
  by (force simp: expire_allocations_def split: option.splits if_splits)

lemma distinct_map_filter_map:
  assumes "distinct (map f xs)" and "\<And>x. f (g x) = f x"
  shows "distinct (map f (filter P (map g xs)))"
proof -
  have "map f (map g xs) = map f xs" using assms(2) by (simp add: comp_def)
  then have "distinct (map f (map g xs))" using assms(1) by argo
  then show ?thesis by (rule distinct_map_filter)
qed

lemma expire_ok: "server_ok s \<Longrightarrow> server_ok (expire_allocations s now)"
proof -
  assume ok: "server_ok s"
  let ?s = "expire_allocations s now"
  have c: "same_config s ?s" "ts_nonces ?s = ts_nonces s" by (simp_all add: expire_allocations_def same_config_def)
  have "distinct (map fst (ts_allocations ?s))" "distinct (ports (ts_allocations ?s))"
    using ok by (auto simp: expire_allocations_def server_ok_def ports_def intro!: distinct_map_filter_map)
  moreover have "set (ports (ts_allocations ?s)) \<subseteq> set (ports (ts_allocations s))"
  proof
    fix p assume "p \<in> set (ports (ts_allocations ?s))"
    then obtain c a where "(c, a) \<in> set (ts_allocations ?s)" "p = sv_relay_port a" by (auto simp: ports_def)
    then show "p \<in> set (ports (ts_allocations s))" by (force simp: ports_def dest: expire_subset)
  qed
  moreover have "channels_ok a \<and> sa_ip c \<noteq> ts_relay_ip s" if m: "(c, a) \<in> set (ts_allocations ?s)" for c a
  proof -
    obtain a0 where a0: "(c, a0) \<in> set (ts_allocations s)" "sv_channels a = sv_channels a0" "sv_channel_peers a = sv_channel_peers a0"
      using expire_subset [OF m] by blast
    then have "channels_ok a0 \<and> sa_ip c \<noteq> ts_relay_ip s" using ok by (auto simp: server_ok_def)
    then show ?thesis using a0(2,3) by (simp add: channels_ok_def)
  qed
  ultimately show ?thesis using ok c unfolding server_ok_def same_config_def by auto
qed

lemma channels_ok_bind:
  assumes "channels_ok a" and "channel_range ch" and "sv_channels a ch \<in> {None, Some peer}"
    and "sv_channel_peers a peer \<in> {None, Some ch}"
  shows "channels_ok (a\<lparr>sv_channels := (sv_channels a)(ch \<mapsto> peer), sv_channel_peers := (sv_channel_peers a)(peer \<mapsto> ch),
    sv_permissions := f\<rparr>)"
  using assms unfolding channels_ok_def by auto (metis option.distinct(1) option.inject)+

text \<open>An entry put in place of the client's own, with the same port.\<close>

lemma replace_ok:
  assumes ok: "server_ok s" and a: "map_of (ts_allocations s) client = Some a"
    and v: "sv_relay_port v = sv_relay_port a" "channels_ok v"
  shows "server_ok (s\<lparr>ts_allocations := AList.update client v (ts_allocations s)\<rparr>)"
proof -
  have "(client, a) \<in> set (ts_allocations s)" using a by (rule map_of_SomeD)
  then have "sa_ip client \<noteq> ts_relay_ip s" using ok by (auto simp: server_ok_def)
  then have "\<forall>(c, b) \<in> set (AList.update client v (ts_allocations s)). channels_ok b \<and> sa_ip c \<noteq> ts_relay_ip s"
    using ok v(2) by (auto simp: server_ok_def dest!: set_update)
  then show ?thesis
    using ok distinct_update [of "ts_allocations s" client v] by (simp add: server_ok_def ports_update [OF a v(1)])
qed

lemma alloc_change_ok:
  assumes ok: "server_ok s" and ch: "alloc_change H s raw client now al"
  shows "server_ok (s\<lparr>ts_allocations := al\<rparr>)"
proof -
  have own: "channels_ok a" if "map_of (ts_allocations s) client = Some a" for a
    using ok map_of_SomeD [OF that] by (auto simp: server_ok_def)
  from ch show ?thesis
  proof cases
    case (allocated port l)
    let ?v = "\<lparr>sv_relay_port = port, sv_permissions = Map.empty, sv_channels = Map.empty,
      sv_channel_peers = Map.empty, sv_expires_at = now + secs (unat l)\<rparr>"
    have v: "channels_ok ?v" by (simp add: channels_ok_def)
    show ?thesis
    proof (cases "map_of (ts_allocations s) client")
      case (Some a)
      then show ?thesis using replace_ok [OF ok Some _ v] allocated by simp
    next
      case None
      then have port: "free_port s = Some port" using allocated(4) by simp
      have "client \<notin> fst ` set (ts_allocations s)" using None by (simp add: map_of_eq_None_iff)
      then show ?thesis
        using ok v free_port_fresh [OF port] allocated(3) unfolding allocated(1) update_new [OF None]
        by (auto simp: server_ok_def ports_def)
    qed
  next
    case released
    then show ?thesis using ok unfolding released(1) server_ok_def ports_def
      by (auto simp: AList.delete_eq intro: distinct_map_filter)
  next
    case (bound peer a c)
    show ?thesis
      unfolding bound(1) by (rule replace_ok [OF ok bound(4)]) (simp, rule channels_ok_bind [OF own [OF bound(4)] bound(5-7)])
  next
    case (permitted peer a)
    show ?thesis
      unfolding permitted(1) by (rule replace_ok [OF ok permitted(4)]) (use own [OF permitted(4)] in \<open>auto simp: channels_ok_def\<close>)
  next
    case (refreshed a l)
    show ?thesis
      unfolding refreshed(1) by (rule replace_ok [OF ok refreshed(3)]) (use own [OF refreshed(3)] in \<open>auto simp: channels_ok_def\<close>)
  qed (use ok in simp)
qed

lemma turn_step_ok: "server_ok s \<Longrightarrow> server_ok (turn_step H s e)"
proof (cases e)
  case (FromClient raw client now clk fresh)
  assume ok: "server_ok s"
  obtain s' out where h: "turn_handle H s raw client now clk fresh = (s', out)" by fastforce
  let ?s = "expire_allocations s now"
  have ok1: "server_ok ?s" using ok by (rule expire_ok)
  consider "handler_ok H ?s raw client now (s', out)" | "s' = ?s"
    using turn_handle_cases [OF refl h] by blast
  then have "server_ok s'"
  proof cases
    case 1
    then have "alloc_change H ?s raw client now (ts_allocations s')" "same_config ?s s'"
      "length (ts_nonces ?s) \<le> 4096 \<longrightarrow> length (ts_nonces s') \<le> 4096"
      by (simp_all add: handler_ok_def)
    moreover from this(1) have "server_ok (?s\<lparr>ts_allocations := ts_allocations s'\<rparr>)"
      by (rule alloc_change_ok [OF ok1])
    ultimately show ?thesis by (simp add: server_ok_def same_config_def)
  qed (use ok1 in simp)
  then show ?thesis using h FromClient by (simp add: turn_step_def)
qed (simp add: turn_step_def sweep_def Let_def expire_ok)

interpretation turn_machine: state_machine "turn_step H" server_ok for H
  by unfold_locales (rule turn_step_ok)

lemma server_new_ok: "server_ok (turn_server_new realm users ip lo hi)"
  by (simp add: server_ok_def turn_server_new_def ports_def)

lemma relayed_addresses_distinct:
  assumes ok: "server_ok s"
  shows "inj_on (relay_addr s) (dom (relay_addr s))"
proof -
  have "c = c'" if c: "relay_addr s c = relay_addr s c'" "relay_addr s c \<noteq> None" for c c'
  proof -
    obtain a a' where a: "map_of (ts_allocations s) c = Some a" "map_of (ts_allocations s) c' = Some a'"
      using c by (auto simp: relay_addr_def)
    then have p: "sv_relay_port a = sv_relay_port a'" using c(1) by (simp add: relay_addr_def)
    have "(c, a) \<in> set (ts_allocations s)" "(c', a') \<in> set (ts_allocations s)"
      using a by (auto dest: map_of_SomeD)
    then show ?thesis
      using ok p inj_on_eq_iff [of "sv_relay_port \<circ> snd" "set (ts_allocations s)" "(c, a)" "(c', a')"]
      by (auto simp: server_ok_def ports_def distinct_map)
  qed
  then show ?thesis unfolding inj_on_def by blast
qed

text \<open>
  C30. In every state a run of datagrams and sweeps reaches, the tables of the server are consistent:
  no two clients share a relayed address, every relayed port is in the configured range, the
  channels of a client are in the reserved range and one to one with peers, no client sits on the
  relay's own address, and no more than 4096 nonces are outstanding.
\<close>

theorem turn_tables_stay_consistent:
  "let s = foldl (turn_step H) (turn_server_new realm users ip lo hi) es
   in inj_on (relay_addr s) (dom (relay_addr s)) \<and> server_ok s"
  using turn_machine.run_inv [OF server_new_ok] relayed_addresses_distinct by (auto simp: Let_def)

section \<open>Who may be reached\<close>

text \<open>
  An event that grants a client the address of a peer until \<open>e\<close>: a request of that client for the
  peer, with a valid digest under the long-term key of a user of the server.
\<close>

definition signed_by_user :: "stun_crates \<Rightarrow> turn_server \<Rightarrow> bytes \<Rightarrow> bool" where
  "signed_by_user H s raw \<longleftrightarrow>
     (\<exists>u pw. ts_users s u = Some pw \<and> verify_integrity H raw (long_term_key H u (ts_realm s) pw) = Ok ())"

fun grants :: "stun_crates \<Rightarrow> turn_server \<Rightarrow> sock_addr \<Rightarrow> ip_addr \<Rightarrow> instant \<Rightarrow> turn_event \<Rightarrow> bool" where
  "grants H s c ip e (FromClient raw c' now clk fresh) \<longleftrightarrow>
     c' = c \<and> e = now + DEFAULT_PERMISSION_LIFETIME \<and> signed_by_user H s raw \<and> (\<exists>peer. asks_for raw peer \<and> sa_ip peer = ip)"
| "grants H s c ip e (Sweep _) \<longleftrightarrow> False"

definition entry_granted :: "stun_crates \<Rightarrow> turn_server \<Rightarrow> turn_event list \<Rightarrow> sock_addr \<Rightarrow> server_allocation \<Rightarrow> bool" where
  "entry_granted H s es c a \<longleftrightarrow>
     (\<forall>i e. sv_permissions a i = Some e \<longrightarrow> (\<exists>ev \<in> set es. grants H s c i e ev))
     \<and> (\<forall>ch p. sv_channels a ch = Some p \<longrightarrow> (\<exists>e. \<exists>ev \<in> set es. grants H s c (sa_ip p) e ev))"

definition granted :: "stun_crates \<Rightarrow> turn_server \<Rightarrow> turn_event list \<Rightarrow> bool" where
  "granted H s es \<longleftrightarrow> (\<forall>(c, a) \<in> set (ts_allocations s). entry_granted H s es c a)"

lemma authenticate_signed: "authenticate H s raw msg = Some key \<Longrightarrow> signed_by_user H s raw"
proof -
  assume a: "authenticate H s raw msg = Some key"
  obtain x where x: "get_attr msg 6 = Some x" using a by (cases "get_attr msg 6") (simp_all add: authenticate_def)
  obtain u where u: "x = Username u" using a x by (cases x) (simp_all add: authenticate_def)
  show ?thesis
    using a unfolding authenticate_def x u option.case attribute.case
    by (auto simp: signed_by_user_def Let_def split: option.splits if_splits)
qed

lemma authentic_signed: "authentic H s raw \<Longrightarrow> signed_by_user H s raw"
  unfolding authentic_def by (blast dest: authenticate_signed)

lemma grants_config: "same_config s s' \<Longrightarrow> grants H s' c i e ev = grants H s c i e ev"
  by (cases ev) (auto simp: same_config_def signed_by_user_def)

lemma entry_granted_mono:
  "entry_granted H s es c a \<Longrightarrow> same_config s s' \<Longrightarrow> set es \<subseteq> set es' \<Longrightarrow> entry_granted H s' es' c a"
  unfolding entry_granted_def by (simp add: grants_config) (meson subsetD)

lemma expire_config [simp]: "same_config s (expire_allocations s now)"
  by (simp add: expire_allocations_def same_config_def)

lemma expire_granted: "granted H s es \<Longrightarrow> granted H (expire_allocations s now) es"
proof -
  assume g: "granted H s es"
  have "entry_granted H (expire_allocations s now) es c a"
    if m: "(c, a) \<in> set (ts_allocations (expire_allocations s now))" for c a
  proof -
    obtain a0 where a0: "(c, a0) \<in> set (ts_allocations s)" "sv_channels a = sv_channels a0"
      "\<forall>ip e. sv_permissions a ip = Some e \<longrightarrow> sv_permissions a0 ip = Some e \<and> now < e"
      using expire_subset [OF m] by blast
    then have "entry_granted H s es c a0" using g by (auto simp: granted_def)
    then have "entry_granted H s es c a" using a0(2,3) by (simp add: entry_granted_def)
    then show ?thesis by (rule entry_granted_mono) simp_all
  qed
  then show ?thesis by (auto simp: granted_def)
qed

lemma alloc_change_granted:
  assumes g: "granted H s es" and ch: "alloc_change H s raw client now al"
    and al: "(c, a) \<in> set al" and ev: "ev = FromClient raw client now clk fresh"
  shows "entry_granted H s (es @ [ev]) c a"
proof -
  have old: "entry_granted H s (es @ [ev]) c a" if "(c, a) \<in> set (ts_allocations s)" for c a
    using that g entry_granted_mono [of H s es c a s "es @ [ev]"] by (auto simp: granted_def)
  have own: "entry_granted H s (es @ [ev]) client b" if "map_of (ts_allocations s) client = Some b" for b
    by (rule old [OF map_of_SomeD [OF that]])
  have new: "grants H s client (sa_ip peer) (now + DEFAULT_PERMISSION_LIFETIME) ev"
    if "authentic H s raw" "asks_for raw peer" for peer
    using that authentic_signed by (auto simp: ev)
  from ch show ?thesis
  proof cases
    case (allocated port l)
    have "entry_granted H s (es @ [ev]) client \<lparr>sv_relay_port = port, sv_permissions = Map.empty,
        sv_channels = Map.empty, sv_channel_peers = Map.empty, sv_expires_at = now + secs (unat l)\<rparr>"
      by (simp add: entry_granted_def)
    then show ?thesis using al allocated(1) set_update old by fastforce
  next
    case (refreshed b l)
    have "entry_granted H s (es @ [ev]) client (b\<lparr>sv_expires_at := now + secs (unat l)\<rparr>)"
      using own [OF refreshed(3)] by (simp add: entry_granted_def)
    then show ?thesis using al refreshed(1) set_update old by fastforce
  next
    case released
    then show ?thesis using al by (auto simp: AList.delete_eq intro: old)
  next
    case (permitted peer b)
    have "entry_granted H s (es @ [ev]) client
        (b\<lparr>sv_permissions := (sv_permissions b)(sa_ip peer \<mapsto> now + DEFAULT_PERMISSION_LIFETIME)\<rparr>)"
      using own [OF permitted(4)] new [OF permitted(2,3)] by (auto simp: entry_granted_def)
    then show ?thesis using al permitted(1) set_update old by fastforce
  next
    case (bound peer b k)
    have "entry_granted H s (es @ [ev]) client
        (b\<lparr>sv_channels := (sv_channels b)(k \<mapsto> peer), sv_channel_peers := (sv_channel_peers b)(peer \<mapsto> k),
           sv_permissions := (sv_permissions b)(sa_ip peer \<mapsto> now + DEFAULT_PERMISSION_LIFETIME)\<rparr>)"
      using own [OF bound(4)] new [OF bound(2,3)] by (auto simp: entry_granted_def)
    then show ?thesis using al bound(1) set_update old by fastforce
  qed (use al old in simp)
qed

lemma run_config: "same_config s0 (foldl (turn_step H) s0 es)" "server_ok s0 \<Longrightarrow> server_ok (foldl (turn_step H) s0 es)"
proof -
  have step: "same_config s (turn_step H s e)" for s e
  proof (cases e)
    case (FromClient raw client now clk fresh)
    obtain s' out where h: "turn_handle H s raw client now clk fresh = (s', out)" by fastforce
    have "same_config (expire_allocations s now) s'"
      using turn_handle_cases [OF refl h] by (auto simp: handler_ok_def)
    then show ?thesis using h FromClient expire_config [of s now] by (auto simp: turn_step_def same_config_def)
  qed (simp add: turn_step_def sweep_def Let_def)
  show "same_config s0 (foldl (turn_step H) s0 es)"
  proof (induction es rule: rev_induct)
    case (snoc e es)
    then show ?case using step [of "foldl (turn_step H) s0 es" e] by (simp add: same_config_def)
  qed simp
qed (rule turn_machine.run_inv)

lemma run_granted:
  "ts_allocations s0 = [] \<Longrightarrow> granted H (foldl (turn_step H) s0 es) es"
proof (induction es rule: rev_induct)
  case Nil
  then show ?case by (simp add: granted_def)
next
  case (snoc ev es)
  let ?s = "foldl (turn_step H) s0 es"
  have g: "granted H ?s es" using snoc by simp
  show ?case
  proof (cases ev)
    case (FromClient raw client now clk fresh)
    let ?e = "expire_allocations ?s now"
    obtain s' out where h: "turn_handle H ?s raw client now clk fresh = (s', out)" by fastforce
    have ge: "granted H ?e es" using g by (rule expire_granted)
    have s': "foldl (turn_step H) s0 (es @ [ev]) = s'" using h FromClient by (simp add: turn_step_def)
    consider "alloc_change H ?e raw client now (ts_allocations s')" "same_config ?e s'" | "s' = ?e"
      using turn_handle_cases [OF refl h] by (auto simp: handler_ok_def)
    then show ?thesis
    proof cases
      case 1
      have "entry_granted H s' (es @ [ev]) c a" if "(c, a) \<in> set (ts_allocations s')" for c a
        using alloc_change_granted [OF ge 1(1) that FromClient] 1(2) by (rule entry_granted_mono) simp
      then show ?thesis unfolding s' by (auto simp: granted_def)
    next
      case 2
      then show ?thesis using ge unfolding s'
        by (auto simp: granted_def intro: entry_granted_mono)
    qed
  next
    case (Sweep now)
    have "foldl (turn_step H) s0 (es @ [ev]) = expire_allocations ?s now"
      by (simp add: Sweep turn_step_def sweep_def Let_def)
    then show ?thesis using expire_granted [OF g, of now]
      by (auto simp: granted_def intro: entry_granted_mono)
  qed
qed

text \<open>
  C14. The relay is not an open reflector. Whatever was received before, a datagram of a client makes
  the server send to a peer only from the client's own relayed port, and only if that same client
  earlier asked for that peer's address in a request whose digest verifies under the long-term key of
  a user of the server. A Send indication is itself authenticated and within five minutes of such a
  request; a ChannelData message needs only a bound channel.
\<close>

theorem turn_relays_only_granted_peers:
  assumes s: "s = foldl (turn_step H) (turn_server_new realm users ip lo hi) es"
    and h: "turn_handle H s raw client now clk fresh = (s', out)" and x: "ToPeer port peer d \<in> set out"
  shows "relay_addr s' client = Some \<lparr>sa_ip = ip, sa_port = port\<rparr>
    \<and> (\<exists>e. \<exists>ev \<in> set es. grants H s client (sa_ip peer) e ev
         \<and> (parse_channel_data raw = None \<longrightarrow> signed_by_user H s raw \<and> now < e))"
proof -
  let ?e = "expire_allocations s now"
  have cfg: "same_config (turn_server_new realm users ip lo hi) s" using run_config(1) s by blast
  have "\<not> handler_ok H ?e raw client now (s', out)" using x by (auto simp: handler_ok_def)
  then obtain a where s': "s' = ?e" and a: "map_of (ts_allocations ?e) client = Some a" "port = sv_relay_port a"
    and why: "(\<exists>ch. parse_channel_data raw = Some (ch, d) \<and> sv_channels a ch = Some peer)
      \<or> authentic H ?e raw \<and> (\<exists>e. sv_permissions a (sa_ip peer) = Some e)"
    using turn_handle_cases [OF refl h] x by fastforce
  have m: "(client, a) \<in> set (ts_allocations ?e)" using a(1) by (rule map_of_SomeD)
  obtain a0 where a0: "(client, a0) \<in> set (ts_allocations s)" "sv_channels a = sv_channels a0"
    "\<forall>i e. sv_permissions a i = Some e \<longrightarrow> sv_permissions a0 i = Some e \<and> now < e"
    using expire_subset [OF m] by blast
  have "granted H s es" unfolding s by (rule run_granted) (simp add: turn_server_new_def)
  then have g: "entry_granted H s es client a0" using a0(1) by (auto simp: granted_def)
  have addr: "relay_addr s' client = Some \<lparr>sa_ip = ip, sa_port = port\<rparr>"
    using a cfg unfolding s' by (simp add: relay_addr_def same_config_def turn_server_new_def expire_allocations_def)
  show ?thesis
  proof (cases "parse_channel_data raw")
    case None
    then have "authentic H ?e raw \<and> (\<exists>e. sv_permissions a (sa_ip peer) = Some e)"
      using why by simp
    then obtain e where "sv_permissions a (sa_ip peer) = Some e" "signed_by_user H ?e raw" using authentic_signed by blast
    moreover have "signed_by_user H s raw = signed_by_user H ?e raw"
      by (simp add: signed_by_user_def expire_allocations_def)
    ultimately show ?thesis using a0(3) g addr unfolding entry_granted_def by blast
  next
    case (Some cp)
    then show ?thesis using why a0(2,3) g addr unfolding entry_granted_def by (metis option.distinct(1))
  qed
qed

section \<open>Client and server\<close>

lemma message_type_small: "m < 0x1000 \<Longrightarrow> message_type m c < 0x4000"
proof -
  assume m: "m < 0x1000"
  let ?t = "message_type m c"
  have hi: "\<not> bit m 12" "\<not> bit m 13" "\<not> bit m 14" "\<not> bit m 15" using u16_method_bits [OF m] by auto
  have b: "\<not> bit ?t 14" "\<not> bit ?t 15" by (cases c; simp add: message_type_def bit_simps hi)+
  have "take_bit 14 ?t = ?t"
  proof (rule u16_eqI)
    fix n :: nat assume "n < 16"
    then consider "n < 14" | "n = 14" | "n = 15" by linarith
    then show "bit (take_bit 14 ?t) n = bit ?t n" using b by cases (simp_all add: bit_simps)
  qed
  then have "take_bit 14 (unat ?t) = unat ?t" by (metis unsigned_take_bit_eq)
  then have "unat ?t < 2 ^ 14" by (metis take_bit_nat_less_exp)
  then show ?thesis by (simp add: word_less_nat_alt)
qed

text \<open>A STUN message is never taken for ChannelData.\<close>

lemma stun_is_not_channel_data:
  assumes "length (msg_txid m) = 12" and "msg_typ m = message_type meth cl" and "meth < 0x1000"
  shows "parse_channel_data (encode_message m) = None"
proof -
  have "slice 0 2 (encode_message m) = be_u16 (msg_typ m)"
    using encode_message_form [OF assms(1)] header_reads(1) [OF assms(1)] by simp
  moreover have "\<not> channel_range (msg_typ m)"
    using message_type_small [OF assms(3), of cl] assms(2)
    by (simp add: channel_range_def CHANNEL_NUMBER_MIN_def not_le)
  ultimately show ?thesis by (simp add: parse_channel_data_def Let_def)
qed

definition with_credentials :: "turn_client \<Rightarrow> message \<Rightarrow> bytes \<Rightarrow> bytes \<Rightarrow> message" where
  "with_credentials c msg realm nonce =
     push_attr (push_attr (push_attr msg (Username (tc_username c))) (Realm realm)) (NonceA nonce)"

text \<open>What a client may seal: plain attributes other than credentials, with room for those.\<close>

definition sealable :: "turn_client \<Rightarrow> message \<Rightarrow> bytes \<Rightarrow> bytes \<Rightarrow> bool" where
  "sealable c msg realm nonce \<longleftrightarrow>
     length (msg_txid msg) = 12 \<and> plain_attributes (msg_attributes msg)
     \<and> (\<forall>a \<in> set (msg_attributes msg). attr_kind a \<notin> {USERNAME, REALM, NONCE})
     \<and> utf8_valid (tc_username c) \<and> utf8_valid realm \<and> utf8_valid nonce
     \<and> length (body_bytes (msg_txid msg) (msg_attributes msg))
         + length (tc_username c) + length realm + length nonce < 65000"

lemma length_tlv_le: "length (tlv t a) \<le> length (encode_value a t) + 7"
  using padded_bounds(2) [of "length (encode_value a t)"] by (simp add: length_tlv)

lemma with_credentials_facts:
  assumes "sealable c msg realm nonce"
  shows "length (msg_txid (with_credentials c msg realm nonce)) = 12"
    and "plain_attributes (msg_attributes (with_credentials c msg realm nonce))"
    and "length (body_bytes (msg_txid msg) (msg_attributes (with_credentials c msg realm nonce))) \<le>
      length (body_bytes (msg_txid msg) (msg_attributes msg)) + length (tc_username c) + length realm + length nonce + 21"
  using assms length_tlv_le [of "msg_txid msg" "Username (tc_username c)"] length_tlv_le [of "msg_txid msg" "Realm realm"]
    length_tlv_le [of "msg_txid msg" "NonceA nonce"]
  by (auto simp: sealable_def with_credentials_def push_attr_def plain_attributes_def)

lemma tc_seal_form:
  assumes "hmac_sha1_law H" and "sealable c msg realm nonce" and "tc_realm c = Some realm" and "tc_nonce c = Some nonce"
  shows "tc_seal H c msg
    = Ok (encode_message (signed_then H (long_term_key H (tc_username c) realm (tc_password c)) (with_credentials c msg realm nonce) []))"
proof -
  let ?m = "with_credentials c msg realm nonce"
  have t: "length (msg_txid ?m) = 12" and p: "plain_attributes (msg_attributes ?m)"
    using with_credentials_facts [OF assms(2)] by auto
  have f: "filter (\<lambda>a. \<not> is_digest a) (msg_attributes ?m) = msg_attributes ?m"
    using p by (auto simp: plain_attributes_def intro!: filter_True)
  have "encode_with_integrity H ?m key = Ok (encode_message (signed_then H key ?m []))" for key
    using encode_with_integrity_signed_then [OF assms(1) t, of key] f by simp
  then show ?thesis using assms(3,4) by (simp add: tc_seal_def tc_key_def with_credentials_def Let_def)
qed

lemma get_signed_then:
  "k \<noteq> MESSAGE_INTEGRITY \<Longrightarrow> k \<noteq> FINGERPRINT \<Longrightarrow> get_attr (signed_then H key m []) k = get_attr m k"
  by (auto simp: get_attr_def signed_then_def Let_def find_append split: option.splits)

lemma typ_signed_then [simp]:
  "msg_typ (signed_then H key m extra) = msg_typ m" "msg_txid (signed_then H key m extra) = msg_txid m"
  by (simp_all add: signed_then_def Let_def)

lemma find_none: "(\<forall>a \<in> set as. \<not> P a) \<Longrightarrow> find P as = None"
  by (simp add: find_None_iff)

text \<open>A sealed request of a registered user with an issued nonce passes the server's check.\<close>

lemma sealed_request_is_authentic:
  assumes H: "hmac_sha1_law H" and sl: "sealable c msg realm nonce" and c: "tc_realm c = Some realm" "tc_nonce c = Some nonce"
    and s: "ts_realm s = realm" "map_of (ts_nonces s) nonce \<noteq> None" "ts_users s (tc_username c) = Some (tc_password c)"
  obtains raw m key where "tc_seal H c msg = Ok raw" and "parse_message raw = Ok m" and "authenticate H s raw m = Some key"
    and "key = long_term_key H (tc_username c) realm (tc_password c)"
    and "msg_typ m = msg_typ msg" and "msg_txid m = msg_txid msg" and "raw = encode_message m"
    and "\<And>k. k \<notin> {USERNAME, REALM, NONCE, MESSAGE_INTEGRITY, FINGERPRINT} \<Longrightarrow> get_attr m k = get_attr msg k"
proof -
  let ?key = "long_term_key H (tc_username c) realm (tc_password c)"
  let ?w = "with_credentials c msg realm nonce"
  let ?m = "signed_then H ?key ?w []"
  have tx: "msg_txid ?w = msg_txid msg" "msg_typ ?w = msg_typ msg" by (simp_all add: with_credentials_def push_attr_def)
  have len: "length (body_bytes (msg_txid ?w) (msg_attributes ?w)) + length (body_bytes (msg_txid ?w) []) + 32 < 65536"
    using with_credentials_facts(3) [OF sl] sl tx by (simp add: sealable_def)
  have "plain_attributes []" by (simp add: plain_attributes_def)
  note v = signed_then_verifies [OF H with_credentials_facts(1,2) [OF sl] this len, of ?key]
  have none: "find (\<lambda>a. attr_kind a = k) (msg_attributes msg) = None" if "k \<in> {USERNAME, REALM, NONCE}" for k
    using sl that by (intro find_none) (auto simp: sealable_def)
  have g: "get_attr ?w USERNAME = Some (Username (tc_username c))" "get_attr ?w REALM = Some (Realm realm)"
    "get_attr ?w NONCE = Some (NonceA nonce)"
    using none by (simp_all add: get_attr_def with_credentials_def push_attr_def find_append) (simp_all add: attr_kinds)
  have kinds: "USERNAME \<noteq> MESSAGE_INTEGRITY" "USERNAME \<noteq> FINGERPRINT" "REALM \<noteq> MESSAGE_INTEGRITY" "REALM \<noteq> FINGERPRINT"
    "NONCE \<noteq> MESSAGE_INTEGRITY" "NONCE \<noteq> FINGERPRINT" by (simp_all add: attr_kinds)
  have u: "get_attr ?m 6 = Some (Username (tc_username c))"
    using get_signed_then [OF kinds(1,2)] g(1) by (simp add: USERNAME_def)
  have "realm_of ?m = Some realm" "nonce_of ?m = Some nonce"
    using get_signed_then [OF kinds(3,4)] get_signed_then [OF kinds(5,6)] g(2,3) by (simp_all add: realm_of_def nonce_of_def)
  moreover have "from_utf8_lossy (tc_username c) = tc_username c" using sl by (simp add: sealable_def lossy_id)
  ultimately have auth: "authenticate H s (encode_message ?m) ?m = Some ?key"
    using u s v(1) by (auto simp: authenticate_def Let_def)
  have other: "get_attr ?m k = get_attr msg k" if "k \<notin> {USERNAME, REALM, NONCE, MESSAGE_INTEGRITY, FINGERPRINT}" for k
    using that get_signed_then [of k H ?key ?w]
    by (auto simp: get_attr_def with_credentials_def push_attr_def find_append split: option.splits)
  show thesis
    by (rule that [OF tc_seal_form [OF H sl c] v(3) auth refl _ _ refl other]) (simp_all add: tx)
qed

lemma message_new_facts [simp]:
  "msg_txid (message_new m c t) = t" "msg_typ (message_new m c t) = message_type m c" "msg_attributes (message_new m c t) = []"
  "msg_txid (push_attr msg a) = msg_txid msg" "msg_typ (push_attr msg a) = msg_typ msg"
  "msg_attributes (push_attr msg a) = msg_attributes msg @ [a]"
  by (simp_all add: message_new_def push_attr_def)

lemma allocate_request_facts:
  assumes "length t = 12"
  shows "message_wf (allocate_request t l)" "plain_attributes (msg_attributes (allocate_request t l))"
    "length (body_bytes t (msg_attributes (allocate_request t l))) = 20"
    "msg_txid (allocate_request t l) = t" "msg_typ (allocate_request t l) = message_type METHOD_ALLOCATE Request"
    "\<forall>a \<in> set (msg_attributes (allocate_request t l)). attr_kind a \<notin> {USERNAME, REALM, NONCE}"
    "requested_transport (allocate_request t l) = Some TRANSPORT_UDP" "lifetime_of (allocate_request t l) = Some l"
proof -
  show "length (body_bytes t (msg_attributes (allocate_request t l))) = 20"
    by (simp add: allocate_request_def length_tlv padded_def)
  then show "message_wf (allocate_request t l)"
    using assms unfolding message_wf_def by (simp add: allocate_request_def)
qed (simp_all add: allocate_request_def plain_attributes_def message_reads get_attr_def attr_kinds)

lemma length_encode_message:
  "length (msg_txid m) = 12 \<Longrightarrow> length (encode_message m) = 20 + length (body_bytes (msg_txid m) (msg_attributes m))"
  by (simp add: encode_message_form length_header)

lemma ascii_utf8: "(\<forall>c \<in> set s. of_char c < (128 :: u8)) \<Longrightarrow> utf8_valid (ascii s)"
  by (rule ascii_valid) (auto simp: ascii_def)

text \<open>The challenge a request without credentials gets, and what the client reads from it.\<close>

definition challenge :: "bytes \<Rightarrow> bytes \<Rightarrow> bytes \<Rightarrow> message" where
  "challenge t realm fresh = push_attr (push_attr (push_attr (message_new METHOD_ALLOCATE ErrorResponse t)
     (ErrorCode 401 (ascii ''Unauthorized''))) (Realm realm)) (NonceA fresh)"

lemma challenge_facts:
  assumes "length t = 12" and "utf8_valid realm" and "utf8_valid fresh" and "length realm + length fresh < 1400"
  shows "message_wf (challenge t realm fresh)" "length (encode_message (challenge t realm fresh)) \<le> 1500"
    "msg_txid (challenge t realm fresh) = t"
    "class_of (msg_typ (challenge t realm fresh)) = ErrorResponse"
    "error_code (challenge t realm fresh) = Some (401, ascii ''Unauthorized'')"
    "realm_of (challenge t realm fresh) = Some realm" "nonce_of (challenge t realm fresh) = Some fresh"
proof -
  have len: "length (body_bytes t (msg_attributes (challenge t realm fresh))) \<le> length realm + length fresh + 40"
    using length_tlv_le [of t "Realm realm"] length_tlv_le [of t "NonceA fresh"]
      length_tlv_le [of t "ErrorCode 401 (ascii ''Unauthorized'')"]
    by (simp add: challenge_def)
  show tx: "msg_txid (challenge t realm fresh) = t" by (simp add: challenge_def)
  show "message_wf (challenge t realm fresh)"
    using assms len tx by (simp add: message_wf_def challenge_def ascii_utf8)
  show "length (encode_message (challenge t realm fresh)) \<le> 1500"
    using length_encode_message [of "challenge t realm fresh"] len tx assms(1,4) by simp
qed (simp_all add: challenge_def message_type_class message_reads get_attr_def attr_kinds)

lemma unauthenticated_allocate:
  assumes t: "length t = 12"
  shows "turn_handle H s (encode_message (allocate_request t l)) from now clk fresh
    = (issue_nonce (expire_allocations s now) clk fresh, [ToClient from (encode_message (challenge t (ts_realm s) fresh))])"
proof -
  let ?m = "allocate_request t l"
  note f = allocate_request_facts [OF t, of l]
  have m: "METHOD_ALLOCATE < 0x1000" by (simp add: METHOD_ALLOCATE_def)
  have p: "parse_message (encode_message ?m) = Ok ?m" using parse_encoded [OF f(1), of "[]"] by simp
  have n: "parse_channel_data (encode_message ?m) = None"
    using f(4,5) t by (intro stun_is_not_channel_data [OF _ _ m]) simp_all
  have ty: "method_of (msg_typ ?m) = METHOD_ALLOCATE" "class_of (msg_typ ?m) = Request"
    using f(5) message_type_method [OF m] message_type_class by simp_all
  have "authenticate H s' raw ?m = None" for s' raw
    by (simp add: authenticate_def allocate_request_def get_attr_def attr_kinds)
  then show ?thesis
    unfolding turn_handle_def Let_def n p option.case rust.case
    by (simp add: ty handle_allocate_def error_response_def challenge_def f(4) expire_allocations_def Let_def)
qed

lemma issued_nonce: "map_of (ts_nonces (issue_nonce s clk fresh)) fresh = Some clk"
  by (simp add: issue_nonce_def Let_def update_conv')

definition allocate_success :: "bytes \<Rightarrow> sock_addr \<Rightarrow> sock_addr \<Rightarrow> u32 \<Rightarrow> message" where
  "allocate_success t relayed mapped l = push_attr (push_attr (push_attr (message_new METHOD_ALLOCATE SuccessResponse t)
     (XorRelayedAddress relayed)) (XorMappedAddress mapped)) (Lifetime l)"

lemma encode_address_le: "addr_wf a \<Longrightarrow> length t = 12 \<Longrightarrow> length (encode_address a t x) \<le> 20"
  by (simp add: length_encode_address split: ip_addr.splits)

lemma encode_signed_form:
  assumes "hmac_sha1_law H" and "length (msg_txid m) = 12" and "plain_attributes (msg_attributes m)"
  shows "encode_signed H m key = encode_message (signed_then H key m [])"
proof -
  have "filter (\<lambda>a. \<not> is_digest a) (msg_attributes m) = msg_attributes m"
    using assms(3) by (auto simp: plain_attributes_def intro!: filter_True)
  then show ?thesis using encode_with_integrity_signed_then [OF assms(1,2), of key] by (simp add: encode_signed_def)
qed

lemma allocate_success_facts:
  fixes l :: u32
  assumes H: "hmac_sha1_law H" and t: "length t = 12" and wf: "addr_wf relayed" "addr_wf mapped"
  defines "m \<equiv> allocate_success t relayed mapped l"
  shows "encode_signed H m key = encode_message (signed_then H key m [])"
    "verify_integrity H (encode_message (signed_then H key m [])) key = Ok ()"
    "parse_message (encode_message (signed_then H key m [])) = Ok (signed_then H key m [])"
    "length (encode_message (signed_then H key m [])) \<le> 1500"
    "xor_relayed_address (signed_then H key m []) = Some relayed"
    "xor_mapped_address (signed_then H key m []) = Some mapped"
    "lifetime_of (signed_then H key m []) = Some l"
    "class_of (msg_typ (signed_then H key m [])) = SuccessResponse" "msg_txid m = t"
proof -
  show tx: "msg_txid m = t" by (simp add: m_def allocate_success_def)
  have p: "plain_attributes (msg_attributes m)" "plain_attributes []"
    using wf by (simp_all add: m_def allocate_success_def plain_attributes_def)
  have len: "length (body_bytes (msg_txid m) (msg_attributes m)) \<le> 62"
    using length_tlv_le [of t "XorRelayedAddress relayed"] length_tlv_le [of t "XorMappedAddress mapped"]
      encode_address_le [OF wf(1) t, of True] encode_address_le [OF wf(2) t, of True]
    by (simp add: tx) (simp add: m_def allocate_success_def length_tlv padded_def)
  have len': "length (body_bytes (msg_txid m) (msg_attributes m)) + length (body_bytes (msg_txid m) []) + 32 < 65536"
    using len by simp
  note v = signed_then_verifies [OF H _ p len', of key]
  show "verify_integrity H (encode_message (signed_then H key m [])) key = Ok ()"
    "parse_message (encode_message (signed_then H key m [])) = Ok (signed_then H key m [])"
    using v t tx by simp_all
  show "encode_signed H m key = encode_message (signed_then H key m [])"
    by (rule encode_signed_form [OF H _ p(1)]) (simp add: tx t)
  show "length (encode_message (signed_then H key m [])) \<le> 1500"
    using length_encode_message [of "signed_then H key m []"] body_signed_then [OF H, of m key "[]"] len t tx by simp
  show "class_of (msg_typ (signed_then H key m [])) = SuccessResponse"
    by (simp add: m_def allocate_success_def message_type_class)
  have k: "get_attr (signed_then H key m []) k = get_attr m k" if "k \<in> {XOR_RELAYED_ADDRESS, XOR_MAPPED_ADDRESS, LIFETIME}" for k
    using that by (intro get_signed_then) (auto simp: attr_kinds)
  show "xor_relayed_address (signed_then H key m []) = Some relayed"
    "xor_mapped_address (signed_then H key m []) = Some mapped" "lifetime_of (signed_then H key m []) = Some l"
    by (simp_all add: message_reads k) (simp_all add: m_def allocate_success_def get_attr_def attr_kinds)
qed

lemma authenticated_allocate:
  assumes H: "hmac_sha1_law H" and t: "length (msg_txid msg) = 12" and wf: "addr_wf from" "addr_wf \<lparr>sa_ip = ts_relay_ip s, sa_port = port\<rparr>"
    and raw: "raw = encode_message msg" "parse_message raw = Ok msg" "msg_typ msg = message_type METHOD_ALLOCATE Request"
    and auth: "authenticate H (expire_allocations s now) raw msg = Some key"
    and req: "requested_transport msg = Some TRANSPORT_UDP" "lifetime_of msg = Some l" "MIN_LIFETIME_SECS \<le> l"
    and addr: "sa_ip from \<noteq> ts_relay_ip s"
    and port: "map_of (ts_allocations (expire_allocations s now)) from = None" "free_port (expire_allocations s now) = Some port"
  shows "\<exists>s'. turn_handle H s raw from now clk fresh
      = (s', [ToClient from (encode_message (signed_then H key (allocate_success (msg_txid msg) \<lparr>sa_ip = ts_relay_ip s, sa_port = port\<rparr> from l) []))])
    \<and> s' = (expire_allocations s now)\<lparr>ts_allocations := AList.update from
        \<lparr>sv_relay_port = port, sv_permissions = Map.empty, sv_channels = Map.empty,
         sv_channel_peers = Map.empty, sv_expires_at = now + secs (unat l)\<rparr> (ts_allocations (expire_allocations s now))\<rparr>
    \<and> relay_addr s' from = Some \<lparr>sa_ip = ts_relay_ip s, sa_port = port\<rparr>"
proof -
  let ?e = "expire_allocations s now"
  have m: "METHOD_ALLOCATE < 0x1000" by (simp add: METHOD_ALLOCATE_def)
  have n: "parse_channel_data raw = None"
    unfolding raw(1) using t raw(3) by (intro stun_is_not_channel_data [OF _ _ m]) simp_all
  have ty: "method_of (msg_typ msg) = METHOD_ALLOCATE" "class_of (msg_typ msg) = Request"
    using raw(3) message_type_method [OF m] message_type_class by simp_all
  have ip: "ts_relay_ip ?e = ts_relay_ip s" by (simp add: expire_allocations_def)
  have l: "max l MIN_LIFETIME_SECS = l" using req(3) by simp
  have enc: "encode_signed H (allocate_success (msg_txid msg) \<lparr>sa_ip = ts_relay_ip s, sa_port = port\<rparr> from l) key
      = encode_message (signed_then H key (allocate_success (msg_txid msg) \<lparr>sa_ip = ts_relay_ip s, sa_port = port\<rparr> from l) [])"
    by (rule allocate_success_facts(1) [OF H t wf(2,1)])
  have "turn_handle H s raw from now clk fresh = handle_allocate H ?e raw msg from now clk fresh"
    unfolding turn_handle_def Let_def n raw(2) option.case rust.case by (simp add: ty)
  also have "\<dots> = (?e\<lparr>ts_allocations := AList.update from
        \<lparr>sv_relay_port = port, sv_permissions = Map.empty, sv_channels = Map.empty,
         sv_channel_peers = Map.empty, sv_expires_at = now + secs (unat l)\<rparr> (ts_allocations ?e)\<rparr>,
      [ToClient from (encode_signed H (allocate_success (msg_txid msg) \<lparr>sa_ip = ts_relay_ip s, sa_port = port\<rparr> from l) key)])"
    unfolding handle_allocate_def Let_def auth option.case req(1,2) port ip l
    using addr by (simp add: allocate_success_def)
  finally show ?thesis unfolding enc by (simp add: relay_addr_def ip update_conv')
qed

definition fresh_entry :: "u16 \<Rightarrow> instant \<Rightarrow> server_allocation" where
  "fresh_entry port e = \<lparr>sv_relay_port = port, sv_permissions = Map.empty, sv_channels = Map.empty,
     sv_channel_peers = Map.empty, sv_expires_at = e\<rparr>"

text \<open>A sealed allocation request of a user with an issued nonce gets a free port.\<close>

lemma sealed_allocate:
  assumes H: "hmac_sha1_law H" and t: "length t = 12" and sl: "sealable c (allocate_request t 600) realm nonce"
    and c: "tc_realm c = Some realm" "tc_nonce c = Some nonce"
    and s: "ts_realm s = realm" "map_of (ts_nonces s) nonce \<noteq> None" "ts_users s (tc_username c) = Some (tc_password c)"
    and addr: "sa_ip client \<noteq> ts_relay_ip s" "addr_wf client" "addr_wf \<lparr>sa_ip = ts_relay_ip s, sa_port = port\<rparr>"
    and free: "map_of (ts_allocations (expire_allocations s now)) client = None" "free_port (expire_allocations s now) = Some port"
  obtains raw s' where "tc_seal H c (allocate_request t 600) = Ok raw"
    and "turn_handle H s raw client now clk fresh = (s', [ToClient client (encode_message (signed_then H
      (long_term_key H (tc_username c) realm (tc_password c)) (allocate_success t \<lparr>sa_ip = ts_relay_ip s, sa_port = port\<rparr> client 600) []))])"
    and "s' = (expire_allocations s now)\<lparr>ts_allocations :=
      AList.update client (fresh_entry port (now + secs 600)) (ts_allocations (expire_allocations s now))\<rparr>"
    and "relay_addr s' client = Some \<lparr>sa_ip = ts_relay_ip s, sa_port = port\<rparr>"
proof -
  let ?q = "allocate_request t 600" and ?e = "expire_allocations s now"
  note rq = allocate_request_facts [OF t, of 600]
  have e: "ts_realm ?e = realm" "map_of (ts_nonces ?e) nonce \<noteq> None" "ts_users ?e (tc_username c) = Some (tc_password c)"
    using s by (simp_all add: expire_allocations_def)
  obtain raw m key where r: "tc_seal H c ?q = Ok raw" "parse_message raw = Ok m"
    "authenticate H ?e raw m = Some key" "key = long_term_key H (tc_username c) realm (tc_password c)"
    "msg_typ m = msg_typ ?q" "msg_txid m = msg_txid ?q" "raw = encode_message m"
    and g: "\<And>k. k \<notin> {USERNAME, REALM, NONCE, MESSAGE_INTEGRITY, FINGERPRINT} \<Longrightarrow> get_attr m k = get_attr ?q k"
    by (rule sealed_request_is_authentic [OF H sl c e]) (rule that)
  have rd: "requested_transport m = Some TRANSPORT_UDP" "lifetime_of m = Some 600" "(600 :: u32) \<ge> MIN_LIFETIME_SECS"
    using rq(7,8) g [of REQUESTED_TRANSPORT] g [of LIFETIME]
    by (simp_all add: requested_transport_def lifetime_of_def MIN_LIFETIME_SECS_def) (simp_all add: attr_kinds)
  have tm: "msg_txid m = t" "msg_typ m = message_type METHOD_ALLOCATE Request" using r(5,6) rq(4,5) by simp_all
  have tl: "length (msg_txid m) = 12" using tm(1) t by simp
  show thesis
    using authenticated_allocate [OF H tl addr(2,3) r(7,2) tm(2) r(3) rd addr(1) free, of clk fresh] that [OF r(1)]
    unfolding r(4) tm(1) fresh_entry_def by auto
qed

text \<open>
  C31. A TURN allocation end to end. A client that is a user of the server, talking from an address
  other than the relay's and without an allocation there, gets one with two requests: the first is
  answered with a challenge, whose realm and nonce it adopts, the second with the relayed address the
  server has entered in its table; client and server agree on it, and no datagram is handed on.
\<close>

theorem turn_allocation_succeeds:
  assumes H: "hmac_sha1_law H" and t: "length t0 = 12" "length t1 = 12"
    and c: "c = turn_client_new server username password" and user: "ts_users s username = Some password"
    and names: "utf8_valid username" "utf8_valid (ts_realm s)" "utf8_valid fresh" "length username < 60000"
      "length (ts_realm s) + length fresh < 1400"
    and addr: "sa_ip client \<noteq> ts_relay_ip s" "addr_wf client" "addr_wf \<lparr>sa_ip = ts_relay_ip s, sa_port = port\<rparr>"
    and free: "map_of (ts_allocations (expire_allocations (expire_allocations s now) now')) client = None"
      "free_port (expire_allocations (expire_allocations s now) now') = Some port"
  shows "\<exists>d0 d1 s1 s2 c'.
      turn_handle H s (encode_message (allocate_request t0 600)) client now clk fresh = (s1, [ToClient client d0])
    \<and> (\<exists>req1. turn_handle H s1 req1 client now' clk' fresh' = (s2, [ToClient client d1])
        \<and> tc_allocate H c DEFAULT_LIFETIME now'' (t0, [(d0, server)]) (t1, [(d1, server)])
          = (c', Ok \<lparr>sa_ip = ts_relay_ip s, sa_port = port\<rparr>, [encode_message (allocate_request t0 600), req1], []))
    \<and> relay_addr s2 client = Some \<lparr>sa_ip = ts_relay_ip s, sa_port = port\<rparr>
    \<and> map_option al_relayed_addr (tc_allocation c') = Some \<lparr>sa_ip = ts_relay_ip s, sa_port = port\<rparr>
    \<and> map_option al_mapped_addr (tc_allocation c') = Some (Some client)"
proof -
  let ?ra = "\<lparr>sa_ip = ts_relay_ip s, sa_port = port\<rparr>"
  let ?s1 = "issue_nonce (expire_allocations s now) clk fresh"
  let ?d0 = "encode_message (challenge t0 (ts_realm s) fresh)"
  let ?c0 = "c\<lparr>tc_realm := Some (ts_realm s), tc_nonce := Some fresh\<rparr>"
  let ?key = "long_term_key H username (ts_realm s) password"
  let ?e1 = "expire_allocations ?s1 now'"
  have h0: "turn_handle H s (encode_message (allocate_request t0 600)) client now clk fresh = (?s1, [ToClient client ?d0])"
    by (rule unauthenticated_allocate [OF t(1)])
  note ch = challenge_facts [OF t(1) names(2,3,5)]
  note rq = allocate_request_facts [OF t(2), of 600]
  have sl: "sealable ?c0 (allocate_request t1 600) (ts_realm s) fresh"
    using rq names t(2) by (simp add: sealable_def c turn_client_new_def)
  have cfg: "ts_relay_ip ?s1 = ts_relay_ip s" "ts_allocations ?s1 = ts_allocations (expire_allocations s now)"
    "ts_port_min ?s1 = ts_port_min (expire_allocations s now)" "ts_port_max ?s1 = ts_port_max (expire_allocations s now)"
    by (simp_all add: expire_allocations_def issue_nonce_def Let_def)
  have al: "map_of (ts_allocations ?e1) client = None" "free_port ?e1 = Some port"
    using free cfg(2-4) by (simp_all add: free_port_def expire_allocations_def)
  have cr: "tc_realm ?c0 = Some (ts_realm s)" "tc_nonce ?c0 = Some fresh" by simp_all
  let ?ok = "signed_then H ?key (allocate_success t1 ?ra client 600) []"
  have s1: "ts_realm ?s1 = ts_realm s" "map_of (ts_nonces ?s1) fresh \<noteq> None" "ts_users ?s1 (tc_username ?c0) = Some (tc_password ?c0)"
    using user issued_nonce [of "expire_allocations s now" clk fresh]
    by (simp_all add: c turn_client_new_def expire_allocations_def issue_nonce_def Let_def)
  have ad: "sa_ip client \<noteq> ts_relay_ip ?s1" "addr_wf client" "addr_wf \<lparr>sa_ip = ts_relay_ip ?s1, sa_port = port\<rparr>"
    using addr cfg(1) by simp_all
  have key: "long_term_key H (tc_username ?c0) (ts_realm s) (tc_password ?c0) = ?key" by (simp add: c turn_client_new_def)
  obtain raw s2 where r: "tc_seal H ?c0 (allocate_request t1 600) = Ok raw"
    and h1: "turn_handle H ?s1 raw client now' clk' fresh' = (s2, [ToClient client (encode_message ?ok)])"
      "relay_addr s2 client = Some ?ra"
    by (rule sealed_allocate [OF H t(2) sl cr s1 ad al, of clk' fresh', unfolded cfg(1) key]) (rule that)
  note ok = allocate_success_facts(1-8) [OF H t(2) addr(3,2), where l = 600 and key = ?key]
  have tx0: "transact H c t0 [(?d0, server)] = (Ok (challenge t0 (ts_realm s) fresh), [])"
    using ch(2,3) parse_encoded [OF ch(1), of "[]"] by (simp add: c turn_client_new_def tc_key_def)
  have k0: "tc_key H ?c0 = Ok ?key" by (simp add: tc_key_def c turn_client_new_def)
  have srv: "tc_server ?c0 = server" by (simp add: c turn_client_new_def)
  have tx1: "transact H ?c0 t1 [(encode_message ?ok, server)] = (Ok ?ok, [])"
    using ok(2,3,4) allocate_success_facts(9) [OF H t(2) addr(3,2)] k0 srv by (simp add: Let_def)
  have ta0: "take_allocation c DEFAULT_LIFETIME now'' (challenge t0 (ts_realm s) fresh) = (?c0, None)"
    using ch(4-7) by (simp add: take_allocation_def)
  obtain c' where ta1: "take_allocation ?c0 DEFAULT_LIFETIME now'' ?ok = (c', Some (Ok ?ra))"
    "map_option al_relayed_addr (tc_allocation c') = Some ?ra" "map_option al_mapped_addr (tc_allocation c') = Some (Some client)"
    using ok(5-8) by (simp add: take_allocation_def Let_def)
  have secs: "max (of_nat (DEFAULT_LIFETIME div 1000000000)) MIN_LIFETIME_SECS = (600 :: u32)"
    by (simp add: DEFAULT_LIFETIME_def secs_def MIN_LIFETIME_SECS_def)
  have "tc_allocate H c DEFAULT_LIFETIME now'' (t0, [(?d0, server)]) (t1, [(encode_message ?ok, server)])
      = (c', Ok ?ra, [encode_message (allocate_request t0 600), raw], [])"
    unfolding tc_allocate_def Let_def secs fst_conv snd_conv tx0 case_prod_conv rust.case ta0 option.case r tx1 ta1(1) by simp
  then show ?thesis using h0 h1 ta1(2,3) by blast
qed

section \<open>Data in both directions\<close>

lemma channel_data_roundtrip:
  assumes "channel_range ch" and "length payload < 65536"
  shows "parse_channel_data (channel_data ch payload) = Some (ch, payload)"
proof -
  let ?l = "of_nat (length payload) :: u16"
  have n: "unat ?l = length payload" using assms(2) by (rule unat_u16_be_of_nat)
  have r: "slice 0 2 (be_u16 ch @ be_u16 ?l @ payload @ z) = be_u16 ch"
    "slice 2 4 (be_u16 ch @ be_u16 ?l @ payload @ z) = be_u16 ?l"
    "slice 4 (4 + length payload) (be_u16 ch @ be_u16 ?l @ payload @ z) = payload" for z
    by (simp_all add: slice_def)
  show ?thesis
    unfolding parse_channel_data_def channel_data_def pad4_def append_assoc r Let_def be_roundtrip n
    using assms(1) by simp
qed

lemma find_port:
  assumes "distinct (ports al)" and "map_of al client = Some a"
  shows "find (\<lambda>(_, b). sv_relay_port b = sv_relay_port a) al = Some (client, a)"
  using assms
proof (induction al)
  case (Cons p al)
  obtain c b where p: "p = (c, b)" by (cases p)
  show ?case
  proof (cases "c = client")
    case False
    then have m: "map_of al client = Some a" using Cons.prems(2) p by simp
    then have "sv_relay_port a \<in> set (ports al)" by (force simp: ports_def dest: map_of_SomeD)
    then have "sv_relay_port b \<noteq> sv_relay_port a" using Cons.prems(1) p by (force simp: ports_def)
    then show ?thesis using Cons m p by (simp add: ports_def)
  qed (use Cons.prems p in simp)
qed simp

lemma data_indication_facts:
  assumes "length t = 12" and "addr_wf peer" and "length payload < 65000"
  defines "m \<equiv> push_attr (push_attr (message_new METHOD_DATA Indication t) (XorPeerAddress peer)) (DataA payload)"
  shows "decode_inbound (encode_message m) = Some (InData peer payload)"
proof -
  have me: "METHOD_DATA < 0x1000" by (simp add: METHOD_DATA_def)
  have "length (body_bytes t (msg_attributes m)) < 65536"
    using length_tlv_le [of t "XorPeerAddress peer"] length_tlv_le [of t "DataA payload"] encode_address_le [OF assms(2,1), of True] assms(3)
    by (simp add: m_def)
  then have wf: "message_wf m" using assms(1,2) by (simp add: message_wf_def m_def)
  have "parse_channel_data (encode_message m) = None"
    by (rule stun_is_not_channel_data [OF _ _ me]) (simp_all add: m_def assms(1))
  moreover have "xor_peer_address m = Some peer" "data_of m = Some payload"
    by (simp_all add: m_def message_reads get_attr_def attr_kinds)
  moreover have "method_of (msg_typ m) = METHOD_DATA" "class_of (msg_typ m) = Indication"
    using message_type_method [OF me] message_type_class by (simp_all add: m_def)
  ultimately show ?thesis using parse_encoded [OF wf, of "[]"] by (simp add: decode_inbound_def)
qed

text \<open>
  Data from a peer. In a consistent server state a datagram that arrives on the relayed port of a
  client is dropped when the client holds no permission for the sender's address; otherwise it goes to
  that client, which decodes the payload together with the peer's address, or with the channel bound to
  exactly that peer.
\<close>

theorem peer_data_reaches_its_client:
  assumes ok: "server_ok s" and a: "map_of (ts_allocations s) client = Some a"
    and t: "length t = 12" and p: "addr_wf peer" "length payload < 65000"
  shows "(sv_permissions a (sa_ip peer) = None \<longrightarrow> handle_peer_data s t (sv_relay_port a) peer payload = None)
    \<and> (sv_permissions a (sa_ip peer) \<noteq> None \<longrightarrow>
        (\<exists>d. handle_peer_data s t (sv_relay_port a) peer payload = Some (ToClient client d)
          \<and> (case sv_channel_peers a peer of
               None \<Rightarrow> decode_inbound d = Some (InData peer payload)
             | Some ch \<Rightarrow> decode_inbound d = Some (InChannelData ch payload) \<and> sv_channels a ch = Some peer)))"
proof -
  have f: "find (\<lambda>(_, b). sv_relay_port b = sv_relay_port a) (ts_allocations s) = Some (client, a)"
    using ok a by (intro find_port) (auto simp: server_ok_def)
  have co: "channels_ok a" using ok map_of_SomeD [OF a] by (auto simp: server_ok_def)
  have "decode_inbound (channel_data ch payload) = Some (InChannelData ch payload) \<and> sv_channels a ch = Some peer"
    if "sv_channel_peers a peer = Some ch" for ch
  proof -
    have "sv_channels a ch = Some peer" "channel_range ch" using co that by (auto simp: channels_ok_def)
    then show ?thesis using p(2) by (simp add: decode_inbound_def channel_data_roundtrip)
  qed
  then show ?thesis
    using data_indication_facts [OF t p] unfolding handle_peer_data_def f option.case case_prod_conv
    by (auto split: option.splits)
qed

lemma map_of_expire:
  assumes "distinct (map fst (ts_allocations s))" and "map_of (ts_allocations s) c = Some a"
  shows "map_of (ts_allocations (expire_allocations s now)) c
    = (if now < sv_expires_at a then Some (a\<lparr>sv_permissions := (\<lambda>ip. case sv_permissions a ip of
         Some expiry \<Rightarrow> if expiry > now then Some expiry else None | None \<Rightarrow> None)\<rparr>) else None)"
proof -
  let ?g = "\<lambda>(c, a). (c, a\<lparr>sv_permissions := (\<lambda>ip. case sv_permissions a ip of
      Some expiry \<Rightarrow> if expiry > now then Some expiry else None | None \<Rightarrow> None)\<rparr>)"
  have "map_of (filter (\<lambda>(_, a). sv_expires_at a > now) (map ?g al)) c
      = (if now < sv_expires_at a then Some (snd (?g (c, a))) else None)"
    if "distinct (map fst al)" "map_of al c = Some a" for al
    using that
  proof (induction al)
    case (Cons p al)
    obtain k b where p: "p = (k, b)" by (cases p)
    show ?case
    proof (cases "k = c")
      case True
      then have "c \<notin> fst ` set al" using Cons.prems(1) p by auto
      then have "map_of (filter (\<lambda>(_, a). sv_expires_at a > now) (map ?g al)) c = None"
        by (force simp: map_of_eq_None_iff)
      then show ?thesis using True Cons.prems(2) p by simp
    qed (use Cons p in simp)
  qed simp
  from this [OF assms] show ?thesis unfolding expire_allocations_def by simp
qed

text \<open>
  A bound channel outlives its permission. Once the permission for a peer's address has run out,
  no Send indication reaches that address any more, but ChannelData on a channel bound to the peer is
  still relayed to it, without a digest and until the allocation itself ends: bindings do not expire
  and the channel path does not consult the permissions.
\<close>

theorem channel_outlives_its_permission:
  assumes ok: "server_ok s" and a: "map_of (ts_allocations s) client = Some a" "now < sv_expires_at a"
    and ch: "sv_channels a ch = Some peer" and gone: "\<forall>e. sv_permissions a (sa_ip peer) = Some e \<longrightarrow> e \<le> now"
    and len: "length payload < 65536"
  shows "turn_handle H s (channel_data ch payload) client now clk fresh
      = (expire_allocations s now, [ToPeer (sv_relay_port a) peer payload])
    \<and> (parse_channel_data raw = None \<longrightarrow> ToPeer port peer d \<notin> set (snd (turn_handle H s raw client now clk fresh)))"
proof -
  let ?e = "expire_allocations s now"
  obtain a' where a': "map_of (ts_allocations ?e) client = Some a'" "sv_channels a' = sv_channels a" "sv_relay_port a' = sv_relay_port a"
    "sv_permissions a' (sa_ip peer) = None"
  proof -
    have "(case sv_permissions a (sa_ip peer) of None \<Rightarrow> None | Some expiry \<Rightarrow> if now < expiry then Some expiry else None) = None"
      using gone by (cases "sv_permissions a (sa_ip peer)") auto
    then show thesis using that map_of_expire [OF _ a(1), of now] ok a(2) by (simp add: server_ok_def)
  qed
  have "channels_ok a" using ok map_of_SomeD [OF a(1)] by (auto simp: server_ok_def)
  then have r: "channel_range ch" using ch by (auto simp: channels_ok_def)
  have relayed: "turn_handle H s (channel_data ch payload) client now clk fresh = (?e, [ToPeer (sv_relay_port a) peer payload])"
    using channel_data_roundtrip [OF r len] a' ch by (simp add: turn_handle_def relay_channel_data_def Let_def)
  have "ToPeer port peer d \<notin> set out" if "turn_handle H s raw client now clk fresh = (s', out)" "parse_channel_data raw = None" for s' out
    using turn_handle_cases [OF refl that(1)] that(2) a' by (fastforce simp: handler_ok_def)
  then show ?thesis using relayed by (metis prod.collapse)
qed

text \<open>
  What the client accepts as an answer. Once it holds a key, a response is checked only if it
  carries MESSAGE-INTEGRITY: a response with the right transaction id and sender address but no digest
  at all is accepted as the server's.
\<close>

theorem undigested_responses_are_accepted:
  assumes "message_wf m" and "msg_txid m = t" and "get_attr m MESSAGE_INTEGRITY = None" and "length (encode_message m) \<le> 1500"
  shows "transact H c t ((encode_message m, tc_server c) # rest) = (Ok m, [])"
  using assms parse_encoded [OF assms(1), of "[]"] by (simp add: Let_def MESSAGE_INTEGRITY_def split: rust.splits)

section \<open>Witnesses\<close>

definition demo_turn :: turn_server where
  "demo_turn = turn_server_new [114] [[117] \<mapsto> [112]] (V4 9 9 9 9) 50000 50010"

definition demo_turn_client :: turn_client where
  "demo_turn_client = (turn_client_new \<lparr>sa_ip = V4 9 9 9 9, sa_port = 3478\<rparr> [117] [112])
     \<lparr>tc_realm := Some [114], tc_nonce := Some [110]\<rparr>"

definition demo_peer :: sock_addr where "demo_peer = \<lparr>sa_ip = V4 8 8 8 8, sa_port = 53\<rparr>"

lemma demo_valid [simp]: "utf8_valid [114]" "utf8_valid [117]" "utf8_valid [110]"
  by (rule ascii_valid; simp)+

lemma demo_port_range: "[unat (50000 :: u16) ..< Suc (unat (50010 :: u16))] = 50000 # [50001 ..< 50011]"
  by (simp add: upt_conv_Cons)

theorem turn_allocation_succeeds_witness:
  "\<exists>s1 s2 (c' :: turn_client) d0 d1 req1.
     turn_handle demo_stun demo_turn (encode_message (allocate_request (zeros 12) 600)) demo_addr 0 0 [110] = (s1, [ToClient demo_addr d0])
   \<and> turn_handle demo_stun s1 req1 demo_addr 1 1 [111] = (s2, [ToClient demo_addr d1])
   \<and> relay_addr s2 demo_addr = Some \<lparr>sa_ip = V4 9 9 9 9, sa_port = 50000\<rparr>
   \<and> map_option al_relayed_addr (tc_allocation c') = Some \<lparr>sa_ip = V4 9 9 9 9, sa_port = 50000\<rparr>"
proof -
  have al: "ts_allocations (expire_allocations (expire_allocations demo_turn 0) 1) = []"
    by (simp add: expire_allocations_def demo_turn_def turn_server_new_def)
  have ip: "ts_relay_ip demo_turn = V4 9 9 9 9" by (simp add: demo_turn_def turn_server_new_def)
  have facts: "ts_users demo_turn [117] = Some [112]" "utf8_valid (ts_realm demo_turn)" "length ([117] :: bytes) < 60000"
    "length (ts_realm demo_turn) + length ([110] :: bytes) < 1400"
    "sa_ip demo_addr \<noteq> ts_relay_ip demo_turn" "addr_wf \<lparr>sa_ip = ts_relay_ip demo_turn, sa_port = 50000\<rparr>"
    "map_of (ts_allocations (expire_allocations (expire_allocations demo_turn 0) 1)) demo_addr = None"
    by (simp_all add: demo_turn_def turn_server_new_def demo_addr_def addr_wf_def expire_allocations_def)
  have free: "free_port (expire_allocations (expire_allocations demo_turn 0) 1) = Some 50000"
    unfolding free_port_def al by (simp add: expire_allocations_def demo_turn_def turn_server_new_def demo_port_range del: upt_Suc)
  show ?thesis
    using turn_allocation_succeeds [OF demo_stun_law length_zeros length_zeros refl facts(1) demo_valid(2) facts(2) demo_valid(3)
        facts(3-5) demo_addr_wf facts(6,7) free, where clk = 0 and clk' = 1 and fresh' = "[111]" and now'' = 2 and server = demo_addr]
    unfolding ip by blast
qed

text \<open>A server with one client that has bound a channel, as reached by two requests of a user.\<close>

definition demo_entry :: server_allocation where
  "demo_entry = \<lparr>sv_relay_port = 50000, sv_permissions = [V4 8 8 8 8 \<mapsto> secs 300], sv_channels = [0x4000 \<mapsto> demo_peer],
     sv_channel_peers = [demo_peer \<mapsto> 0x4000], sv_expires_at = secs 600\<rparr>"

definition demo_turn_bound :: turn_server where
  "demo_turn_bound = demo_turn\<lparr>ts_allocations := [(demo_addr, demo_entry)], ts_nonces := [([110], 0)]\<rparr>"

lemma demo_turn_bound_ok: "server_ok demo_turn_bound"
  by (auto simp: server_ok_def demo_turn_bound_def demo_turn_def turn_server_new_def demo_entry_def ports_def channels_ok_def
      channel_range_def CHANNEL_NUMBER_MIN_def CHANNEL_NUMBER_MAX_def demo_addr_def split: if_splits)

lemma demo_lookup: "map_of (ts_allocations demo_turn_bound) demo_addr = Some demo_entry"
  by (simp add: demo_turn_bound_def)

theorem peer_data_reaches_its_client_witness:
  "\<exists>d. handle_peer_data demo_turn_bound (zeros 12) 50000 demo_peer [1, 2, 3] = Some (ToClient demo_addr d)
    \<and> decode_inbound d = Some (InChannelData 0x4000 [1, 2, 3])"
  using peer_data_reaches_its_client [OF demo_turn_bound_ok demo_lookup, of "zeros 12" demo_peer "[1, 2, 3]"]
  by (simp add: demo_entry_def demo_peer_def addr_wf_def)

theorem channel_outlives_its_permission_witness:
  "turn_handle demo_stun demo_turn_bound (channel_data 0x4000 [7]) demo_addr (secs 400) 0 []
    = (expire_allocations demo_turn_bound (secs 400), [ToPeer 50000 demo_peer [7]])"
  using channel_outlives_its_permission [OF demo_turn_bound_ok demo_lookup, of "secs 400" "0x4000" demo_peer "[7]" demo_stun 0 "[]" "[]" 0 "[]"]
  by (simp add: demo_entry_def demo_peer_def secs_def)

theorem undigested_responses_are_accepted_witness:
  "tc_key demo_stun demo_turn_client = Ok (long_term_key demo_stun [117] [114] [112])
    \<and> transact demo_stun demo_turn_client (zeros 12) [(encode_message (allocate_request (zeros 12) 5), tc_server demo_turn_client)]
      = (Ok (allocate_request (zeros 12) 5), [])"
proof -
  have z: "length (zeros 12) = 12" by simp
  note f = allocate_request_facts [OF z, of 5]
  have n: "get_attr (allocate_request (zeros 12) 5) MESSAGE_INTEGRITY = None"
    by (simp add: allocate_request_def get_attr_def attr_kinds)
  have l: "length (encode_message (allocate_request (zeros 12) 5)) \<le> 1500"
    using length_encode_message [of "allocate_request (zeros 12) 5"] f(3,4) by simp
  show ?thesis
    using undigested_responses_are_accepted [OF f(1,4) n l, of demo_stun demo_turn_client "[]"]
    by (simp add: tc_key_def demo_turn_client_def turn_client_new_def)
qed

definition bind_request :: "bytes \<Rightarrow> u16 \<Rightarrow> sock_addr \<Rightarrow> message" where
  "bind_request t ch peer = push_attr (push_attr (message_new METHOD_CHANNEL_BIND Request t) (ChannelNumber ch)) (XorPeerAddress peer)"

lemma bind_takes_effect:
  assumes raw: "raw = encode_message msg" "parse_message raw = Ok msg" "msg_typ msg = message_type METHOD_CHANNEL_BIND Request"
      "length (msg_txid msg) = 12"
    and auth: "authenticate H (expire_allocations s now) raw msg = Some key"
    and req: "channel_number msg = Some ch" "xor_peer_address msg = Some peer" "channel_range ch"
    and a: "map_of (ts_allocations (expire_allocations s now)) client = Some a" "sv_channels a ch = None" "sv_channel_peers a peer = None"
  shows "\<exists>s' d. turn_handle H s raw client now clk fresh = (s', [ToClient client d])
    \<and> (\<exists>b. map_of (ts_allocations s') client = Some b \<and> sv_channels b ch = Some peer \<and> sv_relay_port b = sv_relay_port a
        \<and> sv_expires_at b = sv_expires_at a \<and> sv_permissions b (sa_ip peer) = Some (now + DEFAULT_PERMISSION_LIFETIME))"
proof -
  have m: "METHOD_CHANNEL_BIND < 0x1000" by (simp add: METHOD_CHANNEL_BIND_def)
  have n: "parse_channel_data raw = None"
    unfolding raw(1) using raw(3,4) by (intro stun_is_not_channel_data [OF _ _ m]) simp_all
  have ty: "method_of (msg_typ msg) = METHOD_CHANNEL_BIND" "class_of (msg_typ msg) = Request"
    using raw(3) message_type_method [OF m] message_type_class by simp_all
  have "turn_handle H s raw client now clk fresh = handle_channel_bind H (expire_allocations s now) raw msg client now clk fresh"
    unfolding turn_handle_def Let_def n raw(2) option.case rust.case using ty by (simp add: stun_methods)
  then show ?thesis
    unfolding handle_channel_bind_def Let_def auth option.case req(1,2) case_prod_conv a(1)
    using req(3) a(2,3) by (simp add: update_conv')
qed

lemma demo_bound_run:
  "\<exists>es b. map_of (ts_allocations (foldl (turn_step demo_stun) demo_turn es)) demo_addr = Some b
    \<and> sv_channels b 0x4000 = Some demo_peer \<and> sv_relay_port b = 50000 \<and> 0 < sv_expires_at b"
proof -
  let ?H = demo_stun and ?c = demo_turn_client and ?z = "zeros 12"
  let ?s1 = "issue_nonce (expire_allocations demo_turn 0) 0 [110]"
  let ?e0 = "FromClient (encode_message (allocate_request ?z 600)) demo_addr 0 0 [110]"
  have z: "length ?z = 12" by simp
  have c: "tc_realm ?c = Some [114]" "tc_nonce ?c = Some [110]" "tc_username ?c = [117]" "tc_password ?c = [112]"
    by (simp_all add: demo_turn_client_def turn_client_new_def)
  have t: "ts_realm demo_turn = [114]" "ts_users demo_turn [117] = Some [112]" "ts_relay_ip demo_turn = V4 9 9 9 9"
    "ts_allocations demo_turn = []" "ts_port_min demo_turn = 50000" "ts_port_max demo_turn = 50010"
    by (simp_all add: demo_turn_def turn_server_new_def)
  have s1: "turn_step ?H demo_turn ?e0 = ?s1"
    using unauthenticated_allocate [OF z, of ?H demo_turn 600 demo_addr 0 0 "[110]"] by (simp add: turn_step_def)
  let ?x1 = "expire_allocations ?s1 0"
  have x1: "ts_realm ?s1 = [114]" "map_of (ts_nonces ?s1) [110] \<noteq> None" "ts_users ?s1 (tc_username ?c) = Some (tc_password ?c)"
    "ts_allocations ?x1 = []" "ts_relay_ip ?s1 = V4 9 9 9 9" "ts_port_min ?x1 = 50000" "ts_port_max ?x1 = 50010"
    using t c issued_nonce [of "expire_allocations demo_turn 0" 0 "[110]"]
    by (simp_all add: expire_allocations_def issue_nonce_def Let_def)
  have sl: "sealable ?c (allocate_request ?z 600) [114] [110]" using allocate_request_facts [OF z, of 600] c by (simp add: sealable_def)
  have al: "map_of (ts_allocations ?x1) demo_addr = None" "free_port ?x1 = Some 50000"
    using x1(4) unfolding free_port_def x1(4,6,7) demo_port_range by simp_all
  have ad: "sa_ip demo_addr \<noteq> ts_relay_ip ?s1" "addr_wf \<lparr>sa_ip = ts_relay_ip ?s1, sa_port = 50000\<rparr>"
    using x1(5) by (simp_all add: demo_addr_def addr_wf_def)
  let ?a = "fresh_entry 50000 (0 + secs 600)"
  let ?s2 = "?x1\<lparr>ts_allocations := AList.update demo_addr ?a (ts_allocations ?x1)\<rparr>"
  obtain raw d2 where "turn_handle ?H ?s1 raw demo_addr 0 0 [] = (?s2, d2)"
    by (rule sealed_allocate [OF demo_stun_law z sl c(1,2) x1(1-3) ad(1) demo_addr_wf ad(2) al, of 0 "[]"])
      (simp only: that)
  then have s2: "turn_step ?H ?s1 (FromClient raw demo_addr 0 0 []) = ?s2" by (simp add: turn_step_def)
  let ?x2 = "expire_allocations ?s2 0"
  have x2: "ts_realm ?x2 = [114]" "map_of (ts_nonces ?x2) [110] \<noteq> None" "ts_users ?x2 (tc_username ?c) = Some (tc_password ?c)"
    using x1(1-3) by (simp_all add: expire_allocations_def)
  have fe: "sv_expires_at ?a = secs 600" "sv_channels ?a = Map.empty" "sv_channel_peers ?a = Map.empty" "sv_permissions ?a = Map.empty"
    "sv_relay_port ?a = 50000" by (simp_all add: fresh_entry_def)
  have a2: "map_of (ts_allocations ?x2) demo_addr = Some ?a"
    using map_of_expire [of ?s2 demo_addr ?a 0] x1(4) by (simp add: secs_def fresh_entry_def)
  let ?b = "bind_request ?z 0x4000 demo_peer"
  have blen: "length (body_bytes ?z (msg_attributes ?b)) \<le> 40"
    using length_tlv_le [of ?z "XorPeerAddress demo_peer"] encode_address_le [of demo_peer ?z True]
    by (simp add: bind_request_def length_tlv padded_def demo_peer_def addr_wf_def)
  have bt: "msg_txid ?b = ?z" "msg_typ ?b = message_type METHOD_CHANNEL_BIND Request" "plain_attributes (msg_attributes ?b)"
    "\<forall>a \<in> set (msg_attributes ?b). attr_kind a \<notin> {USERNAME, REALM, NONCE}"
    "channel_number ?b = Some 0x4000" "xor_peer_address ?b = Some demo_peer"
    by (simp_all add: bind_request_def plain_attributes_def demo_peer_def addr_wf_def attr_kinds message_reads get_attr_def)
  have slb: "sealable ?c ?b [114] [110]" using blen bt c unfolding sealable_def by simp
  obtain raw2 m2 key2 where r2: "tc_seal ?H ?c ?b = Ok raw2" "parse_message raw2 = Ok m2"
    "authenticate ?H ?x2 raw2 m2 = Some key2" "key2 = long_term_key ?H (tc_username ?c) [114] (tc_password ?c)"
    "msg_typ m2 = msg_typ ?b" "msg_txid m2 = msg_txid ?b" "raw2 = encode_message m2"
    and g2: "\<And>k. k \<notin> {USERNAME, REALM, NONCE, MESSAGE_INTEGRITY, FINGERPRINT} \<Longrightarrow> get_attr m2 k = get_attr ?b k"
    by (rule sealed_request_is_authentic [OF demo_stun_law slb c(1,2) x2]) (rule that)
  have rd2: "channel_number m2 = Some 0x4000" "xor_peer_address m2 = Some demo_peer" "channel_range 0x4000"
    using bt(5,6) g2 [of CHANNEL_NUMBER] g2 [of XOR_PEER_ADDRESS]
    by (simp_all add: channel_number_def xor_peer_address_def channel_range_def CHANNEL_NUMBER_MIN_def CHANNEL_NUMBER_MAX_def)
      (simp_all add: attr_kinds)
  obtain s3 d b where h3: "turn_handle ?H ?s2 raw2 demo_addr 0 0 [] = (s3, [ToClient demo_addr d])"
    and b: "map_of (ts_allocations s3) demo_addr = Some b" "sv_channels b 0x4000 = Some demo_peer"
      "sv_relay_port b = 50000" "sv_expires_at b = secs 600"
    using bind_takes_effect [OF r2(7,2) _ _ r2(3) rd2 a2, of 0 "[]"] r2(5,6) bt(1,2) fe by auto
  have "foldl (turn_step ?H) demo_turn [?e0, FromClient raw demo_addr 0 0 [], FromClient raw2 demo_addr 0 0 []] = s3"
    using h3 s1 s2 by (simp add: turn_step_def)
  then show ?thesis using b by (intro exI [of _ "[?e0, FromClient raw demo_addr 0 0 [], FromClient raw2 demo_addr 0 0 []]"] exI [of _ b]) (simp add: secs_def)
qed

theorem turn_relays_only_granted_peers_witness:
  "\<exists>es s' e ev. turn_handle demo_stun (foldl (turn_step demo_stun) demo_turn es) (channel_data 0x4000 [7]) demo_addr 0 0 []
      = (s', [ToPeer 50000 demo_peer [7]])
    \<and> ev \<in> set es \<and> grants demo_stun (foldl (turn_step demo_stun) demo_turn es) demo_addr (V4 8 8 8 8) e ev"
proof -
  obtain es b where b: "map_of (ts_allocations (foldl (turn_step demo_stun) demo_turn es)) demo_addr = Some b"
    "sv_channels b 0x4000 = Some demo_peer" "sv_relay_port b = 50000" "0 < sv_expires_at b"
    using demo_bound_run by blast
  let ?s = "foldl (turn_step demo_stun) demo_turn es"
  have ok: "server_ok ?s" unfolding demo_turn_def by (rule turn_machine.run_inv [OF server_new_ok])
  obtain b' where b': "map_of (ts_allocations (expire_allocations ?s 0)) demo_addr = Some b'" "sv_channels b' = sv_channels b"
    "sv_relay_port b' = sv_relay_port b"
    using map_of_expire [OF _ b(1), of 0] ok b(4) by (simp add: server_ok_def)
  have "parse_channel_data (channel_data 0x4000 [7]) = Some (0x4000, [7])"
    by (rule channel_data_roundtrip) (simp_all add: channel_range_def CHANNEL_NUMBER_MIN_def CHANNEL_NUMBER_MAX_def)
  then have h: "turn_handle demo_stun ?s (channel_data 0x4000 [7]) demo_addr 0 0 []
      = (expire_allocations ?s 0, [ToPeer 50000 demo_peer [7]])"
    using b b' by (simp add: turn_handle_def relay_channel_data_def Let_def)
  have ip: "sa_ip demo_peer = V4 8 8 8 8" by (simp add: demo_peer_def)
  have "\<exists>e. \<exists>ev \<in> set es. grants demo_stun ?s demo_addr (sa_ip demo_peer) e ev"
    using turn_relays_only_granted_peers [OF _ h, of "[114]" "[[117] \<mapsto> [112]]" "V4 9 9 9 9" 50000 50010 es 50000 demo_peer "[7]"]
    by (simp only: demo_turn_def list.set insert_iff) blast
  then show ?thesis using h unfolding ip by blast
qed

end
