(* ===== verification/Ice.thy ===== *)
theory Ice
  imports Turn "HOL-Library.Multiset"
begin

unbundle bit_operations_syntax

text \<open>
  ICE, src/src/ghost/net/ice.rs: candidates and their priorities, the check list, and the agent with its
  authenticated connectivity checks, role conflicts, peer-reflexive discovery and nomination. The agent
  owns no socket: datagrams in, datagrams out. Random values (tie-breaker, credentials, transaction
  ids) and clock readings are arguments, and so are the addresses the socket and the route lookup
  report; their failures are not modelled, nor is the text form of candidates and offers.
\<close>

definition MAX_TRACKED_CHECKS :: nat where "MAX_TRACKED_CHECKS = 128"
definition DEFAULT_COMPONENT :: u16 where "DEFAULT_COMPONENT = 1"
definition DEFAULT_LOCAL_PREFERENCE :: u16 where "DEFAULT_LOCAL_PREFERENCE = 65535"
definition DEFAULT_CHECK_ATTEMPTS :: u32 where "DEFAULT_CHECK_ATTEMPTS = 7"

section \<open>Candidates\<close>

datatype candidate_type = HostC | ServerReflexiveC | PeerReflexiveC | RelayC

fun preference :: "candidate_type \<Rightarrow> u32" where
  "preference HostC = 126"
| "preference PeerReflexiveC = 110"
| "preference ServerReflexiveC = 100"
| "preference RelayC = 0"

fun ctype_str :: "candidate_type \<Rightarrow> bytes" where
  "ctype_str HostC = ascii ''host''"
| "ctype_str ServerReflexiveC = ascii ''srflx''"
| "ctype_str PeerReflexiveC = ascii ''prflx''"
| "ctype_str RelayC = ascii ''relay''"

definition candidate_priority :: "candidate_type \<Rightarrow> u16 \<Rightarrow> u16 \<Rightarrow> u32" where
  "candidate_priority ctype local_preference component =
     (let component_term = sat_sub 256 (ucast component)
      in push_bit 24 (preference ctype) + push_bit 8 (ucast local_preference) + component_term)"

text \<open>\<open>Display\<close> of addresses: dotted decimal, and the compressed hexadecimal form of version 6.\<close>

fun dec_digits_of :: "nat \<Rightarrow> bytes" where
  "dec_digits_of n = (if n < 10 then [48 + of_nat n] else dec_digits_of (n div 10) @ [48 + of_nat (n mod 10)])"

definition hex_digit :: "nat \<Rightarrow> u8" where
  "hex_digit n = (if n < 10 then 48 + of_nat n else 87 + of_nat n)"

fun hex_digits_of :: "nat \<Rightarrow> bytes" where
  "hex_digits_of n = (if n < 16 then [hex_digit n] else hex_digits_of (n div 16) @ [hex_digit (n mod 16)])"

declare dec_digits_of.simps [simp del] hex_digits_of.simps [simp del]

fun join_with :: "u8 \<Rightarrow> bytes list \<Rightarrow> bytes" where
  "join_with sep [] = []"
| "join_with sep [x] = x"
| "join_with sep (x # y # r) = x @ sep # join_with sep (y # r)"

definition v4_str :: "bytes \<Rightarrow> bytes" where
  "v4_str o4 = join_with 46 (map (\<lambda>b. dec_digits_of (unat b)) o4)"

text \<open>The longest run of zero segments, the first among equals: start and length.\<close>

fun zero_run :: "u16 list \<Rightarrow> nat \<Rightarrow> nat \<times> nat \<Rightarrow> nat \<times> nat \<Rightarrow> nat \<times> nat" where
  "zero_run [] i longest current = longest"
| "zero_run (s # r) i longest current =
     (if s = 0 then
        (let current' = (if snd current = 0 then i else fst current, snd current + 1)
         in zero_run r (i + 1) (if snd current' > snd longest then current' else longest) current')
      else zero_run r (i + 1) longest (0, 0))"

definition segments_str :: "u16 list \<Rightarrow> bytes" where
  "segments_str ss = join_with 58 (map (\<lambda>s. hex_digits_of (unat s)) ss)"

definition v6_str :: "bytes \<Rightarrow> bytes" where
  "v6_str raw =
     (if take 12 raw = zeros 10 @ [0xFF, 0xFF] then ascii ''::ffff:'' @ v4_str (drop 12 raw)
      else
        (let ss = u16_pairs raw; (start, len) = zero_run ss 0 (0, 0) (0, 0)
         in if len > 1 then segments_str (take start ss) @ ascii ''::'' @ segments_str (drop (start + len) ss)
            else segments_str ss))"

definition ip_str :: "ip_addr \<Rightarrow> bytes" where
  "ip_str ip = (case ip of V4 a b c d \<Rightarrow> v4_str [a, b, c, d] | V6 raw \<Rightarrow> v6_str raw)"

text \<open>\<open>{:08x}\<close>\<close>

definition hex8 :: "u32 \<Rightarrow> bytes" where
  "hex8 x = map (\<lambda>i. hex_digit (unat (drop_bit (4 * i) x AND 15))) [7, 6, 5, 4, 3, 2, 1, 0]"

definition foundation :: "candidate_type \<Rightarrow> sock_addr \<Rightarrow> sock_addr option \<Rightarrow> bytes" where
  "foundation ctype base stun_server =
     hex8 (crc32_ieee (ctype_str ctype @ ascii ''|'' @ ip_str (sa_ip base) @ ascii ''|''
       @ (case stun_server of Some s \<Rightarrow> ip_str (sa_ip s) | None \<Rightarrow> [])))"

record candidate =
  cd_foundation :: bytes
  cd_component :: u16
  cd_ctype :: candidate_type
  cd_priority :: u32
  cd_base :: sock_addr
  cd_addr :: sock_addr

definition candidate_new ::
  "candidate_type \<Rightarrow> sock_addr \<Rightarrow> sock_addr \<Rightarrow> u16 \<Rightarrow> sock_addr option \<Rightarrow> candidate" where
  "candidate_new ctype base addr component stun_server =
     \<lparr>cd_foundation = foundation ctype base stun_server, cd_component = component, cd_ctype = ctype,
      cd_priority = candidate_priority ctype DEFAULT_LOCAL_PREFERENCE component, cd_base = base, cd_addr = addr\<rparr>"

record ice_credentials =
  ic_ufrag :: bytes
  ic_password :: bytes

datatype ice_error =
  MissingRemoteCredentials | NoCandidates | GatherTimeout | IceStun stun_error | IceIo | BadTieBreaker | MalformedIce string

definition validate_credentials :: "ice_credentials \<Rightarrow> (unit, ice_error) rust" where
  "validate_credentials cr =
     (if length (ic_ufrag cr) < 4 \<or> length (ic_ufrag cr) > 256 then
        Err (MalformedIce ''ice-ufrag must be 4..=256 characters'')
      else if length (ic_password cr) < 22 \<or> length (ic_password cr) > 256 then
        Err (MalformedIce ''ice-pwd must be 22..=256 characters'')
      else Ok ())"

datatype ice_role = Controlling | Controlled

fun other_role :: "ice_role \<Rightarrow> ice_role" where
  "other_role Controlling = Controlled"
| "other_role Controlled = Controlling"

section \<open>The check list\<close>

datatype pair_state = Frozen | Waiting | InProgress | Succeeded | Failed

record candidate_pair =
  cp_local :: candidate
  cp_remote :: candidate
  cp_state :: pair_state
  cp_nominated :: bool
  cp_priority :: u64
  cp_attempts :: u32
  cp_rtt :: "duration option"

definition pair_priority_minmax :: "u32 \<Rightarrow> u32 \<Rightarrow> u64" where
  "pair_priority_minmax g d =
     (let (lo, hi) = (if g < d then (g, d) else (d, g))
      in push_bit 31 2 * ucast lo + 2 * ucast hi + (if g > d then 1 else 0))"

fun pair_priority_for :: "ice_role \<Rightarrow> u32 \<Rightarrow> u32 \<Rightarrow> u64" where
  "pair_priority_for Controlling l r = pair_priority_minmax l r"
| "pair_priority_for Controlled l r = pair_priority_minmax r l"

datatype ice_state = IceNew | IceGathering | IceChecking | IceConnected | IceFailed

record check_outcome =
  co_pair :: nat
  co_response :: "bytes option"
  co_nominated :: bool
  co_role_flipped :: bool
  co_completed_our_check :: "duration option"

record ice_agent =
  ia_role :: ice_role
  ia_tie_breaker :: u64
  ia_local_credentials :: ice_credentials
  ia_remote_credentials :: "ice_credentials option"
  ia_local_candidates :: "candidate list"
  ia_remote_candidates :: "candidate list"
  ia_pairs :: "candidate_pair list"
  ia_nominated :: "nat option"
  ia_retransmit_attempts :: u32
  ia_discovered_prflx :: u32
  ia_checks_sent :: "bytes \<rightharpoonup> nat \<times> sock_addr \<times> instant"
  ia_check_order :: "bytes list"

definition agent_new :: "ice_role \<Rightarrow> u64 \<Rightarrow> ice_credentials \<Rightarrow> ice_agent" where
  "agent_new role tie creds =
     \<lparr>ia_role = role, ia_tie_breaker = tie, ia_local_credentials = creds, ia_remote_credentials = None,
      ia_local_candidates = [], ia_remote_candidates = [], ia_pairs = [], ia_nominated = None,
      ia_retransmit_attempts = DEFAULT_CHECK_ATTEMPTS, ia_discovered_prflx = 0,
      ia_checks_sent = Map.empty, ia_check_order = []\<rparr>"

definition with_check_attempts :: "ice_agent \<Rightarrow> u32 \<Rightarrow> ice_agent" where
  "with_check_attempts ag attempts = ag\<lparr>ia_retransmit_attempts := max attempts 1\<rparr>"

definition set_remote_credentials :: "ice_agent \<Rightarrow> ice_credentials \<Rightarrow> ice_agent" where
  "set_remote_credentials ag creds = ag\<lparr>ia_remote_credentials := Some creds\<rparr>"

definition set_local_credentials :: "ice_agent \<Rightarrow> ice_credentials \<Rightarrow> ice_agent" where
  "set_local_credentials ag creds = ag\<lparr>ia_local_credentials := creds\<rparr>"

definition set_remote_role :: "ice_agent \<Rightarrow> ice_role \<Rightarrow> ice_agent" where
  "set_remote_role ag role = ag\<lparr>ia_role := other_role role\<rparr>"

text \<open>Gathering.\<close>

definition push_local :: "ice_agent \<Rightarrow> candidate \<Rightarrow> ice_agent" where
  "push_local ag c = ag\<lparr>ia_local_candidates := ia_local_candidates ag @ [c]\<rparr>"

definition add_host_candidate :: "ice_agent \<Rightarrow> sock_addr \<Rightarrow> sock_addr \<Rightarrow> ice_agent \<times> candidate" where
  "add_host_candidate ag base advertised =
     (let c = candidate_new HostC base advertised DEFAULT_COMPONENT None in (push_local ag c, c))"

text \<open>\<open>bound\<close> is the socket's address, \<open>probed\<close> what the route lookup returns.\<close>

definition gather_host :: "ice_agent \<Rightarrow> sock_addr \<Rightarrow> sock_addr \<Rightarrow> ice_agent \<times> candidate" where
  "gather_host ag bound probed =
     (let local = (if (case sa_ip bound of V4 a b c d \<Rightarrow> a = 0 \<and> b = 0 \<and> c = 0 \<and> d = 0 | V6 raw \<Rightarrow> raw = zeros 16)
                   then probed else bound);
          advertised = \<lparr>sa_ip = sa_ip local, sa_port = sa_port bound\<rparr>
      in add_host_candidate ag local advertised)"

definition add_server_reflexive_candidate ::
  "ice_agent \<Rightarrow> sock_addr \<Rightarrow> sock_addr \<Rightarrow> sock_addr option \<Rightarrow> ice_agent \<times> candidate" where
  "add_server_reflexive_candidate ag base mapped stun_server =
     (let c = candidate_new ServerReflexiveC base mapped DEFAULT_COMPONENT stun_server in (push_local ag c, c))"

text \<open>The receive loop over the datagrams that arrive in time; the rest goes to \<open>on_other\<close>.\<close>

fun gather_reflexive_with ::
  "ice_agent \<Rightarrow> sock_addr \<Rightarrow> sock_addr \<Rightarrow> bytes \<Rightarrow> (bytes \<times> sock_addr) list \<Rightarrow>
   (ice_agent \<times> (candidate, ice_error) rust) \<times> (bytes \<times> sock_addr) list" where
  "gather_reflexive_with ag local server t [] = ((ag, Err GatherTimeout), [])"
| "gather_reflexive_with ag local server t ((d0, sender) # rest) =
     (let d = take 1500 d0;
          other = (let (r, os) = gather_reflexive_with ag local server t rest in (r, (d, sender) # os))
      in if sender \<noteq> server then other
         else case parse_message d of
                Ok msg \<Rightarrow>
                  (if msg_txid msg \<noteq> t \<or> method_of (msg_typ msg) \<noteq> METHOD_BINDING
                      \<or> class_of (msg_typ msg) \<noteq> SuccessResponse then other
                   else if verify_fingerprint d \<noteq> Ok () then other
                   else case xor_mapped_address msg of
                          None \<Rightarrow> other
                        | Some mapped \<Rightarrow>
                            (let (ag', c) = add_server_reflexive_candidate ag local mapped (Some server)
                             in ((ag', Ok c), [])))
              | _ \<Rightarrow> other)"

definition add_turn_candidate :: "ice_agent \<Rightarrow> sock_addr \<Rightarrow> sock_addr \<Rightarrow> ice_agent \<times> candidate" where
  "add_turn_candidate ag base relay =
     (let c = candidate_new RelayC base relay DEFAULT_COMPONENT None in (push_local ag c, c))"

definition add_remote_candidate :: "ice_agent \<Rightarrow> candidate \<Rightarrow> ice_agent" where
  "add_remote_candidate ag c = ag\<lparr>ia_remote_candidates := ia_remote_candidates ag @ [c]\<rparr>"

text \<open>The order of \<open>SocketAddr\<close>: version 4 before 6, then octets, then port.\<close>

definition addr_le :: "sock_addr \<Rightarrow> sock_addr \<Rightarrow> bool" where
  "addr_le x y =
     (case (sa_ip x, sa_ip y) of
        (V4 a b c d, V4 a' b' c' d') \<Rightarrow>
          str_less [a, b, c, d] [a', b', c', d'] \<or> [a, b, c, d] = [a', b', c', d'] \<and> sa_port x \<le> sa_port y
      | (V4 _ _ _ _, V6 _) \<Rightarrow> True
      | (V6 _, V4 _ _ _ _) \<Rightarrow> False
      | (V6 r, V6 r') \<Rightarrow> str_less r r' \<or> r = r' \<and> sa_port x \<le> sa_port y)"

definition pair_before :: "candidate_pair \<Rightarrow> candidate_pair \<Rightarrow> bool" where
  "pair_before p q \<longleftrightarrow>
     cp_priority q < cp_priority p
     \<or> cp_priority p = cp_priority q \<and> addr_le (cd_addr (cp_remote p)) (cd_addr (cp_remote q))"

text \<open>\<open>sort_by\<close>, a stable sort.\<close>

fun insert_pair :: "candidate_pair \<Rightarrow> candidate_pair list \<Rightarrow> candidate_pair list" where
  "insert_pair p [] = [p]"
| "insert_pair p (q # qs) = (if pair_before p q then p # q # qs else q # insert_pair p qs)"

definition sort_pairs :: "candidate_pair list \<Rightarrow> candidate_pair list" where
  "sort_pairs ps = foldr insert_pair ps []"

definition pair_key :: "candidate_pair \<Rightarrow> bytes \<times> u16" where
  "pair_key p = (cd_foundation (cp_local p), cd_component (cp_local p))"

fun mark_first :: "(bytes \<times> u16) list \<Rightarrow> candidate_pair list \<Rightarrow> candidate_pair list" where
  "mark_first seen [] = []"
| "mark_first seen (p # ps) =
     (if pair_key p \<in> set seen then p\<lparr>cp_state := Frozen\<rparr> # mark_first seen ps
      else p\<lparr>cp_state := Waiting\<rparr> # mark_first (seen @ [pair_key p]) ps)"

definition candidate_pairs :: "ice_role \<Rightarrow> candidate list \<Rightarrow> candidate list \<Rightarrow> candidate_pair list" where
  "candidate_pairs role locals remotes =
     concat (map (\<lambda>l. map (\<lambda>r.
         \<lparr>cp_local = l, cp_remote = r, cp_state = Frozen, cp_nominated = False,
          cp_priority = pair_priority_for role (cd_priority l) (cd_priority r), cp_attempts = 0, cp_rtt = None\<rparr>)
       (filter (\<lambda>r. cd_component l = cd_component r) remotes)) locals)"

definition form_pairs :: "ice_agent \<Rightarrow> ice_agent" where
  "form_pairs ag =
     ag\<lparr>ia_pairs := mark_first [] (sort_pairs (candidate_pairs (ia_role ag) (ia_local_candidates ag) (ia_remote_candidates ag))),
        ia_nominated := None, ia_checks_sent := Map.empty, ia_check_order := []\<rparr>"

text \<open>The unfreezing pass of \<open>next_check\<close>, one failed foundation after the other.\<close>

definition unfreeze :: "candidate_pair list \<Rightarrow> bytes \<times> u16 \<Rightarrow> candidate_pair list" where
  "unfreeze ps k =
     (if \<forall>p \<in> set ps. pair_key p = k \<longrightarrow> cp_state p = Failed then
        map (\<lambda>p. if pair_key p = k \<and> cp_state p = Frozen then p\<lparr>cp_state := Waiting\<rparr> else p) ps
      else ps)"

text \<open>\<open>max_by_key\<close> over the waiting pairs: the last of the greatest.\<close>

fun best_waiting :: "candidate_pair list \<Rightarrow> nat \<Rightarrow> (nat \<times> u64) option \<Rightarrow> (nat \<times> u64) option" where
  "best_waiting [] i best = best"
| "best_waiting (p # ps) i best =
     best_waiting ps (i + 1)
       (if cp_state p = Waiting \<and> (case best of None \<Rightarrow> True | Some (_, b) \<Rightarrow> b \<le> cp_priority p)
        then Some (i, cp_priority p) else best)"

definition next_check :: "ice_agent \<Rightarrow> ice_agent \<times> nat option" where
  "next_check ag =
     (let failed = map pair_key (filter (\<lambda>p. cp_state p = Failed) (ia_pairs ag));
          ps = foldl unfreeze (ia_pairs ag) failed
      in case best_waiting ps 0 None of
           None \<Rightarrow> (ag\<lparr>ia_pairs := ps\<rparr>, None)
         | Some (idx, _) \<Rightarrow>
             (ag\<lparr>ia_pairs := ps[idx := (ps ! idx)\<lparr>cp_state := InProgress, cp_attempts := cp_attempts (ps ! idx) + 1\<rparr>]\<rparr>,
              Some idx))"

text \<open>\<open>if let Some(p) = self.pairs.get_mut(idx) { ... }\<close>\<close>

definition upd_pair :: "nat \<Rightarrow> (candidate_pair \<Rightarrow> candidate_pair) \<Rightarrow> ice_agent \<Rightarrow> ice_agent" where
  "upd_pair idx f ag = (if idx < length (ia_pairs ag) then ag\<lparr>ia_pairs := (ia_pairs ag)[idx := f (ia_pairs ag ! idx)]\<rparr> else ag)"

definition fail_pair :: "ice_agent \<Rightarrow> nat \<Rightarrow> ice_agent" where
  "fail_pair ag idx = upd_pair idx (\<lambda>p. p\<lparr>cp_state := Failed\<rparr>) ag"

definition is_exhausted :: "ice_agent \<Rightarrow> bool" where
  "is_exhausted ag \<longleftrightarrow> ia_pairs ag \<noteq> [] \<and> (\<forall>p \<in> set (ia_pairs ag). cp_state p = Failed)"

definition state_of :: "ice_agent \<Rightarrow> ice_state" where
  "state_of ag =
     (if ia_nominated ag \<noteq> None then IceConnected
      else if ia_local_candidates ag = [] then IceNew
      else if ia_pairs ag = [] then IceGathering
      else if is_exhausted ag then IceFailed
      else IceChecking)"

definition selected_pair :: "ice_agent \<Rightarrow> candidate_pair option" where
  "selected_pair ag =
     (case ia_nominated ag of
        None \<Rightarrow> None
      | Some idx \<Rightarrow>
          (if idx < length (ia_pairs ag) \<and> cp_state (ia_pairs ag ! idx) = Succeeded then Some (ia_pairs ag ! idx) else None))"

definition nominate :: "ice_agent \<Rightarrow> nat \<Rightarrow> ice_agent \<times> bool" where
  "nominate ag idx =
     (if idx < length (ia_pairs ag) \<and> cp_state (ia_pairs ag ! idx) = Succeeded then
        ((upd_pair idx (\<lambda>p. p\<lparr>cp_nominated := True\<rparr>) ag)\<lparr>ia_nominated := Some idx\<rparr>, True)
      else (ag, False))"

section \<open>Connectivity checks\<close>

definition outgoing_key :: "ice_agent \<Rightarrow> (bytes, ice_error) rust" where
  "outgoing_key ag = (case ia_remote_credentials ag of Some c \<Rightarrow> Ok (ic_password c) | None \<Rightarrow> Err MissingRemoteCredentials)"

definition username_for_outgoing :: "ice_agent \<Rightarrow> (bytes, ice_error) rust" where
  "username_for_outgoing ag =
     (case ia_remote_credentials ag of
        Some c \<Rightarrow> Ok (ic_ufrag c @ ascii '':'' @ ic_ufrag (ia_local_credentials ag))
      | None \<Rightarrow> Err MissingRemoteCredentials)"

definition expected_incoming_username :: "ice_agent \<Rightarrow> bytes option" where
  "expected_incoming_username ag =
     map_option (\<lambda>c. ic_ufrag (ia_local_credentials ag) @ ascii '':'' @ ic_ufrag c) (ia_remote_credentials ag)"

fun evict_checks :: "(bytes \<rightharpoonup> nat \<times> sock_addr \<times> instant) \<Rightarrow> bytes list \<Rightarrow> (bytes \<rightharpoonup> nat \<times> sock_addr \<times> instant) \<times> bytes list" where
  "evict_checks sent [] = (sent, [])"
| "evict_checks sent (old # order) =
     (if length (old # order) > MAX_TRACKED_CHECKS then evict_checks (sent(old := None)) order
      else (sent, old # order))"

definition track_check :: "ice_agent \<Rightarrow> bytes \<Rightarrow> nat \<Rightarrow> sock_addr \<Rightarrow> instant \<Rightarrow> ice_agent" where
  "track_check ag t idx base now =
     (let (sent, order) = evict_checks ((ia_checks_sent ag)(t \<mapsto> (idx, base, now))) (ia_check_order ag @ [t])
      in ag\<lparr>ia_checks_sent := sent, ia_check_order := order\<rparr>)"

definition check_message :: "ice_agent \<Rightarrow> nat \<Rightarrow> bool \<Rightarrow> bytes \<Rightarrow> bytes \<Rightarrow> message" where
  "check_message ag idx nominating t username =
     (let msg = push_attr (push_attr (binding_request t) (Username username)) (Priority (cd_priority (cp_local (ia_pairs ag ! idx))));
          msg = (if nominating \<and> ia_role ag = Controlling then push_attr msg UseCandidate else msg)
      in push_attr msg (case ia_role ag of Controlling \<Rightarrow> IceControlling (ia_tie_breaker ag) | Controlled \<Rightarrow> IceControlled (ia_tie_breaker ag)))"

definition build_check ::
  "stun_crates \<Rightarrow> ice_agent \<Rightarrow> nat \<Rightarrow> bool \<Rightarrow> bytes \<Rightarrow> instant \<Rightarrow> ice_agent \<times> (bytes, ice_error) rust" where
  "build_check H ag idx nominating t now =
     (if \<not> idx < length (ia_pairs ag) then (ag, Err NoCandidates)
      else case outgoing_key ag of
             Err e \<Rightarrow> (ag, Err e)
           | Panic \<Rightarrow> (ag, Panic)
           | Ok key \<Rightarrow>
               (case username_for_outgoing ag of
                  Err e \<Rightarrow> (ag, Err e)
                | Panic \<Rightarrow> (ag, Panic)
                | Ok username \<Rightarrow>
                    (case encode_with_integrity H (check_message ag idx nominating t username) key of
                       Err e \<Rightarrow> (ag, Err (IceStun e))
                     | Panic \<Rightarrow> (ag, Panic)
                     | Ok encoded \<Rightarrow> (track_check ag t idx (cd_base (cp_local (ia_pairs ag ! idx))) now, Ok encoded))))"

definition can_retransmit :: "ice_agent \<Rightarrow> nat \<Rightarrow> bool" where
  "can_retransmit ag idx \<longleftrightarrow> idx < length (ia_pairs ag) \<and> cp_attempts (ia_pairs ag ! idx) < ia_retransmit_attempts ag"

definition retransmit :: "ice_agent \<Rightarrow> nat \<Rightarrow> ice_agent \<times> bool" where
  "retransmit ag idx =
     (if \<not> can_retransmit ag idx then (ag, False)
      else (upd_pair idx (\<lambda>p. p\<lparr>cp_attempts := cp_attempts p + 1\<rparr>) ag, True))"

fun position :: "('a \<Rightarrow> bool) \<Rightarrow> 'a list \<Rightarrow> nat option" where
  "position P [] = None"
| "position P (x # xs) = (if P x then Some 0 else map_option Suc (position P xs))"

text \<open>The role a request claims, its tie-breaker, and whether it flips ours.\<close>

definition loses_role :: "ice_agent \<Rightarrow> message \<Rightarrow> bool" where
  "loses_role ag msg \<longleftrightarrow>
     (let peer_tie = (case (get_attr msg 0x802A, get_attr msg 0x8029) of
                        (Some (IceControlling t), _) \<Rightarrow> t
                      | (_, Some (IceControlled t)) \<Rightarrow> t
                      | _ \<Rightarrow> 0);
          claims_same_role = (case ia_role ag of
            Controlling \<Rightarrow> (case get_attr msg 0x802A of Some (IceControlling _) \<Rightarrow> True | _ \<Rightarrow> False)
          | Controlled \<Rightarrow> (case get_attr msg 0x8029 of Some (IceControlled _) \<Rightarrow> True | _ \<Rightarrow> False))
      in claims_same_role \<and> peer_tie > ia_tie_breaker ag)"

text \<open>Match a check to a pair, or learn a peer-reflexive candidate.\<close>

definition match_pair :: "ice_agent \<Rightarrow> sock_addr \<Rightarrow> ice_agent \<times> nat option" where
  "match_pair ag sender =
     (case position (\<lambda>p. cd_addr (cp_remote p) = sender) (ia_pairs ag) of
        Some i \<Rightarrow> (ag, Some i)
      | None \<Rightarrow>
          (let base = (case ia_local_candidates ag of c # _ \<Rightarrow> cd_base c | [] \<Rightarrow> sender);
               prflx = candidate_new PeerReflexiveC base sender DEFAULT_COMPONENT None;
               ag1 = ag\<lparr>ia_remote_candidates := ia_remote_candidates ag @ [prflx],
                       ia_discovered_prflx := ia_discovered_prflx ag + 1\<rparr>
           in case ia_local_candidates ag of
                [] \<Rightarrow> (ag1, None)
              | l # _ \<Rightarrow>
                  (ag1\<lparr>ia_pairs := ia_pairs ag @ [\<lparr>cp_local = l, cp_remote = prflx, cp_state = Succeeded, cp_nominated = False,
                      cp_priority = pair_priority_for (ia_role ag) (cd_priority l) (cd_priority prflx),
                      cp_attempts = 0, cp_rtt = None\<rparr>]\<rparr>, Some (length (ia_pairs ag)))))"

definition handle_request ::
  "stun_crates \<Rightarrow> ice_agent \<Rightarrow> bytes \<Rightarrow> message \<Rightarrow> sock_addr \<Rightarrow> ice_agent \<times> (check_outcome, ice_error) rust" where
  "handle_request H ag raw msg sender =
     (let password = ic_password (ia_local_credentials ag)
      in if verify_integrity H raw password \<noteq> Ok () then (ag, Err (IceStun BadIntegrity))
         else
           (let flipped = loses_role ag msg;
                ag1 = (if flipped then form_pairs (ag\<lparr>ia_role := other_role (ia_role ag)\<rparr>) else ag);
                nominated_by_peer = get_attr msg 0x0025 \<noteq> None
            in case match_pair ag1 sender of
                 (ag2, None) \<Rightarrow> (ag2, Err NoCandidates)
               | (ag2, Some idx) \<Rightarrow>
                   (let ag3 = upd_pair idx (\<lambda>p. p\<lparr>cp_state := Succeeded\<rparr>) ag2;
                        ag4 = (if nominated_by_peer then fst (nominate ag3 idx) else ag3);
                        resp0 = binding_success (msg_txid msg) sender;
                        resp = (case get_attr msg 0x0006 of Some (Username u) \<Rightarrow> push_attr resp0 (Username u) | _ \<Rightarrow> resp0)
                    in case encode_with_integrity H resp password of
                         Err e \<Rightarrow> (ag4, Err (IceStun e))
                       | Panic \<Rightarrow> (ag4, Panic)
                       | Ok response \<Rightarrow>
                           (ag4, Ok \<lparr>co_pair = idx, co_response = Some response, co_nominated = nominated_by_peer,
                              co_role_flipped = flipped, co_completed_our_check = None\<rparr>))))"

definition handle_response ::
  "stun_crates \<Rightarrow> ice_agent \<Rightarrow> bytes \<Rightarrow> message \<Rightarrow> sock_addr \<Rightarrow> instant \<Rightarrow> ice_agent \<times> (check_outcome, ice_error) rust" where
  "handle_response H ag raw msg sender now =
     (case outgoing_key ag of
        Err e \<Rightarrow> (ag, Err e)
      | Panic \<Rightarrow> (ag, Panic)
      | Ok key \<Rightarrow>
          (if verify_integrity H raw key \<noteq> Ok () then (ag, Err (IceStun BadIntegrity))
           else
             (let measured = map_option (\<lambda>(i, base, at). (i, now - at)) (ia_checks_sent ag (msg_txid msg));
                  ag1 = ag\<lparr>ia_checks_sent := (ia_checks_sent ag)(msg_txid msg := None)\<rparr>;
                  by_addr = position (\<lambda>p. cd_addr (cp_remote p) = sender) (ia_pairs ag1);
                  found = (case measured of
                             Some (i, _) \<Rightarrow> (if i < length (ia_pairs ag1) then Some i else by_addr)
                           | None \<Rightarrow> by_addr)
              in case found of
                   None \<Rightarrow> (ag1, Ok \<lparr>co_pair = 2 ^ 64 - 1, co_response = None, co_nominated = False,
                               co_role_flipped = False, co_completed_our_check = None\<rparr>)
                 | Some idx \<Rightarrow>
                     (let ag2 = upd_pair idx (\<lambda>p. p\<lparr>cp_state := Succeeded\<rparr>) ag1;
                          ag3 = (case measured of
                                   Some (i, rtt) \<Rightarrow> upd_pair i (\<lambda>p. p\<lparr>cp_rtt := Some rtt\<rparr>) ag2
                                 | None \<Rightarrow> ag2);
                          ag4 = (if ia_role ag3 = Controlling \<and> ia_nominated ag3 = None then fst (nominate ag3 idx) else ag3)
                      in (ag4, Ok \<lparr>co_pair = idx, co_response = None, co_nominated = (ia_nominated ag4 = Some idx),
                            co_role_flipped = False,
                            co_completed_our_check = (if idx < length (ia_pairs ag4) then cp_rtt (ia_pairs ag4 ! idx) else None)\<rparr>)))))"

definition handle_check ::
  "stun_crates \<Rightarrow> ice_agent \<Rightarrow> bytes \<Rightarrow> sock_addr \<Rightarrow> instant \<Rightarrow> ice_agent \<times> (check_outcome option, ice_error) rust" where
  "handle_check H ag raw sender now =
     (case parse_message raw of
        Ok msg \<Rightarrow>
          (if method_of (msg_typ msg) \<noteq> METHOD_BINDING then (ag, Ok None)
           else case class_of (msg_typ msg) of
                  Request \<Rightarrow> (let (ag', r) = handle_request H ag raw msg sender in (ag', rmap Some r))
                | SuccessResponse \<Rightarrow> (let (ag', r) = handle_response H ag raw msg sender now in (ag', rmap Some r))
                | _ \<Rightarrow> (ag, Ok None))
      | _ \<Rightarrow> (ag, Ok None))"

section \<open>The check list\<close>

lemma upd_pair_fields [simp]:
  "ia_role (upd_pair i f ag) = ia_role ag" "ia_nominated (upd_pair i f ag) = ia_nominated ag"
  "ia_local_candidates (upd_pair i f ag) = ia_local_candidates ag" "ia_tie_breaker (upd_pair i f ag) = ia_tie_breaker ag"
  "ia_local_credentials (upd_pair i f ag) = ia_local_credentials ag" "ia_remote_credentials (upd_pair i f ag) = ia_remote_credentials ag"
  "ia_checks_sent (upd_pair i f ag) = ia_checks_sent ag" "ia_check_order (upd_pair i f ag) = ia_check_order ag"
  "length (ia_pairs (upd_pair i f ag)) = length (ia_pairs ag)"
  by (simp_all add: upd_pair_def)

lemma upd_pair_nth [simp]:
  "j < length (ia_pairs ag) \<Longrightarrow> ia_pairs (upd_pair i f ag) ! j = (if i = j then f (ia_pairs ag ! j) else ia_pairs ag ! j)"
  by (simp add: upd_pair_def nth_list_update)

lemma mset_insert_pair: "mset (insert_pair p qs) = add_mset p (mset qs)"
  by (induction qs) auto

lemma mset_sort_pairs: "mset (sort_pairs ps) = mset ps"
  unfolding sort_pairs_def by (induction ps) (simp_all add: mset_insert_pair)

definition by_priority :: "candidate_pair list \<Rightarrow> bool" where
  "by_priority ps \<longleftrightarrow> sorted_wrt (\<lambda>p q. cp_priority q \<le> cp_priority p) ps"

lemma set_insert_pair: "set (insert_pair p qs) = insert p (set qs)"
  by (induction qs) auto

lemma insert_pair_sorted: "by_priority qs \<Longrightarrow> by_priority (insert_pair p qs)"
  unfolding by_priority_def
proof (induction qs)
  case (Cons q qs)
  show ?case
  proof (cases "pair_before p q")
    case True
    then have "cp_priority q \<le> cp_priority p" by (auto simp: pair_before_def)
    then show ?thesis using True Cons.prems by (auto intro: order_trans)
  next
    case False
    then have "cp_priority p \<le> cp_priority q" by (auto simp: pair_before_def not_less)
    then show ?thesis using False Cons by (auto simp: set_insert_pair)
  qed
qed simp

lemma sort_pairs_sorted: "by_priority (sort_pairs ps)"
  unfolding sort_pairs_def by (induction ps) (simp_all add: insert_pair_sorted, simp add: by_priority_def)

text \<open>Marking changes states only: exactly the first pair of each foundation waits.\<close>

lemma mark_first_spec:
  "map (\<lambda>p. p\<lparr>cp_state := s\<rparr>) (mark_first seen ps) = map (\<lambda>p. p\<lparr>cp_state := s\<rparr>) ps"
  "i < length ps \<Longrightarrow> cp_state (mark_first seen ps ! i)
    = (if pair_key (ps ! i) \<in> set seen \<union> pair_key ` set (take i ps) then Frozen else Waiting)"
proof (induction ps arbitrary: seen i)
  case (Cons p ps)
  { case 1 show ?case using Cons(1) by simp }
  { case 2
    show ?case
    proof (cases i)
      case (Suc j)
      then show ?thesis using Cons(2) [of j] 2 by auto
    qed simp }
qed simp_all

lemma length_mark_first [simp]: "length (mark_first seen ps) = length ps"
  using mark_first_spec(1) [where s = Frozen and seen = seen and ps = ps] by (metis length_map)

lemma mark_first_nth:
  "i < length ps \<Longrightarrow> (mark_first seen ps ! i)\<lparr>cp_state := s\<rparr> = (ps ! i)\<lparr>cp_state := s\<rparr>"
  using mark_first_spec(1) [where s = s and seen = seen and ps = ps] by (metis length_map length_mark_first nth_map)

lemma mark_first_fields:
  assumes "i < length ps"
  shows "cp_priority (mark_first seen ps ! i) = cp_priority (ps ! i)" "pair_key (mark_first seen ps ! i) = pair_key (ps ! i)"
    "cp_local (mark_first seen ps ! i) = cp_local (ps ! i)" "cp_remote (mark_first seen ps ! i) = cp_remote (ps ! i)"
  using mark_first_nth [OF assms, where seen = seen and s = Frozen] by (cases "mark_first seen ps ! i"; cases "ps ! i"; simp add: pair_key_def)+

text \<open>
  The check list. \<open>form_pairs\<close> pairs every local with every remote candidate of the same component
  exactly once, in order of descending pair priority; a pair waits exactly if no earlier, so no
  better, pair has its foundation and component, and all others are frozen.
\<close>

theorem check_list_is_ordered:
  fixes ag :: ice_agent
  defines "ps \<equiv> ia_pairs (form_pairs ag)"
  shows "image_mset (\<lambda>p. (cp_local p, cp_remote p)) (mset ps)
      = mset (concat (map (\<lambda>l. map (Pair l) (filter (\<lambda>r. cd_component l = cd_component r) (ia_remote_candidates ag))) (ia_local_candidates ag)))
    \<and> by_priority ps
    \<and> (\<forall>i < length ps. cp_priority (ps ! i) = pair_priority_for (ia_role ag) (cd_priority (cp_local (ps ! i))) (cd_priority (cp_remote (ps ! i)))
        \<and> cp_state (ps ! i) = (if pair_key (ps ! i) \<in> pair_key ` set (take i ps) then Frozen else Waiting))"
proof -
  let ?cs = "candidate_pairs (ia_role ag) (ia_local_candidates ag) (ia_remote_candidates ag)"
  let ?qs = "sort_pairs ?cs"
  have ps: "ps = mark_first [] ?qs" by (simp add: ps_def form_pairs_def)
  have len: "length ps = length ?qs" by (simp add: ps)
  note f = mark_first_fields [where seen = "[]" and ps = ?qs, folded ps]
  have lr: "map (\<lambda>p. (cp_local p, cp_remote p)) ps = map (\<lambda>p. (cp_local p, cp_remote p)) ?qs"
    by (rule nth_equalityI) (simp_all add: len f)
  have keys: "map pair_key (take i ps) = map pair_key (take i ?qs)" for i
    by (rule nth_equalityI) (simp_all add: len f)
  have "image_mset (\<lambda>p. (cp_local p, cp_remote p)) (mset ps) = mset (map (\<lambda>p. (cp_local p, cp_remote p)) ?cs)"
    using arg_cong [OF lr, of mset] by (simp add: mset_sort_pairs)
  also have "map (\<lambda>p. (cp_local p, cp_remote p)) ?cs
      = concat (map (\<lambda>l. map (Pair l) (filter (\<lambda>r. cd_component l = cd_component r) (ia_remote_candidates ag))) (ia_local_candidates ag))"
    by (simp add: candidate_pairs_def map_concat comp_def)
  finally have a: "image_mset (\<lambda>p. (cp_local p, cp_remote p)) (mset ps) = mset \<dots>" .
  have b: "by_priority ps"
    using sort_pairs_sorted [of ?cs] unfolding by_priority_def sorted_wrt_iff_nth_less by (simp add: len f)
  have prio: "cp_priority p = pair_priority_for (ia_role ag) (cd_priority (cp_local p)) (cd_priority (cp_remote p))"
    if "p \<in> set ?qs" for p
    using that mset_eq_setD [OF mset_sort_pairs [of ?cs]] by (auto simp: candidate_pairs_def)
  have c: "cp_priority (ps ! i) = pair_priority_for (ia_role ag) (cd_priority (cp_local (ps ! i))) (cd_priority (cp_remote (ps ! i)))
      \<and> cp_state (ps ! i) = (if pair_key (ps ! i) \<in> pair_key ` set (take i ps) then Frozen else Waiting)"
    if i: "i < length ps" for i
  proof -
    have i': "i < length ?qs" using i len by simp
    have "pair_key ` set (take i ps) = pair_key ` set (take i ?qs)" using arg_cong [OF keys [of i], of set] by simp
    then show ?thesis
      using prio [OF nth_mem [OF i']] mark_first_spec(2) [OF i', where seen = "[]", folded ps] by (simp add: f [OF i'])
  qed
  show ?thesis using a b c by blast
qed

text \<open>The unfreezing pass never finds anything to unfreeze.\<close>

lemma unfreeze_nothing: "unfreeze ps k = ps"
  unfolding unfreeze_def by (auto intro!: map_idI)

lemma unfreeze_all_nothing: "foldl unfreeze ps ks = ps"
  by (induction ks) (simp_all add: unfreeze_nothing)

lemma best_waiting_spec:
  assumes "best_waiting ps i best = Some (j, b)" and "\<And>j b. best = Some (j, b) \<Longrightarrow> j < i \<and> P j"
    and "\<And>k. k < length ps \<Longrightarrow> cp_state (ps ! k) = Waiting \<Longrightarrow> P (i + k)"
  shows "P j \<and> j < i + length ps"
  using assms
proof (induction ps arbitrary: i best)
  case (Cons p ps)
  let ?best = "if cp_state p = Waiting \<and> (case best of None \<Rightarrow> True | Some (_, b) \<Rightarrow> b \<le> cp_priority p)
    then Some (i, cp_priority p) else best"
  have "P j \<and> j < (i + 1) + length ps"
  proof (rule Cons.IH)
    show "best_waiting ps (i + 1) ?best = Some (j, b)" using Cons.prems(1) by simp
    show "j' < i + 1 \<and> P j'" if "?best = Some (j', b')" for j' b'
      using that Cons.prems(2) [of j' b'] Cons.prems(3) [of 0] by (auto split: if_splits)
    show "P (i + 1 + k)" if "k < length ps" "cp_state (ps ! k) = Waiting" for k
      using that Cons.prems(3) [of "Suc k"] by simp
  qed
  then show ?case by simp
qed simp

lemma next_check_waiting:
  assumes "next_check ag = (ag', Some i)"
  shows "i < length (ia_pairs ag) \<and> cp_state (ia_pairs ag ! i) = Waiting"
proof -
  obtain b where b: "best_waiting (ia_pairs ag) 0 None = Some (i, b)"
    using assms by (auto simp: next_check_def unfreeze_all_nothing Let_def split: option.splits prod.splits)
  have "(i < length (ia_pairs ag) \<and> cp_state (ia_pairs ag ! i) = Waiting) \<and> i < 0 + length (ia_pairs ag)"
    by (rule best_waiting_spec [OF b, where P = "\<lambda>j. j < length (ia_pairs ag) \<and> cp_state (ia_pairs ag ! j) = Waiting"]) auto
  then show ?thesis by simp
qed

text \<open>What the owner of an agent does with the check list when nothing is received.\<close>

datatype list_op = NextCheck | GiveUp nat | SendAgain nat

fun list_step :: "ice_agent \<Rightarrow> list_op \<Rightarrow> ice_agent" where
  "list_step ag NextCheck = fst (next_check ag)"
| "list_step ag (GiveUp i) =
     (if i < length (ia_pairs ag) \<and> cp_state (ia_pairs ag ! i) = InProgress then fail_pair ag i else ag)"
| "list_step ag (SendAgain i) = fst (retransmit ag i)"

definition frozen_at :: "nat \<Rightarrow> ice_agent \<Rightarrow> bool" where
  "frozen_at i ag \<longleftrightarrow> i < length (ia_pairs ag) \<and> cp_state (ia_pairs ag ! i) = Frozen \<and> ia_nominated ag = None"

lemma frozen_step: "frozen_at i ag \<Longrightarrow> frozen_at i (list_step ag e)"
proof (cases e)
  case NextCheck
  assume f: "frozen_at i ag"
  obtain ag' r where n: "next_check ag = (ag', r)" by fastforce
  have "r = Some j \<longrightarrow> j \<noteq> i" for j using f next_check_waiting [of ag ag' j] n by (auto simp: frozen_at_def)
  then show ?thesis using f n NextCheck
    by (auto simp: frozen_at_def next_check_def unfreeze_all_nothing Let_def nth_list_update split: option.splits prod.splits)
qed (auto simp: frozen_at_def fail_pair_def retransmit_def)

interpretation check_list: state_machine list_step "frozen_at i" for i
  by unfold_locales (rule frozen_step)

text \<open>
  C36. Frozen pairs are never tried. Whatever checks the owner starts, repeats and gives up while
  nothing is received, a pair that \<open>form_pairs\<close> froze stays frozen, is never returned by \<open>next_check\<close>,
  and keeps the agent from ever reporting failure: the pass that should thaw the siblings of a failed
  pair asks for all pairs of the foundation to have failed, the frozen ones included.
\<close>

theorem frozen_pairs_are_never_checked:
  assumes "i < length (ia_pairs ag)" and "cp_state (ia_pairs ag ! i) = Frozen" and "ia_nominated ag = None"
  defines "run \<equiv> foldl list_step ag"
  shows "cp_state (ia_pairs (run es) ! i) = Frozen \<and> snd (next_check (run es)) \<noteq> Some i \<and> state_of (run es) \<noteq> IceFailed"
proof -
  have "frozen_at i ag" using assms(1-3) by (simp add: frozen_at_def)
  then have f: "frozen_at i (run es)" unfolding run_def by (rule check_list.run_inv)
  have "snd (next_check (run es)) \<noteq> Some i"
    using f next_check_waiting [of "run es" _ i] by (metis frozen_at_def pair_state.distinct(1) prod.collapse)
  moreover have "\<not> is_exhausted (run es)" using f nth_mem unfolding is_exhausted_def frozen_at_def by fastforce
  ultimately show ?thesis using f by (auto simp: frozen_at_def state_of_def)
qed

section \<open>Reachable agents\<close>

text \<open>Everything the owner of an agent can do with it.\<close>

inductive agent_reach :: "stun_crates \<Rightarrow> ice_agent \<Rightarrow> bool" for H where
  start: "agent_reach H (agent_new role tie creds)"
| attempts: "agent_reach H ag \<Longrightarrow> agent_reach H (with_check_attempts ag n)"
| remote_creds: "agent_reach H ag \<Longrightarrow> agent_reach H (set_remote_credentials ag creds)"
| local_creds: "agent_reach H ag \<Longrightarrow> agent_reach H (set_local_credentials ag creds)"
| remote_role: "agent_reach H ag \<Longrightarrow> agent_reach H (set_remote_role ag role)"
| local_candidate: "agent_reach H ag \<Longrightarrow> agent_reach H (push_local ag c)"
| remote_candidate: "agent_reach H ag \<Longrightarrow> agent_reach H (add_remote_candidate ag c)"
| pairs_formed: "agent_reach H ag \<Longrightarrow> agent_reach H (form_pairs ag)"
| check_next: "agent_reach H ag \<Longrightarrow> agent_reach H (fst (next_check ag))"
| pair_failed: "agent_reach H ag \<Longrightarrow> agent_reach H (fail_pair ag i)"
| pair_nominated: "agent_reach H ag \<Longrightarrow> agent_reach H (fst (nominate ag i))"
| check_built: "agent_reach H ag \<Longrightarrow> agent_reach H (fst (build_check H ag i n t now))"
| check_again: "agent_reach H ag \<Longrightarrow> agent_reach H (fst (retransmit ag i))"
| check_handled: "agent_reach H ag \<Longrightarrow> agent_reach H (fst (handle_check H ag raw sender now))"

definition agent_ok :: "ice_agent \<Rightarrow> bool" where
  "agent_ok ag \<longleftrightarrow>
     (\<forall>i. ia_nominated ag = Some i \<longrightarrow> i < length (ia_pairs ag) \<and> cp_nominated (ia_pairs ag ! i))
     \<and> length (ia_check_order ag) \<le> MAX_TRACKED_CHECKS \<and> dom (ia_checks_sent ag) \<subseteq> set (ia_check_order ag)
     \<and> (\<forall>t i b at. ia_checks_sent ag t = Some (i, b, at) \<longrightarrow> i < length (ia_pairs ag))"

lemma agent_ok_upd:
  assumes "agent_ok ag" and "\<And>p. cp_nominated p \<Longrightarrow> cp_nominated (f p)"
  shows "agent_ok (upd_pair i f ag)"
  using assms unfolding agent_ok_def by auto

lemma agent_ok_nominate: "agent_ok ag \<Longrightarrow> agent_ok (fst (nominate ag i))"
  unfolding agent_ok_def nominate_def by auto

lemma agent_ok_form [simp]: "agent_ok (form_pairs ag)"
  by (simp add: agent_ok_def form_pairs_def)

lemma evict_spec:
  assumes "dom sent \<subseteq> set order"
  shows "length (snd (evict_checks sent order)) \<le> MAX_TRACKED_CHECKS"
    and "dom (fst (evict_checks sent order)) \<subseteq> set (snd (evict_checks sent order))"
    and "fst (evict_checks sent order) t = Some v \<Longrightarrow> sent t = Some v"
  using assms
proof (induction sent order rule: evict_checks.induct)
  case (2 sent old order)
  let ?s = "sent(old := None)"
  have d: "dom ?s \<subseteq> set order" if "dom sent \<subseteq> set (old # order)" using that by auto
  show "length (snd (evict_checks sent (old # order))) \<le> MAX_TRACKED_CHECKS" if "dom sent \<subseteq> set (old # order)"
    using 2(1) [OF _ d [OF that]] by (cases "length (old # order) > MAX_TRACKED_CHECKS") (simp_all del: fun_upd_apply)
  show "dom (fst (evict_checks sent (old # order))) \<subseteq> set (snd (evict_checks sent (old # order)))"
    if "dom sent \<subseteq> set (old # order)"
    using 2(2) [OF _ d [OF that]] that
    by (cases "length (old # order) > MAX_TRACKED_CHECKS") (simp_all del: fun_upd_apply)
  show "sent t = Some v" if "fst (evict_checks sent (old # order)) t = Some v" "dom sent \<subseteq> set (old # order)"
    using 2(3) [OF _ _ d [OF that(2)]] that(1)
    by (cases "length (old # order) > MAX_TRACKED_CHECKS") (auto simp del: fun_upd_apply dest: fun_upd_None_if_notin_dom split: if_splits simp: fun_upd_def)
qed (simp_all add: MAX_TRACKED_CHECKS_def)

lemma agent_ok_track:
  assumes "agent_ok ag" and "i < length (ia_pairs ag)"
  shows "agent_ok (track_check ag t i b now)"
proof -
  let ?sent = "(ia_checks_sent ag)(t \<mapsto> (i, b, now))" and ?order = "ia_check_order ag @ [t]"
  have d: "dom ?sent \<subseteq> set ?order" using assms(1) by (auto simp: agent_ok_def)
  obtain sent order where e: "evict_checks ?sent ?order = (sent, order)" by fastforce
  have "length order \<le> MAX_TRACKED_CHECKS" "dom sent \<subseteq> set order" using evict_spec(1,2) [OF d] e by simp_all
  moreover have "i' < length (ia_pairs ag)" if "sent t' = Some (i', b', at)" for t' i' b' at
  proof -
    have "?sent t' = Some (i', b', at)" using evict_spec(3) [OF d, of t' "(i', b', at)"] e that by simp
    then show ?thesis using assms unfolding agent_ok_def by (metis fun_upd_apply option.inject prod.inject)
  qed
  ultimately show ?thesis using assms(1) by (auto simp: agent_ok_def track_check_def e)
qed

lemma agent_ok_match: "agent_ok ag \<Longrightarrow> agent_ok (fst (match_pair ag sender))"
  by (auto simp: agent_ok_def match_pair_def Let_def nth_append less_Suc_eq split: option.splits list.splits)

lemma agent_ok_request: "agent_ok ag \<Longrightarrow> agent_ok (fst (handle_request H ag raw msg sender))"
proof -
  assume ok: "agent_ok ag"
  let ?ag1 = "if loses_role ag msg then form_pairs (ag\<lparr>ia_role := other_role (ia_role ag)\<rparr>) else ag"
  obtain ag2 r where m: "match_pair ?ag1 sender = (ag2, r)" by fastforce
  have ok2: "agent_ok ag2" using agent_ok_match [of ?ag1 sender] ok m by simp
  have "agent_ok (upd_pair i (\<lambda>p. p\<lparr>cp_state := Succeeded\<rparr>) ag2)" for i using ok2 by (rule agent_ok_upd) simp
  then show ?thesis using ok ok2 agent_ok_nominate
    by (auto simp: handle_request_def m Let_def split: option.splits rust.splits)
qed

lemma agent_ok_response: "agent_ok ag \<Longrightarrow> agent_ok (fst (handle_response H ag raw msg sender now))"
proof -
  assume ok: "agent_ok ag"
  let ?ag1 = "ag\<lparr>ia_checks_sent := (ia_checks_sent ag)(msg_txid msg := None)\<rparr>"
  have ok1: "agent_ok ?ag1" using ok by (auto simp: agent_ok_def)
  have ok2: "agent_ok (upd_pair i (\<lambda>p. p\<lparr>cp_state := Succeeded\<rparr>) ?ag1)" for i using ok1 by (rule agent_ok_upd) simp
  have ok3: "agent_ok (upd_pair j (\<lambda>p. p\<lparr>cp_rtt := r\<rparr>) (upd_pair i (\<lambda>p. p\<lparr>cp_state := Succeeded\<rparr>) ?ag1))" for i j r
    using ok2 by (rule agent_ok_upd) simp
  show ?thesis using ok ok1 ok2 ok3 agent_ok_nominate
    by (auto simp: handle_response_def Let_def split: option.splits rust.splits)
qed

lemma agent_ok_check: "agent_ok ag \<Longrightarrow> agent_ok (fst (handle_check H ag raw sender now))"
  using agent_ok_request agent_ok_response
  by (auto simp: handle_check_def case_prod_unfold Let_def split: rust.splits stun_class.splits)

lemma agent_ok_build: "agent_ok ag \<Longrightarrow> agent_ok (fst (build_check H ag i n t now))"
  using agent_ok_track by (auto simp: build_check_def split: rust.splits)

lemma nth_list_update':
  "i < length xs \<Longrightarrow> xs[j := x] ! i = (if i = j then x else xs ! i)"
  by (simp add: nth_list_update)

lemma agent_ok_next: "agent_ok ag \<Longrightarrow> agent_ok (fst (next_check ag))"
  by (auto simp: agent_ok_def next_check_def unfreeze_all_nothing Let_def nth_list_update' split: option.splits)

text \<open>
  C34. The agent's tables stay consistent. In every state that any sequence of the agent's operations
  reaches, whatever datagrams arrive, the nominated index names a pair that is marked as nominated
  (so a connected agent has a pair to send on), every outstanding check refers to an existing pair,
  and at most 128 checks are tracked, all of them in the eviction queue.
\<close>

theorem reachable_agents_are_consistent:
  assumes "agent_reach H ag"
  shows "(\<forall>i. ia_nominated ag = Some i \<longrightarrow> i < length (ia_pairs ag) \<and> cp_nominated (ia_pairs ag ! i))
    \<and> (\<forall>t i b at. ia_checks_sent ag t = Some (i, b, at) \<longrightarrow> i < length (ia_pairs ag) \<and> t \<in> set (ia_check_order ag))
    \<and> length (ia_check_order ag) \<le> MAX_TRACKED_CHECKS \<and> card (dom (ia_checks_sent ag)) \<le> MAX_TRACKED_CHECKS"
proof -
  from assms have ok: "agent_ok ag"
  proof (induction rule: agent_reach.induct)
    case (start role tie creds)
    then show ?case by (simp add: agent_ok_def agent_new_def)
  next
    case (pair_failed ag i)
    then show ?case by (auto simp: fail_pair_def intro!: agent_ok_upd)
  next
    case (check_again ag i)
    then show ?case by (auto simp: retransmit_def intro!: agent_ok_upd)
  qed (simp_all add: agent_ok_next agent_ok_nominate agent_ok_build agent_ok_check,
       simp_all add: agent_ok_def with_check_attempts_def set_remote_credentials_def set_local_credentials_def
         set_remote_role_def push_local_def add_remote_candidate_def)
  have "card (dom (ia_checks_sent ag)) \<le> card (set (ia_check_order ag))"
    using ok by (intro card_mono) (auto simp: agent_ok_def)
  also have "\<dots> \<le> length (ia_check_order ag)" by (rule card_length)
  finally show ?thesis using ok by (auto simp: agent_ok_def dom_def)
qed

text \<open>
  C33. Only authenticated checks count. If a datagram changes the agent, it carries a valid
  MESSAGE-INTEGRITY digest: under our own password if it is a request, under the peer's password if it
  is a response.
\<close>

theorem ice_checks_are_authenticated:
  assumes "handle_check H ag raw sender now = (ag', r)" and "ag' \<noteq> ag"
  shows "\<exists>msg. parse_message raw = Ok msg \<and> method_of (msg_typ msg) = METHOD_BINDING
    \<and> (class_of (msg_typ msg) = Request \<and> verify_integrity H raw (ic_password (ia_local_credentials ag)) = Ok ()
       \<or> class_of (msg_typ msg) = SuccessResponse
         \<and> (\<exists>creds. ia_remote_credentials ag = Some creds \<and> verify_integrity H raw (ic_password creds) = Ok ()))"
proof -
  obtain msg where p: "parse_message raw = Ok msg" "method_of (msg_typ msg) = METHOD_BINDING"
    using assms by (cases "parse_message raw") (auto simp: handle_check_def split: if_splits)
  have "class_of (msg_typ msg) = Request \<and> fst (handle_request H ag raw msg sender) \<noteq> ag
     \<or> class_of (msg_typ msg) = SuccessResponse \<and> fst (handle_response H ag raw msg sender now) \<noteq> ag"
    using assms p by (cases "class_of (msg_typ msg)") (auto simp: handle_check_def case_prod_unfold Let_def)
  moreover have "verify_integrity H raw (ic_password (ia_local_credentials ag)) = Ok ()"
    if "fst (handle_request H ag raw msg sender) \<noteq> ag"
  proof (rule ccontr)
    assume "verify_integrity H raw (ic_password (ia_local_credentials ag)) \<noteq> Ok ()"
    then have "handle_request H ag raw msg sender = (ag, Err (IceStun BadIntegrity))" unfolding handle_request_def by simp
    then show False using that by simp
  qed
  moreover have "\<exists>creds. ia_remote_credentials ag = Some creds \<and> verify_integrity H raw (ic_password creds) = Ok ()"
    if "fst (handle_response H ag raw msg sender now) \<noteq> ag"
    using that by (auto simp: handle_response_def outgoing_key_def split: option.splits if_splits)
  ultimately show ?thesis using p by blast
qed

section \<open>Two agents\<close>

lemma check_message_facts:
  fixes ag :: ice_agent and i :: nat and n :: bool
  assumes "length t = 12" and "length u \<le> 600"
  defines "m \<equiv> check_message ag i n t u"
  shows "msg_txid m = t" "msg_typ m = message_type METHOD_BINDING Request" "plain_attributes (msg_attributes m)"
    "length (body_bytes (msg_txid m) (msg_attributes m)) \<le> 700"
    "get_attr m 0x0006 = Some (Username u)"
    "get_attr m 0x0025 = (if n \<and> ia_role ag = Controlling then Some UseCandidate else None)"
    "get_attr m 0x802A = (if ia_role ag = Controlling then Some (IceControlling (ia_tie_breaker ag)) else None)"
    "get_attr m 0x8029 = (if ia_role ag = Controlled then Some (IceControlled (ia_tie_breaker ag)) else None)"
proof -
  have s: "length software = 15" by (simp add: software_def)
  show tx: "msg_txid m = t" by (simp add: m_def check_message_def binding_request_def Let_def)
  show "msg_typ m = message_type METHOD_BINDING Request" by (simp add: m_def check_message_def binding_request_def Let_def)
  show "plain_attributes (msg_attributes m)"
    by (cases "ia_role ag") (simp_all add: m_def check_message_def binding_request_def Let_def plain_attributes_def)
  show "length (body_bytes (msg_txid m) (msg_attributes m)) \<le> 700"
    using assms(2) s length_tlv_le [of t "Username u"]
    by (cases "ia_role ag") (simp_all add: tx, simp_all add: m_def check_message_def binding_request_def Let_def length_tlv padded_def)
qed (cases "ia_role ag"; simp add: m_def check_message_def binding_request_def Let_def get_attr_def attr_kinds)+

lemma binding_success_facts:
  assumes "length t = 12" and "addr_wf a" and "length u \<le> 600"
  defines "m \<equiv> push_attr (binding_success t a) (Username u)"
  shows "msg_txid m = t" "msg_typ m = message_type METHOD_BINDING SuccessResponse" "plain_attributes (msg_attributes m)"
    "length (body_bytes (msg_txid m) (msg_attributes m)) \<le> 700"
proof -
  have s: "length software = 15" by (simp add: software_def)
  show tx: "msg_txid m = t" by (simp add: m_def binding_success_def)
  show "msg_typ m = message_type METHOD_BINDING SuccessResponse" by (simp add: m_def binding_success_def)
  show "plain_attributes (msg_attributes m)" using assms(2) by (simp add: m_def binding_success_def plain_attributes_def)
  show "length (body_bytes (msg_txid m) (msg_attributes m)) \<le> 700"
    using assms(3) s length_tlv_le [of t "Username u"] length_tlv_le [of t "XorMappedAddress a"] encode_address_le [OF assms(2,1), of True]
    by (simp add: tx) (simp add: m_def binding_success_def length_tlv padded_def)
qed

text \<open>A small signed message: what its encoding is, that it verifies and what is read from it.\<close>

lemma small_signed_message:
  assumes "hmac_sha1_law H" and "length (msg_txid m) = 12" and "plain_attributes (msg_attributes m)" and "plain_attributes extra"
    and "length (body_bytes (msg_txid m) (msg_attributes m)) \<le> 700" and "length (body_bytes (msg_txid m) extra) \<le> 700"
  shows "encode_with_integrity H m key = Ok (encode_message (signed_then H key m []))"
    and "verify_integrity H (encode_message (signed_then H key m extra)) key = Ok ()"
    and "parse_message (encode_message (signed_then H key m extra)) = Ok (signed_then H key m extra)"
proof -
  have "filter (\<lambda>a. \<not> is_digest a) (msg_attributes m) = msg_attributes m"
    using assms(3) by (auto simp: plain_attributes_def intro!: filter_True)
  then show "encode_with_integrity H m key = Ok (encode_message (signed_then H key m []))"
    using encode_with_integrity_signed_then [OF assms(1,2)] by simp
  have "length (body_bytes (msg_txid m) (msg_attributes m)) + length (body_bytes (msg_txid m) extra) + 32 < 65536"
    using assms(5,6) by simp
  note v = signed_then_verifies [OF assms(1-4) this]
  show "verify_integrity H (encode_message (signed_then H key m extra)) key = Ok ()" by (rule v(1))
  show "parse_message (encode_message (signed_then H key m extra)) = Ok (signed_then H key m extra)" by (rule v(3))
qed

lemma position_Some:
  "position P xs = Some i \<Longrightarrow> i < length xs \<and> P (xs ! i)"
  by (induction xs arbitrary: i) (auto split: if_splits)

lemma match_pair_found:
  assumes "ia_local_candidates ag \<noteq> []"
  obtains ag' i where "match_pair ag sender = (ag', Some i)" and "i < length (ia_pairs ag')"
    and "cd_addr (cp_remote (ia_pairs ag' ! i)) = sender" and "ia_role ag' = ia_role ag"
    and "ia_local_credentials ag' = ia_local_credentials ag" and "ia_nominated ag' = ia_nominated ag"
proof (cases "position (\<lambda>p. cd_addr (cp_remote p) = sender) (ia_pairs ag)")
  case None
  obtain l ls where "ia_local_candidates ag = l # ls" using assms by (cases "ia_local_candidates ag") auto
  then show thesis using None that by (simp add: match_pair_def Let_def candidate_new_def)
next
  case (Some i)
  then show thesis using position_Some [OF Some] that by (simp add: match_pair_def)
qed

text \<open>An authentic request with a user name is matched to a pair of its sender, answered, and nominates on demand.\<close>

lemma request_accepted:
  assumes H: "hmac_sha1_law H" and v: "verify_integrity H raw (ic_password (ia_local_credentials ag)) = Ok ()"
    and p: "parse_message raw = Ok msg" "msg_typ msg = message_type METHOD_BINDING Request" "length (msg_txid msg) = 12"
    and u: "get_attr msg 0x0006 = Some (Username u)" "length u \<le> 600"
    and lc: "ia_local_candidates ag \<noteq> []" and wf: "addr_wf sender"
  obtains ag' i where
    "handle_check H ag raw sender now = (ag', Ok (Some \<lparr>co_pair = i,
       co_response = Some (encode_message (signed_then H (ic_password (ia_local_credentials ag))
         (push_attr (binding_success (msg_txid msg) sender) (Username u)) [])),
       co_nominated = (get_attr msg 0x0025 \<noteq> None), co_role_flipped = loses_role ag msg, co_completed_our_check = None\<rparr>))"
    and "i < length (ia_pairs ag')" and "cp_state (ia_pairs ag' ! i) = Succeeded"
    and "cd_addr (cp_remote (ia_pairs ag' ! i)) = sender"
    and "get_attr msg 0x0025 \<noteq> None \<Longrightarrow> ia_nominated ag' = Some i"
    and "ia_role ag' = (if loses_role ag msg then other_role (ia_role ag) else ia_role ag)"
proof -
  let ?pw = "ic_password (ia_local_credentials ag)"
  let ?ag1 = "if loses_role ag msg then form_pairs (ag\<lparr>ia_role := other_role (ia_role ag)\<rparr>) else ag"
  let ?resp = "push_attr (binding_success (msg_txid msg) sender) (Username u)"
  have f: "ia_local_candidates ?ag1 \<noteq> []" "ia_role ?ag1 = (if loses_role ag msg then other_role (ia_role ag) else ia_role ag)"
    using lc by (simp_all add: form_pairs_def)
  obtain ag2 i where m: "match_pair ?ag1 sender = (ag2, Some i)" and i: "i < length (ia_pairs ag2)"
    and a: "cd_addr (cp_remote (ia_pairs ag2 ! i)) = sender" and r: "ia_role ag2 = ia_role ?ag1"
    by (rule match_pair_found [OF f(1)])
  let ?ag3 = "upd_pair i (\<lambda>p. p\<lparr>cp_state := Succeeded\<rparr>) ag2"
  let ?ag4 = "if get_attr msg 0x0025 \<noteq> None then fst (nominate ?ag3 i) else ?ag3"
  note b = binding_success_facts [OF p(3) wf u(2)]
  have "plain_attributes []" by (simp add: plain_attributes_def)
  then have e: "encode_with_integrity H ?resp ?pw = Ok (encode_message (signed_then H ?pw ?resp []))"
    using b p(3) by (intro small_signed_message(1) [OF H, where extra = "[]"]) simp_all
  have mt: "method_of (msg_typ msg) = METHOD_BINDING" "class_of (msg_typ msg) = Request"
    using p(2) message_type_method [of METHOD_BINDING] message_type_class by (simp_all add: METHOD_BINDING_def)
  have hr: "handle_request H ag raw msg sender = (?ag4, Ok \<lparr>co_pair = i,
       co_response = Some (encode_message (signed_then H ?pw ?resp [])), co_nominated = (get_attr msg 0x0025 \<noteq> None),
       co_role_flipped = loses_role ag msg, co_completed_our_check = None\<rparr>)"
    unfolding handle_request_def Let_def m prod.case option.case u(1) attribute.case e rust.case using v by simp
  have h: "handle_check H ag raw sender now = (?ag4, Ok (Some \<lparr>co_pair = i,
       co_response = Some (encode_message (signed_then H ?pw ?resp [])), co_nominated = (get_attr msg 0x0025 \<noteq> None),
       co_role_flipped = loses_role ag msg, co_completed_our_check = None\<rparr>))"
    unfolding handle_check_def p(1) rust.case using mt hr by simp
  show thesis
    by (rule that [OF h]) (use i a r f(2) in \<open>auto simp: nominate_def\<close>)
qed

lemma evict_keeps_newest:
  "t \<notin> set order \<Longrightarrow> fst (evict_checks (sent(t \<mapsto> v)) (order @ [t])) t = Some v"
proof (induction order arbitrary: sent)
  case (Cons old order)
  then have "(sent(t \<mapsto> v))(old := None) = (sent(old := None))(t \<mapsto> v)" by (auto simp: fun_upd_twist)
  then show ?case using Cons.IH [of "sent(old := None)"] Cons.prems
    by (cases "length (old # order @ [t]) > MAX_TRACKED_CHECKS") (simp_all del: fun_upd_apply, simp)
qed (simp add: MAX_TRACKED_CHECKS_def)

lemma track_check_facts [simp]:
  "ia_pairs (track_check ag t i b now) = ia_pairs ag" "ia_role (track_check ag t i b now) = ia_role ag"
  "ia_nominated (track_check ag t i b now) = ia_nominated ag"
  "ia_local_credentials (track_check ag t i b now) = ia_local_credentials ag"
  "ia_remote_credentials (track_check ag t i b now) = ia_remote_credentials ag"
  "t \<notin> set (ia_check_order ag) \<Longrightarrow> ia_checks_sent (track_check ag t i b now) t = Some (i, b, now)"
  using evict_keeps_newest [of t "ia_check_order ag" "ia_checks_sent ag" "(i, b, now)"]
  by (simp_all add: track_check_def case_prod_unfold Let_def)

text \<open>The response to an outstanding check of the controlling agent measures it and nominates its pair.\<close>

lemma response_accepted:
  assumes "parse_message raw = Ok msg" and "msg_typ msg = message_type METHOD_BINDING SuccessResponse"
    and "ia_remote_credentials ag = Some creds" and "verify_integrity H raw (ic_password creds) = Ok ()"
    and "ia_checks_sent ag (msg_txid msg) = Some (i, b, sent_at)" and i: "i < length (ia_pairs ag)"
    and "ia_role ag = Controlling" and "ia_nominated ag = None"
  obtains ag' where "handle_check H ag raw sender now = (ag', Ok (Some \<lparr>co_pair = i, co_response = None,
       co_nominated = True, co_role_flipped = False, co_completed_our_check = Some (now - sent_at)\<rparr>))"
    and "state_of ag' = IceConnected"
    and "selected_pair ag' = Some ((ia_pairs ag ! i)\<lparr>cp_state := Succeeded, cp_nominated := True, cp_rtt := Some (now - sent_at)\<rparr>)"
proof -
  let ?ag1 = "ag\<lparr>ia_checks_sent := (ia_checks_sent ag)(msg_txid msg := None)\<rparr>"
  let ?ag2 = "upd_pair i (\<lambda>p. p\<lparr>cp_state := Succeeded\<rparr>) ?ag1"
  let ?ag3 = "upd_pair i (\<lambda>p. p\<lparr>cp_rtt := Some (now - sent_at)\<rparr>) ?ag2"
  have mt: "method_of (msg_typ msg) = METHOD_BINDING" "class_of (msg_typ msg) = SuccessResponse"
    using assms(2) message_type_method [of METHOD_BINDING] message_type_class by (simp_all add: METHOD_BINDING_def)
  have n: "nominate ?ag3 i = ((upd_pair i (\<lambda>p. p\<lparr>cp_nominated := True\<rparr>) ?ag3)\<lparr>ia_nominated := Some i\<rparr>, True)"
    using i by (simp add: nominate_def)
  have "handle_response H ag raw msg sender now = (fst (nominate ?ag3 i), Ok \<lparr>co_pair = i, co_response = None,
       co_nominated = True, co_role_flipped = False, co_completed_our_check = Some (now - sent_at)\<rparr>)"
    using assms i by (simp add: handle_response_def outgoing_key_def Let_def n)
  then have h: "handle_check H ag raw sender now = (fst (nominate ?ag3 i), Ok (Some \<lparr>co_pair = i, co_response = None,
       co_nominated = True, co_role_flipped = False, co_completed_our_check = Some (now - sent_at)\<rparr>))"
    unfolding handle_check_def assms(1) rust.case using mt by simp
  show thesis by (rule that [OF h]) (use i in \<open>simp_all add: n state_of_def selected_pair_def\<close>)
qed

lemma track_check_candidates [simp]:
  "ia_local_candidates (track_check ag t i b now) = ia_local_candidates ag"
  "ia_tie_breaker (track_check ag t i b now) = ia_tie_breaker ag"
  by (simp_all add: track_check_def case_prod_unfold Let_def)

lemma validated_ufrag: "validate_credentials cr = Ok () \<Longrightarrow> length (ic_ufrag cr) \<le> 256"
  by (auto simp: validate_credentials_def split: if_splits)

lemma built_check:
  assumes H: "hmac_sha1_law H" and t: "length t = 12" and i: "i < length (ia_pairs ag)"
    and rc: "ia_remote_credentials ag = Some creds" and "validate_credentials creds = Ok ()"
    and "validate_credentials (ia_local_credentials ag) = Ok ()"
  defines "u \<equiv> ic_ufrag creds @ ascii '':'' @ ic_ufrag (ia_local_credentials ag)"
  shows "build_check H ag i n t now
    = (track_check ag t i (cd_base (cp_local (ia_pairs ag ! i))) now,
       Ok (encode_message (signed_then H (ic_password creds) (check_message ag i n t u) [])))"
    and "length u \<le> 600"
proof -
  show u: "length u \<le> 600" using validated_ufrag [OF assms(5)] validated_ufrag [OF assms(6)] by (simp add: u_def ascii_def)
  note c = check_message_facts [OF t u, of ag i n]
  have "encode_with_integrity H (check_message ag i n t u) (ic_password creds)
      = Ok (encode_message (signed_then H (ic_password creds) (check_message ag i n t u) []))"
    using c t by (intro small_signed_message(1) [OF H, where extra = "[]"]) (simp_all add: plain_attributes_def)
  then show "build_check H ag i n t now
    = (track_check ag t i (cd_base (cp_local (ia_pairs ag ! i))) now,
       Ok (encode_message (signed_then H (ic_password creds) (check_message ag i n t u) [])))"
    using i rc by (simp add: build_check_def outgoing_key_def username_for_outgoing_def u_def)
qed

text \<open>
  C32. Two agents connect. A controlling agent with the peer's credentials sends a nominating check for
  any of its pairs, the controlled agent handles it, and the controlling agent handles the answer:
  then both are connected, the controlled one on a pair towards the address the check came from
  (learned as a peer-reflexive candidate if it was unknown), the controlling one on the pair it
  checked, with the time between sending and receiving as the pair's round-trip time.
\<close>

theorem two_agents_connect:
  assumes "hmac_sha1_law H" and "length t = 12" and "t \<notin> set (ia_check_order a)" and "addr_wf seen_from"
    and "ia_role a = Controlling" and "ia_role b = Controlled" and "ia_nominated a = None"
    and "ia_remote_credentials a = Some (ia_local_credentials b)"
    and "validate_credentials (ia_local_credentials a) = Ok ()" and "validate_credentials (ia_local_credentials b) = Ok ()"
    and "i < length (ia_pairs a)" and "ia_local_candidates b \<noteq> []"
  shows "\<exists>a1 req b1 j resp a2 pair_b.
      build_check H a i True t sent_at = (a1, Ok req)
    \<and> handle_check H b req seen_from now = (b1, Ok (Some \<lparr>co_pair = j, co_response = Some resp, co_nominated = True,
        co_role_flipped = False, co_completed_our_check = None\<rparr>))
    \<and> state_of b1 = IceConnected \<and> selected_pair b1 = Some pair_b \<and> cd_addr (cp_remote pair_b) = seen_from
    \<and> handle_check H a1 resp answered_from later = (a2, Ok (Some \<lparr>co_pair = i, co_response = None, co_nominated = True,
        co_role_flipped = False, co_completed_our_check = Some (later - sent_at)\<rparr>))
    \<and> state_of a2 = IceConnected
    \<and> selected_pair a2 = Some ((ia_pairs a ! i)\<lparr>cp_state := Succeeded, cp_nominated := True, cp_rtt := Some (later - sent_at)\<rparr>)"
proof -
  let ?pw = "ic_password (ia_local_credentials b)"
  let ?u = "ic_ufrag (ia_local_credentials b) @ ascii '':'' @ ic_ufrag (ia_local_credentials a)"
  let ?m = "check_message a i True t ?u"
  let ?msg = "signed_then H ?pw ?m []"
  let ?a1 = "track_check a t i (cd_base (cp_local (ia_pairs a ! i))) sent_at"
  note bc = built_check(1) [OF assms(1,2,11,8,10,9), where n = True and now = sent_at] built_check(2) [OF assms(1,2,11,8,10,9)]
  note c = check_message_facts [OF assms(2) bc(2), of a i True]
  have pl: "plain_attributes []" by (simp add: plain_attributes_def)
  have v: "verify_integrity H (encode_message ?msg) ?pw = Ok ()" "parse_message (encode_message ?msg) = Ok ?msg"
    using c assms(2) by (auto intro!: small_signed_message(2,3) [OF assms(1)] simp: pl)
  have g: "get_attr ?msg k = get_attr ?m k" if "k \<in> {0x0006, 0x0025, 0x802A, 0x8029}" for k
    using that by (intro get_signed_then) (auto simp: attr_kinds)
  have nl: "\<not> loses_role b ?msg" using g c(8) assms(5,6) by (simp add: loses_role_def Let_def)
  have ty: "msg_typ ?msg = message_type METHOD_BINDING Request" "length (msg_txid ?msg) = 12"
    "get_attr ?msg 0x0006 = Some (Username ?u)" using c assms(2) g by simp_all
  obtain b1 j where b1: "handle_check H b (encode_message ?msg) seen_from now = (b1, Ok (Some \<lparr>co_pair = j,
       co_response = Some (encode_message (signed_then H ?pw (push_attr (binding_success (msg_txid ?msg) seen_from) (Username ?u)) [])),
       co_nominated = (get_attr ?msg 0x0025 \<noteq> None), co_role_flipped = loses_role b ?msg, co_completed_our_check = None\<rparr>))"
    and j: "j < length (ia_pairs b1)" "cp_state (ia_pairs b1 ! j) = Succeeded"
      "cd_addr (cp_remote (ia_pairs b1 ! j)) = seen_from"
    and nom: "get_attr ?msg 0x0025 \<noteq> None \<Longrightarrow> ia_nominated b1 = Some j"
    by (rule request_accepted [OF assms(1) v(1) v(2) ty bc(2) assms(12,4)]) (rule that)
  have uc: "get_attr ?msg 0x0025 = Some UseCandidate" using g c(6) assms(5) by simp
  let ?r = "push_attr (binding_success t seen_from) (Username ?u)"
  note f = binding_success_facts [OF assms(2,4) bc(2)]
  have w: "verify_integrity H (encode_message (signed_then H ?pw ?r [])) ?pw = Ok ()"
    "parse_message (encode_message (signed_then H ?pw ?r [])) = Ok (signed_then H ?pw ?r [])"
    using f assms(2) by (auto intro!: small_signed_message(2,3) [OF assms(1)] simp: pl)
  have ta: "msg_typ (signed_then H ?pw ?r []) = message_type METHOD_BINDING SuccessResponse"
    "ia_remote_credentials ?a1 = Some (ia_local_credentials b)"
    "ia_checks_sent ?a1 (msg_txid (signed_then H ?pw ?r [])) = Some (i, cd_base (cp_local (ia_pairs a ! i)), sent_at)"
    "i < length (ia_pairs ?a1)" "ia_role ?a1 = Controlling" "ia_nominated ?a1 = None"
    using f(1,2) assms(3,5,7,8,11) by simp_all
  obtain a2 where a2: "handle_check H ?a1 (encode_message (signed_then H ?pw ?r [])) answered_from later
      = (a2, Ok (Some \<lparr>co_pair = i, co_response = None, co_nominated = True, co_role_flipped = False,
          co_completed_our_check = Some (later - sent_at)\<rparr>))"
    and sel: "state_of a2 = IceConnected"
      "selected_pair a2 = Some ((ia_pairs ?a1 ! i)\<lparr>cp_state := Succeeded, cp_nominated := True, cp_rtt := Some (later - sent_at)\<rparr>)"
    by (rule response_accepted [OF w(2) ta(1,2) w(1) ta(3-6)]) (rule that)
  have "selected_pair b1 = Some (ia_pairs b1 ! j)" "state_of b1 = IceConnected"
    using nom uc j by (simp_all add: selected_pair_def state_of_def)
  then show ?thesis using bc(1) b1 nl uc c(1) j(3) a2 sel by simp
qed

text \<open>What an agent makes of a check built by its peer, whatever plain attributes were appended to it.\<close>

lemma peer_check_accepted:
  fixes H :: stun_crates and ag peer :: ice_agent and i :: nat and n :: bool and t :: bytes
  assumes H: "hmac_sha1_law H" and t: "length t = 12" and wf: "addr_wf sender"
    and lc: "ia_local_candidates ag \<noteq> []" and u: "length u \<le> 600"
    and ex: "plain_attributes extra" "length (body_bytes t extra) \<le> 700"
  defines "raw \<equiv> encode_message (signed_then H (ic_password (ia_local_credentials ag)) (check_message peer i n t u) extra)"
    and "msg \<equiv> signed_then H (ic_password (ia_local_credentials ag)) (check_message peer i n t u) extra"
  obtains ag' k resp where "handle_check H ag raw sender now = (ag', Ok (Some \<lparr>co_pair = k, co_response = Some resp,
       co_nominated = (get_attr msg 0x0025 \<noteq> None), co_role_flipped = loses_role ag msg, co_completed_our_check = None\<rparr>))"
    and "get_attr msg 0x0025 \<noteq> None \<Longrightarrow> state_of ag' = IceConnected \<and> selected_pair ag' = Some (ia_pairs ag' ! k)"
    and "cd_addr (cp_remote (ia_pairs ag' ! k)) = sender"
    and "ia_role ag' = (if loses_role ag msg then other_role (ia_role ag) else ia_role ag)"
proof -
  let ?m = "check_message peer i n t u"
  note c = check_message_facts [OF t u, of peer i n]
  have v: "verify_integrity H raw (ic_password (ia_local_credentials ag)) = Ok ()" "parse_message raw = Ok msg"
    unfolding raw_def msg_def using c t ex by (auto intro!: small_signed_message(2,3) [OF H])
  have g6: "get_attr msg 0x0006 = Some (Username u)"
    using c(5) by (auto simp: msg_def signed_then_def Let_def get_attr_def find_append)
  have ty: "msg_typ msg = message_type METHOD_BINDING Request" "length (msg_txid msg) = 12"
    using c(1,2) t by (simp_all add: msg_def)
  obtain ag' k where a: "handle_check H ag raw sender now = (ag', Ok (Some \<lparr>co_pair = k,
       co_response = Some (encode_message (signed_then H (ic_password (ia_local_credentials ag))
         (push_attr (binding_success (msg_txid msg) sender) (Username u)) [])),
       co_nominated = (get_attr msg 0x0025 \<noteq> None), co_role_flipped = loses_role ag msg, co_completed_our_check = None\<rparr>))"
    and k: "k < length (ia_pairs ag')" "cp_state (ia_pairs ag' ! k) = Succeeded" "cd_addr (cp_remote (ia_pairs ag' ! k)) = sender"
    and nom: "get_attr msg 0x0025 \<noteq> None \<Longrightarrow> ia_nominated ag' = Some k"
    and r: "ia_role ag' = (if loses_role ag msg then other_role (ia_role ag) else ia_role ag)"
    by (rule request_accepted [OF H v ty g6 u lc wf]) (rule that)
  show thesis
    by (rule that [OF a _ k(3) r]) (use nom k in \<open>simp add: state_of_def selected_pair_def\<close>)
qed

text \<open>
  C35. Role conflicts resolve. Two agents that claim the same role with different tie-breakers send each
  other a check and handle the one they receive: exactly the agent with the smaller tie-breaker changes
  its role, so that afterwards one controls and the other is controlled.
\<close>

theorem role_conflict_resolves:
  assumes "hmac_sha1_law H" and "length t = 12" and "length t' = 12" and "addr_wf addr_a" and "addr_wf addr_b"
    and "ia_role a = ia_role b" and "ia_tie_breaker a \<noteq> ia_tie_breaker b"
    and "ia_remote_credentials a = Some (ia_local_credentials b)" and "ia_remote_credentials b = Some (ia_local_credentials a)"
    and "validate_credentials (ia_local_credentials a) = Ok ()" and "validate_credentials (ia_local_credentials b) = Ok ()"
    and "i < length (ia_pairs a)" and "j < length (ia_pairs b)"
    and "ia_local_candidates a \<noteq> []" and "ia_local_candidates b \<noteq> []"
  shows "\<exists>a1 req_a b1 req_b a2 oa b2 ob.
      build_check H a i n t now = (a1, Ok req_a) \<and> build_check H b j n' t' now' = (b1, Ok req_b)
    \<and> handle_check H a1 req_b addr_b later = (a2, Ok (Some oa)) \<and> handle_check H b1 req_a addr_a later' = (b2, Ok (Some ob))
    \<and> co_role_flipped oa = (ia_tie_breaker a < ia_tie_breaker b) \<and> co_role_flipped ob = (ia_tie_breaker b < ia_tie_breaker a)
    \<and> ia_role a2 = other_role (ia_role b2)"
proof -
  let ?ua = "ic_ufrag (ia_local_credentials b) @ ascii '':'' @ ic_ufrag (ia_local_credentials a)"
  let ?ub = "ic_ufrag (ia_local_credentials a) @ ascii '':'' @ ic_ufrag (ia_local_credentials b)"
  let ?a1 = "track_check a t i (cd_base (cp_local (ia_pairs a ! i))) now"
  let ?b1 = "track_check b t' j (cd_base (cp_local (ia_pairs b ! j))) now'"
  let ?ma = "signed_then H (ic_password (ia_local_credentials b)) (check_message a i n t ?ua) []"
  let ?mb = "signed_then H (ic_password (ia_local_credentials a)) (check_message b j n' t' ?ub) []"
  note ba = built_check(1) [OF assms(1,2,12,8,11,10), where n = n and now = now] built_check(2) [OF assms(1,2,12,8,11,10)]
  note bb = built_check(1) [OF assms(1,3,13,9,10,11), where n = n' and now = now'] built_check(2) [OF assms(1,3,13,9,10,11)]
  have ex: "plain_attributes []" "length (body_bytes s []) \<le> 700" for s by (simp_all add: plain_attributes_def)
  have g: "get_attr (signed_then H key m []) k = get_attr m k" if "k \<in> {0x802A, 0x8029}" for key m k
    using that by (intro get_signed_then) (auto simp: attr_kinds)
  note ca = check_message_facts(7,8) [OF assms(2) ba(2), of a i n]
  note cb = check_message_facts(7,8) [OF assms(3) bb(2), of b j n']
  have la: "loses_role ?a1 ?mb = (ia_tie_breaker a < ia_tie_breaker b)"
    using g cb assms(6) by (cases "ia_role b") (simp_all add: loses_role_def Let_def)
  have lb: "loses_role ?b1 ?ma = (ia_tie_breaker b < ia_tie_breaker a)"
    using g ca assms(6) by (cases "ia_role b") (simp_all add: loses_role_def Let_def)
  have na: "ia_local_candidates ?a1 \<noteq> []" "ia_local_candidates ?b1 \<noteq> []" using assms(14,15) by simp_all
  obtain a2 oa where a2: "handle_check H ?a1 (encode_message ?mb) addr_b later = (a2, Ok (Some oa))"
    "co_role_flipped oa = loses_role ?a1 ?mb" "ia_role a2 = (if loses_role ?a1 ?mb then other_role (ia_role a) else ia_role a)"
    by (rule peer_check_accepted [OF assms(1,3,5) na(1) bb(2) ex(1) ex(2), where peer = b and i = j and n = n' and now = later])
      simp
  obtain b2 ob where b2: "handle_check H ?b1 (encode_message ?ma) addr_a later' = (b2, Ok (Some ob))"
    "co_role_flipped ob = loses_role ?b1 ?ma" "ia_role b2 = (if loses_role ?b1 ?ma then other_role (ia_role b) else ia_role b)"
    by (rule peer_check_accepted [OF assms(1,2,4) na(2) ba(2) ex(1) ex(2), where peer = a and i = i and n = n and now = later'])
      simp
  have "ia_role a2 = other_role (ia_role b2)"
    using a2(3) b2(3) la lb assms(6,7) by (cases "ia_role b") (auto simp: not_less)
  then show ?thesis using ba(1) bb(1) a2(1,2) b2(1,2) la lb by blast
qed

text \<open>
  C37. An outsider can nominate. A check that the controlling agent sent without USE-CANDIDATE, to which
  somebody without any key appends that attribute, and which arrives from an address of his
  choice, is accepted: the controlled agent is then connected on a pair towards that address.
\<close>

theorem injected_nomination_is_accepted:
  assumes "hmac_sha1_law H" and "length t = 12" and "addr_wf attacker"
    and "ia_remote_credentials a = Some (ia_local_credentials b)"
    and "validate_credentials (ia_local_credentials a) = Ok ()" and "validate_credentials (ia_local_credentials b) = Ok ()"
    and "i < length (ia_pairs a)" and "ia_local_candidates b \<noteq> []"
  shows "\<exists>a1 req b1 oc pair_b.
      build_check H a i False t now = (a1, Ok req)
    \<and> handle_check H b (append_attributes t req [UseCandidate]) attacker later = (b1, Ok (Some oc))
    \<and> co_nominated oc \<and> state_of b1 = IceConnected \<and> selected_pair b1 = Some pair_b \<and> cd_addr (cp_remote pair_b) = attacker"
proof -
  let ?pw = "ic_password (ia_local_credentials b)"
  let ?u = "ic_ufrag (ia_local_credentials b) @ ascii '':'' @ ic_ufrag (ia_local_credentials a)"
  let ?m = "check_message a i False t ?u"
  let ?s = "signed_then H ?pw ?m [UseCandidate]"
  note bc = built_check(1) [OF assms(1,2,7,4,6,5), where n = False and now = now] built_check(2) [OF assms(1,2,7,4,6,5)]
  note c = check_message_facts [OF assms(2) bc(2), of a i False]
  have ex: "plain_attributes [UseCandidate]" "length (body_bytes t [UseCandidate]) \<le> 700"
    by (simp_all add: plain_attributes_def length_tlv padded_def)
  have "get_attr ?s 0x0025 = Some UseCandidate"
    using c(6) by (simp add: signed_then_def Let_def get_attr_def find_append attr_kinds)
  moreover have "append_attributes t (encode_message (signed_then H ?pw ?m [])) [UseCandidate] = encode_message ?s"
    using append_attributes_signed [OF assms(1), of ?m ?pw "[UseCandidate]"] c(1) assms(2) by simp
  moreover obtain b1 k resp where "handle_check H b (encode_message ?s) attacker later = (b1, Ok (Some \<lparr>co_pair = k,
       co_response = Some resp, co_nominated = (get_attr ?s 0x0025 \<noteq> None), co_role_flipped = loses_role b ?s,
       co_completed_our_check = None\<rparr>))"
    "get_attr ?s 0x0025 \<noteq> None \<Longrightarrow> state_of b1 = IceConnected \<and> selected_pair b1 = Some (ia_pairs b1 ! k)"
    "cd_addr (cp_remote (ia_pairs b1 ! k)) = attacker"
    by (rule peer_check_accepted [OF assms(1-3,8) bc(2) ex, where peer = a and i = i and n = False and now = later]) (rule that)
  ultimately show ?thesis using bc(1) by auto
qed

section \<open>Witnesses\<close>

definition demo_creds :: "u8 \<Rightarrow> ice_credentials" where
  "demo_creds x = \<lparr>ic_ufrag = replicate 4 x, ic_password = replicate 22 x\<rparr>"

definition demo_candidate :: candidate where
  "demo_candidate = \<lparr>cd_foundation = [49], cd_component = DEFAULT_COMPONENT, cd_ctype = HostC, cd_priority = 7,
     cd_base = demo_addr, cd_addr = demo_addr\<rparr>"

definition demo_ice :: "ice_role \<Rightarrow> u64 \<Rightarrow> u8 \<Rightarrow> u8 \<Rightarrow> nat \<Rightarrow> ice_agent" where
  "demo_ice role tie x y n =
     form_pairs ((set_remote_credentials (push_local (agent_new role tie (demo_creds x)) demo_candidate) (demo_creds y))
       \<lparr>ia_remote_candidates := replicate n demo_candidate\<rparr>)"

lemma demo_creds_ok [simp]: "validate_credentials (demo_creds x) = Ok ()"
  by (simp add: validate_credentials_def demo_creds_def)

lemma demo_ice_facts [simp]:
  "ia_role (demo_ice role tie x y n) = role" "ia_tie_breaker (demo_ice role tie x y n) = tie"
  "ia_local_credentials (demo_ice role tie x y n) = demo_creds x" "ia_remote_credentials (demo_ice role tie x y n) = Some (demo_creds y)"
  "ia_local_candidates (demo_ice role tie x y n) = [demo_candidate]" "ia_check_order (demo_ice role tie x y n) = []"
  "ia_nominated (demo_ice role tie x y n) = None"
  by (simp_all add: demo_ice_def form_pairs_def set_remote_credentials_def push_local_def agent_new_def)

lemma length_sort_pairs [simp]: "length (sort_pairs ps) = length ps"
  using arg_cong [OF mset_sort_pairs, of size] by simp

lemma demo_ice_pairs [simp]: "length (ia_pairs (demo_ice role tie x y n)) = n"
  by (simp add: demo_ice_def form_pairs_def set_remote_credentials_def push_local_def agent_new_def candidate_pairs_def)

lemma demo_again_pairs [simp]: "length (ia_pairs (form_pairs (demo_ice role tie x y n))) = n"
  by (simp add: demo_ice_def form_pairs_def set_remote_credentials_def push_local_def agent_new_def candidate_pairs_def)

lemma demo_frozen [simp]: "cp_state (ia_pairs (demo_ice role tie x y 2) ! Suc 0) = Frozen"
  by (simp add: demo_ice_def form_pairs_def set_remote_credentials_def push_local_def agent_new_def candidate_pairs_def
      numeral_2_eq_2 sort_pairs_def pair_key_def)

lemma demo_reach: "agent_reach H (fst (build_check H (form_pairs (push_local (agent_new Controlling 1 (demo_creds 2)) demo_candidate)) 0 n t now))"
  by (intro agent_reach.intros)

theorem check_list_is_ordered_witness:
  "by_priority (ia_pairs (form_pairs (demo_ice Controlling 5 1 2 2)))
    \<and> cp_state (ia_pairs (form_pairs (demo_ice Controlling 5 1 2 2)) ! 0) = Waiting"
  using check_list_is_ordered [of "demo_ice Controlling 5 1 2 2"] by simp

theorem frozen_pairs_are_never_checked_witness:
  "snd (next_check (foldl list_step (demo_ice Controlling 5 1 2 2) [NextCheck, GiveUp 0, NextCheck])) \<noteq> Some 1
    \<and> state_of (foldl list_step (demo_ice Controlling 5 1 2 2) [NextCheck, GiveUp 0, NextCheck]) \<noteq> IceFailed"
  using frozen_pairs_are_never_checked [of 1 "demo_ice Controlling 5 1 2 2" "[NextCheck, GiveUp 0, NextCheck]"]
  by (simp del: foldl_Cons list_step.simps)

theorem ice_checks_are_authenticated_witness:
  "\<exists>raw ag' r msg. handle_check demo_stun (demo_ice Controlled 6 2 1 0) raw demo_addr 11 = (ag', r)
    \<and> ag' \<noteq> demo_ice Controlled 6 2 1 0 \<and> parse_message raw = Ok msg
    \<and> (verify_integrity demo_stun raw (ic_password (demo_creds 2)) = Ok () \<or> verify_integrity demo_stun raw (ic_password (demo_creds 1)) = Ok ())"
proof -
  let ?b = "demo_ice Controlled 6 2 1 0"
  have p: "ia_local_candidates ?b \<noteq> []" "length (zeros 12) = 12" "length ([] :: bytes) \<le> 600" "plain_attributes [UseCandidate]"
    "length (body_bytes (zeros 12) [UseCandidate]) \<le> 700"
    by (simp_all add: plain_attributes_def length_tlv padded_def)
  let ?m = "signed_then demo_stun (ic_password (ia_local_credentials ?b)) (check_message ?b 0 False (zeros 12) []) [UseCandidate]"
  obtain ag' k resp where h: "handle_check demo_stun ?b (encode_message ?m) demo_addr 11 = (ag', Ok (Some \<lparr>co_pair = k,
       co_response = Some resp, co_nominated = (get_attr ?m 0x0025 \<noteq> None), co_role_flipped = loses_role ?b ?m,
       co_completed_our_check = None\<rparr>))"
    and s: "get_attr ?m 0x0025 \<noteq> None \<Longrightarrow> state_of ag' = IceConnected \<and> selected_pair ag' = Some (ia_pairs ag' ! k)"
    by (rule peer_check_accepted [OF demo_stun_law p(2) demo_addr_wf p(1,3,4,5), where peer = ?b and i = 0 and n = False and now = 11])
      (rule that)
  have "get_attr ?m 0x0025 \<noteq> None"
    by (simp add: signed_then_def Let_def get_attr_def find_append attr_kinds split: option.split)
  then have ne: "ag' \<noteq> ?b" using s by (auto simp: state_of_def split: if_splits)
  show ?thesis using ice_checks_are_authenticated [OF h ne] h ne by auto
qed

theorem reachable_agents_are_consistent_witness:
  "length (ia_check_order (fst (build_check demo_stun (form_pairs (push_local (agent_new Controlling 1 (demo_creds 2)) demo_candidate))
     0 True (zeros 12) 9))) \<le> MAX_TRACKED_CHECKS"
  using reachable_agents_are_consistent [OF demo_reach [of demo_stun True "zeros 12" 9]] by simp

theorem two_agents_connect_witness:
  "\<exists>a1 req b1 oc. build_check demo_stun (demo_ice Controlling 5 1 2 1) 0 True (zeros 12) 10 = (a1, Ok req)
    \<and> handle_check demo_stun (demo_ice Controlled 6 2 1 0) req demo_addr 11 = (b1, Ok (Some oc)) \<and> state_of b1 = IceConnected"
  using two_agents_connect [where a = "demo_ice Controlling 5 1 2 1" and b = "demo_ice Controlled 6 2 1 0"
      and t = "zeros 12" and i = 0 and H = demo_stun and seen_from = demo_addr and sent_at = 10 and now = 11]
    demo_stun_law demo_addr_wf by simp blast

theorem role_conflict_resolves_witness:
  "\<exists>a1 req_a b1 req_b a2 oa b2 ob.
      build_check demo_stun (demo_ice Controlling 5 1 2 1) 0 True (zeros 12) 10 = (a1, Ok req_a)
    \<and> build_check demo_stun (demo_ice Controlling 6 2 1 1) 0 False (zeros 12) 10 = (b1, Ok req_b)
    \<and> handle_check demo_stun a1 req_b demo_addr 12 = (a2, Ok (Some oa)) \<and> handle_check demo_stun b1 req_a demo_addr 12 = (b2, Ok (Some ob))
    \<and> co_role_flipped oa \<and> \<not> co_role_flipped ob \<and> ia_role a2 = other_role (ia_role b2)"
  using role_conflict_resolves [where a = "demo_ice Controlling 5 1 2 1" and b = "demo_ice Controlling 6 2 1 1"
      and t = "zeros 12" and t' = "zeros 12" and i = 0 and j = 0 and H = demo_stun and addr_a = demo_addr and addr_b = demo_addr
      and n = True and n' = False and now = 10 and now' = 10 and later = 12 and later' = 12]
    demo_stun_law demo_addr_wf by simp

theorem injected_nomination_is_accepted_witness:
  "\<exists>a1 req b1 oc. build_check demo_stun (demo_ice Controlling 5 1 2 1) 0 False (zeros 12) 10 = (a1, Ok req)
    \<and> handle_check demo_stun (demo_ice Controlled 6 2 1 0) (append_attributes (zeros 12) req [UseCandidate]) demo_addr 11
        = (b1, Ok (Some oc)) \<and> co_nominated oc \<and> state_of b1 = IceConnected"
  using injected_nomination_is_accepted [where a = "demo_ice Controlling 5 1 2 1" and b = "demo_ice Controlled 6 2 1 0"
      and t = "zeros 12" and i = 0 and H = demo_stun and attacker = demo_addr and now = 10 and later = 11]
    demo_stun_law demo_addr_wf by simp blast

end
