(* ===== verification/Vpn.thy ===== *)
theory Vpn
  imports L6_Session Crates "HOL-Library.AList"
begin

unbundle bit_operations_syntax

text \<open>
  The road-warrior VPN, src/src/ghost/net/vpn/mod.rs and client.rs: overlay leases and the re-anchor
  ladder, the bounded table of UDP flows, tunnel datagrams with their replay windows, and the
  client's sealing, opening and watchdog. Hash maps that the code iterates over are association
  lists in some order; the others are maps. \<open>Instant::now()\<close> is the argument \<open>now\<close>. A UDP socket is
  represented by its local port, and what binding it returns is an argument.
\<close>

section \<open>Leases\<close>

type_synonym ipv4 = "u8 \<times> u8 \<times> u8 \<times> u8"

definition OVERLAY_PREFIX :: u8 where "OVERLAY_PREFIX = 10"
definition OVERLAY_SECOND_OCTET :: u8 where "OVERLAY_SECOND_OCTET = 66"
definition OVERLAY_HUB_HOST :: u8 where "OVERLAY_HUB_HOST = 1"
definition OVERLAY_FIRST_CLIENT_HOST :: u8 where "OVERLAY_FIRST_CLIENT_HOST = 10"
definition OVERLAY_LAST_CLIENT_HOST :: u8 where "OVERLAY_LAST_CLIENT_HOST = 254"
definition SILENCE_REANCHOR :: duration where "SILENCE_REANCHOR = secs 15"
definition DEFAULT_EPOCH_TTL :: duration where "DEFAULT_EPOCH_TTL = secs (15 + 60)"

lemmas overlay_consts = OVERLAY_PREFIX_def OVERLAY_SECOND_OCTET_def OVERLAY_HUB_HOST_def
  OVERLAY_FIRST_CLIENT_HOST_def OVERLAY_LAST_CLIENT_HOST_def

record lease =
  ls_fingerprint :: bytes
  ls_overlay_ip :: ipv4
  ls_endpoint :: sock_addr
  ls_epoch :: u32
  ls_last_seen :: instant
  ls_tunnel_v_max :: u32
  ls_epoch_ttl :: instant

datatype anchor_event = HandshakeRotation | WindowAdvance | SilenceFallback | NoChange

record lease_table =
  lt_by_fp :: "(bytes \<times> lease) list"
  lt_by_ip :: "ipv4 \<rightharpoonup> bytes"
  lt_next_host :: u8

definition lease_table_new :: lease_table where
  "lease_table_new = \<lparr>lt_by_fp = [], lt_by_ip = Map.empty, lt_next_host = OVERLAY_FIRST_CLIENT_HOST\<rparr>"

definition unspecified_addr :: sock_addr where
  "unspecified_addr = \<lparr>sa_ip = V4 0 0 0 0, sa_port = 0\<rparr>"

definition fresh_lease :: "bytes \<Rightarrow> ipv4 \<Rightarrow> instant \<Rightarrow> lease" where
  "fresh_lease fp ip now =
     \<lparr>ls_fingerprint = fp, ls_overlay_ip = ip, ls_endpoint = unspecified_addr, ls_epoch = 0, ls_last_seen = now,
      ls_tunnel_v_max = 0, ls_epoch_ttl = now + DEFAULT_EPOCH_TTL\<rparr>"

definition host_of :: "ipv4 \<Rightarrow> u8" where "host_of ip = (case ip of (a, b, c, d) \<Rightarrow> d)"

definition overlay_addr :: "u8 \<Rightarrow> ipv4" where
  "overlay_addr host = (OVERLAY_PREFIX, OVERLAY_SECOND_OCTET, 0, host)"

text \<open>The allocation loop, with the number of turns left.\<close>

fun find_host :: "u8 set \<Rightarrow> nat \<Rightarrow> u8 \<Rightarrow> u8 option" where
  "find_host used 0 host = None"
| "find_host used (Suc n) host =
     (let host = (if host > OVERLAY_LAST_CLIENT_HOST then OVERLAY_FIRST_CLIENT_HOST else host)
      in if host \<notin> used then Some host else find_host used n (host + 1))"

definition lease_for :: "lease_table \<Rightarrow> bytes \<Rightarrow> instant \<Rightarrow> lease_table \<times> ipv4 option" where
  "lease_for lt fp now =
     (case map_of (lt_by_fp lt) fp of
        Some l \<Rightarrow> (lt, Some (ls_overlay_ip l))
      | None \<Rightarrow>
          (let used = (\<lambda>(f, l). host_of (ls_overlay_ip l)) ` set (lt_by_fp lt)
           in case find_host used (unat (OVERLAY_LAST_CLIENT_HOST - OVERLAY_FIRST_CLIENT_HOST) + 1) (lt_next_host lt) of
                None \<Rightarrow> (lt, None)
              | Some host \<Rightarrow>
                  (lt\<lparr>lt_next_host := host + 1, lt_by_ip := (lt_by_ip lt)(overlay_addr host \<mapsto> fp),
                      lt_by_fp := AList.update fp (fresh_lease fp (overlay_addr host) now) (lt_by_fp lt)\<rparr>,
                   Some (overlay_addr host))))"

definition is_valid_overlay :: "ipv4 \<Rightarrow> bool" where
  "is_valid_overlay ip = (case ip of (a, b, c, d) \<Rightarrow>
     a = OVERLAY_PREFIX \<and> b = OVERLAY_SECOND_OCTET \<and> c = 0
     \<and> d \<ge> OVERLAY_FIRST_CLIENT_HOST \<and> d \<le> OVERLAY_LAST_CLIENT_HOST)"

definition auto_lease :: "lease_table \<Rightarrow> bytes \<Rightarrow> instant \<Rightarrow> lease_table \<times> ipv4 \<times> bool" where
  "auto_lease lt fp now =
     (case lease_for lt fp now of (lt', ip) \<Rightarrow> (lt', (case ip of Some i \<Rightarrow> i | None \<Rightarrow> (0, 0, 0, 0)), False))"

definition lease_for_hint :: "lease_table \<Rightarrow> bytes \<Rightarrow> ipv4 option \<Rightarrow> instant \<Rightarrow> lease_table \<times> ipv4 \<times> bool" where
  "lease_for_hint lt fp hint now =
     (case hint of
        None \<Rightarrow> auto_lease lt fp now
      | Some h \<Rightarrow>
          (if \<not> is_valid_overlay h then auto_lease lt fp now
           else if (case map_of (lt_by_fp lt) fp of Some l \<Rightarrow> ls_overlay_ip l = h | None \<Rightarrow> False) then (lt, h, False)
           else if \<exists>(f, l) \<in> set (lt_by_fp lt). ls_overlay_ip l = h \<and> ls_fingerprint l \<noteq> fp then auto_lease lt fp now
           else case map_of (lt_by_fp lt) fp of
                  Some l \<Rightarrow>
                    (lt\<lparr>lt_by_ip := ((lt_by_ip lt)(ls_overlay_ip l := None))(h \<mapsto> fp),
                        lt_by_fp := AList.update fp (l\<lparr>ls_overlay_ip := h\<rparr>) (lt_by_fp lt)\<rparr>, h, True)
                | None \<Rightarrow>
                    (lt\<lparr>lt_by_ip := (lt_by_ip lt)(h \<mapsto> fp),
                        lt_by_fp := AList.update fp (fresh_lease fp h now) (lt_by_fp lt),
                        lt_next_host := (if host_of h + 1 > OVERLAY_FIRST_CLIENT_HOST
                                         then max (lt_next_host lt) (host_of h + 1) else lt_next_host lt)\<rparr>, h, False)))"

text \<open>\<open>get_mut\<close> on one lease.\<close>

definition upd_lease :: "bytes \<Rightarrow> (lease \<Rightarrow> lease) \<Rightarrow> lease_table \<Rightarrow> lease_table" where
  "upd_lease fp f lt =
     (case map_of (lt_by_fp lt) fp of
        None \<Rightarrow> lt
      | Some l \<Rightarrow> lt\<lparr>lt_by_fp := AList.update fp (f l) (lt_by_fp lt)\<rparr>)"

definition lt_rotate_epoch_with_ttl ::
  "lease_table \<Rightarrow> bytes \<Rightarrow> sock_addr \<Rightarrow> duration \<Rightarrow> instant \<Rightarrow> lease_table \<times> anchor_event option" where
  "lt_rotate_epoch_with_ttl lt fp endpoint ttl now =
     (if map_of (lt_by_fp lt) fp = None then (lt, None)
      else (upd_lease fp (\<lambda>l. l\<lparr>ls_epoch := ls_epoch l + 1, ls_tunnel_v_max := 0, ls_endpoint := endpoint,
              ls_last_seen := now, ls_epoch_ttl := now + ttl\<rparr>) lt, Some HandshakeRotation))"

definition lt_rotate_epoch :: "lease_table \<Rightarrow> bytes \<Rightarrow> sock_addr \<Rightarrow> instant \<Rightarrow> lease_table \<times> anchor_event option" where
  "lt_rotate_epoch lt fp endpoint now = lt_rotate_epoch_with_ttl lt fp endpoint DEFAULT_EPOCH_TTL now"

definition adopt_epoch_with_ttl ::
  "lease_table \<Rightarrow> bytes \<Rightarrow> u32 \<Rightarrow> sock_addr \<Rightarrow> duration \<Rightarrow> instant \<Rightarrow> lease_table \<times> bool" where
  "adopt_epoch_with_ttl lt fp epoch endpoint ttl now =
     (if map_of (lt_by_fp lt) fp = None then (lt, False)
      else (upd_lease fp (\<lambda>l. l\<lparr>ls_epoch := epoch, ls_tunnel_v_max := 0, ls_endpoint := endpoint,
              ls_last_seen := now, ls_epoch_ttl := now + ttl\<rparr>) lt, True))"

definition adopt_epoch :: "lease_table \<Rightarrow> bytes \<Rightarrow> u32 \<Rightarrow> sock_addr \<Rightarrow> instant \<Rightarrow> lease_table \<times> bool" where
  "adopt_epoch lt fp epoch endpoint now = adopt_epoch_with_ttl lt fp epoch endpoint DEFAULT_EPOCH_TTL now"

definition is_epoch_expired :: "lease_table \<Rightarrow> bytes \<Rightarrow> instant \<Rightarrow> bool" where
  "is_epoch_expired lt fp now = (case map_of (lt_by_fp lt) fp of Some l \<Rightarrow> now \<ge> ls_epoch_ttl l | None \<Rightarrow> True)"

definition expire_epoch_now :: "lease_table \<Rightarrow> bytes \<Rightarrow> instant \<Rightarrow> lease_table \<times> bool" where
  "expire_epoch_now lt fp now =
     (if map_of (lt_by_fp lt) fp = None then (lt, False)
      else (upd_lease fp (\<lambda>l. l\<lparr>ls_epoch_ttl := now - secs 1, ls_tunnel_v_max := - 1\<rparr>) lt, True))"

definition epoch_of :: "lease_table \<Rightarrow> bytes \<Rightarrow> u32 option" where
  "epoch_of lt fp = map_option ls_epoch (map_of (lt_by_fp lt) fp)"

text \<open>The re-anchor ladder on one lease, then on the table.\<close>

definition anchor_lease :: "lease \<Rightarrow> u32 \<Rightarrow> u32 \<Rightarrow> sock_addr \<Rightarrow> instant \<Rightarrow> lease \<times> bool \<times> anchor_event" where
  "anchor_lease l epoch ctr sender now =
     (if ls_epoch l \<noteq> epoch then (l, False, NoChange)
      else if now \<ge> ls_epoch_ttl l then (l\<lparr>ls_tunnel_v_max := - 1\<rparr>, False, NoChange)
      else
        (let advanced = ctr > ls_tunnel_v_max l;
             l1 = (if advanced then l\<lparr>ls_tunnel_v_max := ctr\<rparr> else l)
         in if ls_endpoint l \<noteq> sender then
              (if advanced then (l1\<lparr>ls_endpoint := sender, ls_last_seen := now\<rparr>, True, WindowAdvance)
               else if now - ls_last_seen l \<ge> SILENCE_REANCHOR
                    then (l1\<lparr>ls_endpoint := sender, ls_last_seen := now\<rparr>, True, SilenceFallback)
               else (l1, True, NoChange))
            else (l1\<lparr>ls_last_seen := now\<rparr>, True, if advanced then WindowAdvance else NoChange)))"

definition observe_tunnel_packet ::
  "lease_table \<Rightarrow> bytes \<Rightarrow> u32 \<Rightarrow> u32 \<Rightarrow> sock_addr \<Rightarrow> instant \<Rightarrow> lease_table \<times> bool \<times> anchor_event" where
  "observe_tunnel_packet lt fp epoch ctr sender now =
     (case map_of (lt_by_fp lt) fp of
        None \<Rightarrow> (lt, False, NoChange)
      | Some l \<Rightarrow>
          (case anchor_lease l epoch ctr sender now of
             (l', ok, ev) \<Rightarrow> (lt\<lparr>lt_by_fp := AList.update fp l' (lt_by_fp lt)\<rparr>, ok, ev)))"

definition fingerprint_for_ip :: "lease_table \<Rightarrow> ipv4 \<Rightarrow> bytes option" where
  "fingerprint_for_ip lt ip =
     (case lt_by_ip lt ip of
        Some fp \<Rightarrow> Some fp
      | None \<Rightarrow>
          (case find (\<lambda>(fp, l). ls_overlay_ip l = ip) (lt_by_fp lt) of
             Some (fp, l) \<Rightarrow> Some fp
           | None \<Rightarrow>
               (case (lt_by_fp lt, ip) of
                  ([(fp, l)], (a, b, c, d)) \<Rightarrow>
                    (if a = OVERLAY_PREFIX \<and> b = OVERLAY_SECOND_OCTET \<and> c = 0 then Some fp else None)
                | _ \<Rightarrow> None)))"

definition endpoint_for_ip :: "lease_table \<Rightarrow> ipv4 \<Rightarrow> sock_addr option" where
  "endpoint_for_ip lt ip =
     (case fingerprint_for_ip lt ip of
        None \<Rightarrow> None
      | Some fp \<Rightarrow>
          (case map_of (lt_by_fp lt) fp of
             None \<Rightarrow> None
           | Some l \<Rightarrow> (if sa_port (ls_endpoint l) \<noteq> 0 then Some (ls_endpoint l) else None)))"

definition lt_evict :: "lease_table \<Rightarrow> bytes \<Rightarrow> lease_table \<times> bool" where
  "lt_evict lt fp =
     (case map_of (lt_by_fp lt) fp of
        Some l \<Rightarrow> (lt\<lparr>lt_by_fp := AList.delete fp (lt_by_fp lt), lt_by_ip := (lt_by_ip lt)(ls_overlay_ip l := None)\<rparr>, True)
      | None \<Rightarrow> (lt, False))"

definition lt_clear :: "lease_table \<Rightarrow> lease_table" where
  "lt_clear lt = lt\<lparr>lt_by_fp := [], lt_by_ip := Map.empty\<rparr>"

section \<open>The lease table keeps one address per client\<close>

definition lease_ok :: "lease_table \<Rightarrow> bool" where
  "lease_ok lt \<longleftrightarrow>
     distinct (map fst (lt_by_fp lt)) \<and> lt_next_host lt \<ge> OVERLAY_FIRST_CLIENT_HOST
     \<and> (\<forall>fp l. map_of (lt_by_fp lt) fp = Some l \<longrightarrow>
          ls_fingerprint l = fp \<and> is_valid_overlay (ls_overlay_ip l) \<and> lt_by_ip lt (ls_overlay_ip l) = Some fp)
     \<and> (\<forall>ip fp. lt_by_ip lt ip = Some fp \<longrightarrow> (\<exists>l. map_of (lt_by_fp lt) fp = Some l \<and> ls_overlay_ip l = ip))"

lemma lease_ok_new: "lease_ok lease_table_new"
  by (simp add: lease_ok_def lease_table_new_def)

lemma leased_in_set: "lease_ok lt \<Longrightarrow> (fp, l) \<in> set (lt_by_fp lt) \<longleftrightarrow> map_of (lt_by_fp lt) fp = Some l"
  by (auto simp: lease_ok_def map_of_eq_Some_iff)

lemma valid_overlay_addr: "is_valid_overlay ip \<Longrightarrow> ip = overlay_addr (host_of ip)"
  by (auto simp: is_valid_overlay_def overlay_addr_def host_of_def split: prod.splits)

lemma valid_overlay_host:
  "is_valid_overlay ip \<longleftrightarrow> ip = overlay_addr (host_of ip) \<and> 10 \<le> unat (host_of ip) \<and> unat (host_of ip) \<le> 254"
  by (auto simp: is_valid_overlay_def overlay_addr_def host_of_def overlay_consts word_le_nat_alt split: prod.splits)

lemma host_of_overlay [simp]: "host_of (overlay_addr d) = d"
  by (simp add: host_of_def overlay_addr_def)

text \<open>The loop starts at a client host and visits the client hosts in cyclic order.\<close>

lemma first_host:
  fixes h :: u8
  assumes "10 \<le> unat h"
  defines "h' \<equiv> if h > OVERLAY_LAST_CLIENT_HOST then OVERLAY_FIRST_CLIENT_HOST else h"
  shows "unat h' = 10 + (unat h - 10) mod 245" and "unat (h' + 1) = unat h' + 1"
proof -
  have b: "unat h < 256" using unat_bound [of h] by simp
  show e: "unat h' = 10 + (unat h - 10) mod 245"
  proof (cases "unat h = 255")
    case True
    then show ?thesis by (simp add: h'_def overlay_consts word_less_nat_alt)
  next
    case False
    then show ?thesis using assms(1) b by (simp add: h'_def overlay_consts word_less_nat_alt)
  qed
  have "unat h' < 255" using e mod_less_divisor [of 245 "unat h - 10"] by simp
  then have "h' \<noteq> - 1" by (auto simp: unat_max_word)
  then show "unat (h' + 1) = unat h' + 1" using unat_plus_one [of h'] by simp
qed

lemma find_host_sound:
  "find_host used n h = Some d \<Longrightarrow> 10 \<le> unat h \<Longrightarrow> d \<notin> used \<and> 10 \<le> unat d \<and> unat d \<le> 254"
proof (induction used n h rule: find_host.induct)
  case (2 used n h)
  let ?h = "if h > OVERLAY_LAST_CLIENT_HOST then OVERLAY_FIRST_CLIENT_HOST else h"
  note f = first_host [OF 2(3)]
  have b: "unat ?h \<le> 254" using f(1) mod_less_divisor [of 245 "unat h - 10"] by linarith
  show ?case
  proof (cases "?h \<in> used")
    case True
    then have "find_host used n (?h + 1) = Some d" using 2(2) by (simp only: find_host.simps Let_def) simp
    moreover have "10 \<le> unat (?h + 1)" using f by simp
    ultimately show ?thesis using 2(1) [OF refl] True by simp
  next
    case False
    then have "d = ?h" using 2(2) by (simp only: find_host.simps Let_def) (simp split: if_splits)
    then show ?thesis using False f(1) b by simp
  qed
qed simp

lemma find_host_complete:
  "find_host used n h = None \<Longrightarrow> 10 \<le> unat h \<Longrightarrow> i < n \<Longrightarrow> of_nat (10 + (unat h - 10 + i) mod 245) \<in> used"
proof (induction used n h arbitrary: i rule: find_host.induct)
  case (2 used n h)
  let ?h = "if h > OVERLAY_LAST_CLIENT_HOST then OVERLAY_FIRST_CLIENT_HOST else h"
  note f = first_host [OF 2(3)]
  have u: "?h \<in> used" "find_host used n (?h + 1) = None"
    using 2(2) by (simp_all only: find_host.simps Let_def split: if_splits) auto
  show ?case
  proof (cases i)
    case 0
    have "of_nat (10 + (unat h - 10) mod 245) = ?h" using f(1) by (metis of_nat_unat ucast_id)
    then show ?thesis using u(1) 0 by simp
  next
    case (Suc j)
    have g: "10 \<le> unat (?h + 1)" using f by simp
    have "of_nat (10 + (unat (?h + 1) - 10 + j) mod 245) \<in> used"
      using 2(1) [OF refl _ u(2) g, of j] u(1) 2(4) Suc by simp
    moreover have "(unat (?h + 1) - 10 + j) mod 245 = (unat h - 10 + i) mod 245"
    proof -
      have "((unat h - 10) mod 245 + Suc j) mod 245 = (unat h - 10 + Suc j) mod 245" by (rule mod_add_left_eq)
      then show ?thesis unfolding f(2) f(1) Suc by simp
    qed
    ultimately show ?thesis by simp
  qed
qed simp

lemma cyclic_reach: "r < m \<Longrightarrow> \<exists>i < m. (a + i) mod m = (r :: nat)"
proof -
  assume r: "r < m"
  let ?i = "(r + (m - a mod m)) mod m"
  have "(a + ?i) mod m = (a mod m + (r + (m - a mod m))) mod m" by (simp add: mod_simps)
  also have "a mod m + (r + (m - a mod m)) = r + m" using r mod_less_divisor [of m a] by linarith
  finally have "(a + ?i) mod m = r" using r by simp
  then show ?thesis using r mod_less_divisor [of m] by (intro exI [of _ ?i]) auto
qed

lemma find_host_full:
  assumes "find_host used 245 h = None" and "10 \<le> unat h" and "10 \<le> unat d" and "unat d \<le> 254"
  shows "d \<in> used"
proof -
  obtain i where i: "i < 245" "(unat h - 10 + i) mod 245 = unat d - 10"
    using cyclic_reach [of "unat d - 10" 245 "unat h - 10"] assms(3,4) by fastforce
  have "of_nat (10 + (unat h - 10 + i) mod 245) \<in> used" using find_host_complete [OF assms(1,2) i(1)] .
  then show ?thesis using i(2) assms(3) by (simp add: ucast_id)
qed

lemma pool_size: "unat (OVERLAY_LAST_CLIENT_HOST - OVERLAY_FIRST_CLIENT_HOST) + 1 = 245"
  by (simp add: overlay_consts)

text \<open>A client gets an address that no lease has, and the tables stay inverse to each other.\<close>

lemma lease_ok_put:
  assumes ok: "lease_ok lt" and v: "is_valid_overlay ip" and free: "lt_by_ip lt ip = None \<or> lt_by_ip lt ip = Some fp"
    and l: "ls_fingerprint l = fp" "ls_overlay_ip l = ip"
  defines "by_ip \<equiv> (case map_of (lt_by_fp lt) fp of Some l' \<Rightarrow> (lt_by_ip lt)(ls_overlay_ip l' := None) | None \<Rightarrow> lt_by_ip lt)"
  assumes n: "lt_by_ip lt' = by_ip(ip \<mapsto> fp)" "lt_by_fp lt' = AList.update fp l (lt_by_fp lt)"
    "lt_next_host lt' \<ge> OVERLAY_FIRST_CLIENT_HOST"
  shows "lease_ok lt'"
proof -
  have of_fp: "ls_fingerprint k = f \<and> is_valid_overlay (ls_overlay_ip k) \<and> lt_by_ip lt (ls_overlay_ip k) = Some f"
    if "map_of (lt_by_fp lt) f = Some k" for f k using ok that by (simp add: lease_ok_def)
  have of_ip: "\<exists>k. map_of (lt_by_fp lt) f = Some k \<and> ls_overlay_ip k = a" if "lt_by_ip lt a = Some f" for f a
    using ok that unfolding lease_ok_def by blast
  have keep: "by_ip (ls_overlay_ip k) = Some f \<and> ls_overlay_ip k \<noteq> ip"
    if "map_of (lt_by_fp lt) f = Some k" "f \<noteq> fp" for f k
    using of_fp [OF that(1)] that(2) free of_fp [of fp] by (auto simp: by_ip_def split: option.splits)
  have kept: "f \<noteq> fp \<and> lt_by_ip lt a = Some f" if "by_ip a = Some f" "a \<noteq> ip" for f a
    using that of_ip [of a f] by (auto simp: by_ip_def split: option.splits if_splits)
  have "distinct (map fst (AList.update fp l (lt_by_fp lt)))" using ok by (simp add: lease_ok_def distinct_update)
  moreover have "ls_fingerprint k = f \<and> is_valid_overlay (ls_overlay_ip k) \<and> (by_ip(ip \<mapsto> fp)) (ls_overlay_ip k) = Some f"
    if "map_of (AList.update fp l (lt_by_fp lt)) f = Some k" for f k
    using that of_fp [of f k] keep [of f k] l v by (auto simp: update_conv' split: if_splits)
  moreover have "\<exists>k. map_of (AList.update fp l (lt_by_fp lt)) f = Some k \<and> ls_overlay_ip k = a"
    if "(by_ip(ip \<mapsto> fp)) a = Some f" for f a
    using that of_ip [of a f] kept [of a f] l by (auto simp: update_conv' split: if_splits)
  ultimately show ?thesis using n unfolding lease_ok_def by (simp only: n) blast
qed

lemma unleased_ip:
  assumes "lease_ok lt" and "\<forall>(f, l) \<in> set (lt_by_fp lt). ls_overlay_ip l = ip \<longrightarrow> f = fp"
  shows "lt_by_ip lt ip = None \<or> lt_by_ip lt ip = Some fp"
proof (cases "lt_by_ip lt ip")
  case (Some f)
  then obtain l where "map_of (lt_by_fp lt) f = Some l" "ls_overlay_ip l = ip" using assms(1) unfolding lease_ok_def by blast
  then have "f = fp" using assms leased_in_set [OF assms(1), of f l] by auto
  then show ?thesis using Some by simp
qed simp

lemma lease_for_cases:
  assumes ok: "lease_ok lt"
  obtains (held) l where "map_of (lt_by_fp lt) fp = Some l" "lease_for lt fp now = (lt, Some (ls_overlay_ip l))"
    | (given) d where "map_of (lt_by_fp lt) fp = None" "is_valid_overlay (overlay_addr d)" "lt_by_ip lt (overlay_addr d) = None"
      "d + 1 \<ge> OVERLAY_FIRST_CLIENT_HOST"
      "lease_for lt fp now = (lt\<lparr>lt_next_host := d + 1, lt_by_ip := (lt_by_ip lt)(overlay_addr d \<mapsto> fp),
         lt_by_fp := AList.update fp (fresh_lease fp (overlay_addr d) now) (lt_by_fp lt)\<rparr>, Some (overlay_addr d))"
    | (full) "map_of (lt_by_fp lt) fp = None" "lease_for lt fp now = (lt, None)"
      "\<forall>d. 10 \<le> unat d \<longrightarrow> unat d \<le> 254 \<longrightarrow> (\<exists>(f, l) \<in> set (lt_by_fp lt). ls_overlay_ip l = overlay_addr d)"
proof (cases "map_of (lt_by_fp lt) fp")
  case None
  let ?used = "(\<lambda>(f, l). host_of (ls_overlay_ip l)) ` set (lt_by_fp lt)"
  have nh: "10 \<le> unat (lt_next_host lt)" using ok by (simp add: lease_ok_def overlay_consts word_le_nat_alt)
  have valid: "ls_overlay_ip l = overlay_addr (host_of (ls_overlay_ip l))" if "(f, l) \<in> set (lt_by_fp lt)" for f l
    using that ok leased_in_set [OF ok] valid_overlay_addr unfolding lease_ok_def by blast
  show thesis
  proof (cases "find_host ?used 245 (lt_next_host lt)")
    case none: None
    have "\<exists>(f, l) \<in> set (lt_by_fp lt). ls_overlay_ip l = overlay_addr d" if "10 \<le> unat d" "unat d \<le> 254" for d
      using find_host_full [OF none nh that] valid by force
    moreover have "lease_for lt fp now = (lt, None)" unfolding lease_for_def pool_size using None none by simp
    ultimately show thesis using None full by blast
  next
    case (Some d)
    note s = find_host_sound [OF Some nh]
    have "\<forall>(f, l) \<in> set (lt_by_fp lt). ls_overlay_ip l \<noteq> overlay_addr d" using s by force
    then have "lt_by_ip lt (overlay_addr d) = None"
      using ok leased_in_set [OF ok] unfolding lease_ok_def by (metis (mono_tags, lifting) case_prodD not_None_eq)
    moreover have "unat (d + 1) = unat d + 1" using s unat_plus_one [of d] by (cases "d = - 1") (auto simp: unat_max_word)
    moreover have "lease_for lt fp now = (lt\<lparr>lt_next_host := d + 1, lt_by_ip := (lt_by_ip lt)(overlay_addr d \<mapsto> fp),
         lt_by_fp := AList.update fp (fresh_lease fp (overlay_addr d) now) (lt_by_fp lt)\<rparr>, Some (overlay_addr d))"
      unfolding lease_for_def pool_size using None Some by simp
    ultimately show thesis using given [OF None] s by (auto simp: valid_overlay_host overlay_consts word_le_nat_alt)
  qed
qed (use held in \<open>simp add: lease_for_def\<close>)

lemma lease_for_ok: "lease_ok lt \<Longrightarrow> lease_ok (fst (lease_for lt fp now))"
proof -
  assume ok: "lease_ok lt"
  show ?thesis
  proof (cases rule: lease_for_cases [OF ok, of fp now, case_names held given full])
    case (given d)
    show ?thesis
      using lease_ok_put [OF ok given(2), of fp "fresh_lease fp (overlay_addr d) now" "fst (lease_for lt fp now)"] given
      by (simp add: fresh_lease_def)
  qed (use ok in simp_all)
qed

lemma auto_lease_ok: "lease_ok lt \<Longrightarrow> lease_ok (fst (auto_lease lt fp now))"
  using lease_for_ok by (simp add: auto_lease_def case_prod_unfold)

lemma lease_for_hint_ok:
  assumes ok: "lease_ok lt"
  shows "lease_ok (fst (lease_for_hint lt fp hint now))"
proof (cases hint)
  case (Some h)
  have taken: "ls_fingerprint l = f" if "(f, l) \<in> set (lt_by_fp lt)" for f l
    using that ok leased_in_set [OF ok] by (simp add: lease_ok_def)
  show ?thesis
  proof (cases "is_valid_overlay h \<and> \<not> (\<exists>(f, l) \<in> set (lt_by_fp lt). ls_overlay_ip l = h \<and> ls_fingerprint l \<noteq> fp)")
    case True
    then have "lt_by_ip lt h = None \<or> lt_by_ip lt h = Some fp" using taken by (intro unleased_ip [OF ok]) fastforce
    note put = lease_ok_put [OF ok conjunct1 [OF True] this]
    have nh: "lt_next_host lt \<ge> OVERLAY_FIRST_CLIENT_HOST" using ok by (simp add: lease_ok_def)
    show ?thesis
    proof (cases "map_of (lt_by_fp lt) fp")
      case None
      then show ?thesis
        using put [of "fresh_lease fp h now" "fst (lease_for_hint lt fp hint now)"] nh True ok Some
        by (auto simp: lease_for_hint_def fresh_lease_def max.coboundedI1)
    next
      case (Some l)
      then have "ls_fingerprint l = fp" using ok by (simp add: lease_ok_def)
      then show ?thesis
        using put [of "l\<lparr>ls_overlay_ip := h\<rparr>" "fst (lease_for_hint lt fp hint now)"] nh True ok Some \<open>hint = Some h\<close>
        by (cases "ls_overlay_ip l = h") (auto simp: lease_for_hint_def)
    qed
  next
    case False
    then show ?thesis using Some auto_lease_ok [OF ok] ok
      by (auto simp: lease_for_hint_def split: option.splits)
  qed
qed (use auto_lease_ok [OF ok] in \<open>simp add: lease_for_hint_def\<close>)

lemma upd_lease_ok:
  assumes "lease_ok lt" and "\<And>l. ls_fingerprint (f l) = ls_fingerprint l" and "\<And>l. ls_overlay_ip (f l) = ls_overlay_ip l"
  shows "lease_ok (upd_lease fp f lt)"
proof (cases "map_of (lt_by_fp lt) fp")
  case (Some l)
  have l: "ls_fingerprint l = fp" "is_valid_overlay (ls_overlay_ip l)" "lt_by_ip lt (ls_overlay_ip l) = Some fp"
    using Some assms(1) by (auto simp: lease_ok_def)
  show ?thesis
    using lease_ok_put [OF assms(1) l(2), of fp "f l" "upd_lease fp f lt"] assms l Some
    by (simp add: upd_lease_def fun_upd_idem lease_ok_def [of lt])
qed (use assms in \<open>simp add: upd_lease_def\<close>)

lemma anchor_keeps:
  "ls_fingerprint (fst (anchor_lease l epoch ctr sender now)) = ls_fingerprint l"
  "ls_overlay_ip (fst (anchor_lease l epoch ctr sender now)) = ls_overlay_ip l"
  by (simp_all add: anchor_lease_def Let_def)

lemma observe_as_update:
  "fst (observe_tunnel_packet lt fp epoch ctr sender now) = upd_lease fp (\<lambda>l. fst (anchor_lease l epoch ctr sender now)) lt"
  by (simp add: observe_tunnel_packet_def upd_lease_def case_prod_unfold split: option.split)

lemma lt_evict_ok:
  assumes "lease_ok lt"
  shows "lease_ok (fst (lt_evict lt fp))"
proof (cases "map_of (lt_by_fp lt) fp")
  case (Some l)
  have ip: "lt_by_ip lt (ls_overlay_ip l) = Some fp" using Some assms by (simp add: lease_ok_def)
  have a: "ls_overlay_ip k \<noteq> ls_overlay_ip l" if "map_of (lt_by_fp lt) f = Some k" "f \<noteq> fp" for f k
    using that ip assms unfolding lease_ok_def by (metis option.inject)
  have b: "\<exists>k. map_of (lt_by_fp lt) f = Some k \<and> ls_overlay_ip k = i \<and> f \<noteq> fp"
    if "lt_by_ip lt i = Some f" "i \<noteq> ls_overlay_ip l" for f i
    using that Some assms unfolding lease_ok_def by (metis option.inject)
  show ?thesis
    using assms Some a b unfolding lease_ok_def
    by (simp add: lt_evict_def delete_conv' distinct_delete del: split_paired_All) blast
qed (use assms in \<open>simp add: lt_evict_def\<close>)

text \<open>Everything the hub does to the table.\<close>

datatype lease_op = LeaseFor bytes | LeaseHint bytes "ipv4 option" | Rotate bytes sock_addr duration
  | Adopt bytes u32 sock_addr duration | ExpireNow bytes | Observe bytes u32 u32 sock_addr | Evict bytes | ClearLeases

fun lease_step :: "lease_table \<Rightarrow> instant \<times> lease_op \<Rightarrow> lease_table" where
  "lease_step lt (now, LeaseFor fp) = fst (lease_for lt fp now)"
| "lease_step lt (now, LeaseHint fp h) = fst (lease_for_hint lt fp h now)"
| "lease_step lt (now, Rotate fp a ttl) = fst (lt_rotate_epoch_with_ttl lt fp a ttl now)"
| "lease_step lt (now, Adopt fp e a ttl) = fst (adopt_epoch_with_ttl lt fp e a ttl now)"
| "lease_step lt (now, ExpireNow fp) = fst (expire_epoch_now lt fp now)"
| "lease_step lt (now, Observe fp e c a) = fst (observe_tunnel_packet lt fp e c a now)"
| "lease_step lt (now, Evict fp) = fst (lt_evict lt fp)"
| "lease_step lt (now, ClearLeases) = lt_clear lt"

lemma lease_step_ok: "lease_ok lt \<Longrightarrow> lease_ok (lease_step lt ev)"
proof (cases ev)
  case (Pair now e)
  assume ok: "lease_ok lt"
  show ?thesis
    using ok Pair
    by (cases e) (simp_all add: lease_for_ok lease_for_hint_ok lt_evict_ok observe_as_update lt_rotate_epoch_with_ttl_def
        adopt_epoch_with_ttl_def expire_epoch_now_def anchor_keeps upd_lease_ok, simp add: lt_clear_def lease_ok_def)
qed

interpretation leases: state_machine lease_step lease_ok
  by unfold_locales (rule lease_step_ok)

lemma lease_count_hosts:
  assumes ok: "lease_ok lt"
  shows "inj_on (\<lambda>(f, l). host_of (ls_overlay_ip l)) (set (lt_by_fp lt))"
    and "length (lt_by_fp lt) = card ((\<lambda>(f, l). host_of (ls_overlay_ip l)) ` set (lt_by_fp lt))"
    and "(\<lambda>(f, l). host_of (ls_overlay_ip l)) ` set (lt_by_fp lt) \<subseteq> of_nat ` {10..254}"
proof -
  have l: "ls_overlay_ip l = overlay_addr (host_of (ls_overlay_ip l)) \<and> lt_by_ip lt (ls_overlay_ip l) = Some f
      \<and> 10 \<le> unat (host_of (ls_overlay_ip l)) \<and> unat (host_of (ls_overlay_ip l)) \<le> 254"
    if "(f, l) \<in> set (lt_by_fp lt)" for f l
    using that ok leased_in_set [OF ok] valid_overlay_host unfolding lease_ok_def by blast
  show inj: "inj_on (\<lambda>(f, l). host_of (ls_overlay_ip l)) (set (lt_by_fp lt))"
  proof (rule inj_onI, clarify)
    fix f k g m assume m: "(f, k) \<in> set (lt_by_fp lt)" "(g, m) \<in> set (lt_by_fp lt)"
      "host_of (ls_overlay_ip k) = host_of (ls_overlay_ip m)"
    then have "f = g" using l [OF m(1)] l [OF m(2)] by (metis option.inject)
    then show "f = g \<and> k = m" using m leased_in_set [OF ok] by simp
  qed
  have "distinct (lt_by_fp lt)" using ok by (simp add: lease_ok_def distinct_map)
  then show "length (lt_by_fp lt) = card ((\<lambda>(f, l). host_of (ls_overlay_ip l)) ` set (lt_by_fp lt))"
    using inj by (simp add: card_image distinct_card)
  show "(\<lambda>(f, l). host_of (ls_overlay_ip l)) ` set (lt_by_fp lt) \<subseteq> of_nat ` {10..254}"
  proof clarify
    fix f k assume "(f, k) \<in> set (lt_by_fp lt)"
    from l [OF this] show "host_of (ls_overlay_ip k) \<in> of_nat ` {10..254}"
      by (intro image_eqI [of _ _ "unat (host_of (ls_overlay_ip k))"]) (simp_all add: ucast_id)
  qed
qed

lemma client_hosts: "card (of_nat ` {10..254} :: u8 set) = 245"
proof -
  have "inj_on (of_nat :: nat \<Rightarrow> u8) {10..254}"
    by (rule inj_on_inverseI [where g = unat]) (simp add: unat_of_nat)
  then show ?thesis by (simp add: card_image)
qed

lemma pool_exhausted_iff:
  assumes ok: "lease_ok lt"
  shows "snd (lease_for lt fp now) = None \<longleftrightarrow> map_of (lt_by_fp lt) fp = None \<and> length (lt_by_fp lt) = 245"
proof -
  let ?used = "(\<lambda>(f, l). host_of (ls_overlay_ip l)) ` set (lt_by_fp lt)"
  note c = lease_count_hosts [OF ok]
  have fin: "finite (of_nat ` {10..254} :: u8 set)" by simp
  show ?thesis
  proof (cases rule: lease_for_cases [OF ok, of fp now, case_names held given full])
    case (given d)
    have d: "d \<in> of_nat ` {10..254}" using given(2)
      by (intro image_eqI [of _ _ "unat d"]) (simp_all add: valid_overlay_host ucast_id)
    have "d \<notin> ?used"
    proof clarify
      fix f k assume m: "(f, k) \<in> set (lt_by_fp lt)" "d = host_of (ls_overlay_ip k)"
      then have "lt_by_ip lt (ls_overlay_ip k) = Some f" "ls_overlay_ip k = overlay_addr d"
        using ok leased_in_set [OF ok] valid_overlay_addr unfolding lease_ok_def by blast+
      then show False using given(3) by simp
    qed
    then have "?used \<subseteq> of_nat ` {10..254} - {d}" using c(3) by blast
    then have "card ?used \<le> 244" using card_mono [of "of_nat ` {10..254} - {d}" ?used] card_Diff_singleton [OF d] client_hosts fin by simp
    then show ?thesis using given(5) c(2) by simp
  next
    case full
    have "of_nat ` {10..254} \<subseteq> ?used"
    proof clarify
      fix n :: nat assume "n \<in> {10..254}"
      then have "10 \<le> unat (of_nat n :: u8)" "unat (of_nat n :: u8) \<le> 254" by (simp_all add: unat_of_nat)
      then obtain f k where "(f, k) \<in> set (lt_by_fp lt)" "ls_overlay_ip k = overlay_addr (of_nat n)" using full(3) by fast
      then show "of_nat n \<in> ?used" by force
    qed
    then have "?used = of_nat ` {10..254}" using c(3) by blast
    then show ?thesis using full c(2) client_hosts by simp
  qed simp
qed

text \<open>
  C38. Overlay addresses are exclusive. Whatever the hub does with its lease table, no two clients hold one
  address, every address is a client address of the overlay, looking an address up gives its holder,
  and a client without a lease is refused one exactly when all 245 client addresses are taken.
\<close>

theorem overlay_addresses_are_exclusive:
  fixes es :: "(instant \<times> lease_op) list"
  defines "lt \<equiv> foldl lease_step lease_table_new es"
  shows "(\<forall>f k. map_of (lt_by_fp lt) f = Some k \<longrightarrow> is_valid_overlay (ls_overlay_ip k) \<and> fingerprint_for_ip lt (ls_overlay_ip k) = Some f)
    \<and> length (lt_by_fp lt) \<le> 245
    \<and> (snd (lease_for lt fp now) = None \<longleftrightarrow> map_of (lt_by_fp lt) fp = None \<and> length (lt_by_fp lt) = 245)"
proof -
  have ok: "lease_ok lt" unfolding lt_def by (rule leases.run_inv [OF lease_ok_new])
  have "length (lt_by_fp lt) \<le> 245"
    using lease_count_hosts(2,3) [OF ok] card_mono [of "of_nat ` {10..254}"] client_hosts by (metis finite_atLeastAtMost finite_imageI)
  moreover have "is_valid_overlay (ls_overlay_ip k) \<and> fingerprint_for_ip lt (ls_overlay_ip k) = Some f"
    if "map_of (lt_by_fp lt) f = Some k" for f k
    using that ok by (simp add: lease_ok_def fingerprint_for_ip_def)
  ultimately show ?thesis using pool_exhausted_iff [OF ok] by blast
qed

theorem overlay_addresses_are_exclusive_witness:
  "fingerprint_for_ip (foldl lease_step lease_table_new [(0, LeaseFor [7]), (1, LeaseHint [8] (Some (10, 66, 0, 99)))]) (10, 66, 0, 99) = Some [8]
    \<and> snd (lease_for (foldl lease_step lease_table_new [(0, LeaseFor [7]), (1, LeaseHint [8] (Some (10, 66, 0, 99)))]) [9] 2) \<noteq> None"
proof -
  let ?es = "[(0, LeaseFor [7]), (1, LeaseHint [8] (Some (10, 66, 0, 99)))]"
  let ?lt = "foldl lease_step lease_table_new ?es"
  have "245 = Suc 244" by simp
  then have "find_host {} (unat (OVERLAY_LAST_CLIENT_HOST - OVERLAY_FIRST_CLIENT_HOST) + 1) 10 = Some 10"
    unfolding pool_size by (simp only: find_host.simps Let_def) (simp add: overlay_consts)
  then have l: "lt_by_fp ?lt = [([7], fresh_lease [7] (10, 66, 0, 10) 0), ([8], fresh_lease [8] (10, 66, 0, 99) 1)]"
    by (simp add: lease_for_def lease_for_hint_def lease_table_new_def is_valid_overlay_def overlay_consts fresh_lease_def
        overlay_addr_def host_of_def)
  then have m: "map_of (lt_by_fp ?lt) [8] = Some (fresh_lease [8] (10, 66, 0, 99) 1)" "map_of (lt_by_fp ?lt) [9] = None"
    "length (lt_by_fp ?lt) \<noteq> 245" by simp_all
  have ip: "ls_overlay_ip (fresh_lease [8] (10, 66, 0, 99) 1) = (10, 66, 0, 99)" by (simp add: fresh_lease_def)
  show ?thesis using overlay_addresses_are_exclusive [of ?es "[9]" 2] m ip by metis
qed

end
