(* ===== verification/VpnTunnel.thy ===== *)
theory VpnTunnel
  imports Vpn
begin

unbundle bit_operations_syntax

text \<open>
  Flows, datagrams and the client of the VPN, src/src/ghost/net/vpn/mod.rs and client.rs: the bounded
  table of UDP flows, the tunnel datagram with its own nonce domain, the replay windows per client
  and epoch, the client's state and its watchdog. The random nonce segment, the port the operating
  system binds and the answer of the TUN device are arguments.
\<close>

section \<open>UDP flows\<close>

definition TUN_MTU :: u16 where "TUN_MTU = 1280"
definition OVERLAY_MSS :: u16 where "OVERLAY_MSS = TUN_MTU - 40"
definition UDP_DNS_TTL :: duration where "UDP_DNS_TTL = secs 10"
definition UDP_GENERAL_TTL :: duration where "UDP_GENERAL_TTL = secs 45"
definition UDP_FLOWS_PER_FP :: nat where "UDP_FLOWS_PER_FP = 64"
definition UDP_FLOWS_GLOBAL :: nat where "UDP_FLOWS_GLOBAL = 1024"

record flow_key =
  fk_fp :: bytes
  fk_overlay_src :: ipv4
  fk_overlay_port :: u16
  fk_dst :: sock_addr

record udp_flow =
  uf_key :: flow_key
  uf_local_port :: u16
  uf_last_seen :: instant
  uf_is_dns :: bool

record flow_table =
  ft_flows :: "(flow_key \<times> udp_flow) list"
  ft_by_port :: "u16 \<rightharpoonup> flow_key"
  ft_dns_ttl :: duration
  ft_general_ttl :: duration

definition flow_table_with_timing :: "duration \<Rightarrow> duration \<Rightarrow> flow_table" where
  "flow_table_with_timing dns general =
     \<lparr>ft_flows = [], ft_by_port = Map.empty, ft_dns_ttl = dns, ft_general_ttl = general\<rparr>"

definition flow_table_new :: flow_table where
  "flow_table_new = flow_table_with_timing UDP_DNS_TTL UDP_GENERAL_TTL"

text \<open>\<open>min_by_key\<close>: the first of the least.\<close>

fun least_recent :: "udp_flow list \<Rightarrow> udp_flow option" where
  "least_recent [] = None"
| "least_recent (f # fs) =
     (case least_recent fs of
        None \<Rightarrow> Some f
      | Some g \<Rightarrow> (if uf_last_seen f \<le> uf_last_seen g then Some f else Some g))"

definition evict_lru_for :: "flow_table \<Rightarrow> bytes option \<Rightarrow> flow_table" where
  "evict_lru_for ft fp =
     (case least_recent (filter (\<lambda>f. case fp of None \<Rightarrow> True | Some p \<Rightarrow> fk_fp (uf_key f) = p) (map snd (ft_flows ft))) of
        None \<Rightarrow> ft
      | Some v \<Rightarrow> ft\<lparr>ft_flows := AList.delete (uf_key v) (ft_flows ft),
                    ft_by_port := (ft_by_port ft)(uf_local_port v := None)\<rparr>)"

definition flows_of :: "bytes \<Rightarrow> (flow_key \<times> udp_flow) list \<Rightarrow> nat" where
  "flows_of fp fs = length (filter (\<lambda>(k, f). fk_fp (uf_key f) = fp) fs)"

text \<open>\<open>bound\<close> is what binding a socket gives: its local port, or nothing if it fails.\<close>

definition get_or_create :: "flow_table \<Rightarrow> flow_key \<Rightarrow> u16 option \<Rightarrow> instant \<Rightarrow> flow_table \<times> udp_flow option" where
  "get_or_create ft key bound now =
     (case map_of (ft_flows ft) key of
        Some f \<Rightarrow>
          (let refreshed = f\<lparr>uf_last_seen := now\<rparr>
           in (ft\<lparr>ft_flows := AList.update key refreshed (ft_flows ft)\<rparr>, Some refreshed))
      | None \<Rightarrow>
          (let ft1 = (if flows_of (fk_fp key) (ft_flows ft) \<ge> UDP_FLOWS_PER_FP then evict_lru_for ft (Some (fk_fp key)) else ft);
               ft2 = (if length (ft_flows ft1) \<ge> UDP_FLOWS_GLOBAL then evict_lru_for ft1 None else ft1)
           in if length (ft_flows ft2) \<ge> UDP_FLOWS_GLOBAL then (ft2, None)
              else case bound of
                     None \<Rightarrow> (ft2, None)
                   | Some port \<Rightarrow>
                       (let flow = \<lparr>uf_key = key, uf_local_port = port, uf_last_seen = now, uf_is_dns = (sa_port (fk_dst key) = 53)\<rparr>
                        in (ft2\<lparr>ft_flows := AList.update key flow (ft_flows ft2),
                               ft_by_port := (if port \<noteq> 0 then (ft_by_port ft2)(port \<mapsto> key) else ft_by_port ft2)\<rparr>,
                            Some flow))))"

text \<open>\<open>retain\<close>: the flows that go take their port with them.\<close>

definition retain_flows :: "(flow_key \<Rightarrow> udp_flow \<Rightarrow> bool) \<Rightarrow> flow_table \<Rightarrow> flow_table" where
  "retain_flows keep ft =
     ft\<lparr>ft_flows := filter (\<lambda>(k, f). keep k f) (ft_flows ft),
        ft_by_port := (\<lambda>p. if \<exists>(k, f) \<in> set (ft_flows ft). \<not> keep k f \<and> uf_local_port f = p then None else ft_by_port ft p)\<rparr>"

definition flows_sweep :: "flow_table \<Rightarrow> instant \<Rightarrow> flow_table \<times> nat" where
  "flows_sweep ft now =
     (let ft' = retain_flows (\<lambda>k f. now - uf_last_seen f < (if uf_is_dns f then ft_dns_ttl ft else ft_general_ttl ft)) ft
      in (ft', length (ft_flows ft) - length (ft_flows ft')))"

definition flow_for_local_port :: "flow_table \<Rightarrow> u16 \<Rightarrow> flow_key option" where
  "flow_for_local_port ft port = ft_by_port ft port"

definition count_for :: "flow_table \<Rightarrow> bytes \<Rightarrow> nat" where
  "count_for ft fp = length (filter (\<lambda>(k, f). fk_fp k = fp) (ft_flows ft))"

definition flows_evict_for :: "flow_table \<Rightarrow> bytes \<Rightarrow> flow_table \<times> nat" where
  "flows_evict_for ft fp =
     (let ft' = retain_flows (\<lambda>k f. fk_fp k \<noteq> fp) ft in (ft', length (ft_flows ft) - length (ft_flows ft')))"

definition flows_clear :: "flow_table \<Rightarrow> flow_table" where
  "flows_clear ft = ft\<lparr>ft_flows := [], ft_by_port := Map.empty\<rparr>"

section \<open>Tunnel datagrams\<close>

definition TUNNEL_HDR_LEN :: nat where "TUNNEL_HDR_LEN = 20"
definition TUNNEL_MAX_PAYLOAD :: nat where "TUNNEL_MAX_PAYLOAD = unat TUN_MTU + 16"
definition TUNNEL_CONTEXT :: bytes where "TUNNEL_CONTEXT = ascii ''GTun''"

definition tunnel_xnonce :: "u32 \<Rightarrow> u64 \<Rightarrow> bytes \<Rightarrow> bytes" where
  "tunnel_xnonce epoch ctr rand_seg = TUNNEL_CONTEXT @ be_u32 epoch @ be_u64 ctr @ rand_seg"

definition seal_datagram :: "crates \<Rightarrow> bytes \<Rightarrow> u32 \<Rightarrow> u64 \<Rightarrow> bytes \<Rightarrow> bytes \<Rightarrow> bytes" where
  "seal_datagram C key epoch ctr ip_packet rand_seg =
     be_u32 epoch @ be_u64 ctr @ rand_seg @ xchacha_encrypt C key (tunnel_xnonce epoch ctr rand_seg) [] ip_packet"

datatype open_outcome = TunnelAccepted bytes bool | TunnelReplay | TunnelAuthFail

record tunnel_rx =
  rx_guard :: session_guard_u64
  rx_v_max :: u64

type_synonym ingress = "bytes \<times> u32 \<rightharpoonup> tunnel_rx"

definition ingress_open ::
  "crates \<Rightarrow> ingress \<Rightarrow> bytes \<Rightarrow> bytes \<Rightarrow> u32 \<Rightarrow> bytes \<Rightarrow> instant \<Rightarrow> ingress \<times> open_outcome" where
  "ingress_open C rx key fp expected_epoch wire now =
     (if length wire < TUNNEL_HDR_LEN + 16 then (rx, TunnelAuthFail)
      else
        (let epoch = u32_be (slice 0 4 wire); ctr = u64_be (slice 4 12 wire); rand_seg = slice 12 20 wire
         in if epoch \<noteq> expected_epoch then (rx, TunnelAuthFail)
            else case xchacha_decrypt C key (tunnel_xnonce epoch ctr rand_seg) [] (drop TUNNEL_HDR_LEN wire) of
                   None \<Rightarrow> (rx, TunnelAuthFail)
                 | Some body \<Rightarrow>
                     (let state = (case rx (fp, epoch) of Some s \<Rightarrow> s | None \<Rightarrow> \<lparr>rx_guard = g64_new now, rx_v_max = 0\<rparr>);
                          advanced = ctr > rx_v_max state;
                          (guard, fresh) = g64_check_and_update (rx_guard state) now ctr;
                          state1 = state\<lparr>rx_guard := guard\<rparr>
                      in if \<not> fresh then (rx((fp, epoch) \<mapsto> state1), TunnelReplay)
                         else (rx((fp, epoch) \<mapsto> (if advanced then state1\<lparr>rx_v_max := ctr\<rparr> else state1)), TunnelAccepted body advanced))))"

definition ingress_evict :: "ingress \<Rightarrow> bytes \<Rightarrow> ingress" where
  "ingress_evict rx fp = (\<lambda>(f, e). if f \<noteq> fp then rx (f, e) else None)"

definition retain_epoch :: "ingress \<Rightarrow> bytes \<Rightarrow> u32 \<Rightarrow> ingress" where
  "retain_epoch rx fp epoch = (\<lambda>(f, e). if f \<noteq> fp \<or> e = epoch then rx (f, e) else None)"

section \<open>The client\<close>

definition KEEPALIVE_AFTER :: duration where "KEEPALIVE_AFTER = secs 10"
definition SILENCE_SECS :: nat where "SILENCE_SECS = 30"
definition BACKOFF_BASE :: duration where "BACKOFF_BASE = secs 2"
definition BACKOFF_CAP :: duration where "BACKOFF_CAP = secs 30"
definition MAX_ATTEMPTS :: u32 where "MAX_ATTEMPTS = 6"
definition COUNTER_REKEY_AT :: u64 where "COUNTER_REKEY_AT = - 1 - 10000000"

datatype wd_action = DoNothing | SendKeepalive | Rehandshake u32

datatype wd_phase = Healthy | Probing | Dead

record watchdog =
  wd_phase :: wd_phase
  wd_last_inbound :: instant
  wd_attempts :: u32
  wd_last_attempt :: "instant option"

definition wd_new_at :: "instant \<Rightarrow> watchdog" where
  "wd_new_at now = \<lparr>wd_phase = Healthy, wd_last_inbound = now, wd_attempts = 0, wd_last_attempt = None\<rparr>"

definition wd_on_inbound :: "watchdog \<Rightarrow> instant \<Rightarrow> watchdog" where
  "wd_on_inbound w now = w\<lparr>wd_phase := Healthy, wd_last_inbound := now, wd_attempts := 0, wd_last_attempt := None\<rparr>"

definition backoff :: "watchdog \<Rightarrow> duration" where
  "backoff w =
     (let e = min (sat_sub (wd_attempts w) 1) 5 in min (BACKOFF_BASE * unat (push_bit (unat e) (1 :: u32))) BACKOFF_CAP)"

text \<open>The attempt that \<open>poll\<close> and \<open>poll_with_counter\<close> make when it is due.\<close>

definition wd_attempt :: "watchdog \<Rightarrow> instant \<Rightarrow> watchdog \<times> wd_action" where
  "wd_attempt w now =
     (if wd_attempts w \<ge> MAX_ATTEMPTS then (w, DoNothing)
      else
        (let due = (case wd_last_attempt w of Some t \<Rightarrow> t + backoff w | None \<Rightarrow> now)
         in if now \<ge> due
            then (w\<lparr>wd_attempts := wd_attempts w + 1, wd_last_attempt := Some now\<rparr>, Rehandshake (wd_attempts w + 1))
            else (w, DoNothing)))"

definition wd_poll :: "watchdog \<Rightarrow> instant \<Rightarrow> watchdog \<times> wd_action" where
  "wd_poll w now =
     (let idle = now - wd_last_inbound w
      in case wd_phase w of
           Healthy \<Rightarrow> (if idle \<ge> KEEPALIVE_AFTER then (w\<lparr>wd_phase := Probing\<rparr>, SendKeepalive) else (w, DoNothing))
         | Probing \<Rightarrow> (if idle \<ge> secs SILENCE_SECS then (w\<lparr>wd_phase := Dead\<rparr>, DoNothing) else (w, DoNothing))
         | Dead \<Rightarrow> wd_attempt w now)"

definition poll_with_counter :: "watchdog \<Rightarrow> instant \<Rightarrow> u64 \<Rightarrow> watchdog \<times> wd_action" where
  "poll_with_counter w now tx_counter =
     (if tx_counter < COUNTER_REKEY_AT then wd_poll w now else wd_attempt w now)"

definition wd_is_dead :: "watchdog \<Rightarrow> bool" where
  "wd_is_dead w \<longleftrightarrow> wd_phase w = Dead"

record client_state =
  cs_fingerprint :: bytes
  cs_epoch :: u32
  cs_tx_counter :: u64
  cs_key :: bytes
  cs_ingress :: ingress
  cs_watchdog :: watchdog
  cs_last_inbound_ms :: u64

definition client_new :: "bytes \<Rightarrow> bytes \<Rightarrow> instant \<Rightarrow> client_state" where
  "client_new fp key now =
     \<lparr>cs_fingerprint = fp, cs_epoch = 1, cs_tx_counter = 1, cs_key = key, cs_ingress = Map.empty,
      cs_watchdog = wd_new_at now, cs_last_inbound_ms = 0\<rparr>"

definition client_set_key :: "client_state \<Rightarrow> bytes \<Rightarrow> client_state" where
  "client_set_key c k = c\<lparr>cs_key := k\<rparr>"

definition client_rotate_epoch :: "client_state \<Rightarrow> client_state \<times> u32" where
  "client_rotate_epoch c =
     (c\<lparr>cs_tx_counter := 1, cs_epoch := cs_epoch c + 1, cs_ingress := ingress_evict (cs_ingress c) (cs_fingerprint c)\<rparr>,
      cs_epoch c + 1)"

definition MAX_IP_PACKET :: nat where "MAX_IP_PACKET = TUNNEL_MAX_PAYLOAD - 16 - TUNNEL_HDR_LEN"

definition seal_from_tun :: "crates \<Rightarrow> client_state \<Rightarrow> bytes \<Rightarrow> bytes \<Rightarrow> client_state \<times> bytes option" where
  "seal_from_tun C c ip_packet rand_seg =
     (if length ip_packet > MAX_IP_PACKET then (c, None)
      else (c\<lparr>cs_tx_counter := cs_tx_counter c + 1\<rparr>,
            Some (seal_datagram C (cs_key c) (cs_epoch c) (cs_tx_counter c) ip_packet rand_seg)))"

text \<open>
  The result: the state, whether the packet was accepted and the window advanced, and what the TUN
  device was given. \<open>tun_ok\<close> is the answer of the device, \<open>clock_ms\<close> the wall clock.
\<close>

definition open_to_tun ::
  "crates \<Rightarrow> client_state \<Rightarrow> bytes \<Rightarrow> instant \<Rightarrow> u64 \<Rightarrow> bool \<Rightarrow> client_state \<times> (bool \<times> bool) \<times> bytes list" where
  "open_to_tun C c wire now clock_ms tun_ok =
     (case ingress_open C (cs_ingress c) (cs_key c) (cs_fingerprint c) (cs_epoch c) wire now of
        (rx, TunnelAccepted ip_packet advanced) \<Rightarrow>
          (c\<lparr>cs_ingress := rx, cs_last_inbound_ms := clock_ms\<rparr>, (tun_ok, advanced), [ip_packet])
      | (rx, _) \<Rightarrow> (c\<lparr>cs_ingress := rx\<rparr>, (False, False), []))"

section \<open>Datagrams open once\<close>

text \<open>The datagrams one client's window accepts in an epoch, with their counters.\<close>

fun ingress_run ::
  "crates \<Rightarrow> ingress \<Rightarrow> bytes \<Rightarrow> bytes \<Rightarrow> u32 \<Rightarrow> (instant \<times> bytes) list \<Rightarrow> ingress \<times> (u64 \<times> bytes) list" where
  "ingress_run C rx key fp e [] = (rx, [])"
| "ingress_run C rx key fp e ((now, wire) # evs) =
     (case ingress_open C rx key fp e wire now of
        (rx1, TunnelAccepted body adv) \<Rightarrow>
          (case ingress_run C rx1 key fp e evs of (rx2, out) \<Rightarrow> (rx2, (u64_be (slice 4 12 wire), body) # out))
      | (rx1, _) \<Rightarrow> ingress_run C rx1 key fp e evs)"

definition window_live :: "ingress \<Rightarrow> bytes \<Rightarrow> u32 \<Rightarrow> instant \<Rightarrow> bool" where
  "window_live rx fp e now = (case rx (fp, e) of None \<Rightarrow> True | Some s \<Rightarrow> g64_is_valid (rx_guard s) now)"

lemma sealed_fields:
  assumes "length r = 8"
  shows "slice 0 4 (seal_datagram C key e ctr body r) = be_u32 e" "slice 4 12 (seal_datagram C key e ctr body r) = be_u64 ctr"
    "slice 12 20 (seal_datagram C key e ctr body r) = r"
    "drop TUNNEL_HDR_LEN (seal_datagram C key e ctr body r) = xchacha_encrypt C key (tunnel_xnonce e ctr r) [] body"
  using assms by (simp_all add: seal_datagram_def TUNNEL_HDR_LEN_def slice_def)

lemma length_sealed:
  "xchacha_law C \<Longrightarrow> length r = 8 \<Longrightarrow> length (seal_datagram C key e ctr body r) = length body + 36"
  by (simp add: seal_datagram_def xchacha_lawD)

lemma opened_is_sealed:
  assumes C: "xchacha_law C" and len: "36 \<le> length wire"
    and d: "xchacha_decrypt C key (tunnel_xnonce (u32_be (slice 0 4 wire)) (u64_be (slice 4 12 wire)) (slice 12 20 wire)) []
      (drop TUNNEL_HDR_LEN wire) = Some body"
  shows "wire = seal_datagram C key (u32_be (slice 0 4 wire)) (u64_be (slice 4 12 wire)) body (slice 12 20 wire)"
proof -
  have "be_u32 (u32_be (slice 0 4 wire)) = slice 0 4 wire" "be_u64 (u64_be (slice 4 12 wire)) = slice 4 12 wire"
    using len by (simp_all add: be_reread length_slice)
  moreover have "wire = slice 0 4 wire @ slice 4 12 wire @ slice 12 20 wire @ drop 20 wire"
    using slices_join [of 12 20 wire] slices_join [of 4 12 wire] slices_join [of 0 4 wire] by simp
  ultimately show ?thesis using xchacha_lawD(3) [OF C d] unfolding seal_datagram_def TUNNEL_HDR_LEN_def by simp
qed

text \<open>The state of a window represents the set of counters accepted so far.\<close>

definition rx_tracks :: "tunnel_rx option \<Rightarrow> u64 set \<Rightarrow> bool" where
  "rx_tracks st S = (case st of
     None \<Rightarrow> S = {}
   | Some s \<Rightarrow> tracks (g64_v_max (rx_guard s)) (g64_bitmask (rx_guard s)) S
       \<and> g64_v_max (rx_guard s) \<in> insert 0 S \<and> rx_v_max s = g64_v_max (rx_guard s))"

lemma guard_moves:
  assumes "g64_check_and_update g now c = (g', ok)"
  shows "g64_v_max g' = (if ok \<and> g64_v_max g < c then c else g64_v_max g)"
  using assms by (auto simp: g64_check_and_update_def Let_def split: if_splits)

lemma rx_step:
  fixes now :: instant and ctr :: u64
  assumes t: "rx_tracks st S"
  defines "s \<equiv> (case st of Some s \<Rightarrow> s | None \<Rightarrow> \<lparr>rx_guard = g64_new now, rx_v_max = 0\<rparr>)"
  assumes g: "g64_check_and_update (rx_guard s) now ctr = (guard, fresh)"
  shows "fresh \<longleftrightarrow> (case st of None \<Rightarrow> True | Some s \<Rightarrow> g64_is_valid (rx_guard s) now) \<and> ctr \<notin> S \<and> (\<forall>c \<in> S. unat c < unat ctr + 128)"
    and "rx_tracks (Some (s\<lparr>rx_guard := guard\<rparr>)) S \<or> fresh"
    and "fresh \<Longrightarrow> rx_tracks (Some (if ctr > rx_v_max s then s\<lparr>rx_guard := guard, rx_v_max := ctr\<rparr> else s\<lparr>rx_guard := guard\<rparr>)) (insert ctr S)"
proof -
  have ts: "tracks (g64_v_max (rx_guard s)) (g64_bitmask (rx_guard s)) S"
    and hi: "g64_v_max (rx_guard s) \<in> insert 0 S" and eq: "rx_v_max s = g64_v_max (rx_guard s)"
    using t tracks_empty by (auto simp: rx_tracks_def s_def g64_new_def split: option.splits)
  have live: "(case st of None \<Rightarrow> True | Some s \<Rightarrow> g64_is_valid (rx_guard s) now) = g64_is_valid (rx_guard s) now"
    by (simp add: s_def g64_is_valid_def g64_new_def SESSION_HARD_TIMEOUT_def SESSION_IDLE_TIMEOUT_def secs_def split: option.split)
  have "unat (g64_v_max (rx_guard s)) < unat ctr + 128 \<longleftrightarrow> (\<forall>c \<in> S. unat c < unat ctr + 128)"
    using hi ts by (auto simp: tracks_def word_le_nat_alt intro: le_less_trans)
  then show "fresh \<longleftrightarrow> (case st of None \<Rightarrow> True | Some s \<Rightarrow> g64_is_valid (rx_guard s) now) \<and> ctr \<notin> S \<and> (\<forall>c \<in> S. unat c < unat ctr + 128)"
    using guard64.check_decides [OF ts, of now ctr] g unfolding live by simp
  note m = guard_moves [OF g] and k = guard64.check_tracks [OF ts g]
  show "rx_tracks (Some (s\<lparr>rx_guard := guard\<rparr>)) S \<or> fresh" using m k hi eq by (cases fresh) (auto simp: rx_tracks_def)
  show "fresh \<Longrightarrow> rx_tracks (Some (if ctr > rx_v_max s then s\<lparr>rx_guard := guard, rx_v_max := ctr\<rparr> else s\<lparr>rx_guard := guard\<rparr>)) (insert ctr S)"
    using m k hi eq by (auto simp: rx_tracks_def)
qed

lemma ingress_accepts:
  assumes C: "xchacha_law C" and t: "rx_tracks (rx (fp, e)) S" and r: "length r = 8"
  shows "\<exists>rx' adv. ingress_open C rx key fp e (seal_datagram C key e ctr body r) now = (rx',
      if window_live rx fp e now \<and> ctr \<notin> S \<and> (\<forall>c \<in> S. unat c < unat ctr + 128) then TunnelAccepted body adv else TunnelReplay)
    \<and> rx_tracks (rx' (fp, e)) (if window_live rx fp e now \<and> ctr \<notin> S \<and> (\<forall>c \<in> S. unat c < unat ctr + 128) then insert ctr S else S)"
proof -
  let ?s = "case rx (fp, e) of Some s \<Rightarrow> s | None \<Rightarrow> \<lparr>rx_guard = g64_new now, rx_v_max = 0\<rparr>"
  obtain guard fresh where g: "g64_check_and_update (rx_guard ?s) now ctr = (guard, fresh)" by fastforce
  note st = rx_step [OF t g]
  show ?thesis
    using st length_sealed [OF C r] sealed_fields [OF r] xchacha_lawD(2) [OF C] g
    by (auto simp: ingress_open_def TUNNEL_HDR_LEN_def [symmetric] Let_def window_live_def)
qed

lemma decided_outcome:
  "\<exists>a. x = (if Q then TunnelAccepted b a else TunnelReplay) \<Longrightarrow> (\<exists>a. x = TunnelAccepted b a) \<longleftrightarrow> Q"
  by (cases Q) auto

lemma ingress_rejects:
  assumes "ingress_open C rx key fp e wire now = (rx', out)" and C: "xchacha_law C"
    and "\<nexists>ctr body r. length r = 8 \<and> wire = seal_datagram C key e ctr body r"
  shows "rx' = rx \<and> out = TunnelAuthFail"
proof (cases "length wire < 36 \<or> u32_be (slice 0 4 wire) \<noteq> e")
  case False
  have "xchacha_decrypt C key (tunnel_xnonce (u32_be (slice 0 4 wire)) (u64_be (slice 4 12 wire)) (slice 12 20 wire)) []
      (drop TUNNEL_HDR_LEN wire) = None"
  proof (rule ccontr)
    assume "\<not> ?thesis"
    then obtain body where "xchacha_decrypt C key (tunnel_xnonce (u32_be (slice 0 4 wire)) (u64_be (slice 4 12 wire)) (slice 12 20 wire)) []
      (drop TUNNEL_HDR_LEN wire) = Some body" by blast
    from opened_is_sealed [OF C _ this] have "wire = seal_datagram C key e (u64_be (slice 4 12 wire)) body (slice 12 20 wire)"
      using False by simp
    moreover have "length (slice 12 20 wire) = 8" using False by (auto simp: length_slice min_def)
    ultimately show False using assms(3) by blast
  qed
  then show ?thesis using assms(1) False by (simp add: ingress_open_def Let_def TUNNEL_HDR_LEN_def)
next
  case True
  then show ?thesis using assms(1) by (cases "length wire < 36") (simp_all add: ingress_open_def Let_def TUNNEL_HDR_LEN_def)
qed

lemma ingress_run_spec:
  assumes C: "xchacha_law C"
  shows "rx_tracks (rx (fp, e)) S \<Longrightarrow> ingress_run C rx key fp e evs = (rx', out) \<Longrightarrow>
    rx_tracks (rx' (fp, e)) (S \<union> fst ` set out) \<and> distinct (map fst out) \<and> S \<inter> fst ` set out = {}
    \<and> (\<forall>(ctr, body) \<in> set out. \<exists>now r. length r = 8 \<and> (now, seal_datagram C key e ctr body r) \<in> set evs)"
proof (induction evs arbitrary: rx S out)
  case (Cons ev evs)
  obtain now wire where ev: "ev = (now, wire)" by fastforce
  obtain rx1 o1 where step: "ingress_open C rx key fp e wire now = (rx1, o1)" by fastforce
  show ?case
  proof (cases "\<exists>ctr body r. length r = 8 \<and> wire = seal_datagram C key e ctr body r")
    case False
    then have "rx1 = rx" "o1 = TunnelAuthFail" using ingress_rejects [OF step C] by auto
    then have "ingress_run C rx key fp e evs = (rx', out)" using Cons.prems(2) by (simp add: ev step)
    from Cons.IH [OF Cons.prems(1) this] show ?thesis by fastforce
  next
    case True
    then obtain ctr body r where w: "length r = 8" "wire = seal_datagram C key e ctr body r" by blast
    have c: "u64_be (slice 4 12 wire) = ctr" using sealed_fields(2) [OF w(1)] w(2) by simp
    let ?ok = "window_live rx fp e now \<and> ctr \<notin> S \<and> (\<forall>c \<in> S. unat c < unat ctr + 128)"
    obtain adv where o1: "o1 = (if ?ok then TunnelAccepted body adv else TunnelReplay)"
      and t1: "rx_tracks (rx1 (fp, e)) (if ?ok then insert ctr S else S)"
      using ingress_accepts [where rx = rx and fp = fp and e = e, OF C Cons.prems(1) w(1), of key ctr body now] step w(2) by auto
    show ?thesis
    proof (cases ?ok)
      case True
      then have "o1 = TunnelAccepted body adv" unfolding o1 by (rule if_P)
      then have "(case ingress_run C rx1 key fp e evs of (rx2, out1) \<Rightarrow> (rx2, (ctr, body) # out1)) = (rx', out)"
        using Cons.prems(2) by (simp add: ev step c)
      then obtain out' where run: "ingress_run C rx1 key fp e evs = (rx', out')" "out = (ctr, body) # out'"
        by (cases "ingress_run C rx1 key fp e evs") auto
      have t2: "rx_tracks (rx1 (fp, e)) (insert ctr S)" using t1 True by simp
      note ih = Cons.IH [OF t2 run(1)]
      have "(now, seal_datagram C key e ctr body r) \<in> set (ev # evs)" using w(2) by (simp add: ev)
      then show ?thesis using ih True w(1) run(2) by fastforce
    next
      case no: False
      then have "o1 = TunnelReplay" unfolding o1 by (rule if_not_P)
      then have "ingress_run C rx1 key fp e evs = (rx', out)" using Cons.prems(2) by (simp add: ev step)
      moreover have "rx_tracks (rx1 (fp, e)) S" using t1 no by simp
      ultimately show ?thesis using Cons.IH [of rx1 S out] by fastforce
    qed
  qed
qed simp

text \<open>
  C39. Tunnel datagrams open exactly once. Whatever arrives for a client in a fresh epoch, the accepted
  packets are datagrams sealed under its key, no counter is accepted twice, and a datagram sealed
  under the key is accepted next exactly if the window has not timed out, its counter was not accepted
  before, and it is less than 128 behind every accepted one.
\<close>

theorem tunnel_datagrams_open_exactly_once:
  assumes "xchacha_law C" and "rx (fp, e) = None" and "ingress_run C rx key fp e evs = (rx', out)" and "length r = 8"
  shows "distinct (map fst out)
    \<and> (\<forall>(c, p) \<in> set out. \<exists>at s. length s = 8 \<and> (at, seal_datagram C key e c p s) \<in> set evs)
    \<and> ((\<exists>adv. snd (ingress_open C rx' key fp e (seal_datagram C key e ctr body r) now) = TunnelAccepted body adv)
       \<longleftrightarrow> window_live rx' fp e now \<and> ctr \<notin> fst ` set out \<and> (\<forall>c \<in> fst ` set out. unat c < unat ctr + 128))"
proof -
  have "rx_tracks (rx (fp, e)) {}" using assms(2) by (simp add: rx_tracks_def)
  note run = ingress_run_spec [OF assms(1) this assms(3)]
  then have "rx_tracks (rx' (fp, e)) (fst ` set out)" by simp
  let ?Q = "window_live rx' fp e now \<and> ctr \<notin> fst ` set out \<and> (\<forall>c \<in> fst ` set out. unat c < unat ctr + 128)"
  have "\<exists>adv. snd (ingress_open C rx' key fp e (seal_datagram C key e ctr body r) now) = (if ?Q then TunnelAccepted body adv else TunnelReplay)"
    using ingress_accepts [where rx = rx' and fp = fp and e = e, OF assms(1) \<open>rx_tracks (rx' (fp, e)) (fst ` set out)\<close> assms(4), of key ctr body now]
    by (elim exE conjE) (simp only: snd_conv, blast)
  then have "(\<exists>adv. snd (ingress_open C rx' key fp e (seal_datagram C key e ctr body r) now) = TunnelAccepted body adv) \<longleftrightarrow> ?Q"
    by (rule decided_outcome)
  then show ?thesis using run by blast
qed

theorem tunnel_datagrams_open_exactly_once_witness:
  "\<exists>adv. snd (ingress_open demo_crates Map.empty [1] [2] 1 (seal_datagram demo_crates [1] 1 5 [69, 0] (zeros 8)) 3) = TunnelAccepted [69, 0] adv"
  using tunnel_datagrams_open_exactly_once [of demo_crates Map.empty "[2]" 1 "[1]" "[]" Map.empty "[]" "zeros 8" 5 "[69, 0]" 3] demo_laws
  by (simp add: window_live_def)

section \<open>Flows are bounded\<close>

definition keys_of :: "flow_table \<Rightarrow> flow_key list" where "keys_of ft = map fst (ft_flows ft)"

definition flows_ok :: "flow_table \<Rightarrow> bool" where
  "flows_ok ft \<longleftrightarrow>
     distinct (keys_of ft) \<and> (\<forall>(k, f) \<in> set (ft_flows ft). uf_key f = k)
     \<and> length (keys_of ft) \<le> UDP_FLOWS_GLOBAL
     \<and> (\<forall>fp. length (filter (\<lambda>k. fk_fp k = fp) (keys_of ft)) \<le> UDP_FLOWS_PER_FP)
     \<and> (\<forall>p k. ft_by_port ft p = Some k \<longrightarrow> (\<exists>f. map_of (ft_flows ft) k = Some f \<and> uf_local_port f = p))"

lemma flows_of_keys: "flows_ok ft \<Longrightarrow> flows_of fp (ft_flows ft) = length (filter (\<lambda>k. fk_fp k = fp) (keys_of ft))"
proof -
  assume "flows_ok ft"
  then have "filter (\<lambda>(k, f). fk_fp (uf_key f) = fp) (ft_flows ft) = filter (\<lambda>x. fk_fp (fst x) = fp) (ft_flows ft)"
    by (intro filter_cong) (auto simp: flows_ok_def)
  then show ?thesis unfolding flows_of_def keys_of_def by (simp add: filter_map comp_def)
qed

lemma filter_shrinks: "length (filter P (filter Q xs)) \<le> length (filter P xs)"
  by (induction xs) auto

text \<open>Dropping flows keeps everything in order.\<close>

lemma keys_retain: "keys_of (retain_flows keep ft) = map fst (filter (\<lambda>(k, f). keep k f) (ft_flows ft))"
  by (simp add: keys_of_def retain_flows_def)

lemma retain_flows_ok:
  assumes ok: "flows_ok ft"
  shows "flows_ok (retain_flows keep ft)"
proof -
  let ?fs = "filter (\<lambda>(k, f). keep k f) (ft_flows ft)"
  have d: "distinct (map fst (ft_flows ft))" using ok by (simp add: flows_ok_def keys_of_def)
  have d': "distinct (map fst ?fs)" using d by (rule distinct_map_filter)
  have "length (filter (\<lambda>k. fk_fp k = fp) (map fst ?fs)) \<le> UDP_FLOWS_PER_FP" for fp
  proof -
    have "length (filter (\<lambda>k. fk_fp k = fp) (map fst ?fs)) \<le> length (filter (\<lambda>k. fk_fp k = fp) (map fst (ft_flows ft)))"
      using filter_shrinks [of "\<lambda>x. fk_fp (fst x) = fp" "\<lambda>(k, f). keep k f" "ft_flows ft"] by (simp add: filter_map comp_def)
    also have "\<dots> \<le> UDP_FLOWS_PER_FP" using ok by (simp add: flows_ok_def keys_of_def)
    finally show ?thesis .
  qed
  moreover have "length (map fst ?fs) \<le> UDP_FLOWS_GLOBAL"
    using ok by (auto simp: flows_ok_def keys_of_def intro: order_trans [OF length_filter_le])
  moreover have "\<exists>f. map_of ?fs k = Some f \<and> uf_local_port f = p"
    if p: "ft_by_port ft p = Some k" "\<not> (\<exists>(k, f) \<in> set (ft_flows ft). \<not> keep k f \<and> uf_local_port f = p)" for p k
  proof -
    obtain f where f: "map_of (ft_flows ft) k = Some f" "uf_local_port f = p" using ok p(1) unfolding flows_ok_def by blast
    then have "(k, f) \<in> set ?fs" using p(2) map_of_SomeD [OF f(1)] by auto
    then have "map_of ?fs k = Some f" using d' by (rule map_of_is_SomeI [rotated])
    then show ?thesis using f(2) by blast
  qed
  ultimately show ?thesis using ok d' unfolding flows_ok_def keys_retain
    by (auto simp: retain_flows_def split: if_splits)
qed

lemma least_recent_mem: "least_recent fs = Some f \<Longrightarrow> f \<in> set fs"
  by (induction fs arbitrary: f) (auto split: option.splits if_splits)

lemma least_recent_None: "least_recent fs = None \<longleftrightarrow> fs = []"
  by (cases fs) (auto split: option.splits)

text \<open>Evicting removes one flow, of the given client if one is named.\<close>

lemma evict_as_retain:
  assumes ok: "flows_ok ft" and v: "least_recent (filter P (map snd (ft_flows ft))) = Some v"
  shows "\<exists>keep. ft\<lparr>ft_flows := AList.delete (uf_key v) (ft_flows ft), ft_by_port := (ft_by_port ft)(uf_local_port v := None)\<rparr> = retain_flows keep ft"
    and "length (filter (\<lambda>k. fk_fp k = fk_fp (uf_key v)) (map fst (AList.delete (uf_key v) (ft_flows ft))))
      < length (filter (\<lambda>k. fk_fp k = fk_fp (uf_key v)) (keys_of ft))"
    and "length (AList.delete (uf_key v) (ft_flows ft)) < length (ft_flows ft)" and "P v"
proof -
  obtain k where m: "(k, v) \<in> set (ft_flows ft)" "P v" using least_recent_mem [OF v] by auto
  then have k: "k = uf_key v" using ok by (auto simp: flows_ok_def)
  have only: "f = v" if "(k, f) \<in> set (ft_flows ft)" for f
    using that m ok by (auto simp: flows_ok_def keys_of_def dest: eq_key_imp_eq_value)
  show "\<exists>keep. ft\<lparr>ft_flows := AList.delete (uf_key v) (ft_flows ft), ft_by_port := (ft_by_port ft)(uf_local_port v := None)\<rparr> = retain_flows keep ft"
  proof (intro exI [of _ "\<lambda>k' f. k' \<noteq> uf_key v"])
    have "AList.delete (uf_key v) (ft_flows ft) = filter (\<lambda>(k', f). k' \<noteq> uf_key v) (ft_flows ft)"
      unfolding AList.delete_eq by (rule filter_cong) auto
    moreover have "(\<exists>(k', f) \<in> set (ft_flows ft). \<not> k' \<noteq> uf_key v \<and> uf_local_port f = p) \<longleftrightarrow> p = uf_local_port v" for p
    proof
      assume "\<exists>(k', f) \<in> set (ft_flows ft). \<not> k' \<noteq> uf_key v \<and> uf_local_port f = p"
      then obtain f where "(k, f) \<in> set (ft_flows ft)" "uf_local_port f = p" unfolding k by blast
      then show "p = uf_local_port v" using only by blast
    next
      assume "p = uf_local_port v"
      then show "\<exists>(k', f) \<in> set (ft_flows ft). \<not> k' \<noteq> uf_key v \<and> uf_local_port f = p" using m(1) unfolding k by blast
    qed
    then have "(ft_by_port ft)(uf_local_port v := None)
        = (\<lambda>p. if \<exists>(k', f) \<in> set (ft_flows ft). \<not> k' \<noteq> uf_key v \<and> uf_local_port f = p then None else ft_by_port ft p)"
      by (simp only: fun_upd_def)
    ultimately show "ft\<lparr>ft_flows := AList.delete (uf_key v) (ft_flows ft), ft_by_port := (ft_by_port ft)(uf_local_port v := None)\<rparr>
        = retain_flows (\<lambda>k' f. k' \<noteq> uf_key v) ft"
      unfolding retain_flows_def by presburger
  qed
  show "length (AList.delete (uf_key v) (ft_flows ft)) < length (ft_flows ft)"
    unfolding AList.delete_eq by (rule length_filter_less [OF m(1)]) (simp add: k)
  have "length (filter (\<lambda>x. fst x \<noteq> k) (filter (\<lambda>x. fk_fp (fst x) = fk_fp k) (ft_flows ft)))
      < length (filter (\<lambda>x. fk_fp (fst x) = fk_fp k) (ft_flows ft))"
    by (rule length_filter_less [of "(k, v)"]) (use m in auto)
  then show "length (filter (\<lambda>k. fk_fp k = fk_fp (uf_key v)) (map fst (AList.delete (uf_key v) (ft_flows ft))))
      < length (filter (\<lambda>k. fk_fp k = fk_fp (uf_key v)) (keys_of ft))"
    by (simp add: AList.delete_eq filter_map comp_def keys_of_def k case_prod_unfold conj_commute eq_commute)
  show "P v" by (rule m(2))
qed

lemma evict_lru_ok: "flows_ok ft \<Longrightarrow> flows_ok (evict_lru_for ft fp)"
  using evict_as_retain(1) retain_flows_ok unfolding evict_lru_for_def
  by (auto split: option.splits) (metis (no_types, lifting))+

lemma update_absent: "k \<notin> set (map fst al) \<Longrightarrow> AList.update k v al = al @ [(k, v)]"
  by (induction al) auto

lemma flows_ok_put:
  assumes ok: "flows_ok ft" and new: "map_of (ft_flows ft) key = None" and room: "length (ft_flows ft) < UDP_FLOWS_GLOBAL"
    and own: "length (filter (\<lambda>k. fk_fp k = fk_fp key) (keys_of ft)) < UDP_FLOWS_PER_FP" and f: "uf_key f = key"
    and by_port: "by_port = ft_by_port ft \<or> by_port = (ft_by_port ft)(uf_local_port f \<mapsto> key)"
  shows "flows_ok (ft\<lparr>ft_flows := AList.update key f (ft_flows ft), ft_by_port := by_port\<rparr>)"
proof -
  have nk: "key \<notin> set (map fst (ft_flows ft))" using new by (simp add: map_of_eq_None_iff)
  have al: "AList.update key f (ft_flows ft) = ft_flows ft @ [(key, f)]" using update_absent [OF nk] .
  have live: "\<exists>g. map_of (ft_flows ft @ [(key, f)]) k = Some g \<and> uf_local_port g = p" if p: "ft_by_port ft p = Some k" for p k
  proof -
    obtain g where "map_of (ft_flows ft) k = Some g" "uf_local_port g = p" using ok p unfolding flows_ok_def by blast
    then show ?thesis by (auto simp: map_add_find_right)
  qed
  have "map_of (ft_flows ft @ [(key, f)]) key = Some f" using new by (simp add: map_add_def)
  then have "\<exists>g. map_of (ft_flows ft @ [(key, f)]) k = Some g \<and> uf_local_port g = p" if "by_port p = Some k" for p k
    using that by_port live [of p k] by (metis fun_upd_apply option.inject)
  then show ?thesis using ok room own f nk unfolding flows_ok_def al by (auto simp: keys_of_def)
qed

lemma flows_ok_refresh:
  assumes ok: "flows_ok ft" and f: "map_of (ft_flows ft) key = Some f"
  shows "flows_ok (ft\<lparr>ft_flows := AList.update key (f\<lparr>uf_last_seen := now\<rparr>) (ft_flows ft)\<rparr>)"
proof -
  have k: "key \<in> set (map fst (ft_flows ft))" "uf_key f = key" using f ok map_of_SomeD [OF f] by (force simp: flows_ok_def)+
  have keys: "map fst (AList.update key (f\<lparr>uf_last_seen := now\<rparr>) (ft_flows ft)) = map fst (ft_flows ft)"
    using k(1) by (simp add: update_keys)
  have "uf_key g = k'" if "(k', g) \<in> set (AList.update key (f\<lparr>uf_last_seen := now\<rparr>) (ft_flows ft))" for k' g
  proof -
    have "map_of (AList.update key (f\<lparr>uf_last_seen := now\<rparr>) (ft_flows ft)) k' = Some g"
      using that ok keys by (intro map_of_is_SomeI) (simp_all add: flows_ok_def keys_of_def)
    then show ?thesis using ok k(2) by (auto simp: update_conv' flows_ok_def dest!: map_of_SomeD split: if_splits)
  qed
  moreover have "\<exists>g. map_of (AList.update key (f\<lparr>uf_last_seen := now\<rparr>) (ft_flows ft)) k' = Some g \<and> uf_local_port g = p"
    if "ft_by_port ft p = Some k'" for p k'
    using that ok f unfolding flows_ok_def by (force simp: update_conv')
  ultimately show ?thesis using ok unfolding flows_ok_def by (auto simp: keys_of_def keys)
qed

lemma evicted_room:
  assumes ok: "flows_ok ft"
  shows "UDP_FLOWS_PER_FP \<le> flows_of fp (ft_flows ft) \<Longrightarrow>
      length (filter (\<lambda>k. fk_fp k = fp) (keys_of (evict_lru_for ft (Some fp)))) < UDP_FLOWS_PER_FP"
    and "length (filter (\<lambda>k. fk_fp k = g) (keys_of (evict_lru_for ft o1))) \<le> length (filter (\<lambda>k. fk_fp k = g) (keys_of ft))"
    and "map_of (ft_flows ft) key = None \<Longrightarrow> map_of (ft_flows (evict_lru_for ft o1)) key = None"
proof -
  show "length (filter (\<lambda>k. fk_fp k = g) (keys_of (evict_lru_for ft o1))) \<le> length (filter (\<lambda>k. fk_fp k = g) (keys_of ft))"
    using filter_shrinks [of "\<lambda>x. fk_fp (fst x) = g" _ "ft_flows ft"]
    by (simp add: evict_lru_for_def keys_of_def AList.delete_eq filter_map comp_def split: option.split)
  show "map_of (ft_flows ft) key = None \<Longrightarrow> map_of (ft_flows (evict_lru_for ft o1)) key = None"
    by (simp add: evict_lru_for_def delete_conv' split: option.split)
  assume full: "UDP_FLOWS_PER_FP \<le> flows_of fp (ft_flows ft)"
  let ?P = "\<lambda>f. case Some fp of None \<Rightarrow> True | Some p \<Rightarrow> fk_fp (uf_key f) = p"
  have "filter ?P (map snd (ft_flows ft)) \<noteq> []"
  proof -
    have "length (filter ?P (map snd (ft_flows ft))) = flows_of fp (ft_flows ft)"
      unfolding flows_of_def by (simp add: filter_map comp_def case_prod_unfold)
    then have "0 < length (filter ?P (map snd (ft_flows ft)))" using full by (simp only: UDP_FLOWS_PER_FP_def)
    then show ?thesis by blast
  qed
  then obtain v where v: "least_recent (filter ?P (map snd (ft_flows ft))) = Some v" by (metis least_recent_None not_None_eq)
  have fp: "fk_fp (uf_key v) = fp" using evict_as_retain(4) [OF ok v] by simp
  have "keys_of (evict_lru_for ft (Some fp)) = map fst (AList.delete (uf_key v) (ft_flows ft))"
    using v by (simp add: evict_lru_for_def keys_of_def)
  moreover have "length (filter (\<lambda>k. fk_fp k = fp) (keys_of ft)) \<le> UDP_FLOWS_PER_FP" using ok by (simp add: flows_ok_def)
  ultimately show "length (filter (\<lambda>k. fk_fp k = fp) (keys_of (evict_lru_for ft (Some fp)))) < UDP_FLOWS_PER_FP"
    using evict_as_retain(2) [OF ok v] unfolding fp by simp
qed

lemma get_or_create_ok:
  assumes ok: "flows_ok ft"
  shows "flows_ok (fst (get_or_create ft key bound now))"
proof (cases "map_of (ft_flows ft) key")
  case None
  define ft1 where "ft1 = (if flows_of (fk_fp key) (ft_flows ft) \<ge> UDP_FLOWS_PER_FP then evict_lru_for ft (Some (fk_fp key)) else ft)"
  define ft2 where "ft2 = (if length (ft_flows ft1) \<ge> UDP_FLOWS_GLOBAL then evict_lru_for ft1 None else ft1)"
  have ok1: "flows_ok ft1" "map_of (ft_flows ft1) key = None"
    "length (filter (\<lambda>k. fk_fp k = fk_fp key) (keys_of ft1)) < UDP_FLOWS_PER_FP"
    using ok None evict_lru_ok evicted_room(1,3) [OF ok] flows_of_keys [OF ok] by (auto simp: ft1_def not_le)
  have ok2: "flows_ok ft2" "map_of (ft_flows ft2) key = None"
    "length (filter (\<lambda>k. fk_fp k = fk_fp key) (keys_of ft2)) < UDP_FLOWS_PER_FP"
    using ok1 evict_lru_ok evicted_room(3) [OF ok1(1)] le_less_trans [OF evicted_room(2) [OF ok1(1)]] by (simp_all add: ft2_def)
  show ?thesis
  proof (cases "length (ft_flows ft2) < UDP_FLOWS_GLOBAL \<and> bound \<noteq> None")
    case True
    then obtain port where b: "bound = Some port" by blast
    let ?f = "\<lparr>uf_key = key, uf_local_port = port, uf_last_seen = now, uf_is_dns = (sa_port (fk_dst key) = 53)\<rparr>"
    let ?bp = "if port \<noteq> 0 then (ft_by_port ft2)(port \<mapsto> key) else ft_by_port ft2"
    have "flows_ok (ft2\<lparr>ft_flows := AList.update key ?f (ft_flows ft2), ft_by_port := ?bp\<rparr>)"
      by (rule flows_ok_put [OF ok2(1,2) conjunct1 [OF True] ok2(3)]) simp_all
    moreover have "fst (get_or_create ft key bound now) = ft2\<lparr>ft_flows := AList.update key ?f (ft_flows ft2), ft_by_port := ?bp\<rparr>"
      unfolding get_or_create_def Let_def ft1_def [symmetric] ft2_def [symmetric] using None b True by simp
    ultimately show ?thesis by simp
  next
    case False
    then have "fst (get_or_create ft key bound now) = ft2"
      unfolding get_or_create_def Let_def ft1_def [symmetric] ft2_def [symmetric] using None by (auto split: option.split)
    then show ?thesis using ok2(1) by simp
  qed
qed (use ok flows_ok_refresh in \<open>simp add: get_or_create_def Let_def\<close>)

text \<open>Everything the hub does to the table of flows.\<close>

datatype flow_op = Use flow_key "u16 option" | SweepFlows | EvictClient bytes | ClearFlows

fun flow_step :: "flow_table \<Rightarrow> instant \<times> flow_op \<Rightarrow> flow_table" where
  "flow_step ft (now, Use k bound) = fst (get_or_create ft k bound now)"
| "flow_step ft (now, SweepFlows) = fst (flows_sweep ft now)"
| "flow_step ft (now, EvictClient fp) = fst (flows_evict_for ft fp)"
| "flow_step ft (now, ClearFlows) = flows_clear ft"

lemma flows_drop_ok:
  assumes "flows_ok ft"
  shows "flows_ok (fst (flows_sweep ft now))" "flows_ok (fst (flows_evict_for ft fp))" "flows_ok (flows_clear ft)"
  using retain_flows_ok [OF assms] by (simp_all add: flows_sweep_def flows_evict_for_def Let_def)
    (simp add: flows_clear_def flows_ok_def keys_of_def)

lemma flow_step_ok: "flows_ok ft \<Longrightarrow> flows_ok (flow_step ft ev)"
  by (cases ev rule: prod.exhaust, rename_tac now e, case_tac e) (simp_all only: flow_step.simps get_or_create_ok flows_drop_ok)

interpretation flows: state_machine flow_step flows_ok
  by unfold_locales (rule flow_step_ok)

lemma flows_ok_new: "flows_ok (flow_table_with_timing d g)"
  by (simp add: flow_table_with_timing_def flows_ok_def keys_of_def)

text \<open>
  C40. UDP flows are bounded. Whatever clients send and whatever ports binding returns, the hub never holds
  more than 1024 flows nor more than 64 of one client, and the flow found for a local port is a live
  flow with that port.
\<close>

theorem udp_flows_are_bounded:
  fixes es :: "(instant \<times> flow_op) list"
  defines "ft \<equiv> foldl flow_step flow_table_new es"
  shows "length (ft_flows ft) \<le> 1024 \<and> count_for ft fp \<le> 64
    \<and> (\<forall>k. flow_for_local_port ft p = Some k \<longrightarrow> (\<exists>f. map_of (ft_flows ft) k = Some f \<and> uf_local_port f = p))"
proof -
  have ok: "flows_ok ft" unfolding ft_def flow_table_new_def by (rule flows.run_inv [OF flows_ok_new])
  have "count_for ft fp = length (filter (\<lambda>k. fk_fp k = fp) (keys_of ft))"
    unfolding count_for_def keys_of_def by (simp add: filter_map comp_def case_prod_unfold)
  moreover have "length (ft_flows ft) \<le> 1024" "length (filter (\<lambda>k. fk_fp k = fp) (keys_of ft)) \<le> 64"
    using ok by (simp_all only: flows_ok_def keys_of_def UDP_FLOWS_GLOBAL_def UDP_FLOWS_PER_FP_def length_map)
  ultimately show ?thesis using ok unfolding flows_ok_def flow_for_local_port_def by simp
qed

definition demo_key :: flow_key where
  "demo_key = \<lparr>fk_fp = [1], fk_overlay_src = (10, 66, 0, 10), fk_overlay_port = 4000, fk_dst = demo_addr\<rparr>"

theorem udp_flows_are_bounded_witness:
  "\<exists>f. map_of (ft_flows (foldl flow_step flow_table_new [(0, Use demo_key (Some 5353))])) demo_key = Some f \<and> uf_local_port f = 5353"
proof -
  have "flow_for_local_port (foldl flow_step flow_table_new [(0, Use demo_key (Some 5353))]) 5353 = Some demo_key"
    by (simp add: flow_for_local_port_def get_or_create_def flow_table_new_def flow_table_with_timing_def flows_of_def
        UDP_FLOWS_PER_FP_def UDP_FLOWS_GLOBAL_def Let_def)
  then show ?thesis using udp_flows_are_bounded [where es = "[(0, Use demo_key (Some 5353))]" and p = 5353] by blast
qed

end
