(* ===== verification/Spec2Isabelle.thy ===== *)
theory Spec2Isabelle
  imports Reassembly HandlePkt Tunnel Ice VpnTunnel
begin

text \<open>
  Vantablack (GhostNet): a verification of the peer-to-peer overlay in src/src.

  The program. A node has a long-lived hybrid identity (Ed25519 and ML-DSA keys). Two nodes run a
  hybrid handshake (X25519 and ML-KEM) whose messages are signed, erasure-coded into three shards
  and sent as GTF frames; each ends with a session: a master key, a per-direction chain of message
  keys, a replay guard and the peer's identity with a commitment to its post-quantum key. Until the
  peer has proved possession of that key over the new session, the session carries no application
  data. After that every payload is sealed, split by RS(2,1) and sent in three frames, any two of
  which are enough; the receiver spools shards, reassembles, opens and checks for replay. A session
  is renewed by ratchet steps and quantum mixes, themselves signed PDUs inside the session.
  Application payloads are peer exchange, chat, relay envelopes and onions, and tunnels through exit
  nodes that are guarded by an allowlist, a host policy and vouchers.

  \<^bold>\<open>Theories and sources.\<close> Files are under src/src; every definition carries the source's name where
  HOL allows it.

  \<^item> \<open>Prelude\<close>: machine integers as words, byte strings, slices, endianness, the result type \<open>rust\<close>
    (\<open>Ok\<close>, \<open>Err\<close>, \<open>Panic\<close>), the interfaces \<open>wire_codec\<close> and \<open>state_machine\<close>. \<open>Utf8\<close>: the checks
    behind Rust's strings.
  \<^item> \<open>Crates\<close>: the third-party primitives as a record of functions, with their documented laws as
    predicates and one instance that satisfies all of them.
  \<^item> \<open>Identity\<close> (ghost/layers/l0_identity.rs), \<open>Handshake\<close> and \<open>Kdf\<close> (l1_kem.rs), \<open>L2_Aead\<close> (l2_aead.rs),
    \<open>L4_RS\<close> (l4_rs.rs), \<open>L6_Session\<close> (l6_session.rs): the layers.
  \<^item> \<open>Ratchet\<close> (ghost/session/ratchet.rs), \<open>Session\<close> and \<open>SessionPdu\<close> (ghost/session/mod.rs): the state of
    a session and its control PDUs.
  \<^item> \<open>Gtf\<close> and \<open>Transport\<close> (ghost/net/mod.rs), \<open>ShardSec\<close> (net/shardsec.rs), \<open>Coalesce\<close> (net/coalesce.rs),
    \<open>Reassembly\<close> (net/reassembly.rs), \<open>Node\<close> (ghost/mod.rs and net/dispatcher.rs): frames, shards and
    queues.
  \<^item> \<open>Establish\<close>, \<open>PqAuth\<close>, \<open>HandlePkt\<close>, \<open>Rekey\<close>, \<open>Spool\<close>, \<open>Receive\<close>, \<open>Deliver\<close>, \<open>Tunnel\<close> (main.rs): the
    daemon's handlers, composed as \<open>handle_pkt\<close> composes them. The record \<open>node\<close> of \<open>Establish\<close> is
    the daemon's shared state (identity, sessions, peers, pending handshakes); tunnels and their
    reorder buffers are in the record of \<open>Tunnel\<close>.
  \<^item> \<open>Relay\<close> and \<open>Vouchers\<close> (net/relay.rs): envelopes and onions, the blind relay, capabilities, quotas,
    mixing and the exit policy.
  \<^item> \<open>Stun\<close> (net/stun.rs), \<open>Turn\<close> (net/turn.rs) and \<open>Ice\<close> (net/ice.rs): NAT traversal. Messages and their
    digests; the TURN server and client over lists of received datagrams; the ICE agent with its check
    list and connectivity checks. HMAC-SHA1 and MD5 are the fields of the record \<open>stun_crates\<close>.
  \<^item> \<open>Vpn\<close> and \<open>VpnTunnel\<close> (net/vpn/mod.rs and client.rs): leases of overlay addresses and the re-anchor
    ladder; UDP flows, tunnel datagrams, replay windows, the client and its watchdog.

  \<^bold>\<open>Conventions.\<close> Maps, mutexes and atomics are plain state and every handler runs to its end, as under
  the locks of the code; a handler returns the new state together with what it sends. Time and
  random values are arguments. Errors and panics are values. Integers keep their width, and \<open>as\<close>
  casts are \<open>ucast\<close> or \<open>of_nat\<close>; lengths are \<open>nat\<close>.

  \<^bold>\<open>What is shown.\<close>
  \<^item> End to end: a handshake over a transport that loses one shard of each message establishes
    agreeing sessions (\<open>Establish\<close>), the identity proof authenticates them (\<open>PqAuth\<close>), a ratchet step
    renews them (\<open>Rekey\<close>) and a message crosses the path in both sealing modes (\<open>Deliver\<close>).
  \<^item> Security of each gate: sessions appear only by signed handshakes (\<open>HandlePkt\<close>), authentication
    needs a verified binding (\<open>PqAuth\<close>), control PDUs need the pinned key (\<open>Rekey\<close>), payloads handed to
    applications are authenticated (\<open>Deliver\<close>), exits open for authorised peers only (\<open>Tunnel\<close>), the
    blind relay serves session peers only (\<open>Relay\<close>), replays are refused (\<open>L6_Session\<close>, \<open>Ratchet\<close>,
    \<open>Session\<close>, \<open>VpnTunnel\<close>), a TURN server relays only for granted peers (\<open>Turn\<close>), and only datagrams with a
    valid digest change an ICE agent (\<open>Ice\<close>).
  \<^item> NAT traversal and VPN: a TURN client obtains an allocation and two ICE agents connect, both end to
    end over encoded messages; role conflicts resolve; overlay addresses are exclusive and the pool is
    used up before a client is refused.
  \<^item> Refinement: the two replay guards are interpretations of one window interface whose bitmask
    represents the set of accepted counters; ratchet exchanges refine "both ends agree on the next
    epoch"; the TURN server refines changes of single allocations; relay quotas are interpretations of one meter interface.
  \<^item> Codecs: every wire format has its round trip, and for the offer, the exit capability and UTF-8
    names exactness of the parser.
  \<^item> Bounds and termination: windows, spool, skipped keys, retained epochs, shaper rate, quotas; the
    push loop of the coalescing queue is a \<open>partial_function\<close> in the option monad, proved to return
    for every positive batch size and not to return for zero. All other loops are structural or
    have a measure; no fuel is used, except the route length of an onion, which bounds the hops.
  \<^item> Where the code does not do what it says, a theorem states what it does: shards injected across
    sealing modes, forged offers that end sessions, odd-length suite handshakes lost in sharding,
    streams that stall, data taken for CONNECT requests, panics on large onions, attributes appended to
    signed STUN messages, channels that outlive their permission, candidate pairs that stay frozen.

  \<^bold>\<open>Not modelled.\<close> Asynchronous loops, sockets, threads, files other than the identity file, logging and
  statistics; the carriers (QUIC, fallback, SDR bridge), the TUN device, the hub and the user-space
  TCP/IP stack of the VPN, the text form of ICE offers, the desktop, web and command-line front ends; floating-point estimators
  (congestion control, routing costs, orbit prediction); memory locking; the HTTP client of the
  quantum key service; the separate radio stack under src/abos. Zeroising of dropped keys has no
  effect on the model. Timing is not modelled, so nothing is claimed about side channels.
\<close>

end
